(* ===== verification/Ipa_Prelude.thy ===== *)
theory Ipa_Prelude
  imports Main "HOL-Library.Word" "HOL-Library.Multiset"
begin

unbundle bit_operations_syntax

text \<open>
  Shared ground of the IPA driver development: the return codes of the driver's functions,
  the collections of simplification rules the component theories fill, and the generic
  lemmas on bit masks, lists and finite sums that more than one component uses.
\<close>

section \<open>Return codes\<close>

text \<open>
  Functions of the driver return 0 or a negative errno. The errno constants are those the
  modelled code returns; \<open>EOther\<close> carries a value that an unmodelled callee returned.
\<close>

datatype errno =
    EPERM | EINVAL | ENOMEM | EEXIST | ENOBUFS | EINPROGRESS | EFAULT | EBUSY | EOther int

datatype rc = OK | Err errno

text \<open>The numbers of the kernel, and a negative one read as an unsigned 32-bit value.\<close>

fun errno_no :: "errno \<Rightarrow> int" where
  "errno_no EPERM = 1"
| "errno_no ENOMEM = 12"
| "errno_no EFAULT = 14"
| "errno_no EBUSY = 16"
| "errno_no EEXIST = 17"
| "errno_no EINVAL = 22"
| "errno_no ENOBUFS = 105"
| "errno_no EINPROGRESS = 115"
| "errno_no (EOther i) = i"

definition err_u32 :: "errno \<Rightarrow> nat" where
  "err_u32 err = nat (- errno_no err mod 2 ^ 32)"

fun failed :: "rc \<Rightarrow> bool" where
  "failed OK = False"
| "failed (Err e) = True"

text \<open>
  A call that waits on a completion either blocks or returns a value with the new state.
\<close>

datatype 'a outcome = Blocked | Ret 'a

fun returns :: "'a outcome \<Rightarrow> bool" where
  "returns Blocked = False"
| "returns (Ret x) = True"

lemma returns_iff: "returns r \<longleftrightarrow> (\<exists>x. r = Ret x)"
  by (cases r) auto

type_synonym u32 = "32 word"

named_theorems frame_simps \<open>which fields an operation leaves alone\<close>
named_theorems ipa_defs \<open>small definitions that proofs unfold freely\<close>

section \<open>Bits of a 32-bit mask\<close>

text \<open>The C expression \<open>1 << h\<close> on a 32-bit mask.\<close>

definition bit_of :: "nat \<Rightarrow> u32" where
  "bit_of h = push_bit h 1"

lemma bit_bit_of: "bit (bit_of h) i \<longleftrightarrow> i = h \<and> h < 32"
  by (auto simp: bit_of_def bit_simps)

lemma bit_set_mask: "bit (m OR bit_of h) i \<longleftrightarrow> bit m i \<or> (i = h \<and> h < 32)"
  by (simp add: bit_or_iff bit_bit_of)

lemma bit_clear_mask: "bit (m AND NOT (bit_of h)) i \<longleftrightarrow> bit m i \<and> i \<noteq> h"
  using bit_imp_le_length [of m i] by (auto simp: bit_and_iff bit_not_iff bit_bit_of)

lemma mask_subset_iff: "a AND NOT b = 0 \<longleftrightarrow> (\<forall>i. bit a i \<longrightarrow> bit b i)" for a b :: u32
  using bit_imp_le_length [of a] by (auto simp: bit_eq_iff bit_and_iff bit_not_iff)

lemma mask_test_iff: "m AND bit_of h \<noteq> 0 \<longleftrightarrow> bit m h"
proof
  assume "m AND bit_of h \<noteq> 0"
  then obtain i where "bit (m AND bit_of h) i" by (auto simp: bit_eq_iff)
  then show "bit m h" by (auto simp: bit_and_iff bit_bit_of)
next
  assume *: "bit m h"
  then have "h < 32" using bit_imp_le_length [of m h] by simp
  with * have "bit (m AND bit_of h) h" by (simp add: bit_and_iff bit_bit_of)
  then show "m AND bit_of h \<noteq> 0" by auto
qed

lemmas mask_simps = bit_set_mask bit_clear_mask mask_test_iff

section \<open>Counting the indices below a bound that satisfy a predicate\<close>

definition count_below :: "nat \<Rightarrow> (nat \<Rightarrow> bool) \<Rightarrow> int" where
  "count_below n P = int (card {h. h < n \<and> P h})"

lemma count_below_nonneg [simp]: "0 \<le> count_below n P"
  by (simp add: count_below_def)

lemma count_below_cong:
  assumes "\<And>h. h < n \<Longrightarrow> P h = Q h"
  shows "count_below n P = count_below n Q"
  using assms by (auto simp: count_below_def intro!: arg_cong [where f = card])

lemma count_below_insert:
  assumes "k < n" and "\<not> P k"
  shows "count_below n (\<lambda>h. h = k \<or> P h) = count_below n P + 1"
proof -
  have "{h. h < n \<and> (h = k \<or> P h)} = insert k {h. h < n \<and> P h}"
    using assms by auto
  then show ?thesis using assms by (simp add: count_below_def)
qed

lemma count_below_flip_on:
  assumes "k < n" "\<not> P k" "Q k" "\<And>h. h < n \<Longrightarrow> h \<noteq> k \<Longrightarrow> Q h = P h"
  shows "count_below n Q = count_below n P + 1"
proof -
  have "count_below n Q = count_below n (\<lambda>h. h = k \<or> P h)"
    using assms by (intro count_below_cong) blast
  then show ?thesis using assms count_below_insert by simp
qed

lemma count_below_flip_off:
  assumes "k < n" "P k" "\<not> Q k" "\<And>h. h < n \<Longrightarrow> h \<noteq> k \<Longrightarrow> Q h = P h"
  shows "count_below n Q = count_below n P - 1"
  using count_below_flip_on [of k n Q P] assms by auto

lemma count_below_pos:
  assumes "k < n" "P k"
  shows "1 \<le> count_below n P"
proof -
  have "k \<in> {h. h < n \<and> P h}" using assms by simp
  then have "0 < card {h. h < n \<and> P h}" by (intro card_gt_0_iff [THEN iffD2]) auto
  then show ?thesis by (simp add: count_below_def)
qed

section \<open>C strings\<close>

text \<open>Decimal rendering, as the \<open>%d\<close> and \<open>%0nlu\<close> conversions of \<open>snprintf\<close> give it.\<close>

fun show_digits :: "nat \<Rightarrow> nat \<Rightarrow> string" where
  "show_digits 0 n = []"
| "show_digits (Suc fuel) n =
     (if n < 10 then [char_of (48 + n)] else show_digits fuel (n div 10) @ [char_of (48 + n mod 10)])"

definition show_nat :: "nat \<Rightarrow> string" where
  "show_nat n = show_digits (Suc n) n"

definition show_int :: "int \<Rightarrow> string" where
  "show_int i = (if i < 0 then CHR ''-'' # show_nat (nat (- i)) else show_nat (nat i))"

definition pad_left :: "nat \<Rightarrow> char \<Rightarrow> string \<Rightarrow> string" where
  "pad_left w c s = replicate (w - length s) c @ s"

lemma show_digits_fuel: "n < fuel \<Longrightarrow> n < fuel' \<Longrightarrow> show_digits fuel n = show_digits fuel' n"
proof (induction fuel arbitrary: n fuel')
  case 0
  then show ?case by simp
next
  case (Suc fuel)
  then obtain k where "fuel' = Suc k" by (cases fuel') auto
  with Suc.prems Suc.IH [of "n div 10" k] show ?case by (auto simp: not_less)
qed


text \<open>
  A C string is the list of its characters before the terminating zero. \<open>strlcpy(dst, src,
  sz)\<close> copies at most \<open>sz - 1\<close> of them.
\<close>

definition strlcpy :: "nat \<Rightarrow> string \<Rightarrow> string" where
  "strlcpy sz src = take (sz - 1) src"

lemma strlcpy_short: "length src < sz \<Longrightarrow> strlcpy sz src = src"
  by (simp add: strlcpy_def)

text \<open>
  \<open>strnstr(s1, s2, len)\<close> of the kernel's string library: the first position at which \<open>s2\<close>
  occurs in the first \<open>len\<close> characters of \<open>s1\<close>; here only whether there is one.
\<close>

function strnstr :: "string \<Rightarrow> string \<Rightarrow> nat \<Rightarrow> bool" where
  "strnstr s1 s2 len =
     (if s2 = [] then True
      else if len < length s2 then False
      else if take (length s2) s1 = s2 then True
      else strnstr (tl s1) s2 (len - 1))"
  by pat_completeness auto
termination
proof (relation "measure (\<lambda>(s1, s2, len). len)", goal_cases)
  case (2 s1 s2 len)
  then show ?case by (cases s2) auto
qed auto

declare strnstr.simps [simp del]

lemma strnstr_same_length:
  assumes "length s1 = length s2"
  shows "strnstr s1 s2 (length s2) \<longleftrightarrow> s1 = s2"
proof (cases "s2 = []")
  case True
  with assms show ?thesis by (simp add: strnstr.simps)
next
  case False
  then have "\<not> strnstr (tl s1) s2 (length s2 - 1)"
    by (subst strnstr.simps) (cases s2, auto)
  with False assms show ?thesis by (subst strnstr.simps) auto
qed

end
