(* ===== verification/Ipa_Clk_Log.thy ===== *)
theory Ipa_Clk_Log
  imports Ipa_Prelude
begin

text \<open>
  The active-clients log of \<open>ipa_v3/ipa.c\<close> (built under \<open>CONFIG_IPA_DEBUG\<close>): every change of
  the clock reference count writes a line into a circular buffer and moves the count of the
  caller's identifier in a hash table. The theory models both, proves that the buffer is a
  bounded FIFO of the last 118 lines and that the table holds the balance of each identifier.
\<close>

section \<open>State\<close>

datatype active_client_log_type = EP | SIMPLE | RESOURCE | SPECIAL

record log_info =
  id_string :: string
  log_file :: string
  log_line_no :: nat
  log_type :: active_client_log_type

record htable_entry =
  h_id_string :: string
  h_count :: int
  h_type :: active_client_log_type

text \<open>
  \<open>bucket_of\<close> is the bucket that \<open>jhash\<close> and \<open>hash_min\<close> of the kernel give a zero-padded
  name; it is a fixed function. \<open>log_allocated\<close> says whether \<open>log_buffer[0]\<close> is not NULL, and
  \<open>log_null_deref\<close> records a write through a NULL \<open>log_buffer[0]\<close>.
\<close>

record active_clients_log =
  log_allocated :: bool
  log_buffer :: "string list"
  log_head :: nat
  log_tail :: nat
  log_rdy :: bool
  htable :: "nat \<Rightarrow> htable_entry list"
  bucket_of :: "string \<Rightarrow> nat"
  log_null_deref :: bool

definition LOG_BUFFER_SIZE_LINES :: nat where "LOG_BUFFER_SIZE_LINES = 120"
definition LOG_LINE_LEN :: nat where "LOG_LINE_LEN = 96"
definition LOG_NAME_LEN :: nat where "LOG_NAME_LEN = 40"

lemmas log_consts = LOG_BUFFER_SIZE_LINES_def LOG_LINE_LEN_def LOG_NAME_LEN_def

section \<open>Operations\<close>

text \<open>
  \<open>ipa3_active_clients_log_init\<close>: the test of the C code compares the address of the array
  \<open>log_buffer\<close> with NULL, which never holds, so the failure of \<open>kcalloc\<close> is not detected.
\<close>

definition log_init :: "bool \<Rightarrow> active_clients_log \<Rightarrow> rc \<times> active_clients_log" where
  "log_init kcalloc_ok l =
     (OK, l\<lparr>log_allocated := kcalloc_ok,
            log_buffer := replicate LOG_BUFFER_SIZE_LINES [],
            log_head := 0,
            log_tail := LOG_BUFFER_SIZE_LINES - 1,
            htable := (\<lambda>b. []),
            log_rdy := True\<rparr>)"

definition log_clear :: "active_clients_log \<Rightarrow> active_clients_log" where
  "log_clear l = l\<lparr>log_head := 0, log_tail := LOG_BUFFER_SIZE_LINES - 1\<rparr>"

definition log_destroy :: "active_clients_log \<Rightarrow> active_clients_log" where
  "log_destroy l = l\<lparr>log_rdy := False, log_allocated := False, log_head := 0,
                     log_tail := LOG_BUFFER_SIZE_LINES - 1\<rparr>"

definition log_insert :: "string \<Rightarrow> active_clients_log \<Rightarrow> rc \<times> active_clients_log" where
  "log_insert str l =
     (if \<not> log_rdy l then (Err EPERM, l)
      else if \<not> log_allocated l then (OK, l\<lparr>log_null_deref := True\<rparr>)
      else
        let hd0 = log_head l; tl0 = log_tail l;
            buf = (log_buffer l)[hd0 := strlcpy LOG_LINE_LEN str];
            hd1 = (hd0 + 1) mod LOG_BUFFER_SIZE_LINES;
            tl1 = (if tl0 = hd1 then (tl0 + 1) mod LOG_BUFFER_SIZE_LINES else tl0)
        in (OK, l\<lparr>log_buffer := buf, log_tail := tl1, log_head := hd1\<rparr>))"

text \<open>
  The walk of \<open>ipa3_active_clients_log_print_buffer\<close> over the indices from \<open>tail + 1\<close> up to
  \<open>head\<close>; the fuel of the walk is the number of slots.
\<close>

fun log_walk :: "nat \<Rightarrow> nat \<Rightarrow> nat \<Rightarrow> nat list" where
  "log_walk 0 i e = []"
| "log_walk (Suc fuel) i e =
     (if i = e then [] else i # log_walk fuel ((i + 1) mod LOG_BUFFER_SIZE_LINES) e)"

definition log_lines :: "active_clients_log \<Rightarrow> string list" where
  "log_lines l =
     map (\<lambda>i. log_buffer l ! i)
       (log_walk LOG_BUFFER_SIZE_LINES ((log_tail l + 1) mod LOG_BUFFER_SIZE_LINES) (log_head l))"

text \<open>
  \<open>scnprintf(buf + cnt, size - cnt, "%s\\n", line)\<close> writes at most \<open>size - cnt - 1\<close>
  characters and returns how many it wrote.
\<close>

definition scnprintf :: "nat \<Rightarrow> string \<Rightarrow> string" where
  "scnprintf sz str = take (sz - 1) str"

definition log_print_buffer :: "nat \<Rightarrow> active_clients_log \<Rightarrow> string" where
  "log_print_buffer sz l =
     foldl (\<lambda>buf line. buf @ scnprintf (sz - length buf) (line @ [CHR 0x0A])) [] (log_lines l)"

section \<open>The hash table\<close>

text \<open>
  The loop over the bucket moves the count of every entry whose name equals the caller's and
  remembers the last one; afterwards a missing entry is allocated and an entry at zero freed.
\<close>

fun bump_entries :: "string \<Rightarrow> int \<Rightarrow> htable_entry list \<Rightarrow> htable_entry list" where
  "bump_entries name d [] = []"
| "bump_entries name d (e # es) =
     (if h_id_string e = name then e\<lparr>h_count := h_count e + d\<rparr> else e) # bump_entries name d es"

fun last_found :: "string \<Rightarrow> htable_entry list \<Rightarrow> htable_entry option" where
  "last_found name [] = None"
| "last_found name (e # es) =
     (case last_found name es of
        Some f \<Rightarrow> Some f
      | None \<Rightarrow> if h_id_string e = name then Some e else None)"

fun del_last_found :: "string \<Rightarrow> htable_entry list \<Rightarrow> htable_entry list" where
  "del_last_found name [] = []"
| "del_last_found name (e # es) =
     (if last_found name es = None \<and> h_id_string e = name then es
      else e # del_last_found name es)"

definition htable_mod :: "bool \<Rightarrow> log_info \<Rightarrow> bool \<Rightarrow> active_clients_log \<Rightarrow> active_clients_log option" where
  "htable_mod alloc_ok li inc l =
     (let b = bucket_of l (strlcpy LOG_NAME_LEN (id_string li));
          d = (if inc then 1 else - 1);
          es = bump_entries (id_string li) d (htable l b)
      in case last_found (id_string li) es of
           None \<Rightarrow>
             if \<not> alloc_ok then None
             else Some (l\<lparr>htable := (htable l)(b :=
                    \<lparr>h_id_string = strlcpy LOG_NAME_LEN (id_string li), h_count = d,
                     h_type = log_type li\<rparr> # es)\<rparr>)
         | Some f \<Rightarrow>
             Some (l\<lparr>htable := (htable l)(b :=
                    if h_count f = 0 then del_last_found (id_string li) es else es)\<rparr>))"

definition log_text :: "nat \<Rightarrow> bool \<Rightarrow> log_info \<Rightarrow> int \<Rightarrow> string" where
  "log_text t inc li cnt =
     take (LOG_LINE_LEN - 1)
       (''['' @ pad_left 5 (CHR '' '') (show_nat (t div 1000000000)) @ ''.'' @
        pad_left 6 (CHR ''0'') (show_nat (t mod 1000000000 div 1000)) @ ''] '' @
        (if inc then ''^ '' else ''v '') @ id_string li @ '', '' @ log_file li @ '': '' @
        show_nat (log_line_no li) @ '' cnt = '' @ show_int cnt)"

text \<open>
  \<open>ipa3_active_clients_log_mod\<close>; \<open>t\<close> is what \<open>sched_clock\<close> returns and \<open>cnt\<close> the reference
  count it reads.
\<close>

definition log_mod ::
  "bool \<Rightarrow> nat \<Rightarrow> int \<Rightarrow> log_info \<Rightarrow> bool \<Rightarrow> active_clients_log \<Rightarrow> active_clients_log" where
  "log_mod alloc_ok t cnt li inc l =
     (case htable_mod alloc_ok li inc l of
        None \<Rightarrow> l
      | Some l1 \<Rightarrow>
          if log_type li \<noteq> SIMPLE then snd (log_insert (log_text t inc li cnt) l1) else l1)"

definition log_dec :: "bool \<Rightarrow> nat \<Rightarrow> int \<Rightarrow> log_info \<Rightarrow> active_clients_log \<Rightarrow> active_clients_log" where
  "log_dec alloc_ok t cnt li = log_mod alloc_ok t cnt li False"

definition log_inc :: "bool \<Rightarrow> nat \<Rightarrow> int \<Rightarrow> log_info \<Rightarrow> active_clients_log \<Rightarrow> active_clients_log" where
  "log_inc alloc_ok t cnt li = log_mod alloc_ok t cnt li True"

section \<open>The buffer is a bounded FIFO\<close>

text \<open>
  One slot of the buffer separates the tail from the first line and the head is a free slot, so
  the buffer of 120 slots shows at most 118 lines.
\<close>

definition log_ring_inv :: "active_clients_log \<Rightarrow> bool" where
  "log_ring_inv l \<longleftrightarrow> log_head l < LOG_BUFFER_SIZE_LINES \<and> log_tail l < LOG_BUFFER_SIZE_LINES \<and>
     log_head l \<noteq> log_tail l \<and> length (log_buffer l) = LOG_BUFFER_SIZE_LINES"

definition ring_dist :: "nat \<Rightarrow> nat \<Rightarrow> nat" where
  "ring_dist i e = (if i \<le> e then e - i else e + LOG_BUFFER_SIZE_LINES - i)"

definition ring_succ :: "nat \<Rightarrow> nat" where
  "ring_succ i = (i + 1) mod LOG_BUFFER_SIZE_LINES"

lemma ring_succ_eq: "i < LOG_BUFFER_SIZE_LINES \<Longrightarrow>
  ring_succ i = (if i = LOG_BUFFER_SIZE_LINES - 1 then 0 else i + 1)"
  by (auto simp: ring_succ_def log_consts)

lemma ring_succ_less [simp]: "ring_succ i < LOG_BUFFER_SIZE_LINES"
  by (simp add: ring_succ_def log_consts)

lemma ring_dist_succ:
  "i < LOG_BUFFER_SIZE_LINES \<Longrightarrow> e < LOG_BUFFER_SIZE_LINES \<Longrightarrow> i \<noteq> e \<Longrightarrow>
   ring_dist i e = Suc (ring_dist (ring_succ i) e)"
  by (auto simp: ring_dist_def ring_succ_eq)

text \<open>the walk does not depend on the fuel once there is one unit for every step\<close>

lemma log_walk_Suc: "log_walk (Suc f) i e = (if i = e then [] else i # log_walk f (ring_succ i) e)"
  by (simp add: ring_succ_def)

lemma ring_dist_0 [simp]: "ring_dist e e = 0"
  by (simp add: ring_dist_def)

lemma length_log_walk:
  "i < LOG_BUFFER_SIZE_LINES \<Longrightarrow> e < LOG_BUFFER_SIZE_LINES \<Longrightarrow> ring_dist i e \<le> fuel \<Longrightarrow>
   length (log_walk fuel i e) = ring_dist i e"
proof (induction fuel arbitrary: i)
  case 0
  then show ?case by (simp)
next
  case (Suc fuel)
  then show ?case
    by (cases "i = e") (auto simp: log_walk_Suc ring_dist_succ simp del: log_walk.simps)
qed

lemma log_walk_snoc:
  "i < LOG_BUFFER_SIZE_LINES \<Longrightarrow> e < LOG_BUFFER_SIZE_LINES \<Longrightarrow> ring_succ e \<noteq> i \<Longrightarrow>
   ring_dist i e < fuel \<Longrightarrow>
   log_walk fuel i (ring_succ e) = log_walk fuel i e @ [e]"
proof (induction fuel arbitrary: i)
  case 0
  then show ?case by simp
next
  case (Suc fuel)
  show ?case
  proof (cases "i = e")
    case True
    with Suc.prems show ?thesis
      by (cases fuel) (auto simp: log_walk_Suc simp del: log_walk.simps(2))
  next
    case False
    have "ring_succ e \<noteq> ring_succ i" "ring_dist (ring_succ i) e < fuel"
      using Suc.prems False by (auto simp: ring_succ_eq ring_dist_succ split: if_splits)
    with Suc.prems False Suc.IH [of "ring_succ i"] show ?thesis
      by (simp add: log_walk_Suc del: log_walk.simps)
  qed
qed

lemma log_walk_fuel:
  "i < LOG_BUFFER_SIZE_LINES \<Longrightarrow> e < LOG_BUFFER_SIZE_LINES \<Longrightarrow> ring_dist i e < f \<Longrightarrow>
   ring_dist i e < f' \<Longrightarrow> log_walk f i e = log_walk f' i e"
proof (induction f arbitrary: i f')
  case 0
  then show ?case by simp
next
  case (Suc f)
  then obtain k where "f' = Suc k" by (cases f') auto
  with Suc.prems Suc.IH [of "ring_succ i" k] show ?case
    by (auto simp: log_walk_Suc ring_dist_succ simp del: log_walk.simps)
qed

lemma log_walk_avoids_end: "e \<notin> set (log_walk f i e)"
  by (induction f arbitrary: i) auto

lemma ring_dist_bound: "i < LOG_BUFFER_SIZE_LINES \<Longrightarrow> e < LOG_BUFFER_SIZE_LINES \<Longrightarrow>
  ring_dist i e < LOG_BUFFER_SIZE_LINES"
  by (auto simp: ring_dist_def)

lemma log_lines_walk:
  "log_lines l = map (\<lambda>i. log_buffer l ! i)
     (log_walk LOG_BUFFER_SIZE_LINES (ring_succ (log_tail l)) (log_head l))"
  by (simp add: log_lines_def ring_succ_def)

lemma length_log_lines:
  "log_ring_inv l \<Longrightarrow> length (log_lines l) = ring_dist (ring_succ (log_tail l)) (log_head l)"
  by (simp add: log_lines_walk length_log_walk log_ring_inv_def less_imp_le ring_dist_bound)

lemma log_ring_inv_insert:
  "log_ring_inv l \<Longrightarrow> log_ring_inv (snd (log_insert str l))"
  unfolding log_ring_inv_def log_insert_def ring_succ_def [symmetric] Let_def
  by (auto simp: ring_succ_eq)

lemma log_insert_ready:
  "log_rdy l \<Longrightarrow> log_allocated l \<Longrightarrow>
   log_insert str l =
     (OK, l\<lparr>log_buffer := (log_buffer l)[log_head l := strlcpy LOG_LINE_LEN str],
            log_tail := if log_tail l = ring_succ (log_head l) then ring_succ (log_tail l) else log_tail l,
            log_head := ring_succ (log_head l)\<rparr>)"
  by (simp add: log_insert_def Let_def ring_succ_def)

lemma log_insert_lines:
  assumes inv: "log_ring_inv l" and rdy: "log_rdy l" "log_allocated l"
  shows "log_lines (snd (log_insert str l)) =
    (if length (log_lines l) = LOG_BUFFER_SIZE_LINES - 2 then tl (log_lines l) else log_lines l)
      @ [strlcpy LOG_LINE_LEN str]"
proof -
  let ?N = LOG_BUFFER_SIZE_LINES
  let ?h = "log_head l" and ?t = "log_tail l" and ?x = "strlcpy LOG_LINE_LEN str"
  let ?b = "(log_buffer l)[?h := ?x]"
  have lt: "?h < ?N" "?t < ?N" and ne: "?h \<noteq> ?t" and len: "length (log_buffer l) = ?N"
    using inv by (auto simp: log_ring_inv_def)
  have old: "map (\<lambda>i. ?b ! i) (log_walk f i ?h) = map (\<lambda>i. log_buffer l ! i) (log_walk f i ?h)"
    for f i
    using log_walk_avoids_end by (auto intro!: map_cong nth_list_update_neq)
  have full: "length (log_lines l) = ?N - 2 \<longleftrightarrow> ?t = ring_succ ?h"
    using lt ne by (auto simp: length_log_lines [OF inv] ring_dist_def ring_succ_eq log_consts split: if_splits)
  have dist: "ring_dist (ring_succ ?t) ?h < ?N" using lt by (simp add: ring_dist_bound)
  show ?thesis
  proof (cases "?t = ring_succ ?h")
    case False
    then have "ring_succ ?h \<noteq> ring_succ ?t" using lt ne by (auto simp: ring_succ_eq split: if_splits)
    then have "log_walk ?N (ring_succ ?t) (ring_succ ?h) = log_walk ?N (ring_succ ?t) ?h @ [?h]"
      using lt dist by (intro log_walk_snoc) auto
    then show ?thesis
      using False lt len rdy full
      by (simp add: log_lines_walk log_insert_ready old)
  next
    case True
    let ?s = "ring_succ ?t" and ?s2 = "ring_succ (ring_succ ?t)"
    have ne2: "?s \<noteq> ?h" "ring_succ ?h \<noteq> ?s2" and d2: "ring_dist ?s2 ?h < ?N - 1"
      using lt True by (auto simp: ring_succ_eq ring_dist_def log_consts split: if_splits)
    have "log_walk ?N ?s2 (ring_succ ?h) = log_walk ?N ?s2 ?h @ [?h]"
      using lt ne2 d2 by (intro log_walk_snoc) auto
    moreover have "log_walk ?N ?s ?h = ?s # log_walk ?N ?s2 ?h"
    proof -
      have "log_walk (Suc (?N - 1)) ?s ?h = ?s # log_walk (?N - 1) ?s2 ?h"
        using ne2 by (simp add: log_walk_Suc del: log_walk.simps)
      moreover have "log_walk (?N - 1) ?s2 ?h = log_walk ?N ?s2 ?h"
        using lt d2 by (intro log_walk_fuel) auto
      ultimately show ?thesis using lt by simp
    qed
    ultimately show ?thesis
      using True lt len rdy full
      by (simp add: log_lines_walk log_insert_ready old)
  qed
qed
section \<open>The table holds the balance of each identifier\<close>

definition table_entry :: "string \<Rightarrow> active_clients_log \<Rightarrow> htable_entry option" where
  "table_entry name l = last_found name (htable l (bucket_of l (strlcpy LOG_NAME_LEN name)))"

definition table_count :: "string \<Rightarrow> active_clients_log \<Rightarrow> int" where
  "table_count name l = (case table_entry name l of None \<Rightarrow> 0 | Some e \<Rightarrow> h_count e)"

definition log_table_inv :: "active_clients_log \<Rightarrow> bool" where
  "log_table_inv l \<longleftrightarrow>
     (\<forall>b. distinct (map h_id_string (htable l b)) \<and>
          (\<forall>e \<in> set (htable l b). h_count e \<noteq> 0 \<and> length (h_id_string e) < LOG_NAME_LEN \<and>
             bucket_of l (h_id_string e) = b))"

lemma last_found_None: "last_found n es = None \<longleftrightarrow> n \<notin> h_id_string ` set es"
  by (induction es) (auto split: option.splits)

lemma last_found_Some: "last_found n es = Some e \<Longrightarrow> e \<in> set es \<and> h_id_string e = n"
  by (induction es) (auto split: option.splits if_splits)

lemma bump_names [simp]: "map h_id_string (bump_entries n d es) = map h_id_string es"
  by (induction es) auto

lemma bump_name_set [simp]: "h_id_string ` set (bump_entries n d es) = h_id_string ` set es"
  by (induction es) auto

lemma bump_elem:
  "e \<in> set (bump_entries n d es) \<Longrightarrow>
   e \<in> set es \<and> h_id_string e \<noteq> n \<or> (\<exists>e0 \<in> set es. h_id_string e0 = n \<and> e = e0\<lparr>h_count := h_count e0 + d\<rparr>)"
  by (induction es) (auto split: if_splits)

lemma last_found_bump:
  "last_found m (bump_entries n d es) =
     map_option (\<lambda>e. if m = n then e\<lparr>h_count := h_count e + d\<rparr> else e) (last_found m es)"
  by (induction es) (auto split: option.splits)

lemma last_found_unique:
  "distinct (map h_id_string es) \<Longrightarrow> e \<in> set es \<Longrightarrow> h_id_string e = n \<Longrightarrow> last_found n es = Some e"
  by (induction es) (force split: option.splits simp: image_iff dest: last_found_Some)+

lemma del_last_found_eq:
  "distinct (map h_id_string es) \<Longrightarrow> del_last_found n es = [e \<leftarrow> es. h_id_string e \<noteq> n]"
proof (induction es)
  case Nil
  then show ?case by simp
next
  case (Cons e es)
  then show ?case
    by (auto simp: last_found_None filter_id_conv image_iff intro!: filter_True [symmetric])
qed

lemma last_found_filter:
  "last_found m [e \<leftarrow> es. h_id_string e \<noteq> n] = (if m = n then None else last_found m es)"
  by (induction es) (auto split: option.splits)

lemma htable_mod_inv:
  assumes "htable_mod ok li inc l = Some l'" "log_table_inv l" "length (id_string li) < LOG_NAME_LEN"
  shows "log_table_inv l'"
proof -
  let ?n = "id_string li" and ?d = "if inc then 1 else (- 1 :: int)"
  let ?b = "bucket_of l ?n"
  let ?es = "bump_entries ?n ?d (htable l ?b)"
  have inv: "distinct (map h_id_string (htable l b))"
    "\<And>e. e \<in> set (htable l b) \<Longrightarrow> h_count e \<noteq> 0 \<and> length (h_id_string e) < LOG_NAME_LEN \<and>
             bucket_of l (h_id_string e) = b" for b
    using assms(2) by (auto simp: log_table_inv_def)
  have es: "e \<in> set ?es \<Longrightarrow> h_id_string e \<noteq> ?n \<Longrightarrow> e \<in> set (htable l ?b)"
    "e \<in> set ?es \<Longrightarrow> h_id_string e = ?n \<Longrightarrow> last_found ?n ?es = Some e" for e
    using bump_elem [of e ?n ?d "htable l ?b"] inv(1) [of ?b]
    by (auto intro: last_found_unique)
  have names: "e \<in> set ?es \<Longrightarrow> length (h_id_string e) < LOG_NAME_LEN \<and> bucket_of l (h_id_string e) = ?b" for e
    using bump_elem [of e ?n ?d "htable l ?b"] inv(2) [of _ ?b] assms(3) by auto
  show ?thesis
  proof (cases "last_found ?n ?es")
    case None
    then have new: "?n \<notin> h_id_string ` set ?es" by (simp add: last_found_None)
    have "h_count e \<noteq> 0" if "e \<in> set ?es" for e
    proof -
      have "h_id_string e \<noteq> ?n" using that new by (metis imageI)
      then show ?thesis using inv(2) [OF es(1) [OF that]] by simp
    qed
    with None new assms inv names show ?thesis
      by (auto simp: htable_mod_def Let_def log_table_inv_def strlcpy_short fun_upd_apply split: if_splits)
  next
    case (Some f)
    have cnt: "e \<in> set ?es \<Longrightarrow> h_count f \<noteq> 0 \<or> h_id_string e \<noteq> ?n \<Longrightarrow> h_count e \<noteq> 0" for e
      using es [of e] inv(2) [of e ?b] Some by (cases "h_id_string e = ?n") auto
    with Some assms inv names show ?thesis
      by (auto simp: htable_mod_def Let_def log_table_inv_def strlcpy_short fun_upd_apply
          del_last_found_eq distinct_map_filter split: if_splits)
  qed
qed

lemma htable_mod_bucket: "htable_mod ok li inc l = Some l' \<Longrightarrow> bucket_of l' = bucket_of l"
  by (auto simp: htable_mod_def Let_def split: option.splits if_splits)

lemma htable_mod_count:
  assumes "htable_mod ok li inc l = Some l'" "log_table_inv l" "length (id_string li) < LOG_NAME_LEN"
    "length m < LOG_NAME_LEN"
  shows "table_count m l' = table_count m l + (if m = id_string li then if inc then 1 else - 1 else 0)"
proof -
  let ?n = "id_string li" and ?d = "if inc then 1 else (- 1 :: int)"
  let ?b = "bucket_of l ?n"
  let ?es = "bump_entries ?n ?d (htable l ?b)"
  have dis: "distinct (map h_id_string ?es)" using assms(2) by (auto simp: log_table_inv_def)
  show ?thesis
    using assms(1,3,4)
    by (cases "last_found ?n (htable l ?b)")
       (auto simp: htable_mod_def Let_def table_count_def table_entry_def strlcpy_short last_found_bump
         del_last_found_eq [OF dis] last_found_filter split: if_splits option.splits)
qed

lemma log_insert_table [simp]:
  "htable (snd (log_insert s l)) = htable l" "bucket_of (snd (log_insert s l)) = bucket_of l"
  by (auto simp: log_insert_def Let_def)

lemma log_mod_table:
  assumes "log_table_inv l" "length (id_string li) < LOG_NAME_LEN" "length m < LOG_NAME_LEN"
  shows "log_table_inv (log_mod True t cnt li inc l)"
    and "table_count m (log_mod True t cnt li inc l) =
           table_count m l + (if m = id_string li then if inc then 1 else - 1 else 0)"
proof -
  obtain l1 where l1: "htable_mod True li inc l = Some l1"
    by (cases "htable_mod True li inc l") (auto simp: htable_mod_def Let_def split: option.splits)
  have eq: "htable (log_mod True t cnt li inc l) = htable l1" "bucket_of (log_mod True t cnt li inc l) = bucket_of l1"
    by (auto simp: log_mod_def l1)
  show "log_table_inv (log_mod True t cnt li inc l)"
    using htable_mod_inv [OF l1 assms(1,2)] by (simp add: log_table_inv_def eq)
  show "table_count m (log_mod True t cnt li inc l) =
           table_count m l + (if m = id_string li then if inc then 1 else - 1 else 0)"
    using htable_mod_count [OF l1 assms] by (simp add: table_count_def table_entry_def eq)
qed

section \<open>Histories of the log\<close>

text \<open>A history of log calls: what \<open>sched_clock\<close> and the count read, the caller, inc or dec.\<close>

type_synonym log_call = "nat \<times> int \<times> log_info \<times> bool"

definition log_run :: "log_call list \<Rightarrow> active_clients_log \<Rightarrow> active_clients_log" where
  "log_run h l = foldl (\<lambda>l (t, cnt, li, inc). log_mod True t cnt li inc l) l h"

definition log_balance :: "string \<Rightarrow> log_call list \<Rightarrow> int" where
  "log_balance m h =
     sum_list (map (\<lambda>(t, cnt, li, inc). if m = id_string li then if inc then 1 else - 1 else 0) h)"

lemma log_ring_inv_init: "log_ring_inv (snd (log_init ok l))"
  by (simp add: log_ring_inv_def log_init_def log_consts)

lemma log_table_inv_init: "log_table_inv (snd (log_init ok l))"
  by (simp add: log_table_inv_def log_init_def)

lemma log_lines_init [simp]: "log_lines (snd (log_init ok l)) = []"
proof -
  have "log_walk f e e = []" for f e by (cases f) auto
  then show ?thesis by (simp add: log_lines_def log_init_def log_consts)
qed

lemma log_init_flags [simp]:
  "log_rdy (snd (log_init ok l))" "log_allocated (snd (log_init ok l)) = ok"
  by (simp_all add: log_init_def)

lemma log_insert_flags [simp]:
  "log_rdy (snd (log_insert s l)) = log_rdy l"
  "log_allocated (snd (log_insert s l)) = log_allocated l"
  by (auto simp: log_insert_def Let_def)

lemma take_last_snoc:
  "drop (length xs + 1 - n) (xs @ [x]) =
     (if length (drop (length xs - n) xs) = n then tl (drop (length xs - n) xs)
      else drop (length xs - n) xs) @ [x]" if "0 < n"
  using that by (auto simp: tl_drop Suc_diff_le drop_Suc tl_append split: list.split)

text \<open>
  C35: After any sequence of insertions the log shows exactly the last 118 lines, each cut to
  its 96 byte field, in order.
\<close>

theorem log_keeps_last_lines:
  "log_lines (foldl (\<lambda>l s. snd (log_insert s l)) (snd (log_init True l0)) strs) =
     map (strlcpy 96) (drop (length strs - 118) strs)"
proof -
  let ?run = "\<lambda>strs. foldl (\<lambda>l s. snd (log_insert s l)) (snd (log_init True l0)) strs"
  have inv: "log_ring_inv (?run strs) \<and> log_rdy (?run strs) \<and> log_allocated (?run strs)" for strs
    by (induction strs rule: rev_induct)
       (auto simp: log_ring_inv_init log_ring_inv_insert)
  show ?thesis
  proof (induction strs rule: rev_induct)
    case (snoc s strs)
    then show ?case
      using inv [of strs] take_last_snoc [of 118 strs s]
      by (auto simp: log_insert_lines log_consts map_tl simp del: drop_append)
  qed simp
qed

lemma log_run_inv:
  assumes "\<forall>(t, cnt, li, inc) \<in> set h. length (id_string li) < LOG_NAME_LEN" "log_table_inv l"
  shows "log_table_inv (log_run h l)"
  using assms by (induction h arbitrary: l) (auto simp: log_run_def log_mod_table(1))


definition demo_log :: active_clients_log where
  "demo_log = \<lparr>log_allocated = False, log_buffer = [], log_head = 0, log_tail = 0, log_rdy = False,
     htable = (\<lambda>b. []), bucket_of = (\<lambda>s. length s mod 32), log_null_deref = False\<rparr>"

definition demo_info :: "string \<Rightarrow> log_info" where
  "demo_info s = \<lparr>id_string = s, log_file = ''ipa_pm.c'', log_line_no = 410, log_type = SPECIAL\<rparr>"


text \<open>
  For a name that does not fit the name field every vote taken and released adds two
  entries that are never found again.
\<close>

theorem log_long_name_leaks:
  assumes "40 \<le> length (id_string li)" "log_table_inv l"
  shows "length (htable (log_mod True t' cnt' li False (log_mod True t cnt li True l))
            (bucket_of l (take 39 (id_string li)))) =
         length (htable l (bucket_of l (take 39 (id_string li)))) + 2"
proof -
  let ?n = "id_string li" let ?b = "bucket_of l (take 39 ?n)"
  have none: "last_found ?n es = None"
    if "\<forall>e \<in> set es. length (h_id_string e) < 40" for es
    using that assms(1) by (auto simp: last_found_None)
  have bump: "bump_entries ?n d es = es"
    if "\<forall>e \<in> set es. length (h_id_string e) < 40" for es d
    using that assms(1) by (induction es) auto
  have add: "\<exists>e. htable (log_mod True t cnt li inc k) =
      (htable k)(?b := e # htable k ?b) \<and> length (h_id_string e) < 40 \<and>
      bucket_of (log_mod True t cnt li inc k) = bucket_of k"
    if "\<forall>e \<in> set (htable k ?b). length (h_id_string e) < 40" "bucket_of k = bucket_of l" for t cnt inc k
    using that none [OF that(1)] bump [OF that(1)]
    by (auto simp: log_mod_def htable_mod_def Let_def log_consts strlcpy_def)
  have inv: "\<forall>e \<in> set (htable l ?b). length (h_id_string e) < 40"
    using assms(2) by (auto simp: log_table_inv_def log_consts)
  obtain e where 1: "htable (log_mod True t cnt li True l) = (htable l)(?b := e # htable l ?b)"
      "length (h_id_string e) < 40" "bucket_of (log_mod True t cnt li True l) = bucket_of l"
    using add [OF inv refl] by blast
  show ?thesis
    using add [of "log_mod True t cnt li True l" t' cnt' False] inv 1 by auto
qed

lemma log_long_name_leaks_witness:
  "length (htable (log_mod True 2 1 (demo_info (replicate 40 CHR ''x'')) False
       (log_mod True 1 0 (demo_info (replicate 40 CHR ''x'')) True (snd (log_init True demo_log)))) 7) = 2"
  using log_long_name_leaks [of "demo_info (replicate 40 CHR ''x'')" "snd (log_init True demo_log)" 2 1 1 0]
    log_table_inv_init [of True demo_log]
  by (simp add: demo_info_def demo_log_def log_init_def)

end
