(* ===== verification/Ipa_State.thy ===== *)
theory Ipa_State
  imports Ipa_Clk_Log
begin

text \<open>
  The state shared by the clock component (\<open>ipa_v3/ipa.c\<close>) and the power manager
  (\<open>ipa_v3/ipa_pm.c\<close>): the records of the driver, the trace of what the driver asks of the
  hardware and of its clients, the faults it commits, and the environment its calls answer to.
\<close>

section \<open>Power manager data\<close>

definition IPA_PM_MAX_CLIENTS :: nat where "IPA_PM_MAX_CLIENTS = 32"
definition IPA_PM_MAX_EX_CL :: nat where "IPA_PM_MAX_EX_CL = 64"
definition IPA_PM_THRESHOLD_MAX :: nat where "IPA_PM_THRESHOLD_MAX = 5"
definition IPA_PM_EXCEPTION_MAX :: nat where "IPA_PM_EXCEPTION_MAX = 5"
definition IPA3_MAX_NUM_PIPES :: nat where "IPA3_MAX_NUM_PIPES = 31"

lemmas pm_consts = IPA_PM_MAX_CLIENTS_def IPA_PM_MAX_EX_CL_def IPA_PM_THRESHOLD_MAX_def
  IPA_PM_EXCEPTION_MAX_def IPA3_MAX_NUM_PIPES_def

datatype pm_group = GROUP_DEFAULT | GROUP_APPS | GROUP_MODEM

datatype pm_cb_event = CLIENT_ACTIVATED | REQUEST_WAKEUP

datatype pm_state =
    DEACTIVATED
  | DEACTIVATE_IN_PROGRESS
  | ACTIVATE_IN_PROGRESS
  | ACTIVATED
  | ACTIVATED_PENDING_DEACTIVATION
  | ACTIVATED_TIMER_SET
  | ACTIVATED_PENDING_RESCHEDULE

text \<open>The macros \<open>IPA_PM_STATE_ACTIVE\<close> and \<open>IPA_PM_STATE_IN_PROGRESS\<close>.\<close>

fun STATE_ACTIVE :: "pm_state \<Rightarrow> bool" where
  "STATE_ACTIVE ACTIVATED = True"
| "STATE_ACTIVE ACTIVATED_PENDING_DEACTIVATION = True"
| "STATE_ACTIVE ACTIVATED_TIMER_SET = True"
| "STATE_ACTIVE ACTIVATED_PENDING_RESCHEDULE = True"
| "STATE_ACTIVE _ = False"

fun STATE_IN_PROGRESS :: "pm_state \<Rightarrow> bool" where
  "STATE_IN_PROGRESS ACTIVATE_IN_PROGRESS = True"
| "STATE_IN_PROGRESS DEACTIVATE_IN_PROGRESS = True"
| "STATE_IN_PROGRESS _ = False"

text \<open>
  A client of the power manager. \<open>activate_work\<close> and \<open>deactivate_work\<close> say whether the work
  is queued, \<open>complete_done\<close> whether the completion is done, \<open>wlock_held\<close> whether the wake
  source is held. \<open>sync_inflight\<close> is no field of the code: it is set while a thread is inside
  \<open>ipa_pm_activate_helper\<close> with the client's lock dropped around the clock vote.
\<close>

record pm_client =
  cl_name :: string
  cl_callback :: bool
  cl_state :: pm_state
  cl_skip_clk_vote :: bool
  cl_group :: pm_group
  cl_hdl :: nat
  cl_throughput :: int
  cl_activate_work :: bool
  cl_deactivate_work :: bool
  cl_complete :: bool
  cl_wlock :: bool
  cl_wlock_held :: bool
  cl_sync_inflight :: bool

record pm_exception =
  ex_clients :: string
  ex_pending :: int
  ex_bitmask :: u32
  ex_threshold :: "int list"

text \<open>The pointer \<open>current_threshold\<close>: NULL, the default array, or the array of an exception.\<close>

datatype th_ptr = ThNull | ThDefault | ThExc nat

record clk_scaling_db =
  exception_list :: "pm_exception list"
  scaling_work :: bool
  active_client_bitmask :: u32
  threshold_size :: nat
  exception_size :: nat
  cur_vote :: int
  default_threshold :: "int list"
  current_threshold :: th_ptr

text \<open>
  \<open>clients\<close> and \<open>clients_by_pipe\<close> are the pointer arrays of \<open>struct ipa_pm_ctx\<close>. A client
  object is allocated when its slot is filled and freed when the slot is cleared, so a client
  pointer is represented by the handle of its slot.
\<close>

record pm_ctx =
  clients :: "nat \<Rightarrow> pm_client option"
  clients_by_pipe :: "nat \<Rightarrow> nat option"
  clk_scaling :: clk_scaling_db
  aggregated_tput :: int
  group_tput :: "pm_group \<Rightarrow> int"

section \<open>The driver's state\<close>

datatype ipa_event =
    HwEnableClks
  | HwDisableClks
  | HwSuspendPipes bool bool
  | HwUcNotify bool
  | HwForceCloseCoal
  | HwTagForceClose
  | HwSetRate int
  | IccSetBw nat nat
  | PmCallback nat pm_cb_event
  | PmTimer nat nat
  | AssertWakelock
  | ReleaseWakelock

datatype ipa_fault =
    NullDeref | UseAfterFree | RefcntZero | GsiPendingIrq | UnexpectedClkAccess
  | WarnIcc | WarnClkRate | WarnPmState | WarnPmPending | WarnNoCallback

datatype hw_mode = HW_NORMAL | HW_VIRTUAL | HW_PCIE | HW_EMULATION

record clk_rates =
  rate_svs2 :: int
  rate_svs :: int
  rate_nominal :: int
  rate_turbo :: int

text \<open>
  The fields of \<open>struct ipa3_context\<close> that the clock component and the power manager use.
  \<open>tag_work\<close>, \<open>dec_wq_work\<close>, \<open>dec_suspend_wq_work\<close> and \<open>inc_wq_work\<close> say whether
  \<open>ipa3_tag_work\<close>, \<open>ipa_dec_clients_disable_clks_on_wq_work\<close>,
  \<open>ipa_dec_clients_disable_clks_on_suspend_irq_wq_work\<close> and
  \<open>ipa_inc_clients_enable_clks_on_wq_work\<close> are queued. \<open>pm\<close> is the global \<open>ipa_pm_ctx\<close>.
\<close>

record ipa =
  act_cnt :: int
  bus_vote_idx :: int
  ipa_clk_vote :: int
  tag_process_before_gating :: bool
  tag_work :: bool
  dec_wq_work :: bool
  dec_suspend_wq_work :: bool
  inc_wq_work :: bool
  ipa_hw_mode :: hw_mode
  enable_clock_scaling :: bool
  curr_ipa_clk_rate :: int
  ctrl_rates :: clk_rates
  has_ipa3_clk :: bool
  icc_paths :: "nat list"
  wakelock_cnt :: int
  w_lock_held :: bool
  clk_log :: active_clients_log
  pm :: "pm_ctx option"
  events :: "ipa_event list"
  faults :: "ipa_fault list"

text \<open>
  What the rest of the kernel answers. The answers that can differ from one call to the next
  are functions of the events so far; a step may run in any environment.
\<close>

record ipa_env =
  env_suspend_busy :: "ipa_event list \<Rightarrow> bool"
  env_gsi_pending_irq :: "ipa_event list \<Rightarrow> bool"
  env_icc_fails :: "ipa_event list \<Rightarrow> bool"
  env_htable_alloc :: "active_clients_log \<Rightarrow> bool"
  env_sched_clock :: "active_clients_log \<Rightarrow> nat"
  env_kzalloc :: bool
  env_create_wq :: bool
  env_wakeup_source :: bool
  env_ep_mapping :: "nat \<Rightarrow> int"
  env_client_max :: nat

section \<open>Small steps shared by the components\<close>

definition emit :: "ipa_event \<Rightarrow> ipa \<Rightarrow> ipa" where
  "emit ev s = s\<lparr>events := events s @ [ev]\<rparr>"

definition fault :: "ipa_fault \<Rightarrow> ipa \<Rightarrow> ipa" where
  "fault f s = s\<lparr>faults := faults s @ [f]\<rparr>"

definition upd_pm :: "(pm_ctx \<Rightarrow> pm_ctx) \<Rightarrow> ipa \<Rightarrow> ipa" where
  "upd_pm f s = s\<lparr>pm := map_option f (pm s)\<rparr>"

definition upd_scaling :: "(clk_scaling_db \<Rightarrow> clk_scaling_db) \<Rightarrow> ipa \<Rightarrow> ipa" where
  "upd_scaling f = upd_pm (\<lambda>p. p\<lparr>clk_scaling := f (clk_scaling p)\<rparr>)"

text \<open>Writing a field of client \<open>h\<close>; through a NULL or freed pointer it is a fault.\<close>

definition get_client :: "nat \<Rightarrow> ipa \<Rightarrow> pm_client option" where
  "get_client h s = (case pm s of None \<Rightarrow> None | Some p \<Rightarrow> clients p h)"

definition upd_client :: "nat \<Rightarrow> (pm_client \<Rightarrow> pm_client) \<Rightarrow> ipa \<Rightarrow> ipa" where
  "upd_client h f s =
     (case get_client h s of
        None \<Rightarrow> fault UseAfterFree s
      | Some c \<Rightarrow> upd_pm (\<lambda>p. p\<lparr>clients := (clients p)(h := Some (f c))\<rparr>) s)"

text \<open>\<open>ipa_pm_set_clock_index\<close> of \<open>ipa_pm.c\<close>, which the clock component calls back.\<close>

definition ipa_pm_set_clock_index :: "int \<Rightarrow> ipa \<Rightarrow> ipa" where
  "ipa_pm_set_clock_index idx s =
     (if pm s \<noteq> None \<and> 0 \<le> idx then upd_scaling (\<lambda>d. d\<lparr>cur_vote := idx\<rparr>) s else s)"

end
