(* ===== verification/Ipa_Clk.thy ===== *)
theory Ipa_Clk
  imports Ipa_State
begin

text \<open>
  The reference count of active clients of \<open>ipa_v3/ipa.c\<close>, which decides when the IPA clocks
  run. The theory models every operation that moves the count and the works that move it later,
  and proves that the clocks run exactly while the count is positive, that no operation uses
  gated hardware, and that every vote is accounted for.
\<close>

section \<open>Clocks and bus votes\<close>

text \<open>\<open>ipa3_get_bus_vote\<close>: the vote, and the warning for a rate that matches no level.\<close>

definition get_bus_vote :: "ipa \<Rightarrow> nat \<times> ipa" where
  "get_bus_vote s =
     (let r = ctrl_rates s; c = curr_ipa_clk_rate s in
      if c = rate_svs2 r then (1, s)
      else if c = rate_svs r then (2, s)
      else if c = rate_nominal r then (3, s)
      else if c = rate_turbo r then (4, s)
      else (1, fault WarnClkRate s))"

text \<open>The loops over the interconnect paths that vote for bandwidth level \<open>idx\<close>.\<close>

definition icc_set_bw :: "ipa_env \<Rightarrow> nat \<Rightarrow> nat \<Rightarrow> ipa \<Rightarrow> ipa" where
  "icc_set_bw e idx path s =
     (let s1 = emit (IccSetBw path idx) s in
      if env_icc_fails e (events s) then fault WarnIcc s1 else s1)"

definition icc_vote :: "ipa_env \<Rightarrow> nat \<Rightarrow> ipa \<Rightarrow> ipa" where
  "icc_vote e idx s = foldl (\<lambda>s path. icc_set_bw e idx path s) s (icc_paths s)"

definition clk_set_rate :: "ipa \<Rightarrow> ipa" where
  "clk_set_rate s = (if has_ipa3_clk s then emit (HwSetRate (curr_ipa_clk_rate s)) s else s)"

text \<open>\<open>_ipa_enable_clks_v3_0\<close> and \<open>_ipa_disable_clks_v3_0\<close>.\<close>

definition ctrl_enable_clks :: "ipa \<Rightarrow> ipa" where
  "ctrl_enable_clks s =
     emit (HwUcNotify True) (if has_ipa3_clk s then clk_set_rate (emit HwEnableClks s) else s)"

definition ctrl_disable_clks :: "ipa \<Rightarrow> ipa" where
  "ctrl_disable_clks s =
     (let s1 = emit (HwUcNotify False) s in if has_ipa3_clk s then emit HwDisableClks s1 else s1)"

definition ipa3_enable_clks :: "ipa_env \<Rightarrow> ipa \<Rightarrow> ipa" where
  "ipa3_enable_clks e s =
     (if ipa_hw_mode s \<noteq> HW_NORMAL then s
      else
        let (idx, s1) = get_bus_vote s;
            s2 = icc_vote e idx s1;
            s3 = ctrl_enable_clks s2
        in s3\<lparr>ipa_clk_vote := 1\<rparr>)"

definition ipa3_disable_clks :: "ipa_env \<Rightarrow> ipa \<Rightarrow> ipa" where
  "ipa3_disable_clks e s =
     (if ipa_hw_mode s \<noteq> HW_NORMAL then s
      else
        let s1 = s\<lparr>ipa_clk_vote := 0\<rparr>;
            s2 = (if env_gsi_pending_irq e (events s1) then fault GsiPendingIrq s1 else s1);
            s3 = ctrl_disable_clks s2;
            s4 = ipa_pm_set_clock_index 0 s3;
            s5 = icc_vote e 0 s4
        in s5\<lparr>ipa_clk_vote := 0\<rparr>)"

text \<open>\<open>ipa3_suspend_apps_pipes\<close>: the environment says whether the hardware was busy.\<close>

definition ipa3_suspend_apps_pipes :: "ipa_env \<Rightarrow> bool \<Rightarrow> ipa \<Rightarrow> bool \<times> ipa" where
  "ipa3_suspend_apps_pipes e suspend s =
     (let busy = env_suspend_busy e (events s)
      in (busy, emit (HwSuspendPipes suspend (\<not> busy)) s))"

section \<open>Taking and releasing a vote\<close>

definition active_clients_log_mod :: "ipa_env \<Rightarrow> log_info \<Rightarrow> bool \<Rightarrow> ipa \<Rightarrow> ipa" where
  "active_clients_log_mod e li inc s =
     s\<lparr>clk_log := (if inc then log_inc else log_dec) (env_htable_alloc e (clk_log s))
                    (env_sched_clock e (clk_log s)) (act_cnt s) li (clk_log s)\<rparr>"

definition inc_client_enable_clks :: "ipa_env \<Rightarrow> log_info \<Rightarrow> ipa \<Rightarrow> ipa" where
  "inc_client_enable_clks e li s =
     (let s1 = active_clients_log_mod e li True s in
      if act_cnt s1 \<noteq> 0 then s1\<lparr>act_cnt := act_cnt s1 + 1\<rparr>
      else
        let s2 = ipa3_enable_clks e s1;
            s3 = snd (ipa3_suspend_apps_pipes e False s2)
        in s3\<lparr>act_cnt := act_cnt s3 + 1\<rparr>)"

definition inc_client_enable_clks_no_block :: "ipa_env \<Rightarrow> log_info \<Rightarrow> ipa \<Rightarrow> rc \<times> ipa" where
  "inc_client_enable_clks_no_block e li s =
     (if act_cnt s \<noteq> 0
      then (OK, active_clients_log_mod e li True (s\<lparr>act_cnt := act_cnt s + 1\<rparr>))
      else (Err EPERM, s))"

text \<open>\<open>ipa3_active_clks_status\<close>.\<close>

definition ipa3_active_clks_status :: "ipa \<Rightarrow> int" where
  "ipa3_active_clks_status s = ipa_clk_vote s"

text \<open>
  \<open>__ipa3_dec_client_disable_clks\<close>. The work \<open>ipa3_tag_work\<close> is queued with \<open>queue_work\<close>
  and the retry with \<open>queue_delayed_work\<close>: queuing a work that is already queued does nothing.
\<close>

definition dec_client_disable_clks0 :: "ipa_env \<Rightarrow> ipa \<Rightarrow> ipa" where
  "dec_client_disable_clks0 e s =
     (if act_cnt s = 0 then fault RefcntZero s
      else if act_cnt s \<noteq> 1 then s\<lparr>act_cnt := act_cnt s - 1\<rparr>
      else
        let s1 = (if \<not> tag_process_before_gating s
                  then (emit HwForceCloseCoal s)\<lparr>tag_process_before_gating := False\<rparr>
                  else s)
        in
        if tag_process_before_gating s1
        then s1\<lparr>tag_process_before_gating := False, tag_work := True\<rparr>
        else
          let s2 = s1\<lparr>act_cnt := act_cnt s1 - 1\<rparr> in
          if 0 < act_cnt s2 then s2
          else
            let (busy, s3) = ipa3_suspend_apps_pipes e True s2 in
            if busy then s3\<lparr>act_cnt := act_cnt s3 + 1, dec_wq_work := True\<rparr>
            else ipa3_disable_clks e s3)"

definition dec_client_disable_clks :: "ipa_env \<Rightarrow> log_info \<Rightarrow> ipa \<Rightarrow> ipa" where
  "dec_client_disable_clks e li s = dec_client_disable_clks0 e (active_clients_log_mod e li False s)"

text \<open>
  \<open>ipa3_dec_client_disable_clks_no_block\<close>: \<open>atomic_add_unless(cnt, -1, 1)\<close> and, when the
  count is 1, the work queue.
\<close>

definition dec_client_disable_clks_no_block :: "ipa_env \<Rightarrow> log_info \<Rightarrow> ipa \<Rightarrow> ipa" where
  "dec_client_disable_clks_no_block e li s =
     (let s1 = active_clients_log_mod e li False s in
      if act_cnt s1 \<noteq> 1 then s1\<lparr>act_cnt := act_cnt s1 - 1\<rparr>
      else s1\<lparr>dec_wq_work := True\<rparr>)"

text \<open>\<open>ipa3_dec_client_disable_clks_delay_wq\<close>: a queued work is not queued a second time.\<close>

definition dec_client_disable_clks_delay_wq :: "ipa_env \<Rightarrow> log_info \<Rightarrow> ipa \<Rightarrow> ipa" where
  "dec_client_disable_clks_delay_wq e li s =
     (active_clients_log_mod e li False s)\<lparr>dec_suspend_wq_work := True\<rparr>"

section \<open>The works\<close>

definition PREP_SPECIAL :: "string \<Rightarrow> nat \<Rightarrow> string \<Rightarrow> log_info" where
  "PREP_SPECIAL file line name =
     \<lparr>id_string = name, log_file = file, log_line_no = line, log_type = SPECIAL\<rparr>"

text \<open>\<open>ipa3_start_tag_process\<close>, run from the queue.\<close>

definition start_tag_process :: "ipa_env \<Rightarrow> ipa \<Rightarrow> ipa" where
  "start_tag_process e s =
     dec_client_disable_clks e (PREP_SPECIAL ''ipa.c'' 5443 ''TAG_PROCESS'') (emit HwTagForceClose s)"

definition run_tag_work :: "ipa_env \<Rightarrow> ipa \<Rightarrow> ipa" where
  "run_tag_work e s = start_tag_process e (s\<lparr>tag_work := False\<rparr>)"

definition run_dec_wq_work :: "ipa_env \<Rightarrow> ipa \<Rightarrow> ipa" where
  "run_dec_wq_work e s = dec_client_disable_clks0 e (s\<lparr>dec_wq_work := False\<rparr>)"

definition run_dec_suspend_wq_work :: "ipa_env \<Rightarrow> ipa \<Rightarrow> ipa" where
  "run_dec_suspend_wq_work e s = dec_client_disable_clks0 e (s\<lparr>dec_suspend_wq_work := False\<rparr>)"

text \<open>\<open>ipa3_handle_gsi_differ_irq\<close> and the work it queues, which asserts.\<close>

definition handle_gsi_differ_irq :: "ipa \<Rightarrow> ipa" where
  "handle_gsi_differ_irq s = s\<lparr>inc_wq_work := True\<rparr>"

definition inc_clients_enable_clks_on_wq :: "ipa_env \<Rightarrow> ipa \<Rightarrow> ipa" where
  "inc_clients_enable_clks_on_wq e s =
     fault UnexpectedClkAccess (ipa3_enable_clks e (s\<lparr>inc_wq_work := False\<rparr>))"

section \<open>Wake lock and clock plan\<close>

definition ipa3_inc_acquire_wakelock :: "ipa \<Rightarrow> ipa" where
  "ipa3_inc_acquire_wakelock s =
     (let s1 = s\<lparr>wakelock_cnt := wakelock_cnt s + 1\<rparr> in
      if wakelock_cnt s1 = 1 then (emit AssertWakelock s1)\<lparr>w_lock_held := True\<rparr> else s1)"

definition ipa3_dec_release_wakelock :: "ipa \<Rightarrow> ipa" where
  "ipa3_dec_release_wakelock s =
     (let s1 = s\<lparr>wakelock_cnt := wakelock_cnt s - 1\<rparr> in
      if wakelock_cnt s1 = 0 then (emit ReleaseWakelock s1)\<lparr>w_lock_held := False\<rparr> else s1)"

definition set_clock_plan_from_pm :: "ipa_env \<Rightarrow> int \<Rightarrow> ipa \<Rightarrow> rc \<times> ipa" where
  "set_clock_plan_from_pm e idx s =
     (if \<not> enable_clock_scaling s then (OK, s\<lparr>bus_vote_idx := idx\<rparr>)
      else if ipa_hw_mode s \<noteq> HW_NORMAL then (OK, s)
      else if idx \<le> 0 \<or> 5 \<le> idx then (Err EINVAL, s)
      else
        let r = ctrl_rates s;
            clk_rate = (if idx = 1 then rate_svs2 r else if idx = 2 then rate_svs r
                        else if idx = 3 then rate_nominal r else rate_turbo r)
        in
        if clk_rate = curr_ipa_clk_rate s then (OK, s)
        else
          let s1 = s\<lparr>curr_ipa_clk_rate := clk_rate, bus_vote_idx := idx\<rparr> in
          if 0 < act_cnt s1 then
            let s2 = clk_set_rate s1;
                (bus, s3) = get_bus_vote s2
            in (OK, icc_vote e bus s3)
          else (OK, s1))"

section \<open>Start of the driver\<close>

text \<open>The clock part of \<open>ipa3_pre_init\<close>: the log, the boot rate, the first vote.\<close>

definition ipa3_pre_init_clks :: "ipa_env \<Rightarrow> bool \<Rightarrow> ipa \<Rightarrow> ipa" where
  "ipa3_pre_init_clks e kcalloc_ok s =
     (let s1 = s\<lparr>clk_log := snd (log_init kcalloc_ok (clk_log s))\<rparr>;
          s2 = s1\<lparr>enable_clock_scaling := True, curr_ipa_clk_rate := rate_svs2 (ctrl_rates s1)\<rparr>;
          s3 = (if ipa_hw_mode s2 = HW_VIRTUAL \<or> ipa_hw_mode s2 = HW_EMULATION
                then s2\<lparr>ipa_clk_vote := 1\<rparr> else s2);
          s4 = ipa3_enable_clks e s3;
          s5 = active_clients_log_mod e (PREP_SPECIAL ''ipa.c'' 7525 ''PROXY_CLK_VOTE'') True s4
      in s5\<lparr>act_cnt := 1\<rparr>)"

section \<open>The gating protocol\<close>

text \<open>
  The contract of the hardware, as an automaton over the trace: clocks are enabled when they
  are off, disabled only after the pipes were suspended with success, and while they are off no
  pipe is touched, no aggregation frame closed and no rate set.
\<close>

datatype gate = GateOff | GateOn | GateSuspended | GateBad

fun gate_step :: "gate \<Rightarrow> ipa_event \<Rightarrow> gate" where
  "gate_step GateBad ev = GateBad"
| "gate_step g HwEnableClks = (if g = GateOff then GateOn else GateBad)"
| "gate_step g HwDisableClks = (if g = GateSuspended then GateOff else GateBad)"
| "gate_step g (HwSuspendPipes suspend ok) =
     (if g = GateOff then GateBad else if suspend \<and> ok then GateSuspended else GateOn)"
| "gate_step g HwForceCloseCoal = (if g = GateOn then g else GateBad)"
| "gate_step g HwTagForceClose = (if g = GateOn then g else GateBad)"
| "gate_step g (HwSetRate r) = (if g = GateOn then g else GateBad)"
| "gate_step g _ = g"

definition gate_run :: "ipa_event list \<Rightarrow> gate" where
  "gate_run evs = foldl gate_step GateOff evs"

lemma gate_run_snoc [simp]: "gate_run (evs @ [ev]) = gate_step (gate_run evs) ev"
  by (simp add: gate_run_def)

lemma gate_run_Nil [simp]: "gate_run [] = GateOff"
  by (simp add: gate_run_def)

lemma gate_step_neutral [simp]:
  "gate_step g (IccSetBw p i) = g" "gate_step g (HwUcNotify b) = g" "gate_step g (PmCallback h c) = g"
  "gate_step g (PmTimer h d) = g" "gate_step g AssertWakelock = g" "gate_step g ReleaseWakelock = g"
  by (cases g; simp)+

section \<open>Votes and the invariant\<close>

definition clk_pending :: "ipa \<Rightarrow> int" where
  "clk_pending s = of_bool (tag_work s) + of_bool (dec_wq_work s) + of_bool (dec_suspend_wq_work s)"

definition clk_votes :: "ipa \<Rightarrow> int" where
  "clk_votes s = act_cnt s - clk_pending s"

definition rate_known :: "ipa \<Rightarrow> bool" where
  "rate_known s \<longleftrightarrow> (let r = ctrl_rates s in
     curr_ipa_clk_rate s \<in> {rate_svs2 r, rate_svs r, rate_nominal r, rate_turbo r})"

definition clk_inv :: "ipa \<Rightarrow> bool" where
  "clk_inv s \<longleftrightarrow>
     0 \<le> clk_votes s \<and> rate_known s \<and>
     (ipa_hw_mode s = HW_NORMAL \<longrightarrow>
        ipa_clk_vote s = of_bool (0 < act_cnt s) \<and>
        (has_ipa3_clk s \<longrightarrow> gate_run (events s) = (if 0 < act_cnt s then GateOn else GateOff)))"

lemma clk_pending_nonneg [simp]: "0 \<le> clk_pending s"
  by (simp add: clk_pending_def)

text \<open>
  The faults that the driver itself commits: the warnings of a failing interconnect and the
  assertion for an interrupt that the firmware left pending depend on the environment.
\<close>

definition bugs :: "ipa \<Rightarrow> ipa_fault list" where
  "bugs s = [f \<leftarrow> faults s. f \<noteq> WarnIcc \<and> f \<noteq> GsiPendingIrq]"

text \<open>The interconnect loop only appends to the trace and to the faults.\<close>

lemma icc_vote_shape:
  "\<exists>evs fs. icc_vote e idx s = s\<lparr>events := events s @ evs, faults := faults s @ fs\<rparr> \<and>
     gate_run (events s @ evs) = gate_run (events s) \<and> set fs \<subseteq> {WarnIcc}"
proof -
  have "\<exists>evs fs. foldl (\<lambda>s p. icc_set_bw e idx p s) s ps =
      s\<lparr>events := events s @ evs, faults := faults s @ fs\<rparr> \<and>
      gate_run (events s @ evs) = gate_run (events s) \<and> set fs \<subseteq> {WarnIcc}" for ps
  proof (induction ps rule: rev_induct)
    case Nil
    show ?case by (intro exI [of _ "[]"]) simp
  next
    case (snoc p ps)
    then obtain evs fs where IH: "foldl (\<lambda>s p. icc_set_bw e idx p s) s ps =
        s\<lparr>events := events s @ evs, faults := faults s @ fs\<rparr>"
        "gate_run (events s @ evs) = gate_run (events s)" "set fs \<subseteq> {WarnIcc}"
      by blast
    have g: "gate_run (events s @ evs @ [IccSetBw p idx]) = gate_run (events s)"
      using IH(2) gate_run_snoc [of "events s @ evs"] by (simp del: gate_run_snoc)
    show ?case
      using IH(1,3) g
      by (intro exI [of _ "evs @ [IccSetBw p idx]"]
            exI [of _ "fs @ (if env_icc_fails e (events s @ evs) then [WarnIcc] else [])"])
         (auto simp add: icc_set_bw_def emit_def fault_def Let_def)
  qed
  then show ?thesis by (simp add: icc_vote_def)
qed

lemma bugs_append [simp]:
  "set fs \<subseteq> {WarnIcc} \<Longrightarrow> bugs (s\<lparr>faults := faults s @ fs\<rparr>) = bugs s"
  by (auto simp: bugs_def filter_empty_conv)

lemma get_bus_vote_known: "rate_known s \<Longrightarrow> snd (get_bus_vote s) = s"
  by (auto simp: get_bus_vote_def rate_known_def Let_def)

text \<open>Enabling from a gated state, disabling from a suspended one.\<close>

lemma enable_clks_effect:
  assumes "rate_known s"
  shows "\<exists>evs fs. ipa3_enable_clks e s =
      s\<lparr>events := events s @ evs, faults := faults s @ fs,
        ipa_clk_vote := if ipa_hw_mode s = HW_NORMAL then 1 else ipa_clk_vote s\<rparr> \<and>
      set fs \<subseteq> {WarnIcc} \<and>
      (ipa_hw_mode s = HW_NORMAL \<longrightarrow> has_ipa3_clk s \<longrightarrow> gate_run (events s) = GateOff \<longrightarrow>
         gate_run (events s @ evs) = GateOn)"
proof (cases "ipa_hw_mode s = HW_NORMAL")
  case False
  then show ?thesis by (intro exI [of _ "[]"]) (simp add: ipa3_enable_clks_def)
next
  case True
  obtain idx where idx: "get_bus_vote s = (idx, s)"
    using get_bus_vote_known [OF assms] by (cases "get_bus_vote s") auto
  obtain evs fs where icc: "icc_vote e idx s = s\<lparr>events := events s @ evs, faults := faults s @ fs\<rparr>"
    "gate_run (events s @ evs) = gate_run (events s)" "set fs \<subseteq> {WarnIcc}"
    using icc_vote_shape [of e idx s] by blast
  define ext where "ext = evs @ (if has_ipa3_clk s
    then [HwEnableClks, HwSetRate (curr_ipa_clk_rate s), HwUcNotify True] else [HwUcNotify True])"
  have "gate_run (events s @ ext) = GateOn" if "has_ipa3_clk s" "gate_run (events s) = GateOff"
    using that icc(2) by (simp add: ext_def gate_run_def)
  moreover have "ipa3_enable_clks e s =
      s\<lparr>events := events s @ ext, faults := faults s @ fs, ipa_clk_vote := 1\<rparr>"
    using True idx icc(1)
    by (simp add: ipa3_enable_clks_def ctrl_enable_clks_def clk_set_rate_def emit_def ext_def)
  ultimately show ?thesis using True icc(3) by (intro exI [of _ ext] exI [of _ fs]) simp
qed

lemma disable_clks_effect:
  "\<exists>evs fs. ipa3_disable_clks e s =
      (if ipa_hw_mode s = HW_NORMAL then ipa_pm_set_clock_index 0 s else s)
       \<lparr>events := events s @ evs, faults := faults s @ fs,
        ipa_clk_vote := if ipa_hw_mode s = HW_NORMAL then 0 else ipa_clk_vote s\<rparr> \<and>
      set fs \<subseteq> {WarnIcc, GsiPendingIrq} \<and>
      (ipa_hw_mode s = HW_NORMAL \<longrightarrow> has_ipa3_clk s \<longrightarrow> gate_run (events s) = GateSuspended \<longrightarrow>
         gate_run (events s @ evs) = GateOff)"
proof (cases "ipa_hw_mode s = HW_NORMAL")
  case False
  then show ?thesis by (intro exI [of _ "[]"]) (simp add: ipa3_disable_clks_def)
next
  case True
  define gs where "gs = (if env_gsi_pending_irq e (events s) then [GsiPendingIrq] else [])"
  define ds where "ds = (if has_ipa3_clk s then [HwUcNotify False, HwDisableClks] else [HwUcNotify False])"
  define t where "t = (ipa_pm_set_clock_index 0 s)\<lparr>events := events s @ ds, faults := faults s @ gs, ipa_clk_vote := 0\<rparr>"
  obtain evs fs where icc: "icc_vote e 0 t = t\<lparr>events := events t @ evs, faults := faults t @ fs\<rparr>"
    "gate_run (events t @ evs) = gate_run (events t)" "set fs \<subseteq> {WarnIcc}"
    using icc_vote_shape [of e 0 t] by blast
  define t0 where "t0 = ipa_pm_set_clock_index 0 (ctrl_disable_clks
      (if env_gsi_pending_irq e (events s) then fault GsiPendingIrq (s\<lparr>ipa_clk_vote := 0\<rparr>)
       else s\<lparr>ipa_clk_vote := 0\<rparr>))"
  have "t0 = t"
    by (rule ipa.equality)
       (auto simp: t0_def t_def Let_def ctrl_disable_clks_def emit_def fault_def gs_def
        ds_def ipa_pm_set_clock_index_def upd_scaling_def upd_pm_def)
  moreover have "ipa3_disable_clks e s = (icc_vote e 0 t0)\<lparr>ipa_clk_vote := 0\<rparr>"
    using True by (simp add: ipa3_disable_clks_def t0_def Let_def)
  ultimately have "ipa3_disable_clks e s = (icc_vote e 0 t)\<lparr>ipa_clk_vote := 0\<rparr>" by simp
  then have "ipa3_disable_clks e s =
     (ipa_pm_set_clock_index 0 s)\<lparr>events := events s @ ds @ evs, faults := faults s @ gs @ fs, ipa_clk_vote := 0\<rparr>"
    by (simp only: icc(1)) (simp add: t_def)
  moreover have "gate_run (events s @ ds @ evs) = GateOff"
    if "has_ipa3_clk s" "gate_run (events s) = GateSuspended"
    using that icc(2) by (simp add: t_def ds_def gate_run_def)
  moreover have "set (gs @ fs) \<subseteq> {WarnIcc, GsiPendingIrq}" using icc(3) by (auto simp: gs_def)
  ultimately show ?thesis
    using True by (intro exI [of _ "ds @ evs"] exI [of _ "gs @ fs"]) simp
qed

section \<open>What each operation does to the votes\<close>

definition reset_vote :: "pm_ctx \<Rightarrow> pm_ctx" where
  "reset_vote p = p\<lparr>clk_scaling := (clk_scaling p)\<lparr>cur_vote := 0\<rparr>\<rparr>"

lemma pm_set_clock_index_0 [simp]: "pm (ipa_pm_set_clock_index 0 s) = map_option reset_vote (pm s)"
  by (cases "pm s") (auto simp: ipa_pm_set_clock_index_def upd_scaling_def upd_pm_def reset_vote_def)

lemma set_clock_index_frame [simp]:
  "act_cnt (ipa_pm_set_clock_index i s) = act_cnt s"
  "clk_pending (ipa_pm_set_clock_index i s) = clk_pending s"
  "ipa_clk_vote (ipa_pm_set_clock_index i s) = ipa_clk_vote s"
  "ipa_hw_mode (ipa_pm_set_clock_index i s) = ipa_hw_mode s"
  "has_ipa3_clk (ipa_pm_set_clock_index i s) = has_ipa3_clk s"
  "rate_known (ipa_pm_set_clock_index i s) = rate_known s"
  "events (ipa_pm_set_clock_index i s) = events s"
  "faults (ipa_pm_set_clock_index i s) = faults s"
  by (auto simp: ipa_pm_set_clock_index_def upd_scaling_def upd_pm_def clk_pending_def rate_known_def)

text \<open>An update of the other fields does not touch what the invariant reads.\<close>

lemma log_mod_frame [simp]:
  "act_cnt (active_clients_log_mod e li inc s) = act_cnt s"
  "clk_pending (active_clients_log_mod e li inc s) = clk_pending s"
  "clk_votes (active_clients_log_mod e li inc s) = clk_votes s"
  "clk_inv (active_clients_log_mod e li inc s) = clk_inv s"
  "bugs (active_clients_log_mod e li inc s) = bugs s"
  "rate_known (active_clients_log_mod e li inc s) = rate_known s"
  "pm (active_clients_log_mod e li inc s) = pm s"
  "ipa_hw_mode (active_clients_log_mod e li inc s) = ipa_hw_mode s"
  "ipa_clk_vote (active_clients_log_mod e li inc s) = ipa_clk_vote s"
  "has_ipa3_clk (active_clients_log_mod e li inc s) = has_ipa3_clk s"
  "events (active_clients_log_mod e li inc s) = events s"
  by (simp_all add: active_clients_log_mod_def clk_inv_def clk_votes_def clk_pending_def bugs_def rate_known_def)

lemma rate_known_upd [simp]:
  "rate_known (s\<lparr>act_cnt := n\<rparr>) = rate_known s" "rate_known (s\<lparr>events := evs\<rparr>) = rate_known s"
  "rate_known (s\<lparr>faults := fs\<rparr>) = rate_known s" "rate_known (s\<lparr>ipa_clk_vote := v\<rparr>) = rate_known s"
  "rate_known (s\<lparr>tag_work := b\<rparr>) = rate_known s" "rate_known (s\<lparr>dec_wq_work := b\<rparr>) = rate_known s"
  "rate_known (s\<lparr>dec_suspend_wq_work := b\<rparr>) = rate_known s"
  "rate_known (s\<lparr>tag_process_before_gating := b\<rparr>) = rate_known s"
  "rate_known (s\<lparr>pm := p\<rparr>) = rate_known s" "rate_known (s\<lparr>clk_log := l\<rparr>) = rate_known s"
  by (simp_all add: rate_known_def)

lemma bugs_upd [simp]:
  "bugs (s\<lparr>act_cnt := n\<rparr>) = bugs s" "bugs (s\<lparr>events := evs\<rparr>) = bugs s" "bugs (s\<lparr>ipa_clk_vote := v\<rparr>) = bugs s"
  "bugs (s\<lparr>tag_work := b\<rparr>) = bugs s" "bugs (s\<lparr>dec_wq_work := b\<rparr>) = bugs s"
  "bugs (s\<lparr>dec_suspend_wq_work := b\<rparr>) = bugs s"
  "bugs (s\<lparr>tag_process_before_gating := b\<rparr>) = bugs s" "bugs (s\<lparr>pm := p\<rparr>) = bugs s"
  "bugs (s\<lparr>clk_log := l\<rparr>) = bugs s"
  by (simp_all add: bugs_def)

lemma bugs_env [simp]:
  "set fs \<subseteq> {WarnIcc, GsiPendingIrq} \<Longrightarrow> [f \<leftarrow> fs. f \<noteq> WarnIcc \<and> f \<noteq> GsiPendingIrq] = []"
  "set fs \<subseteq> {WarnIcc} \<Longrightarrow> [f \<leftarrow> fs. f \<noteq> WarnIcc \<and> f \<noteq> GsiPendingIrq] = []"
  by (auto simp: filter_empty_conv)

lemma clk_pending_0: "clk_pending s = 0 \<longleftrightarrow> \<not> tag_work s \<and> \<not> dec_wq_work s \<and> \<not> dec_suspend_wq_work s"
  by (auto simp: clk_pending_def)

lemma clk_pending_upd [simp]:
  "clk_pending (s\<lparr>act_cnt := n\<rparr>) = clk_pending s" "clk_pending (s\<lparr>events := evs\<rparr>) = clk_pending s"
  "clk_pending (s\<lparr>faults := fs\<rparr>) = clk_pending s" "clk_pending (s\<lparr>ipa_clk_vote := v\<rparr>) = clk_pending s"
  "clk_pending (s\<lparr>tag_process_before_gating := b\<rparr>) = clk_pending s"
  "clk_pending (s\<lparr>pm := p\<rparr>) = clk_pending s" "clk_pending (s\<lparr>clk_log := l\<rparr>) = clk_pending s"
  "clk_pending (s\<lparr>tag_work := b\<rparr>) = clk_pending s - of_bool (tag_work s) + of_bool b"
  "clk_pending (s\<lparr>dec_wq_work := b\<rparr>) = clk_pending s - of_bool (dec_wq_work s) + of_bool b"
  "clk_pending (s\<lparr>dec_suspend_wq_work := b\<rparr>) = clk_pending s - of_bool (dec_suspend_wq_work s) + of_bool b"
  by (simp_all add: clk_pending_def)

text \<open>Establishing the invariant from the fields it reads.\<close>

lemma clk_invI:
  assumes "0 \<le> clk_votes s" "rate_known s"
    "ipa_hw_mode s = HW_NORMAL \<Longrightarrow> ipa_clk_vote s = of_bool (0 < act_cnt s)"
    "ipa_hw_mode s = HW_NORMAL \<Longrightarrow> has_ipa3_clk s \<Longrightarrow>
       gate_run (events s) = (if 0 < act_cnt s then GateOn else GateOff)"
  shows "clk_inv s"
  using assms by (simp add: clk_inv_def)

lemma clk_invD:
  assumes "clk_inv s"
  shows "0 \<le> clk_votes s" "rate_known s"
    "ipa_hw_mode s = HW_NORMAL \<Longrightarrow> ipa_clk_vote s = of_bool (0 < act_cnt s)"
    "ipa_hw_mode s = HW_NORMAL \<Longrightarrow> has_ipa3_clk s \<Longrightarrow>
       gate_run (events s) = (if 0 < act_cnt s then GateOn else GateOff)"
  using assms by (simp_all add: clk_inv_def)

text \<open>Changes of the count and of the queued works while the clocks stay on.\<close>

lemma clk_inv_move:
  assumes "clk_inv s" "0 < act_cnt s" "0 < act_cnt s'" "0 \<le> clk_votes s'"
    "ipa_hw_mode s' = ipa_hw_mode s" "has_ipa3_clk s' = has_ipa3_clk s" "rate_known s' = rate_known s"
    "ipa_clk_vote s' = ipa_clk_vote s" "events s' = events s"
  shows "clk_inv s'"
  using clk_invD [OF assms(1)] assms by (intro clk_invI) auto

definition clk_step_ok :: "int \<Rightarrow> ipa \<Rightarrow> ipa \<Rightarrow> bool" where
  "clk_step_ok d s s' \<longleftrightarrow> clk_inv s' \<and> clk_votes s' = clk_votes s + d \<and> bugs s' = bugs s \<and>
     (pm s' = pm s \<or> pm s' = map_option reset_vote (pm s))"

lemma clk_votes_le: "clk_votes s \<le> act_cnt s"
  by (simp add: clk_votes_def)

lemma act_cnt_nonneg: "clk_inv s \<Longrightarrow> 0 \<le> act_cnt s"
  using clk_votes_le [of s] by (simp add: clk_inv_def)

lemma inc_ok:
  assumes inv: "clk_inv s"
  shows "clk_step_ok 1 s (inc_client_enable_clks e li s) \<and> pm (inc_client_enable_clks e li s) = pm s \<and>
    0 < act_cnt (inc_client_enable_clks e li s)"
proof (cases "act_cnt s = 0")
  case False
  then have "0 < act_cnt s" using act_cnt_nonneg [OF inv] by simp
  with False inv show ?thesis
    by (auto simp: inc_client_enable_clks_def Let_def clk_step_ok_def clk_votes_def
        dest: clk_invD(1) intro!: clk_inv_move [OF inv])
next
  case True
  let ?s = "active_clients_log_mod e li True s"
  have rk: "rate_known ?s" using inv by (simp add: clk_inv_def)
  obtain evs fs where en: "ipa3_enable_clks e ?s =
      ?s\<lparr>events := events ?s @ evs, faults := faults ?s @ fs,
        ipa_clk_vote := if ipa_hw_mode ?s = HW_NORMAL then 1 else ipa_clk_vote ?s\<rparr>"
      "set fs \<subseteq> {WarnIcc}"
      "ipa_hw_mode s = HW_NORMAL \<Longrightarrow> has_ipa3_clk s \<Longrightarrow> gate_run (events s) = GateOff \<Longrightarrow>
         gate_run (events s @ evs) = GateOn"
    using enable_clks_effect [OF rk, of e] by auto
  have bugs: "bugs (?s\<lparr>faults := faults ?s @ fs\<rparr>) = bugs s"
    using en(2) by (simp add: bugs_def active_clients_log_mod_def)
  have pend: "clk_pending s = 0" using inv True by (auto simp: clk_inv_def clk_votes_def intro: antisym)
  have gate: "gate_run (events s @ evs @ [HwSuspendPipes False b]) = GateOn"
    if "ipa_hw_mode s = HW_NORMAL" "has_ipa3_clk s" for b
    using that inv True en(3) gate_run_snoc [of "events s @ evs"]
    by (simp add: clk_inv_def del: gate_run_snoc)
  let ?s' = "inc_client_enable_clks e li s"
  have s': "?s' = (ipa3_enable_clks e ?s)\<lparr>act_cnt := 1,
      events := events s @ evs @ [HwSuspendPipes False (\<not> env_suspend_busy e (events s @ evs))]\<rparr>"
    using True by (simp add: inc_client_enable_clks_def Let_def en(1) ipa3_suspend_apps_pipes_def emit_def)
  have fields: "act_cnt ?s' = 1" "clk_votes ?s' = 1" "rate_known ?s'" "ipa_hw_mode ?s' = ipa_hw_mode s"
    "has_ipa3_clk ?s' = has_ipa3_clk s" "pm ?s' = pm s" "bugs ?s' = bugs s"
    "ipa_hw_mode s = HW_NORMAL \<Longrightarrow> ipa_clk_vote ?s' = 1"
    "events ?s' = events s @ evs @ [HwSuspendPipes False (\<not> env_suspend_busy e (events s @ evs))]"
    using bugs pend rk by (auto simp: s' en(1) clk_votes_def)
  have "clk_inv ?s'" using fields gate by (intro clk_invI) auto
  with fields True pend show ?thesis by (simp add: clk_step_ok_def clk_votes_def)
qed

lemma inc_no_block_ok:
  assumes "clk_inv s" "inc_client_enable_clks_no_block e li s = (OK, s')"
  shows "clk_step_ok 1 s s' \<and> pm s' = pm s \<and> 0 < act_cnt s"
proof -
  have "0 < act_cnt s" using assms act_cnt_nonneg [of s]
    by (auto simp: inc_client_enable_clks_no_block_def split: if_splits)
  with assms clk_invD(1) [OF assms(1)] show ?thesis
    by (auto simp: inc_client_enable_clks_no_block_def clk_step_ok_def clk_votes_def
        split: if_splits intro!: clk_inv_move [OF assms(1)])
qed

lemma inc_no_block_fails:
  "inc_client_enable_clks_no_block e li s = (Err x, s') \<Longrightarrow> s' = s \<and> act_cnt s = 0 \<and> x = EPERM"
  by (auto simp: inc_client_enable_clks_no_block_def split: if_splits)

text \<open>
  Releasing the last vote: with the TAG process requested the count stays at one and a work is
  queued; with busy hardware the count goes back to one and the retry is queued; otherwise the
  clocks are gated.
\<close>

lemma dec0_last:
  assumes inv: "clk_inv s" and one: "act_cnt s = 1" "clk_votes s = 1"
  shows "clk_step_ok (- 1) s (dec_client_disable_clks0 e s)"
proof (cases "tag_process_before_gating s")
  case True
  have "clk_pending s = 0" using one by (simp add: clk_votes_def)
  then have "\<not> tag_work s" by (simp add: clk_pending_0)
  with True one show ?thesis
    by (auto simp: dec_client_disable_clks0_def clk_step_ok_def clk_votes_def Let_def
        intro!: clk_inv_move [OF inv])
next
  case False
  define s1 where "s1 = s\<lparr>tag_process_before_gating := False, act_cnt := 0,
     events := events s @ [HwForceCloseCoal, HwSuspendPipes True (\<not> env_suspend_busy e (events s @ [HwForceCloseCoal]))]\<rparr>"
  have gate: "gate_run (events s1) = (if env_suspend_busy e (events s @ [HwForceCloseCoal]) then GateOn else GateSuspended)"
    if "ipa_hw_mode s = HW_NORMAL" "has_ipa3_clk s"
    using that inv one gate_run_snoc [of "events s @ [HwForceCloseCoal]"]
    by (simp add: s1_def clk_inv_def del: gate_run_snoc) (simp add: gate_run_def)
  have pend: "clk_pending s = 0" using one by (simp add: clk_votes_def)
  then have idle0: "\<not> dec_wq_work s" by (simp add: clk_pending_0)
  show ?thesis
  proof (cases "env_suspend_busy e (events s @ [HwForceCloseCoal])")
    case busy: True
    have "dec_client_disable_clks0 e s = s1\<lparr>act_cnt := 1, dec_wq_work := True\<rparr>"
      using False one busy
      by (auto simp: dec_client_disable_clks0_def Let_def emit_def ipa3_suspend_apps_pipes_def s1_def intro!: ipa.equality)
    moreover have "clk_inv (s1\<lparr>act_cnt := 1, dec_wq_work := True\<rparr>)"
      using busy gate pend idle0 one clk_invD [OF inv]
      by (intro clk_invI) (auto simp: clk_votes_def s1_def)
    ultimately show ?thesis
      using pend idle0 one by (auto simp: clk_step_ok_def clk_votes_def s1_def)
  next
    case idle: False
    have eq: "dec_client_disable_clks0 e s = ipa3_disable_clks e s1"
      using False one idle
      by (auto simp: dec_client_disable_clks0_def Let_def emit_def ipa3_suspend_apps_pipes_def s1_def
          intro!: arg_cong [where f = "ipa3_disable_clks e"] ipa.equality)
    obtain evs fs where di: "ipa3_disable_clks e s1 =
      (if ipa_hw_mode s1 = HW_NORMAL then ipa_pm_set_clock_index 0 s1 else s1)
       \<lparr>events := events s1 @ evs, faults := faults s1 @ fs,
        ipa_clk_vote := if ipa_hw_mode s1 = HW_NORMAL then 0 else ipa_clk_vote s1\<rparr>"
      "set fs \<subseteq> {WarnIcc, GsiPendingIrq}"
      "ipa_hw_mode s1 = HW_NORMAL \<Longrightarrow> has_ipa3_clk s1 \<Longrightarrow> gate_run (events s1) = GateSuspended \<Longrightarrow>
         gate_run (events s1 @ evs) = GateOff"
      using disable_clks_effect [of e s1] by blast
    have s1: "ipa_hw_mode s1 = ipa_hw_mode s" "has_ipa3_clk s1 = has_ipa3_clk s" "act_cnt s1 = 0"
      "clk_pending s1 = 0" "rate_known s1" "faults s1 = faults s" "pm s1 = pm s"
      using pend clk_invD(2) [OF inv] by (auto simp: s1_def)
    let ?s' = "ipa3_disable_clks e s1"
    have fields: "act_cnt ?s' = 0" "clk_pending ?s' = 0" "rate_known ?s'"
      "ipa_hw_mode ?s' = ipa_hw_mode s" "has_ipa3_clk ?s' = has_ipa3_clk s"
      "ipa_hw_mode s = HW_NORMAL \<Longrightarrow> ipa_clk_vote ?s' = 0"
      "events ?s' = events s1 @ evs" "pm ?s' = pm s \<or> pm ?s' = map_option reset_vote (pm s)"
      using s1 by (auto simp: di(1))
    have bugs: "bugs ?s' = bugs s" using di(2) s1 by (auto simp: di(1) bugs_def)
    have "clk_inv ?s'"
      using fields gate idle di(3) s1 by (intro clk_invI) (auto simp: clk_votes_def)
    with fields bugs one show ?thesis by (auto simp: eq clk_step_ok_def clk_votes_def)
  qed
qed

lemma dec0_ok:
  assumes inv: "clk_inv s" and "1 \<le> clk_votes s"
  shows "clk_step_ok (- 1) s (dec_client_disable_clks0 e s)"
proof (cases "act_cnt s = 1")
  case True
  then show ?thesis using assms clk_votes_le [of s] by (intro dec0_last) auto
next
  case False
  then have "1 < act_cnt s" using assms clk_votes_le [of s] by auto
  with assms show ?thesis
    by (auto simp: dec_client_disable_clks0_def clk_step_ok_def clk_votes_def intro!: clk_inv_move [OF inv])
qed

lemma dec_ok:
  assumes inv: "clk_inv s" and "1 \<le> clk_votes s"
  shows "clk_step_ok (- 1) s (dec_client_disable_clks e li s)"
  using dec0_ok [of "active_clients_log_mod e li False s" e] assms
  by (simp add: dec_client_disable_clks_def clk_step_ok_def)

lemma dec_no_block_ok:
  assumes "clk_inv s" "1 \<le> clk_votes s"
  shows "clk_step_ok (- 1) s (dec_client_disable_clks_no_block e li s)"
proof -
  let ?s = "active_clients_log_mod e li False s"
  have s: "clk_inv ?s" "1 \<le> clk_votes ?s" using assms by simp_all
  have "clk_step_ok (- 1) ?s (dec_client_disable_clks_no_block e li s)"
  proof (cases "act_cnt ?s = 1")
    case True
    with s have "clk_pending ?s = 0" by (intro antisym) (auto simp: clk_votes_def)
    then have "\<not> dec_wq_work ?s" using clk_pending_0 [of ?s] by simp
    with s True show ?thesis
      by (auto simp: dec_client_disable_clks_no_block_def Let_def clk_step_ok_def clk_votes_def
          intro!: clk_inv_move [OF s(1)])
  next
    case False
    then have "1 < act_cnt s" using s clk_votes_le [of s] by simp
    with s show ?thesis
      by (auto simp: dec_client_disable_clks_no_block_def Let_def clk_step_ok_def clk_votes_def
          intro!: clk_inv_move [OF s(1)])
  qed
  then show ?thesis by (simp add: clk_step_ok_def)
qed

text \<open>
  The delayed release hands its vote to the queued work, unless that work is already queued.
\<close>

lemma dec_delay_ok:
  assumes "clk_inv s" "1 \<le> clk_votes s" "\<not> dec_suspend_wq_work s"
  shows "clk_step_ok (- 1) s (dec_client_disable_clks_delay_wq e li s)"
  using assms
  by (auto simp: dec_client_disable_clks_delay_wq_def active_clients_log_mod_def clk_step_ok_def
      clk_inv_def clk_votes_def clk_pending_def )

text \<open>Running a queued work: its vote goes back to the count and is released.\<close>

lemma run_work_ok:
  assumes "clk_inv s"
  shows "dec_wq_work s \<Longrightarrow> clk_step_ok 0 s (run_dec_wq_work e s)"
    and "dec_suspend_wq_work s \<Longrightarrow> clk_step_ok 0 s (run_dec_suspend_wq_work e s)"
    and "tag_work s \<Longrightarrow> clk_step_ok 0 s (run_tag_work e s)"
proof -
  assume w: "dec_wq_work s"
  let ?s = "s\<lparr>dec_wq_work := False\<rparr>"
  have "clk_inv ?s" "1 \<le> clk_votes ?s" "clk_votes ?s = clk_votes s + 1"
    using assms w by (auto simp: clk_inv_def clk_votes_def clk_pending_def )
  then show "clk_step_ok 0 s (run_dec_wq_work e s)"
    using dec0_ok [of ?s e] by (simp add: run_dec_wq_work_def clk_step_ok_def)
next
  assume w: "dec_suspend_wq_work s"
  let ?s = "s\<lparr>dec_suspend_wq_work := False\<rparr>"
  have "clk_inv ?s" "1 \<le> clk_votes ?s" "clk_votes ?s = clk_votes s + 1"
    using assms w by (auto simp: clk_inv_def clk_votes_def clk_pending_def )
  then show "clk_step_ok 0 s (run_dec_suspend_wq_work e s)"
    using dec0_ok [of ?s e] by (simp add: run_dec_suspend_wq_work_def clk_step_ok_def)
next
  assume w: "tag_work s"
  let ?s = "emit HwTagForceClose (s\<lparr>tag_work := False\<rparr>)"
  have "0 < clk_pending s" using w by (simp add: clk_pending_def)
  then have "0 < act_cnt s" using assms by (auto simp: clk_inv_def clk_votes_def)
  then have "clk_inv ?s" "1 \<le> clk_votes ?s" "clk_votes ?s = clk_votes s + 1" "bugs ?s = bugs s"
    using assms w
    by (auto simp: clk_inv_def clk_votes_def clk_pending_def  emit_def bugs_def)
  then show "clk_step_ok 0 s (run_tag_work e s)"
    using dec_ok [of ?s e "PREP_SPECIAL ''ipa.c'' 5443 ''TAG_PROCESS''"]
    by (simp add: run_tag_work_def start_tag_process_def clk_step_ok_def) (simp add: emit_def)
qed

text \<open>The clock plan changes the rate, never the votes.\<close>

lemma set_clock_plan_ok:
  assumes inv: "clk_inv s"
  shows "clk_step_ok 0 s (snd (set_clock_plan_from_pm e idx s)) \<and>
    pm (snd (set_clock_plan_from_pm e idx s)) = pm s"
proof -
  define r where "r = ctrl_rates s"
  define rate where "rate = (if idx = 1 then rate_svs2 r else if idx = 2 then rate_svs r
                        else if idx = 3 then rate_nominal r else rate_turbo r)"
  define s1 where "s1 = s\<lparr>curr_ipa_clk_rate := rate, bus_vote_idx := idx\<rparr>"
  have known: "rate_known s1" by (simp add: rate_known_def s1_def rate_def r_def Let_def)
  have s1: "act_cnt s1 = act_cnt s" "clk_pending s1 = clk_pending s" "bugs s1 = bugs s" "pm s1 = pm s"
    "events s1 = events s" "ipa_hw_mode s1 = ipa_hw_mode s" "ipa_clk_vote s1 = ipa_clk_vote s"
    "has_ipa3_clk s1 = has_ipa3_clk s" "faults s1 = faults s"
    by (simp_all add: s1_def clk_pending_def bugs_def)
  have "clk_inv s1" using clk_invD [OF inv] known s1 by (intro clk_invI) (auto simp: clk_votes_def)
  define s2 where "s2 = clk_set_rate s1"
  have on: "clk_inv (icc_vote e b s2) \<and> clk_votes (icc_vote e b s2) = clk_votes s \<and>
      bugs (icc_vote e b s2) = bugs s \<and> pm (icc_vote e b s2) = pm s" if pos: "0 < act_cnt s" for b
  proof -
    have s2: "act_cnt s2 = act_cnt s" "clk_pending s2 = clk_pending s" "bugs s2 = bugs s" "pm s2 = pm s"
      "ipa_hw_mode s2 = ipa_hw_mode s" "ipa_clk_vote s2 = ipa_clk_vote s" "has_ipa3_clk s2 = has_ipa3_clk s"
      "rate_known s2"
      using s1 known by (simp_all add: s2_def clk_set_rate_def emit_def)
    obtain evs fs where icc: "icc_vote e b s2 = s2\<lparr>events := events s2 @ evs, faults := faults s2 @ fs\<rparr>"
      "gate_run (events s2 @ evs) = gate_run (events s2)" "set fs \<subseteq> {WarnIcc}"
      using icc_vote_shape [of e b s2] by blast
    have gate: "gate_run (events s2) = GateOn" if "ipa_hw_mode s = HW_NORMAL" "has_ipa3_clk s"
      using that pos clk_invD(4) [OF inv] s1 by (simp add: s2_def clk_set_rate_def emit_def)
    have bugs: "bugs (s2\<lparr>events := events s2 @ evs, faults := faults s2 @ fs\<rparr>) = bugs s2"
      using icc(3) by (simp add: bugs_def)
    have "clk_inv (icc_vote e b s2)"
      using gate icc(2) s2 pos clk_invD [OF inv] unfolding icc(1) by (intro clk_invI) (auto simp: clk_votes_def)
    then show ?thesis using s2 bugs by (simp add: icc(1) clk_votes_def)
  qed
  have bv: "get_bus_vote s2 = (fst (get_bus_vote s2), s2)"
    using get_bus_vote_known [of s2] known
    by (metis prod.collapse rate_known_def rate_known_upd(2) s2_def clk_set_rate_def emit_def)
  have off: "clk_step_ok 0 s s1" using \<open>clk_inv s1\<close> s1 by (simp add: clk_step_ok_def clk_votes_def)
  have trivial: "clk_step_ok 0 s (s\<lparr>bus_vote_idx := i\<rparr>)" for i
    using clk_invD [OF inv]
    by (auto simp: clk_step_ok_def clk_votes_def clk_pending_def bugs_def rate_known_def intro!: clk_invI)
  have refl: "clk_step_ok 0 s s" using inv by (simp add: clk_step_ok_def)
  consider "\<not> enable_clock_scaling s"
    | "enable_clock_scaling s" "ipa_hw_mode s \<noteq> HW_NORMAL \<or> idx \<le> 0 \<or> 5 \<le> idx \<or> rate = curr_ipa_clk_rate s"
    | "enable_clock_scaling s" "ipa_hw_mode s = HW_NORMAL" "0 < idx" "idx < 5" "rate \<noteq> curr_ipa_clk_rate s"
    by linarith
  then show ?thesis
  proof cases
    case 1
    then show ?thesis using trivial by (simp add: set_clock_plan_from_pm_def)
  next
    case 2
    then have "snd (set_clock_plan_from_pm e idx s) = s"
      unfolding set_clock_plan_from_pm_def Let_def r_def [symmetric] rate_def [symmetric] by auto
    then show ?thesis using refl by simp
  next
    case 3
    then have "snd (set_clock_plan_from_pm e idx s) =
       (if 0 < act_cnt s then icc_vote e (fst (get_bus_vote s2)) s2 else s1)"
      unfolding set_clock_plan_from_pm_def Let_def r_def [symmetric] rate_def [symmetric]
        s1_def [symmetric] s2_def [symmetric]
      by (subst bv) (simp add: s1)
    then show ?thesis using on off s1 by (simp add: clk_step_ok_def)
  qed
qed

section \<open>The clock interface\<close>

text \<open>
  What a user of the clocks relies on: a vote taken is counted, a vote released is given back,
  the clocks run while somebody holds a vote, and the user's own data is left alone.
\<close>

datatype ('e, 'i) vote_op = TakeVote 'e 'i | DropVote 'e 'i

fun run_votes ::
  "('e \<Rightarrow> 'i \<Rightarrow> 's \<Rightarrow> 's) \<Rightarrow> ('e \<Rightarrow> 'i \<Rightarrow> 's \<Rightarrow> 's) \<Rightarrow> ('e, 'i) vote_op list \<Rightarrow> 's \<Rightarrow> 's" where
  "run_votes inc dec [] s = s"
| "run_votes inc dec (TakeVote e i # ops) s = run_votes inc dec ops (inc e i s)"
| "run_votes inc dec (DropVote e i # ops) s = run_votes inc dec ops (dec e i s)"

text \<open>\<open>vote_balance n ops\<close>: the votes a user holds that held \<open>n\<close>, if it never drops more.\<close>

fun vote_balance :: "nat \<Rightarrow> ('e, 'i) vote_op list \<Rightarrow> nat option" where
  "vote_balance n [] = Some n"
| "vote_balance n (TakeVote e i # ops) = vote_balance (Suc n) ops"
| "vote_balance n (DropVote e i # ops) = (case n of 0 \<Rightarrow> None | Suc m \<Rightarrow> vote_balance m ops)"

locale clock_votes =
  fixes inc :: "'e \<Rightarrow> 'i \<Rightarrow> 's \<Rightarrow> 's"
    and dec :: "'e \<Rightarrow> 'i \<Rightarrow> 's \<Rightarrow> 's"
    and votes :: "'s \<Rightarrow> int"
    and inv :: "'s \<Rightarrow> bool"
    and running :: "'s \<Rightarrow> bool"
    and view :: "'s \<Rightarrow> 'v"
  assumes inc_law: "inv s \<Longrightarrow>
      inv (inc e i s) \<and> votes (inc e i s) = votes s + 1 \<and> view (inc e i s) = view s"
    and dec_law: "inv s \<Longrightarrow> 1 \<le> votes s \<Longrightarrow>
      inv (dec e i s) \<and> votes (dec e i s) = votes s - 1 \<and> view (dec e i s) = view s"
    and running_law: "inv s \<Longrightarrow> 1 \<le> votes s \<Longrightarrow> running s"
begin

lemma inc_running:
  assumes "inv s" "0 \<le> votes s"
  shows "running (inc e i s)"
  using inc_law [OF assms(1), of e i] assms(2) running_law by auto

lemma balanced_run:
  assumes "inv s" "int n \<le> votes s" "vote_balance n ops = Some m"
  shows "inv (run_votes inc dec ops s) \<and> votes (run_votes inc dec ops s) = votes s + int m - int n \<and>
    view (run_votes inc dec ops s) = view s"
  using assms
proof (induction ops arbitrary: s n)
  case (Cons op ops)
  show ?case
  proof (cases op)
    case (TakeVote e i)
    with Cons.prems inc_law [of s e i] Cons.IH [of "inc e i s" "Suc n"] show ?thesis by simp
  next
    case (DropVote e i)
    with Cons.prems obtain k where "n = Suc k" by (cases n) auto
    with DropVote Cons.prems dec_law [of s e i] Cons.IH [of "dec e i s" k] show ?thesis by simp
  qed
qed simp

lemma holder_running:
  assumes "inv s" "int n \<le> votes s" "vote_balance n ops = Some m" "0 < m"
  shows "running (run_votes inc dec ops s)"
proof -
  have "inv (run_votes inc dec ops s)" "1 \<le> votes (run_votes inc dec ops s)"
    using balanced_run [OF assms(1-3)] assms(2,4) by auto
  then show ?thesis by (rule running_law)
qed

end

text \<open>The vote of an atomic context succeeds only while the clocks run already.\<close>

locale clock_votes_atomic = clock_votes inc dec votes inv running view
  for inc :: "'e \<Rightarrow> 'i \<Rightarrow> 's \<Rightarrow> 's" and dec votes inv running
    and view :: "'s \<Rightarrow> 'v" +
  fixes inc_nb :: "'e \<Rightarrow> 'i \<Rightarrow> 's \<Rightarrow> rc \<times> 's"
  assumes nb_law: "inv s \<Longrightarrow> inc_nb e i s = (OK, s') \<Longrightarrow>
      inv s' \<and> votes s' = votes s + 1 \<and> view s' = view s"
    and nb_fails: "inc_nb e i s = (Err x, s') \<Longrightarrow> s' = s"
begin

lemma nb_running:
  assumes "inv s" "0 \<le> votes s" "inc_nb e i s = (OK, s')"
  shows "running s'"
  using nb_law [OF assms(1,3)] assms(2) running_law by auto

end

text \<open>
  What a user of the clocks keeps in the driver's state: the power manager's context, up to the
  current vote that gating the clocks resets, and the record of the driver's faults.
\<close>

definition clk_running :: "ipa \<Rightarrow> bool" where
  "clk_running s \<longleftrightarrow> 0 < act_cnt s \<and>
     (ipa_hw_mode s = HW_NORMAL \<longrightarrow>
        ipa_clk_vote s = 1 \<and> (has_ipa3_clk s \<longrightarrow> gate_run (events s) = GateOn))"

definition user_view :: "ipa \<Rightarrow> pm_ctx option \<times> ipa_fault list" where
  "user_view s = (map_option reset_vote (pm s), bugs s)"

lemma reset_vote_idem [simp]: "reset_vote (reset_vote p) = reset_vote p"
  by (simp add: reset_vote_def)

lemma clk_step_ok_view: "clk_step_ok d s s' \<Longrightarrow> user_view s' = user_view s"
  by (auto simp: clk_step_ok_def user_view_def option.map_comp o_def)

lemma clk_running_votes: "clk_inv s \<Longrightarrow> 1 \<le> clk_votes s \<Longrightarrow> clk_running s"
  using clk_votes_le [of s] by (auto simp: clk_inv_def clk_running_def)

interpretation clk: clock_votes_atomic inc_client_enable_clks dec_client_disable_clks clk_votes
  clk_inv clk_running user_view inc_client_enable_clks_no_block
proof unfold_locales
  show "clk_inv s \<Longrightarrow> clk_inv (inc_client_enable_clks e i s) \<and>
      clk_votes (inc_client_enable_clks e i s) = clk_votes s + 1 \<and>
      user_view (inc_client_enable_clks e i s) = user_view s" for s e i
    using inc_ok [of s e i] clk_step_ok_view [of 1 s] by (auto simp: clk_step_ok_def)
  show "clk_inv s \<Longrightarrow> 1 \<le> clk_votes s \<Longrightarrow> clk_inv (dec_client_disable_clks e i s) \<and>
      clk_votes (dec_client_disable_clks e i s) = clk_votes s - 1 \<and>
      user_view (dec_client_disable_clks e i s) = user_view s" for s e i
    using dec_ok [of s e i] clk_step_ok_view [of "- 1" s] by (auto simp: clk_step_ok_def)
  show "clk_inv s \<Longrightarrow> 1 \<le> clk_votes s \<Longrightarrow> clk_running s" for s by (rule clk_running_votes)
  show "clk_inv s \<Longrightarrow> inc_client_enable_clks_no_block e i s = (OK, s') \<Longrightarrow>
      clk_inv s' \<and> clk_votes s' = clk_votes s + 1 \<and> user_view s' = user_view s" for s e i s'
    using inc_no_block_ok [of s e i s'] clk_step_ok_view [of 1 s] by (auto simp: clk_step_ok_def)
  show "inc_client_enable_clks_no_block e i s = (Err x, s') \<Longrightarrow> s' = s" for e i s x s'
    using inc_no_block_fails by blast
qed

section \<open>All histories of the clock component\<close>

text \<open>
  A step of the component: a user takes or releases a vote that somebody holds, a queued work
  runs, the clock plan changes, the TAG process is requested, the wake lock moves, or another
  component changes the power manager's context. The delayed release is only called while its
  work is not queued.
\<close>

inductive clk_step :: "ipa \<Rightarrow> ipa \<Rightarrow> bool" where
  step_inc: "clk_step s (inc_client_enable_clks e li s)"
| step_inc_nb: "clk_step s (snd (inc_client_enable_clks_no_block e li s))"
| step_dec: "1 \<le> clk_votes s \<Longrightarrow> clk_step s (dec_client_disable_clks e li s)"
| step_dec_nb: "1 \<le> clk_votes s \<Longrightarrow> clk_step s (dec_client_disable_clks_no_block e li s)"
| step_dec_delay: "1 \<le> clk_votes s \<Longrightarrow> \<not> dec_suspend_wq_work s \<Longrightarrow>
    clk_step s (dec_client_disable_clks_delay_wq e li s)"
| step_tag_work: "tag_work s \<Longrightarrow> clk_step s (run_tag_work e s)"
| step_dec_work: "dec_wq_work s \<Longrightarrow> clk_step s (run_dec_wq_work e s)"
| step_suspend_work: "dec_suspend_wq_work s \<Longrightarrow> clk_step s (run_dec_suspend_wq_work e s)"
| step_plan: "clk_step s (snd (set_clock_plan_from_pm e idx s))"
| step_tag_request: "clk_step s (s\<lparr>tag_process_before_gating := b\<rparr>)"
| step_wake: "clk_step s (ipa3_inc_acquire_wakelock s)"
| step_unwake: "clk_step s (ipa3_dec_release_wakelock s)"
| step_other: "clk_step s (s\<lparr>pm := p\<rparr>)"

text \<open>The state before \<open>ipa3_pre_init\<close> (zeroed memory, no clock touched yet).\<close>

definition clk_blank :: "ipa \<Rightarrow> bool" where
  "clk_blank s \<longleftrightarrow> act_cnt s = 0 \<and> ipa_clk_vote s = 0 \<and> clk_pending s = 0 \<and> events s = [] \<and>
     faults s = []"

inductive clk_reachable :: "ipa \<Rightarrow> bool" where
  reach_init: "clk_blank s \<Longrightarrow> clk_reachable (ipa3_pre_init_clks e ok s)"
| reach_step: "clk_reachable s \<Longrightarrow> clk_step s s' \<Longrightarrow> clk_reachable s'"

lemma clk_step_keeps:
  assumes "clk_step s s'" "clk_inv s" "bugs s = []"
  shows "clk_inv s' \<and> bugs s' = []"
  using assms(1)
proof cases
  case (step_inc e li)
  then show ?thesis using inc_ok [of s e li] assms by (simp add: clk_step_ok_def)
next
  case (step_inc_nb e li)
  then show ?thesis using inc_no_block_ok [of s e li s'] inc_no_block_fails [of e li s _ s'] assms
    by (cases "inc_client_enable_clks_no_block e li s"; cases "fst (inc_client_enable_clks_no_block e li s)")
       (auto simp: clk_step_ok_def)
next
  case (step_dec e li)
  then show ?thesis using dec_ok [of s e li] assms by (simp add: clk_step_ok_def)
next
  case (step_dec_nb e li)
  then show ?thesis using dec_no_block_ok [of s e li] assms by (simp add: clk_step_ok_def)
next
  case (step_dec_delay e li)
  then show ?thesis using dec_delay_ok [of s e li] assms by (simp add: clk_step_ok_def)
next
  case (step_tag_work e)
  then show ?thesis using run_work_ok(3) [of s e] assms by (simp add: clk_step_ok_def)
next
  case (step_dec_work e)
  then show ?thesis using run_work_ok(1) [of s e] assms by (simp add: clk_step_ok_def)
next
  case (step_suspend_work e)
  then show ?thesis using run_work_ok(2) [of s e] assms by (simp add: clk_step_ok_def)
next
  case (step_plan e idx)
  then show ?thesis using set_clock_plan_ok [of s e idx] assms by (simp add: clk_step_ok_def)
next
  case (step_tag_request b)
  then show ?thesis using clk_invD [OF assms(2)] assms(3) by (auto simp: clk_votes_def intro!: clk_invI)
next
  case step_wake
  then show ?thesis using clk_invD [OF assms(2)] assms(3)
    by (auto simp: ipa3_inc_acquire_wakelock_def Let_def emit_def clk_votes_def clk_pending_def bugs_def
        rate_known_def intro!: clk_invI)
next
  case step_unwake
  then show ?thesis using clk_invD [OF assms(2)] assms(3)
    by (auto simp: ipa3_dec_release_wakelock_def Let_def emit_def clk_votes_def clk_pending_def bugs_def
        rate_known_def intro!: clk_invI)
next
  case (step_other p)
  then show ?thesis using clk_invD [OF assms(2)] assms(3) by (auto simp: clk_votes_def intro!: clk_invI)
qed

lemma pre_init_ok:
  assumes "clk_blank s"
  shows "clk_inv (ipa3_pre_init_clks e ok s) \<and> bugs (ipa3_pre_init_clks e ok s) = []"
proof -
  define s2 where "s2 = s\<lparr>clk_log := snd (log_init ok (clk_log s)), enable_clock_scaling := True,
     curr_ipa_clk_rate := rate_svs2 (ctrl_rates s)\<rparr>"
  define s3 where "s3 = (if ipa_hw_mode s2 = HW_VIRTUAL \<or> ipa_hw_mode s2 = HW_EMULATION
     then s2\<lparr>ipa_clk_vote := 1\<rparr> else s2)"
  have s3: "act_cnt s3 = 0" "clk_pending s3 = 0" "events s3 = []" "faults s3 = []" "rate_known s3"
    using assms by (auto simp: s2_def s3_def clk_blank_def clk_pending_def rate_known_def Let_def)
  obtain evs fs where en: "ipa3_enable_clks e s3 =
      s3\<lparr>events := events s3 @ evs, faults := faults s3 @ fs,
        ipa_clk_vote := if ipa_hw_mode s3 = HW_NORMAL then 1 else ipa_clk_vote s3\<rparr>" "set fs \<subseteq> {WarnIcc}"
      "ipa_hw_mode s3 = HW_NORMAL \<longrightarrow> has_ipa3_clk s3 \<longrightarrow> gate_run (events s3) = GateOff \<longrightarrow>
         gate_run (events s3 @ evs) = GateOn"
    using enable_clks_effect [OF s3(5), of e] by blast
  let ?t = "s3\<lparr>events := evs, faults := fs, ipa_clk_vote := if ipa_hw_mode s3 = HW_NORMAL then 1 else ipa_clk_vote s3\<rparr>"
  have "ipa3_pre_init_clks e ok s =
     (active_clients_log_mod e (PREP_SPECIAL ''ipa.c'' 7525 ''PROXY_CLK_VOTE'') True (ipa3_enable_clks e s3))\<lparr>act_cnt := 1\<rparr>"
    by (simp add: ipa3_pre_init_clks_def Let_def s3_def s2_def)
  also have "ipa3_enable_clks e s3 = ?t" using s3 by (simp add: en(1))
  finally have eq: "ipa3_pre_init_clks e ok s =
     (active_clients_log_mod e (PREP_SPECIAL ''ipa.c'' 7525 ''PROXY_CLK_VOTE'') True ?t)\<lparr>act_cnt := 1\<rparr>" .
  have "clk_inv (ipa3_pre_init_clks e ok s)"
    unfolding eq using s3 en(3) by (intro clk_invI) (auto simp: clk_votes_def active_clients_log_mod_def)
  moreover have "bugs (ipa3_pre_init_clks e ok s) = []"
    unfolding eq using en(2) by (simp add: active_clients_log_mod_def) (simp add: bugs_def)
  ultimately show ?thesis by simp
qed

lemma clk_reachable_inv: "clk_reachable s \<Longrightarrow> clk_inv s \<and> bugs s = []"
  by (induction rule: clk_reachable.induct) (auto simp: pre_init_ok dest: clk_step_keeps)

section \<open>Draining the queues\<close>

text \<open>One turn of the power management work queue.\<close>

definition run_one_work :: "ipa_env \<Rightarrow> ipa \<Rightarrow> ipa" where
  "run_one_work e s =
     (if tag_work s then run_tag_work e s
      else if dec_wq_work s then run_dec_wq_work e s
      else if dec_suspend_wq_work s then run_dec_suspend_wq_work e s
      else s)"

definition drain_measure :: "ipa \<Rightarrow> int" where
  "drain_measure s = act_cnt s + of_bool (tag_process_before_gating s)"

lemma disable_clks_cnt:
  "act_cnt (ipa3_disable_clks e s) = act_cnt s"
  "tag_process_before_gating (ipa3_disable_clks e s) = tag_process_before_gating s"
proof -
  obtain evs fs where "ipa3_disable_clks e s =
      (if ipa_hw_mode s = HW_NORMAL then ipa_pm_set_clock_index 0 s else s)
       \<lparr>events := events s @ evs, faults := faults s @ fs,
        ipa_clk_vote := if ipa_hw_mode s = HW_NORMAL then 0 else ipa_clk_vote s\<rparr>"
    using disable_clks_effect [of e s] by blast
  then show "act_cnt (ipa3_disable_clks e s) = act_cnt s"
    "tag_process_before_gating (ipa3_disable_clks e s) = tag_process_before_gating s"
    by (auto simp: ipa_pm_set_clock_index_def upd_scaling_def upd_pm_def)
qed

lemma dec0_measure:
  assumes "1 \<le> act_cnt s" "\<And>h. \<not> env_suspend_busy e h"
  shows "drain_measure (dec_client_disable_clks0 e s) = drain_measure s - 1"
  using assms
  by (auto simp: dec_client_disable_clks0_def Let_def drain_measure_def ipa3_suspend_apps_pipes_def
      emit_def disable_clks_cnt)

lemma run_one_work_measure:
  assumes "clk_inv s" "clk_votes s = 0" "0 < act_cnt s" "\<And>h. \<not> env_suspend_busy e h"
  shows "drain_measure (run_one_work e s) = drain_measure s - 1"
proof -
  have pend: "clk_pending s \<noteq> 0" using assms(2,3) by (simp add: clk_votes_def)
  have frame: "drain_measure (s\<lparr>tag_work := b\<rparr>) = drain_measure s"
    "drain_measure (s\<lparr>dec_wq_work := b\<rparr>) = drain_measure s"
    "drain_measure (s\<lparr>dec_suspend_wq_work := b\<rparr>) = drain_measure s"
    "drain_measure (active_clients_log_mod e li inc t) = drain_measure t"
    "drain_measure (emit ev t) = drain_measure t" "act_cnt (emit ev t) = act_cnt t" for b li inc t ev
    by (simp_all add: drain_measure_def active_clients_log_mod_def emit_def)
  show ?thesis
    using assms(3) pend
    by (auto simp: run_one_work_def run_tag_work_def start_tag_process_def dec_client_disable_clks_def
        run_dec_wq_work_def run_dec_suspend_wq_work_def clk_pending_0 dec0_measure [OF _ assms(4)] frame)
qed

lemma run_one_work_ok: "clk_inv s \<Longrightarrow> clk_step_ok 0 s (run_one_work e s)"
  using run_work_ok [of s e] by (auto simp: run_one_work_def clk_step_ok_def)

lemma run_one_work_gated: "clk_inv s \<Longrightarrow> act_cnt s = 0 \<Longrightarrow> run_one_work e s = s"
  using clk_pending_0 [of s] clk_invD(1) [of s]
  by (auto simp: run_one_work_def clk_votes_def intro: antisym)

lemma drain_gates:
  assumes "clk_inv s" "clk_votes s = 0" "\<And>h. \<not> env_suspend_busy e h" "drain_measure s \<le> int n"
  shows "act_cnt ((run_one_work e ^^ n) s) = 0 \<and> clk_inv ((run_one_work e ^^ n) s)"
  using assms
proof (induction n arbitrary: s)
  case 0
  then show ?case using act_cnt_nonneg [of s]
    by (cases "tag_process_before_gating s") (auto simp: drain_measure_def)
next
  case (Suc n)
  show ?case
  proof (cases "act_cnt s = 0")
    case True
    then have "(run_one_work e ^^ Suc n) s = s" for n
      using run_one_work_gated [of s e] Suc.prems(1) by (induction n) auto
    with True Suc.prems(1) show ?thesis by simp
  next
    case False
    then have pos: "0 < act_cnt s" using act_cnt_nonneg [OF Suc.prems(1)] by simp
    have "clk_inv (run_one_work e s)" "clk_votes (run_one_work e s) = 0"
      using run_one_work_ok [OF Suc.prems(1), of e] Suc.prems(2) by (auto simp: clk_step_ok_def)
    moreover have "drain_measure (run_one_work e s) \<le> int n"
      using run_one_work_measure [OF Suc.prems(1,2) pos Suc.prems(3)] Suc.prems(4) by simp
    ultimately show ?thesis
      using Suc.IH [of "run_one_work e s"] Suc.prems(3) by (simp add: funpow_swap1)
  qed
qed

section \<open>Properties\<close>

text \<open>A concrete driver: the state before \<open>ipa3_pre_init\<close>, and a kernel that never fails.\<close>

definition demo_ipa :: ipa where
  "demo_ipa = \<lparr>act_cnt = 0, bus_vote_idx = 0, ipa_clk_vote = 0, tag_process_before_gating = False,
     tag_work = False, dec_wq_work = False, dec_suspend_wq_work = False, inc_wq_work = False,
     ipa_hw_mode = HW_NORMAL, enable_clock_scaling = False, curr_ipa_clk_rate = 0,
     ctrl_rates = \<lparr>rate_svs2 = 60, rate_svs = 125, rate_nominal = 220, rate_turbo = 250\<rparr>,
     has_ipa3_clk = True, icc_paths = [0, 1], wakelock_cnt = 0, w_lock_held = False,
     clk_log = demo_log, pm = None, events = [], faults = []\<rparr>"

definition demo_env :: ipa_env where
  "demo_env = \<lparr>env_suspend_busy = (\<lambda>h. False), env_gsi_pending_irq = (\<lambda>h. False),
     env_icc_fails = (\<lambda>h. False), env_htable_alloc = (\<lambda>l. True), env_sched_clock = (\<lambda>l. 0),
     env_kzalloc = True, env_create_wq = True, env_wakeup_source = True,
     env_ep_mapping = (\<lambda>c. int c), env_client_max = 100\<rparr>"

abbreviation demo_boot :: ipa where
  "demo_boot \<equiv> ipa3_pre_init_clks demo_env True demo_ipa"

lemma demo_boot_reachable: "clk_reachable demo_boot"
  by (rule reach_init) (simp add: demo_ipa_def clk_blank_def clk_pending_def)

lemma demo_boot_facts:
  "clk_inv demo_boot" "act_cnt demo_boot = 1" "clk_votes demo_boot = 1" "bugs demo_boot = []"
  "pm demo_boot = None" "ipa_hw_mode demo_boot = HW_NORMAL" "has_ipa3_clk demo_boot"
proof -
  show "clk_inv demo_boot" "bugs demo_boot = []"
    using clk_reachable_inv [OF demo_boot_reachable] by auto
  show cnt: "act_cnt demo_boot = 1" by (simp add: ipa3_pre_init_clks_def Let_def)
  show "pm demo_boot = None" "ipa_hw_mode demo_boot = HW_NORMAL" "has_ipa3_clk demo_boot"
    "clk_votes demo_boot = 1"
    by (simp_all add: ipa3_pre_init_clks_def Let_def demo_ipa_def active_clients_log_mod_def
        ipa3_enable_clks_def get_bus_vote_def icc_vote_def icc_set_bw_def demo_env_def emit_def
        ctrl_enable_clks_def clk_set_rate_def clk_votes_def clk_pending_def)
qed



text \<open>
  C24: Whatever sequence of votes a user takes and drops, never dropping more than it holds, its
  votes are counted exactly and the clocks run as long as it holds one.
\<close>

theorem clk_holder_keeps_running:
  assumes "clk_inv s" "int n \<le> clk_votes s" "vote_balance n ops = Some m"
  shows "let s' = run_votes inc_client_enable_clks dec_client_disable_clks ops s in
         clk_inv s' \<and> clk_votes s' = clk_votes s + int m - int n \<and> (0 < m \<longrightarrow> clk_running s')"
  using clk.balanced_run [OF assms] clk.holder_running [OF assms] by (simp add: Let_def)

lemma clk_holder_keeps_running_witness:
  "clk_running (run_votes inc_client_enable_clks dec_client_disable_clks
     [TakeVote demo_env (demo_info ''a''), TakeVote demo_env (demo_info ''b''),
      DropVote demo_env (demo_info ''a'')] demo_boot)"
  using clk_holder_keeps_running [of demo_boot 0
     "[TakeVote demo_env (demo_info ''a''), TakeVote demo_env (demo_info ''b''),
      DropVote demo_env (demo_info ''a'')]" 1]
    demo_boot_facts
  by (simp add: Let_def)

text \<open>
  C23: When nobody holds a vote and the pipes suspend, at most four of the works that are queued
  gate the clocks and leave no work behind.
\<close>

theorem clk_drain_gates_clocks:
  assumes "clk_inv s" "clk_votes s = 0" "\<And>h. \<not> env_suspend_busy e h"
  shows "let s' = (run_one_work e ^^ 4) s in
         act_cnt s' = 0 \<and> \<not> tag_work s' \<and> \<not> dec_wq_work s' \<and> \<not> dec_suspend_wq_work s' \<and>
         (ipa_hw_mode s' = HW_NORMAL \<longrightarrow>
            ipa_clk_vote s' = 0 \<and> (has_ipa3_clk s' \<longrightarrow> gate_run (events s') = GateOff))"
proof -
  have "drain_measure s \<le> int 4"
    using assms(2) by (auto simp: drain_measure_def clk_votes_def clk_pending_def)
  from drain_gates [OF assms(1-3) this]
  have d: "act_cnt ((run_one_work e ^^ 4) s) = 0" "clk_inv ((run_one_work e ^^ 4) s)" by auto
  then have "clk_pending ((run_one_work e ^^ 4) s) = 0"
    using clk_invD(1) [OF d(2)] by (auto simp: clk_votes_def intro: antisym)
  with d clk_invD(3,4) [OF d(2)] show ?thesis by (auto simp: Let_def clk_pending_0)
qed

lemma clk_drain_gates_clocks_witness:
  "act_cnt ((run_one_work demo_env ^^ 4) (demo_boot\<lparr>dec_wq_work := True\<rparr>)) = 0"
proof -
  have "clk_inv (demo_boot\<lparr>dec_wq_work := True\<rparr>)"
    using clk_invD [OF demo_boot_facts(1)] demo_boot_facts
    by (intro clk_invI) (auto simp: clk_votes_def)
  moreover have "clk_votes (demo_boot\<lparr>dec_wq_work := True\<rparr>) = 0"
    using demo_boot_facts by (simp add: clk_votes_def clk_pending_0)
  ultimately show ?thesis
    using clk_drain_gates_clocks [of "demo_boot\<lparr>dec_wq_work := True\<rparr>" demo_env] demo_boot_facts
    by (simp add: Let_def demo_env_def)
qed

text \<open>
  A delayed release that comes while one is queued is lost: neither the count nor the
  pending releases change.
\<close>

theorem dec_delay_loses_vote:
  assumes "dec_suspend_wq_work s"
  shows "clk_votes (dec_client_disable_clks_delay_wq e li s) = clk_votes s \<and>
         act_cnt (dec_client_disable_clks_delay_wq e li s) = act_cnt s"
  using assms by (simp add: dec_client_disable_clks_delay_wq_def clk_votes_def)
     (simp add: active_clients_log_mod_def clk_pending_def)

lemma dec_delay_loses_vote_witness:
  "act_cnt (dec_client_disable_clks_delay_wq demo_env (demo_info ''irq'')
     (demo_boot\<lparr>act_cnt := 2, dec_suspend_wq_work := True\<rparr>)) = 2"
  using dec_delay_loses_vote [of "demo_boot\<lparr>act_cnt := 2, dec_suspend_wq_work := True\<rparr>"]
  by simp

end
