(* ===== verification/Ipa_Tput.thy ===== *)
theory Ipa_Tput
  imports Ipa_State
begin

text \<open>
  The throughput estimate of the power manager (\<open>ipa_v3/ipa_pm.c\<close>): the aggregated throughput
  of the active clients is found by differencing the two largest values until one is left. The
  theory models the C arrays and loops, refines them to an algorithm on multisets and bounds
  the result.
\<close>

section \<open>The C code\<close>

text \<open>A value stored into an \<open>int\<close>: 32 bits, two's complement.\<close>

definition c_int :: "int \<Rightarrow> int" where
  "c_int x = signed_take_bit 31 x"

lemma c_int_id: "- (2 ^ 31) \<le> x \<Longrightarrow> x < 2 ^ 31 \<Longrightarrow> c_int x = x"
  by (simp add: c_int_def signed_take_bit_int_eq_self)

text \<open>The scan of \<open>pop_max_from_array\<close>: the largest value so far and its index.\<close>

fun pop_scan :: "int list \<Rightarrow> nat list \<Rightarrow> int \<times> nat \<Rightarrow> int \<times> nat" where
  "pop_scan arr [] (mx, idx) = (mx, idx)"
| "pop_scan arr (i # is) (mx, idx) =
     pop_scan arr is (if mx < arr ! i then (arr ! i, i) else (mx, idx))"

definition pop_max_from_array :: "int list \<Rightarrow> nat \<Rightarrow> int \<times> int list \<times> nat" where
  "pop_max_from_array arr n =
     (if n = 0 then (0, arr, 0)
      else
        let (mx, idx) = pop_scan arr [0..<n] (0, n - 1);
            n1 = n - 1
        in (mx, arr[idx := arr ! n1], n1))"

lemma pop_max_count [simp]: "snd (snd (pop_max_from_array arr n)) = n - 1"
  by (simp add: pop_max_from_array_def Let_def split: prod.splits)

text \<open>The \<open>while (n > 1)\<close> loop of \<open>calculate_throughput\<close>.\<close>

function tput_loop :: "int list \<Rightarrow> nat \<Rightarrow> int \<Rightarrow> int" where
  "tput_loop arr n agg =
     (if n \<le> 1 then agg
      else
        let (mx, arr1, n1) = pop_max_from_array arr n;
            (second_max, arr2, n2) = pop_max_from_array arr1 n1
        in tput_loop (arr2[n2 := c_int (mx - second_max)]) (n2 + 1) (c_int (agg + second_max)))"
  by pat_completeness auto
termination
proof (relation "measure (\<lambda>(arr, n, agg). n)", goal_cases)
  case (2 arr n agg p1 mx q1 arr1 n1 p2 second_max q2 arr2 n2)
  then have "n1 = n - 1" "n2 = n1 - 1"
    by (metis pop_max_count snd_conv)+
  with 2 show ?case by simp
qed simp

declare tput_loop.simps [simp del]

text \<open>
  The loop that collects the throughputs: one entry for every active client of the default
  group, one for each other group that has an active client.
\<close>

definition collect_tput ::
  "pm_ctx \<Rightarrow> nat \<Rightarrow> int list \<times> nat \<times> (pm_group \<Rightarrow> bool) \<Rightarrow> int list \<times> nat \<times> (pm_group \<Rightarrow> bool)" where
  "collect_tput p i st =
     (let (arr, n, voted) = st in
      case clients p i of
        None \<Rightarrow> st
      | Some c \<Rightarrow>
          if STATE_ACTIVE (cl_state c) then
            if cl_group c = GROUP_DEFAULT then (arr[n := cl_throughput c], n + 1, voted)
            else if \<not> voted (cl_group c) then
              (arr[n := group_tput p (cl_group c)], n + 1, voted(cl_group c := True))
            else st
          else st)"

definition collect_all :: "pm_ctx \<Rightarrow> int list \<times> nat \<times> (pm_group \<Rightarrow> bool)" where
  "collect_all p =
     foldl (\<lambda>st i. collect_tput p i st) (replicate IPA_PM_MAX_CLIENTS 0, 0, \<lambda>g. False)
       [1..<IPA_PM_MAX_CLIENTS]"

definition calculate_throughput :: "pm_ctx \<Rightarrow> int" where
  "calculate_throughput p = (let (arr, n, voted) = collect_all p in tput_loop arr n 0)"

section \<open>The algorithm on multisets\<close>

function diff_aggregate :: "int multiset \<Rightarrow> int" where
  "diff_aggregate M =
     (if size M \<le> 1 then 0
      else
        let m1 = Max_mset M; M1 = M - {#m1#}; m2 = Max_mset M1
        in m2 + diff_aggregate (M1 - {#m2#} + {#m1 - m2#}))"
  by pat_completeness auto
termination
proof (relation "measure size", goal_cases)
  case (2 M m1 M1 m2)
  have "M \<noteq> {#}" using 2(1) by auto
  then have "m1 \<in># M" unfolding 2(2) by (intro Max_in) auto
  then have s1: "size M1 = size M - 1" unfolding 2(3) by (rule size_Diff_singleton)
  then have "M1 \<noteq> {#}" using 2(1) by auto
  then have "m2 \<in># M1" unfolding 2(4) by (intro Max_in) auto
  then have "size (M1 - {#m2#}) = size M1 - 1" by (rule size_Diff_singleton)
  then show ?case using s1 2(1) by simp
qed simp

declare diff_aggregate.simps [simp del]

section \<open>The C loop computes the multiset algorithm\<close>

lemma pop_scan_spec:
  "pop_scan arr is (mx, idx) = (m, k) \<Longrightarrow>
   mx \<le> m \<and> (\<forall>i \<in> set is. arr ! i \<le> m) \<and> (m = mx \<and> k = idx \<or> k \<in> set is \<and> arr ! k = m)"
  by (induction arr "is" "(mx, idx)" arbitrary: mx idx rule: pop_scan.induct)
     (fastforce split: if_splits)+

abbreviation live :: "int list \<Rightarrow> nat \<Rightarrow> int multiset" where
  "live arr n \<equiv> mset (take n arr)"

lemma live_Suc: "n < length arr \<Longrightarrow> live arr (Suc n) = add_mset (arr ! n) (live arr n)"
  by (simp add: take_Suc_conv_app_nth)

lemma live_replace:
  assumes "k < n" "n \<le> length arr"
  shows "live (arr[k := arr ! (n - 1)]) (n - 1) = live arr n - {#arr ! k#}"
proof -
  obtain j where j: "n = Suc j" using assms(1) by (cases n) auto
  show ?thesis
  proof (cases "k = j")
    case True
    with j assms show ?thesis by (simp add: live_Suc)
  next
    case False
    with j assms have "k < j" by simp
    then have "live (arr[k := arr ! j]) j = live arr j - {#arr ! k#} + {#arr ! j#}"
      using j assms by (simp add: take_update_swap mset_update)
    moreover have "arr ! k \<in># live arr j" using \<open>k < j\<close> j assms by (auto simp: in_set_conv_nth)
    ultimately show ?thesis using j assms by (simp add: live_Suc)
  qed
qed

lemma sum_mset_nonneg_int: "\<forall>x \<in># M. (0 :: int) \<le> x \<Longrightarrow> 0 \<le> sum_mset M"
  by (induction M) auto

lemma pop_max_spec:
  assumes "0 < n" "n \<le> length arr" "\<forall>x \<in># live arr n. 0 \<le> x"
    and "pop_max_from_array arr n = (m, arr', n')"
  shows "m = Max_mset (live arr n) \<and> m \<in># live arr n \<and> n' = n - 1 \<and> length arr' = length arr \<and>
         live arr' n' = live arr n - {#m#}"
proof -
  obtain mm k where sc: "pop_scan arr [0..<n] (0, n - 1) = (mm, k)" by (cases "pop_scan arr [0..<n] (0, n - 1)")
  have k: "pop_scan arr [0..<n] (0, n - 1) = (m, k)" "arr' = arr[k := arr ! (n - 1)]" "n' = n - 1"
    using assms(1,4) sc by (auto simp: pop_max_from_array_def Let_def)
  have live: "x \<in># live arr n \<longleftrightarrow> (\<exists>i<n. x = arr ! i)" for x
    using assms(2) by (auto simp: in_set_conv_nth)
  have nonneg: "i < n \<Longrightarrow> 0 \<le> arr ! i" for i using assms(3) live by blast
  have ge: "i < n \<Longrightarrow> arr ! i \<le> m" for i using pop_scan_spec [OF k(1)] by simp
  have "k < n \<and> arr ! k = m"
  proof (cases "k \<in> set [0..<n] \<and> arr ! k = m")
    case False
    then have "m = 0" "k = n - 1" using pop_scan_spec [OF k(1)] by blast+
    moreover have "arr ! (n - 1) = 0"
      using ge [of "n - 1"] nonneg [of "n - 1"] assms(1) \<open>m = 0\<close> by simp
    ultimately show ?thesis using assms(1) by simp
  qed simp
  then have kn: "k < n" "arr ! k = m" by auto
  have mem: "m \<in># live arr n" using kn live by blast
  then have "m = Max_mset (live arr n)" using ge live by (intro Max_eqI [symmetric]) auto
  with mem kn k live_replace [of k n arr] assms(2) show ?thesis by simp
qed

lemma diff_aggregate_step:
  "1 < size M \<Longrightarrow> m1 = Max_mset M \<Longrightarrow> M1 = M - {#m1#} \<Longrightarrow> m2 = Max_mset M1 \<Longrightarrow>
   diff_aggregate M = m2 + diff_aggregate (M1 - {#m2#} + {#m1 - m2#})"
  by (subst diff_aggregate.simps) (simp add: Let_def)

lemma tput_loop_refines:
  assumes "n \<le> length arr" "\<forall>x \<in># live arr n. 0 \<le> x \<and> x < 2 ^ 31" "0 \<le> agg"
    "2 * agg + sum_mset (live arr n) < 2 ^ 32"
  shows "tput_loop arr n agg = agg + diff_aggregate (live arr n)"
  using assms
proof (induction n arbitrary: arr agg)
  case 0
  then show ?case by (simp add: tput_loop.simps diff_aggregate.simps)
next
  case (Suc n)
  let ?M = "live arr (Suc n)"
  have size: "size ?M = Suc n" using Suc.prems(1) by simp
  show ?case
  proof (cases "n = 0")
    case True
    then show ?thesis using size by (simp add: tput_loop.simps diff_aggregate.simps)
  next
    case False
    obtain m1 arr1 n1 where p1: "pop_max_from_array arr (Suc n) = (m1, arr1, n1)"
      by (cases "pop_max_from_array arr (Suc n)")
    note s1 = pop_max_spec [OF _ Suc.prems(1) _ p1]
    have f1: "m1 = Max_mset ?M" "m1 \<in># ?M" "n1 = n" "length arr1 = length arr" "live arr1 n = ?M - {#m1#}"
      using s1 Suc.prems(2) by auto
    obtain m2 arr2 n2 where p2: "pop_max_from_array arr1 n = (m2, arr2, n2)"
      by (cases "pop_max_from_array arr1 n")
    have bnd1: "\<forall>x \<in># live arr1 n. 0 \<le> x \<and> x < 2 ^ 31" unfolding f1(5) using Suc.prems(2)
      by (meson in_diffD)
    have f2: "m2 = Max_mset (live arr1 n)" "m2 \<in># live arr1 n" "n2 = n - 1" "length arr2 = length arr"
      "live arr2 n2 = live arr1 n - {#m2#}"
      using pop_max_spec [OF _ _ _ p2] False f1(4) Suc.prems(1) bnd1 by auto
    have le: "m2 \<le> m1" unfolding f1(1) by (rule Max_ge [OF finite_set_mset]) (use f2(2) f1(5) in \<open>metis in_diffD\<close>)
    have r1: "0 \<le> m1" "m1 < 2 ^ 31" using f1(2) Suc.prems(2) by auto
    have r2: "0 \<le> m2" "m2 < 2 ^ 31" using f2(2) bnd1 by auto
    have "?M = add_mset m1 (live arr1 n)" unfolding f1(5) using f1(2) by (rule insert_DiffM [symmetric])
    moreover have "live arr1 n = add_mset m2 (live arr2 n2)"
      unfolding f2(5) using f2(2) by (rule insert_DiffM [symmetric])
    ultimately have sum: "sum_mset ?M = m1 + m2 + sum_mset (live arr2 n2)"
      by (simp only: sum_mset.add_mset add.assoc)
    let ?d = "m1 - m2" let ?arr = "arr2[n2 := ?d]"
    have cd: "c_int ?d = ?d" using r1 r2 le by (intro c_int_id) auto
    have rest: "0 \<le> sum_mset (live arr2 n2)"
      using bnd1 f2(5) by (intro sum_mset_nonneg_int) (auto dest: in_diffD)
    have ca: "c_int (agg + m2) = agg + m2"
      using r2 Suc.prems(3,4) sum rest le by (intro c_int_id) auto
    have n2: "Suc n2 = n" "n2 < length arr2" using False f2(3,4) Suc.prems(1) by auto
    have live': "live ?arr n = live arr1 n - {#m2#} + {#?d#}"
      using n2 f2(5) by (auto simp: live_Suc n2(1) [symmetric] simp del: take_Suc)
    have "tput_loop arr (Suc n) agg = tput_loop ?arr n (agg + m2)"
      using False n2(1) by (subst tput_loop.simps) (simp add: p1 f1(3) p2 cd ca)
    also have "\<dots> = agg + m2 + diff_aggregate (live ?arr n)"
    proof (rule Suc.IH)
      show "n \<le> length ?arr" using n2 by simp
      show "\<forall>x \<in># live ?arr n. 0 \<le> x \<and> x < 2 ^ 31"
        unfolding live' using bnd1 r1 r2 le by (auto dest: in_diffD)
      show "2 * (agg + m2) + sum_mset (live ?arr n) < 2 ^ 32"
        unfolding live' using Suc.prems(4) sum f2(5) by simp
    qed (use Suc.prems(3) r2 in simp)
    also have "agg + m2 + diff_aggregate (live ?arr n) = agg + diff_aggregate ?M"
      using diff_aggregate_step [OF _ f1(1,5) f2(1)] False size unfolding live' by simp
    finally show ?thesis .
  qed
qed

section \<open>Bounds of the algorithm\<close>

lemma diff_aggregate_bounds:
  assumes "\<forall>x \<in># M. 0 \<le> x" "M \<noteq> {#}"
  shows "0 \<le> diff_aggregate M \<and> diff_aggregate M \<le> sum_mset M - Max_mset M \<and>
         sum_mset M - Max_mset M \<le> 2 * diff_aggregate M \<and> 2 * diff_aggregate M \<le> sum_mset M"
  using assms
proof (induction M rule: diff_aggregate.induct)
  case (1 M)
  define m1 where "m1 = Max_mset M"
  define M1 where "M1 = M - {#m1#}"
  define m2 where "m2 = Max_mset M1"
  define M2 where "M2 = M1 - {#m2#}"
  have m1: "m1 \<in># M" unfolding m1_def using 1(3) by (intro Max_in) auto
  show ?case
  proof (cases "size M \<le> 1")
    case True
    with m1 have "M = {#m1#}"
      by (metis M1_def One_nat_def add_diff_cancel_left' diff_is_0_eq insert_DiffM size_Diff_singleton
          size_eq_0_iff_empty)
    then show ?thesis using 1(2) True m1 by (simp add: diff_aggregate.simps)
  next
    case False
    have "size M1 = size M - 1" unfolding M1_def using m1 by (rule size_Diff_singleton)
    with False have "M1 \<noteq> {#}" by auto
    then have m2: "m2 \<in># M1" unfolding m2_def by (intro Max_in) auto
    have le: "m2 \<le> m1" unfolding m1_def by (rule Max_ge [OF finite_set_mset]) (use m2 M1_def in \<open>metis in_diffD\<close>)
    have nn: "0 \<le> m2" using m2 1(2) by (auto simp: M1_def dest: in_diffD)
    have M: "M = add_mset m1 (add_mset m2 M2)"
      unfolding M2_def insert_DiffM [OF m2] unfolding M1_def insert_DiffM [OF m1] ..
    let ?N = "M2 + {#m1 - m2#}"
    have IH: "0 \<le> diff_aggregate ?N \<and> diff_aggregate ?N \<le> sum_mset ?N - Max_mset ?N \<and>
         sum_mset ?N - Max_mset ?N \<le> 2 * diff_aggregate ?N \<and> 2 * diff_aggregate ?N \<le> sum_mset ?N"
    proof (rule "1.IH" [OF False m1_def M1_def m2_def, folded M2_def])
      show "\<forall>x \<in># ?N. 0 \<le> x" using 1(2) le by (simp add: M)
    qed simp
    have rec: "diff_aggregate M = m2 + diff_aggregate ?N"
      using False by (subst diff_aggregate.simps) (simp add: Let_def m1_def M1_def m2_def M2_def)
    have small: "x \<le> m2" if "x \<in># M2" for x
      unfolding m2_def by (rule Max_ge [OF finite_set_mset]) (use that M2_def in \<open>metis in_diffD\<close>)
    have N_hi: "Max_mset ?N \<le> m1" using small le nn by (auto intro: order_trans)
    have N_lo: "m1 - m2 \<le> Max_mset ?N" by (rule Max_ge) auto
    have sumM: "sum_mset M = sum_mset M2 + m2 + m1" by (simp only: M sum_mset.add_mset)
    have sumN: "sum_mset ?N = m1 - m2 + sum_mset M2" by simp
    show ?thesis
      unfolding m1_def [symmetric] using IH rec N_hi N_lo sumM sumN nn by (intro conjI; linarith)
  qed
qed

section \<open>What the clients demand\<close>

definition active_in :: "pm_ctx \<Rightarrow> pm_group \<Rightarrow> nat \<Rightarrow> bool" where
  "active_in p g i \<longleftrightarrow>
     (case clients p i of None \<Rightarrow> False | Some c \<Rightarrow> STATE_ACTIVE (cl_state c) \<and> cl_group c = g)"

definition client_tput :: "pm_ctx \<Rightarrow> nat \<Rightarrow> int" where
  "client_tput p i = (case clients p i of None \<Rightarrow> 0 | Some c \<Rightarrow> cl_throughput c)"

text \<open>
  The demands below handle \<open>k\<close>: the throughput of every active client of the default group, and
  the throughput of each other group once.
\<close>

definition demands_below :: "pm_ctx \<Rightarrow> nat \<Rightarrow> int multiset" where
  "demands_below p k =
     mset (map (client_tput p) [i \<leftarrow> [1..<k]. active_in p GROUP_DEFAULT i]) +
     (if \<exists>i \<in> {1..<k}. active_in p GROUP_APPS i then {#group_tput p GROUP_APPS#} else {#}) +
     (if \<exists>i \<in> {1..<k}. active_in p GROUP_MODEM i then {#group_tput p GROUP_MODEM#} else {#})"

definition tput_demands :: "pm_ctx \<Rightarrow> int multiset" where
  "tput_demands p = demands_below p IPA_PM_MAX_CLIENTS"

lemma live_store: "n < length arr \<Longrightarrow> live (arr[n := x]) (Suc n) = add_mset x (live arr n)"
  by (simp add: live_Suc)

lemma ex_range_Suc: "1 \<le> k \<Longrightarrow> (\<exists>i \<in> {1..<Suc k}. P i) \<longleftrightarrow> (\<exists>i \<in> {1..<k}. P i) \<or> P k"
  by (auto simp: less_Suc_eq)

lemma demands_below_Suc:
  "1 \<le> k \<Longrightarrow> demands_below p (Suc k) =
     (if active_in p GROUP_DEFAULT k then add_mset (client_tput p k) (demands_below p k)
      else if active_in p GROUP_APPS k \<and> \<not> (\<exists>i \<in> {1..<k}. active_in p GROUP_APPS i)
        then add_mset (group_tput p GROUP_APPS) (demands_below p k)
      else if active_in p GROUP_MODEM k \<and> \<not> (\<exists>i \<in> {1..<k}. active_in p GROUP_MODEM i)
        then add_mset (group_tput p GROUP_MODEM) (demands_below p k)
      else demands_below p k)"
  unfolding demands_below_def ex_range_Suc
  by (cases "clients p k"; cases "cl_group (the (clients p k))") (auto simp: active_in_def)

lemma active_in_unique: "active_in p g i \<Longrightarrow> active_in p g' i \<Longrightarrow> g = g'"
  by (auto simp: active_in_def split: option.splits)

lemma collect_tput_eq:
  "collect_tput p i (arr, n, voted) =
     (if active_in p GROUP_DEFAULT i then (arr[n := client_tput p i], Suc n, voted)
      else if active_in p GROUP_APPS i \<and> \<not> voted GROUP_APPS
        then (arr[n := group_tput p GROUP_APPS], Suc n, voted(GROUP_APPS := True))
      else if active_in p GROUP_MODEM i \<and> \<not> voted GROUP_MODEM
        then (arr[n := group_tput p GROUP_MODEM], Suc n, voted(GROUP_MODEM := True))
      else (arr, n, voted))"
  by (cases "clients p i"; cases "cl_group (the (clients p i))")
     (auto simp: collect_tput_def active_in_def client_tput_def)

lemma all_shared_groups:
  "(\<forall>g. g \<noteq> GROUP_DEFAULT \<longrightarrow> P g) \<longleftrightarrow> P GROUP_APPS \<and> P GROUP_MODEM"
  by (metis pm_group.distinct(1) pm_group.distinct(3) pm_group.exhaust)

lemma collect_prefix:
  assumes "1 \<le> k" "k \<le> IPA_PM_MAX_CLIENTS"
    "foldl (\<lambda>st i. collect_tput p i st) (replicate IPA_PM_MAX_CLIENTS 0, 0, \<lambda>g. False) [1..<k] = (arr, n, voted)"
  shows "length arr = IPA_PM_MAX_CLIENTS \<and> n < k \<and> live arr n = demands_below p k \<and>
         (\<forall>g. g \<noteq> GROUP_DEFAULT \<longrightarrow> voted g = (\<exists>i \<in> {1..<k}. active_in p g i))"
  using assms
proof (induction k arbitrary: arr n voted)
  case (Suc k)
  show ?case
  proof (cases "k = 0")
    case True
    with Suc.prems show ?thesis by (auto simp: demands_below_def)
  next
    case False
    obtain arr0 n0 voted0 where st: "foldl (\<lambda>st i. collect_tput p i st)
        (replicate IPA_PM_MAX_CLIENTS 0, 0, \<lambda>g. False) [1..<k] = (arr0, n0, voted0)"
      by (cases "foldl (\<lambda>st i. collect_tput p i st) (replicate IPA_PM_MAX_CLIENTS 0, 0, \<lambda>g. False) [1..<k]")
    have IH: "length arr0 = IPA_PM_MAX_CLIENTS" "n0 < k" "live arr0 n0 = demands_below p k"
      "\<And>g. g \<noteq> GROUP_DEFAULT \<Longrightarrow> voted0 g = (\<exists>i \<in> {1..<k}. active_in p g i)"
      using Suc.IH [OF _ _ st] False Suc.prems(2) by auto
    have step: "collect_tput p k (arr0, n0, voted0) = (arr, n, voted)"
      using Suc.prems(3) False st by simp
    have len: "n0 < length arr0" using IH(1,2) Suc.prems(2) by simp
    have k: "1 \<le> k" using False by simp
    define S where "S g = (\<exists>i \<in> {1..<k}. active_in p g i)" for g
    have S: "voted0 GROUP_APPS = S GROUP_APPS" "voted0 GROUP_MODEM = S GROUP_MODEM"
      using IH(4) by (simp_all add: S_def)
    show ?thesis
      using step IH(1-3) live_store [OF len] S
      unfolding demands_below_Suc [OF k] ex_range_Suc [OF k] collect_tput_eq all_shared_groups
        S_def [symmetric]
      by (auto split: if_splits dest: active_in_unique)
  qed
qed simp

lemma collect_all_demands:
  assumes "collect_all p = (arr, n, voted)"
  shows "n \<le> length arr \<and> live arr n = tput_demands p"
  using collect_prefix [of IPA_PM_MAX_CLIENTS p arr n voted] assms
  by (simp add: collect_all_def tput_demands_def) (simp add: pm_consts)

section \<open>Properties\<close>

text \<open>
  C5: The loop over the client array that repeatedly removes the largest throughputs computes
  the aggregate of the multiset of active demands, and the aggregate lies between half of what
  remains beside the largest demand and that remainder.
\<close>

theorem calculate_throughput_spec:
  assumes "\<forall>x \<in># tput_demands p. 0 \<le> x \<and> x < 2 ^ 31" "sum_mset (tput_demands p) < 2 ^ 32"
  shows "calculate_throughput p = diff_aggregate (tput_demands p) \<and>
         (tput_demands p \<noteq> {#} \<longrightarrow>
            (let total = sum_mset (tput_demands p); top = Max_mset (tput_demands p);
                 agg = calculate_throughput p
             in 0 \<le> agg \<and> agg \<le> total - top \<and> total - top \<le> 2 * agg \<and> 2 * agg \<le> total))"
proof -
  obtain arr n voted where c: "collect_all p = (arr, n, voted)" by (cases "collect_all p")
  note d = collect_all_demands [OF c]
  have eq: "calculate_throughput p = diff_aggregate (tput_demands p)"
    using tput_loop_refines [of n arr 0] d assms by (simp add: calculate_throughput_def c)
  then show ?thesis using diff_aggregate_bounds [of "tput_demands p"] assms(1) by (auto simp: Let_def)
qed

definition demo_client :: "nat \<Rightarrow> string \<Rightarrow> pm_state \<Rightarrow> pm_group \<Rightarrow> int \<Rightarrow> pm_client" where
  "demo_client h name st g tput = \<lparr>cl_name = name, cl_callback = True, cl_state = st,
     cl_skip_clk_vote = False, cl_group = g, cl_hdl = h, cl_throughput = tput, cl_activate_work = False,
     cl_deactivate_work = False, cl_complete = False, cl_wlock = True, cl_wlock_held = False,
     cl_sync_inflight = False\<rparr>"

definition demo_pm :: pm_ctx where
  "demo_pm = \<lparr>clients = [1 \<mapsto> demo_client 1 ''usb'' ACTIVATED GROUP_DEFAULT 1000,
       2 \<mapsto> demo_client 2 ''wan'' ACTIVATED GROUP_APPS 0,
       3 \<mapsto> demo_client 3 ''odu'' DEACTIVATED GROUP_DEFAULT 500,
       4 \<mapsto> demo_client 4 ''lan'' ACTIVATED GROUP_APPS 0],
     clients_by_pipe = (\<lambda>i. None),
     clk_scaling = \<lparr>exception_list = [], scaling_work = False, active_client_bitmask = 22,
       threshold_size = 3, exception_size = 0, cur_vote = 0, default_threshold = [300, 900, 2000, 0, 0],
       current_threshold = ThNull\<rparr>,
     aggregated_tput = 0, group_tput = (\<lambda>g. 600)\<rparr>"

lemma demo_demands: "tput_demands demo_pm = {#600, 1000#}"
proof -
  have "[1..<32] = [1, 2, 3, 4] @ [5..<32::nat]" by (simp add: upt_conv_Cons)
  moreover have "[i \<leftarrow> [5..<32]. active_in demo_pm g i] = []" for g
    by (auto simp: filter_empty_conv active_in_def demo_pm_def)
  ultimately have "[i \<leftarrow> [1..<32]. active_in demo_pm GROUP_DEFAULT i] = [1]"
    by (simp add: active_in_def demo_pm_def demo_client_def)
  moreover have "\<exists>i \<in> {1..<32}. active_in demo_pm GROUP_APPS i"
    by (rule bexI [of _ 2]) (auto simp: active_in_def demo_pm_def demo_client_def)
  moreover have "\<not> (\<exists>i \<in> {1..<32}. active_in demo_pm GROUP_MODEM i)"
    by (auto simp: active_in_def demo_pm_def demo_client_def split: if_splits)
  ultimately show ?thesis
    by (simp add: tput_demands_def demands_below_def pm_consts client_tput_def)
       (simp add: demo_pm_def demo_client_def)
qed

lemma calculate_throughput_spec_witness: "calculate_throughput demo_pm = 600"
  using calculate_throughput_spec [of demo_pm]
  by (simp add: demo_demands Let_def diff_aggregate.simps [of "{#600, 1000#}"] diff_aggregate.simps [of "{#400#}"])

end
