(* ===== verification/Ipa_Pm.thy ===== *)
theory Ipa_Pm
  imports Ipa_Clk Ipa_Tput
begin

text \<open>
  The operations of the power manager, \<open>ipa_v3/ipa_pm.c\<close>: registration of clients, their
  activation and deactivation with the works that finish them later, the exceptions and the
  clock scaling. An operation takes the environment and the state and returns its code and the
  new state; one that waits on a completion blocks while the completion is not done.
\<close>

section \<open>Clock scaling\<close>

definition deactivate_client :: "nat \<Rightarrow> ipa \<Rightarrow> ipa" where
  "deactivate_client h =
     upd_scaling (\<lambda>d. d\<lparr>active_client_bitmask := active_client_bitmask d AND NOT (bit_of h)\<rparr>)"

definition activate_client :: "nat \<Rightarrow> ipa \<Rightarrow> ipa" where
  "activate_client h =
     upd_scaling (\<lambda>d. d\<lparr>active_client_bitmask := active_client_bitmask d OR bit_of h\<rparr>)"

text \<open>\<open>set_current_threshold\<close>: the first exception all of whose clients are active.\<close>

fun first_exception :: "u32 \<Rightarrow> pm_exception list \<Rightarrow> nat \<Rightarrow> th_ptr" where
  "first_exception active [] i = ThDefault"
| "first_exception active (x # xs) i =
     (if ex_pending x = 0 \<and> ex_bitmask x AND NOT active = 0 then ThExc i
      else first_exception active xs (Suc i))"

definition set_current_threshold :: "clk_scaling_db \<Rightarrow> clk_scaling_db" where
  "set_current_threshold d =
     d\<lparr>current_threshold :=
         first_exception (active_client_bitmask d) (take (exception_size d) (exception_list d)) 0\<rparr>"

text \<open>Reading through the pointer \<open>current_threshold\<close>.\<close>

fun threshold_array :: "th_ptr \<Rightarrow> clk_scaling_db \<Rightarrow> int list option" where
  "threshold_array ThNull d = None"
| "threshold_array ThDefault d = Some (default_threshold d)"
| "threshold_array (ThExc i) d = Some (ex_threshold (exception_list d ! i))"

definition threshold_idx :: "int \<Rightarrow> int list \<Rightarrow> nat \<Rightarrow> int" where
  "threshold_idx tput ths n = foldl (\<lambda>idx i. if ths ! i \<le> tput then idx + 1 else idx) 1 [0..<n]"

definition do_clk_scaling :: "ipa_env \<Rightarrow> ipa \<Rightarrow> ipa" where
  "do_clk_scaling e s =
     (if ipa_clk_vote s = 0 then s
      else case pm s of
        None \<Rightarrow> fault NullDeref s
      | Some p \<Rightarrow>
          let tput = calculate_throughput p;
              d = set_current_threshold (clk_scaling p);
              s1 = s\<lparr>pm := Some (p\<lparr>aggregated_tput := tput, clk_scaling := d\<rparr>)\<rparr>
          in case threshold_array (current_threshold d) d of
               None \<Rightarrow> fault NullDeref s1
             | Some ths \<Rightarrow>
                 let new_idx = threshold_idx tput ths (threshold_size d) in
                 if cur_vote d \<noteq> new_idx then
                   snd (set_clock_plan_from_pm e new_idx (upd_scaling (\<lambda>d. d\<lparr>cur_vote := new_idx\<rparr>) s1))
                 else s1)"

text \<open>\<open>clock_scaling_func\<close>, run from the queue.\<close>

definition clock_scaling_func :: "ipa_env \<Rightarrow> ipa \<Rightarrow> ipa" where
  "clock_scaling_func e s = do_clk_scaling e (upd_scaling (\<lambda>d. d\<lparr>scaling_work := False\<rparr>) s)"

section \<open>The works of a client\<close>

definition set_state :: "nat \<Rightarrow> pm_state \<Rightarrow> ipa \<Rightarrow> ipa" where
  "set_state h st = upd_client h (\<lambda>c. c\<lparr>cl_state := st\<rparr>)"

definition pm_stay_awake :: "nat \<Rightarrow> ipa \<Rightarrow> ipa" where
  "pm_stay_awake h = upd_client h (\<lambda>c. c\<lparr>cl_wlock_held := cl_wlock c\<rparr>)"

definition pm_relax :: "nat \<Rightarrow> ipa \<Rightarrow> ipa" where
  "pm_relax h = upd_client h (\<lambda>c. c\<lparr>cl_wlock_held := False\<rparr>)"

text \<open>Taking the vote of a client, and giving it back, as four places of the code do.\<close>

definition pm_vote :: "ipa_env \<Rightarrow> nat \<Rightarrow> nat \<Rightarrow> pm_client \<Rightarrow> ipa \<Rightarrow> ipa" where
  "pm_vote e line h c s =
     (if \<not> cl_skip_clk_vote c then
        let s1 = inc_client_enable_clks e (PREP_SPECIAL ''ipa_pm.c'' line (cl_name c)) s
        in if cl_group c = GROUP_APPS then pm_stay_awake h s1 else s1
      else s)"

definition pm_devote :: "ipa_env \<Rightarrow> nat \<Rightarrow> nat \<Rightarrow> pm_client \<Rightarrow> ipa \<Rightarrow> ipa" where
  "pm_devote e line h c s =
     (if \<not> cl_skip_clk_vote c then
        let s1 = dec_client_disable_clks e (PREP_SPECIAL ''ipa_pm.c'' line (cl_name c)) s
        in if cl_group c = GROUP_APPS then pm_relax h s1 else s1
      else s)"

definition activate_work_func :: "ipa_env \<Rightarrow> nat \<Rightarrow> ipa \<Rightarrow> ipa" where
  "activate_work_func e h s =
     (case get_client h s of
        None \<Rightarrow> fault UseAfterFree s
      | Some c \<Rightarrow>
          let s1 = pm_vote e 409 h c s;
              s2 = (if cl_state c = ACTIVATE_IN_PROGRESS then set_state h ACTIVATED s1
                    else if cl_state c = DEACTIVATE_IN_PROGRESS then set_state h DEACTIVATED s1
                    else fault WarnPmState s1);
              s3 = upd_client h (\<lambda>c. c\<lparr>cl_complete := True\<rparr>) s2
          in
          if cl_state c = DEACTIVATE_IN_PROGRESS then pm_devote e 431 h c s3
          else
            let s4 = activate_client (cl_hdl c) s3;
                s5 = (if cl_callback c then emit (PmCallback (cl_hdl c) CLIENT_ACTIVATED) s4 else s4)
            in do_clk_scaling e s5)"

definition run_activate_work :: "ipa_env \<Rightarrow> nat \<Rightarrow> ipa \<Rightarrow> ipa" where
  "run_activate_work e h s =
     activate_work_func e h (upd_client h (\<lambda>c. c\<lparr>cl_activate_work := False\<rparr>) s)"

definition IPA_PM_DEFERRED_TIMEOUT :: nat where "IPA_PM_DEFERRED_TIMEOUT = 100"

definition deferred_delay :: "ipa \<Rightarrow> nat" where
  "deferred_delay s =
     (if ipa_hw_mode s = HW_VIRTUAL \<or> ipa_hw_mode s = HW_EMULATION
      then IPA_PM_DEFERRED_TIMEOUT * 5 else IPA_PM_DEFERRED_TIMEOUT)"

definition queue_deactivate_work :: "nat \<Rightarrow> ipa \<Rightarrow> ipa" where
  "queue_deactivate_work h s =
     emit (PmTimer h (deferred_delay s)) (upd_client h (\<lambda>c. c\<lparr>cl_deactivate_work := True\<rparr>) s)"

text \<open>\<open>delayed_deferred_deactivate_work_func\<close>.\<close>

definition deferred_deactivate_work_func :: "ipa_env \<Rightarrow> nat \<Rightarrow> ipa \<Rightarrow> ipa" where
  "deferred_deactivate_work_func e h s =
     (case get_client h s of
        None \<Rightarrow> fault UseAfterFree s
      | Some c \<Rightarrow>
          (case cl_state c of
             ACTIVATED_TIMER_SET \<Rightarrow> set_state h ACTIVATED s
           | ACTIVATED_PENDING_RESCHEDULE \<Rightarrow>
               set_state h ACTIVATED_PENDING_DEACTIVATION (queue_deactivate_work h s)
           | ACTIVATED_PENDING_DEACTIVATION \<Rightarrow>
               let s1 = set_state h DEACTIVATED s;
                   s2 = pm_devote e 494 h c s1
               in do_clk_scaling e (deactivate_client (cl_hdl c) s2)
           | _ \<Rightarrow> fault WarnPmState s))"

definition run_deactivate_work :: "ipa_env \<Rightarrow> nat \<Rightarrow> ipa \<Rightarrow> ipa" where
  "run_deactivate_work e h s =
     deferred_deactivate_work_func e h (upd_client h (\<lambda>c. c\<lparr>cl_deactivate_work := False\<rparr>) s)"

section \<open>Registration\<close>

text \<open>\<open>find_next_open_array_element\<close>, from the last handle down to 1.\<close>

fun find_open :: "string \<Rightarrow> pm_ctx \<Rightarrow> nat list \<Rightarrow> errno + nat \<Rightarrow> errno + nat" where
  "find_open name p [] n = n"
| "find_open name p (i # is) n =
     (case clients p i of
        None \<Rightarrow> find_open name p is (Inr i)
      | Some c \<Rightarrow>
          if length name = length (cl_name c) \<and> name = cl_name c then Inl EEXIST
          else find_open name p is n)"

definition find_next_open_array_element :: "string \<Rightarrow> pm_ctx \<Rightarrow> errno + nat" where
  "find_next_open_array_element name p = find_open name p (rev [1..<IPA_PM_MAX_CLIENTS]) (Inl ENOBUFS)"

text \<open>The loops over the exceptions when a client comes and goes.\<close>

fun add_to_exceptions :: "string \<Rightarrow> nat \<Rightarrow> pm_exception list \<Rightarrow> bool \<times> pm_exception list" where
  "add_to_exceptions name h [] = (True, [])"
| "add_to_exceptions name h (x # xs) =
     (if strnstr (ex_clients x) name (length name) \<and> length (ex_clients x) = length name then
        if ex_pending x - 1 < 0 then (False, x\<lparr>ex_pending := 0\<rparr> # xs)
        else
          let (ok, ys) = add_to_exceptions name h xs
          in (ok, x\<lparr>ex_pending := ex_pending x - 1, ex_bitmask := ex_bitmask x OR bit_of h\<rparr> # ys)
      else
        let (ok, ys) = add_to_exceptions name h xs in (ok, x # ys))"

definition remove_from_exception :: "nat \<Rightarrow> pm_exception \<Rightarrow> pm_exception" where
  "remove_from_exception h x =
     (if ex_bitmask x AND bit_of h \<noteq> 0
      then x\<lparr>ex_pending := ex_pending x + 1, ex_bitmask := ex_bitmask x AND NOT (bit_of h)\<rparr>
      else x)"

definition add_client_to_exception_list :: "nat \<Rightarrow> ipa \<Rightarrow> rc \<times> ipa" where
  "add_client_to_exception_list h s =
     (case pm s of
        None \<Rightarrow> (OK, fault NullDeref s)
      | Some p \<Rightarrow>
          (case clients p h of
             None \<Rightarrow> (OK, fault NullDeref s)
           | Some c \<Rightarrow>
               let d = clk_scaling p; n = exception_size d;
                   (ok, xs) = add_to_exceptions (cl_name c) h (take n (exception_list d));
                   s1 = upd_scaling (\<lambda>d. d\<lparr>exception_list := xs @ drop n (exception_list d)\<rparr>) s
               in if ok then (OK, s1) else (Err EPERM, fault WarnPmPending s1)))"

definition remove_client_from_exception_list :: "nat \<Rightarrow> ipa \<Rightarrow> ipa" where
  "remove_client_from_exception_list h =
     upd_scaling (\<lambda>d. d\<lparr>exception_list :=
       map (remove_from_exception h) (take (exception_size d) (exception_list d)) @
       drop (exception_size d) (exception_list d)\<rparr>)"

section \<open>Start and end of the power manager\<close>

record pm_init_params =
  ip_default_threshold :: "int list"
  ip_threshold_size :: int
  ip_exceptions :: "(string \<times> int list) list"
  ip_exception_size :: int

text \<open>An array of five ints of which the first \<open>n\<close> are copied from \<open>xs\<close> into zeroed memory.\<close>

definition threshold_copy :: "nat \<Rightarrow> int list \<Rightarrow> int list" where
  "threshold_copy n xs = map (\<lambda>i. if i < n then xs ! i else 0) [0..<IPA_PM_THRESHOLD_MAX]"

definition count_commas :: "string \<Rightarrow> int" where
  "count_commas s = int (length (filter (\<lambda>c. c = CHR '','') s))"

definition init_exception :: "nat \<Rightarrow> string \<times> int list \<Rightarrow> pm_exception" where
  "init_exception n x =
     (let cl = strlcpy IPA_PM_MAX_EX_CL (fst x)
      in \<lparr>ex_clients = cl, ex_pending = count_commas cl + 1, ex_bitmask = 0,
          ex_threshold = threshold_copy n (snd x)\<rparr>)"

definition zero_exception :: pm_exception where
  "zero_exception = \<lparr>ex_clients = [], ex_pending = 0, ex_bitmask = 0,
     ex_threshold = replicate IPA_PM_THRESHOLD_MAX 0\<rparr>"

definition init_exceptions :: "nat \<Rightarrow> nat \<Rightarrow> (string \<times> int list) list \<Rightarrow> pm_exception list" where
  "init_exceptions tn en xs =
     map (\<lambda>i. if i < en then init_exception tn (xs ! i) else zero_exception) [0..<IPA_PM_EXCEPTION_MAX]"

definition ipa_pm_init :: "ipa_env \<Rightarrow> pm_init_params option \<Rightarrow> ipa \<Rightarrow> rc \<times> ipa" where
  "ipa_pm_init e params s =
     (case params of
        None \<Rightarrow> (Err EINVAL, s)
      | Some ip \<Rightarrow>
          if ip_threshold_size ip \<le> 0 \<or> ip_threshold_size ip > int IPA_PM_THRESHOLD_MAX then (Err EINVAL, s)
          else if ip_exception_size ip < 0 \<or> ip_exception_size ip > int IPA_PM_EXCEPTION_MAX
          then (Err EINVAL, s)
          else if pm s \<noteq> None then (Err EPERM, s)
          else if \<not> env_kzalloc e then (Err ENOMEM, s)
          else if \<not> env_create_wq e then (Err ENOMEM, s)
          else
            let tn = nat (ip_threshold_size ip); en = nat (ip_exception_size ip)
            in (OK, s\<lparr>pm := Some
                 \<lparr>clients = (\<lambda>h. None), clients_by_pipe = (\<lambda>i. None),
                  clk_scaling =
                    \<lparr>exception_list = init_exceptions tn en (ip_exceptions ip), scaling_work = False,
                     active_client_bitmask = 0, threshold_size = tn, exception_size = en, cur_vote = 0,
                     default_threshold = threshold_copy tn (ip_default_threshold ip),
                     current_threshold = ThNull\<rparr>,
                  aggregated_tput = 0, group_tput = (\<lambda>g. 0)\<rparr>\<rparr>))"

text \<open>
  \<open>destroy_workqueue\<close> runs what is queued without delay, the activations and the scaling, before
  the queue goes away.
\<close>

definition drain_pm_wq :: "ipa_env \<Rightarrow> ipa \<Rightarrow> ipa" where
  "drain_pm_wq e s =
     (let s1 = foldl (\<lambda>s h. case get_client h s of
                              None \<Rightarrow> s
                            | Some c \<Rightarrow> if cl_activate_work c then run_activate_work e h s else s)
                 s [1..<IPA_PM_MAX_CLIENTS]
      in case pm s1 of
           None \<Rightarrow> s1
         | Some p \<Rightarrow> if scaling_work (clk_scaling p) then clock_scaling_func e s1 else s1)"

definition ipa_pm_destroy :: "ipa_env \<Rightarrow> ipa \<Rightarrow> rc \<times> ipa" where
  "ipa_pm_destroy e s =
     (if pm s = None then (Err EPERM, s) else (OK, (drain_pm_wq e s)\<lparr>pm := None\<rparr>))"

section \<open>Deregistration and registration\<close>

text \<open>
  The part of \<open>ipa_pm_deregister\<close> after the checks. The client object is freed; a work that is
  still queued, or a thread that still activates the client, then uses freed memory.
\<close>

definition free_client :: "nat \<Rightarrow> pm_client \<Rightarrow> ipa \<Rightarrow> ipa" where
  "free_client h c s =
     (let s1 = upd_pm (\<lambda>p. p\<lparr>clients_by_pipe :=
                 (\<lambda>i. if i < IPA3_MAX_NUM_PIPES \<and> clients_by_pipe p i = Some h then None
                      else clients_by_pipe p i)\<rparr>) s;
          s2 = (if cl_activate_work c \<or> cl_deactivate_work c \<or> cl_sync_inflight c
                then fault UseAfterFree s1 else s1);
          s3 = upd_pm (\<lambda>p. p\<lparr>clients := (clients p)(h := None)\<rparr>) s2
      in remove_client_from_exception_list h s3)"

definition ipa_pm_deregister :: "nat \<Rightarrow> ipa \<Rightarrow> (rc \<times> ipa) outcome" where
  "ipa_pm_deregister h s =
     (case pm s of
        None \<Rightarrow> Ret (Err EINVAL, s)
      | Some p \<Rightarrow>
          if IPA_PM_MAX_CLIENTS \<le> h then Ret (Err EINVAL, s)
          else case clients p h of
            None \<Rightarrow> Ret (Err EINVAL, s)
          | Some c \<Rightarrow>
              if STATE_IN_PROGRESS (cl_state c) \<and> \<not> cl_complete c then Blocked
              else if STATE_ACTIVE (cl_state c) then Ret (Err EPERM, s)
              else Ret (OK, free_client h c s))"

record pm_register_params =
  rp_name :: "string option"
  rp_callback :: bool
  rp_group :: pm_group
  rp_skip_clk_vote :: bool

definition new_client :: "string \<Rightarrow> pm_register_params \<Rightarrow> nat \<Rightarrow> bool \<Rightarrow> pm_client" where
  "new_client name rp h wlock =
     \<lparr>cl_name = strlcpy IPA_PM_MAX_EX_CL name, cl_callback = rp_callback rp, cl_state = DEACTIVATED,
      cl_skip_clk_vote = rp_skip_clk_vote rp, cl_group = rp_group rp, cl_hdl = h, cl_throughput = 0,
      cl_activate_work = False, cl_deactivate_work = False, cl_complete = False, cl_wlock = wlock,
      cl_wlock_held = False, cl_sync_inflight = False\<rparr>"

text \<open>
  \<open>ipa_pm_register\<close>. The handle it writes is part of the result; when no slot is found it is the
  negative error code. When the wake source cannot be
  registered the client is deregistered, which frees it, and its name is then read for the
  error message.
\<close>

definition deregister_new :: "nat \<Rightarrow> ipa \<Rightarrow> ipa" where
  "deregister_new h s = (case ipa_pm_deregister h s of Blocked \<Rightarrow> s | Ret (r, s') \<Rightarrow> s')"

definition ipa_pm_register ::
  "ipa_env \<Rightarrow> pm_register_params option \<Rightarrow> bool \<Rightarrow> ipa \<Rightarrow> rc \<times> nat option \<times> ipa" where
  "ipa_pm_register e params hdl_ptr s =
     (case pm s of
        None \<Rightarrow> (Err EINVAL, None, s)
      | Some p \<Rightarrow>
          (case params of
             None \<Rightarrow> (Err EINVAL, None, s)
           | Some rp \<Rightarrow>
               (case rp_name rp of
                  None \<Rightarrow> (Err EINVAL, None, s)
                | Some name \<Rightarrow>
                    if \<not> hdl_ptr then (Err EINVAL, None, s)
                    else case find_next_open_array_element name p of
                      Inl err \<Rightarrow> (Err err, Some (err_u32 err), s)
                    | Inr h \<Rightarrow>
                        if \<not> env_kzalloc e then (Err ENOMEM, Some h, s)
                        else
                          let c = new_client name rp h (env_wakeup_source e);
                              s1 = upd_pm (\<lambda>p. p\<lparr>clients := (clients p)(h \<mapsto> c)\<rparr>) s
                          in
                          if \<not> env_wakeup_source e then
                            let s2 = deregister_new h s1
                            in (Err ENOMEM, Some h,
                                if get_client h s2 = None then fault UseAfterFree s2 else s2)
                          else
                            (case add_client_to_exception_list h s1 of
                               (OK, s2) \<Rightarrow> (OK, Some h, s2)
                             | (Err err, s2) \<Rightarrow> (Err EPERM, Some h, deregister_new h s2)))))"

definition ipa_pm_associate_ipa_cons_to_client :: "ipa_env \<Rightarrow> nat \<Rightarrow> int \<Rightarrow> ipa \<Rightarrow> rc \<times> ipa" where
  "ipa_pm_associate_ipa_cons_to_client e h consumer s =
     (case pm s of
        None \<Rightarrow> (Err EINVAL, s)
      | Some p \<Rightarrow>
          if IPA_PM_MAX_CLIENTS \<le> h \<or> consumer < 0 \<or> int (env_client_max e) \<le> consumer
          then (Err EINVAL, s)
          else if clients p h = None then (Err EPERM, s)
          else
            let idx = env_ep_mapping e (nat consumer) in
            if idx < 0 then (OK, s)
            else if clients_by_pipe p (nat idx) \<noteq> None then (Err EPERM, s)
            else (OK, upd_pm (\<lambda>p. p\<lparr>clients_by_pipe := (clients_by_pipe p)(nat idx \<mapsto> h)\<rparr>) s))"

section \<open>Activation\<close>

text \<open>The end of \<open>ipa_pm_activate_helper\<close> when the clocks are on.\<close>

definition got_clocks :: "ipa_env \<Rightarrow> bool \<Rightarrow> nat \<Rightarrow> ipa \<Rightarrow> ipa" where
  "got_clocks e sync h s =
     (case get_client h s of
        None \<Rightarrow> fault UseAfterFree s
      | Some c \<Rightarrow>
          let s1 = set_state h ACTIVATED s;
              s2 = (if cl_group c = GROUP_APPS then pm_stay_awake h s1 else s1);
              s3 = activate_client (cl_hdl c) s2
          in if sync then do_clk_scaling e s3 else upd_scaling (\<lambda>d. d\<lparr>scaling_work := True\<rparr>) s3)"

text \<open>The switch of the helper on an active client: the return without a new vote.\<close>

fun already_active :: "pm_state \<Rightarrow> pm_state option" where
  "already_active ACTIVATED_PENDING_RESCHEDULE = Some ACTIVATED_TIMER_SET"
| "already_active ACTIVATED_PENDING_DEACTIVATION = Some ACTIVATED_TIMER_SET"
| "already_active ACTIVATED = Some ACTIVATED"
| "already_active ACTIVATED_TIMER_SET = Some ACTIVATED_TIMER_SET"
| "already_active _ = None"

definition activate_helper_async :: "ipa_env \<Rightarrow> nat \<Rightarrow> pm_client \<Rightarrow> ipa \<Rightarrow> rc \<times> ipa" where
  "activate_helper_async e h c s =
     (if STATE_IN_PROGRESS (cl_state c) then (Err EINPROGRESS, set_state h ACTIVATE_IN_PROGRESS s)
      else case already_active (cl_state c) of
        Some st \<Rightarrow> (OK, set_state h st s)
      | None \<Rightarrow>
          let (r, s1) =
            (if cl_skip_clk_vote c then (OK, s)
             else inc_client_enable_clks_no_block e (PREP_SPECIAL ''ipa_pm.c'' 949 (cl_name c)) s)
          in if r = OK then (OK, got_clocks e False h s1)
             else
               (Err EINPROGRESS,
                upd_client h (\<lambda>c. c\<lparr>cl_state := ACTIVATE_IN_PROGRESS, cl_complete := False,
                                    cl_activate_work := True\<rparr>) s1))"

definition ipa_pm_activate :: "ipa_env \<Rightarrow> nat \<Rightarrow> ipa \<Rightarrow> rc \<times> ipa" where
  "ipa_pm_activate e h s =
     (case pm s of
        None \<Rightarrow> (Err EINVAL, s)
      | Some p \<Rightarrow>
          if IPA_PM_MAX_CLIENTS \<le> h then (Err EINVAL, s)
          else case clients p h of
            None \<Rightarrow> (Err EINVAL, s)
          | Some c \<Rightarrow> activate_helper_async e h c s)"

text \<open>
  The synchronous activation drops the client's lock around the clock vote. \<open>activate_sync_enter\<close>
  is the part before: it blocks, or returns a result, or (\<open>None\<close>) leaves the vote to
  \<open>activate_sync_resume\<close>.
\<close>

definition activate_sync_enter :: "ipa_env \<Rightarrow> nat \<Rightarrow> ipa \<Rightarrow> (rc option \<times> ipa) outcome" where
  "activate_sync_enter e h s =
     (case pm s of
        None \<Rightarrow> Ret (Some (Err EINVAL), s)
      | Some p \<Rightarrow>
          if IPA_PM_MAX_CLIENTS \<le> h then Ret (Some (Err EINVAL), s)
          else case clients p h of
            None \<Rightarrow> Ret (Some (Err EINVAL), s)
          | Some c \<Rightarrow>
              if STATE_IN_PROGRESS (cl_state c) \<and> \<not> cl_complete c then Blocked
              else if STATE_IN_PROGRESS (cl_state c) then Ret (Some (Err EPERM), s)
              else case already_active (cl_state c) of
                Some st \<Rightarrow> Ret (Some OK, set_state h st s)
              | None \<Rightarrow>
                  if \<not> cl_skip_clk_vote c then
                    Ret (None, upd_client h (\<lambda>c. c\<lparr>cl_state := ACTIVATE_IN_PROGRESS,
                                                   cl_sync_inflight := True\<rparr>) s)
                  else Ret (Some OK, got_clocks e True h s))"

definition activate_sync_resume :: "ipa_env \<Rightarrow> nat \<Rightarrow> ipa \<Rightarrow> ipa" where
  "activate_sync_resume e h s =
     (case get_client h s of
        None \<Rightarrow> fault UseAfterFree s
      | Some c \<Rightarrow>
          let s1 = inc_client_enable_clks e (PREP_SPECIAL ''ipa_pm.c'' 954 (cl_name c)) s;
              s2 = upd_client h (\<lambda>c. c\<lparr>cl_sync_inflight := False\<rparr>) s1
          in got_clocks e True h s2)"

definition ipa_pm_activate_sync :: "ipa_env \<Rightarrow> nat \<Rightarrow> ipa \<Rightarrow> (rc \<times> ipa) outcome" where
  "ipa_pm_activate_sync e h s =
     (case activate_sync_enter e h s of
        Blocked \<Rightarrow> Blocked
      | Ret (Some r, s1) \<Rightarrow> Ret (r, s1)
      | Ret (None, s1) \<Rightarrow> Ret (OK, activate_sync_resume e h s1))"

section \<open>Deactivation\<close>

definition ipa_pm_deferred_deactivate :: "nat \<Rightarrow> ipa \<Rightarrow> rc \<times> ipa" where
  "ipa_pm_deferred_deactivate h s =
     (case pm s of
        None \<Rightarrow> (Err EINVAL, s)
      | Some p \<Rightarrow>
          if IPA_PM_MAX_CLIENTS \<le> h then (Err EINVAL, s)
          else case clients p h of
            None \<Rightarrow> (Err EINVAL, s)
          | Some c \<Rightarrow>
              (case cl_state c of
                 ACTIVATE_IN_PROGRESS \<Rightarrow> (OK, set_state h DEACTIVATE_IN_PROGRESS s)
               | DEACTIVATED \<Rightarrow> (OK, s)
               | ACTIVATED \<Rightarrow>
                   (OK, queue_deactivate_work h (set_state h ACTIVATED_PENDING_DEACTIVATION s))
               | ACTIVATED_TIMER_SET \<Rightarrow> (OK, set_state h ACTIVATED_PENDING_RESCHEDULE s)
               | ACTIVATED_PENDING_DEACTIVATION \<Rightarrow> (OK, set_state h ACTIVATED_PENDING_RESCHEDULE s)
               | DEACTIVATE_IN_PROGRESS \<Rightarrow> (OK, s)
               | ACTIVATED_PENDING_RESCHEDULE \<Rightarrow> (OK, s)))"

definition cancel_deactivate_work :: "nat \<Rightarrow> ipa \<Rightarrow> ipa" where
  "cancel_deactivate_work h = upd_client h (\<lambda>c. c\<lparr>cl_deactivate_work := False\<rparr>)"

text \<open>
  One turn of the loop of \<open>ipa_pm_deactivate_all_deferred\<close>: the flag says whether the scaling
  has to run at the end.
\<close>

definition deactivate_one_deferred :: "ipa_env \<Rightarrow> nat \<Rightarrow> ipa \<Rightarrow> (bool \<times> ipa) outcome" where
  "deactivate_one_deferred e h s =
     (case get_client h s of
        None \<Rightarrow> Ret (False, s)
      | Some c \<Rightarrow>
          let s1 = cancel_deactivate_work h s in
          if STATE_IN_PROGRESS (cl_state c) then
            (if cl_complete c then Ret (False, s1) else Blocked)
          else if cl_state c = ACTIVATED_TIMER_SET then Ret (False, set_state h ACTIVATED s1)
          else if cl_state c = ACTIVATED_PENDING_DEACTIVATION \<or> cl_state c = ACTIVATED_PENDING_RESCHEDULE
          then
            let s2 = set_state h DEACTIVATED s1;
                s3 = pm_devote e 1144 h c s2
            in Ret (True, deactivate_client (cl_hdl c) s3)
          else Ret (False, s1))"

fun deactivate_deferred_from :: "ipa_env \<Rightarrow> nat list \<Rightarrow> bool \<Rightarrow> ipa \<Rightarrow> (bool \<times> ipa) outcome" where
  "deactivate_deferred_from e [] run s = Ret (run, s)"
| "deactivate_deferred_from e (h # hs) run s =
     (case deactivate_one_deferred e h s of
        Blocked \<Rightarrow> Blocked
      | Ret (r, s1) \<Rightarrow> deactivate_deferred_from e hs (run \<or> r) s1)"

definition ipa_pm_deactivate_all_deferred :: "ipa_env \<Rightarrow> ipa \<Rightarrow> (rc \<times> ipa) outcome" where
  "ipa_pm_deactivate_all_deferred e s =
     (if pm s = None then Ret (Err EINVAL, s)
      else case deactivate_deferred_from e [1..<IPA_PM_MAX_CLIENTS] False s of
        Blocked \<Rightarrow> Blocked
      | Ret (run, s1) \<Rightarrow> Ret (OK, if run then do_clk_scaling e s1 else s1))"

definition ipa_pm_deactivate_sync :: "ipa_env \<Rightarrow> nat \<Rightarrow> ipa \<Rightarrow> (rc \<times> ipa) outcome" where
  "ipa_pm_deactivate_sync e h s =
     (case pm s of
        None \<Rightarrow> Ret (Err EINVAL, s)
      | Some p \<Rightarrow>
          if IPA_PM_MAX_CLIENTS \<le> h then Ret (Err EINVAL, s)
          else case clients p h of
            None \<Rightarrow> Ret (Err EINVAL, s)
          | Some c \<Rightarrow>
              let s1 = cancel_deactivate_work h s in
              if STATE_IN_PROGRESS (cl_state c) \<and> \<not> cl_complete c then Blocked
              else if cl_state c = DEACTIVATED then Ret (OK, s1)
              else
                let s2 = pm_devote e 1199 h c s1;
                    s3 = set_state h DEACTIVATED s2;
                    s4 = cancel_deactivate_work h s3;
                    s5 = deactivate_client h s4
                in Ret (OK, do_clk_scaling e s5))"

section \<open>Wake-up and throughput\<close>

definition suspend_pipe ::
  "u32 \<Rightarrow> nat \<Rightarrow> (nat \<Rightarrow> bool) \<times> ipa \<Rightarrow> (nat \<Rightarrow> bool) \<times> ipa" where
  "suspend_pipe bm i st =
     (let (notified, s) = st in
      if bm AND bit_of i \<noteq> 0 then
        case pm s of
          None \<Rightarrow> (notified, fault NullDeref s)
        | Some p \<Rightarrow>
            (case clients_by_pipe p i of
               None \<Rightarrow> st
             | Some h \<Rightarrow>
                 (case clients p h of
                    None \<Rightarrow> (notified, fault UseAfterFree s)
                  | Some c \<Rightarrow>
                      if notified (cl_hdl c) then st
                      else if cl_callback c then
                        (notified(cl_hdl c := True), emit (PmCallback (cl_hdl c) REQUEST_WAKEUP) s)
                      else (notified, fault WarnNoCallback s)))
      else st)"

definition ipa_pm_handle_suspend :: "u32 \<Rightarrow> ipa \<Rightarrow> rc \<times> ipa" where
  "ipa_pm_handle_suspend bm s =
     (if pm s = None then (Err EINVAL, s)
      else if bm = 0 then (OK, s)
      else (OK, snd (foldl (\<lambda>st i. suspend_pipe bm i st) (\<lambda>h. False, s) [0..<IPA3_MAX_NUM_PIPES])))"

definition ipa_pm_set_throughput :: "ipa_env \<Rightarrow> nat \<Rightarrow> int \<Rightarrow> ipa \<Rightarrow> rc \<times> ipa" where
  "ipa_pm_set_throughput e h tput s =
     (case pm s of
        None \<Rightarrow> (Err EINVAL, s)
      | Some p \<Rightarrow>
          if IPA_PM_MAX_CLIENTS \<le> h then (Err EINVAL, s)
          else case clients p h of
            None \<Rightarrow> (Err EINVAL, s)
          | Some c \<Rightarrow>
              if tput < 0 then (Err EINVAL, s)
              else
                let s1 = (if cl_group c = GROUP_DEFAULT
                          then upd_client h (\<lambda>c. c\<lparr>cl_throughput := tput\<rparr>) s
                          else upd_pm (\<lambda>p. p\<lparr>group_tput := (group_tput p)(cl_group c := tput)\<rparr>) s)
                in if STATE_ACTIVE (cl_state c) \<or> cl_group c \<noteq> GROUP_DEFAULT
                   then (OK, do_clk_scaling e s1) else (OK, s1))"

section \<open>The debugfs texts\<close>

definition print_pieces :: "nat \<Rightarrow> string list \<Rightarrow> string" where
  "print_pieces sz ts = foldl (\<lambda>buf t. buf @ scnprintf (sz - length buf) t) [] ts"

definition nl :: string where "nl = [CHR 0x0A]"
definition bs2 :: string where "bs2 = [CHR 0x08, CHR 0x08]"

fun state_to_str :: "pm_state \<Rightarrow> string" where
  "state_to_str DEACTIVATED = ''IPA_PM_DEACTIVATED''"
| "state_to_str DEACTIVATE_IN_PROGRESS = ''IPA_PM_DEACTIVATE_IN_PROGRESS''"
| "state_to_str ACTIVATE_IN_PROGRESS = ''IPA_PM_ACTIVATE_IN_PROGRESS''"
| "state_to_str ACTIVATED = ''IPA_PM_ACTIVATED''"
| "state_to_str ACTIVATED_PENDING_DEACTIVATION = ''IPA_PM_ACTIVATED_PENDING_DEACTIVATION''"
| "state_to_str ACTIVATED_TIMER_SET = ''IPA_PM_ACTIVATED_TIMER_SET''"
| "state_to_str ACTIVATED_PENDING_RESCHEDULE = ''IPA_PM_ACTIVATED_PENDING_RESCHEDULE''"

fun group_to_str :: "pm_group \<Rightarrow> string" where
  "group_to_str GROUP_DEFAULT = ''IPA_PM_GROUP_DEFAULT''"
| "group_to_str GROUP_APPS = ''IPA_PM_GROUP_APPS''"
| "group_to_str GROUP_MODEM = ''IPA_PM_GROUP_MODEM''"

definition client_text :: "pm_ctx \<Rightarrow> nat \<Rightarrow> string list" where
  "client_text p i =
     (case clients p i of
        None \<Rightarrow> []
      | Some c \<Rightarrow>
          let tput = (if cl_group c = GROUP_DEFAULT then cl_throughput c else group_tput p (cl_group c))
          in [''Client['' @ show_nat i @ '']: '' @ cl_name c @ '' State:'' @ state_to_str (cl_state c) @ nl @
              ''Group: '' @ group_to_str (cl_group c) @ '' Throughput: '' @ show_int tput @ '' Pipes: ''] @
             map (\<lambda>j. show_nat j @ '', '') [j \<leftarrow> [0..<IPA3_MAX_NUM_PIPES]. clients_by_pipe p j = Some i] @
             [bs2 @ nl @ nl])"

text \<open>\<open>ipa_pm_stat\<close>; \<open>buf\<close> says whether the buffer pointer is not NULL. The text it wrote is the result.\<close>

definition ipa_pm_stat :: "bool \<Rightarrow> int \<Rightarrow> ipa \<Rightarrow> (errno + string) \<times> ipa" where
  "ipa_pm_stat buf sz s =
     (if \<not> buf \<or> sz < 0 then (Inl EINVAL, s)
      else case pm s of
        None \<Rightarrow> (Inr [], fault NullDeref s)
      | Some p \<Rightarrow>
          let d = clk_scaling p in
          if threshold_array (current_threshold d) d = None \<and> 0 < threshold_size d
          then (Inr [], fault NullDeref s)
          else
            let ths = (case threshold_array (current_threshold d) d of None \<Rightarrow> [] | Some t \<Rightarrow> t) in
              (Inr (print_pieces (nat sz)
                ([nl @ nl @ ''Current threshold: [''] @
                 map (\<lambda>i. show_int (ths ! i) @ '', '') [0..<threshold_size d] @
                 [bs2 @ '']'' @ nl,
                  ''Aggregated tput: '' @ show_int (aggregated_tput p) @ '', Cur vote: '' @ show_int (cur_vote d),
                  nl @ nl @ ''Registered Clients:'' @ nl] @
                 concat (map (client_text p) [1..<IPA_PM_MAX_CLIENTS]))), s))"

definition exception_text :: "nat \<Rightarrow> nat \<Rightarrow> pm_exception \<Rightarrow> string list" where
  "exception_text n i x =
     [''Exception '' @ show_nat i @ '': '' @ ex_clients x @ nl @ ''Pending: '' @ show_int (ex_pending x) @
      '' Bitmask: '' @ show_int (sint (ex_bitmask x)) @ '' Threshold: [''] @
     map (\<lambda>j. show_int (ex_threshold x ! j) @ '', '') [0..<n] @ [bs2 @ '']'' @ nl @ nl]"

definition ipa_pm_exceptions_stat :: "bool \<Rightarrow> int \<Rightarrow> ipa \<Rightarrow> (errno + string) \<times> ipa" where
  "ipa_pm_exceptions_stat buf sz s =
     (if \<not> buf \<or> sz < 0 then (Inl EINVAL, s)
      else case pm s of
        None \<Rightarrow> (Inr [], fault NullDeref s)
      | Some p \<Rightarrow>
          let d = clk_scaling p in
          (Inr (print_pieces (nat sz)
            (nl # concat (map (\<lambda>i. exception_text (threshold_size d) i (exception_list d ! i))
                           [0..<exception_size d]))), s))"

end
