(* ===== verification/Ipa_Pm_Inv.thy ===== *)
theory Ipa_Pm_Inv
  imports Ipa_Pm
begin

text \<open>
  The invariant of the power manager. The part of the state that the operations change is
  projected to a \<open>pm_core\<close>; simplification rules compute the core, the votes and the faults of
  every operation, one lemma moves a single client, and each operation is then an instance.
\<close>

section \<open>The core of the state\<close>

record pm_core =
  co_clients :: "nat \<Rightarrow> pm_client option"
  co_pipes :: "nat \<Rightarrow> nat option"
  co_mask :: u32
  co_exceptions :: "pm_exception list"

definition core_of_pm :: "pm_ctx \<Rightarrow> pm_core" where
  "core_of_pm p =
     \<lparr>co_clients = clients p, co_pipes = clients_by_pipe p,
      co_mask = active_client_bitmask (clk_scaling p),
      co_exceptions = take (exception_size (clk_scaling p)) (exception_list (clk_scaling p))\<rparr>"

definition core_of :: "ipa \<Rightarrow> pm_core option" where
  "core_of s = map_option core_of_pm (pm s)"

lemma core_of_reset [simp]: "core_of_pm (reset_vote p) = core_of_pm p"
  by (simp add: core_of_pm_def reset_vote_def)

lemma core_of_Some: "core_of s = Some k \<longleftrightarrow> (\<exists>p. pm s = Some p \<and> core_of_pm p = k)"
  by (auto simp: core_of_def)

lemma get_client_core: "core_of s = Some k \<Longrightarrow> get_client h s = co_clients k h"
  by (auto simp: core_of_def core_of_pm_def get_client_def)

text \<open>The clock operations, through the laws of the clock interface.\<close>

lemma user_view_core: "user_view s' = user_view s \<Longrightarrow> core_of s' = core_of s \<and> bugs s' = bugs s"
proof -
  assume "user_view s' = user_view s"
  then have b: "bugs s' = bugs s" and p: "map_option reset_vote (pm s') = map_option reset_vote (pm s)"
    by (auto simp: user_view_def)
  have "core_of s = map_option core_of_pm (map_option reset_vote (pm s))" for s
    by (simp add: core_of_def option.map_comp o_def)
  then show ?thesis using b p by metis
qed

lemma inc_core [simp]:
  assumes "clk_inv s"
  shows "clk_inv (inc_client_enable_clks e li s)"
    "clk_votes (inc_client_enable_clks e li s) = clk_votes s + 1"
    "core_of (inc_client_enable_clks e li s) = core_of s" "bugs (inc_client_enable_clks e li s) = bugs s"
  using clk.inc_law [OF assms, of e li] user_view_core [of "inc_client_enable_clks e li s" s] by auto

lemma dec_core [simp]:
  assumes "clk_inv s" "1 \<le> clk_votes s"
  shows "clk_inv (dec_client_disable_clks e li s)"
    "clk_votes (dec_client_disable_clks e li s) = clk_votes s - 1"
    "core_of (dec_client_disable_clks e li s) = core_of s" "bugs (dec_client_disable_clks e li s) = bugs s"
  using clk.dec_law [OF assms, of e li] user_view_core [of "dec_client_disable_clks e li s" s] by auto

lemma nb_core:
  assumes "clk_inv s" "inc_client_enable_clks_no_block e li s = (OK, s')"
  shows "clk_inv s'" "clk_votes s' = clk_votes s + 1" "core_of s' = core_of s" "bugs s' = bugs s"
  using clk.nb_law [OF assms] user_view_core [of s' s] by auto

text \<open>The small steps of the power manager.\<close>

lemma emit_core [simp]:
  "core_of (emit ev s) = core_of s" "clk_votes (emit ev s) = clk_votes s" "bugs (emit ev s) = bugs s"
  "gate_step (gate_run (events s)) ev = gate_run (events s) \<Longrightarrow> clk_inv s \<Longrightarrow> clk_inv (emit ev s)"
  by (auto simp: emit_def core_of_def clk_votes_def bugs_def clk_inv_def)

lemma upd_pm_core [simp]:
  "clk_inv (upd_pm f s) = clk_inv s" "clk_votes (upd_pm f s) = clk_votes s" "bugs (upd_pm f s) = bugs s"
  by (auto simp: upd_pm_def clk_inv_def clk_votes_def)

lemma upd_scaling_core [simp]:
  "clk_inv (upd_scaling f s) = clk_inv s" "clk_votes (upd_scaling f s) = clk_votes s"
  "bugs (upd_scaling f s) = bugs s"
  by (simp_all add: upd_scaling_def)

lemma client_bit_core [simp]:
  "clk_inv (activate_client h s) = clk_inv s" "clk_votes (activate_client h s) = clk_votes s"
  "bugs (activate_client h s) = bugs s"
  "core_of (activate_client h s) = map_option (\<lambda>k. k\<lparr>co_mask := co_mask k OR bit_of h\<rparr>) (core_of s)"
  "clk_inv (deactivate_client h s) = clk_inv s" "clk_votes (deactivate_client h s) = clk_votes s"
  "bugs (deactivate_client h s) = bugs s"
  "core_of (deactivate_client h s) =
     map_option (\<lambda>k. k\<lparr>co_mask := co_mask k AND NOT (bit_of h)\<rparr>) (core_of s)"
  by (auto simp: activate_client_def deactivate_client_def)
     (auto simp: core_of_def core_of_pm_def upd_scaling_def upd_pm_def option.map_comp o_def)

lemma upd_client_core [simp]:
  assumes "core_of s = Some k" "co_clients k h = Some c"
  shows "core_of (upd_client h f s) = Some (k\<lparr>co_clients := (co_clients k)(h \<mapsto> f c)\<rparr>)"
    "clk_inv (upd_client h f s) = clk_inv s" "clk_votes (upd_client h f s) = clk_votes s"
    "bugs (upd_client h f s) = bugs s"
  using assms get_client_core [OF assms(1), of h]
  by (auto simp: upd_client_def core_of_Some) (auto simp: upd_pm_def core_of_pm_def)

lemma scaling_work_core [simp]:
  "core_of (upd_scaling (\<lambda>d. d\<lparr>scaling_work := b\<rparr>) s) = core_of s"
  "core_of (upd_scaling (\<lambda>d. d\<lparr>cur_vote := v\<rparr>) s) = core_of s"
  by (cases "pm s"; simp add: core_of_def core_of_pm_def upd_scaling_def upd_pm_def)+

lemma set_current_threshold_core [simp]:
  "active_client_bitmask (set_current_threshold d) = active_client_bitmask d"
  "exception_list (set_current_threshold d) = exception_list d"
  "exception_size (set_current_threshold d) = exception_size d"
  "threshold_size (set_current_threshold d) = threshold_size d"
  by (simp_all add: set_current_threshold_def)

lemma first_exception_not_null: "first_exception a xs i \<noteq> ThNull"
  by (induction xs arbitrary: i) auto

lemma set_current_threshold_valid:
  "threshold_array (current_threshold (set_current_threshold d)) (set_current_threshold d) \<noteq> None"
  using first_exception_not_null
  by (cases "current_threshold (set_current_threshold d)") (auto simp: set_current_threshold_def)

lemma do_clk_scaling_core [simp]:
  assumes "clk_inv s" "core_of s = Some k"
  shows "clk_inv (do_clk_scaling e s)" "clk_votes (do_clk_scaling e s) = clk_votes s"
    "core_of (do_clk_scaling e s) = Some k" "bugs (do_clk_scaling e s) = bugs s"
proof -
  obtain p where p: "pm s = Some p" "core_of_pm p = k" using assms(2) by (auto simp: core_of_Some)
  define d where "d = set_current_threshold (clk_scaling p)"
  define s1 where "s1 = s\<lparr>pm := Some (p\<lparr>aggregated_tput := calculate_throughput p, clk_scaling := d\<rparr>)\<rparr>"
  obtain ths where ths: "threshold_array (current_threshold d) d = Some ths"
    using set_current_threshold_valid [of "clk_scaling p"] by (auto simp: d_def)
  define idx where "idx = threshold_idx (calculate_throughput p) ths (threshold_size d)"
  define s2 where "s2 = upd_scaling (\<lambda>d. d\<lparr>cur_vote := idx\<rparr>) s1"
  have s1: "clk_inv s1" "clk_votes s1 = clk_votes s" "bugs s1 = bugs s" "core_of s1 = Some k"
    using assms(1) p(2) by (auto simp: s1_def clk_inv_def clk_votes_def core_of_def core_of_pm_def d_def)
  have s2: "clk_inv s2" "clk_votes s2 = clk_votes s" "bugs s2 = bugs s" "core_of s2 = Some k"
    using s1 by (auto simp: s2_def)
  have plan: "clk_step_ok 0 s2 (snd (set_clock_plan_from_pm e idx s2))"
    "pm (snd (set_clock_plan_from_pm e idx s2)) = pm s2"
    using set_clock_plan_ok [OF s2(1), of e idx] by auto
  have eq: "do_clk_scaling e s =
     (if ipa_clk_vote s = 0 then s
      else if cur_vote d \<noteq> idx then snd (set_clock_plan_from_pm e idx s2) else s1)"
    by (simp add: do_clk_scaling_def p(1) Let_def d_def [symmetric] ths idx_def s1_def s2_def)
  show "clk_inv (do_clk_scaling e s)" "clk_votes (do_clk_scaling e s) = clk_votes s"
    "core_of (do_clk_scaling e s) = Some k" "bugs (do_clk_scaling e s) = bugs s"
    using assms s1 s2 plan by (auto simp: eq clk_step_ok_def core_of_def)
qed

lemma pm_vote_core [simp]:
  assumes "clk_inv s" "core_of s = Some k" "co_clients k h = Some c'"
  shows "clk_inv (pm_vote e line h c s)"
    "clk_votes (pm_vote e line h c s) = clk_votes s + of_bool (\<not> cl_skip_clk_vote c)"
    "bugs (pm_vote e line h c s) = bugs s"
    "core_of (pm_vote e line h c s) =
       Some (if \<not> cl_skip_clk_vote c \<and> cl_group c = GROUP_APPS
             then k\<lparr>co_clients := (co_clients k)(h \<mapsto> c'\<lparr>cl_wlock_held := cl_wlock c'\<rparr>)\<rparr> else k)"
  using assms by (auto simp: pm_vote_def pm_stay_awake_def Let_def)

lemma pm_devote_core [simp]:
  assumes "clk_inv s" "core_of s = Some k" "co_clients k h = Some c'"
    "\<not> cl_skip_clk_vote c \<longrightarrow> 1 \<le> clk_votes s"
  shows "clk_inv (pm_devote e line h c s)"
    "clk_votes (pm_devote e line h c s) = clk_votes s - of_bool (\<not> cl_skip_clk_vote c)"
    "bugs (pm_devote e line h c s) = bugs s"
    "core_of (pm_devote e line h c s) =
       Some (if \<not> cl_skip_clk_vote c \<and> cl_group c = GROUP_APPS
             then k\<lparr>co_clients := (co_clients k)(h \<mapsto> c'\<lparr>cl_wlock_held := False\<rparr>)\<rparr> else k)"
  using assms by (auto simp: pm_devote_def pm_relax_def Let_def)

lemmas client_steps = set_state_def cancel_deactivate_work_def queue_deactivate_work_def
  pm_stay_awake_def pm_relax_def

section \<open>The invariant\<close>

fun timer_state :: "pm_state \<Rightarrow> bool" where
  "timer_state ACTIVATED_PENDING_DEACTIVATION = True"
| "timer_state ACTIVATED_TIMER_SET = True"
| "timer_state ACTIVATED_PENDING_RESCHEDULE = True"
| "timer_state _ = False"

definition voting :: "pm_client \<Rightarrow> bool" where
  "voting c \<longleftrightarrow> STATE_ACTIVE (cl_state c) \<and> \<not> cl_skip_clk_vote c"

text \<open>
  One client: its handle is its slot; the timer runs exactly in the timer states; it is in
  progress exactly while its work is queued or a thread activates it synchronously; the wake
  source of a voting APPS client is held exactly while it is active.
\<close>

definition client_inv :: "nat \<Rightarrow> pm_client \<Rightarrow> bool" where
  "client_inv h c \<longleftrightarrow>
     cl_hdl c = h \<and> 1 \<le> h \<and> h < IPA_PM_MAX_CLIENTS \<and> length (cl_name c) < IPA_PM_MAX_EX_CL \<and> cl_wlock c \<and>
     (cl_deactivate_work c \<longleftrightarrow> timer_state (cl_state c)) \<and>
     (STATE_IN_PROGRESS (cl_state c) \<longleftrightarrow> cl_activate_work c \<or> cl_sync_inflight c) \<and>
     \<not> (cl_activate_work c \<and> cl_sync_inflight c) \<and>
     (cl_activate_work c \<longrightarrow> \<not> cl_complete c) \<and>
     (cl_activate_work c \<or> cl_sync_inflight c \<longrightarrow> \<not> cl_skip_clk_vote c) \<and>
     (\<not> cl_skip_clk_vote c \<longrightarrow> (cl_wlock_held c \<longleftrightarrow> STATE_ACTIVE (cl_state c) \<and> cl_group c = GROUP_APPS))"

text \<open>One exception: its mask names the registered client of its name, its count the missing ones.\<close>

definition exception_inv :: "(nat \<Rightarrow> pm_client option) \<Rightarrow> pm_exception \<Rightarrow> bool" where
  "exception_inv cl x \<longleftrightarrow>
     (\<forall>h. bit (ex_bitmask x) h \<longleftrightarrow> (\<exists>c. cl h = Some c \<and> cl_name c = ex_clients x)) \<and>
     ex_pending x = count_commas (ex_clients x) + 1 -
       (if \<exists>h c. cl h = Some c \<and> cl_name c = ex_clients x then 1 else 0)"

definition core_inv :: "pm_core \<Rightarrow> bool" where
  "core_inv k \<longleftrightarrow>
     (\<forall>h c. co_clients k h = Some c \<longrightarrow> client_inv h c) \<and>
     (\<forall>h. bit (co_mask k) h \<longleftrightarrow> (\<exists>c. co_clients k h = Some c \<and> STATE_ACTIVE (cl_state c))) \<and>
     (\<forall>i h. co_pipes k i = Some h \<longrightarrow> i < IPA3_MAX_NUM_PIPES \<and> co_clients k h \<noteq> None) \<and>
     (\<forall>h h' c c'. co_clients k h = Some c \<longrightarrow> co_clients k h' = Some c' \<longrightarrow>
        cl_name c = cl_name c' \<longrightarrow> h = h') \<and>
     (\<forall>x \<in> set (co_exceptions k). exception_inv (co_clients k) x)"

definition core_votes :: "pm_core \<Rightarrow> int" where
  "core_votes k = count_below IPA_PM_MAX_CLIENTS
     (\<lambda>h. case co_clients k h of None \<Rightarrow> False | Some c \<Rightarrow> voting c)"

definition pm_inv :: "ipa \<Rightarrow> bool" where
  "pm_inv s \<longleftrightarrow> clk_inv s \<and> bugs s = [] \<and>
     (\<exists>k. core_of s = Some k \<and> core_inv k \<and> core_votes k \<le> clk_votes s)"

text \<open>The votes that the clients of the power manager do not account for.\<close>

definition other_votes :: "ipa \<Rightarrow> int" where
  "other_votes s = clk_votes s - (case core_of s of None \<Rightarrow> 0 | Some k \<Rightarrow> core_votes k)"

text \<open>An operation is accounted for: it keeps the invariant and the votes of the others.\<close>

definition pm_step_ok :: "ipa \<Rightarrow> ipa \<Rightarrow> bool" where
  "pm_step_ok s s' \<longleftrightarrow> pm_inv s' \<and> other_votes s' = other_votes s"

lemma pm_invE:
  assumes "pm_inv s"
  obtains k where "clk_inv s" "bugs s = []" "core_of s = Some k" "core_inv k" "core_votes k \<le> clk_votes s"
  using assms by (auto simp: pm_inv_def)

lemma pm_step_okI:
  assumes "core_of s = Some k" "core_votes k \<le> clk_votes s" "bugs s = []"
    "clk_inv s'" "bugs s' = bugs s" "core_of s' = Some k'" "core_inv k'"
    "clk_votes s' = clk_votes s + d" "core_votes k' = core_votes k + d"
  shows "pm_step_ok s s'"
  using assms by (auto simp: pm_step_ok_def pm_inv_def other_votes_def)

section \<open>Moving one client\<close>

lemma core_move:
  assumes inv: "core_inv k" and c: "co_clients k h = Some c"
    and c': "client_inv h c'" "cl_name c' = cl_name c"
    and m: "\<And>i. bit m i \<longleftrightarrow> (if i = h then STATE_ACTIVE (cl_state c') else bit (co_mask k) i)"
    and k': "k' = k\<lparr>co_clients := (co_clients k)(h \<mapsto> c'), co_mask := m\<rparr>"
  shows "core_inv k'" "core_votes k' = core_votes k + (of_bool (voting c') - of_bool (voting c))"
proof -
  have names: "(\<exists>ca. (if i = h then Some c' else co_clients k i) = Some ca \<and> cl_name ca = n) \<longleftrightarrow>
     (\<exists>ca. co_clients k i = Some ca \<and> cl_name ca = n)" for i n
    using c c'(2) by auto
  then have "exception_inv ((co_clients k)(h \<mapsto> c')) x = exception_inv (co_clients k) x" for x
    by (simp add: exception_inv_def fun_upd_def)
  then show "core_inv k'"
    using inv c c' m unfolding k' core_inv_def by (simp add: fun_upd_def) metis
  have h: "h < IPA_PM_MAX_CLIENTS" using c'(1) by (simp add: client_inv_def)
  let ?P = "\<lambda>i. case co_clients k i of None \<Rightarrow> False | Some c \<Rightarrow> voting c"
  let ?Q = "\<lambda>i. case co_clients k' i of None \<Rightarrow> False | Some c \<Rightarrow> voting c"
  have same: "?Q i = ?P i" if "i \<noteq> h" for i using that by (simp add: k')
  have at: "?P h = voting c" "?Q h = voting c'" using c by (simp_all add: k')
  show "core_votes k' = core_votes k + (of_bool (voting c') - of_bool (voting c))"
  proof (cases "voting c = voting c'")
    case True
    then have "?Q i = ?P i" for i using same at by (cases "i = h") auto
    with True show ?thesis by (simp add: core_votes_def)
  next
    case False
    with h same at count_below_flip_on [of h IPA_PM_MAX_CLIENTS ?P ?Q]
      count_below_flip_off [of h IPA_PM_MAX_CLIENTS ?P ?Q] show ?thesis
      by (cases "voting c") (auto simp: core_votes_def)
  qed
qed

lemma core_voting_pos:
  assumes "core_inv k" "co_clients k h = Some c" "voting c"
  shows "1 \<le> core_votes k"
  using assms unfolding core_votes_def
  by (intro count_below_pos [of h]) (auto simp: core_inv_def client_inv_def)

lemma core_inv_client: "core_inv k \<Longrightarrow> co_clients k h = Some c \<Longrightarrow> client_inv h c"
  by (simp add: core_inv_def)

lemma core_inv_mask:
  "core_inv k \<Longrightarrow> co_clients k h = Some c \<Longrightarrow> bit (co_mask k) h \<longleftrightarrow> STATE_ACTIVE (cl_state c)"
  by (simp add: core_inv_def)

text \<open>The rule that every operation on a single client instantiates.\<close>

lemma pm_moveI:
  assumes inv: "clk_inv s" "bugs s = []" "core_of s = Some k" "core_inv k" "core_votes k \<le> clk_votes s"
    and c: "co_clients k h = Some c"
    and s': "clk_inv s'" "bugs s' = bugs s" "core_of s' = Some k'"
      "clk_votes s' = clk_votes s + (of_bool (voting c') - of_bool (voting c))"
    and k': "co_clients k' = (co_clients k)(h \<mapsto> c')" "co_pipes k' = co_pipes k"
      "co_exceptions k' = co_exceptions k"
    and m: "if STATE_ACTIVE (cl_state c') then co_mask k' = co_mask k OR bit_of h
              \<or> co_mask k' = co_mask k \<and> STATE_ACTIVE (cl_state c)
            else co_mask k' = co_mask k AND NOT (bit_of h) \<or> co_mask k' = co_mask k \<and> \<not> STATE_ACTIVE (cl_state c)"
    and c': "client_inv h c'" "cl_name c' = cl_name c"
  shows "pm_step_ok s s'"
proof -
  have h: "h < 32" using c'(1) by (simp add: client_inv_def pm_consts)
  have bit: "bit (co_mask k) h \<longleftrightarrow> STATE_ACTIVE (cl_state c)" using core_inv_mask [OF inv(4) c] .
  have mask: "bit (co_mask k') i \<longleftrightarrow> (if i = h then STATE_ACTIVE (cl_state c') else bit (co_mask k) i)" for i
    using m h bit by (cases "STATE_ACTIVE (cl_state c')") (auto simp: mask_simps)
  have eq: "k' = k\<lparr>co_clients := (co_clients k)(h \<mapsto> c'), co_mask := co_mask k'\<rparr>"
    using k' by (intro pm_core.equality) auto
  note move = core_move [OF inv(4) c c' mask eq]
  show ?thesis
    by (rule pm_step_okI [OF inv(3,5,2) s'(1,2,3) move(1) s'(4) move(2)])
qed

lemma pm_step_ok_refl: "pm_inv s \<Longrightarrow> pm_step_ok s s"
  by (simp add: pm_step_ok_def)

lemma pm_step_ok_trans: "pm_step_ok s t \<Longrightarrow> pm_step_ok t u \<Longrightarrow> pm_step_ok s u"
  by (simp add: pm_step_ok_def)

lemma pm_step_ok_same:
  assumes "pm_inv s" "clk_inv s'" "clk_votes s' = clk_votes s" "bugs s' = bugs s" "core_of s' = core_of s"
  shows "pm_step_ok s s'"
  using assms by (simp add: pm_step_ok_def pm_inv_def other_votes_def)

section \<open>The operations keep the invariant\<close>

lemma upd_client_ok:
  assumes inv: "pm_inv s" "get_client h s = Some c"
    and f: "client_inv h (f c)" "cl_name (f c) = cl_name c"
      "STATE_ACTIVE (cl_state (f c)) = STATE_ACTIVE (cl_state c)" "voting (f c) = voting c"
  shows "pm_step_ok s (upd_client h f s)"
proof -
  obtain k where k: "clk_inv s" "bugs s = []" "core_of s = Some k" "core_inv k" "core_votes k \<le> clk_votes s"
    using inv(1) by (rule pm_invE)
  have c: "co_clients k h = Some c" using inv(2) get_client_core [OF k(3)] by simp
  show ?thesis
    by (rule pm_moveI [OF k c, where c' = "f c" and k' = "k\<lparr>co_clients := (co_clients k)(h \<mapsto> f c)\<rparr>"])
       (use k c f in simp_all)
qed

lemma emit_ok:
  assumes "pm_step_ok s t" "gate_step (gate_run (events t)) ev = gate_run (events t)"
  shows "pm_step_ok s (emit ev t)"
  using assms by (auto simp: pm_step_ok_def pm_inv_def other_votes_def)

lemma pm_inv_client:
  assumes "pm_inv s" "get_client h s = Some c"
  shows "client_inv h c" "h < IPA_PM_MAX_CLIENTS"
proof -
  obtain k where k: "core_of s = Some k" "core_inv k" using assms(1) by (auto simp: pm_inv_def)
  then show "client_inv h c" using assms(2) get_client_core [OF k(1)] core_inv_client [OF k(2)] by simp
  then show "h < IPA_PM_MAX_CLIENTS" by (simp add: client_inv_def)
qed

lemma pm_inv_pm: "pm_inv s \<Longrightarrow> \<exists>p. pm s = Some p"
  by (auto simp: pm_inv_def core_of_def)

text \<open>
  What no operation changes in a registered client, and the states in which its vote stays until
  it asks otherwise.
\<close>

definition fixed_part :: "pm_client \<Rightarrow> string \<times> bool \<times> bool \<times> bool" where
  "fixed_part c = (cl_name c, cl_skip_clk_vote c, cl_sync_inflight c, cl_callback c)"

fun calm :: "pm_state \<Rightarrow> bool" where
  "calm ACTIVATED = True"
| "calm ACTIVATED_TIMER_SET = True"
| "calm _ = False"

lemma fixed_part_upd [simp]:
  "fixed_part (c\<lparr>cl_state := st\<rparr>) = fixed_part c" "fixed_part (c\<lparr>cl_wlock_held := b\<rparr>) = fixed_part c"
  "fixed_part (c\<lparr>cl_deactivate_work := b\<rparr>) = fixed_part c" "fixed_part (c\<lparr>cl_complete := b\<rparr>) = fixed_part c"
  "fixed_part (c\<lparr>cl_activate_work := b\<rparr>) = fixed_part c"
  by (simp_all add: fixed_part_def)

text \<open>Operations that first look the client up.\<close>

lemma deferred_deactivate_ok:
  assumes inv: "pm_inv s"
  shows "pm_step_ok s (snd (ipa_pm_deferred_deactivate h s))"
proof -
  obtain p where p: "pm s = Some p" using pm_inv_pm [OF inv] by blast
  show ?thesis
  proof (cases "IPA_PM_MAX_CLIENTS \<le> h \<or> get_client h s = None")
    case True
    then show ?thesis
      using inv p by (auto simp: ipa_pm_deferred_deactivate_def pm_step_ok_refl get_client_def split: option.split)
  next
    case False
    then obtain c where h: "\<not> IPA_PM_MAX_CLIENTS \<le> h" and c: "get_client h s = Some c" by auto
    have cl: "clients p h = Some c" using c p by (simp add: get_client_def)
    note ci = pm_inv_client [OF inv c]
    have st: "pm_step_ok s (set_state h st s)"
      if "timer_state st = timer_state (cl_state c)" "STATE_IN_PROGRESS st = STATE_IN_PROGRESS (cl_state c)"
        "STATE_ACTIVE st = STATE_ACTIVE (cl_state c)" for st
      unfolding set_state_def
      by (rule upd_client_ok [OF inv c]) (use that ci in \<open>auto simp: client_inv_def voting_def\<close>)
    have timer: "pm_step_ok s (queue_deactivate_work h (set_state h ACTIVATED_PENDING_DEACTIVATION s))"
      if "cl_state c = ACTIVATED"
    proof -
      have eq: "upd_client h (\<lambda>c. c\<lparr>cl_deactivate_work := True\<rparr>) (set_state h ACTIVATED_PENDING_DEACTIVATION s) =
        upd_client h (\<lambda>c. c\<lparr>cl_state := ACTIVATED_PENDING_DEACTIVATION, cl_deactivate_work := True\<rparr>) s"
        using c p by (simp add: set_state_def upd_client_def get_client_def upd_pm_def)
      have "pm_step_ok s (upd_client h (\<lambda>c. c\<lparr>cl_state := ACTIVATED_PENDING_DEACTIVATION, cl_deactivate_work := True\<rparr>) s)"
        by (rule upd_client_ok [OF inv c]) (use that ci in \<open>auto simp: client_inv_def voting_def\<close>)
      then show ?thesis unfolding queue_deactivate_work_def eq by (rule emit_ok) simp
    qed
    show ?thesis
      using h p cl st timer pm_step_ok_refl [OF inv]
      by (cases "cl_state c") (simp_all add: ipa_pm_deferred_deactivate_def)
  qed
qed

definition activated_client :: "pm_client \<Rightarrow> pm_client" where
  "activated_client c = c\<lparr>cl_state := ACTIVATED,
     cl_wlock_held := if cl_group c = GROUP_APPS then cl_wlock c else cl_wlock_held c\<rparr>"

lemma got_clocks_core [simp]:
  assumes "clk_inv s" "core_of s = Some k" "co_clients k h = Some c"
  shows "clk_inv (got_clocks e sync h s)" "clk_votes (got_clocks e sync h s) = clk_votes s"
    "bugs (got_clocks e sync h s) = bugs s"
    "core_of (got_clocks e sync h s) =
       Some (k\<lparr>co_clients := (co_clients k)(h \<mapsto> activated_client c), co_mask := co_mask k OR bit_of (cl_hdl c)\<rparr>)"
proof -
  have c: "get_client h s = Some c" using assms get_client_core by simp
  have act: "activated_client c = c\<lparr>cl_state := ACTIVATED, cl_wlock_held := cl_wlock c\<rparr>" if "cl_group c = GROUP_APPS"
    using that by (simp add: activated_client_def)
  have act': "activated_client c = c\<lparr>cl_state := ACTIVATED\<rparr>" if "cl_group c \<noteq> GROUP_APPS"
    using that by (simp add: activated_client_def)
  show "clk_inv (got_clocks e sync h s)" "clk_votes (got_clocks e sync h s) = clk_votes s"
    "bugs (got_clocks e sync h s) = bugs s"
    "core_of (got_clocks e sync h s) =
       Some (k\<lparr>co_clients := (co_clients k)(h \<mapsto> activated_client c), co_mask := co_mask k OR bit_of (cl_hdl c)\<rparr>)"
    using assms c act act' by (auto simp: got_clocks_def Let_def client_steps)
qed

lemma timer_active: "timer_state st \<Longrightarrow> STATE_ACTIVE st"
  by (cases st) auto

lemma got_clocks_moves:
  assumes k: "clk_inv s" "bugs s = []" "core_of s = Some k" "core_inv k" "core_votes k \<le> clk_votes s"
    and c: "co_clients k h = Some c" "\<not> STATE_ACTIVE (cl_state c)" "\<not> cl_activate_work c"
    and t: "clk_inv t" "bugs t = bugs s" "core_of t = Some (k\<lparr>co_clients := (co_clients k)(h \<mapsto> c\<lparr>cl_sync_inflight := False\<rparr>)\<rparr>)"
      "clk_votes t = clk_votes s + of_bool (\<not> cl_skip_clk_vote c)"
  shows "pm_step_ok s (got_clocks e sync h t)"
proof -
  let ?c = "c\<lparr>cl_sync_inflight := False\<rparr>"
  let ?c' = "activated_client ?c"
  have ci: "client_inv h c" by (rule core_inv_client [OF k(4) c(1)])
  have at: "co_clients (k\<lparr>co_clients := (co_clients k)(h \<mapsto> ?c)\<rparr>) h = Some ?c" by simp
  note g = got_clocks_core [OF t(1,3) at, of e sync]
  have hd: "cl_hdl ?c = h" using ci by (simp add: client_inv_def)
  have core: "core_of (got_clocks e sync h t) =
      Some (k\<lparr>co_clients := (co_clients k)(h \<mapsto> ?c'), co_mask := co_mask k OR bit_of h\<rparr>)"
    using g(4) hd by simp
  have ci': "client_inv h ?c'"
    using ci c(2,3) timer_active [of "cl_state c"] by (auto simp: client_inv_def activated_client_def)
  show ?thesis
  proof (rule pm_moveI [OF k c(1) g(1) _ core, where c' = ?c'])
    show "bugs (got_clocks e sync h t) = bugs s" using g(3) t(2) by simp
    show "clk_votes (got_clocks e sync h t) = clk_votes s + (of_bool (voting ?c') - of_bool (voting c))"
      using g(2) t(4) c(2) by (simp add: voting_def activated_client_def)
  qed (use ci' in \<open>simp_all add: activated_client_def\<close>)
qed

lemma core_upd_same: "co_clients k h = Some c \<Longrightarrow> f c = c \<Longrightarrow> k\<lparr>co_clients := (co_clients k)(h \<mapsto> f c)\<rparr> = k"
  by (simp add: fun_upd_idem)

lemma already_active_None: "already_active st = None \<longleftrightarrow> st = DEACTIVATED \<or> STATE_IN_PROGRESS st"
  by (cases st) auto

lemma already_active_Some:
  "already_active st = Some st' \<Longrightarrow> STATE_ACTIVE st \<and> STATE_ACTIVE st' \<and> timer_state st' = timer_state st \<and>
     \<not> STATE_IN_PROGRESS st \<and> \<not> STATE_IN_PROGRESS st'"
  by (cases st) auto

lemma set_state_ok:
  assumes inv: "pm_inv s" "get_client h s = Some c"
    and st: "timer_state st = timer_state (cl_state c)" "STATE_IN_PROGRESS st = STATE_IN_PROGRESS (cl_state c)"
      "STATE_ACTIVE st = STATE_ACTIVE (cl_state c)"
  shows "pm_step_ok s (set_state h st s)"
  unfolding set_state_def
  by (rule upd_client_ok [OF inv])
     (use st pm_inv_client [OF inv] in \<open>auto simp: client_inv_def voting_def\<close>)

lemma sync_off_id: "client_inv h c \<Longrightarrow> cl_state c = DEACTIVATED \<Longrightarrow> c\<lparr>cl_sync_inflight := False\<rparr> = c"
  by (intro pm_client.equality) (auto simp: client_inv_def)

lemma activate_ok:
  assumes inv: "pm_inv s"
  shows "pm_step_ok s (snd (ipa_pm_activate e h s))"
proof -
  obtain p where p: "pm s = Some p" using pm_inv_pm [OF inv] by blast
  show ?thesis
  proof (cases "IPA_PM_MAX_CLIENTS \<le> h \<or> get_client h s = None")
    case True
    then show ?thesis
      using inv p by (auto simp: ipa_pm_activate_def pm_step_ok_refl get_client_def split: option.split)
  next
    case False
    then obtain c where h: "\<not> IPA_PM_MAX_CLIENTS \<le> h" and c: "get_client h s = Some c" by auto
    have eq: "ipa_pm_activate e h s = activate_helper_async e h c s"
      using h c p by (simp add: ipa_pm_activate_def get_client_def)
    note ci = pm_inv_client(1) [OF inv c]
    obtain k where k: "clk_inv s" "bugs s = []" "core_of s = Some k" "core_inv k" "core_votes k \<le> clk_votes s"
      using inv by (rule pm_invE)
    have kc: "co_clients k h = Some c" using c get_client_core [OF k(3)] by simp
    consider "STATE_IN_PROGRESS (cl_state c)" | st where "already_active (cl_state c) = Some st"
      | "cl_state c = DEACTIVATED"
      using already_active_None [of "cl_state c"] by (cases "already_active (cl_state c)") auto
    then show ?thesis
    proof cases
      case 1
      then show ?thesis
        unfolding eq activate_helper_async_def
        by (simp, intro set_state_ok [OF inv c]) (cases "cl_state c"; simp)+
    next
      case 2
      note a = already_active_Some [OF 2]
      then show ?thesis
        unfolding eq activate_helper_async_def using 2 by (simp add: set_state_ok [OF inv c])
    next
      case 3
      note id = sync_off_id [OF ci 3]
      have core: "core_of s = Some (k\<lparr>co_clients := (co_clients k)(h \<mapsto> c\<lparr>cl_sync_inflight := False\<rparr>)\<rparr>)"
        using k(3) kc id by (simp add: fun_upd_idem)
      have na: "\<not> STATE_ACTIVE (cl_state c)" "\<not> cl_activate_work c" using 3 ci by (auto simp: client_inv_def)
      show ?thesis
      proof (cases "cl_skip_clk_vote c")
        case True
        have "pm_step_ok s (got_clocks e False h s)"
          by (rule got_clocks_moves [OF k kc na k(1) _ core]) (use True in simp_all)
        then show ?thesis unfolding eq activate_helper_async_def using 3 True by simp
      next
        case vote: False
        obtain r s1 where nb: "inc_client_enable_clks_no_block e (PREP_SPECIAL ''ipa_pm.c'' 949 (cl_name c)) s = (r, s1)"
          by fastforce
        show ?thesis
        proof (cases r)
          case OK
          note n = nb_core [OF k(1) nb [unfolded OK]]
          have "pm_step_ok s (got_clocks e False h s1)"
            by (rule got_clocks_moves [OF k kc na n(1,4)]) (use n core vote in simp_all)
          then show ?thesis unfolding eq activate_helper_async_def using 3 vote nb OK by simp
        next
          case (Err x)
          then have "s1 = s" using inc_no_block_fails nb by blast
          moreover have "pm_step_ok s (upd_client h (\<lambda>c. c\<lparr>cl_state := ACTIVATE_IN_PROGRESS,
              cl_complete := False, cl_activate_work := True\<rparr>) s)"
            by (rule upd_client_ok [OF inv c]) (use 3 vote ci in \<open>auto simp: client_inv_def voting_def\<close>)
          ultimately show ?thesis unfolding eq activate_helper_async_def using 3 vote nb Err by simp
        qed
      qed
    qed
  qed
qed


lemma activate_sync_enter_ok:
  assumes inv: "pm_inv s" and r: "activate_sync_enter e h s = Ret (r, s')"
  shows "pm_step_ok s s' \<and>
    (r = None \<longrightarrow> (\<exists>c. get_client h s' = Some c \<and> cl_sync_inflight c \<and> cl_state c = ACTIVATE_IN_PROGRESS))"
proof -
  obtain p where p: "pm s = Some p" using pm_inv_pm [OF inv] by blast
  show ?thesis
  proof (cases "IPA_PM_MAX_CLIENTS \<le> h \<or> get_client h s = None")
    case True
    then show ?thesis
      using inv p r by (auto simp: activate_sync_enter_def pm_step_ok_refl get_client_def split: option.splits if_splits)
  next
    case False
    then obtain c where h: "\<not> IPA_PM_MAX_CLIENTS \<le> h" and c: "get_client h s = Some c" by auto
    have cl: "clients p h = Some c" using c p by (simp add: get_client_def)
    note ci = pm_inv_client(1) [OF inv c]
    obtain k where k: "clk_inv s" "bugs s = []" "core_of s = Some k" "core_inv k" "core_votes k \<le> clk_votes s"
      using inv by (rule pm_invE)
    have kc: "co_clients k h = Some c" using c get_client_core [OF k(3)] by simp
    consider "STATE_IN_PROGRESS (cl_state c)" | st where "already_active (cl_state c) = Some st"
      | "cl_state c = DEACTIVATED"
      using already_active_None [of "cl_state c"] by (cases "already_active (cl_state c)") auto
    then show ?thesis
    proof cases
      case 1
      then have "s' = s" "r \<noteq> None"
        using r h p cl by (auto simp: activate_sync_enter_def split: if_splits)
      then show ?thesis using pm_step_ok_refl [OF inv] by auto
    next
      case 2
      note a = already_active_Some [OF 2]
      then have "s' = set_state h st s" "r \<noteq> None"
        using r h p cl 2 by (auto simp: activate_sync_enter_def)
      then show ?thesis using a by (auto simp: set_state_ok [OF inv c])
    next
      case 3
      note id = sync_off_id [OF ci 3]
      have core: "core_of s = Some (k\<lparr>co_clients := (co_clients k)(h \<mapsto> c\<lparr>cl_sync_inflight := False\<rparr>)\<rparr>)"
        using k(3) kc id by (simp add: fun_upd_idem)
      have na: "\<not> STATE_ACTIVE (cl_state c)" "\<not> cl_activate_work c" using 3 ci by (auto simp: client_inv_def)
      show ?thesis
      proof (cases "cl_skip_clk_vote c")
        case True
        have "pm_step_ok s (got_clocks e True h s)"
          by (rule got_clocks_moves [OF k kc na k(1) _ core]) (use True in simp_all)
        moreover have "s' = got_clocks e True h s" "r \<noteq> None"
          using r h p cl 3 True by (auto simp: activate_sync_enter_def)
        ultimately show ?thesis by auto
      next
        case False
        let ?f = "\<lambda>c. c\<lparr>cl_state := ACTIVATE_IN_PROGRESS, cl_sync_inflight := True\<rparr>"
        have s': "s' = upd_client h ?f s" "r = None"
          using r h p cl 3 False by (auto simp: activate_sync_enter_def)
        have "pm_step_ok s (upd_client h ?f s)"
          by (rule upd_client_ok [OF inv c]) (use 3 False ci in \<open>auto simp: client_inv_def voting_def\<close>)
        moreover have "get_client h (upd_client h ?f s) = Some (?f c)"
          using c p by (simp add: upd_client_def get_client_def upd_pm_def)
        ultimately show ?thesis using s' by auto
      qed
    qed
  qed
qed

lemma activate_sync_resume_ok:
  assumes inv: "pm_inv s" "get_client h s = Some c" "cl_sync_inflight c"
  shows "pm_step_ok s (activate_sync_resume e h s)"
proof -
  obtain k where k: "clk_inv s" "bugs s = []" "core_of s = Some k" "core_inv k" "core_votes k \<le> clk_votes s"
    using inv(1) by (rule pm_invE)
  have kc: "co_clients k h = Some c" using inv(2) get_client_core [OF k(3)] by simp
  note ci = pm_inv_client(1) [OF inv(1,2)]
  have prog: "STATE_IN_PROGRESS (cl_state c)" "\<not> cl_activate_work c" "\<not> cl_skip_clk_vote c"
    using ci inv(3) by (auto simp: client_inv_def)
  then have na: "\<not> STATE_ACTIVE (cl_state c)" by (cases "cl_state c") auto
  let ?i = "inc_client_enable_clks e (PREP_SPECIAL ''ipa_pm.c'' 954 (cl_name c)) s"
  let ?t = "upd_client h (\<lambda>c. c\<lparr>cl_sync_inflight := False\<rparr>) ?i"
  have i: "core_of ?i = Some k" using k(1,3) by simp
  note u = upd_client_core [OF i kc, of "\<lambda>c. c\<lparr>cl_sync_inflight := False\<rparr>"]
  have "pm_step_ok s (got_clocks e True h ?t)"
    by (rule got_clocks_moves [OF k kc na prog(2)]) (use u k prog in simp_all)
  then show ?thesis by (simp add: activate_sync_resume_def inv(2))
qed


lemma activate_work_moves:
  assumes inv: "pm_inv s" "get_client h s = Some c" "cl_activate_work c"
  shows "pm_step_ok s (run_activate_work e h s) \<and>
    (\<exists>c'. get_client h (run_activate_work e h s) = Some c' \<and> cl_complete c' \<and> \<not> cl_activate_work c' \<and>
       fixed_part c' = fixed_part c \<and>
       cl_state c' = (if cl_state c = ACTIVATE_IN_PROGRESS then ACTIVATED else DEACTIVATED))"
proof -
  obtain k where k: "clk_inv s" "bugs s = []" "core_of s = Some k" "core_inv k" "core_votes k \<le> clk_votes s"
    using inv(1) by (rule pm_invE)
  have kc: "co_clients k h = Some c" using inv(2) get_client_core [OF k(3)] by simp
  note ci = pm_inv_client(1) [OF inv(1,2)]
  have c: "STATE_IN_PROGRESS (cl_state c)" "\<not> cl_sync_inflight c" "\<not> cl_skip_clk_vote c" "cl_hdl c = h"
    using ci inv(3) by (auto simp: client_inv_def)
  then have na: "\<not> STATE_ACTIVE (cl_state c)" "\<not> timer_state (cl_state c)" by (cases "cl_state c"; simp)+
  have mono: "0 \<le> core_votes k" by (simp add: core_votes_def)
  let ?c0 = "c\<lparr>cl_activate_work := False\<rparr>"
  let ?s0 = "upd_client h (\<lambda>c. c\<lparr>cl_activate_work := False\<rparr>) s"
  let ?k0 = "k\<lparr>co_clients := (co_clients k)(h \<mapsto> ?c0)\<rparr>"
  note s0 = upd_client_core [OF k(3) kc, of "\<lambda>c. c\<lparr>cl_activate_work := False\<rparr>"]
  have i0: "clk_inv ?s0" using s0 k by simp
  have at0: "co_clients ?k0 h = Some ?c0" by simp
  have gc: "get_client h ?s0 = Some ?c0" using get_client_core [OF s0(1)] by simp
  let ?s1 = "pm_vote e 409 h ?c0 ?s0"
  note v = pm_vote_core [OF i0 s0(1) at0, of e 409 ?c0]
  let ?c1 = "if cl_group c = GROUP_APPS then ?c0\<lparr>cl_wlock_held := cl_wlock c\<rparr> else ?c0"
  let ?k1 = "k\<lparr>co_clients := (co_clients k)(h \<mapsto> ?c1)\<rparr>"
  have k1: "core_of ?s1 = Some ?k1" "clk_inv ?s1" "clk_votes ?s1 = clk_votes s + 1" "bugs ?s1 = bugs s"
    using v s0 c by auto
  have at1: "co_clients ?k1 h = Some ?c1" by simp
  consider "cl_state c = ACTIVATE_IN_PROGRESS" | "cl_state c = DEACTIVATE_IN_PROGRESS"
    using c(1) by (cases "cl_state c") auto
  then show ?thesis
  proof cases
    case 1
    let ?t = "upd_client h (\<lambda>c. c\<lparr>cl_complete := True\<rparr>) (set_state h ACTIVATED ?s1)"
    let ?c' = "?c1\<lparr>cl_state := ACTIVATED, cl_complete := True\<rparr>"
    have t: "core_of ?t = Some (k\<lparr>co_clients := (co_clients k)(h \<mapsto> ?c')\<rparr>)" "clk_inv ?t"
      "clk_votes ?t = clk_votes s + 1" "bugs ?t = bugs s"
      using k1 by (auto simp: set_state_def)
    let ?u = "if cl_callback c then emit (PmCallback h CLIENT_ACTIVATED) (activate_client h ?t) else activate_client h ?t"
    have u: "core_of ?u = Some (k\<lparr>co_clients := (co_clients k)(h \<mapsto> ?c'), co_mask := co_mask k OR bit_of h\<rparr>)"
      "clk_inv ?u" "clk_votes ?u = clk_votes s + 1" "bugs ?u = bugs s"
      using t by auto
    have eq: "run_activate_work e h s = do_clk_scaling e ?u"
      using 1 c(4) by (simp add: run_activate_work_def activate_work_func_def gc Let_def)
    note d = do_clk_scaling_core [OF u(2,1), of e]
    have ci': "client_inv h ?c'" using ci inv(3) c na 1 by (auto simp: client_inv_def)
    have "pm_step_ok s (do_clk_scaling e ?u)"
    proof (rule pm_moveI [OF k kc d(1) _ d(3), where c' = ?c'])
      show "clk_votes (do_clk_scaling e ?u) = clk_votes s + (of_bool (voting ?c') - of_bool (voting c))"
        using d(2) u(3) na c by (simp add: voting_def)
    qed (use d(4) u(4) ci' in simp_all)
    moreover have "get_client h (do_clk_scaling e ?u) = Some ?c'" using get_client_core [OF d(3)] by simp
    ultimately show ?thesis using 1 unfolding eq by auto
  next
    case 2
    let ?t = "upd_client h (\<lambda>c. c\<lparr>cl_complete := True\<rparr>) (set_state h DEACTIVATED ?s1)"
    let ?c2 = "?c1\<lparr>cl_state := DEACTIVATED, cl_complete := True\<rparr>"
    let ?k2 = "k\<lparr>co_clients := (co_clients k)(h \<mapsto> ?c2)\<rparr>"
    have t: "core_of ?t = Some ?k2" "clk_inv ?t" "clk_votes ?t = clk_votes s + 1" "bugs ?t = bugs s"
      using k1 by (auto simp: set_state_def)
    have at2: "co_clients ?k2 h = Some ?c2" by simp
    have one: "1 \<le> clk_votes ?t" using t(3) mono k(5) by simp
    then have one': "\<not> cl_skip_clk_vote ?c0 \<longrightarrow> 1 \<le> clk_votes ?t" by blast
    note d = pm_devote_core [OF t(2,1) at2 one', of e 431]
    have eq: "run_activate_work e h s = pm_devote e 431 h ?c0 ?t"
      using 2 by (simp add: run_activate_work_def activate_work_func_def gc Let_def)
    have held: "\<not> cl_wlock_held c" using ci c na by (auto simp: client_inv_def)
    define c' where "c' = (if cl_group c = GROUP_APPS then ?c2\<lparr>cl_wlock_held := False\<rparr> else ?c2)"
    have core: "core_of (pm_devote e 431 h ?c0 ?t) = Some (k\<lparr>co_clients := (co_clients k)(h \<mapsto> c')\<rparr>)"
      using d(4) c(3) by (auto simp: c'_def)
    have ci': "client_inv h c'" using ci c na held by (auto simp: client_inv_def c'_def)
    have c': "cl_state c' = DEACTIVATED" "cl_name c' = cl_name c" by (auto simp: c'_def)
    have "pm_step_ok s (pm_devote e 431 h ?c0 ?t)"
    proof (rule pm_moveI [OF k kc d(1) _ core, where c' = c'])
      show "clk_votes (pm_devote e 431 h ?c0 ?t) = clk_votes s + (of_bool (voting c') - of_bool (voting c))"
        using d(2) t(3) na c c' by (simp add: voting_def)
    qed (use d(3) t(4) ci' c' na in simp_all)
    moreover have "get_client h (pm_devote e 431 h ?c0 ?t) = Some c'" using get_client_core [OF core] by simp
    ultimately show ?thesis using 2 c' unfolding eq by (auto simp: c'_def)
  qed
qed

lemma activate_work_ok:
  "pm_inv s \<Longrightarrow> get_client h s = Some c \<Longrightarrow> cl_activate_work c \<Longrightarrow> pm_step_ok s (run_activate_work e h s)"
  using activate_work_moves by blast

text \<open>Leaving an active state: the vote, the wake source and the bit go together.\<close>

definition deactivated_client :: "pm_client \<Rightarrow> pm_client" where
  "deactivated_client c = c\<lparr>cl_deactivate_work := False, cl_state := DEACTIVATED,
     cl_wlock_held := if cl_group c = GROUP_APPS \<and> \<not> cl_skip_clk_vote c then False else cl_wlock_held c\<rparr>"

lemma devote_moves:
  assumes k: "clk_inv s" "bugs s = []" "core_of s = Some k" "core_inv k" "core_votes k \<le> clk_votes s"
    and c: "co_clients k h = Some c" "STATE_ACTIVE (cl_state c)"
    and t: "clk_inv t" "bugs t = bugs s"
      "core_of t = Some (k\<lparr>co_clients := (co_clients k)(h \<mapsto> deactivated_client c),
                           co_mask := co_mask k AND NOT (bit_of h)\<rparr>)"
      "clk_votes t = clk_votes s - of_bool (\<not> cl_skip_clk_vote c)"
  shows "pm_step_ok s t"
proof -
  have ci: "client_inv h c" by (rule core_inv_client [OF k(4) c(1)])
  have np: "\<not> STATE_IN_PROGRESS (cl_state c)" using c(2) by (cases "cl_state c") auto
  have ci': "client_inv h (deactivated_client c)"
    using ci np by (auto simp: client_inv_def deactivated_client_def)
  show ?thesis
    by (rule pm_moveI [OF k c(1) t(1,2,3), where c' = "deactivated_client c"])
       (use t(4) c(2) ci' in \<open>simp_all add: voting_def deactivated_client_def\<close>)
qed

lemma active_vote_pos:
  assumes "core_inv k" "core_votes k \<le> clk_votes s" "co_clients k h = Some c" "STATE_ACTIVE (cl_state c)"
  shows "\<not> cl_skip_clk_vote c \<longrightarrow> 1 \<le> clk_votes s"
  using core_voting_pos [OF assms(1,3)] assms(2,4) by (auto simp: voting_def)

lemma upd_client_comp:
  "get_client h s = Some c \<Longrightarrow> upd_client h g (upd_client h f s) = upd_client h (\<lambda>c. g (f c)) s"
  by (auto simp: upd_client_def get_client_def upd_pm_def option.map_comp o_def split: option.splits)

lemma get_client_upd: "get_client h s = Some c \<Longrightarrow> get_client h (upd_client h f s) = Some (f c)"
  by (auto simp: upd_client_def get_client_def upd_pm_def split: option.splits)

lemma upd_client_emit: "upd_client h f (emit ev s) = emit ev (upd_client h f s)"
  by (auto simp: upd_client_def get_client_def upd_pm_def emit_def fault_def split: option.splits)

text \<open>The end of a deactivation: devote, clear the bit.\<close>

lemma devote_deactivate:
  assumes k: "clk_inv s" "bugs s = []" "core_of s = Some k" "core_inv k" "core_votes k \<le> clk_votes s"
    and c: "co_clients k h = Some c" "STATE_ACTIVE (cl_state c)"
    and s1: "s1 = upd_client h (\<lambda>c. c\<lparr>cl_deactivate_work := False, cl_state := DEACTIVATED\<rparr>) s"
  shows "pm_step_ok s (deactivate_client h (pm_devote e line h c s1)) \<and>
    core_of (deactivate_client h (pm_devote e line h c s1)) =
      Some (k\<lparr>co_clients := (co_clients k)(h \<mapsto> deactivated_client c), co_mask := co_mask k AND NOT (bit_of h)\<rparr>)"
proof -
  let ?c1 = "c\<lparr>cl_deactivate_work := False, cl_state := DEACTIVATED\<rparr>"
  let ?k1 = "k\<lparr>co_clients := (co_clients k)(h \<mapsto> ?c1)\<rparr>"
  note u = upd_client_core [OF k(3) c(1), of "\<lambda>c. c\<lparr>cl_deactivate_work := False, cl_state := DEACTIVATED\<rparr>"]
  have i1: "clk_inv s1" "core_of s1 = Some ?k1" "clk_votes s1 = clk_votes s" "bugs s1 = bugs s"
    using u k by (simp_all add: s1)
  have at1: "co_clients ?k1 h = Some ?c1" by simp
  have one: "\<not> cl_skip_clk_vote c \<longrightarrow> 1 \<le> clk_votes s1"
    using active_vote_pos [OF k(4,5) c] i1(3) by simp
  note d = pm_devote_core [OF i1(1,2) at1 one, of e line]
  let ?t = "deactivate_client h (pm_devote e line h c s1)"
  have core: "core_of ?t = Some (k\<lparr>co_clients := (co_clients k)(h \<mapsto> deactivated_client c),
       co_mask := co_mask k AND NOT (bit_of h)\<rparr>)"
    using d(4) by (auto simp: deactivated_client_def)
  have "pm_step_ok s ?t"
    by (rule devote_moves [OF k c _ _ core]) (use d i1 in simp_all)
  then show ?thesis using core by simp
qed

lemma do_clk_scaling_ok:
  assumes "pm_step_ok s t"
  shows "pm_step_ok s (do_clk_scaling e t)"
proof -
  obtain k where k: "clk_inv t" "core_of t = Some k" using assms by (auto simp: pm_step_ok_def pm_inv_def)
  note d = do_clk_scaling_core [OF k, of e]
  have "pm_step_ok t (do_clk_scaling e t)"
    by (rule pm_step_ok_same) (use assms d k in \<open>simp_all add: pm_step_ok_def\<close>)
  then show ?thesis using assms by (rule pm_step_ok_trans [rotated])
qed

lemma run_pending_eq:
  assumes "get_client h s = Some c" "cl_state c = ACTIVATED_PENDING_DEACTIVATION" "cl_hdl c = h"
  shows "run_deactivate_work e h s = do_clk_scaling e (deactivate_client h (pm_devote e 494 h c
    (upd_client h (\<lambda>c. c\<lparr>cl_deactivate_work := False, cl_state := DEACTIVATED\<rparr>) s)))"
proof -
  have dv: "pm_devote e 494 h (c\<lparr>cl_deactivate_work := False\<rparr>) t = pm_devote e 494 h c t" for t
    by (simp add: pm_devote_def)
  show ?thesis
    using assms get_client_upd [OF assms(1), of "\<lambda>c. c\<lparr>cl_deactivate_work := False\<rparr>"]
    by (simp add: run_deactivate_work_def deferred_deactivate_work_func_def set_state_def Let_def dv
        upd_client_comp [OF assms(1)])
qed

lemma run_timer_set:
  "get_client h s = Some c \<Longrightarrow> cl_state c = ACTIVATED_TIMER_SET \<Longrightarrow>
   run_deactivate_work e h s = upd_client h (\<lambda>c. c\<lparr>cl_deactivate_work := False, cl_state := ACTIVATED\<rparr>) s"
  using get_client_upd [of h s c "\<lambda>c. c\<lparr>cl_deactivate_work := False\<rparr>"]
  by (simp add: run_deactivate_work_def deferred_deactivate_work_func_def set_state_def upd_client_comp)

lemma run_reschedule:
  assumes "get_client h s = Some c" "cl_state c = ACTIVATED_PENDING_RESCHEDULE"
  shows "\<exists>d. run_deactivate_work e h s = emit (PmTimer h d)
    (upd_client h (\<lambda>c. c\<lparr>cl_deactivate_work := True, cl_state := ACTIVATED_PENDING_DEACTIVATION\<rparr>) s)"
proof -
  note gc = get_client_upd [OF assms(1), of "\<lambda>c. c\<lparr>cl_deactivate_work := False\<rparr>"]
  show ?thesis using assms(2)
    by (auto simp: run_deactivate_work_def deferred_deactivate_work_func_def gc set_state_def
        queue_deactivate_work_def upd_client_emit upd_client_comp [OF assms(1)] upd_client_comp [OF gc])
qed

lemma deactivate_work_ok:
  assumes inv: "pm_inv s" "get_client h s = Some c" "cl_deactivate_work c"
  shows "pm_step_ok s (run_deactivate_work e h s)"
proof -
  obtain k where k: "clk_inv s" "bugs s = []" "core_of s = Some k" "core_inv k" "core_votes k \<le> clk_votes s"
    using inv(1) by (rule pm_invE)
  have kc: "co_clients k h = Some c" using inv(2) get_client_core [OF k(3)] by simp
  note ci = pm_inv_client(1) [OF inv(1,2)]
  have t: "timer_state (cl_state c)" and hdl: "cl_hdl c = h" using ci inv(3) by (auto simp: client_inv_def)
  show ?thesis
  proof (cases "cl_state c")
    case ACTIVATED_TIMER_SET
    show ?thesis unfolding run_timer_set [OF inv(2) ACTIVATED_TIMER_SET]
      by (rule upd_client_ok [OF inv(1,2)])
         (use ACTIVATED_TIMER_SET ci in \<open>auto simp: client_inv_def voting_def\<close>)
  next
    case ACTIVATED_PENDING_RESCHEDULE
    obtain d where d: "run_deactivate_work e h s = emit (PmTimer h d)
        (upd_client h (\<lambda>c. c\<lparr>cl_deactivate_work := True, cl_state := ACTIVATED_PENDING_DEACTIVATION\<rparr>) s)"
      using run_reschedule [OF inv(2) ACTIVATED_PENDING_RESCHEDULE] by blast
    show ?thesis unfolding d
      by (rule emit_ok [OF upd_client_ok [OF inv(1,2)]])
         (use ACTIVATED_PENDING_RESCHEDULE ci in \<open>auto simp: client_inv_def voting_def\<close>)
  next
    case ACTIVATED_PENDING_DEACTIVATION
    then have act: "STATE_ACTIVE (cl_state c)" by simp
    show ?thesis unfolding run_pending_eq [OF inv(2) ACTIVATED_PENDING_DEACTIVATION hdl]
      by (intro do_clk_scaling_ok conjunct1 [OF devote_deactivate [OF k kc act refl]])
  qed (use t in simp_all)
qed

lemma deactivate_work_moves:
  assumes inv: "pm_inv s" "get_client h s = Some c" "cl_deactivate_work c"
  shows "\<exists>c'. get_client h (run_deactivate_work e h s) = Some c' \<and> fixed_part c' = fixed_part c \<and>
    (calm (cl_state c) \<longrightarrow> calm (cl_state c'))"
proof -
  obtain k where k: "clk_inv s" "bugs s = []" "core_of s = Some k" "core_inv k" "core_votes k \<le> clk_votes s"
    using inv(1) by (rule pm_invE)
  have kc: "co_clients k h = Some c" using inv(2) get_client_core [OF k(3)] by simp
  note ci = pm_inv_client(1) [OF inv(1,2)]
  have t: "timer_state (cl_state c)" and hdl: "cl_hdl c = h" using ci inv(3) by (auto simp: client_inv_def)
  show ?thesis
  proof (cases "cl_state c")
    case ACTIVATED_TIMER_SET
    then show ?thesis using run_timer_set [OF inv(2), of e] get_client_upd [OF inv(2)] by simp
  next
    case ACTIVATED_PENDING_RESCHEDULE
    then show ?thesis using run_reschedule [OF inv(2), of e] get_client_upd [OF inv(2)]
      by (auto simp: get_client_def emit_def)
  next
    case ACTIVATED_PENDING_DEACTIVATION
    then have act: "STATE_ACTIVE (cl_state c)" by simp
    note dd = devote_deactivate [OF k kc act refl, of e 494]
    then have "clk_inv (deactivate_client h (pm_devote e 494 h c
        (upd_client h (\<lambda>c. c\<lparr>cl_deactivate_work := False, cl_state := DEACTIVATED\<rparr>) s)))"
      by (simp add: pm_step_ok_def pm_inv_def)
    note d = do_clk_scaling_core(3) [OF this conjunct2 [OF dd], of e]
    show ?thesis using ACTIVATED_PENDING_DEACTIVATION get_client_core [OF d] run_pending_eq [OF inv(2) _ hdl, of e]
      by (simp add: deactivated_client_def fixed_part_def)
  qed (use t in simp_all)
qed

lemma deactivate_sync_moves:
  assumes inv: "pm_inv s" and r: "ipa_pm_deactivate_sync e h s = Ret (r, s')"
    and quiet: "\<And>c. get_client h s = Some c \<Longrightarrow> \<not> cl_sync_inflight c"
  shows "pm_step_ok s s' \<and>
    (\<forall>c. get_client h s = Some c \<longrightarrow> clk_votes s' = clk_votes s - of_bool (voting c) \<and>
       (get_client h s' = Some (deactivated_client c) \<or>
        cl_state c = DEACTIVATED \<and> get_client h s' = Some (c\<lparr>cl_deactivate_work := False\<rparr>)))"
proof -
  obtain p where p: "pm s = Some p" using pm_inv_pm [OF inv] by blast
  obtain k where k: "clk_inv s" "bugs s = []" "core_of s = Some k" "core_inv k" "core_votes k \<le> clk_votes s"
    using inv by (rule pm_invE)
  show ?thesis
  proof (cases "IPA_PM_MAX_CLIENTS \<le> h \<or> get_client h s = None")
    case True
    then have none: "get_client h s = None" using pm_inv_client(2) [OF inv] by (cases "get_client h s") force+
    then have "clients p h = None" using p by (simp add: get_client_def)
    with none show ?thesis
      using inv p r by (auto simp: ipa_pm_deactivate_sync_def pm_step_ok_refl split: if_splits)
  next
    case False
    then obtain c where h: "\<not> IPA_PM_MAX_CLIENTS \<le> h" and c: "get_client h s = Some c" by auto
    have cl: "clients p h = Some c" using c p by (simp add: get_client_def)
    note ci = pm_inv_client(1) [OF inv c]
    have kc: "co_clients k h = Some c" using c get_client_core [OF k(3)] by simp
    have np: "\<not> STATE_IN_PROGRESS (cl_state c)"
      using r h p cl ci quiet [OF c] by (auto simp: ipa_pm_deactivate_sync_def client_inv_def Let_def split: if_splits)
    show ?thesis
    proof (cases "cl_state c = DEACTIVATED")
      case True
      have "pm_step_ok s (cancel_deactivate_work h s)" unfolding cancel_deactivate_work_def
        by (rule upd_client_ok [OF inv c]) (use True ci in \<open>auto simp: client_inv_def voting_def\<close>)
      moreover have "get_client h (cancel_deactivate_work h s) = Some (c\<lparr>cl_deactivate_work := False\<rparr>)"
        unfolding cancel_deactivate_work_def by (rule get_client_upd [OF c])
      moreover have "clk_votes (cancel_deactivate_work h s) = clk_votes s"
        unfolding cancel_deactivate_work_def by (rule upd_client_core(3) [OF k(3) kc])
      ultimately show ?thesis using True r h p cl c by (simp add: ipa_pm_deactivate_sync_def Let_def voting_def)
    next
      case False
      then have act: "STATE_ACTIVE (cl_state c)" using np by (cases "cl_state c") auto
      let ?s1 = "cancel_deactivate_work h s"
      let ?t = "deactivate_client h (cancel_deactivate_work h (set_state h DEACTIVATED (pm_devote e 1199 h c ?s1)))"
      let ?c1 = "c\<lparr>cl_deactivate_work := False\<rparr>"
      let ?k1 = "k\<lparr>co_clients := (co_clients k)(h \<mapsto> ?c1)\<rparr>"
      note u = upd_client_core [OF k(3) kc, of "\<lambda>c. c\<lparr>cl_deactivate_work := False\<rparr>", folded cancel_deactivate_work_def]
      have i1: "clk_inv ?s1" using u k by simp
      have at1: "co_clients ?k1 h = Some ?c1" by simp
      have one: "\<not> cl_skip_clk_vote c \<longrightarrow> 1 \<le> clk_votes ?s1"
        using active_vote_pos [OF k(4,5) kc act] u(3) by simp
      note d = pm_devote_core [OF i1 u(1) at1 one, of e 1199]
      let ?c2 = "if \<not> cl_skip_clk_vote c \<and> cl_group c = GROUP_APPS then ?c1\<lparr>cl_wlock_held := False\<rparr> else ?c1"
      let ?k2 = "k\<lparr>co_clients := (co_clients k)(h \<mapsto> ?c2)\<rparr>"
      have d4: "core_of (pm_devote e 1199 h c ?s1) = Some ?k2" using d(4) by auto
      have at2: "co_clients ?k2 h = Some ?c2" by simp
      note u2 = upd_client_core [OF d4 at2, of "\<lambda>c. c\<lparr>cl_state := DEACTIVATED\<rparr>", folded set_state_def]
      have at3: "co_clients (?k2\<lparr>co_clients := (co_clients ?k2)(h \<mapsto> ?c2\<lparr>cl_state := DEACTIVATED\<rparr>)\<rparr>) h
         = Some (?c2\<lparr>cl_state := DEACTIVATED\<rparr>)" by simp
      note u3 = upd_client_core [OF u2(1) at3, of "\<lambda>c. c\<lparr>cl_deactivate_work := False\<rparr>", folded cancel_deactivate_work_def]
      have dc: "?c2\<lparr>cl_state := DEACTIVATED, cl_deactivate_work := False\<rparr> = deactivated_client c"
        by (rule pm_client.equality) (auto simp: deactivated_client_def)
      have core: "core_of ?t = Some (k\<lparr>co_clients := (co_clients k)(h \<mapsto> deactivated_client c),
          co_mask := co_mask k AND NOT (bit_of h)\<rparr>)"
        using u3(1) by (simp add: dc del: if_split)
      have rest: "clk_inv ?t" "clk_votes ?t = clk_votes s - of_bool (\<not> cl_skip_clk_vote c)" "bugs ?t = bugs s"
        using d u(2-4) u2(2-4) u3(2-4) by simp_all
      have "pm_step_ok s ?t"
        by (rule devote_moves [OF k kc act rest(1,3) core rest(2)])
      then have "pm_step_ok s (do_clk_scaling e ?t)" by (rule do_clk_scaling_ok)
      moreover have "get_client h (do_clk_scaling e ?t) = Some (deactivated_client c)"
        using get_client_core [OF do_clk_scaling_core(3) [OF rest(1) core]] by simp
      moreover have "clk_votes (do_clk_scaling e ?t) = clk_votes s - of_bool (voting c)"
        using do_clk_scaling_core(2) [OF rest(1) core, of e] rest(2) act by (simp add: voting_def)
      ultimately show ?thesis using False np r h p cl c by (simp add: ipa_pm_deactivate_sync_def Let_def)
    qed
  qed
qed

lemma deactivate_sync_ok:
  assumes "pm_inv s" "ipa_pm_deactivate_sync e h s = Ret (r, s')"
    "\<And>c. get_client h s = Some c \<Longrightarrow> \<not> cl_sync_inflight c"
  shows "pm_step_ok s s'"
  using deactivate_sync_moves [OF assms] by blast

lemma deactivate_one_ok:
  assumes inv: "pm_inv s" and r: "deactivate_one_deferred e h s = Ret (b, s')"
  shows "pm_step_ok s s'"
proof (cases "get_client h s")
  case None
  then show ?thesis using r inv by (auto simp: deactivate_one_deferred_def pm_step_ok_refl)
next
  case (Some c)
  note c = Some
  note ci = pm_inv_client(1) [OF inv c]
  have hdl: "cl_hdl c = h" using ci by (simp add: client_inv_def)
  let ?s1 = "cancel_deactivate_work h s"
  have cancel: "pm_step_ok s ?s1" if "\<not> timer_state (cl_state c)"
    unfolding cancel_deactivate_work_def
    by (rule upd_client_ok [OF inv c]) (use that ci in \<open>auto simp: client_inv_def voting_def\<close>)
  consider "\<not> timer_state (cl_state c)" | "cl_state c = ACTIVATED_TIMER_SET"
    | "cl_state c = ACTIVATED_PENDING_DEACTIVATION \<or> cl_state c = ACTIVATED_PENDING_RESCHEDULE"
    by (cases "cl_state c") auto
  then show ?thesis
  proof cases
    case 1
    then have "s' = ?s1" using r c
      by (cases "cl_state c") (auto simp: deactivate_one_deferred_def Let_def split: if_splits)
    with cancel [OF 1] show ?thesis by simp
  next
    case 2
    have "pm_step_ok s (upd_client h (\<lambda>c. c\<lparr>cl_deactivate_work := False, cl_state := ACTIVATED\<rparr>) s)"
      by (rule upd_client_ok [OF inv c]) (use 2 ci in \<open>auto simp: client_inv_def voting_def\<close>)
    moreover have "s' = set_state h ACTIVATED ?s1" using r c 2
      by (auto simp: deactivate_one_deferred_def Let_def)
    ultimately show ?thesis by (simp add: set_state_def cancel_deactivate_work_def upd_client_comp [OF c])
  next
    case 3
    obtain k where k: "clk_inv s" "bugs s = []" "core_of s = Some k" "core_inv k" "core_votes k \<le> clk_votes s"
      using inv by (rule pm_invE)
    have kc: "co_clients k h = Some c" using c get_client_core [OF k(3)] by simp
    have act: "STATE_ACTIVE (cl_state c)" using 3 by auto
    have s2: "set_state h DEACTIVATED ?s1 = upd_client h (\<lambda>c. c\<lparr>cl_deactivate_work := False, cl_state := DEACTIVATED\<rparr>) s"
      by (simp add: set_state_def cancel_deactivate_work_def upd_client_comp [OF c])
    have "s' = deactivate_client h (pm_devote e 1144 h c (set_state h DEACTIVATED ?s1))"
      using r c 3 hdl by (auto simp: deactivate_one_deferred_def Let_def)
    then show ?thesis using devote_deactivate [OF k kc act s2] by simp
  qed
qed

lemma deactivate_deferred_from_ok:
  "pm_inv s \<Longrightarrow> deactivate_deferred_from e hs run s = Ret (b, s') \<Longrightarrow> pm_step_ok s s'"
proof (induction hs arbitrary: run s)
  case Nil
  then show ?case by (simp add: pm_step_ok_refl)
next
  case (Cons h hs)
  then obtain r s1 where one: "deactivate_one_deferred e h s = Ret (r, s1)"
    "deactivate_deferred_from e hs (run \<or> r) s1 = Ret (b, s')"
    by (auto split: outcome.splits prod.splits)
  have 1: "pm_step_ok s s1" using deactivate_one_ok [OF Cons.prems(1) one(1)] .
  then have "pm_inv s1" by (simp add: pm_step_ok_def)
  from Cons.IH [OF this one(2)] have "pm_step_ok s1 s'" .
  with 1 show ?case by (rule pm_step_ok_trans)
qed

lemma deactivate_all_deferred_ok:
  assumes inv: "pm_inv s" and r: "ipa_pm_deactivate_all_deferred e s = Ret (r, s')"
  shows "pm_step_ok s s'"
proof -
  obtain run s1 where d: "deactivate_deferred_from e [1..<IPA_PM_MAX_CLIENTS] False s = Ret (run, s1)"
    "s' = (if run then do_clk_scaling e s1 else s1)"
    using r inv by (auto simp: ipa_pm_deactivate_all_deferred_def pm_inv_def core_of_def split: outcome.splits prod.splits)
  then show ?thesis using deactivate_deferred_from_ok [OF inv d(1)] do_clk_scaling_ok by auto
qed

lemma set_throughput_ok:
  assumes inv: "pm_inv s"
  shows "pm_step_ok s (snd (ipa_pm_set_throughput e h tput s))"
proof -
  obtain p where p: "pm s = Some p" using pm_inv_pm [OF inv] by blast
  show ?thesis
  proof (cases "IPA_PM_MAX_CLIENTS \<le> h \<or> get_client h s = None \<or> tput < 0")
    case True
    then show ?thesis
      using inv p by (auto simp: ipa_pm_set_throughput_def pm_step_ok_refl get_client_def split: option.split)
  next
    case False
    then obtain c where h: "\<not> IPA_PM_MAX_CLIENTS \<le> h" "\<not> tput < 0" and c: "get_client h s = Some c" by auto
    have cl: "clients p h = Some c" using c p by (simp add: get_client_def)
    note ci = pm_inv_client(1) [OF inv c]
    let ?s1 = "if cl_group c = GROUP_DEFAULT then upd_client h (\<lambda>c. c\<lparr>cl_throughput := tput\<rparr>) s
               else upd_pm (\<lambda>p. p\<lparr>group_tput := (group_tput p)(cl_group c := tput)\<rparr>) s"
    have cinv: "clk_inv s" using inv by (simp add: pm_inv_def)
    have grp: "pm_step_ok s (upd_pm (\<lambda>p. p\<lparr>group_tput := g p\<rparr>) s)" for g
      by (rule pm_step_ok_same [OF inv]) (use p cinv in \<open>simp_all add: core_of_def core_of_pm_def\<close>,
          simp add: upd_pm_def core_of_pm_def)
    have cli: "pm_step_ok s (upd_client h (\<lambda>c. c\<lparr>cl_throughput := tput\<rparr>) s)"
      by (rule upd_client_ok [OF inv c]) (use ci in \<open>auto simp: client_inv_def voting_def\<close>)
    have "pm_step_ok s ?s1" using grp cli by simp
    then show ?thesis using h p cl do_clk_scaling_ok [of s ?s1 e] cli
      by (simp add: ipa_pm_set_throughput_def Let_def)
  qed
qed

lemma scaling_func_ok:
  assumes inv: "pm_inv s"
  shows "pm_step_ok s (clock_scaling_func e s)"
proof -
  have "pm_step_ok s (upd_scaling (\<lambda>d. d\<lparr>scaling_work := False\<rparr>) s)"
    using inv by (intro pm_step_ok_same) (auto simp: pm_inv_def)
  then show ?thesis unfolding clock_scaling_func_def by (rule do_clk_scaling_ok)
qed

lemma suspend_pipe_ok:
  assumes s: "pm_step_ok s0 s" and cb: "\<And>h c. get_client h s = Some c \<Longrightarrow> cl_callback c"
  shows "pm_step_ok s0 (snd (suspend_pipe bm i (n, s))) \<and> pm (snd (suspend_pipe bm i (n, s))) = pm s"
proof -
  have inv: "pm_inv s" using s by (simp add: pm_step_ok_def)
  then obtain k where k: "core_of s = Some k" "core_inv k" by (auto simp: pm_inv_def)
  then obtain p where p: "pm s = Some p" "core_of_pm p = k" by (auto simp: core_of_Some)
  have live: "clients p h \<noteq> None" if "clients_by_pipe p i = Some h" for h
    using k(2) p(2) that by (auto simp: core_inv_def core_of_pm_def)
  show ?thesis
    using s p live cb
    by (auto simp: suspend_pipe_def get_client_def split: option.splits intro: emit_ok) (auto simp: emit_def)
qed

lemma handle_suspend_ok:
  assumes inv: "pm_inv s" and cb: "\<And>h c. get_client h s = Some c \<Longrightarrow> cl_callback c"
  shows "pm_step_ok s (snd (ipa_pm_handle_suspend bm s))"
proof -
  have "pm_step_ok s (snd (foldl (\<lambda>st i. suspend_pipe bm i st) (n, s) is)) \<and>
     pm (snd (foldl (\<lambda>st i. suspend_pipe bm i st) (n, s) is)) = pm s" for n "is"
  proof (induction "is" rule: rev_induct)
    case Nil
    then show ?case using pm_step_ok_refl [OF inv] by simp
  next
    case (snoc i "is")
    let ?st = "foldl (\<lambda>st i. suspend_pipe bm i st) (n, s) is"
    have "get_client h (snd ?st) = get_client h s" for h using snoc by (simp add: get_client_def)
    then show ?case
      using suspend_pipe_ok [of s "snd ?st" bm i "fst ?st"] snoc cb by simp
  qed
  then show ?thesis using pm_step_ok_refl [OF inv] by (simp add: ipa_pm_handle_suspend_def)
qed

lemma associate_ok:
  assumes inv: "pm_inv s" and ep: "\<And>c. env_ep_mapping e c < int IPA3_MAX_NUM_PIPES"
  shows "pm_step_ok s (snd (ipa_pm_associate_ipa_cons_to_client e h consumer s))"
proof -
  obtain k where k: "clk_inv s" "bugs s = []" "core_of s = Some k" "core_inv k" "core_votes k \<le> clk_votes s"
    using inv by (rule pm_invE)
  obtain p where p: "pm s = Some p" "core_of_pm p = k" using k(3) by (auto simp: core_of_Some)
  have "pm_step_ok s (upd_pm (\<lambda>p. p\<lparr>clients_by_pipe := (clients_by_pipe p)(i \<mapsto> h)\<rparr>) s)"
    if "clients p h \<noteq> None" "i < IPA3_MAX_NUM_PIPES" for i
  proof (rule pm_step_okI [OF k(3,5,2)])
    let ?k = "k\<lparr>co_pipes := (co_pipes k)(i \<mapsto> h)\<rparr>"
    show "core_of (upd_pm (\<lambda>p. p\<lparr>clients_by_pipe := (clients_by_pipe p)(i \<mapsto> h)\<rparr>) s) = Some ?k"
      using p by (auto simp: core_of_def upd_pm_def core_of_pm_def)
    show "core_inv ?k" using k(4) that p(2) by (auto simp: core_inv_def core_of_pm_def)
    show "core_votes ?k = core_votes k + 0" by (simp add: core_votes_def)
  qed (use k in simp_all)
  then show ?thesis
    using pm_step_ok_refl [OF inv] ep [of "nat consumer"]
    by (auto simp: ipa_pm_associate_ipa_cons_to_client_def p(1) Let_def nat_less_iff)
qed

section \<open>Registration and deregistration\<close>

definition registered :: "string \<Rightarrow> (nat \<Rightarrow> pm_client option) \<Rightarrow> nat \<Rightarrow> bool" where
  "registered name cl i \<longleftrightarrow> (\<exists>c. cl i = Some c \<and> cl_name c = name)"

lemma find_open_spec:
  "find_open name p is n =
     (if \<exists>i \<in> set is. registered name (clients p) i then Inl EEXIST
      else case [i \<leftarrow> is. clients p i = None] of [] \<Rightarrow> n | i # js \<Rightarrow> Inr (last (i # js)))"
  by (induction "is" arbitrary: n) (auto simp: registered_def split: option.splits list.splits)

lemma hd_le_sorted: "sorted xs \<Longrightarrow> x \<in> set xs \<Longrightarrow> hd xs \<le> (x :: nat)"
  by (cases xs) auto

lemma find_next_open_Inr:
  assumes "find_next_open_array_element name p = Inr h"
  shows "1 \<le> h" "h < IPA_PM_MAX_CLIENTS" "clients p h = None"
    "\<And>i. 1 \<le> i \<Longrightarrow> i < IPA_PM_MAX_CLIENTS \<Longrightarrow> \<not> registered name (clients p) i"
    "\<And>i. 1 \<le> i \<Longrightarrow> i < h \<Longrightarrow> clients p i \<noteq> None"
proof -
  let ?is = "rev [1..<IPA_PM_MAX_CLIENTS]"
  let ?free = "[i \<leftarrow> ?is. clients p i = None]"
  have none: "\<not> (\<exists>i \<in> set ?is. registered name (clients p) i)" and last: "?free \<noteq> []" "h = last ?free"
    using assms by (auto simp: find_next_open_array_element_def find_open_spec split: if_splits list.splits)
  have "h \<in> set ?free" unfolding last(2) by (rule last_in_set [OF last(1)])
  then show "1 \<le> h" "h < IPA_PM_MAX_CLIENTS" "clients p h = None" by auto
  show "\<And>i. 1 \<le> i \<Longrightarrow> i < IPA_PM_MAX_CLIENTS \<Longrightarrow> \<not> registered name (clients p) i" using none by auto
  have "h = hd [i \<leftarrow> [1..<IPA_PM_MAX_CLIENTS]. clients p i = None]"
    using last by (simp add: rev_filter [symmetric] last_rev)
  then show "clients p i \<noteq> None" if "1 \<le> i" "i < h" for i
  proof -
    assume h: "h = hd [i \<leftarrow> [1..<IPA_PM_MAX_CLIENTS]. clients p i = None]"
    let ?xs = "[i \<leftarrow> [1..<IPA_PM_MAX_CLIENTS]. clients p i = None]"
    have srt: "sorted ?xs" by (rule sorted_wrt_filter) simp
    show ?thesis
    proof
      assume "clients p i = None"
      then have "i \<in> set ?xs" using that \<open>h < IPA_PM_MAX_CLIENTS\<close> by auto
      then have "hd ?xs \<le> i" by (rule hd_le_sorted [OF srt])
      then show False using h that(2) by simp
    qed
  qed
qed

lemma count_commas_nonneg [simp]: "0 \<le> count_commas s"
  by (simp add: count_commas_def)

lemma exception_match:
  "strnstr (ex_clients x) name (length name) \<and> length (ex_clients x) = length name \<longleftrightarrow> ex_clients x = name"
  using strnstr_same_length [of "ex_clients x" name] by auto

lemma exception_inv_add:
  assumes x: "exception_inv cl x" and free: "cl h = None" and h: "h < 32"
    and new: "\<And>i. \<not> registered (cl_name c) cl i"
  shows "ex_clients x = cl_name c \<Longrightarrow> 0 \<le> ex_pending x - 1 \<and>
      exception_inv (cl(h \<mapsto> c)) (x\<lparr>ex_pending := ex_pending x - 1, ex_bitmask := ex_bitmask x OR bit_of h\<rparr>)"
    and "ex_clients x \<noteq> cl_name c \<Longrightarrow> exception_inv (cl(h \<mapsto> c)) x"
proof -
  assume eq: "ex_clients x = cl_name c"
  have none: "\<not> (\<exists>c'. cl i = Some c' \<and> cl_name c' = cl_name c)" for i using new by (simp add: registered_def)
  then have b: "\<not> bit (ex_bitmask x) i" for i using x eq by (simp add: exception_inv_def)
  have p: "ex_pending x = count_commas (cl_name c) + 1"
    using x eq none by (auto simp: exception_inv_def)
  have ex: "\<exists>i c'. (cl(h \<mapsto> c)) i = Some c' \<and> cl_name c' = cl_name c" by (rule exI [of _ h]) simp
  have at: "(\<exists>c'. (cl(h \<mapsto> c)) i = Some c' \<and> cl_name c' = cl_name c) \<longleftrightarrow> i = h" for i
    using none by (auto simp: fun_upd_def)
  show "0 \<le> ex_pending x - 1 \<and>
      exception_inv (cl(h \<mapsto> c)) (x\<lparr>ex_pending := ex_pending x - 1, ex_bitmask := ex_bitmask x OR bit_of h\<rparr>)"
    using p ex at eq b h by (simp add: exception_inv_def mask_simps)
next
  assume ne: "ex_clients x \<noteq> cl_name c"
  have "(\<exists>c'. (cl(h \<mapsto> c)) i = Some c' \<and> cl_name c' = ex_clients x) \<longleftrightarrow>
      (\<exists>c'. cl i = Some c' \<and> cl_name c' = ex_clients x)" for i
    using ne free by (auto simp: fun_upd_def)
  then show "exception_inv (cl(h \<mapsto> c)) x" using x by (simp add: exception_inv_def)
qed

lemma add_to_exceptions_ok:
  assumes "\<forall>x \<in> set xs. exception_inv cl x" "cl h = None" "h < 32" "\<And>i. \<not> registered (cl_name c) cl i"
  shows "\<exists>ys. add_to_exceptions (cl_name c) h xs = (True, ys) \<and> length ys = length xs \<and>
     (\<forall>y \<in> set ys. exception_inv (cl(h \<mapsto> c)) y)"
  using assms(1)
proof (induction xs)
  case (Cons x xs)
  then obtain ys where ys: "add_to_exceptions (cl_name c) h xs = (True, ys)" "length ys = length xs"
    "\<forall>y \<in> set ys. exception_inv (cl(h \<mapsto> c)) y" by (auto simp del: fun_upd_apply)
  have x: "exception_inv cl x" using Cons.prems by simp
  note add = exception_inv_add [OF x assms(2-4)]
  show ?case
  proof (cases "ex_clients x = cl_name c")
    case True
    with add(1) [OF True] ys show ?thesis
      by (simp add: exception_match [symmetric] del: fun_upd_apply)
  next
    case False
    then have "\<not> (strnstr (ex_clients x) (cl_name c) (length (cl_name c)) \<and> length (ex_clients x) = length (cl_name c))"
      by (simp add: exception_match)
    with add(2) [OF False] ys show ?thesis by (auto simp del: fun_upd_apply)
  qed
qed simp


lemma core_of_exceptions [simp]:
  assumes "core_of s = Some k" "pm s = Some p"
  shows "core_of (upd_scaling (\<lambda>d. d\<lparr>exception_list := f d\<rparr>) s) =
    Some (k\<lparr>co_exceptions := take (exception_size (clk_scaling p)) (f (clk_scaling p))\<rparr>)"
  using assms by (auto simp: core_of_def upd_scaling_def upd_pm_def core_of_pm_def)

lemma take_rest: "take (n - min (length xs) n) (drop n xs) = []"
  by (cases "n \<le> length xs") auto

lemma register_success:
  assumes inv: "pm_inv s" and p: "pm s = Some p"
    and rp: "rp_name rp = Some name" "find_next_open_array_element name p = Inr h"
    and e: "env_kzalloc e" "env_wakeup_source e" and short: "length name < IPA_PM_MAX_EX_CL"
    and k: "core_of s = Some k"
  defines "c \<equiv> new_client name rp h True"
  obtains s' ys where "ipa_pm_register e (Some rp) True s = (OK, Some h, s')"
    "core_of s' = Some (k\<lparr>co_clients := (co_clients k)(h \<mapsto> c), co_exceptions := ys\<rparr>)"
    "clk_inv s' = clk_inv s" "clk_votes s' = clk_votes s" "bugs s' = bugs s"
    "\<forall>y \<in> set ys. exception_inv ((co_clients k)(h \<mapsto> c)) y"
    "client_inv h c" "\<forall>i. \<not> registered name (co_clients k) i" "co_clients k h = None" "act_cnt s' = act_cnt s"
    "s' = s\<lparr>pm := Some (p\<lparr>clients := (clients p)(h \<mapsto> c), clk_scaling := (clk_scaling p)\<lparr>exception_list :=
         ys @ drop (exception_size (clk_scaling p)) (exception_list (clk_scaling p))\<rparr>\<rparr>)\<rparr>"
    "add_to_exceptions (cl_name c) h (take (exception_size (clk_scaling p)) (exception_list (clk_scaling p))) = (True, ys)"
proof -
  have kp: "core_of_pm p = k" using k p by (auto simp: core_of_Some)
  have ki: "core_inv k" using inv k by (auto simp: pm_inv_def)
  have cl: "co_clients k = clients p" using kp by (auto simp: core_of_pm_def)
  note opn = find_next_open_Inr [OF rp(2)]
  define s1 where "s1 = upd_pm (\<lambda>p. p\<lparr>clients := (clients p)(h \<mapsto> c)\<rparr>) s"
  have nm: "cl_name c = name" using short by (simp add: c_def new_client_def strlcpy_short)
  let ?d = "clk_scaling p" and ?n = "exception_size (clk_scaling p)"
  have range: "1 \<le> i \<and> i < IPA_PM_MAX_CLIENTS" if "registered nm (clients p) i" for nm i
    using that core_inv_client [OF ki] cl by (auto simp: registered_def client_inv_def)
  have new: "\<not> registered (cl_name c) (clients p) i" for i using opn(4) range nm by blast
  have exs: "\<forall>x \<in> set (take ?n (exception_list ?d)). exception_inv (clients p) x"
    using ki kp cl by (auto simp: core_inv_def core_of_pm_def)
  obtain ys where ys: "add_to_exceptions (cl_name c) h (take ?n (exception_list ?d)) = (True, ys)"
    "length ys = length (take ?n (exception_list ?d))" "\<forall>y \<in> set ys. exception_inv ((clients p)(h \<mapsto> c)) y"
    using add_to_exceptions_ok [OF exs opn(3) _ new] opn(2) by (auto simp: pm_consts simp del: fun_upd_apply)
  let ?s2 = "upd_scaling (\<lambda>d. d\<lparr>exception_list := ys @ drop ?n (exception_list d)\<rparr>) s1"
  have p1: "pm s1 = Some (p\<lparr>clients := (clients p)(h \<mapsto> c)\<rparr>)" by (simp add: s1_def upd_pm_def p)
  have "ipa_pm_register e (Some rp) True s = (OK, Some h, ?s2)"
    using p rp e ys(1) p1
    by (auto simp: ipa_pm_register_def Let_def s1_def [symmetric] c_def [symmetric] add_client_to_exception_list_def)
  moreover have "core_of ?s2 = Some (k\<lparr>co_clients := (co_clients k)(h \<mapsto> c), co_exceptions := ys\<rparr>)"
  proof -
    have "core_of s1 = Some (k\<lparr>co_clients := (co_clients k)(h \<mapsto> c)\<rparr>)"
      using p kp by (auto simp: core_of_def p1 core_of_pm_def)
    from core_of_exceptions [OF this p1, of "\<lambda>d. ys @ drop ?n (exception_list d)"] show ?thesis
      using ys(2) by (simp add: take_rest)
  qed
  moreover have "client_inv h c" using opn(1,2) nm short
    by (auto simp: client_inv_def c_def new_client_def)
  moreover have "clk_inv ?s2 = clk_inv s" "clk_votes ?s2 = clk_votes s" "bugs ?s2 = bugs s"
    by (simp_all add: s1_def)
  moreover have "act_cnt ?s2 = act_cnt s" by (simp add: s1_def upd_scaling_def upd_pm_def)
  moreover have "?s2 = s\<lparr>pm := Some (p\<lparr>clients := (clients p)(h \<mapsto> c), clk_scaling := ?d\<lparr>exception_list :=
       ys @ drop ?n (exception_list ?d)\<rparr>\<rparr>)\<rparr>"
    by (simp add: s1_def upd_scaling_def upd_pm_def p)
  moreover have "\<forall>i. \<not> registered name (co_clients k) i" "co_clients k h = None"
    "\<forall>y \<in> set ys. exception_inv ((co_clients k)(h \<mapsto> c)) y"
    using new nm cl opn(3) ys(3) by (auto simp del: fun_upd_apply)
  ultimately show ?thesis using that [of ?s2 ys] ys(1) by blast
qed

lemma register_ok:
  assumes inv: "pm_inv s" and reg: "ipa_pm_register e params ptr s = (r, ho, s')"
    and ws: "env_wakeup_source e"
    and short: "\<And>rp name. params = Some rp \<Longrightarrow> rp_name rp = Some name \<Longrightarrow> length name < IPA_PM_MAX_EX_CL"
  shows "pm_step_ok s s'"
proof -
  obtain k where k: "clk_inv s" "bugs s = []" "core_of s = Some k" "core_inv k" "core_votes k \<le> clk_votes s"
    using inv by (rule pm_invE)
  obtain p where p: "pm s = Some p" using pm_inv_pm [OF inv] by blast
  show ?thesis
  proof (cases "s' = s")
    case True
    then show ?thesis using pm_step_ok_refl [OF inv] by simp
  next
    case False
    then obtain rp name h where rp: "params = Some rp" "rp_name rp = Some name"
      "find_next_open_array_element name p = Inr h" "ptr" "env_kzalloc e"
      using reg p by (auto simp: ipa_pm_register_def split: option.splits if_splits sum.splits)
    let ?c = "new_client name rp h True"
    obtain t ys where t: "ipa_pm_register e (Some rp) True s = (OK, Some h, t)"
      "core_of t = Some (k\<lparr>co_clients := (co_clients k)(h \<mapsto> ?c), co_exceptions := ys\<rparr>)"
      "clk_inv t = clk_inv s" "clk_votes t = clk_votes s" "bugs t = bugs s"
      "\<forall>y \<in> set ys. exception_inv ((co_clients k)(h \<mapsto> ?c)) y"
      "client_inv h ?c" "\<forall>i. \<not> registered name (co_clients k) i" "co_clients k h = None"
      by (rule register_success [OF inv p rp(2,3,5) ws short [OF rp(1,2)] k(3)]) (rule that; assumption)
    have st: "s' = t" using reg t(1) rp by simp
    let ?k = "k\<lparr>co_clients := (co_clients k)(h \<mapsto> ?c), co_exceptions := ys\<rparr>"
    have inact: "\<not> STATE_ACTIVE (cl_state ?c)" "\<not> voting ?c" "cl_name ?c = name"
      using short [OF rp(1,2)] by (auto simp: new_client_def voting_def strlcpy_short)
    have kinv: "core_inv ?k"
      unfolding core_inv_def
    proof (intro conjI)
      show "\<forall>h' c'. co_clients ?k h' = Some c' \<longrightarrow> client_inv h' c'" using core_inv_client [OF k(4)] t(7) by auto
      have m: "bit (co_mask k) i \<longleftrightarrow> (\<exists>c. co_clients k i = Some c \<and> STATE_ACTIVE (cl_state c))" for i
        using k(4) by (simp add: core_inv_def)
      show "\<forall>i. bit (co_mask ?k) i \<longleftrightarrow> (\<exists>c. co_clients ?k i = Some c \<and> STATE_ACTIVE (cl_state c))"
        using m inact(1) t(9) by auto
      show "\<forall>i h'. co_pipes ?k i = Some h' \<longrightarrow> i < IPA3_MAX_NUM_PIPES \<and> co_clients ?k h' \<noteq> None"
        using k(4) by (auto simp: core_inv_def)
      show "\<forall>h1 h2 c1 c2. co_clients ?k h1 = Some c1 \<longrightarrow> co_clients ?k h2 = Some c2 \<longrightarrow>
          cl_name c1 = cl_name c2 \<longrightarrow> h1 = h2"
      proof (intro allI impI)
        fix h1 h2 c1 c2
        assume h: "co_clients ?k h1 = Some c1" "co_clients ?k h2 = Some c2" "cl_name c1 = cl_name c2"
        have nn: "co_clients k i = Some c' \<Longrightarrow> cl_name c' \<noteq> name" for i c'
          using t(8) by (auto simp: registered_def)
        have "co_clients k h1 = Some c1 \<Longrightarrow> co_clients k h2 = Some c2 \<Longrightarrow> h1 = h2"
          using k(4) h(3) by (auto simp: core_inv_def)
        then show "h1 = h2" using h nn [of h1 c1] nn [of h2 c2] inact(3)
          by (cases "h1 = h"; cases "h2 = h") auto
      qed
      show "\<forall>x \<in> set (co_exceptions ?k). exception_inv (co_clients ?k) x" using t(6) by simp
    qed
    have votes: "core_votes ?k = core_votes k + 0"
      using inact(2) t(9) by (auto simp: core_votes_def intro!: count_below_cong)
    show ?thesis unfolding st
      by (rule pm_step_okI [OF k(3,5,2) _ _ t(2) kinv _ votes]) (use k t in simp_all)
  qed
qed

lemma exception_inv_remove:
  assumes x: "exception_inv cl x" and c: "cl h = Some c" and h: "h < 32"
    and uniq: "\<And>i c'. cl i = Some c' \<Longrightarrow> cl_name c' = cl_name c \<Longrightarrow> i = h"
  shows "exception_inv (cl(h := None)) (remove_from_exception h x)"
proof (cases "ex_clients x = cl_name c")
  case True
  have b: "bit (ex_bitmask x) i \<longleftrightarrow> i = h" for i
  proof -
    have "bit (ex_bitmask x) i \<longleftrightarrow> (\<exists>c'. cl i = Some c' \<and> cl_name c' = cl_name c)"
      using x True by (simp add: exception_inv_def)
    then show ?thesis using c uniq by blast
  qed
  have none: "\<not> (\<exists>i c'. (cl(h := None)) i = Some c' \<and> cl_name c' = cl_name c)"
    using uniq by (auto simp: fun_upd_def)
  have "\<exists>i c'. cl i = Some c' \<and> cl_name c' = ex_clients x" using c True by auto
  then have p: "ex_pending x = count_commas (ex_clients x)" using x by (simp add: exception_inv_def)
  have t: "ex_bitmask x AND bit_of h \<noteq> 0" using b by (simp add: mask_simps)
  show ?thesis using none True p t b by (simp add: exception_inv_def remove_from_exception_def mask_simps)
next
  case False
  have t: "\<not> ex_bitmask x AND bit_of h \<noteq> 0" unfolding mask_simps using x c False by (simp add: exception_inv_def)
  have "(\<exists>c'. (cl(h := None)) i = Some c' \<and> cl_name c' = ex_clients x) \<longleftrightarrow>
     (\<exists>c'. cl i = Some c' \<and> cl_name c' = ex_clients x)" for i using c False by (auto simp: fun_upd_def)
  then show ?thesis using x t by (simp add: exception_inv_def remove_from_exception_def)
qed

lemma deregister_ok:
  assumes inv: "pm_inv s" and r: "ipa_pm_deregister h s = Ret (r, s')"
    and quiet: "\<And>c. get_client h s = Some c \<Longrightarrow> \<not> cl_sync_inflight c"
  shows "pm_step_ok s s' \<and> (r = OK \<longrightarrow> get_client h s' = None)"
proof -
  obtain k where k: "clk_inv s" "bugs s = []" "core_of s = Some k" "core_inv k" "core_votes k \<le> clk_votes s"
    using inv by (rule pm_invE)
  obtain p where p: "pm s = Some p" "core_of_pm p = k" using k(3) by (auto simp: core_of_Some)
  have cl: "co_clients k = clients p" "co_pipes k = clients_by_pipe p" using p(2) by (auto simp: core_of_pm_def)
  show ?thesis
  proof (cases "r = OK")
    case False
    then have "s' = s" using r p(1) by (auto simp: ipa_pm_deregister_def split: option.splits if_splits)
    then show ?thesis using pm_step_ok_refl [OF inv] False by simp
  next
    case True
    then obtain c where c: "clients p h = Some c" "\<not> STATE_ACTIVE (cl_state c)"
      "\<not> (STATE_IN_PROGRESS (cl_state c) \<and> \<not> cl_complete c)" "s' = free_client h c s"
      using r p(1) by (auto simp: ipa_pm_deregister_def split: option.splits if_splits)
    have kc: "co_clients k h = Some c" using c(1) cl by simp
    note ci = core_inv_client [OF k(4) kc]
    have "get_client h s = Some c" using c(1) p(1) by (simp add: get_client_def)
    then have idle: "\<not> cl_activate_work c" "\<not> cl_deactivate_work c" "\<not> cl_sync_inflight c"
      using ci c(2,3) quiet timer_active [of "cl_state c"] by (auto simp: client_inv_def)
    have h: "h < 32" using ci by (simp add: client_inv_def pm_consts)
    let ?p = "p\<lparr>clients := (clients p)(h := None), clients_by_pipe :=
       (\<lambda>i. if i < IPA3_MAX_NUM_PIPES \<and> clients_by_pipe p i = Some h then None else clients_by_pipe p i)\<rparr>"
    let ?d = "clk_scaling p"
    let ?xs = "map (remove_from_exception h) (take (exception_size ?d) (exception_list ?d))"
    have s': "s' = s\<lparr>pm := Some (?p\<lparr>clk_scaling := ?d\<lparr>exception_list := ?xs @ drop (exception_size ?d) (exception_list ?d)\<rparr>\<rparr>)\<rparr>"
      using idle c(4) p(1) by (simp add: free_client_def remove_client_from_exception_list_def upd_scaling_def upd_pm_def Let_def)
    let ?k = "\<lparr>co_clients = (clients p)(h := None), co_pipes = clients_by_pipe ?p, co_mask = co_mask k, co_exceptions = ?xs\<rparr>"
    have core: "core_of s' = Some ?k" using p(2) by (auto simp: s' core_of_def core_of_pm_def)
    have uniq: "i = h" if "clients p i = Some c'" "cl_name c' = cl_name c" for i c'
      using that k(4) kc cl by (auto simp: core_inv_def)
    have m: "bit (co_mask k) i \<longleftrightarrow> (\<exists>c. clients p i = Some c \<and> STATE_ACTIVE (cl_state c))" for i
      using k(4) cl by (simp add: core_inv_def)
    have exs: "\<forall>x \<in> set (take (exception_size ?d) (exception_list ?d)). exception_inv (clients p) x"
      using k(4) p(2) cl by (auto simp: core_inv_def core_of_pm_def)
    have kinv: "core_inv ?k"
      unfolding core_inv_def
    proof (intro conjI)
      show "\<forall>h' c'. co_clients ?k h' = Some c' \<longrightarrow> client_inv h' c'" using core_inv_client [OF k(4)] cl by auto
      show "\<forall>i. bit (co_mask ?k) i \<longleftrightarrow> (\<exists>c. co_clients ?k i = Some c \<and> STATE_ACTIVE (cl_state c))"
        using m c(1,2) by auto
      show "\<forall>i h'. co_pipes ?k i = Some h' \<longrightarrow> i < IPA3_MAX_NUM_PIPES \<and> co_clients ?k h' \<noteq> None"
        using k(4) cl by (auto simp: core_inv_def)
      show "\<forall>h1 h2 c1 c2. co_clients ?k h1 = Some c1 \<longrightarrow> co_clients ?k h2 = Some c2 \<longrightarrow>
          cl_name c1 = cl_name c2 \<longrightarrow> h1 = h2"
        using k(4) cl by (auto simp: core_inv_def)
      show "\<forall>x \<in> set (co_exceptions ?k). exception_inv (co_clients ?k) x"
      proof
        fix y assume "y \<in> set (co_exceptions ?k)"
        then obtain x where x: "exception_inv (clients p) x" "y = remove_from_exception h x"
          using exs by auto
        have "exception_inv ((clients p)(h := None)) (remove_from_exception h x)"
          by (rule exception_inv_remove [OF x(1) c(1) h]) (fact uniq)
        then show "exception_inv (co_clients ?k) y" using x(2) by simp
      qed
    qed
    have votes: "core_votes ?k = core_votes k + 0"
      using c(1,2) cl by (auto simp: core_votes_def voting_def intro!: count_below_cong)
    have "pm_step_ok s s'"
      by (rule pm_step_okI [OF k(3,5,2) _ _ core kinv _ votes])
         (use k in \<open>simp_all add: s' clk_inv_def clk_votes_def\<close>)
    then show ?thesis by (simp add: s' get_client_def)
  qed
qed

section \<open>All histories of the power manager\<close>

lemma init_ok:
  assumes inv: "clk_inv s" "bugs s = []" and r: "ipa_pm_init e params s = (OK, s')"
  shows "pm_inv s' \<and> other_votes s' = clk_votes s"
proof -
  obtain ip where ip: "params = Some ip" "0 < ip_threshold_size ip" "ip_exception_size ip \<le> int IPA_PM_EXCEPTION_MAX"
    and s': "s' = s\<lparr>pm := Some
                 \<lparr>clients = (\<lambda>h. None), clients_by_pipe = (\<lambda>i. None),
                  clk_scaling =
                    \<lparr>exception_list = init_exceptions (nat (ip_threshold_size ip)) (nat (ip_exception_size ip)) (ip_exceptions ip), scaling_work = False,
                     active_client_bitmask = 0, threshold_size = nat (ip_threshold_size ip), exception_size = nat (ip_exception_size ip), cur_vote = 0,
                     default_threshold = threshold_copy (nat (ip_threshold_size ip)) (ip_default_threshold ip),
                     current_threshold = ThNull\<rparr>,
                  aggregated_tput = 0, group_tput = (\<lambda>g. 0)\<rparr>\<rparr>"
    using r by (auto simp: ipa_pm_init_def Let_def split: option.splits if_splits)
  let ?xs = "take (nat (ip_exception_size ip)) (init_exceptions (nat (ip_threshold_size ip)) (nat (ip_exception_size ip)) (ip_exceptions ip))"
  have core: "core_of s' = Some \<lparr>co_clients = (\<lambda>h. None), co_pipes = (\<lambda>i. None), co_mask = 0, co_exceptions = ?xs\<rparr>"
    by (simp add: s' core_of_def core_of_pm_def)
  have ex: "exception_inv (\<lambda>h. None) x" if "x \<in> set ?xs" for x
    using that ip(3) by (auto simp: init_exceptions_def take_map exception_inv_def init_exception_def Let_def)
  have "core_inv \<lparr>co_clients = (\<lambda>h. None), co_pipes = (\<lambda>i. None), co_mask = 0, co_exceptions = ?xs\<rparr>"
    using ex by (auto simp: core_inv_def)
  moreover have "core_votes \<lparr>co_clients = (\<lambda>h. None), co_pipes = (\<lambda>i. None), co_mask = 0, co_exceptions = ?xs\<rparr> = 0"
    by (simp add: core_votes_def count_below_def)
  moreover have "clk_inv s'" "clk_votes s' = clk_votes s" "bugs s' = bugs s"
    using inv(1) by (auto simp: s' clk_inv_def clk_votes_def)
  ultimately show ?thesis
    using core inv clk_invD(1) [OF inv(1)] by (auto simp: pm_inv_def other_votes_def)
qed

text \<open>
  The operations and works of the power manager, in any environment. The guards are the
  contract of its users: registered names are shorter than the name field, a client that is
  activated synchronously by one thread is not deactivated or deregistered by another before
  the activation returns, every client has a callback when the suspend interrupt fires, and the
  wake source of a new client can be registered.
\<close>

inductive pm_own_step :: "ipa \<Rightarrow> ipa \<Rightarrow> bool" where
  own_register: "ipa_pm_register e (Some rp) True s = (r, ho, s') \<Longrightarrow> env_wakeup_source e \<Longrightarrow>
    (\<And>name. rp_name rp = Some name \<Longrightarrow> length name < IPA_PM_MAX_EX_CL) \<Longrightarrow> pm_own_step s s'"
| own_deregister: "ipa_pm_deregister h s = Ret (r, s') \<Longrightarrow>
    (\<And>c. get_client h s = Some c \<Longrightarrow> \<not> cl_sync_inflight c) \<Longrightarrow> pm_own_step s s'"
| own_associate: "(\<And>c. env_ep_mapping e c < int IPA3_MAX_NUM_PIPES) \<Longrightarrow>
    pm_own_step s (snd (ipa_pm_associate_ipa_cons_to_client e h consumer s))"
| own_activate: "pm_own_step s (snd (ipa_pm_activate e h s))"
| own_sync_enter: "activate_sync_enter e h s = Ret (r, s') \<Longrightarrow> pm_own_step s s'"
| own_sync_resume: "get_client h s = Some c \<Longrightarrow> cl_sync_inflight c \<Longrightarrow>
    pm_own_step s (activate_sync_resume e h s)"
| own_deferred: "pm_own_step s (snd (ipa_pm_deferred_deactivate h s))"
| own_deactivate_one: "deactivate_one_deferred e h s = Ret (b, s') \<Longrightarrow> pm_own_step s s'"
| own_deactivate_all: "ipa_pm_deactivate_all_deferred e s = Ret (r, s') \<Longrightarrow> pm_own_step s s'"
| own_deactivate_sync: "ipa_pm_deactivate_sync e h s = Ret (r, s') \<Longrightarrow>
    (\<And>c. get_client h s = Some c \<Longrightarrow> \<not> cl_sync_inflight c) \<Longrightarrow> pm_own_step s s'"
| own_set_throughput: "pm_own_step s (snd (ipa_pm_set_throughput e h tput s))"
| own_suspend: "(\<And>h c. get_client h s = Some c \<Longrightarrow> cl_callback c) \<Longrightarrow>
    pm_own_step s (snd (ipa_pm_handle_suspend bm s))"
| own_activate_work: "get_client h s = Some c \<Longrightarrow> cl_activate_work c \<Longrightarrow>
    pm_own_step s (run_activate_work e h s)"
| own_deactivate_work: "get_client h s = Some c \<Longrightarrow> cl_deactivate_work c \<Longrightarrow>
    pm_own_step s (run_deactivate_work e h s)"
| own_scaling: "pm_own_step s (clock_scaling_func e s)"

text \<open>The other users of the clocks: each releases only votes that are not the clients'.\<close>

inductive other_step :: "ipa \<Rightarrow> ipa \<Rightarrow> bool" where
  other_inc: "other_step s (inc_client_enable_clks e li s)"
| other_inc_nb: "other_step s (snd (inc_client_enable_clks_no_block e li s))"
| other_dec: "1 \<le> other_votes s \<Longrightarrow> other_step s (dec_client_disable_clks e li s)"
| other_dec_nb: "1 \<le> other_votes s \<Longrightarrow> other_step s (dec_client_disable_clks_no_block e li s)"
| other_dec_delay: "1 \<le> other_votes s \<Longrightarrow> \<not> dec_suspend_wq_work s \<Longrightarrow>
    other_step s (dec_client_disable_clks_delay_wq e li s)"
| other_tag_work: "tag_work s \<Longrightarrow> other_step s (run_tag_work e s)"
| other_dec_work: "dec_wq_work s \<Longrightarrow> other_step s (run_dec_wq_work e s)"
| other_suspend_work: "dec_suspend_wq_work s \<Longrightarrow> other_step s (run_dec_suspend_wq_work e s)"
| other_tag_request: "other_step s (s\<lparr>tag_process_before_gating := b\<rparr>)"

inductive pm_reachable :: "ipa \<Rightarrow> bool" where
  pm_reach_init: "clk_reachable s \<Longrightarrow> ipa_pm_init e params s = (OK, s') \<Longrightarrow> pm_reachable s'"
| pm_reach_own: "pm_reachable s \<Longrightarrow> pm_own_step s s' \<Longrightarrow> pm_reachable s'"
| pm_reach_other: "pm_reachable s \<Longrightarrow> other_step s s' \<Longrightarrow> pm_reachable s'"

lemma pm_own_step_ok:
  assumes "pm_own_step s s'" "pm_inv s"
  shows "pm_step_ok s s'"
  using assms
proof (induction rule: pm_own_step.induct)
  case (own_register e rp s r ho s')
  then show ?case by (intro register_ok [OF _ own_register(1,2)]) auto
next
  case (own_deregister h s r s')
  then show ?case using deregister_ok by blast
next
  case (own_sync_enter e h s r s')
  then show ?case using activate_sync_enter_ok by blast
qed (auto intro: associate_ok activate_ok activate_sync_resume_ok deferred_deactivate_ok deactivate_one_ok
      deactivate_all_deferred_ok deactivate_sync_ok set_throughput_ok handle_suspend_ok activate_work_ok
      deactivate_work_ok scaling_func_ok)

lemma clk_step_ok_core: "clk_step_ok d s s' \<Longrightarrow> core_of s' = core_of s"
  by (auto simp: clk_step_ok_def core_of_def option.map_comp o_def)

lemma other_moves:
  assumes "pm_inv s" "clk_step_ok d s s'" "0 \<le> other_votes s + d"
  shows "pm_inv s' \<and> core_of s' = core_of s"
  using assms clk_step_ok_core [OF assms(2)]
  by (auto simp: pm_inv_def clk_step_ok_def other_votes_def)

lemma pm_inv_others: "pm_inv s \<Longrightarrow> 0 \<le> other_votes s \<and> other_votes s \<le> clk_votes s"
  by (auto simp: pm_inv_def other_votes_def core_votes_def)

lemma other_step_moves:
  assumes "other_step s s'" and inv: "pm_inv s"
  shows "pm_inv s' \<and> core_of s' = core_of s"
proof -
  have c: "clk_inv s" using inv by (simp add: pm_inv_def)
  note o = pm_inv_others [OF inv]
  from assms(1) show ?thesis
  proof cases
    case (other_inc e li)
    then show ?thesis using inc_ok [OF c, of e li] o other_moves [OF inv, of 1 s'] by simp
  next
    case (other_inc_nb e li)
    then show ?thesis
      using inc_no_block_ok [OF c, of e li s'] inc_no_block_fails [of e li s _ s'] o inv other_moves [OF inv, of 1 s']
      by (cases "inc_client_enable_clks_no_block e li s"; cases "fst (inc_client_enable_clks_no_block e li s)") auto
  next
    case (other_dec e li)
    then show ?thesis using dec_ok [OF c, of e li] o other_moves [OF inv, of "- 1" s'] by simp
  next
    case (other_dec_nb e li)
    then show ?thesis using dec_no_block_ok [OF c, of e li] o other_moves [OF inv, of "- 1" s'] by simp
  next
    case (other_dec_delay e li)
    then show ?thesis using dec_delay_ok [OF c, of e li] o other_moves [OF inv, of "- 1" s'] by simp
  next
    case (other_tag_work e)
    then show ?thesis using run_work_ok(3) [OF c, of e] o other_moves [OF inv, of 0 s'] by simp
  next
    case (other_dec_work e)
    then show ?thesis using run_work_ok(1) [OF c, of e] o other_moves [OF inv, of 0 s'] by simp
  next
    case (other_suspend_work e)
    then show ?thesis using run_work_ok(2) [OF c, of e] o other_moves [OF inv, of 0 s'] by simp
  next
    case (other_tag_request b)
    have "clk_step_ok 0 s s'"
      using clk_invD [OF c] unfolding other_tag_request by (auto simp: clk_step_ok_def clk_votes_def intro!: clk_invI)
    then show ?thesis using o other_moves [OF inv, of 0 s'] by simp
  qed
qed

lemma other_step_inv: "other_step s s' \<Longrightarrow> pm_inv s \<Longrightarrow> pm_inv s'"
  using other_step_moves by blast

lemma pm_reachable_inv: "pm_reachable s \<Longrightarrow> pm_inv s"
proof (induction rule: pm_reachable.induct)
  case (pm_reach_init s e params s')
  then show ?case using init_ok clk_reachable_inv by blast
next
  case (pm_reach_own s s')
  then show ?case using pm_own_step_ok by (auto simp: pm_step_ok_def)
next
  case (pm_reach_other s s')
  then show ?case using other_step_inv by blast
qed

end
