(* ===== verification/Ipa_Pm_Props.thy ===== *)
theory Ipa_Pm_Props
  imports Ipa_Pm_Inv
begin

text \<open>
  The properties of the power manager: safety of its clients in every history, exact vote
  accounting, what activation, deactivation, registration and wake-up achieve, the selection of
  the clock plan, and the behaviours in which the code departs from its documentation.
\<close>

section \<open>A concrete run\<close>

definition demo_params :: pm_init_params where
  "demo_params = \<lparr>ip_default_threshold = [300, 900, 2000, 0, 0], ip_threshold_size = 3,
     ip_exceptions = [(''usb'', [100, 200, 300, 0, 0])], ip_exception_size = 1\<rparr>"

definition demo_rp :: "string \<Rightarrow> pm_register_params" where
  "demo_rp name = \<lparr>rp_name = Some name, rp_callback = True, rp_group = GROUP_APPS, rp_skip_clk_vote = False\<rparr>"

text \<open>
  Two drivers to start from: just booted, and with the vote of the boot released so that the
  clocks are gated.
\<close>

definition demo_gated :: ipa where
  "demo_gated = dec_client_disable_clks demo_env (demo_info ''PROXY_CLK_VOTE'') demo_boot"

definition demo_base :: "ipa \<Rightarrow> bool" where
  "demo_base b \<longleftrightarrow> clk_reachable b \<and> pm b = None"

lemma demo_base_boot: "demo_base demo_boot"
  using demo_boot_reachable demo_boot_facts(5) by (simp add: demo_base_def)

lemma demo_gated_facts: "demo_base demo_gated" "act_cnt demo_gated = 0" "clk_votes demo_gated = 0"
proof -
  have v: "1 \<le> clk_votes demo_boot" using demo_boot_facts(3) by simp
  note d = dec_ok [OF demo_boot_facts(1) v, of demo_env "demo_info ''PROXY_CLK_VOTE''", folded demo_gated_def]
  have "clk_reachable demo_gated" unfolding demo_gated_def
    by (rule reach_step [OF demo_boot_reachable step_dec [OF v]])
  then show "demo_base demo_gated" using d demo_boot_facts(5) by (auto simp: demo_base_def clk_step_ok_def)
  show votes: "clk_votes demo_gated = 0" using d demo_boot_facts(3) by (simp add: clk_step_ok_def)
  have tag: "\<not> tag_process_before_gating demo_boot"
    by (simp add: ipa3_pre_init_clks_def Let_def demo_ipa_def active_clients_log_mod_def
        ipa3_enable_clks_def get_bus_vote_def icc_vote_def icc_set_bw_def demo_env_def emit_def
        ctrl_enable_clks_def clk_set_rate_def)
  have "drain_measure demo_gated = drain_measure demo_boot - 1"
  proof -
    let ?t = "active_clients_log_mod demo_env (demo_info ''PROXY_CLK_VOTE'') False demo_boot"
    have "drain_measure (dec_client_disable_clks0 demo_env ?t) = drain_measure ?t - 1"
      by (rule dec0_measure) (use demo_boot_facts(2) in \<open>simp_all add: demo_env_def\<close>)
    then show ?thesis
      by (simp add: demo_gated_def dec_client_disable_clks_def drain_measure_def active_clients_log_mod_def)
  qed
  then have "act_cnt demo_gated \<le> 0" using demo_boot_facts(2) tag
    by (cases "tag_process_before_gating demo_gated") (auto simp: drain_measure_def)
  then show "act_cnt demo_gated = 0" using clk_votes_le [of demo_gated] votes by simp
qed

definition demo_s1 :: "ipa \<Rightarrow> ipa" where "demo_s1 b = snd (ipa_pm_init demo_env (Some demo_params) b)"
definition demo_s2 :: "ipa \<Rightarrow> ipa" where
  "demo_s2 b = snd (snd (ipa_pm_register demo_env (Some (demo_rp ''usb'')) True (demo_s1 b)))"
definition demo_s3 :: "ipa \<Rightarrow> ipa" where "demo_s3 b = snd (ipa_pm_activate demo_env 1 (demo_s2 b))"

lemma demo_s1_init: "demo_base b \<Longrightarrow> ipa_pm_init demo_env (Some demo_params) b = (OK, demo_s1 b)"
  by (simp add: demo_base_def demo_s1_def ipa_pm_init_def demo_params_def demo_env_def pm_consts Let_def)

lemma demo_s1_reachable: "demo_base b \<Longrightarrow> pm_reachable (demo_s1 b)"
  by (rule pm_reach_init [OF _ demo_s1_init]) (auto simp: demo_base_def)

lemma demo_s1_clients:
  "demo_base b \<Longrightarrow> \<exists>p. pm (demo_s1 b) = Some p \<and> clients p = (\<lambda>h. None) \<and> act_cnt (demo_s1 b) = act_cnt b"
  by (simp add: demo_base_def demo_s1_def ipa_pm_init_def demo_params_def demo_env_def pm_consts Let_def)

lemma find_open_empty:
  assumes "clients p = (\<lambda>h. None)"
  shows "find_next_open_array_element name p = Inr 1"
  by (simp add: find_next_open_array_element_def find_open_spec assms registered_def pm_consts upt_conv_Cons)

lemma demo_s2_reachable: "demo_base b \<Longrightarrow> pm_reachable (demo_s2 b)"
proof -
  assume b: "demo_base b"
  obtain r ho where "ipa_pm_register demo_env (Some (demo_rp ''usb'')) True (demo_s1 b) = (r, ho, demo_s2 b)"
    unfolding demo_s2_def by (metis prod.collapse)
  then show ?thesis
    by (rule pm_reach_own [OF demo_s1_reachable [OF b] own_register])
       (auto simp: demo_env_def demo_rp_def pm_consts)
qed

lemma demo_s2_client:
  assumes b: "demo_base b"
  shows "get_client 1 (demo_s2 b) = Some (new_client ''usb'' (demo_rp ''usb'') 1 True)"
    "act_cnt (demo_s2 b) = act_cnt b"
proof -
  obtain p where p: "pm (demo_s1 b) = Some p" "clients p = (\<lambda>h. None)" "act_cnt (demo_s1 b) = act_cnt b"
    using demo_s1_clients [OF b] by blast
  have inv: "pm_inv (demo_s1 b)" by (rule pm_reachable_inv [OF demo_s1_reachable [OF b]])
  then obtain k where k: "core_of (demo_s1 b) = Some k" by (auto simp: pm_inv_def)
  have "\<exists>s' k'. ipa_pm_register demo_env (Some (demo_rp ''usb'')) True (demo_s1 b) = (OK, Some 1, s') \<and>
      core_of s' = Some k' \<and> co_clients k' 1 = Some (new_client ''usb'' (demo_rp ''usb'') 1 True) \<and>
      act_cnt s' = act_cnt (demo_s1 b)"
    by (rule register_success [OF inv p(1) _ find_open_empty [OF p(2)] _ _ _ k, of "demo_rp ''usb''" "''usb''" demo_env])
       (auto simp: demo_rp_def demo_env_def pm_consts)
  then show "get_client 1 (demo_s2 b) = Some (new_client ''usb'' (demo_rp ''usb'') 1 True)"
    "act_cnt (demo_s2 b) = act_cnt b"
    using get_client_core p(3) by (auto simp: demo_s2_def)
qed

lemma demo_s3_reachable: "demo_base b \<Longrightarrow> pm_reachable (demo_s3 b)"
  unfolding demo_s3_def by (rule pm_reach_own [OF demo_s2_reachable own_activate])

text \<open>On gated clocks the activation is left to the work queue.\<close>

lemma demo_s3_gated:
  "get_client 1 (demo_s3 demo_gated) = Some (new_client ''usb'' (demo_rp ''usb'') 1 True
     \<lparr>cl_state := ACTIVATE_IN_PROGRESS, cl_complete := False, cl_activate_work := True\<rparr>)"
proof -
  note c = demo_s2_client [OF demo_gated_facts(1)]
  obtain p where "pm (demo_s2 demo_gated) = Some p" "clients p 1 = Some (new_client ''usb'' (demo_rp ''usb'') 1 True)"
    using c(1) by (auto simp: get_client_def split: option.splits)
  then have "demo_s3 demo_gated = upd_client 1 (\<lambda>c. c\<lparr>cl_state := ACTIVATE_IN_PROGRESS, cl_complete := False,
      cl_activate_work := True\<rparr>) (demo_s2 demo_gated)"
    using c(2) demo_gated_facts(2)
    by (simp add: demo_s3_def ipa_pm_activate_def activate_helper_async_def pm_consts new_client_def demo_rp_def
        inc_client_enable_clks_no_block_def)
  then show ?thesis using get_client_upd [OF c(1)] by simp
qed

section \<open>What activation achieves\<close>

lemma pm_inv_running:
  assumes "pm_inv s" "get_client h s = Some c" "voting c"
  shows "clk_running s"
proof -
  obtain k where k: "clk_inv s" "core_of s = Some k" "core_inv k" "core_votes k \<le> clk_votes s"
    using assms(1) by (auto simp: pm_inv_def)
  have "1 \<le> clk_votes s"
    using core_voting_pos [OF k(3) _ assms(3), of h] assms(2) get_client_core [OF k(2)] k(4) by auto
  then show ?thesis by (rule clk.running_law [OF k(1)])
qed

lemma set_state_client: "get_client h s = Some c \<Longrightarrow> get_client h (set_state h st s) = Some (c\<lparr>cl_state := st\<rparr>)"
  unfolding set_state_def by (rule get_client_upd)

lemma got_clocks_client:
  assumes "clk_inv s" "core_of s = Some k" "get_client h s = Some c"
  shows "get_client h (got_clocks e sync h s) = Some (activated_client c)"
proof -
  have c: "co_clients k h = Some c" using assms(3) get_client_core [OF assms(2)] by simp
  show ?thesis using get_client_core [OF got_clocks_core(4) [OF assms(1,2) c]] by simp
qed

text \<open>The asynchronous activation, by the state it finds.\<close>

lemma activate_moves:
  assumes inv: "pm_inv s" and c: "get_client h s = Some c" and r: "ipa_pm_activate e h s = (r, s')"
  shows "\<exists>c'. get_client h s' = Some c' \<and> fixed_part c' = fixed_part c \<and>
    (r = OK \<and> (STATE_ACTIVE (cl_state c) \<or> cl_state c = DEACTIVATED) \<and> calm (cl_state c') \<or>
     r = Err EINPROGRESS \<and> cl_state c' = ACTIVATE_IN_PROGRESS \<and> \<not> STATE_ACTIVE (cl_state c))"
proof -
  obtain p where p: "pm s = Some p" using pm_inv_pm [OF inv] by blast
  obtain k where k: "clk_inv s" "core_of s = Some k" using inv by (auto simp: pm_inv_def)
  have "h < IPA_PM_MAX_CLIENTS" by (rule pm_inv_client(2) [OF inv c])
  then have eq: "activate_helper_async e h c s = (r, s')"
    using r c p by (simp add: ipa_pm_activate_def get_client_def)
  consider "STATE_IN_PROGRESS (cl_state c)" | st where "already_active (cl_state c) = Some st"
    | "cl_state c = DEACTIVATED"
    using already_active_None [of "cl_state c"] by (cases "already_active (cl_state c)") auto
  then show ?thesis
  proof cases
    case 1
    then have "\<not> STATE_ACTIVE (cl_state c)" by (cases "cl_state c") auto
    then show ?thesis using 1 eq set_state_client [OF c] by (auto simp: activate_helper_async_def)
  next
    case 2
    then have "calm st" by (cases "cl_state c") auto
    with 2 already_active_Some [OF 2] eq show ?thesis
      using set_state_client [OF c] by (auto simp: activate_helper_async_def)
  next
    case 3
    obtain n s1 where nb: "inc_client_enable_clks_no_block e (PREP_SPECIAL ''ipa_pm.c'' 949 (cl_name c)) s = (n, s1)"
      by fastforce
    have act: "calm (cl_state (activated_client c))" "fixed_part (activated_client c) = fixed_part c"
      by (simp_all add: activated_client_def fixed_part_def)
    show ?thesis
    proof (cases "cl_skip_clk_vote c \<or> n = OK")
      case True
      let ?t = "if cl_skip_clk_vote c then s else s1"
      have "clk_inv ?t \<and> core_of ?t = Some k"
        using True k nb_core [OF k(1)] nb by (cases "cl_skip_clk_vote c") auto
      moreover have "get_client h ?t = Some c" using calculation get_client_core c k(2) by metis
      moreover have "r = OK" "s' = got_clocks e False h ?t"
        using 3 eq True nb by (auto simp: activate_helper_async_def split: if_splits)
      ultimately show ?thesis using 3 got_clocks_client [of ?t k h c e False] act by blast
    next
      case False
      then obtain x where x: "n = Err x" by (cases n) auto
      then have "s1 = s" using inc_no_block_fails nb by blast
      then have "r = Err EINPROGRESS" "get_client h s' = Some (c\<lparr>cl_state := ACTIVATE_IN_PROGRESS,
          cl_complete := False, cl_activate_work := True\<rparr>)"
        using 3 eq False nb x get_client_upd [OF c] by (auto simp: activate_helper_async_def)
      then show ?thesis using 3 by simp
    qed
  qed
qed

lemma calm_active: "calm st \<Longrightarrow> STATE_ACTIVE st"
  by (cases st) auto

lemma activate_result:
  assumes inv: "pm_inv s" and c: "get_client h s = Some c" and r: "ipa_pm_activate e h s = (r, s')"
  shows "\<exists>c'. get_client h s' = Some c' \<and> cl_skip_clk_vote c' = cl_skip_clk_vote c \<and>
    (r = OK \<and> STATE_ACTIVE (cl_state c') \<or>
     r = Err EINPROGRESS \<and> cl_state c' = ACTIVATE_IN_PROGRESS \<and> \<not> STATE_ACTIVE (cl_state c))"
  using activate_moves [OF assms] calm_active by (fastforce simp: fixed_part_def)

lemma demo_s3_client:
  "demo_base b \<Longrightarrow> \<exists>c. get_client 1 (demo_s3 b) = Some c"
proof -
  assume b: "demo_base b"
  have "pm_inv (demo_s2 b)" by (rule pm_reachable_inv [OF demo_s2_reachable [OF b]])
  then show ?thesis
    using activate_result [OF _ demo_s2_client(1) [OF b], of demo_env "fst (ipa_pm_activate demo_env 1 (demo_s2 b))" "demo_s3 b"]
    by (auto simp: demo_s3_def)
qed

section \<open>Properties\<close>





text \<open>
  C8: An asynchronous activation either returns success with the client active and, if it votes,
  the clocks running, or reports that it is in progress and somebody will finish it.
\<close>

theorem pm_activate_result:
  assumes "pm_reachable s" "get_client h s = Some c" "ipa_pm_activate e h s = (r, s')"
  shows "\<exists>c'. get_client h s' = Some c' \<and>
    (r = OK \<and> STATE_ACTIVE (cl_state c') \<and> (\<not> cl_skip_clk_vote c \<longrightarrow> clk_running s') \<or>
     r = Err EINPROGRESS \<and> cl_state c' = ACTIVATE_IN_PROGRESS \<and> (cl_activate_work c' \<or> cl_sync_inflight c'))"
proof -
  have inv: "pm_inv s" by (rule pm_reachable_inv [OF assms(1)])
  have inv': "pm_inv s'" using activate_ok [OF inv, of e h] assms(3) by (simp add: pm_step_ok_def)
  obtain c' where c': "get_client h s' = Some c'" "cl_skip_clk_vote c' = cl_skip_clk_vote c"
    "r = OK \<and> STATE_ACTIVE (cl_state c') \<or>
     r = Err EINPROGRESS \<and> cl_state c' = ACTIVATE_IN_PROGRESS \<and> \<not> STATE_ACTIVE (cl_state c)"
    using activate_result [OF inv assms(2,3)] by blast
  note ci = pm_inv_client(1) [OF inv' c'(1)]
  have "cl_state c' = ACTIVATE_IN_PROGRESS \<Longrightarrow> cl_activate_work c' \<or> cl_sync_inflight c'"
    using ci by (simp add: client_inv_def)
  then show ?thesis using c' pm_inv_running [OF inv' c'(1)] by (auto simp: voting_def)
qed

lemma pm_activate_result_witness:
  "\<exists>c r. get_client 1 (demo_s3 demo_boot) = Some c \<and> (r = OK \<and> clk_running (demo_s3 demo_boot) \<or> r = Err EINPROGRESS)"
  using pm_activate_result [OF demo_s2_reachable [OF demo_base_boot] demo_s2_client(1) [OF demo_base_boot], of demo_env "fst (ipa_pm_activate demo_env 1 (demo_s2 demo_boot))" "demo_s3 demo_boot"]
  by (auto simp: demo_s3_def new_client_def demo_rp_def)

text \<open>The trace only grows.\<close>

definition grows :: "ipa \<Rightarrow> ipa \<Rightarrow> bool" where
  "grows s s' \<longleftrightarrow> (\<exists>evs. events s' = events s @ evs)"

lemma growsI: "events s' = events s @ evs \<Longrightarrow> grows s s'"
  by (auto simp: grows_def)

lemma grows_trans: "grows s t \<Longrightarrow> grows t u \<Longrightarrow> grows s u"
  by (auto simp: grows_def)

lemma grows_mem: "grows s s' \<Longrightarrow> ev \<in> set (events s) \<Longrightarrow> ev \<in> set (events s')"
  by (auto simp: grows_def)

lemma set_clock_plan_grows: "grows s (snd (set_clock_plan_from_pm e idx s))"
proof -
  have icc: "grows s (icc_vote e b s)" for b s
    using icc_vote_shape [of e b s] by (auto simp: grows_def)
  have bus: "events (snd (get_bus_vote s)) = events s" for s
    by (simp add: get_bus_vote_def fault_def Let_def)
  have base: "grows t (icc_vote e b (snd (get_bus_vote (clk_set_rate t))))" for t b
  proof (rule grows_trans [OF _ icc])
    show "grows t (snd (get_bus_vote (clk_set_rate t)))"
      using bus by (auto simp: grows_def clk_set_rate_def emit_def)
  qed
  have on: "grows s (icc_vote e b (snd (get_bus_vote (clk_set_rate (s\<lparr>curr_ipa_clk_rate := r, bus_vote_idx := i\<rparr>)))))" for r i b
    using base [of "s\<lparr>curr_ipa_clk_rate := r, bus_vote_idx := i\<rparr>" b] by (simp add: grows_def)
  show ?thesis
    by (auto simp: set_clock_plan_from_pm_def Let_def split: prod.splits intro: growsI [of _ _ "[]"])
       (metis on snd_conv)+
qed

lemma do_clk_scaling_grows: "grows s (do_clk_scaling e s)"
proof -
  have a: "grows s (s\<lparr>pm := x\<rparr>)" "grows s (fault f s)" for x s f by (auto simp: grows_def fault_def)
  have b: "grows s (snd (set_clock_plan_from_pm e i (upd_scaling g (s\<lparr>pm := x\<rparr>))))" for i g x
    by (rule grows_trans [OF _ set_clock_plan_grows]) (auto simp: grows_def upd_scaling_def upd_pm_def)
  have c: "grows s (fault f (s\<lparr>pm := x\<rparr>))" "grows s s" for f x by (auto simp: grows_def fault_def)
  show ?thesis using a b c by (auto simp: do_clk_scaling_def Let_def split: option.splits)
qed

lemma activate_work_calls_back:
  assumes c: "get_client h s = Some c" "cl_hdl c = h" "cl_state c = ACTIVATE_IN_PROGRESS" "cl_callback c"
  shows "PmCallback h CLIENT_ACTIVATED \<in> set (events (run_activate_work e h s))"
proof -
  have "get_client h (upd_client h (\<lambda>c. c\<lparr>cl_activate_work := False\<rparr>) s) = Some (c\<lparr>cl_activate_work := False\<rparr>)"
    by (rule get_client_upd [OF c(1)])
  then have "run_activate_work e h s = do_clk_scaling e (emit (PmCallback h CLIENT_ACTIVATED) (activate_client h
     (upd_client h (\<lambda>c. c\<lparr>cl_complete := True\<rparr>) (set_state h ACTIVATED
       (pm_vote e 409 h (c\<lparr>cl_activate_work := False\<rparr>)
         (upd_client h (\<lambda>c. c\<lparr>cl_activate_work := False\<rparr>) s))))))"
    using c by (simp add: run_activate_work_def activate_work_func_def Let_def)
  moreover have "PmCallback h CLIENT_ACTIVATED \<in> set (events (emit (PmCallback h CLIENT_ACTIVATED) t))" for t
    by (simp add: emit_def)
  ultimately show ?thesis using grows_mem [OF do_clk_scaling_grows] by metis
qed

text \<open>
  C9: When the queued activation runs, it completes the waiters; an activation that is still
  wanted ends active with the clocks running and tells the client, one that was cancelled in the
  meantime ends inactive.
\<close>

theorem pm_activation_completes:
  assumes "pm_reachable s" "get_client h s = Some c" "cl_activate_work c"
  shows "\<exists>c'. get_client h (run_activate_work e h s) = Some c' \<and> cl_complete c' \<and> \<not> cl_activate_work c' \<and>
    (cl_state c = ACTIVATE_IN_PROGRESS \<longrightarrow>
       cl_state c' = ACTIVATED \<and> clk_running (run_activate_work e h s) \<and>
       (cl_callback c \<longrightarrow> PmCallback h CLIENT_ACTIVATED \<in> set (events (run_activate_work e h s)))) \<and>
    (cl_state c = DEACTIVATE_IN_PROGRESS \<longrightarrow> cl_state c' = DEACTIVATED)"
proof -
  let ?s' = "run_activate_work e h s"
  have inv: "pm_inv s" by (rule pm_reachable_inv [OF assms(1)])
  note m = activate_work_moves [OF inv assms(2,3), of e]
  note ci = pm_inv_client(1) [OF inv assms(2)]
  obtain c' where c': "get_client h ?s' = Some c'" "cl_complete c'" "\<not> cl_activate_work c'"
    "cl_state c' = (if cl_state c = ACTIVATE_IN_PROGRESS then ACTIVATED else DEACTIVATED)"
    "cl_skip_clk_vote c' = cl_skip_clk_vote c"
    using m by (auto simp: fixed_part_def)
  have "PmCallback h CLIENT_ACTIVATED \<in> set (events ?s')"
    if "cl_state c = ACTIVATE_IN_PROGRESS" "cl_callback c"
    by (rule activate_work_calls_back [OF assms(2) _ that]) (use ci in \<open>simp add: client_inv_def\<close>)
  moreover have "clk_running ?s'" if "cl_state c = ACTIVATE_IN_PROGRESS"
  proof -
    have "pm_inv ?s'" using m by (simp add: pm_step_ok_def)
    moreover have "\<not> cl_skip_clk_vote c'" using ci assms(3) c'(5) by (simp add: client_inv_def)
    ultimately show ?thesis using pm_inv_running c'(1,4) that by (simp add: voting_def)
  qed
  ultimately show ?thesis using c' by auto
qed


lemma pm_activation_completes_witness:
  "clk_running (run_activate_work demo_env 1 (demo_s3 demo_gated)) \<and>
   PmCallback 1 CLIENT_ACTIVATED \<in> set (events (run_activate_work demo_env 1 (demo_s3 demo_gated)))"
  using pm_activation_completes [OF demo_s3_reachable [OF demo_gated_facts(1)] demo_s3_gated, of demo_env]
  by (auto simp: new_client_def demo_rp_def)

lemma clk_votes_upd_client: "get_client h s = Some c \<Longrightarrow> clk_votes (upd_client h f s) = clk_votes s"
  by (simp add: upd_client_def)

lemma get_client_emit [simp]: "get_client h (emit ev s) = get_client h s"
  by (simp add: get_client_def emit_def)

lemma deferred_active_eq:
  assumes "pm s = Some p" "get_client h s = Some c" "h < IPA_PM_MAX_CLIENTS" "cl_state c = ACTIVATED"
  shows "snd (ipa_pm_deferred_deactivate h s) = emit (PmTimer h (deferred_delay s))
    (upd_client h (\<lambda>c. c\<lparr>cl_state := ACTIVATED_PENDING_DEACTIVATION, cl_deactivate_work := True\<rparr>) s)"
proof -
  have d: "deferred_delay (set_state h ACTIVATED_PENDING_DEACTIVATION s) = deferred_delay s"
    using assms by (simp add: deferred_delay_def set_state_def upd_client_def upd_pm_def)
  have "clients p h = Some c" using assms by (simp add: get_client_def)
  then show ?thesis
    using assms by (simp add: ipa_pm_deferred_deactivate_def queue_deactivate_work_def d)
      (simp add: set_state_def upd_client_comp [OF assms(2)])
qed

text \<open>
  C21: A deferred deactivation followed by an activation before the timer leaves the client,
  once the timer fires, exactly as it was, with the same votes.
\<close>

theorem pm_timer_cancelled_by_activate:
  assumes "pm_reachable s" "get_client h s = Some c" "cl_state c = ACTIVATED"
  shows "let s1 = snd (ipa_pm_deferred_deactivate h s);
             (r, s2) = ipa_pm_activate e h s1;
             s3 = run_deactivate_work e' h s2
         in r = OK \<and>
            get_client h s1 = Some (c\<lparr>cl_state := ACTIVATED_PENDING_DEACTIVATION, cl_deactivate_work := True\<rparr>) \<and>
            get_client h s2 = Some (c\<lparr>cl_state := ACTIVATED_TIMER_SET, cl_deactivate_work := True\<rparr>) \<and>
            get_client h s3 = Some c \<and> clk_votes s3 = clk_votes s"
proof -
  have inv: "pm_inv s" by (rule pm_reachable_inv [OF assms(1)])
  obtain p where p: "pm s = Some p" using pm_inv_pm [OF inv] by blast
  note ci = pm_inv_client [OF inv assms(2)]
  have off: "\<not> cl_deactivate_work c" using ci(1) assms(3) by (simp add: client_inv_def)
  let ?f = "\<lambda>c. c\<lparr>cl_state := ACTIVATED_PENDING_DEACTIVATION, cl_deactivate_work := True\<rparr>"
  let ?s1 = "emit (PmTimer h (deferred_delay s)) (upd_client h ?f s)"
  note d = deferred_active_eq [OF p assms(2) ci(2) assms(3)]
  have g1: "get_client h ?s1 = Some (?f c)"
    using get_client_upd [OF assms(2), of ?f] by (simp add: get_client_def emit_def)
  obtain p1 where p1: "pm ?s1 = Some p1" "clients p1 h = Some (?f c)"
    using g1 by (auto simp: get_client_def split: option.splits)
  have a: "ipa_pm_activate e h ?s1 = (OK, set_state h ACTIVATED_TIMER_SET ?s1)"
    using ci(2) p1 by (simp add: ipa_pm_activate_def activate_helper_async_def)
  let ?s2 = "set_state h ACTIVATED_TIMER_SET ?s1"
  have g2: "get_client h ?s2 = Some (c\<lparr>cl_state := ACTIVATED_TIMER_SET, cl_deactivate_work := True\<rparr>)"
    using set_state_client [OF g1] by simp
  have r: "run_deactivate_work e' h ?s2 =
      upd_client h (\<lambda>c. c\<lparr>cl_deactivate_work := False, cl_state := ACTIVATED\<rparr>) ?s2"
    by (rule run_timer_set [OF g2]) simp
  have "c\<lparr>cl_deactivate_work := False, cl_state := ACTIVATED\<rparr> = c"
    by (rule pm_client.equality) (use off assms(3) in auto)
  then have g3: "get_client h (run_deactivate_work e' h ?s2) = Some c"
    unfolding r using get_client_upd [OF g2, of "\<lambda>c. c\<lparr>cl_deactivate_work := False, cl_state := ACTIVATED\<rparr>"] by simp
  have "clk_votes (run_deactivate_work e' h ?s2) = clk_votes ?s2"
    unfolding r by (rule clk_votes_upd_client [OF g2])
  also have "\<dots> = clk_votes ?s1" unfolding set_state_def by (rule clk_votes_upd_client [OF g1])
  also have "\<dots> = clk_votes s" by (simp add: clk_votes_upd_client [OF assms(2)])
  finally show ?thesis using a g1 g2 g3 by (simp add: d Let_def)
qed

lemma demo_active:
  "get_client 1 (demo_s3 demo_boot) = Some (activated_client (new_client ''usb'' (demo_rp ''usb'') 1 True))"
proof -
  note c = demo_s2_client [OF demo_base_boot]
  have inv: "pm_inv (demo_s2 demo_boot)" by (rule pm_reachable_inv [OF demo_s2_reachable [OF demo_base_boot]])
  then obtain k where k: "clk_inv (demo_s2 demo_boot)" "core_of (demo_s2 demo_boot) = Some k" by (auto simp: pm_inv_def)
  obtain p where p: "pm (demo_s2 demo_boot) = Some p" "clients p 1 = Some (new_client ''usb'' (demo_rp ''usb'') 1 True)"
    using c(1) by (auto simp: get_client_def split: option.splits)
  obtain r s1 where nb: "inc_client_enable_clks_no_block demo_env (PREP_SPECIAL ''ipa_pm.c'' 949 ''usb'') (demo_s2 demo_boot) = (r, s1)"
    by fastforce
  then have r: "r = OK" using c(2) demo_boot_facts(2) by (auto simp: inc_client_enable_clks_no_block_def split: if_splits)
  note n = nb_core [OF k(1) nb [unfolded r]]
  have g: "get_client 1 s1 = Some (new_client ''usb'' (demo_rp ''usb'') 1 True)"
    using c(1) get_client_core [of s1 k] get_client_core [OF k(2)] n(3) k(2) by simp
  have "demo_s3 demo_boot = got_clocks demo_env False 1 s1"
    using p nb r by (simp add: demo_s3_def ipa_pm_activate_def activate_helper_async_def pm_consts new_client_def
        demo_rp_def strlcpy_def)
  then show ?thesis using got_clocks_client [OF n(1) _ g, of k demo_env False] n(3) k(2) by simp
qed

lemma pm_timer_cancelled_by_activate_witness:
  "let s2 = snd (ipa_pm_activate demo_env 1 (snd (ipa_pm_deferred_deactivate 1 (demo_s3 demo_boot))))
   in get_client 1 (run_deactivate_work demo_env 1 s2) = get_client 1 (demo_s3 demo_boot)"
proof -
  obtain c where c: "get_client 1 (demo_s3 demo_boot) = Some c" "cl_state c = ACTIVATED"
    using demo_active by (auto simp: activated_client_def simp del: One_nat_def)
  show ?thesis
    using pm_timer_cancelled_by_activate [OF demo_s3_reachable [OF demo_base_boot] c, of demo_env demo_env] c(1)
    by (auto simp: Let_def simp del: One_nat_def split: prod.splits)
qed

text \<open>
  When the timer of a pending deactivation fires, the client is inactive, its vote is given
  back, its bit is cleared and its wake lock released.
\<close>

theorem pm_timer_expiry_deactivates:
  assumes "pm_reachable s" "get_client h s = Some c" "cl_state c = ACTIVATED_PENDING_DEACTIVATION"
  shows "let s' = run_deactivate_work e h s
         in get_client h s' = Some (deactivated_client c) \<and>
            clk_votes s' = clk_votes s - (if cl_skip_clk_vote c then 0 else 1) \<and>
            (\<forall>p'. pm s' = Some p' \<longrightarrow> \<not> bit (active_client_bitmask (clk_scaling p')) h) \<and>
            (\<not> cl_skip_clk_vote c \<longrightarrow> \<not> cl_wlock_held (deactivated_client c))"
proof -
  have inv: "pm_inv s" by (rule pm_reachable_inv [OF assms(1)])
  obtain k where k: "clk_inv s" "bugs s = []" "core_of s = Some k" "core_inv k" "core_votes k \<le> clk_votes s"
    using inv by (rule pm_invE)
  have kc: "co_clients k h = Some c" using assms(2) get_client_core [OF k(3)] by simp
  note ci = pm_inv_client(1) [OF inv assms(2)]
  have act: "STATE_ACTIVE (cl_state c)" and hd: "cl_hdl c = h" using assms(3) ci by (auto simp: client_inv_def)
  let ?s1 = "upd_client h (\<lambda>c. c\<lparr>cl_deactivate_work := False, cl_state := DEACTIVATED\<rparr>) s"
  let ?t = "deactivate_client h (pm_devote e 494 h c ?s1)"
  note dd = devote_deactivate [OF k kc act refl, of e 494]
  note eq = run_pending_eq [OF assms(2,3) hd, of e]
  have tinv: "clk_inv ?t" using dd by (auto simp: pm_step_ok_def pm_inv_def)
  note d = do_clk_scaling_core [OF tinv conjunct2 [OF dd], of e]
  have "pm_step_ok s (do_clk_scaling e ?t)" using dd do_clk_scaling_ok by blast
  then have ot: "other_votes (do_clk_scaling e ?t) = other_votes s" and
    inv': "pm_inv (do_clk_scaling e ?t)" by (auto simp: pm_step_ok_def)
  have one: "\<not> cl_skip_clk_vote c \<longrightarrow> 1 \<le> clk_votes ?s1"
    using active_vote_pos [OF k(4,5) kc act] by (simp add: clk_votes_upd_client [OF assms(2)])
  note u = upd_client_core [OF k(3) kc, of "\<lambda>c. c\<lparr>cl_deactivate_work := False, cl_state := DEACTIVATED\<rparr>"]
  have at: "co_clients (k\<lparr>co_clients := (co_clients k)(h \<mapsto> c\<lparr>cl_deactivate_work := False, cl_state := DEACTIVATED\<rparr>)\<rparr>) h
     = Some (c\<lparr>cl_deactivate_work := False, cl_state := DEACTIVATED\<rparr>)" by simp
  have "clk_votes ?t = clk_votes s - (if cl_skip_clk_vote c then 0 else 1)"
    using pm_devote_core(2) [OF _ u(1) at one] u k(1) by simp
  moreover have "get_client h (do_clk_scaling e ?t) = Some (deactivated_client c)"
    using get_client_core [OF d(3)] by simp
  moreover have "\<not> bit (active_client_bitmask (clk_scaling p')) h" if "pm (do_clk_scaling e ?t) = Some p'" for p'
  proof -
    have "core_of_pm p' = k\<lparr>co_clients := (co_clients k)(h \<mapsto> deactivated_client c), co_mask := co_mask k AND NOT (bit_of h)\<rparr>"
      using d(3) that by (simp add: core_of_def)
    from arg_cong [OF this, of co_mask] show ?thesis by (simp add: core_of_pm_def mask_simps)
  qed
  moreover have "\<not> cl_skip_clk_vote c \<Longrightarrow> \<not> cl_wlock_held (deactivated_client c)"
    using ci assms(3) by (auto simp: deactivated_client_def client_inv_def)
  ultimately show ?thesis using d(2) by (simp add: eq Let_def)
qed

lemma pm_timer_expiry_deactivates_witness:
  "clk_votes (run_deactivate_work demo_env 1 (snd (ipa_pm_deferred_deactivate 1 (demo_s3 demo_boot)))) =
   clk_votes (snd (ipa_pm_deferred_deactivate 1 (demo_s3 demo_boot))) - 1"
proof -
  let ?s = "snd (ipa_pm_deferred_deactivate 1 (demo_s3 demo_boot))"
  have r: "pm_reachable ?s" by (rule pm_reach_own [OF demo_s3_reachable [OF demo_base_boot] own_deferred])
  obtain p where p: "pm (demo_s3 demo_boot) = Some p" using demo_active by (auto simp: get_client_def split: option.splits)
  have eq: "?s = emit (PmTimer 1 (deferred_delay (demo_s3 demo_boot))) (upd_client 1
      (\<lambda>c. c\<lparr>cl_state := ACTIVATED_PENDING_DEACTIVATION, cl_deactivate_work := True\<rparr>) (demo_s3 demo_boot))"
    by (rule deferred_active_eq [OF p demo_active]) (simp_all add: activated_client_def pm_consts)
  have "get_client 1 ?s = Some ((activated_client (new_client ''usb'' (demo_rp ''usb'') 1 True))
     \<lparr>cl_state := ACTIVATED_PENDING_DEACTIVATION, cl_deactivate_work := True\<rparr>)"
    unfolding eq by (simp add: get_client_upd [OF demo_active] del: One_nat_def)
  from pm_timer_expiry_deactivates [OF r this, of demo_env] show ?thesis
    by (simp add: Let_def activated_client_def new_client_def demo_rp_def)
qed



lemma register_shape:
  assumes "pm_inv s" "pm s = Some p" "rp_name rp = Some name" "find_next_open_array_element name p = Inr h"
    "env_kzalloc e" "env_wakeup_source e" "length name < 64" "core_of s = Some k"
  shows "\<exists>s' ys. ipa_pm_register e (Some rp) True s = (OK, Some h, s') \<and>
    core_of s' = Some (k\<lparr>co_clients := (co_clients k)(h \<mapsto> new_client name rp h True), co_exceptions := ys\<rparr>) \<and>
    client_inv h (new_client name rp h True) \<and> co_clients k h = None \<and>
    s' = s\<lparr>pm := Some (p\<lparr>clients := (clients p)(h \<mapsto> new_client name rp h True),
         clk_scaling := (clk_scaling p)\<lparr>exception_list :=
           ys @ drop (exception_size (clk_scaling p)) (exception_list (clk_scaling p))\<rparr>\<rparr>)\<rparr> \<and>
    add_to_exceptions (cl_name (new_client name rp h True)) h
      (take (exception_size (clk_scaling p)) (exception_list (clk_scaling p))) = (True, ys)"
  by (rule register_success [OF assms(1-6) _ assms(8)], use assms(7) in \<open>simp add: pm_consts\<close>)
     (intro exI conjI, assumption+)

text \<open>
  C33: Registration answers EEXIST for a name in use, ENOBUFS when all handles are taken, and
  otherwise fills the lowest free handle with a fresh client and leaves the others alone; the
  handle of a refused caller is overwritten with the error.
\<close>

theorem pm_register_result:
  assumes "pm_reachable s" "pm s = Some p" "rp_name rp = Some name" "length name < 64"
    "env_kzalloc e" "env_wakeup_source e"
  shows "(if \<exists>h c. clients p h = Some c \<and> cl_name c = name then
            ipa_pm_register e (Some rp) True s = (Err EEXIST, Some (err_u32 EEXIST), s)
          else if \<forall>h. 1 \<le> h \<and> h < 32 \<longrightarrow> clients p h \<noteq> None then
            ipa_pm_register e (Some rp) True s = (Err ENOBUFS, Some (err_u32 ENOBUFS), s)
          else \<exists>h s'. ipa_pm_register e (Some rp) True s = (OK, Some h, s') \<and> 1 \<le> h \<and> h < 32 \<and>
            clients p h = None \<and> (\<forall>i. 1 \<le> i \<and> i < h \<longrightarrow> clients p i \<noteq> None) \<and>
            get_client h s' = Some (new_client name rp h True) \<and>
            (\<forall>i. i \<noteq> h \<longrightarrow> get_client i s' = get_client i s))"
proof -
  have inv: "pm_inv s" by (rule pm_reachable_inv [OF assms(1)])
  obtain k where k: "core_of s = Some k" "core_inv k" using inv by (auto simp: pm_inv_def)
  have cl: "co_clients k = clients p" using k(1) assms(2) by (auto simp: core_of_def core_of_pm_def)
  have range: "1 \<le> h \<and> h < 32" if "clients p h = Some c" for h c
    using core_inv_client [OF k(2)] that cl by (auto simp: client_inv_def pm_consts)
  let ?is = "rev [1..<IPA_PM_MAX_CLIENTS]"
  have ex: "(\<exists>i \<in> set ?is. registered name (clients p) i) \<longleftrightarrow> (\<exists>h c. clients p h = Some c \<and> cl_name c = name)"
    using range by (fastforce simp: registered_def pm_consts)
  have free: "[i \<leftarrow> ?is. clients p i = None] = [] \<longleftrightarrow> (\<forall>h. 1 \<le> h \<and> h < 32 \<longrightarrow> clients p h \<noteq> None)"
    by (auto simp: filter_empty_conv pm_consts)
  show ?thesis
  proof (cases "find_next_open_array_element name p")
    case (Inl err)
    have "ipa_pm_register e (Some rp) True s = (Err err, Some (err_u32 err), s)"
      using assms(2,3) Inl by (simp add: ipa_pm_register_def)
    moreover have "(\<exists>h c. clients p h = Some c \<and> cl_name c = name) \<and> err = EEXIST \<or>
       \<not> (\<exists>h c. clients p h = Some c \<and> cl_name c = name) \<and>
       (\<forall>h. 1 \<le> h \<and> h < 32 \<longrightarrow> clients p h \<noteq> None) \<and> err = ENOBUFS"
      using Inl free unfolding find_next_open_array_element_def find_open_spec ex
      by (cases "[i \<leftarrow> ?is. clients p i = None]") (auto split: if_splits)
    ultimately show ?thesis by auto
  next
    case (Inr h)
    note o = find_next_open_Inr [OF Inr]
    have "\<not> (\<exists>h c. clients p h = Some c \<and> cl_name c = name)"
      using o(4) range by (fastforce simp: registered_def pm_consts)
    moreover have "\<not> (\<forall>h. 1 \<le> h \<and> h < 32 \<longrightarrow> clients p h \<noteq> None)"
      using o(1-3) by (auto simp: pm_consts)
    moreover obtain s' ys where "ipa_pm_register e (Some rp) True s = (OK, Some h, s')"
      "core_of s' = Some (k\<lparr>co_clients := (co_clients k)(h \<mapsto> new_client name rp h True), co_exceptions := ys\<rparr>)"
      using register_shape [OF inv assms(2,3) Inr assms(5,6,4) k(1)] by blast
    moreover have "get_client i s = co_clients k i" for i by (rule get_client_core [OF k(1)])
    ultimately show ?thesis using o get_client_core by (auto simp: pm_consts)
  qed
qed

lemma pm_register_result_witness:
  "fst (ipa_pm_register demo_env (Some (demo_rp ''usb'')) True (demo_s2 demo_boot)) = Err EEXIST"
proof -
  obtain p where p: "pm (demo_s2 demo_boot) = Some p" "clients p 1 = Some (new_client ''usb'' (demo_rp ''usb'') 1 True)"
    using demo_s2_client(1) [OF demo_base_boot] by (auto simp: get_client_def split: option.splits)
  have ex: "\<exists>h c. clients p h = Some c \<and> cl_name c = ''usb''"
    using p(2) by (intro exI [of _ 1] exI) (auto simp: new_client_def strlcpy_def pm_consts)
  show ?thesis
    using pm_register_result [OF demo_s2_reachable [OF demo_base_boot] p(1), of "demo_rp ''usb''" "''usb''" demo_env] ex
    by (simp add: demo_rp_def demo_env_def)
qed

lemma remove_added_bit: "\<not> bit m h \<Longrightarrow> (m OR bit_of h) AND NOT (bit_of h) = m"
  by (rule bit_word_eqI) (auto simp: mask_simps)

lemma bit_of_bit: "h < 32 \<Longrightarrow> bit (bit_of h) h"
  by (simp add: bit_bit_of)

lemma remove_added_one:
  "h < 32 \<Longrightarrow> \<not> bit (ex_bitmask x) h \<Longrightarrow>
   remove_from_exception h (x\<lparr>ex_pending := ex_pending x - 1, ex_bitmask := ex_bitmask x OR bit_of h\<rparr>) = x"
  using bit_of_bit [of h] by (auto simp: remove_from_exception_def mask_simps remove_added_bit)

lemma remove_absent:
  "h < 32 \<Longrightarrow> \<not> bit (ex_bitmask x) h \<Longrightarrow> remove_from_exception h x = x"
  by (simp add: remove_from_exception_def mask_simps)

lemma remove_after_add:
  "add_to_exceptions name h xs = (True, ys) \<Longrightarrow> h < 32 \<Longrightarrow> \<forall>x \<in> set xs. \<not> bit (ex_bitmask x) h \<Longrightarrow>
   map (remove_from_exception h) ys = xs"
proof (induction xs arbitrary: ys)
  case (Cons x xs)
  obtain b zs where zs: "add_to_exceptions name h xs = (b, zs)" by (cases "add_to_exceptions name h xs")
  have x: "\<not> bit (ex_bitmask x) h" "\<forall>x \<in> set xs. \<not> bit (ex_bitmask x) h" using Cons.prems(3) by simp_all
  from zs Cons.prems(1) have b: b
    and y: "ys = x\<lparr>ex_pending := ex_pending x - 1, ex_bitmask := ex_bitmask x OR bit_of h\<rparr> # zs \<or> ys = x # zs"
    by (auto split: if_splits)
  have "map (remove_from_exception h) zs = xs" using Cons.IH [of zs] zs b Cons.prems(2) x(2) by simp
  then show ?case using y remove_added_one [OF Cons.prems(2) x(1)] remove_absent [OF Cons.prems(2) x(1)] by auto
qed simp

text \<open>
  C34: Deregistering a client that was just registered restores the state from before the
  registration, the exception list included.
\<close>

theorem pm_register_deregister_roundtrip:
  assumes "pm_reachable s" "env_wakeup_source e" "rp_name rp = Some name" "length name < 64"
    and "ipa_pm_register e (Some rp) True s = (OK, Some h, s1)"
  shows "ipa_pm_deregister h s1 = Ret (OK, s)"
proof -
  have inv: "pm_inv s" by (rule pm_reachable_inv [OF assms(1)])
  obtain p where p: "pm s = Some p" using pm_inv_pm [OF inv] by blast
  obtain k where k: "core_of s = Some k" "core_inv k" using inv by (auto simp: pm_inv_def)
  have kp: "core_of_pm p = k" using k(1) p by (simp add: core_of_def)
  have f: "find_next_open_array_element name p = Inr h" "env_kzalloc e"
    using assms(3,5) p
    by (auto simp: ipa_pm_register_def Let_def split: sum.splits if_splits prod.splits rc.splits)
  let ?c = "new_client name rp h True" and ?d = "clk_scaling p"
  let ?n = "exception_size ?d"
  obtain ys where r: "client_inv h ?c" "co_clients k h = None"
    "s1 = s\<lparr>pm := Some (p\<lparr>clients := (clients p)(h \<mapsto> ?c), clk_scaling := ?d\<lparr>exception_list :=
         ys @ drop ?n (exception_list ?d)\<rparr>\<rparr>)\<rparr>"
    "add_to_exceptions (cl_name ?c) h (take ?n (exception_list ?d)) = (True, ys)"
    using register_shape [OF inv p assms(3) f(1,2) assms(2,4) k(1)] assms(5) by force
  have h: "h < 32" using r(1) by (simp add: client_inv_def pm_consts)
  have free: "clients p h = None" using r(2) kp by (auto simp: core_of_pm_def)
  have nobit: "\<forall>x \<in> set (take ?n (exception_list ?d)). \<not> bit (ex_bitmask x) h"
    using k(2) r(2) kp by (auto simp: core_inv_def exception_inv_def core_of_pm_def)
  note undo = remove_after_add [OF r(4) h nobit]
  then have len: "length ys = length (take ?n (exception_list ?d))" by (metis length_map)
  have tk: "take ?n ys = ys" "drop ?n ys = []" using len by simp_all
  have dr: "take (?n - length ys) (drop ?n (exception_list ?d)) = []"
    "drop (?n - length ys + ?n) (exception_list ?d) = drop ?n (exception_list ?d)"
    using len by (cases "?n \<le> length (exception_list ?d)"; simp)+
  have pipes: "clients_by_pipe p i \<noteq> Some h" for i
    using k(2) r(2) kp by (fastforce simp: core_inv_def core_of_pm_def)
  have st: "\<not> STATE_IN_PROGRESS (cl_state ?c)" "\<not> STATE_ACTIVE (cl_state ?c)"
    "\<not> (cl_activate_work ?c \<or> cl_deactivate_work ?c \<or> cl_sync_inflight ?c)"
    by (simp_all add: new_client_def)
  have cl: "(clients p)(h := None) = clients p" using free by (simp add: fun_upd_idem)
  have "free_client h ?c s1 = s"
  proof -
    have "free_client h ?c s1 = s\<lparr>pm := Some (p\<lparr>clients := (clients p)(h := None),
       clk_scaling := ?d\<lparr>exception_list := take ?n (exception_list ?d) @ drop ?n (exception_list ?d)\<rparr>\<rparr>)\<rparr>"
      using pipes st(3)
      by (simp add: free_client_def Let_def r(3) upd_pm_def remove_client_from_exception_list_def
          upd_scaling_def tk dr undo)
    also have "\<dots> = s" using p by (simp add: cl)
    finally show ?thesis .
  qed
  then show ?thesis
    using st h r(3) by (simp add: ipa_pm_deregister_def pm_consts)
qed

lemma pm_register_deregister_roundtrip_witness:
  "ipa_pm_deregister 1 (demo_s2 demo_boot) = Ret (OK, demo_s1 demo_boot)"
proof -
  obtain p where p: "pm (demo_s1 demo_boot) = Some p" "clients p = (\<lambda>h. None)"
    using demo_s1_clients [OF demo_base_boot] by blast
  have inv: "pm_inv (demo_s1 demo_boot)" by (rule pm_reachable_inv [OF demo_s1_reachable [OF demo_base_boot]])
  then obtain k where k: "core_of (demo_s1 demo_boot) = Some k" by (auto simp: pm_inv_def)
  have "ipa_pm_register demo_env (Some (demo_rp ''usb'')) True (demo_s1 demo_boot) = (OK, Some 1, demo_s2 demo_boot)"
    by (rule register_success [OF inv p(1) _ find_open_empty [OF p(2), of "''usb''"] _ _ _ k, of "demo_rp ''usb''" demo_env])
       (auto simp: demo_rp_def demo_env_def pm_consts demo_s2_def)
  then show ?thesis
    by (intro pm_register_deregister_roundtrip [OF demo_s1_reachable [OF demo_base_boot], of demo_env "demo_rp ''usb''" "''usb''"])
       (auto simp: demo_rp_def demo_env_def)
qed

end
