(* ===== verification/Ipa_Pm_Scaling.thy ===== *)
theory Ipa_Pm_Scaling
  imports Ipa_Pm_Props
begin

text \<open>
  What the scaling of the clock does: the level that \<open>do_clk_scaling\<close> votes for, against a
  specification that counts thresholds, and the wake-up of the clients of suspended pipes.
\<close>

section \<open>The scaling of the clock\<close>

definition satisfied :: "u32 \<Rightarrow> pm_exception \<Rightarrow> bool" where
  "satisfied active x \<longleftrightarrow> ex_pending x = 0 \<and> ex_bitmask x AND NOT active = 0"

definition chosen_thresholds :: "clk_scaling_db \<Rightarrow> int list" where
  "chosen_thresholds d =
     (case filter (satisfied (active_client_bitmask d)) (take (exception_size d) (exception_list d)) of
        [] \<Rightarrow> default_threshold d
      | x # _ \<Rightarrow> ex_threshold x)"

definition scaling_level :: "pm_ctx \<Rightarrow> int" where
  "scaling_level p =
     1 + int (card {i. i < threshold_size (clk_scaling p) \<and>
                       chosen_thresholds (clk_scaling p) ! i \<le> calculate_throughput p})"

definition level_rate :: "clk_rates \<Rightarrow> int \<Rightarrow> int" where
  "level_rate r v = [rate_svs2 r, rate_svs r, rate_nominal r, rate_turbo r] ! nat (v - 1)"

lemma first_exception_Cons:
  "first_exception a (x # xs) i = (if satisfied a x then ThExc i else first_exception a xs (Suc i))"
  by (simp add: satisfied_def)

lemma first_exception_cases:
  "first_exception a xs i = ThDefault \<and> filter (satisfied a) xs = [] \<or>
   (\<exists>j < length xs. first_exception a xs i = ThExc (i + j) \<and> satisfied a (xs ! j) \<and>
      (\<exists>ys. filter (satisfied a) xs = xs ! j # ys))"
proof (induction xs arbitrary: i)
  case (Cons x xs)
  show ?case
  proof (cases "satisfied a x")
    case True
    then show ?thesis by (intro disjI2 exI [of _ 0]) (auto simp: first_exception_Cons simp del: first_exception.simps)
  next
    case False
    with Cons [of "Suc i"] show ?thesis
    proof (elim disjE exE conjE)
      fix j ys
      assume j: "j < length xs" "first_exception a xs (Suc i) = ThExc (Suc i + j)" "satisfied a (xs ! j)"
        "filter (satisfied a) xs = xs ! j # ys"
      show ?thesis using False j by (intro disjI2 exI [of _ "Suc j"])
        (auto simp: first_exception_Cons simp del: first_exception.simps)
    qed (auto simp: first_exception_Cons simp del: first_exception.simps)
  qed
qed simp

lemma current_threshold_chosen:
  "threshold_array (current_threshold (set_current_threshold d)) (set_current_threshold d) =
    Some (chosen_thresholds d)"
  using first_exception_cases [of "active_client_bitmask d" "take (exception_size d) (exception_list d)" 0]
  by (auto simp: set_current_threshold_def chosen_thresholds_def)

lemma foldl_count:
  "foldl (\<lambda>idx i. if P i then idx + 1 else idx) (a :: int) [0..<n] = a + int (card {i. i < n \<and> P i})"
proof (induction n)
  case (Suc n)
  have "{i. i < Suc n \<and> P i} = (if P n then insert n {i. i < n \<and> P i} else {i. i < n \<and> P i})"
    by (auto simp: less_Suc_eq)
  then show ?case using Suc by auto
qed simp

lemma threshold_idx_count: "threshold_idx t ths n = 1 + int (card {i. i < n \<and> ths ! i \<le> t})"
  unfolding threshold_idx_def by (rule foldl_count)

lemma scaling_level_bounds:
  "1 \<le> scaling_level p" "scaling_level p \<le> 1 + int (threshold_size (clk_scaling p))"
proof -
  have "card {i. i < threshold_size (clk_scaling p) \<and> chosen_thresholds (clk_scaling p) ! i \<le> calculate_throughput p}
      \<le> card {..< threshold_size (clk_scaling p)}" by (rule card_mono) auto
  then show "1 \<le> scaling_level p" "scaling_level p \<le> 1 + int (threshold_size (clk_scaling p))"
    by (simp_all add: scaling_level_def)
qed

lemma bus_frame [simp]:
  "pm (icc_vote e b s) = pm s" "curr_ipa_clk_rate (icc_vote e b s) = curr_ipa_clk_rate s"
  "pm (snd (get_bus_vote s)) = pm s" "curr_ipa_clk_rate (snd (get_bus_vote s)) = curr_ipa_clk_rate s"
  "pm (clk_set_rate s) = pm s" "curr_ipa_clk_rate (clk_set_rate s) = curr_ipa_clk_rate s"
  using icc_vote_shape [of e b s]
  by (auto simp: get_bus_vote_def clk_set_rate_def emit_def fault_def Let_def)

lemma set_clock_plan_pm: "pm (snd (set_clock_plan_from_pm e idx s)) = pm s"
  by (simp add: set_clock_plan_from_pm_def Let_def split_def)

text \<open>\<open>do_clk_scaling\<close> as one step over the chosen level.\<close>

lemma do_clk_scaling_shape:
  assumes "pm s = Some p" "ipa_clk_vote s \<noteq> 0"
  defines "v \<equiv> scaling_level p"
  defines "d \<equiv> set_current_threshold (clk_scaling p)"
  shows "do_clk_scaling e s =
    (if cur_vote (clk_scaling p) \<noteq> v then
       snd (set_clock_plan_from_pm e v
         (s\<lparr>pm := Some (p\<lparr>aggregated_tput := calculate_throughput p, clk_scaling := d\<lparr>cur_vote := v\<rparr>\<rparr>)\<rparr>))
     else s\<lparr>pm := Some (p\<lparr>aggregated_tput := calculate_throughput p, clk_scaling := d\<rparr>)\<rparr>)"
proof -
  have d: "threshold_array (current_threshold d) d = Some (chosen_thresholds (clk_scaling p))"
    "threshold_size d = threshold_size (clk_scaling p)" "cur_vote d = cur_vote (clk_scaling p)"
    unfolding d_def by (rule current_threshold_chosen) (simp_all add: set_current_threshold_def)
  have v: "threshold_idx (calculate_throughput p) (chosen_thresholds (clk_scaling p)) (threshold_size d) = v"
    by (simp add: threshold_idx_count v_def scaling_level_def d(2))
  show ?thesis
    using assms(1,2) d(1,3) v unfolding d_def
    by (simp add: do_clk_scaling_def Let_def upd_scaling_def upd_pm_def)
qed


lemma do_clk_scaling_result:
  assumes "pm s = Some p" "ipa_clk_vote s \<noteq> 0"
  shows "pm (do_clk_scaling e s) = Some (p\<lparr>aggregated_tput := calculate_throughput p,
    clk_scaling := (set_current_threshold (clk_scaling p))\<lparr>cur_vote := scaling_level p\<rparr>\<rparr>)"
proof -
  have "set_current_threshold (clk_scaling p)\<lparr>cur_vote := cur_vote (clk_scaling p)\<rparr> =
    (set_current_threshold (clk_scaling p)) \<lparr>cur_vote := cur_vote (clk_scaling p)\<rparr>" ..
  then show ?thesis unfolding do_clk_scaling_shape [OF assms]
    by (auto simp: set_clock_plan_pm set_current_threshold_def)
qed

lemma set_clock_plan_rate:
  assumes "enable_clock_scaling s" "ipa_hw_mode s = HW_NORMAL" "1 \<le> v" "v \<le> 4"
  shows "curr_ipa_clk_rate (snd (set_clock_plan_from_pm e v s)) = level_rate (ctrl_rates s) v"
proof -
  have v: "v = 1 \<or> v = 2 \<or> v = 3 \<or> v = 4" using assms(3,4) by presburger
  show ?thesis using assms(1,2) v
    by (auto simp: set_clock_plan_from_pm_def Let_def level_rate_def split_def)
qed

text \<open>
  C6: With the clocks on, the scaling votes for one plus the number of thresholds not above the
  aggregated throughput, within one and the number of thresholds plus one, leaves the clients
  alone and, when the level changes to a level the clock plan knows, sets the rate of that
  level.
\<close>

theorem pm_scaling_level:
  assumes "pm_reachable s" "pm s = Some p" "ipa_clk_vote s \<noteq> 0"
  shows "\<exists>p'. pm (do_clk_scaling e s) = Some p' \<and>
    aggregated_tput p' = calculate_throughput p \<and>
    cur_vote (clk_scaling p') = 1 + int (card {i. i < threshold_size (clk_scaling p) \<and>
        chosen_thresholds (clk_scaling p) ! i \<le> calculate_throughput p}) \<and>
    clients p' = clients p \<and>
    1 \<le> cur_vote (clk_scaling p') \<and> cur_vote (clk_scaling p') \<le> 1 + int (threshold_size (clk_scaling p)) \<and>
    (enable_clock_scaling s \<and> ipa_hw_mode s = HW_NORMAL \<and> cur_vote (clk_scaling p') \<noteq> cur_vote (clk_scaling p) \<and>
       cur_vote (clk_scaling p') \<le> 4 \<longrightarrow>
     curr_ipa_clk_rate (do_clk_scaling e s) = level_rate (ctrl_rates s) (cur_vote (clk_scaling p')))"
proof -
  note res = do_clk_scaling_result [OF assms(2,3), of e]
  have rate: "enable_clock_scaling s \<Longrightarrow> ipa_hw_mode s = HW_NORMAL \<Longrightarrow> scaling_level p \<noteq> cur_vote (clk_scaling p) \<Longrightarrow>
      scaling_level p \<le> 4 \<Longrightarrow> curr_ipa_clk_rate (do_clk_scaling e s) = level_rate (ctrl_rates s) (scaling_level p)"
    unfolding do_clk_scaling_shape [OF assms(2,3)] using scaling_level_bounds(1) [of p]
    by (simp add: set_clock_plan_rate)
  show ?thesis
    by (rule exI, intro conjI, rule res)
      (use scaling_level_bounds [of p] rate in \<open>simp_all add: scaling_level_def\<close>)
qed

lemma activate_frame:
  "ipa_clk_vote (snd (ipa_pm_activate e h s)) = ipa_clk_vote s"
  "map_option (\<lambda>p. (exception_list (clk_scaling p), exception_size (clk_scaling p), clients_by_pipe p)) (pm (snd (ipa_pm_activate e h s))) =
   map_option (\<lambda>p. (exception_list (clk_scaling p), exception_size (clk_scaling p), clients_by_pipe p)) (pm s)"
  by (auto simp: ipa_pm_activate_def activate_helper_async_def got_clocks_def inc_client_enable_clks_no_block_def
      set_state_def upd_client_def upd_scaling_def upd_pm_def fault_def pm_stay_awake_def activate_client_def
      get_client_def active_clients_log_mod_def Let_def split: option.splits if_splits prod.splits)

lemma demo_s3_pm:
  obtains p where "pm (demo_s3 demo_boot) = Some p" "exception_size (clk_scaling p) = 1"
    "ex_clients (exception_list (clk_scaling p) ! 0) = ''usb''" "exception_list (clk_scaling p) \<noteq> []"
    "ipa_clk_vote (demo_s3 demo_boot) \<noteq> 0" "clients_by_pipe p = (\<lambda>i. None)"
proof -
  obtain p where p: "pm (demo_s1 demo_boot) = Some p" "clients p = (\<lambda>h. None)"
    using demo_s1_clients [OF demo_base_boot] by blast
  have none: "pm demo_boot = None" using demo_base_boot by (simp add: demo_base_def)
  have env: "env_kzalloc demo_env" "env_create_wq demo_env" by (simp_all add: demo_env_def)
  have ex: "exception_size (clk_scaling p) = 1" "clients_by_pipe p = (\<lambda>i. None)"
    "take 1 (exception_list (clk_scaling p)) = [\<lparr>ex_clients = ''usb'', ex_pending = 1, ex_bitmask = 0,
       ex_threshold = [100, 200, 300, 0, 0]\<rparr>]"
    using p(1) by (auto simp: demo_s1_def ipa_pm_init_def demo_params_def none env pm_consts Let_def init_exceptions_def init_exception_def strlcpy_def
        count_commas_def threshold_copy_def upt_rec)
  have inv: "pm_inv (demo_s1 demo_boot)" by (rule pm_reachable_inv [OF demo_s1_reachable [OF demo_base_boot]])
  then obtain k where k: "core_of (demo_s1 demo_boot) = Some k" by (auto simp: pm_inv_def)
  obtain ys where s2: "demo_s2 demo_boot = demo_s1 demo_boot\<lparr>pm := Some (p\<lparr>clients := (clients p)(1 \<mapsto>
       new_client ''usb'' (demo_rp ''usb'') 1 True), clk_scaling := (clk_scaling p)\<lparr>exception_list :=
         ys @ drop 1 (exception_list (clk_scaling p))\<rparr>\<rparr>)\<rparr>"
    "add_to_exceptions ''usb'' 1 (take 1 (exception_list (clk_scaling p))) = (True, ys)"
    using register_shape [OF inv p(1) _ find_open_empty [OF p(2), of "''usb''"] _ _ _ k, of "demo_rp ''usb''" demo_env]
    by (auto simp: demo_s2_def demo_rp_def demo_env_def ex(1) new_client_def strlcpy_def pm_consts)
  have ys: "\<exists>y. ys = [y] \<and> ex_clients y = ''usb''"
    using s2(2) unfolding ex(3) by (auto split: if_splits prod.splits)
  have mode: "ipa_hw_mode demo_boot = HW_NORMAL"
    by (simp add: ipa3_pre_init_clks_def Let_def demo_ipa_def active_clients_log_mod_def
        ipa3_enable_clks_def get_bus_vote_def icc_vote_def icc_set_bw_def demo_env_def emit_def
        ctrl_enable_clks_def clk_set_rate_def)
  have "ipa_clk_vote (demo_s2 demo_boot) = ipa_clk_vote demo_boot"
    unfolding s2(1) by (simp add: demo_s1_def ipa_pm_init_def Let_def split: option.splits)
  then have v: "ipa_clk_vote (demo_s3 demo_boot) \<noteq> 0"
    using clk_invD(3) [OF demo_boot_facts(1) mode] demo_boot_facts(2) activate_frame(1) by (simp add: demo_s3_def)
  have "map_option (\<lambda>p. (exception_list (clk_scaling p), exception_size (clk_scaling p), clients_by_pipe p)) (pm (demo_s3 demo_boot)) =
      Some (ys @ drop 1 (exception_list (clk_scaling p)), 1, \<lambda>i. None)"
    unfolding demo_s3_def activate_frame(2) s2(1) by (simp add: ex(1,2))
  then show ?thesis using that v ys by (auto simp: nth_append)
qed

lemma pm_scaling_level_witness:
  "\<exists>p'. pm (do_clk_scaling demo_env (demo_s3 demo_boot)) = Some p' \<and> 1 \<le> cur_vote (clk_scaling p')"
proof -
  obtain p where p: "pm (demo_s3 demo_boot) = Some p" "ipa_clk_vote (demo_s3 demo_boot) \<noteq> 0" by (rule demo_s3_pm)
  from pm_scaling_level [OF demo_s3_reachable [OF demo_base_boot] this, of demo_env] show ?thesis by blast
qed

section \<open>The selection of the thresholds\<close>

text \<open>
  An exception applies when a client of exactly its name is registered and active and the name
  holds no comma.
\<close>

definition exception_applies :: "pm_ctx \<Rightarrow> pm_exception \<Rightarrow> bool" where
  "exception_applies p x \<longleftrightarrow> CHR '','' \<notin> set (ex_clients x) \<and>
     (\<exists>h \<in> {1..<32}. case clients p h of None \<Rightarrow> False
                    | Some c \<Rightarrow> cl_name c = ex_clients x \<and> STATE_ACTIVE (cl_state c))"

lemma satisfied_applies:
  assumes core: "core_inv (core_of_pm p)" and x: "exception_inv (clients p) x"
  shows "satisfied (active_client_bitmask (clk_scaling p)) x \<longleftrightarrow> exception_applies p x"
proof -
  let ?a = "active_client_bitmask (clk_scaling p)"
  have act: "bit ?a h \<longleftrightarrow> (\<exists>c. clients p h = Some c \<and> STATE_ACTIVE (cl_state c))" for h
    using core by (simp add: core_inv_def core_of_pm_def)
  have range: "h \<in> {1..<32}" if "clients p h = Some c" for h c
    using core_inv_client [OF core] that by (auto simp: client_inv_def pm_consts core_of_pm_def)
  have uniq: "clients p h = Some c \<Longrightarrow> clients p h' = Some c' \<Longrightarrow> cl_name c = cl_name c' \<Longrightarrow> h = h'" for h h' c c'
    using core by (simp add: core_inv_def core_of_pm_def)
  have bits: "bit (ex_bitmask x) h \<longleftrightarrow> (\<exists>c. clients p h = Some c \<and> cl_name c = ex_clients x)" for h
    using x by (simp add: exception_inv_def)
  have mask: "ex_bitmask x AND NOT ?a = 0 \<longleftrightarrow> (\<forall>h. bit (ex_bitmask x) h \<longrightarrow> bit ?a h)"
    using bit_imp_le_length [of "ex_bitmask x"] by (auto simp: bit_eq_iff bit_simps)
  have comma: "count_commas (ex_clients x) = 0 \<longleftrightarrow> CHR '','' \<notin> set (ex_clients x)"
    by (auto simp: count_commas_def filter_empty_conv)
  let ?reg = "\<exists>h c. clients p h = Some c \<and> cl_name c = ex_clients x"
  have p: "ex_pending x = count_commas (ex_clients x) + 1 - (if ?reg then 1 else 0)"
    using x by (simp add: exception_inv_def)
  have pend: "ex_pending x = 0 \<longleftrightarrow> ?reg \<and> CHR '','' \<notin> set (ex_clients x)"
    unfolding comma [symmetric] using p count_commas_nonneg [of "ex_clients x"]
    by (cases ?reg) (simp_all only: if_True if_False simp_thms, presburger+)
  have ap: "exception_applies p x \<longleftrightarrow> CHR '','' \<notin> set (ex_clients x) \<and>
      (\<exists>h c. clients p h = Some c \<and> cl_name c = ex_clients x \<and> STATE_ACTIVE (cl_state c))"
    using range by (fastforce simp: exception_applies_def split: option.splits)
  show ?thesis unfolding satisfied_def pend mask bits act ap using uniq by (metis option.inject)
qed

lemma first_exception_first:
  "first_exception a xs i = ThExc j \<Longrightarrow> k < j - i \<Longrightarrow> k < length xs \<and> \<not> satisfied a (xs ! k)"
proof (induction xs arbitrary: i k)
  case (Cons x xs)
  have n: "\<not> satisfied a x" "first_exception a xs (Suc i) = ThExc j"
    using Cons.prems by (auto simp: first_exception_Cons simp del: first_exception.simps(2) split: if_splits)
  show ?case
  proof (cases k)
    case (Suc m)
    with Cons.IH [OF n(2), of m] Cons.prems(2) show ?thesis by auto
  qed (use n in auto)
qed simp

text \<open>
  C7: The thresholds used are those of the first exception that names exactly one registered,
  active client, or the defaults: an exception with several comma separated clients is never
  used.
\<close>

theorem pm_selected_exception:
  assumes "pm_reachable s" "ipa_clk_vote s \<noteq> 0" "pm s = Some p"
  shows "\<exists>p'. pm (do_clk_scaling e s) = Some p' \<and>
    ((\<exists>j < min (exception_size (clk_scaling p)) (length (exception_list (clk_scaling p))).
        current_threshold (clk_scaling p') = ThExc j \<and>
        exception_applies p (exception_list (clk_scaling p) ! j) \<and>
        (\<forall>i < j. \<not> exception_applies p (exception_list (clk_scaling p) ! i))) \<or>
     (current_threshold (clk_scaling p') = ThDefault \<and>
        (\<forall>j < min (exception_size (clk_scaling p)) (length (exception_list (clk_scaling p))).
           \<not> exception_applies p (exception_list (clk_scaling p) ! j))))"
proof -
  have inv: "pm_inv s" by (rule pm_reachable_inv [OF assms(1)])
  have core: "core_inv (core_of_pm p)" using inv assms(3) by (auto simp: pm_inv_def core_of_def)
  let ?d = "clk_scaling p"
  let ?a = "active_client_bitmask ?d" and ?xs = "take (exception_size ?d) (exception_list ?d)"
  let ?p' = "p\<lparr>aggregated_tput := calculate_throughput p,
      clk_scaling := (set_current_threshold ?d)\<lparr>cur_vote := scaling_level p\<rparr>\<rparr>"
  have ap: "satisfied ?a (exception_list ?d ! j) \<longleftrightarrow> exception_applies p (exception_list ?d ! j)"
    if "j < length ?xs" for j
  proof -
    have "?xs ! j \<in> set ?xs" by (rule nth_mem [OF that])
    then have "exception_inv (clients p) (?xs ! j)" using core by (simp add: core_inv_def core_of_pm_def)
    with satisfied_applies [OF core] that show ?thesis by simp
  qed
  have cur: "current_threshold (clk_scaling ?p') = first_exception ?a ?xs 0"
    by (simp add: set_current_threshold_def)
  show ?thesis
    using first_exception_cases [of ?a ?xs 0]
  proof (elim disjE exE conjE)
    assume none: "first_exception ?a ?xs 0 = ThDefault" "filter (satisfied ?a) ?xs = []"
    have "\<not> exception_applies p (exception_list ?d ! j)" if j: "j < length ?xs" for j
    proof -
      have "?xs ! j \<in> set ?xs" by (rule nth_mem [OF j])
      then have "\<not> satisfied ?a (?xs ! j)" using none(2) unfolding filter_empty_conv by blast
      then show ?thesis using ap [OF j] j by simp
    qed
    then show ?thesis using do_clk_scaling_result [OF assms(3,2), of e] cur none(1)
      by (intro exI [of _ ?p'] conjI disjI2) (simp_all add: min.commute)
  next
    fix j ys
    assume j: "j < length ?xs" "first_exception ?a ?xs 0 = ThExc (0 + j)" "satisfied ?a (?xs ! j)"
    then have "\<forall>i < j. \<not> exception_applies p (exception_list ?d ! i)"
      using first_exception_first [of ?a ?xs 0 j] ap by fastforce
    then show ?thesis using do_clk_scaling_result [OF assms(3,2), of e] ap [OF j(1)] cur j
      by (intro exI [of _ ?p'] conjI disjI1) (auto intro!: exI [of _ j])
  qed
qed


lemma pm_selected_exception_witness:
  "\<exists>p'. pm (do_clk_scaling demo_env (demo_s3 demo_boot)) = Some p' \<and> current_threshold (clk_scaling p') = ThExc 0"
proof -
  obtain p where p: "pm (demo_s3 demo_boot) = Some p" "exception_size (clk_scaling p) = 1"
    "ex_clients (exception_list (clk_scaling p) ! 0) = ''usb''" "exception_list (clk_scaling p) \<noteq> []"
    "ipa_clk_vote (demo_s3 demo_boot) \<noteq> 0" by (rule demo_s3_pm)
  have c: "clients p 1 = Some (activated_client (new_client ''usb'' (demo_rp ''usb'') 1 True))"
    using demo_active p(1) by (simp add: get_client_def)
  have ap: "exception_applies p (exception_list (clk_scaling p) ! 0)" unfolding exception_applies_def
    by (intro conjI bexI [of _ 1]) (simp_all add: p(3) c activated_client_def new_client_def strlcpy_def pm_consts
      del: One_nat_def)
  have m: "min (exception_size (clk_scaling p)) (length (exception_list (clk_scaling p))) = 1"
    using p(2,4) by (cases "exception_list (clk_scaling p)") auto
  from pm_selected_exception [OF demo_s3_reachable [OF demo_base_boot] p(5,1), of demo_env] show ?thesis
    unfolding m using ap by auto
qed

section \<open>Waking the clients of suspended pipes\<close>

definition wakes :: "u32 \<Rightarrow> pm_ctx \<Rightarrow> nat \<Rightarrow> nat \<Rightarrow> bool" where
  "wakes bm p i h \<longleftrightarrow> bit bm i \<and> clients_by_pipe p i = Some h \<and>
     (case clients p h of None \<Rightarrow> False | Some c \<Rightarrow> cl_callback c)"

text \<open>The callbacks after the first \<open>n\<close> pipes, with the clients that have been notified.\<close>

definition woken :: "u32 \<Rightarrow> pm_ctx \<Rightarrow> nat \<Rightarrow> nat set" where
  "woken bm p n = {h. \<exists>i < n. wakes bm p i h}"

lemma suspend_loop:
  assumes "pm_inv s" "pm s = Some p"
  shows "\<exists>hs fs. foldl (\<lambda>st i. suspend_pipe bm i st) (\<lambda>h. False, s) [0..<n] =
     (\<lambda>h. h \<in> set hs, s\<lparr>events := events s @ map (\<lambda>h. PmCallback h REQUEST_WAKEUP) hs, faults := faults s @ fs\<rparr>) \<and>
     distinct hs \<and> set hs = woken bm p n"
proof (induction n)
  case 0
  show ?case by (rule exI [of _ "[]"], rule exI [of _ "[]"]) (simp add: woken_def)
next
  case (Suc n)
  then obtain hs fs where IH: "foldl (\<lambda>st i. suspend_pipe bm i st) (\<lambda>h. False, s) [0..<n] =
     (\<lambda>h. h \<in> set hs, s\<lparr>events := events s @ map (\<lambda>h. PmCallback h REQUEST_WAKEUP) hs, faults := faults s @ fs\<rparr>)"
    "distinct hs" "set hs = woken bm p n" by blast
  let ?t = "s\<lparr>events := events s @ map (\<lambda>h. PmCallback h REQUEST_WAKEUP) hs, faults := faults s @ fs\<rparr>"
  have step: "foldl (\<lambda>st i. suspend_pipe bm i st) (\<lambda>h. False, s) [0..<Suc n] =
      suspend_pipe bm n (\<lambda>h. h \<in> set hs, ?t)" by (simp add: IH(1))
  have wk: "woken bm p (Suc n) = woken bm p n \<union> {h. wakes bm p n h}"
    by (auto simp: woken_def less_Suc_eq)
  have core: "core_inv (core_of_pm p)" using assms by (auto simp: pm_inv_def core_of_def)
  have reg: "\<exists>c. clients p h = Some c \<and> cl_hdl c = h" if "clients_by_pipe p n = Some h" for h
  proof -
    have "clients p h \<noteq> None" using core that by (auto simp: core_inv_def core_of_pm_def)
    then obtain c where "clients p h = Some c" by blast
    then show ?thesis using core_inv_client [OF core, of h c] by (auto simp: core_of_pm_def client_inv_def)
  qed
  show ?case
  proof (cases "\<exists>h. wakes bm p n h \<and> h \<notin> set hs")
    case True
    then obtain h c where h: "bit bm n" "clients_by_pipe p n = Some h" "clients p h = Some c" "cl_callback c" "h \<notin> set hs"
      by (auto simp: wakes_def split: option.splits)
    then have hd: "cl_hdl c = h" using reg by force
    have "{h. wakes bm p n h} = {h}" using h by (auto simp: wakes_def)
    then show ?thesis unfolding step using h hd assms(2) IH(2,3)
      by (intro exI [of _ "hs @ [h]"] exI [of _ fs]) (auto simp: suspend_pipe_def mask_simps emit_def wk fun_eq_iff)
  next
    case False
    then have old: "woken bm p (Suc n) = set hs" using IH(3) wk by auto
    have "\<exists>gs. suspend_pipe bm n (\<lambda>h. h \<in> set hs, ?t) = (\<lambda>h. h \<in> set hs, ?t\<lparr>faults := faults ?t @ gs\<rparr>)"
    proof (cases "bit bm n \<and> clients_by_pipe p n \<noteq> None")
      case True
      then obtain h c where h: "clients_by_pipe p n = Some h" "clients p h = Some c" "cl_hdl c = h" using reg by blast
      with False have "h \<in> set hs \<or> \<not> cl_callback c" using True by (auto simp: wakes_def)
      then have "suspend_pipe bm n (\<lambda>h. h \<in> set hs, ?t) =
          (\<lambda>h. h \<in> set hs, ?t\<lparr>faults := faults ?t @ (if h \<in> set hs then [] else [WarnNoCallback])\<rparr>)"
        using True h assms(2) by (elim disjE) (simp_all add: suspend_pipe_def mask_simps fault_def)
      then show ?thesis by blast
    next
      case False
      then show ?thesis using assms(2)
        by (intro exI [of _ "[]"]) (auto simp: suspend_pipe_def mask_simps split: option.splits)
    qed
    then obtain gs where gs: "suspend_pipe bm n (\<lambda>h. h \<in> set hs, ?t) = (\<lambda>h. h \<in> set hs, ?t\<lparr>faults := faults ?t @ gs\<rparr>)" ..
    show ?thesis unfolding step gs using IH(2) old
      by (intro exI [of _ hs] exI [of _ "fs @ gs"]) auto
  qed
qed

text \<open>
  A suspend interrupt wakes each client with a callback that owns one of the suspended
  pipes exactly once, no other client, and changes nothing else of the power manager.
\<close>

theorem pm_suspend_wakes_each_once:
  assumes "pm_reachable s" "pm s = Some p" "bm \<noteq> 0"
  shows "\<exists>hs. fst (ipa_pm_handle_suspend bm s) = OK \<and>
    events (snd (ipa_pm_handle_suspend bm s)) = events s @ map (\<lambda>h. PmCallback h REQUEST_WAKEUP) hs \<and>
    distinct hs \<and>
    set hs = {h. \<exists>i c. i < 31 \<and> bit bm i \<and> clients_by_pipe p i = Some h \<and> clients p h = Some c \<and> cl_callback c} \<and>
    pm (snd (ipa_pm_handle_suspend bm s)) = pm s"
proof -
  obtain hs fs where hs: "foldl (\<lambda>st i. suspend_pipe bm i st) (\<lambda>h. False, s) [0..<IPA3_MAX_NUM_PIPES] =
     (\<lambda>h. h \<in> set hs, s\<lparr>events := events s @ map (\<lambda>h. PmCallback h REQUEST_WAKEUP) hs, faults := faults s @ fs\<rparr>)"
    "distinct hs" "set hs = woken bm p IPA3_MAX_NUM_PIPES"
    using suspend_loop [OF pm_reachable_inv [OF assms(1)] assms(2)] by blast
  have "woken bm p IPA3_MAX_NUM_PIPES =
      {h. \<exists>i c. i < 31 \<and> bit bm i \<and> clients_by_pipe p i = Some h \<and> clients p h = Some c \<and> cl_callback c}"
    by (auto simp: woken_def wakes_def pm_consts split: option.splits)
  then show ?thesis using assms(2,3) hs by (intro exI [of _ hs]) (simp add: ipa_pm_handle_suspend_def)
qed

definition demo_pipe_env :: ipa_env where
  "demo_pipe_env = demo_env\<lparr>env_ep_mapping := \<lambda>c. int (c mod 31)\<rparr>"

definition demo_s4 :: ipa where
  "demo_s4 = snd (ipa_pm_associate_ipa_cons_to_client demo_pipe_env 1 3 (demo_s3 demo_boot))"

lemma pm_suspend_wakes_each_once_witness:
  "events (snd (ipa_pm_handle_suspend 0xFF demo_s4)) = events demo_s4 @ [PmCallback 1 REQUEST_WAKEUP]"
proof -
  have mod: "int (c mod 31) < 31" for c :: nat using mod_less_divisor [of 31 c] by linarith
  have r: "pm_reachable demo_s4" unfolding demo_s4_def
    by (rule pm_reach_own [OF demo_s3_reachable [OF demo_base_boot] own_associate])
       (simp add: demo_pipe_env_def pm_consts mod)
  obtain p where p: "pm (demo_s3 demo_boot) = Some p" "clients_by_pipe p = (\<lambda>i. None)" by (rule demo_s3_pm)
  have c: "clients p 1 = Some (activated_client (new_client ''usb'' (demo_rp ''usb'') 1 True))"
    using demo_active p by (simp add: get_client_def)
  let ?p = "p\<lparr>clients_by_pipe := (\<lambda>i. None)(3 \<mapsto> 1)\<rparr>"
  have p4: "pm demo_s4 = Some ?p"
    using p c by (simp add: demo_s4_def ipa_pm_associate_ipa_cons_to_client_def demo_pipe_env_def demo_env_def
        pm_consts upd_pm_def del: One_nat_def)
  have b: "bit (0xFF :: u32) 3" by (simp add: bit_simps)
  have "{h. \<exists>i c. i < 31 \<and> bit (0xFF :: u32) i \<and> clients_by_pipe ?p i = Some h \<and> clients ?p h = Some c \<and> cl_callback c} = {1}"
    using c b by (auto simp: activated_client_def new_client_def demo_rp_def simp del: One_nat_def split: if_splits)
  with pm_suspend_wakes_each_once [OF r p4, of "0xFF"] obtain hs where
    "events (snd (ipa_pm_handle_suspend 0xFF demo_s4)) = events demo_s4 @ map (\<lambda>h. PmCallback h REQUEST_WAKEUP) hs"
    "distinct hs" "set hs = {1}" by auto
  moreover from this have "length hs = 1" using distinct_card [of hs] by simp
  then obtain x where "hs = [x]" by (auto simp: length_Suc_conv)
  ultimately show ?thesis by simp
qed

section \<open>Where the code departs from its contract\<close>

text \<open>
  A client of the APPS group that does not vote for clocks still holds its wake lock after
  it was activated and deactivated.
\<close>

theorem pm_skip_vote_keeps_wakelock:
  assumes "pm_reachable s" "get_client h s = Some c" "cl_state c = DEACTIVATED"
    "cl_skip_clk_vote c" "cl_group c = GROUP_APPS"
  shows "\<exists>s1 s2 c'. ipa_pm_activate e h s = (OK, s1) \<and> ipa_pm_deactivate_sync e h s1 = Ret (OK, s2) \<and>
    get_client h s2 = Some c' \<and> cl_state c' = DEACTIVATED \<and> cl_wlock_held c'"
proof -
  have inv: "pm_inv s" by (rule pm_reachable_inv [OF assms(1)])
  obtain k where k: "clk_inv s" "core_of s = Some k" using inv by (auto simp: pm_inv_def)
  obtain p where p: "pm s = Some p" using pm_inv_pm [OF inv] by blast
  note ci = pm_inv_client [OF inv assms(2)]
  define s1 where "s1 = got_clocks e False h s"
  have cp: "clients p h = Some c" using assms(2) p by (simp add: get_client_def)
  have act: "ipa_pm_activate e h s = (OK, s1)"
    using p cp ci(2) assms(3,4) by (simp add: ipa_pm_activate_def activate_helper_async_def s1_def)
  have c1: "get_client h s1 = Some (activated_client c)"
    unfolding s1_def by (rule got_clocks_client [OF k assms(2)])
  have r1: "pm_reachable s1" using pm_reach_own [OF assms(1) own_activate, of e h] act by simp
  note inv1 = pm_reachable_inv [OF r1]
  obtain p1 where p1: "pm s1 = Some p1" using pm_inv_pm [OF inv1] by blast
  have st: "cl_state (activated_client c) = ACTIVATED" "\<not> cl_sync_inflight (activated_client c)"
    "cl_wlock_held (activated_client c)"
    using ci(1) assms(3,5) by (auto simp: activated_client_def client_inv_def)
  obtain r s2 where s2: "ipa_pm_deactivate_sync e h s1 = Ret (r, s2)"
    using p1 c1 ci(2) st(1) by (simp add: ipa_pm_deactivate_sync_def get_client_def Let_def)
  have r: "r = OK" using p1 c1 ci(2) st(1) s2 by (simp add: ipa_pm_deactivate_sync_def get_client_def Let_def)
  have q: "\<And>c. get_client h s1 = Some c \<Longrightarrow> \<not> cl_sync_inflight c" using c1 st(2) by simp
  have "get_client h s2 = Some (deactivated_client (activated_client c))"
    using deactivate_sync_moves [OF inv1 s2 q] c1 st(1) by auto
  then show ?thesis using act s2 r st(3) assms(4)
    by (auto simp: deactivated_client_def activated_client_def)
qed

lemma pm_skip_vote_keeps_wakelock_witness:
  "\<exists>s s1 s2 c'. pm_reachable s \<and> ipa_pm_activate demo_env 1 s = (OK, s1) \<and>
     ipa_pm_deactivate_sync demo_env 1 s1 = Ret (OK, s2) \<and>
     get_client 1 s2 = Some c' \<and> cl_state c' = DEACTIVATED \<and> cl_wlock_held c'"
proof -
  let ?rp = "(demo_rp ''usb'')\<lparr>rp_skip_clk_vote := True\<rparr>"
  obtain p where p: "pm (demo_s1 demo_boot) = Some p" "clients p = (\<lambda>h. None)"
    using demo_s1_clients [OF demo_base_boot] by blast
  note r = demo_s1_reachable [OF demo_base_boot]
  have inv: "pm_inv (demo_s1 demo_boot)" by (rule pm_reachable_inv [OF r])
  then obtain k where k: "core_of (demo_s1 demo_boot) = Some k" by (auto simp: pm_inv_def)
  have e: "env_kzalloc demo_env" "env_wakeup_source demo_env" "rp_name ?rp = Some ''usb''"
    by (simp_all add: demo_env_def demo_rp_def)
  obtain s where s: "ipa_pm_register demo_env (Some ?rp) True (demo_s1 demo_boot) = (OK, Some 1, s)"
    "get_client 1 s = Some (new_client ''usb'' ?rp 1 True)"
    using register_shape [OF inv p(1) e(3) find_open_empty [OF p(2)] e(1,2) _ k]
    by (auto simp: get_client_def simp del: One_nat_def)
  have "pm_reachable s" by (rule pm_reach_own [OF r own_register [OF s(1) e(2)]]) (simp add: e(3) pm_consts)
  from this pm_skip_vote_keeps_wakelock [OF this s(2), of demo_env] show ?thesis
    by (auto simp: new_client_def demo_rp_def)
qed

text \<open>
  A deferred deactivation that arrives while a synchronous activation waits for the clocks
  is lost: the client ends active with no timer and keeps its vote.
\<close>

theorem pm_sync_activation_loses_deactivation:
  assumes "pm_reachable s" "get_client h s = Some c" "cl_state c = DEACTIVATED" "\<not> cl_skip_clk_vote c"
  shows "\<exists>s1 s2 c'. activate_sync_enter e h s = Ret (None, s1) \<and> ipa_pm_deferred_deactivate h s1 = (OK, s2) \<and>
    get_client h (activate_sync_resume e h s2) = Some c' \<and> cl_state c' = ACTIVATED \<and> \<not> cl_deactivate_work c' \<and>
    clk_votes (activate_sync_resume e h s2) = clk_votes s + 1"
proof -
  have inv: "pm_inv s" by (rule pm_reachable_inv [OF assms(1)])
  obtain k where k: "clk_inv s" "core_of s = Some k" using inv by (auto simp: pm_inv_def)
  obtain p where p: "pm s = Some p" using pm_inv_pm [OF inv] by blast
  note ci = pm_inv_client [OF inv assms(2)]
  have cp: "clients p h = Some c" using assms(2) p by (simp add: get_client_def)
  let ?f = "\<lambda>c. c\<lparr>cl_state := ACTIVATE_IN_PROGRESS, cl_sync_inflight := True\<rparr>"
  define s1 where "s1 = upd_client h ?f s"
  have c1: "get_client h s1 = Some (?f c)" unfolding s1_def by (rule get_client_upd [OF assms(2)])
  define s2 where "s2 = set_state h DEACTIVATE_IN_PROGRESS s1"
  have c2: "get_client h s2 = Some ((?f c)\<lparr>cl_state := DEACTIVATE_IN_PROGRESS\<rparr>)"
    unfolding s2_def by (rule set_state_client [OF c1])
  have enter: "activate_sync_enter e h s = Ret (None, s1)"
    using p cp ci(2) assms(3,4) by (simp add: activate_sync_enter_def s1_def)
  have def1: "ipa_pm_deferred_deactivate h s1 = (OK, s2)"
    using c1 ci(2) by (auto simp: ipa_pm_deferred_deactivate_def get_client_def s2_def split: option.splits)
  have r2: "pm_reachable s2"
    using pm_reach_own [OF pm_reach_own [OF assms(1) own_sync_enter [OF enter]] own_deferred, of h] def1 by simp
  have inv2: "pm_inv s2" by (rule pm_reachable_inv [OF r2])
  obtain k2 where k2: "clk_inv s2" "core_of s2 = Some k2" using inv2 by (auto simp: pm_inv_def)
  let ?d = "(?f c)\<lparr>cl_state := DEACTIVATE_IN_PROGRESS\<rparr>"
  define s3 where "s3 = inc_client_enable_clks e (PREP_SPECIAL ''ipa_pm.c'' 954 (cl_name ?d)) s2"
  have s3: "clk_inv s3" "core_of s3 = Some k2" "clk_votes s3 = clk_votes s2 + 1"
    using inc_core [OF k2(1)] k2(2) by (simp_all add: s3_def)
  have c3: "get_client h s3 = Some ?d" using c2 get_client_core [OF k2(2)] get_client_core [OF s3(2)] by simp
  define s4 where "s4 = upd_client h (\<lambda>c. c\<lparr>cl_sync_inflight := False\<rparr>) s3"
  have k3: "co_clients k2 h = Some ?d" using c3 get_client_core [OF s3(2)] by simp
  note u = upd_client_core [OF s3(2) k3, of "\<lambda>c. c\<lparr>cl_sync_inflight := False\<rparr>", folded s4_def]
  have res: "activate_sync_resume e h s2 = got_clocks e True h s4"
    using c2 by (simp add: activate_sync_resume_def s3_def s4_def)
  have c4: "get_client h s4 = Some (?d\<lparr>cl_sync_inflight := False\<rparr>)" unfolding s4_def by (rule get_client_upd [OF c3])
  have v1: "clk_votes s2 = clk_votes s" by (simp add: s2_def set_state_def s1_def clk_votes_upd_client [OF c1 [unfolded s1_def]]
        clk_votes_upd_client [OF assms(2)])
  have i4: "clk_inv s4" using u s3(1) by simp
  obtain k4 where k4: "core_of s4 = Some k4" using u by blast
  have "clk_votes (got_clocks e True h s4) = clk_votes s4"
    by (rule got_clocks_core(2) [OF i4 k4]) (use c4 get_client_core [OF k4] in simp)
  moreover have "clk_votes s4 = clk_votes s3" unfolding s4_def by (rule clk_votes_upd_client [OF c3])
  ultimately have "clk_votes (activate_sync_resume e h s2) = clk_votes s + 1" by (simp add: res s3(3) v1)
  moreover have "get_client h (activate_sync_resume e h s2) = Some (activated_client (?d\<lparr>cl_sync_inflight := False\<rparr>))"
    unfolding res by (rule got_clocks_client [OF i4 k4 c4])
  moreover have "\<not> cl_deactivate_work c" using ci(1) assms(3) by (simp add: client_inv_def)
  ultimately show ?thesis using enter def1 by (auto simp: activated_client_def)
qed

lemma pm_sync_activation_loses_deactivation_witness:
  "\<exists>s1 s2 c'. activate_sync_enter demo_env 1 (demo_s2 demo_gated) = Ret (None, s1) \<and>
     ipa_pm_deferred_deactivate 1 s1 = (OK, s2) \<and>
     get_client 1 (activate_sync_resume demo_env 1 s2) = Some c' \<and> cl_state c' = ACTIVATED"
proof -
  have "cl_state (new_client ''usb'' (demo_rp ''usb'') 1 True) = DEACTIVATED"
    "\<not> cl_skip_clk_vote (new_client ''usb'' (demo_rp ''usb'') 1 True)"
    by (simp_all add: new_client_def demo_rp_def)
  from pm_sync_activation_loses_deactivation [OF demo_s2_reachable [OF demo_gated_facts(1)]
      demo_s2_client(1) [OF demo_gated_facts(1)] this, of demo_env]
  show ?thesis by blast
qed

text \<open>
  With four or more thresholds passed the level is beyond what the clock plan accepts: the
  vote is recorded as changed but neither the rate nor the bus vote moves.
\<close>

theorem pm_top_level_rejected:
  assumes "pm_reachable s" "pm s = Some p" "ipa_clk_vote s \<noteq> 0" "enable_clock_scaling s" "ipa_hw_mode s = HW_NORMAL"
    "5 \<le> 1 + card {i. i < threshold_size (clk_scaling p) \<and> chosen_thresholds (clk_scaling p) ! i \<le> calculate_throughput p}"
  shows "\<exists>p'. pm (do_clk_scaling e s) = Some p' \<and> 5 \<le> cur_vote (clk_scaling p') \<and>
    curr_ipa_clk_rate (do_clk_scaling e s) = curr_ipa_clk_rate s \<and> events (do_clk_scaling e s) = events s"
proof -
  have v: "5 \<le> scaling_level p" using assms(6) by (simp add: scaling_level_def)
  have "curr_ipa_clk_rate (do_clk_scaling e s) = curr_ipa_clk_rate s \<and> events (do_clk_scaling e s) = events s"
    unfolding do_clk_scaling_shape [OF assms(2,3)] using v assms(4,5)
    by (simp add: set_clock_plan_from_pm_def)
  then show ?thesis using do_clk_scaling_result [OF assms(2,3), of e] v by simp
qed

definition demo_params4 :: pm_init_params where
  "demo_params4 = \<lparr>ip_default_threshold = [0, 0, 0, 0, 0], ip_threshold_size = 4, ip_exceptions = [],
     ip_exception_size = 0\<rparr>"

lemma calculate_throughput_idle: "clients p = (\<lambda>h. None) \<Longrightarrow> calculate_throughput p = 0"
proof -
  assume c: "clients p = (\<lambda>h. None)"
  have "foldl (\<lambda>st i. collect_tput p i st) st hs = st" for st and hs :: "nat list"
    by (induction hs arbitrary: st) (simp_all add: collect_tput_def c)
  then show ?thesis by (simp add: calculate_throughput_def collect_all_def tput_loop.simps)
qed

lemma pm_top_level_rejected_witness:
  "\<exists>p'. pm (do_clk_scaling demo_env (snd (ipa_pm_init demo_env (Some demo_params4) demo_boot))) = Some p' \<and>
     5 \<le> cur_vote (clk_scaling p')"
proof -
  let ?s = "snd (ipa_pm_init demo_env (Some demo_params4) demo_boot)"
  have none: "pm demo_boot = None" using demo_base_boot by (simp add: demo_base_def)
  have env: "env_kzalloc demo_env" "env_create_wq demo_env" by (simp_all add: demo_env_def)
  have init: "ipa_pm_init demo_env (Some demo_params4) demo_boot = (OK, ?s)"
    by (simp add: ipa_pm_init_def none env demo_params4_def pm_consts Let_def)
  obtain p where p: "pm ?s = Some p" "clients p = (\<lambda>h. None)" "threshold_size (clk_scaling p) = 4"
    "chosen_thresholds (clk_scaling p) = [0, 0, 0, 0, 0]"
    by (simp add: ipa_pm_init_def none env demo_params4_def pm_consts Let_def chosen_thresholds_def
        threshold_copy_def upt_rec)
  have frame: "ipa_clk_vote ?s = ipa_clk_vote demo_boot" "enable_clock_scaling ?s = enable_clock_scaling demo_boot"
    "ipa_hw_mode ?s = ipa_hw_mode demo_boot"
    by (simp_all add: ipa_pm_init_def none env demo_params4_def pm_consts Let_def)
  have boot: "ipa_hw_mode demo_boot = HW_NORMAL" "enable_clock_scaling demo_boot"
    by (simp_all add: ipa3_pre_init_clks_def Let_def demo_ipa_def active_clients_log_mod_def
        ipa3_enable_clks_def get_bus_vote_def icc_vote_def icc_set_bw_def demo_env_def emit_def
        ctrl_enable_clks_def clk_set_rate_def)
  have v: "ipa_clk_vote ?s \<noteq> 0"
    using clk_invD(3) [OF demo_boot_facts(1) boot(1)] demo_boot_facts(2) by (simp add: frame)
  have "{i. i < (4 :: nat) \<and> [0, 0, 0, 0, 0 :: int] ! i \<le> 0} = {0, 1, 2, 3}"
    by (auto simp: less_Suc_eq numeral_eq_Suc)
  then have five: "5 \<le> 1 + card {i. i < threshold_size (clk_scaling p) \<and>
      chosen_thresholds (clk_scaling p) ! i \<le> calculate_throughput p}"
    by (simp add: p(3,4) calculate_throughput_idle [OF p(2)])
  have r: "pm_reachable ?s" by (rule pm_reach_init [OF demo_boot_reachable init])
  have b: "enable_clock_scaling ?s" "ipa_hw_mode ?s = HW_NORMAL" by (simp_all only: frame boot)
  from pm_top_level_rejected [OF r p(1) v b five, of demo_env] show ?thesis by blast
qed

text \<open>
  Reading the statistics after the start of the power manager and before the first scaling
  dereferences the null pointer of the current thresholds.
\<close>

theorem pm_stat_before_scaling:
  assumes "ipa_pm_init e (Some ip) s = (OK, s1)" "0 \<le> sz"
  shows "NullDeref \<in> set (faults (snd (ipa_pm_stat True sz s1)))"
proof -
  have "\<exists>p. pm s1 = Some p \<and> current_threshold (clk_scaling p) = ThNull \<and> 0 < threshold_size (clk_scaling p)"
    using assms(1) by (auto simp: ipa_pm_init_def Let_def split: if_splits)
  then show ?thesis using assms(2) by (auto simp: ipa_pm_stat_def fault_def)
qed

lemma pm_stat_before_scaling_witness:
  "NullDeref \<in> set (faults (snd (ipa_pm_stat True 512 (demo_s1 demo_boot))))"
  by (rule pm_stat_before_scaling [OF demo_s1_init [OF demo_base_boot]]) simp

end
