(* ===== verification/Ipa_Idr.thy ===== *)
theory Ipa_Idr
  imports Ipa_Prelude
begin

text \<open>
  The handle database of the driver, \<open>ipa3_id_alloc\<close>, \<open>ipa3_id_find\<close>, \<open>ipa3_id_remove\<close> and
  \<open>ipa3_check_idr_if_freed\<close> of \<open>ipa_v3/ipa_utils.c\<close>, over the kernel's IDR: a table of
  pointers in which an allocation takes the smallest free identifier from 0 on. Its interface is
  a locale that the header component uses.
\<close>

type_synonym 'a idr = "'a option list"

text \<open>\<open>idr_alloc\<close> with start 0 and no upper bound: the smallest free identifier.\<close>

fun idr_put :: "'a \<Rightarrow> 'a idr \<Rightarrow> nat \<times> 'a idr" where
  "idr_put x [] = (0, [Some x])"
| "idr_put x (None # t) = (0, Some x # t)"
| "idr_put x (Some y # t) = (let (i, t') = idr_put x t in (Suc i, Some y # t'))"

text \<open>The flag says whether the kernel had memory for the node.\<close>

definition ipa3_id_alloc :: "bool \<Rightarrow> 'a \<Rightarrow> 'a idr \<Rightarrow> (errno + nat) \<times> 'a idr" where
  "ipa3_id_alloc ok x t = (if ok then let (i, t') = idr_put x t in (Inr i, t') else (Inl ENOMEM, t))"

definition ipa3_id_find :: "nat \<Rightarrow> 'a idr \<Rightarrow> 'a option" where
  "ipa3_id_find i t = (if i < length t then t ! i else None)"

definition ipa3_id_remove :: "nat \<Rightarrow> 'a idr \<Rightarrow> 'a idr" where
  "ipa3_id_remove i t = t[i := None]"

definition ipa3_check_idr_if_freed :: "'a \<Rightarrow> 'a idr \<Rightarrow> bool" where
  "ipa3_check_idr_if_freed x t = (\<not> list_ex (\<lambda>y. y = Some x) t)"

section \<open>The interface\<close>

locale handle_table =
  fixes alloc :: "'a \<Rightarrow> 't \<Rightarrow> nat \<times> 't"
    and find :: "nat \<Rightarrow> 't \<Rightarrow> 'a option"
    and remove :: "nat \<Rightarrow> 't \<Rightarrow> 't"
  assumes alloc_fresh: "alloc x t = (i, t') \<Longrightarrow> find i t = None"
    and alloc_least: "alloc x t = (i, t') \<Longrightarrow> j < i \<Longrightarrow> find j t \<noteq> None"
    and find_alloc: "alloc x t = (i, t') \<Longrightarrow> find j t' = (if j = i then Some x else find j t)"
    and find_remove: "find j (remove i t) = (if j = i then None else find j t)"
begin

text \<open>A handle that was removed is the next one given out if all smaller ones are in use.\<close>

lemma alloc_reuses:
  assumes "find i t = None" "\<And>j. j < i \<Longrightarrow> find j t \<noteq> None"
  shows "fst (alloc x t) = i"
proof -
  obtain k t' where k: "alloc x t = (k, t')" by fastforce
  have "\<not> i < k" using alloc_least [OF k] assms(1) by blast
  moreover have "\<not> k < i" using alloc_fresh [OF k] assms(2) by blast
  ultimately show ?thesis using k by simp
qed

lemma alloc_remove_find:
  "alloc x t = (i, t') \<Longrightarrow> find j (remove i t') = find j t"
  by (simp add: find_remove find_alloc alloc_fresh)

lemma live_alloc: "alloc x t = (i, t') \<Longrightarrow> {j. find j t' \<noteq> None} = insert i {j. find j t \<noteq> None}"
  by (auto simp: find_alloc)

end

lemma id_find_simps [simp]:
  "ipa3_id_find i [] = None" "ipa3_id_find 0 (y # t) = y" "ipa3_id_find (Suc i) (y # t) = ipa3_id_find i t"
  by (auto simp: ipa3_id_find_def)

lemma id_find_remove: "ipa3_id_find j (ipa3_id_remove i t) = (if j = i then None else ipa3_id_find j t)"
  by (auto simp: ipa3_id_find_def ipa3_id_remove_def nth_list_update)

lemma idr_put_fresh: "idr_put x t = (i, t') \<Longrightarrow> ipa3_id_find i t = None"
  by (induction x t arbitrary: i t' rule: idr_put.induct) (auto split: prod.splits)

lemma idr_put_least: "idr_put x t = (i, t') \<Longrightarrow> j < i \<Longrightarrow> ipa3_id_find j t \<noteq> None"
proof (induction x t arbitrary: i j t' rule: idr_put.induct)
  case (3 x y t)
  then show ?case by (cases j) (auto split: prod.splits)
qed (auto split: prod.splits)

lemma idr_put_find: "idr_put x t = (i, t') \<Longrightarrow> ipa3_id_find j t' = (if j = i then Some x else ipa3_id_find j t)"
proof (induction x t arbitrary: i j t' rule: idr_put.induct)
  case (1 x)
  then show ?case by (cases j) auto
next
  case (2 x t)
  then show ?case by (cases j) auto
next
  case (3 x y t)
  then show ?case by (cases j) (auto split: prod.splits if_splits)
qed

interpretation idr: handle_table idr_put ipa3_id_find ipa3_id_remove
  by unfold_locales (simp_all add: idr_put_fresh idr_put_least idr_put_find id_find_remove)

lemma check_idr_if_freed: "ipa3_check_idr_if_freed x t \<longleftrightarrow> (\<forall>i. ipa3_id_find i t \<noteq> Some x)"
  by (auto simp: ipa3_check_idr_if_freed_def ipa3_id_find_def list_ex_iff in_set_conv_nth)




end
