(* ===== verification/Ipa_Hdr.thy ===== *)
theory Ipa_Hdr
  imports Ipa_Idr "HOL-Library.Monad_Syntax"
begin

text \<open>
  The header tables of the driver, \<open>ipa_v3/ipa_hdr.c\<close>: packet headers and their processing
  contexts, the slots they take in the tables of the hardware, their reference counts and
  handles, and the commit of the tables. Objects live at addresses of a heap that never gives an
  address out twice; following a NULL pointer or a pointer to a freed object, or writing outside
  a buffer, is the result \<open>None\<close> of an operation.
\<close>

section \<open>Data\<close>

type_synonym byte = "8 word"

definition IPA_HDR_COOKIE :: u32 where "IPA_HDR_COOKIE = 0x57831607"
definition IPA_PROC_HDR_COOKIE :: u32 where "IPA_PROC_HDR_COOKIE = 0x57831608"
definition IPA_LAN_RX_HDR_NAME :: string where "IPA_LAN_RX_HDR_NAME = ''ipa_lan_hdr''"
definition IPA_HDR_BIN_MAX :: nat where "IPA_HDR_BIN_MAX = 5"
definition IPA_HDR_PROC_CTX_BIN_MAX :: nat where "IPA_HDR_PROC_CTX_BIN_MAX = 2"
definition CTX_ALIGNMENT_BYTE :: nat where "CTX_ALIGNMENT_BYTE = 8"

definition hdr_bin_sz :: "nat list" where "hdr_bin_sz = [8, 16, 24, 36, 64]"
definition ctx_bin_sz :: "nat list" where "ctx_bin_sz = [32, 64]"

lemmas hdr_consts = IPA_HDR_BIN_MAX_def IPA_HDR_PROC_CTX_BIN_MAX_def CTX_ALIGNMENT_BYTE_def
  hdr_bin_sz_def ctx_bin_sz_def

text \<open>\<open>ipa_hdr_offset_entry\<close> and \<open>ipa3_hdr_proc_ctx_offset_entry\<close>, a slot of a table.\<close>

record off_entry =
  o_offset :: nat
  o_bin :: nat
  o_ipacm :: bool

text \<open>The members that \<open>ipa3_hdr_tbl\<close> and \<open>ipa3_hdr_proc_ctx_tbl\<close> share: slots by bin, the end.\<close>

record off_tbl =
  ot_used :: "nat \<Rightarrow> nat list"
  ot_free :: "nat \<Rightarrow> nat list"
  ot_end :: nat

record hdr_entry =
  h_cookie :: u32
  h_hdr :: "byte list"
  h_len :: nat
  h_name :: string
  h_type :: int
  h_partial :: bool
  h_ddr :: bool
  h_phys :: nat
  h_ctx :: "nat option"
  h_off :: "nat option"
  h_ref :: u32
  h_id :: nat
  h_eth2_valid :: bool
  h_eth2_ofst :: nat
  h_user_deleted :: bool
  h_ipacm :: bool

record l2tp_params =
  lp_dst_pipe_valid :: bool
  lp_dst_pipe :: nat
  lp_ofst_valid :: bool
  lp_ofst :: nat
  lp_endianness :: nat

record ctx_entry =
  c_cookie :: u32
  c_type :: int
  c_l2tp :: l2tp_params
  c_generic :: nat
  c_off :: "nat option"
  c_hdr :: "nat option"
  c_ref :: u32
  c_id :: nat
  c_user_deleted :: bool
  c_ipacm :: bool

text \<open>What a handle stands for. Objects of other modules show their cookie and their address here.\<close>

datatype hdr_ptr = PHdr nat | PCtx nat | POther u32 nat

record hdr_db =
  db_idr :: "hdr_ptr idr"
  db_hdr :: "nat \<Rightarrow> hdr_entry option"
  db_ctx :: "nat \<Rightarrow> ctx_entry option"
  db_off :: "nat \<Rightarrow> off_entry option"
  db_next :: nat
  hdr_list :: "nat list"
  hdr_cnt :: u32
  hdr_tbl :: off_tbl
  ctx_list :: "nat list"
  ctx_cnt :: u32
  ctx_tbl :: off_tbl
  dma_mapped :: "nat list"
  dma_bufs :: "nat list"
  hdr_mem :: "nat option"
  ctx_mem :: "nat option"
  hw_hdr :: "byte list"

text \<open>
  The configuration, the constants of the interface header and what the rest of the kernel
  answers; answers may depend on the address of the object that is asked for.
\<close>

record hdr_env =
  e_hdr_max :: nat
  e_name_max :: nat
  e_l2_max :: int
  e_proc_max :: int
  e_hdr_lcl :: bool
  e_ctx_lcl :: bool
  e_hdr_size :: nat
  e_hdr_size_ddr :: nat
  e_ctx_size :: nat
  e_ctx_size_ddr :: nat
  e_needed_len :: "int \<Rightarrow> int"
  e_alloc :: "nat \<Rightarrow> bool"
  e_id :: "nat \<Rightarrow> bool"
  e_map :: "nat \<Rightarrow> bool"
  e_phys :: "nat \<Rightarrow> nat"
  e_dma :: "bool \<Rightarrow> nat \<Rightarrow> bool"
  e_cmd :: "nat \<Rightarrow> bool"
  e_send :: bool
  e_coal_ep :: int
  e_ep :: "nat \<Rightarrow> int"
  e_ep_cfg :: "nat \<Rightarrow> bool \<times> nat \<times> bool"
  e_cp_ctx :: "ctx_entry \<Rightarrow> hdr_entry \<Rightarrow> rc"
  e_stack :: "l2tp_params \<times> nat"

section \<open>Handles and slots\<close>

text \<open>Every object starts with its list node and its cookie, so the cookie can be read first.\<close>

definition cookie_of :: "hdr_ptr \<Rightarrow> hdr_db \<Rightarrow> u32 option" where
  "cookie_of ptr s =
     (case ptr of PHdr a \<Rightarrow> map_option h_cookie (db_hdr s a)
                | PCtx c \<Rightarrow> map_option c_cookie (db_ctx s c)
                | POther k b \<Rightarrow> Some k)"

text \<open>The lookups at the start of the operations: the inner \<open>None\<close> is a handle they refuse.\<close>

definition hdr_by_handle :: "nat \<Rightarrow> hdr_db \<Rightarrow> nat option option" where
  "hdr_by_handle hdl s =
     (case ipa3_id_find hdl (db_idr s) of
        None \<Rightarrow> Some None
      | Some ptr \<Rightarrow> do {
          k \<leftarrow> cookie_of ptr s;
          if k \<noteq> IPA_HDR_COOKIE then Some None
          else (case ptr of PHdr a \<Rightarrow> Some (Some a) | _ \<Rightarrow> None) })"

definition ctx_by_handle :: "nat \<Rightarrow> hdr_db \<Rightarrow> nat option option" where
  "ctx_by_handle hdl s =
     (case ipa3_id_find hdl (db_idr s) of
        None \<Rightarrow> Some None
      | Some ptr \<Rightarrow> do {
          k \<leftarrow> cookie_of ptr s;
          if k \<noteq> IPA_PROC_HDR_COOKIE then Some None
          else (case ptr of PCtx c \<Rightarrow> Some (Some c) | _ \<Rightarrow> None) })"

text \<open>A new slot at the end of a table, the first free slot of a bin, \<open>list_move\<close> to the free list.\<close>

definition slot_grow :: "nat \<Rightarrow> nat \<Rightarrow> nat \<Rightarrow> off_tbl \<Rightarrow> off_tbl" where
  "slot_grow a bin sz t =
     t\<lparr>ot_end := ot_end t + sz, ot_used := (ot_used t)(bin := a # ot_used t bin)\<rparr>"

definition slot_take :: "nat \<Rightarrow> off_tbl \<Rightarrow> off_tbl" where
  "slot_take bin t =
     t\<lparr>ot_used := (ot_used t)(bin := hd (ot_free t bin) # ot_used t bin),
       ot_free := (ot_free t)(bin := tl (ot_free t bin))\<rparr>"

definition slot_release :: "nat \<Rightarrow> nat \<Rightarrow> off_tbl \<Rightarrow> off_tbl" where
  "slot_release bin a t =
     t\<lparr>ot_used := (\<lambda>b. remove1 a (ot_used t b)),
       ot_free := (\<lambda>b. if b = bin then a # remove1 a (ot_free t b) else remove1 a (ot_free t b))\<rparr>"

definition hdr_bin :: "nat \<Rightarrow> nat option" where
  "hdr_bin len =
     (if len \<le> hdr_bin_sz ! 0 then Some 0 else if len \<le> hdr_bin_sz ! 1 then Some 1
      else if len \<le> hdr_bin_sz ! 2 then Some 2 else if len \<le> hdr_bin_sz ! 3 then Some 3
      else if len \<le> hdr_bin_sz ! 4 then Some 4 else None)"

definition ctx_bin :: "int \<Rightarrow> nat option" where
  "ctx_bin len =
     (if len < 0 \<or> len > int (ctx_bin_sz ! 0) \<and> len > int (ctx_bin_sz ! 1) then None
      else if len \<le> int (ctx_bin_sz ! 0) then Some 0 else Some 1)"

definition hdr_mem_size :: "hdr_env \<Rightarrow> nat" where
  "hdr_mem_size e = (if e_hdr_lcl e then e_hdr_size e else e_hdr_size_ddr e)"

definition ctx_mem_size :: "hdr_env \<Rightarrow> nat" where
  "ctx_mem_size e = (if e_ctx_lcl e then e_ctx_size e else e_ctx_size_ddr e)"

section \<open>Adding a processing context\<close>

record ctx_add =
  pa_type :: int
  pa_hdl :: nat
  pa_l2tp :: l2tp_params
  pa_generic :: nat

definition add_ref :: "nat \<Rightarrow> hdr_db \<Rightarrow> hdr_db option" where
  "add_ref a s = do { h \<leftarrow> db_hdr s a; Some (s\<lparr>db_hdr := (db_hdr s)(a \<mapsto> h\<lparr>h_ref := h_ref h + 1\<rparr>)\<rparr>) }"

definition drop_ref :: "nat \<Rightarrow> hdr_db \<Rightarrow> hdr_db option" where
  "drop_ref a s = do { h \<leftarrow> db_hdr s a; Some (s\<lparr>db_hdr := (db_hdr s)(a \<mapsto> h\<lparr>h_ref := h_ref h - 1\<rparr>)\<rparr>) }"

text \<open>The label \<open>bad_len\<close>: the reference goes back, the entry is freed.\<close>

definition ctx_bad_len :: "nat \<Rightarrow> nat \<Rightarrow> bool \<Rightarrow> hdr_db \<Rightarrow> (rc \<times> nat option \<times> hdr_db) option" where
  "ctx_bad_len a c ref s = do {
     s1 \<leftarrow> (if ref then drop_ref a s else Some s);
     Some (Err EPERM, None, s1\<lparr>db_ctx := (db_ctx s1)(c := None)\<rparr>) }"

text \<open>From the slot on: the entry is linked and gets its handle, or all of it is undone.\<close>

definition ctx_link ::
  "hdr_env \<Rightarrow> nat \<Rightarrow> nat \<Rightarrow> nat \<Rightarrow> nat \<Rightarrow> bool \<Rightarrow> hdr_db \<Rightarrow> (rc \<times> nat option \<times> hdr_db) option" where
  "ctx_link e a c off bin ref s = do {
     x \<leftarrow> db_ctx s c;
     let s1 = s\<lparr>db_ctx := (db_ctx s)(c \<mapsto> x\<lparr>c_off := Some off\<rparr>), ctx_list := c # ctx_list s,
                ctx_cnt := ctx_cnt s + 1\<rparr>;
     case ipa3_id_alloc (e_id e c) (PCtx c) (db_idr s1) of
       (Inl err, t) \<Rightarrow>
         ctx_bad_len a c ref
           (s1\<lparr>ctx_tbl := slot_release bin off (ctx_tbl s1), ctx_list := remove1 c (ctx_list s1),
               ctx_cnt := ctx_cnt s1 - 1\<rparr>)
     | (Inr i, t) \<Rightarrow>
         Some (OK, Some i, s1\<lparr>db_idr := t,
           db_ctx := (db_ctx s1)(c \<mapsto> x\<lparr>c_off := Some off, c_id := i, c_ref := c_ref x + 1\<rparr>)\<rparr>) }"

definition add_hdr_proc_ctx ::
  "hdr_env \<Rightarrow> ctx_add \<Rightarrow> bool \<Rightarrow> bool \<Rightarrow> hdr_db \<Rightarrow> (rc \<times> nat option \<times> hdr_db) option" where
  "add_hdr_proc_ctx e pa ref user s =
     (if \<not> (0 \<le> pa_type pa \<and> pa_type pa < e_proc_max e) then Some (Err EINVAL, None, s)
      else do {
        r \<leftarrow> hdr_by_handle (pa_hdl pa) s;
        case r of None \<Rightarrow> Some (Err EINVAL, None, s)
        | Some a \<Rightarrow>
            if \<not> e_alloc e (db_next s) then Some (Err ENOMEM, None, s)
            else do {
              let c = db_next s;
              let x = \<lparr>c_cookie = IPA_PROC_HDR_COOKIE, c_type = pa_type pa, c_l2tp = pa_l2tp pa,
                       c_generic = pa_generic pa, c_off = None, c_hdr = Some a, c_ref = 0, c_id = 0,
                       c_user_deleted = False, c_ipacm = user\<rparr>;
              s1 \<leftarrow> (if ref then add_ref a s else Some s);
              let s2 = s1\<lparr>db_next := db_next s1 + 1, db_ctx := (db_ctx s1)(c \<mapsto> x)\<rparr>;
              case ctx_bin (e_needed_len e (pa_type pa)) of
                None \<Rightarrow> ctx_bad_len a c ref s2
              | Some bin \<Rightarrow>
                  (case ot_free (ctx_tbl s2) bin of
                     [] \<Rightarrow>
                       if ot_end (ctx_tbl s2) + ctx_bin_sz ! bin > ctx_mem_size e
                       then ctx_bad_len a c ref s2
                       else if \<not> e_alloc e (db_next s2) then ctx_bad_len a c ref s2
                       else
                         let off = db_next s2;
                             oe = \<lparr>o_offset = ot_end (ctx_tbl s2), o_bin = bin, o_ipacm = user\<rparr>
                         in ctx_link e a c off bin ref
                              (s2\<lparr>db_next := db_next s2 + 1, db_off := (db_off s2)(off \<mapsto> oe),
                                  ctx_tbl := slot_grow off bin (ctx_bin_sz ! bin) (ctx_tbl s2)\<rparr>)
                   | off # _ \<Rightarrow> do {
                       oe \<leftarrow> db_off s2 off;
                       ctx_link e a c off bin ref
                         (s2\<lparr>db_off := (db_off s2)(off \<mapsto> oe\<lparr>o_ipacm := user\<rparr>),
                             ctx_tbl := slot_take bin (ctx_tbl s2)\<rparr>) }) } })"

section \<open>Adding a header\<close>

record hdr_add =
  a_name :: string
  a_hdr :: "byte list"
  a_len :: nat
  a_type :: int
  a_partial :: bool
  a_eth2_valid :: bool
  a_eth2_ofst :: nat

text \<open>The label \<open>ipa_insert_failed\<close>.\<close>

definition hdr_undo :: "nat \<Rightarrow> hdr_entry \<Rightarrow> hdr_db \<Rightarrow> hdr_db option" where
  "hdr_undo a h s = do {
     s1 \<leftarrow> (if h_ddr h then Some (s\<lparr>dma_mapped := remove1 a (dma_mapped s)\<rparr>)
           else case h_off h of
                  None \<Rightarrow> Some s
                | Some off \<Rightarrow> do {
                    oe \<leftarrow> db_off s off;
                    Some (s\<lparr>hdr_tbl := slot_release (o_bin oe) off (hdr_tbl s)\<rparr>) });
     Some (s1\<lparr>hdr_cnt := hdr_cnt s1 - 1, hdr_list := remove1 a (hdr_list s1),
              db_hdr := (db_hdr s1)(a := None)\<rparr>) }"

definition hdr_link ::
  "hdr_env \<Rightarrow> nat \<Rightarrow> hdr_entry \<Rightarrow> bool \<Rightarrow> hdr_db \<Rightarrow> (rc \<times> nat option \<times> hdr_db) option" where
  "hdr_link e a h user s =
     (let s1 = s\<lparr>db_hdr := (db_hdr s)(a \<mapsto> h), hdr_list := a # hdr_list s, hdr_cnt := hdr_cnt s + 1\<rparr>
      in case ipa3_id_alloc (e_id e a) (PHdr a) (db_idr s1) of
           (Inl err, t) \<Rightarrow> do { s2 \<leftarrow> hdr_undo a h s1; Some (Err EPERM, None, s2) }
         | (Inr i, t) \<Rightarrow>
             let h1 = h\<lparr>h_id := i, h_ref := h_ref h + 1\<rparr>;
                 s2 = s1\<lparr>db_idr := t, db_hdr := (db_hdr s1)(a \<mapsto> h1)\<rparr>
             in if \<not> h_ddr h then Some (OK, Some i, s2)
                else do {
                  (r, ch, s3) \<leftarrow> add_hdr_proc_ctx e
                      \<lparr>pa_type = 0, pa_hdl = i, pa_l2tp = fst (e_stack e), pa_generic = snd (e_stack e)\<rparr>
                      False user s2;
                  if r \<noteq> OK then do {
                    s4 \<leftarrow> hdr_undo a h1 (s3\<lparr>db_idr := ipa3_id_remove i (db_idr s3)\<rparr>);
                    Some (Err EPERM, Some 0, s4) }
                  else (case ch of
                      None \<Rightarrow> None
                    | Some j \<Rightarrow>
                        (case ipa3_id_find j (db_idr s3) of
                           Some (PCtx c) \<Rightarrow>
                             Some (OK, Some i, s3\<lparr>db_hdr := (db_hdr s3)(a \<mapsto> h1\<lparr>h_ctx := Some c\<rparr>)\<rparr>)
                         | _ \<Rightarrow> None)) })"

definition new_hdr :: "hdr_env \<Rightarrow> hdr_add \<Rightarrow> bool \<Rightarrow> hdr_entry" where
  "new_hdr e ha user =
     \<lparr>h_cookie = IPA_HDR_COOKIE, h_hdr = take (a_len ha) (a_hdr ha) @ replicate (e_hdr_max e - a_len ha) 0,
      h_len = a_len ha, h_name = strlcpy (e_name_max e) (a_name ha), h_type = a_type ha,
      h_partial = a_partial ha, h_ddr = False, h_phys = 0, h_ctx = None, h_off = None, h_ref = 0, h_id = 0,
      h_eth2_valid = a_eth2_valid ha, h_eth2_ofst = a_eth2_ofst ha, h_user_deleted = False, h_ipacm = user\<rparr>"

definition add_hdr :: "hdr_env \<Rightarrow> hdr_add \<Rightarrow> bool \<Rightarrow> hdr_db \<Rightarrow> (rc \<times> nat option \<times> hdr_db) option" where
  "add_hdr e ha user s =
     (if a_len ha = 0 \<or> a_len ha > e_hdr_max e then Some (Err EPERM, None, s)
      else if \<not> (0 \<le> a_type ha \<and> a_type ha < e_l2_max e) then Some (Err EPERM, None, s)
      else if \<not> e_alloc e (db_next s) then Some (Err EPERM, None, s)
      else
        let a = db_next s; h = new_hdr e ha user; s1 = s\<lparr>db_next := db_next s + 1\<rparr>
        in case hdr_bin (a_len ha) of
             None \<Rightarrow> Some (Err EPERM, None, s1)
           | Some bin \<Rightarrow>
               (case ot_free (hdr_tbl s1) bin of
                  [] \<Rightarrow>
                    if ot_end (hdr_tbl s1) + hdr_bin_sz ! bin > hdr_mem_size e then
                      if \<not> e_map e a then Some (Err EPERM, None, s1)
                      else hdr_link e a (h\<lparr>h_ddr := True, h_phys := e_phys e a\<rparr>) user
                             (s1\<lparr>dma_mapped := a # dma_mapped s1\<rparr>)
                    else if \<not> e_alloc e (db_next s1) then Some (Err EPERM, None, s1)
                    else
                      let off = db_next s1;
                          oe = \<lparr>o_offset = ot_end (hdr_tbl s1), o_bin = bin, o_ipacm = user\<rparr>
                      in hdr_link e a (h\<lparr>h_off := Some off\<rparr>) user
                           (s1\<lparr>db_next := db_next s1 + 1, db_off := (db_off s1)(off \<mapsto> oe),
                               hdr_tbl := slot_grow off bin (hdr_bin_sz ! bin) (hdr_tbl s1)\<rparr>)
                | off # _ \<Rightarrow> do {
                    oe \<leftarrow> db_off s1 off;
                    hdr_link e a (h\<lparr>h_off := Some off\<rparr>) user
                      (s1\<lparr>db_off := (db_off s1)(off \<mapsto> oe\<lparr>o_ipacm := user\<rparr>),
                          hdr_tbl := slot_take bin (hdr_tbl s1)\<rparr>) }))"

section \<open>Deleting\<close>

text \<open>
  \<open>__ipa3_del_hdr_proc_ctx\<close>, over what it does with the header (the flag \<open>release_hdr\<close>), since
  the deletion of a header deletes the header's own context in turn.
\<close>

definition del_ctx_with ::
  "(nat option \<Rightarrow> hdr_db \<Rightarrow> hdr_db option) \<Rightarrow> nat \<Rightarrow> bool \<Rightarrow> hdr_db \<Rightarrow> (rc \<times> hdr_db) option" where
  "del_ctx_with release hdl by_user s = do {
     r \<leftarrow> ctx_by_handle hdl s;
     case r of None \<Rightarrow> Some (Err EINVAL, s)
     | Some c \<Rightarrow> do {
         x \<leftarrow> db_ctx s c;
         off \<leftarrow> c_off x;
         oe \<leftarrow> db_off s off;
         if by_user \<and> c_user_deleted x then Some (Err EINVAL, s)
         else do {
           let x1 = x\<lparr>c_user_deleted := c_user_deleted x \<or> by_user, c_ref := c_ref x - 1\<rparr>;
           let s1 = s\<lparr>db_ctx := (db_ctx s)(c \<mapsto> x1)\<rparr>;
           if c_ref x1 \<noteq> 0 then Some (OK, s1)
           else do {
             s2 \<leftarrow> release (c_hdr x1) s1;
             x2 \<leftarrow> db_ctx s2 c;
             off2 \<leftarrow> c_off x2;
             oe2 \<leftarrow> db_off s2 off2;
             Some (OK, s2\<lparr>ctx_tbl := slot_release (o_bin oe2) off2 (ctx_tbl s2),
                         ctx_list := remove1 c (ctx_list s2), ctx_cnt := ctx_cnt s2 - 1,
                         db_ctx := (db_ctx s2)(c := None), db_idr := ipa3_id_remove hdl (db_idr s2)\<rparr>) } } } }"

definition hdr_drop :: "nat \<Rightarrow> nat \<Rightarrow> hdr_entry \<Rightarrow> hdr_db \<Rightarrow> (rc \<times> hdr_db) option" where
  "hdr_drop hdl a h s = (
     let h1 = h\<lparr>h_ref := h_ref h - 1\<rparr>; s1 = s\<lparr>db_hdr := (db_hdr s)(a \<mapsto> h1)\<rparr>
     in if h_ref h1 \<noteq> 0 then Some (OK, s1)
        else do {
          s2 \<leftarrow> (if h_ddr h1 \<or> h_ctx h1 \<noteq> None then do {
                    c \<leftarrow> h_ctx h1;
                    x \<leftarrow> db_ctx s1 c;
                    (r, s3) \<leftarrow> del_ctx_with (\<lambda>h s. Some s) (c_id x) False
                                (s1\<lparr>dma_mapped := remove1 a (dma_mapped s1)\<rparr>);
                    Some s3 }
                else do {
                    off \<leftarrow> h_off h1;
                    oe \<leftarrow> db_off s1 off;
                    Some (s1\<lparr>hdr_tbl := slot_release (o_bin oe) off (hdr_tbl s1)\<rparr>) });
          Some (OK, s2\<lparr>hdr_list := remove1 a (hdr_list s2), hdr_cnt := hdr_cnt s2 - 1,
                      db_hdr := (db_hdr s2)(a := None), db_idr := ipa3_id_remove hdl (db_idr s2)\<rparr>) })"

definition del_hdr :: "nat \<Rightarrow> bool \<Rightarrow> hdr_db \<Rightarrow> (rc \<times> hdr_db) option" where
  "del_hdr hdl by_user s = do {
     r \<leftarrow> hdr_by_handle hdl s;
     case r of None \<Rightarrow> Some (Err EINVAL, s)
     | Some a \<Rightarrow> do {
         h \<leftarrow> db_hdr s a;
         ofs \<leftarrow> (if h_ddr h then Some 0 else do { off \<leftarrow> h_off h; oe \<leftarrow> db_off s off; Some (o_offset oe) });
         if by_user \<and> h_user_deleted h then Some (Err EINVAL, s)
         else if by_user \<and> h_name h = IPA_LAN_RX_HDR_NAME then do {
           off \<leftarrow> h_off h;
           oe \<leftarrow> db_off s off;
           if o_offset oe = 0 then Some (Err EPERM, s)
           else hdr_drop hdl a (h\<lparr>h_user_deleted := True\<rparr>) s }
         else hdr_drop hdl a (h\<lparr>h_user_deleted := h_user_deleted h \<or> by_user\<rparr>) s } }"

definition release_ctx_hdr :: "nat option \<Rightarrow> hdr_db \<Rightarrow> hdr_db option" where
  "release_ctx_hdr ah s = do { a \<leftarrow> ah; h \<leftarrow> db_hdr s a; (r, s1) \<leftarrow> del_hdr (h_id h) False s; Some s1 }"

definition del_hdr_proc_ctx :: "nat \<Rightarrow> bool \<Rightarrow> bool \<Rightarrow> hdr_db \<Rightarrow> (rc \<times> hdr_db) option" where
  "del_hdr_proc_ctx hdl release_hdr by_user =
     del_ctx_with (if release_hdr then release_ctx_hdr else (\<lambda>h s. Some s)) hdl by_user"

end
