(* ===== verification/Ipa_Hdr_Ops.thy ===== *)
theory Ipa_Hdr_Ops
  imports Ipa_Hdr
begin

text \<open>
  The calls of \<open>ipa_v3/ipa_hdr.c\<close> that clients and the user-space interface make: generation and
  commit of the tables, the batches of additions and deletions, lookup, copy, release and reset.
\<close>

section \<open>The image of the header table\<close>

text \<open>\<open>memcpy\<close> into a buffer; a copy that does not fit would corrupt memory.\<close>

definition memcpy_at :: "byte list \<Rightarrow> nat \<Rightarrow> byte list \<Rightarrow> byte list option" where
  "memcpy_at buf ofs bs =
     (if ofs + length bs \<le> length buf then Some (take ofs buf @ bs @ drop (ofs + length bs) buf) else None)"

fun copy_hdrs :: "nat list \<Rightarrow> hdr_db \<Rightarrow> byte list \<Rightarrow> byte list option" where
  "copy_hdrs [] s buf = Some buf"
| "copy_hdrs (a # as) s buf = do {
     h \<leftarrow> db_hdr s a;
     if h_ddr h then copy_hdrs as s buf
     else do {
       off \<leftarrow> h_off h;
       oe \<leftarrow> db_off s off;
       buf1 \<leftarrow> memcpy_at buf (o_offset oe) (take (h_len h) (h_hdr h));
       copy_hdrs as s buf1 } }"

text \<open>\<open>dma_alloc_coherent\<close>, tried a second time without sleeping.\<close>

definition dma_alloc :: "hdr_env \<Rightarrow> hdr_db \<Rightarrow> (errno + nat) \<times> hdr_db" where
  "dma_alloc e s =
     (if e_dma e True (db_next s) \<or> e_dma e False (db_next s)
      then (Inr (db_next s), s\<lparr>db_next := db_next s + 1, dma_bufs := db_next s # dma_bufs s\<rparr>)
      else (Inl ENOMEM, s))"

definition generate_hdr_hw_tbl :: "hdr_env \<Rightarrow> hdr_db \<Rightarrow> ((errno + nat \<times> byte list) \<times> hdr_db) option" where
  "generate_hdr_hw_tbl e s =
     (let size = ot_end (hdr_tbl s) in
      if size = 0 then Some (Inl EPERM, s)
      else case dma_alloc e s of
        (Inl err, s1) \<Rightarrow> Some (Inl err, s1)
      | (Inr b, s1) \<Rightarrow> do {
          img \<leftarrow> copy_hdrs (hdr_list s1) s1 (replicate size 0);
          Some (Inr (b, img), s1) })"

section \<open>The image of the context table\<close>

definition l2tp_of_ep :: "hdr_env \<Rightarrow> l2tp_params \<Rightarrow> l2tp_params" where
  "l2tp_of_ep e lp =
     (if lp_dst_pipe_valid lp then
        let ep = e_ep e (lp_dst_pipe lp) in
        if ep \<ge> 0 then
          let (v, ofs, little) = e_ep_cfg e (nat ep)
          in lp\<lparr>lp_ofst_valid := v, lp_ofst := ofs, lp_endianness := (if little then 0 else 1)\<rparr>
        else lp
      else lp)"

text \<open>The loop of \<open>ipa3_hdr_proc_ctx_to_hw_format\<close>; the bytes are written by the abstraction layer.\<close>

fun ctx_to_hw_format :: "hdr_env \<Rightarrow> nat list \<Rightarrow> hdr_db \<Rightarrow> (rc \<times> hdr_db) option" where
  "ctx_to_hw_format e [] s = Some (OK, s)"
| "ctx_to_hw_format e (c # cs) s = do {
     x \<leftarrow> db_ctx s c;
     off \<leftarrow> c_off x;
     oe \<leftarrow> db_off s off;
     let x1 = x\<lparr>c_l2tp := l2tp_of_ep e (c_l2tp x)\<rparr>;
     let s1 = s\<lparr>db_ctx := (db_ctx s)(c \<mapsto> x1)\<rparr>;
     case c_hdr x1 of
       None \<Rightarrow> Some (Err EINVAL, s1)
     | Some a \<Rightarrow> do {
         h \<leftarrow> db_hdr s1 a;
         if h_off h = None \<or> h_len h = 0 \<or> h_len h > hdr_bin_sz ! (IPA_HDR_BIN_MAX - 1)
         then Some (Err EINVAL, s1)
         else (case e_cp_ctx e x1 h of
                 OK \<Rightarrow> ctx_to_hw_format e cs s1
               | Err err \<Rightarrow> Some (Err err, s1)) } }"

text \<open>The buffer and the size of its aligned part.\<close>

definition generate_hdr_proc_ctx_hw_tbl :: "hdr_env \<Rightarrow> hdr_db \<Rightarrow> ((errno + nat \<times> nat) \<times> hdr_db) option" where
  "generate_hdr_proc_ctx_hw_tbl e s =
     (let size = (if ot_end (ctx_tbl s) = 0 then 4 else ot_end (ctx_tbl s)) + CTX_ALIGNMENT_BYTE in
      case dma_alloc e s of
        (Inl err, s1) \<Rightarrow> Some (Inl err, s1)
      | (Inr b, s1) \<Rightarrow> do {
          (r, s2) \<leftarrow> ctx_to_hw_format e (ctx_list s1) s1;
          Some (case r of OK \<Rightarrow> Inr (b, size - CTX_ALIGNMENT_BYTE) | Err err \<Rightarrow> Inl err, s2) })"

section \<open>Commit\<close>

text \<open>The commands of the commit, for tables of \<open>hsz\<close> and \<open>csz\<close> bytes: whether all were sent.\<close>

definition commit_cmds :: "hdr_env \<Rightarrow> nat \<Rightarrow> nat \<Rightarrow> bool" where
  "commit_cmds e hsz csz =
     (if e_coal_ep e \<noteq> -1 \<and> \<not> e_cmd e 0 then False
      else if hsz > hdr_mem_size e then False
      else if \<not> e_cmd e 1 then False
      else if csz > ctx_mem_size e then False
      else if \<not> e_cmd e 2 then False
      else e_send e)"

definition dma_free :: "nat \<Rightarrow> hdr_db \<Rightarrow> hdr_db" where
  "dma_free b s = s\<lparr>dma_bufs := remove1 b (dma_bufs s)\<rparr>"

definition keep_hdr_mem :: "hdr_env \<Rightarrow> bool \<Rightarrow> nat \<Rightarrow> hdr_db \<Rightarrow> hdr_db" where
  "keep_hdr_mem e ok b s =
     (if e_hdr_lcl e \<or> \<not> ok then dma_free b s
      else (case hdr_mem s of None \<Rightarrow> s | Some old \<Rightarrow> dma_free old s)\<lparr>hdr_mem := Some b\<rparr>)"

definition keep_ctx_mem :: "hdr_env \<Rightarrow> bool \<Rightarrow> nat \<Rightarrow> hdr_db \<Rightarrow> hdr_db" where
  "keep_ctx_mem e ok b s =
     (if e_ctx_lcl e \<or> \<not> ok then dma_free b s
      else (case ctx_mem s of None \<Rightarrow> s | Some old \<Rightarrow> dma_free old s)\<lparr>ctx_mem := Some b\<rparr>)"

definition commit_hdr_v3_0 :: "hdr_env \<Rightarrow> hdr_db \<Rightarrow> (rc \<times> hdr_db) option" where
  "commit_hdr_v3_0 e s = do {
     (r, s1) \<leftarrow> generate_hdr_hw_tbl e s;
     case r of Inl err \<Rightarrow> Some (Err EFAULT, s1)
     | Inr (hb, img) \<Rightarrow> do {
         (r2, s2) \<leftarrow> generate_hdr_proc_ctx_hw_tbl e s1;
         case r2 of Inl err \<Rightarrow> Some (Err EFAULT, dma_free hb s2)
         | Inr (cb, csz) \<Rightarrow>
             let ok = commit_cmds e (length img) csz;
                 s3 = keep_ctx_mem e ok cb (keep_hdr_mem e ok hb s2)
             in Some (if ok then (OK, s3\<lparr>hw_hdr := img\<rparr>) else (Err EFAULT, s3)) } }"

text \<open>\<open>ipa3_commit_hdr\<close>, after the commit of the routing tables, which is a parameter.\<close>

definition ipa3_commit_hdr :: "hdr_env \<Rightarrow> (nat \<Rightarrow> hdr_db \<Rightarrow> rc \<times> hdr_db) \<Rightarrow> hdr_db \<Rightarrow> (rc \<times> hdr_db) option" where
  "ipa3_commit_hdr e rt_commit s =
     (let (r4, s1) = rt_commit 4 s in
      if r4 \<noteq> OK then Some (Err EPERM, s1)
      else let (r6, s2) = rt_commit 6 s1 in
      if r6 \<noteq> OK then Some (Err EPERM, s2)
      else do { (r, s3) \<leftarrow> commit_hdr_v3_0 e s2; Some (if r \<noteq> OK then Err EPERM else OK, s3) })"

section \<open>Batches\<close>

text \<open>The end of the batch operations: an optional commit.\<close>

definition finish_batch :: "hdr_env \<Rightarrow> bool \<Rightarrow> hdr_db \<Rightarrow> (rc \<times> hdr_db) option" where
  "finish_batch e commit s =
     (if commit then do { (r, s1) \<leftarrow> commit_hdr_v3_0 e s; Some (if r \<noteq> OK then Err EPERM else OK, s1) }
      else Some (OK, s))"

text \<open>The loops: each member gets its status and handle.\<close>

fun add_hdrs :: "hdr_env \<Rightarrow> bool \<Rightarrow> hdr_add list \<Rightarrow> hdr_db \<Rightarrow> ((int \<times> nat option) list \<times> hdr_db) option" where
  "add_hdrs e user [] s = Some ([], s)"
| "add_hdrs e user (ha # has) s = do {
     (r, hdl, s1) \<leftarrow> add_hdr e ha user s;
     (rs, s2) \<leftarrow> add_hdrs e user has s1;
     Some ((if r \<noteq> OK then -1 else 0, hdl) # rs, s2) }"

fun add_ctxs :: "hdr_env \<Rightarrow> bool \<Rightarrow> ctx_add list \<Rightarrow> hdr_db \<Rightarrow> ((int \<times> nat option) list \<times> hdr_db) option" where
  "add_ctxs e user [] s = Some ([], s)"
| "add_ctxs e user (pa # pas) s = do {
     (r, hdl, s1) \<leftarrow> add_hdr_proc_ctx e pa True user s;
     (rs, s2) \<leftarrow> add_ctxs e user pas s1;
     Some ((if r \<noteq> OK then -1 else 0, hdl) # rs, s2) }"

fun del_each :: "(nat \<Rightarrow> hdr_db \<Rightarrow> (rc \<times> hdr_db) option) \<Rightarrow> nat list \<Rightarrow> hdr_db \<Rightarrow> (int list \<times> hdr_db) option" where
  "del_each del [] s = Some ([], s)"
| "del_each del (hdl # hdls) s = do {
     (r, s1) \<leftarrow> del hdl s;
     (rs, s2) \<leftarrow> del_each del hdls s1;
     Some ((if r \<noteq> OK then -1 else 0) # rs, s2) }"

definition ipa3_add_hdr_usr ::
  "hdr_env \<Rightarrow> hdr_add list option \<Rightarrow> bool \<Rightarrow> bool \<Rightarrow> hdr_db \<Rightarrow> (rc \<times> (int \<times> nat option) list \<times> hdr_db) option" where
  "ipa3_add_hdr_usr e hdrs commit user s =
     (case hdrs of None \<Rightarrow> Some (Err EINVAL, [], s)
      | Some has \<Rightarrow>
          if has = [] then Some (Err EINVAL, [], s)
          else do {
            (rs, s1) \<leftarrow> add_hdrs e user has s;
            (r, s2) \<leftarrow> finish_batch e commit s1;
            Some (r, rs, s2) })"

definition ipa3_add_hdr ::
  "hdr_env \<Rightarrow> hdr_add list option \<Rightarrow> bool \<Rightarrow> hdr_db \<Rightarrow> (rc \<times> (int \<times> nat option) list \<times> hdr_db) option" where
  "ipa3_add_hdr e hdrs commit = ipa3_add_hdr_usr e hdrs commit False"

definition ipa3_add_hdr_proc_ctx ::
  "hdr_env \<Rightarrow> ctx_add list option \<Rightarrow> bool \<Rightarrow> bool \<Rightarrow> hdr_db \<Rightarrow> (rc \<times> (int \<times> nat option) list \<times> hdr_db) option" where
  "ipa3_add_hdr_proc_ctx e ctxs commit user s =
     (case ctxs of None \<Rightarrow> Some (Err EINVAL, [], s)
      | Some pas \<Rightarrow>
          if pas = [] then Some (Err EINVAL, [], s)
          else do {
            (rs, s1) \<leftarrow> add_ctxs e user pas s;
            (r, s2) \<leftarrow> finish_batch e commit s1;
            Some (r, rs, s2) })"

definition ipa3_del_hdr_by_user ::
  "hdr_env \<Rightarrow> nat list option \<Rightarrow> bool \<Rightarrow> bool \<Rightarrow> hdr_db \<Rightarrow> (rc \<times> int list \<times> hdr_db) option" where
  "ipa3_del_hdr_by_user e hdls commit by_user s =
     (case hdls of None \<Rightarrow> Some (Err EINVAL, [], s)
      | Some hs \<Rightarrow>
          if hs = [] then Some (Err EINVAL, [], s)
          else do {
            (rs, s1) \<leftarrow> del_each (\<lambda>hdl. del_hdr hdl by_user) hs s;
            (r, s2) \<leftarrow> finish_batch e commit s1;
            Some (r, rs, s2) })"

definition ipa3_del_hdr :: "hdr_env \<Rightarrow> nat list option \<Rightarrow> bool \<Rightarrow> hdr_db \<Rightarrow> (rc \<times> int list \<times> hdr_db) option" where
  "ipa3_del_hdr e hdls commit = ipa3_del_hdr_by_user e hdls commit False"

definition ipa3_del_hdr_proc_ctx_by_user ::
  "hdr_env \<Rightarrow> nat list option \<Rightarrow> bool \<Rightarrow> bool \<Rightarrow> hdr_db \<Rightarrow> (rc \<times> int list \<times> hdr_db) option" where
  "ipa3_del_hdr_proc_ctx_by_user e hdls commit by_user s =
     (case hdls of None \<Rightarrow> Some (Err EINVAL, [], s)
      | Some hs \<Rightarrow>
          if hs = [] then Some (Err EINVAL, [], s)
          else do {
            (rs, s1) \<leftarrow> del_each (\<lambda>hdl. del_hdr_proc_ctx hdl True by_user) hs s;
            (r, s2) \<leftarrow> finish_batch e commit s1;
            Some (r, rs, s2) })"

definition ipa3_del_hdr_proc_ctx ::
  "hdr_env \<Rightarrow> nat list option \<Rightarrow> bool \<Rightarrow> hdr_db \<Rightarrow> (rc \<times> int list \<times> hdr_db) option" where
  "ipa3_del_hdr_proc_ctx e hdls commit = ipa3_del_hdr_proc_ctx_by_user e hdls commit False"

section \<open>Lookup, copy and release\<close>

fun find_by_name :: "string \<Rightarrow> nat list \<Rightarrow> hdr_db \<Rightarrow> hdr_entry option option" where
  "find_by_name name [] s = Some None"
| "find_by_name name (a # as) s = do {
     h \<leftarrow> db_hdr s a;
     if name = h_name h then Some (Some h) else find_by_name name as s }"

definition ipa_find_hdr :: "hdr_env \<Rightarrow> string \<Rightarrow> hdr_db \<Rightarrow> hdr_entry option option" where
  "ipa_find_hdr e name s =
     (if length name \<ge> e_name_max e then Some None else find_by_name name (hdr_list s) s)"

text \<open>The name array of a request is cut at its last byte.\<close>

definition ipa3_get_hdr :: "hdr_env \<Rightarrow> string option \<Rightarrow> hdr_db \<Rightarrow> (rc \<times> nat option) option" where
  "ipa3_get_hdr e lookup s =
     (case lookup of None \<Rightarrow> Some (Err EINVAL, None)
      | Some name \<Rightarrow> do {
          r \<leftarrow> ipa_find_hdr e (take (e_name_max e - 1) name) s;
          Some (case r of None \<Rightarrow> (Err EPERM, None) | Some h \<Rightarrow> (OK, Some (h_id h))) })"

record hdr_copy =
  cp_hdr :: "byte list"
  cp_len :: nat
  cp_type :: int
  cp_partial :: bool
  cp_eth2_valid :: bool
  cp_eth2_ofst :: nat

definition ipa3_copy_hdr :: "hdr_env \<Rightarrow> string option \<Rightarrow> hdr_db \<Rightarrow> (rc \<times> hdr_copy option) option" where
  "ipa3_copy_hdr e copy s =
     (case copy of None \<Rightarrow> Some (Err EINVAL, None)
      | Some name \<Rightarrow> do {
          r \<leftarrow> ipa_find_hdr e (take (e_name_max e - 1) name) s;
          Some (case r of None \<Rightarrow> (Err EFAULT, None)
                | Some h \<Rightarrow> (OK, Some \<lparr>cp_hdr = take (h_len h) (h_hdr h), cp_len = h_len h, cp_type = h_type h,
                                    cp_partial = h_partial h, cp_eth2_valid = h_eth2_valid h,
                                    cp_eth2_ofst = h_eth2_ofst h\<rparr>)) })"

definition ipa3_release_hdr :: "hdr_env \<Rightarrow> nat \<Rightarrow> hdr_db \<Rightarrow> (rc \<times> hdr_db) option" where
  "ipa3_release_hdr e hdl s = do {
     (r, s1) \<leftarrow> del_hdr hdl False s;
     if r \<noteq> OK then Some (Err EFAULT, s1)
     else do { (r2, s2) \<leftarrow> commit_hdr_v3_0 e s1; Some (if r2 \<noteq> OK then Err EFAULT else OK, s2) } }"

definition ipa3_release_hdr_proc_ctx :: "hdr_env \<Rightarrow> nat \<Rightarrow> hdr_db \<Rightarrow> (rc \<times> hdr_db) option" where
  "ipa3_release_hdr_proc_ctx e hdl s = do {
     (r, s1) \<leftarrow> del_hdr_proc_ctx hdl True False s;
     if r \<noteq> OK then Some (Err EFAULT, s1)
     else do { (r2, s2) \<leftarrow> commit_hdr_v3_0 e s1; Some (if r2 \<noteq> OK then Err EFAULT else OK, s2) } }"

definition ipa3_put_hdr :: "nat \<Rightarrow> hdr_db \<Rightarrow> (rc \<times> hdr_db) option" where
  "ipa3_put_hdr hdl s = do {
     r \<leftarrow> hdr_by_handle hdl s;
     Some (case r of None \<Rightarrow> (Err EINVAL, s) | Some a \<Rightarrow> (OK, s)) }"

section \<open>Reset\<close>

definition reset_one_hdr :: "nat \<Rightarrow> hdr_entry \<Rightarrow> hdr_db \<Rightarrow> hdr_db option" where
  "reset_one_hdr a h s = do {
     s1 \<leftarrow> (if h_ddr h then do {
              c \<leftarrow> h_ctx h;
              x \<leftarrow> db_ctx s c;
              Some (s\<lparr>dma_mapped := remove1 a (dma_mapped s), db_ctx := (db_ctx s)(c \<mapsto> x\<lparr>c_hdr := None\<rparr>)\<rparr>) }
           else do {
              off \<leftarrow> h_off h;
              oe \<leftarrow> db_off s off;
              Some (s\<lparr>db_off := (db_off s)(off \<mapsto> oe\<lparr>o_ipacm := False\<rparr>),
                     hdr_tbl := slot_release (o_bin oe) off (hdr_tbl s)\<rparr>) });
     Some (s1\<lparr>hdr_list := remove1 a (hdr_list s1), hdr_cnt := hdr_cnt s1 - 1,
              db_idr := ipa3_id_remove (h_id h) (db_idr s1), db_hdr := (db_hdr s1)(a := None)\<rparr>) }"

fun reset_hdrs :: "bool \<Rightarrow> nat list \<Rightarrow> hdr_db \<Rightarrow> (rc \<times> hdr_db) option" where
  "reset_hdrs user_only [] s = Some (OK, s)"
| "reset_hdrs user_only (a # as) s = do {
     h \<leftarrow> db_hdr s a;
     default \<leftarrow> (if h_name h = IPA_LAN_RX_HDR_NAME
                  then do { off \<leftarrow> h_off h; oe \<leftarrow> db_off s off; Some (o_offset oe = 0) }
                  else Some False);
     if default then if h_ddr h then Some (Err EFAULT, s) else reset_hdrs user_only as s
     else if ipa3_id_find (h_id h) (db_idr s) = None then Some (Err EFAULT, s)
     else if \<not> user_only \<or> h_ipacm h
     then do { s1 \<leftarrow> reset_one_hdr a h s; reset_hdrs user_only as s1 }
     else reset_hdrs user_only as s }"

fun reset_ctxs :: "bool \<Rightarrow> nat list \<Rightarrow> hdr_db \<Rightarrow> (rc \<times> hdr_db) option" where
  "reset_ctxs user_only [] s = Some (OK, s)"
| "reset_ctxs user_only (c # cs) s = do {
     x \<leftarrow> db_ctx s c;
     if ipa3_id_find (c_id x) (db_idr s) = None then Some (Err EFAULT, s)
     else if \<not> user_only \<or> c_ipacm x then do {
       off \<leftarrow> c_off x;
       oe \<leftarrow> db_off s off;
       reset_ctxs user_only cs
         (s\<lparr>ctx_tbl := slot_release (o_bin oe) off (ctx_tbl s), ctx_list := remove1 c (ctx_list s),
            ctx_cnt := ctx_cnt s - 1, db_idr := ipa3_id_remove (c_id x) (db_idr s),
            db_ctx := (db_ctx s)(c := None)\<rparr>) }
     else reset_ctxs user_only cs s }"

text \<open>Freeing the slots of the bins below \<open>n\<close>; in the header table the slot at offset 0 in use stays.\<close>

definition drop_slots :: "(nat \<Rightarrow> bool) \<Rightarrow> nat \<Rightarrow> off_tbl \<Rightarrow> off_tbl" where
  "drop_slots keep n t =
     t\<lparr>ot_used := (\<lambda>b. if b < n then filter keep (ot_used t b) else ot_used t b),
       ot_free := (\<lambda>b. if b < n then [] else ot_free t b)\<rparr>"

definition dropped_slots :: "(nat \<Rightarrow> bool) \<Rightarrow> nat \<Rightarrow> off_tbl \<Rightarrow> nat list" where
  "dropped_slots keep n t =
     concat (map (\<lambda>b. filter (\<lambda>a. \<not> keep a) (ot_used t b) @ ot_free t b) [0..<n])"

definition at_zero :: "hdr_db \<Rightarrow> nat \<Rightarrow> bool" where
  "at_zero s a = (case db_off s a of None \<Rightarrow> False | Some oe \<Rightarrow> o_offset oe = 0)"

definition reset_hdr_slots :: "hdr_db \<Rightarrow> hdr_db option" where
  "reset_hdr_slots s =
     (let t = hdr_tbl s; gone = dropped_slots (at_zero s) IPA_HDR_BIN_MAX t in
      if list_ex (\<lambda>a. db_off s a = None) gone then None
      else Some (s\<lparr>hdr_tbl := (drop_slots (at_zero s) IPA_HDR_BIN_MAX t)\<lparr>ot_end := 8\<rparr>, hdr_cnt := 1,
                   db_off := (\<lambda>a. if a \<in> set gone then None else db_off s a)\<rparr>))"

definition reset_ctx_slots :: "hdr_db \<Rightarrow> hdr_db option" where
  "reset_ctx_slots s =
     (let t = ctx_tbl s; gone = dropped_slots (\<lambda>a. False) IPA_HDR_PROC_CTX_BIN_MAX t in
      if list_ex (\<lambda>a. db_off s a = None) gone then None
      else Some (s\<lparr>ctx_tbl := (drop_slots (\<lambda>a. False) IPA_HDR_PROC_CTX_BIN_MAX t)\<lparr>ot_end := 0\<rparr>, ctx_cnt := 0,
                   db_off := (\<lambda>a. if a \<in> set gone then None else db_off s a)\<rparr>))"

text \<open>\<open>ipa3_reset_hdr\<close>, after the reset of the routing tables, which is a parameter.\<close>

definition ipa3_reset_hdr ::
  "hdr_env \<Rightarrow> (nat \<Rightarrow> bool \<Rightarrow> hdr_db \<Rightarrow> hdr_db option) \<Rightarrow> bool \<Rightarrow> hdr_db \<Rightarrow> (rc \<times> hdr_db) option" where
  "ipa3_reset_hdr e rt_reset user_only s0 = do {
     s1 \<leftarrow> rt_reset 4 user_only s0;
     s \<leftarrow> rt_reset 6 user_only s1;
     (r, s2) \<leftarrow> reset_hdrs user_only (hdr_list s) s;
     if r \<noteq> OK then Some (r, s2)
     else do {
       s3 \<leftarrow> (if user_only then Some s2 else reset_hdr_slots s2);
       (r2, s4) \<leftarrow> reset_ctxs user_only (ctx_list s3) s3;
       if r2 \<noteq> OK then Some (r2, s4)
       else do {
         s5 \<leftarrow> (if user_only then Some s4 else reset_ctx_slots s4);
         (r3, s6) \<leftarrow> commit_hdr_v3_0 e s5;
         Some (if r3 \<noteq> OK then Err EFAULT else OK, s6) } } }"

end
