(* ===== verification/Ipa_Hdr_Inv.thy ===== *)
theory Ipa_Hdr_Inv
  imports Ipa_Hdr_Ops
begin

text \<open>
  The invariant of the header tables and its preservation: slots of a table never overlap and lie
  before its end, every object is on its list and under its handle, two objects never share a
  slot, and the reference counts cover the references.
\<close>

section \<open>Slots\<close>

definition used_slots :: "off_tbl \<Rightarrow> nat set" where
  "used_slots t = (\<Union>b. set (ot_used t b))"

definition slots :: "off_tbl \<Rightarrow> nat set" where
  "slots t = (\<Union>b. set (ot_used t b) \<union> set (ot_free t b))"

definition slot_ok :: "nat list \<Rightarrow> nat \<Rightarrow> nat \<Rightarrow> off_entry \<Rightarrow> bool" where
  "slot_ok bins lim b oe \<longleftrightarrow> b < length bins \<and> o_bin oe = b \<and> o_offset oe + bins ! b \<le> lim"

definition apart :: "nat list \<Rightarrow> off_entry \<Rightarrow> off_entry \<Rightarrow> bool" where
  "apart bins oe oe' \<longleftrightarrow> o_offset oe + bins ! o_bin oe \<le> o_offset oe' \<or> o_offset oe' + bins ! o_bin oe' \<le> o_offset oe"

definition tbl_inv :: "(nat \<Rightarrow> off_entry option) \<Rightarrow> nat list \<Rightarrow> off_tbl \<Rightarrow> bool" where
  "tbl_inv offs bins t \<longleftrightarrow>
     (\<forall>b. distinct (ot_used t b @ ot_free t b)) \<and>
     (\<forall>b. \<forall>a \<in> set (ot_used t b) \<union> set (ot_free t b). \<exists>oe. offs a = Some oe \<and> slot_ok bins (ot_end t) b oe) \<and>
     (\<forall>a \<in> slots t. \<forall>a' \<in> slots t. \<forall>oe oe'. a \<noteq> a' \<longrightarrow> offs a = Some oe \<longrightarrow> offs a' = Some oe' \<longrightarrow> apart bins oe oe')"

lemma tbl_invD:
  assumes "tbl_inv offs bins t"
  shows "distinct (ot_used t b)" "distinct (ot_free t b)" "set (ot_used t b) \<inter> set (ot_free t b) = {}"
    "a \<in> set (ot_used t b) \<or> a \<in> set (ot_free t b) \<Longrightarrow> \<exists>oe. offs a = Some oe \<and> slot_ok bins (ot_end t) b oe"
    "a \<in> slots t \<Longrightarrow> a' \<in> slots t \<Longrightarrow> a \<noteq> a' \<Longrightarrow> offs a = Some oe \<Longrightarrow> offs a' = Some oe' \<Longrightarrow> apart bins oe oe'"
  using assms unfolding tbl_inv_def by (auto simp: distinct_append)

text \<open>A slot is on the list of its bin only.\<close>

lemma slot_bin:
  assumes "tbl_inv offs bins t" "offs a = Some oe" "a \<in> set (ot_used t b) \<or> a \<in> set (ot_free t b)"
  shows "b = o_bin oe"
  using tbl_invD(4) [OF assms(1,3)] assms(2) by (auto simp: slot_ok_def)

lemma tbl_inv_cong:
  assumes "tbl_inv offs bins t"
    "\<And>a oe. a \<in> slots t \<Longrightarrow> offs a = Some oe \<Longrightarrow>
       \<exists>oe'. offs' a = Some oe' \<and> o_offset oe' = o_offset oe \<and> o_bin oe' = o_bin oe"
  shows "tbl_inv offs' bins t"
  unfolding tbl_inv_def
proof (intro conjI allI ballI impI)
  fix b
  show "distinct (ot_used t b @ ot_free t b)" using assms(1) by (simp add: tbl_inv_def)
  fix a assume a: "a \<in> set (ot_used t b) \<union> set (ot_free t b)"
  then obtain oe where oe: "offs a = Some oe" "slot_ok bins (ot_end t) b oe" using tbl_invD(4) [OF assms(1)] by blast
  have "a \<in> slots t" using a by (auto simp: slots_def)
  from assms(2) [OF this oe(1)] oe(2) show "\<exists>oe. offs' a = Some oe \<and> slot_ok bins (ot_end t) b oe"
    by (auto simp: slot_ok_def)
next
  fix a a' oe oe'
  assume a: "a \<in> slots t" "a' \<in> slots t" "a \<noteq> a'" "offs' a = Some oe" "offs' a' = Some oe'"
  have live: "\<exists>oe. offs a = Some oe" if "a \<in> slots t" for a
    using that tbl_invD(4) [OF assms(1)] by (fastforce simp: slots_def)
  obtain p q where p: "offs a = Some p" "offs a' = Some q" using live a(1,2) by blast
  then have "apart bins p q" using tbl_invD(5) [OF assms(1) a(1-3)] by blast
  then show "apart bins oe oe'" using assms(2) [OF a(1) p(1)] assms(2) [OF a(2) p(2)] a(4,5) by (auto simp: apart_def)
qed

lemma slot_grow_sets [simp]:
  "used_slots (slot_grow a b sz t) = insert a (used_slots t)"
  "slots (slot_grow a b sz t) = insert a (slots t)"
  by (auto simp: used_slots_def slots_def slot_grow_def split: if_splits)

lemma slot_take_sets:
  assumes "ot_free t b = a # fs"
  shows "used_slots (slot_take b t) = insert a (used_slots t)" "slots (slot_take b t) = slots t"
  using assms by (auto simp: used_slots_def slots_def slot_take_def split: if_splits)

lemma tbl_inv_grow:
  assumes inv: "tbl_inv offs bins t" and b: "b < length bins"
    and oe: "o_offset oe = ot_end t" "o_bin oe = b" and new: "a \<notin> slots t"
  shows "tbl_inv (offs(a \<mapsto> oe)) bins (slot_grow a b (bins ! b) t)"
  unfolding tbl_inv_def slot_grow_sets
proof (intro conjI allI ballI impI)
  let ?t = "slot_grow a b (bins ! b) t"
  fix b'
  have notin: "a \<notin> set (ot_used t b')" "a \<notin> set (ot_free t b')" for b' using new by (auto simp: slots_def)
  show "distinct (ot_used ?t b' @ ot_free ?t b')"
    using tbl_invD(1-3) [OF inv, of b'] notin by (auto simp: slot_grow_def)
  fix a' assume "a' \<in> set (ot_used ?t b') \<union> set (ot_free ?t b')"
  then consider "a' = a" "b' = b" | "a' \<noteq> a" "a' \<in> set (ot_used t b') \<or> a' \<in> set (ot_free t b')"
    using notin by (auto simp: slot_grow_def split: if_splits)
  then show "\<exists>x. (offs(a \<mapsto> oe)) a' = Some x \<and> slot_ok bins (ot_end ?t) b' x"
  proof cases
    case 1
    then show ?thesis using b oe by (simp add: slot_ok_def slot_grow_def)
  next
    case 2
    with tbl_invD(4) [OF inv 2(2)] show ?thesis by (auto simp: slot_ok_def slot_grow_def)
  qed
next
  fix x y ox oy
  assume x: "x \<in> insert a (slots t)" "y \<in> insert a (slots t)" "x \<noteq> y"
    "(offs(a \<mapsto> oe)) x = Some ox" "(offs(a \<mapsto> oe)) y = Some oy"
  have below: "o_offset oz + bins ! o_bin oz \<le> ot_end t" if "z \<in> slots t" "offs z = Some oz" for z oz
  proof -
    from that(1) obtain b where "z \<in> set (ot_used t b) \<or> z \<in> set (ot_free t b)" by (auto simp: slots_def)
    from tbl_invD(4) [OF inv this] that(2) show ?thesis by (auto simp: slot_ok_def)
  qed
  consider "x = a" "y \<in> slots t" "y \<noteq> a" | "y = a" "x \<in> slots t" "x \<noteq> a" | "x \<in> slots t" "y \<in> slots t" "x \<noteq> a" "y \<noteq> a"
    using x new by auto
  then show "apart bins ox oy"
  proof cases
    case 1
    then show ?thesis using x(4,5) below [of y oy] oe by (auto simp: apart_def)
  next
    case 2
    then show ?thesis using x(4,5) below [of x ox] oe by (auto simp: apart_def)
  next
    case 3
    then show ?thesis using tbl_invD(5) [OF inv 3(1,2) x(3)] x(4,5) by simp
  qed
qed

lemma tbl_inv_sub:
  assumes inv: "tbl_inv offs bins t" and same: "ot_end t' = ot_end t"
    and dist: "\<And>b. distinct (ot_used t' b @ ot_free t' b)"
    and sub: "\<And>b. set (ot_used t' b) \<union> set (ot_free t' b) \<subseteq> set (ot_used t b) \<union> set (ot_free t b)"
  shows "tbl_inv offs bins t'"
proof -
  have "slots t' \<subseteq> slots t" using sub by (fastforce simp: slots_def)
  then show ?thesis using inv dist sub unfolding tbl_inv_def same by blast
qed

lemma tbl_inv_take:
  assumes inv: "tbl_inv offs bins t" and f: "ot_free t b = a # fs"
  shows "tbl_inv offs bins (slot_take b t)"
proof (rule tbl_inv_sub [OF inv])
  fix b'
  show "distinct (ot_used (slot_take b t) b' @ ot_free (slot_take b t) b')"
    using tbl_invD(1-3) [OF inv, of b'] f by (auto simp: slot_take_def)
  show "set (ot_used (slot_take b t) b') \<union> set (ot_free (slot_take b t) b') \<subseteq> set (ot_used t b') \<union> set (ot_free t b')"
    using f by (auto simp: slot_take_def)
qed (simp add: slot_take_def)

lemma slot_release_mem:
  assumes inv: "tbl_inv offs bins t"
  shows "x \<in> set (ot_used (slot_release b a t) b') \<longleftrightarrow> x \<noteq> a \<and> x \<in> set (ot_used t b')"
    "x \<in> set (ot_free (slot_release b a t) b') \<longleftrightarrow> (if x = a then b' = b else x \<in> set (ot_free t b'))"
  using tbl_invD(1,2) [OF inv, of b'] by (auto simp: slot_release_def set_remove1_eq)

lemma slot_release_sets:
  assumes inv: "tbl_inv offs bins t"
  shows "used_slots (slot_release b a t) = used_slots t - {a}"
    "slots (slot_release b a t) = insert a (slots t)"
proof -
  show "used_slots (slot_release b a t) = used_slots t - {a}"
    by (auto simp: used_slots_def slot_release_mem(1) [OF inv])
  show "slots (slot_release b a t) = insert a (slots t)"
  proof (rule set_eqI)
    fix x
    show "x \<in> slots (slot_release b a t) \<longleftrightarrow> x \<in> insert a (slots t)"
      by (cases "x = a") (auto simp: slots_def slot_release_mem [OF inv])
  qed
qed

lemma tbl_inv_release:
  assumes inv: "tbl_inv offs bins t" and a: "a \<in> slots t" "offs a = Some oe"
  shows "tbl_inv offs bins (slot_release (o_bin oe) a t)"
proof -
  have b: "b = o_bin oe" if "a \<in> set (ot_used t b) \<or> a \<in> set (ot_free t b)" for b by (rule slot_bin [OF inv a(2) that])
  show ?thesis
  proof (rule tbl_inv_sub [OF inv])
    fix b
    show "distinct (ot_used (slot_release (o_bin oe) a t) b @ ot_free (slot_release (o_bin oe) a t) b)"
      using tbl_invD(1-3) [OF inv, of b] by (auto simp: slot_release_def set_remove1_eq)
    show "set (ot_used (slot_release (o_bin oe) a t) b) \<union> set (ot_free (slot_release (o_bin oe) a t) b)
        \<subseteq> set (ot_used t b) \<union> set (ot_free t b)"
      using tbl_invD(1-3) [OF inv, of b] a(1) b by (auto simp: slot_release_def set_remove1_eq slots_def)
  qed (simp add: slot_release_def)
qed

section \<open>The invariant\<close>

text \<open>The contexts whose reference to header \<open>a\<close> its count has to cover: not its own context.\<close>

definition hdr_users :: "nat set \<Rightarrow> hdr_db \<Rightarrow> nat \<Rightarrow> hdr_entry \<Rightarrow> nat set" where
  "hdr_users Y s a h = {c. c \<notin> Y \<and> (\<exists>x. db_ctx s c = Some x \<and> c_hdr x = Some a) \<and> h_ctx h \<noteq> Some c}"

text \<open>
  \<open>X\<close> are headers that an operation is linking or taking apart, \<open>Y\<close> contexts that one is taking
  apart; between the operations both are empty.
\<close>

definition hdr_shape :: "hdr_db \<Rightarrow> nat \<Rightarrow> hdr_entry \<Rightarrow> bool" where
  "hdr_shape s a h \<longleftrightarrow>
     h_cookie h = IPA_HDR_COOKIE \<and> ipa3_id_find (h_id h) (db_idr s) = Some (PHdr a) \<and>
     0 < h_len h \<and> h_len h \<le> 64 \<and> h_len h \<le> length (h_hdr h) \<and>
     (if h_ddr h then h_off h = None
      else h_ctx h = None \<and>
        (\<exists>off oe. h_off h = Some off \<and> off \<in> used_slots (hdr_tbl s) \<and> db_off s off = Some oe \<and>
           h_len h \<le> hdr_bin_sz ! o_bin oe))"

definition hdr_counts :: "nat set \<Rightarrow> hdr_db \<Rightarrow> nat \<Rightarrow> hdr_entry \<Rightarrow> bool" where
  "hdr_counts Y s a h \<longleftrightarrow>
     h_ref h \<noteq> 0 \<and> card (hdr_users Y s a h) \<le> unat (h_ref h) \<and>
     (h_ddr h \<longrightarrow> (\<exists>c x. h_ctx h = Some c \<and> c \<notin> Y \<and> db_ctx s c = Some x \<and> c_hdr x = Some a \<and> c_ref x = 1))"

definition ctx_shape :: "hdr_db \<Rightarrow> nat \<Rightarrow> ctx_entry \<Rightarrow> bool" where
  "ctx_shape s c x \<longleftrightarrow>
     c_cookie x = IPA_PROC_HDR_COOKIE \<and> ipa3_id_find (c_id x) (db_idr s) = Some (PCtx c) \<and>
     (\<exists>off oe. c_off x = Some off \<and> off \<in> used_slots (ctx_tbl s) \<and> db_off s off = Some oe)"

definition ctx_counts :: "hdr_db \<Rightarrow> ctx_entry \<Rightarrow> bool" where
  "ctx_counts s x \<longleftrightarrow> c_ref x \<noteq> 0 \<and> (\<exists>a. c_hdr x = Some a \<and> db_hdr s a \<noteq> None)"

definition idr_inv :: "hdr_db \<Rightarrow> bool" where
  "idr_inv s \<longleftrightarrow> (\<forall>i p. ipa3_id_find i (db_idr s) = Some p \<longrightarrow>
     (case p of PHdr a \<Rightarrow> \<exists>h. db_hdr s a = Some h \<and> h_id h = i
              | PCtx c \<Rightarrow> \<exists>x. db_ctx s c = Some x \<and> c_id x = i
              | POther k b \<Rightarrow> k \<noteq> IPA_HDR_COOKIE \<and> k \<noteq> IPA_PROC_HDR_COOKIE))"

definition lists_inv :: "hdr_db \<Rightarrow> bool" where
  "lists_inv s \<longleftrightarrow> distinct (hdr_list s) \<and> set (hdr_list s) = dom (db_hdr s) \<and>
     distinct (ctx_list s) \<and> set (ctx_list s) = dom (db_ctx s)"

definition fresh_inv :: "hdr_db \<Rightarrow> bool" where
  "fresh_inv s \<longleftrightarrow> (\<forall>a \<ge> db_next s. db_hdr s a = None \<and> db_ctx s a = None \<and> db_off s a = None)"

definition slots_inv :: "hdr_db \<Rightarrow> bool" where
  "slots_inv s \<longleftrightarrow> tbl_inv (db_off s) hdr_bin_sz (hdr_tbl s) \<and> tbl_inv (db_off s) ctx_bin_sz (ctx_tbl s) \<and>
     slots (hdr_tbl s) \<inter> slots (ctx_tbl s) = {}"

definition own_inv :: "hdr_db \<Rightarrow> bool" where
  "own_inv s \<longleftrightarrow>
     (\<forall>a a' h h' off. db_hdr s a = Some h \<longrightarrow> db_hdr s a' = Some h' \<longrightarrow> h_off h = Some off \<longrightarrow>
        h_off h' = Some off \<longrightarrow> a = a') \<and>
     (\<forall>c c' x x' off. db_ctx s c = Some x \<longrightarrow> db_ctx s c' = Some x' \<longrightarrow> c_off x = Some off \<longrightarrow>
        c_off x' = Some off \<longrightarrow> c = c')"

definition hdr_inv_in :: "nat set \<Rightarrow> nat set \<Rightarrow> hdr_db \<Rightarrow> bool" where
  "hdr_inv_in X Y s \<longleftrightarrow> idr_inv s \<and> lists_inv s \<and> fresh_inv s \<and> slots_inv s \<and> own_inv s \<and>
     (\<forall>a h. db_hdr s a = Some h \<longrightarrow> hdr_shape s a h \<and> (a \<notin> X \<longrightarrow> hdr_counts Y s a h)) \<and>
     (\<forall>c x. db_ctx s c = Some x \<longrightarrow> ctx_shape s c x \<and> (c \<notin> Y \<longrightarrow> ctx_counts s x))"

definition hdr_inv :: "hdr_db \<Rightarrow> bool" where
  "hdr_inv s \<longleftrightarrow> hdr_inv_in {} {} s"

lemma hdr_inv_inD:
  assumes "hdr_inv_in X Y s"
  shows "idr_inv s" "lists_inv s" "fresh_inv s" "slots_inv s" "own_inv s"
    "db_hdr s a = Some h \<Longrightarrow> hdr_shape s a h" "db_hdr s a = Some h \<Longrightarrow> a \<notin> X \<Longrightarrow> hdr_counts Y s a h"
    "db_ctx s c = Some x \<Longrightarrow> ctx_shape s c x" "db_ctx s c = Some x \<Longrightarrow> c \<notin> Y \<Longrightarrow> ctx_counts s x"
  using assms by (auto simp: hdr_inv_in_def)

lemma hdr_inv_inI:
  assumes "idr_inv s" "lists_inv s" "fresh_inv s" "slots_inv s" "own_inv s"
    "\<And>a h. db_hdr s a = Some h \<Longrightarrow> hdr_shape s a h" "\<And>a h. db_hdr s a = Some h \<Longrightarrow> a \<notin> X \<Longrightarrow> hdr_counts Y s a h"
    "\<And>c x. db_ctx s c = Some x \<Longrightarrow> ctx_shape s c x" "\<And>c x. db_ctx s c = Some x \<Longrightarrow> c \<notin> Y \<Longrightarrow> ctx_counts s x"
  shows "hdr_inv_in X Y s"
  using assms by (auto simp: hdr_inv_in_def)

lemmas inv_parts = idr_inv_def lists_inv_def fresh_inv_def slots_inv_def own_inv_def
lemmas obj_parts = hdr_shape_def hdr_counts_def ctx_shape_def ctx_counts_def

lemma hdr_users_finite: "hdr_inv_in X Y s \<Longrightarrow> finite (hdr_users Z s a h)"
proof (rule finite_subset [of _ "set (ctx_list s)"])
  assume "hdr_inv_in X Y s"
  then have "set (ctx_list s) = dom (db_ctx s)" by (simp add: hdr_inv_in_def lists_inv_def)
  then show "hdr_users Z s a h \<subseteq> set (ctx_list s)" by (auto simp: hdr_users_def)
qed simp

text \<open>Fields that the invariant does not see.\<close>

lemma hdr_inv_frame:
  assumes "hdr_inv_in X Y s" "db_idr s' = db_idr s" "db_hdr s' = db_hdr s" "db_ctx s' = db_ctx s" "db_off s' = db_off s"
    "hdr_list s' = hdr_list s" "ctx_list s' = ctx_list s" "hdr_tbl s' = hdr_tbl s" "ctx_tbl s' = ctx_tbl s"
    "db_next s \<le> db_next s'"
  shows "hdr_inv_in X Y s'"
  using assms(1) unfolding hdr_inv_in_def inv_parts obj_parts hdr_users_def assms(2-9)
  using assms(10) by (meson order_trans)

section \<open>Small changes\<close>

lemma upd_hdr_inv:
  assumes inv: "hdr_inv_in X Y s" and h: "db_hdr s a = Some h"
    and same: "h_cookie h' = h_cookie h" "h_id h' = h_id h" "h_len h' = h_len h" "h_hdr h' = h_hdr h"
      "h_ddr h' = h_ddr h" "h_off h' = h_off h" "h_ctx h' = h_ctx h"
    and X: "X \<subseteq> insert a X'" and cnt: "a \<notin> X' \<Longrightarrow> hdr_counts Y s a h'"
  shows "hdr_inv_in X' Y (s\<lparr>db_hdr := (db_hdr s)(a \<mapsto> h')\<rparr>)"
proof (rule hdr_inv_inI)
  let ?s = "s\<lparr>db_hdr := (db_hdr s)(a \<mapsto> h')\<rparr>"
  note d = hdr_inv_inD [OF inv]
  show "idr_inv ?s" using d(1) h same by (fastforce simp: idr_inv_def split: hdr_ptr.splits)
  show "lists_inv ?s" using d(2) h by (auto simp: lists_inv_def)
  show "fresh_inv ?s" using d(3) h by (force simp: fresh_inv_def)
  show "slots_inv ?s" using d(4) by (simp add: slots_inv_def)
  show "own_inv ?s" using d(5) h same(6) unfolding own_inv_def by (auto split: if_splits)
  show "hdr_shape ?s b k" if "db_hdr ?s b = Some k" for b k
    using that d(6) [of b] d(6) [OF h] same by (auto simp: hdr_shape_def split: if_splits)
  show "hdr_counts Y ?s b k" if "db_hdr ?s b = Some k" "b \<notin> X'" for b k
    using that d(7) [of b] X cnt by (auto simp: hdr_counts_def hdr_users_def split: if_splits)
  show "ctx_shape ?s c x" if "db_ctx ?s c = Some x" for c x using that d(8) by (auto simp: ctx_shape_def)
  show "ctx_counts ?s x" if "db_ctx ?s c = Some x" "c \<notin> Y" for c x
    using that d(9) by (fastforce simp: ctx_counts_def)
qed

lemma upd_ctx_inv:
  assumes inv: "hdr_inv_in X Y s" and x: "db_ctx s c = Some x"
    and same: "c_cookie x' = c_cookie x" "c_id x' = c_id x" "c_off x' = c_off x" "c_hdr x' = c_hdr x"
    and Y: "Y' = Y \<or> Y' = insert c Y" and cnt: "c \<notin> Y' \<Longrightarrow> c_ref x' \<noteq> 0"
    and own: "\<And>a h. db_hdr s a = Some h \<Longrightarrow> a \<notin> X \<Longrightarrow> h_ctx h = Some c \<Longrightarrow> c \<notin> Y' \<and> c_ref x' = c_ref x"
  shows "hdr_inv_in X Y' (s\<lparr>db_ctx := (db_ctx s)(c \<mapsto> x')\<rparr>)"
proof (rule hdr_inv_inI)
  let ?s = "s\<lparr>db_ctx := (db_ctx s)(c \<mapsto> x')\<rparr>"
  note d = hdr_inv_inD [OF inv]
  show "idr_inv ?s" using d(1) x same by (fastforce simp: idr_inv_def split: hdr_ptr.splits)
  show "lists_inv ?s" using d(2) x by (auto simp: lists_inv_def)
  show "fresh_inv ?s" using d(3) x by (force simp: fresh_inv_def)
  show "slots_inv ?s" using d(4) by (simp add: slots_inv_def)
  show "own_inv ?s" using d(5) x same(3) unfolding own_inv_def by (auto split: if_splits)
  show "hdr_shape ?s b k" if "db_hdr ?s b = Some k" for b k
    using that d(6) [of b] by (auto simp: hdr_shape_def)
  show "hdr_counts Y' ?s b k" if k: "db_hdr ?s b = Some k" "b \<notin> X" for b k
  proof -
    have sub: "hdr_users Y' ?s b k \<subseteq> hdr_users Y s b k"
      using Y x same(4) by (auto simp: hdr_users_def split: if_splits)
    have k': "db_hdr s b = Some k" using k(1) by simp
    note cn = d(7) [OF k' k(2)]
    have "card (hdr_users Y' ?s b k) \<le> unat (h_ref k)"
      using card_mono [OF hdr_users_finite [OF inv] sub] cn by (simp add: hdr_counts_def)
    moreover have "\<exists>c' y. h_ctx k = Some c' \<and> c' \<notin> Y' \<and> db_ctx ?s c' = Some y \<and> c_hdr y = Some b \<and> c_ref y = 1"
      if "h_ddr k"
    proof -
      from cn that obtain c' y where c': "h_ctx k = Some c'" "c' \<notin> Y" "db_ctx s c' = Some y" "c_hdr y = Some b"
        "c_ref y = 1" by (auto simp: hdr_counts_def)
      show ?thesis
      proof (cases "c' = c")
        case True
        then show ?thesis using c' own [OF k' k(2)] x same(4) by auto
      next
        case False
        then show ?thesis using c' Y by auto
      qed
    qed
    ultimately show ?thesis using cn by (simp add: hdr_counts_def)
  qed
  show "ctx_shape ?s b y" if "db_ctx ?s b = Some y" for b y
    using that d(8) [of b] d(8) [OF x] same by (auto simp: ctx_shape_def split: if_splits)
  show "ctx_counts ?s y" if "db_ctx ?s b = Some y" "b \<notin> Y'" for b y
    using that d(9) [of b] Y cnt d(9) [OF x] same(4) by (auto simp: ctx_counts_def split: if_splits)
qed


section \<open>Taking objects apart\<close>

definition rm_ctx :: "nat \<Rightarrow> ctx_entry \<Rightarrow> nat \<Rightarrow> off_entry \<Rightarrow> hdr_db \<Rightarrow> hdr_db" where
  "rm_ctx c x off oe s = s\<lparr>ctx_tbl := slot_release (o_bin oe) off (ctx_tbl s),
     ctx_list := remove1 c (ctx_list s), ctx_cnt := ctx_cnt s - 1,
     db_ctx := (db_ctx s)(c := None), db_idr := ipa3_id_remove (c_id x) (db_idr s)\<rparr>"

lemma rm_ctx_inv:
  assumes inv: "hdr_inv_in X (insert c Y) s" and x: "db_ctx s c = Some x" "c_off x = Some off" "db_off s off = Some oe"
    and own: "\<And>a h. db_hdr s a = Some h \<Longrightarrow> a \<notin> X \<Longrightarrow> h_ctx h \<noteq> Some c"
  shows "hdr_inv_in X Y (rm_ctx c x off oe s)"
proof (rule hdr_inv_inI)
  let ?s = "rm_ctx c x off oe s"
  note d = hdr_inv_inD [OF inv]
  have id: "ipa3_id_find (c_id x) (db_idr s) = Some (PCtx c)" and used: "off \<in> used_slots (ctx_tbl s)"
    using d(8) [OF x(1)] x(2) by (auto simp: ctx_shape_def)
  have sl: "off \<in> slots (ctx_tbl s)" using used by (auto simp: used_slots_def slots_def)
  have tb: "tbl_inv (db_off s) ctx_bin_sz (ctx_tbl s)" using d(4) by (simp add: slots_inv_def)
  note rel = slot_release_sets [OF tb, of "o_bin oe" off]
  show "idr_inv ?s" using d(1) x unfolding idr_inv_def rm_ctx_def
    by (auto simp: id_find_remove split: hdr_ptr.splits if_splits) (metis option.inject)
  show "lists_inv ?s" using d(2) by (auto simp: lists_inv_def rm_ctx_def set_remove1_eq)
  show "fresh_inv ?s" using d(3) by (simp add: fresh_inv_def rm_ctx_def)
  show "slots_inv ?s" using d(4) tbl_inv_release [OF tb sl x(3)] rel(2) sl
    by (auto simp: slots_inv_def rm_ctx_def)
  show "own_inv ?s" using d(5) unfolding own_inv_def rm_ctx_def by (auto split: if_splits)
  show "hdr_shape ?s a h" if "db_hdr ?s a = Some h" for a h
  proof -
    have h: "db_hdr s a = Some h" using that by (simp add: rm_ctx_def)
    have "h_id h \<noteq> c_id x" using d(6) [OF h] id by (auto simp: hdr_shape_def)
    then show ?thesis using d(6) [OF h] by (auto simp: hdr_shape_def rm_ctx_def id_find_remove)
  qed
  show "hdr_counts Y ?s a h" if "db_hdr ?s a = Some h" "a \<notin> X" for a h
  proof -
    have h: "db_hdr s a = Some h" using that by (simp add: rm_ctx_def)
    have "hdr_users Y ?s a h \<subseteq> hdr_users (insert c Y) s a h" by (auto simp: hdr_users_def rm_ctx_def split: if_splits)
    from card_mono [OF hdr_users_finite [OF inv] this] show ?thesis
      using d(7) [OF h that(2)] own [OF h that(2)] by (force simp: hdr_counts_def rm_ctx_def)
  qed
  show "ctx_shape ?s b y" if "db_ctx ?s b = Some y" for b y
  proof -
    have b: "b \<noteq> c" "db_ctx s b = Some y" using that by (auto simp: rm_ctx_def split: if_splits)
    have "c_id y \<noteq> c_id x" using d(8) [OF b(2)] id b(1) by (auto simp: ctx_shape_def)
    moreover have "c_off y \<noteq> Some off" using d(5) b x unfolding own_inv_def by blast
    ultimately show ?thesis using d(8) [OF b(2)] rel(1) by (auto simp: ctx_shape_def rm_ctx_def id_find_remove)
  qed
  show "ctx_counts ?s y" if "db_ctx ?s b = Some y" "b \<notin> Y" for b y
    using that d(9) [of b] by (auto simp: ctx_counts_def rm_ctx_def split: if_splits)
qed

text \<open>The slot of a header that leaves, if it has one.\<close>

definition rm_slot :: "hdr_entry \<Rightarrow> hdr_db \<Rightarrow> off_tbl \<Rightarrow> off_tbl" where
  "rm_slot h s t = (case h_off h of None \<Rightarrow> t
     | Some off \<Rightarrow> (case db_off s off of None \<Rightarrow> t | Some oe \<Rightarrow> slot_release (o_bin oe) off t))"

definition rm_hdr :: "nat \<Rightarrow> hdr_entry \<Rightarrow> hdr_db \<Rightarrow> hdr_db" where
  "rm_hdr a h s = s\<lparr>hdr_tbl := rm_slot h s (hdr_tbl s),
     hdr_list := remove1 a (hdr_list s), hdr_cnt := hdr_cnt s - 1,
     db_hdr := (db_hdr s)(a := None), db_idr := ipa3_id_remove (h_id h) (db_idr s)\<rparr>"

lemma rm_hdr_inv:
  assumes inv: "hdr_inv_in (insert a X) Y s" and h: "db_hdr s a = Some h"
    and unused: "\<And>c x. db_ctx s c = Some x \<Longrightarrow> c \<notin> Y \<Longrightarrow> c_hdr x \<noteq> Some a"
  shows "hdr_inv_in X Y (rm_hdr a h s)"
proof (rule hdr_inv_inI)
  let ?s = "rm_hdr a h s"
  note d = hdr_inv_inD [OF inv]
  have id: "ipa3_id_find (h_id h) (db_idr s) = Some (PHdr a)" using d(6) [OF h] by (simp add: hdr_shape_def)
  have tb: "tbl_inv (db_off s) hdr_bin_sz (hdr_tbl s)" using d(4) by (simp add: slots_inv_def)
  have tbl: "tbl_inv (db_off s) hdr_bin_sz (rm_slot h s (hdr_tbl s))"
    "slots (rm_slot h s (hdr_tbl s)) = slots (hdr_tbl s)"
    "used_slots (rm_slot h s (hdr_tbl s)) = used_slots (hdr_tbl s) - set_option (h_off h)"
  proof -
    consider "h_off h = None" | off oe where "h_off h = Some off" "off \<in> used_slots (hdr_tbl s)" "db_off s off = Some oe"
      using d(6) [OF h] by (auto simp: hdr_shape_def split: if_splits)
    then have "tbl_inv (db_off s) hdr_bin_sz (rm_slot h s (hdr_tbl s)) \<and>
      slots (rm_slot h s (hdr_tbl s)) = slots (hdr_tbl s) \<and>
      used_slots (rm_slot h s (hdr_tbl s)) = used_slots (hdr_tbl s) - set_option (h_off h)"
    proof cases
      case 2
      then have sl: "off \<in> slots (hdr_tbl s)" by (auto simp: used_slots_def slots_def)
      then show ?thesis using 2 tbl_inv_release [OF tb sl 2(3)] slot_release_sets [OF tb, of "o_bin oe" off]
        by (auto simp: rm_slot_def)
    qed (use tb in \<open>simp add: rm_slot_def\<close>)
    then show "tbl_inv (db_off s) hdr_bin_sz (rm_slot h s (hdr_tbl s))"
      "slots (rm_slot h s (hdr_tbl s)) = slots (hdr_tbl s)"
      "used_slots (rm_slot h s (hdr_tbl s)) = used_slots (hdr_tbl s) - set_option (h_off h)" by auto
  qed
  show "idr_inv ?s" using d(1) h unfolding idr_inv_def rm_hdr_def
    by (auto simp: id_find_remove split: hdr_ptr.splits if_splits) (metis option.inject)
  show "lists_inv ?s" using d(2) by (auto simp: lists_inv_def rm_hdr_def set_remove1_eq)
  show "fresh_inv ?s" using d(3) by (simp add: fresh_inv_def rm_hdr_def)
  show "slots_inv ?s" using d(4) tbl by (simp add: slots_inv_def rm_hdr_def)
  show "own_inv ?s" using d(5) unfolding own_inv_def rm_hdr_def by (auto split: if_splits)
  show "hdr_shape ?s b k" if "db_hdr ?s b = Some k" for b k
  proof -
    have b: "b \<noteq> a" "db_hdr s b = Some k" using that by (auto simp: rm_hdr_def split: if_splits)
    have "h_id k \<noteq> h_id h" using d(6) [OF b(2)] id b(1) by (auto simp: hdr_shape_def)
    moreover have "h_off k \<noteq> Some off" if "h_off h = Some off" for off
      using d(5) b h that unfolding own_inv_def by blast
    ultimately show ?thesis using d(6) [OF b(2)] tbl(3) by (fastforce simp: hdr_shape_def rm_hdr_def id_find_remove)
  qed
  show "hdr_counts Y ?s b k" if "db_hdr ?s b = Some k" "b \<notin> X" for b k
    using that d(7) [of b] by (auto simp: hdr_counts_def hdr_users_def rm_hdr_def split: if_splits)
  show "ctx_shape ?s c y" if "db_ctx ?s c = Some y" for c y
  proof -
    have c: "db_ctx s c = Some y" using that by (simp add: rm_hdr_def)
    have "c_id y \<noteq> h_id h" using d(8) [OF c] id by (auto simp: ctx_shape_def)
    then show ?thesis using d(8) [OF c] by (auto simp: ctx_shape_def rm_hdr_def id_find_remove)
  qed
  show "ctx_counts ?s y" if "db_ctx ?s c = Some y" "c \<notin> Y" for c y
    using that d(9) [of c] unused [of c] by (auto simp: ctx_counts_def rm_hdr_def)
qed


section \<open>Linking objects\<close>

text \<open>A header that is complete but for its counts, in the state with its slot.\<close>

definition add_hdr_obj :: "nat \<Rightarrow> hdr_entry \<Rightarrow> hdr_ptr idr \<Rightarrow> hdr_db \<Rightarrow> hdr_db" where
  "add_hdr_obj a h t s = s\<lparr>db_hdr := (db_hdr s)(a \<mapsto> h), hdr_list := a # hdr_list s, hdr_cnt := hdr_cnt s + 1, db_idr := t\<rparr>"

lemma add_hdr_obj_inv:
  assumes inv: "hdr_inv_in X Y s" and new: "db_hdr s a = None" "a < db_next s"
    and id: "idr_put (PHdr a) (db_idr s) = (h_id h, t)"
    and shape: "hdr_shape (add_hdr_obj a h t s) a h"
    and slot: "\<And>b k off. db_hdr s b = Some k \<Longrightarrow> h_off k = Some off \<Longrightarrow> h_off h \<noteq> Some off"
    and X: "X \<subseteq> X'" and cnt: "a \<notin> X' \<Longrightarrow> hdr_counts Y (add_hdr_obj a h t s) a h"
  shows "hdr_inv_in X' Y (add_hdr_obj a h t s)"
proof (rule hdr_inv_inI)
  let ?s = "add_hdr_obj a h t s"
  note d = hdr_inv_inD [OF inv]
  note fd = idr.find_alloc [OF id] and fr = idr.alloc_fresh [OF id]
  show "idr_inv ?s" using d(1) new unfolding idr_inv_def add_hdr_obj_def
    by (auto simp: fd split: hdr_ptr.splits if_splits) (metis option.distinct(1))
  show "lists_inv ?s" using d(2) new(1) by (auto simp: lists_inv_def add_hdr_obj_def)
  show "fresh_inv ?s" using d(3) new(2) by (auto simp: fresh_inv_def add_hdr_obj_def)
  show "slots_inv ?s" using d(4) by (simp add: slots_inv_def add_hdr_obj_def)
  show "own_inv ?s" using d(5) slot unfolding own_inv_def add_hdr_obj_def by (auto split: if_splits)
  show "hdr_shape ?s b k" if "db_hdr ?s b = Some k" for b k
  proof (cases "b = a")
    case True
    then show ?thesis using that shape by (simp add: add_hdr_obj_def)
  next
    case False
    then have b: "db_hdr s b = Some k" using that by (simp add: add_hdr_obj_def)
    show ?thesis using d(6) [OF b] fr by (auto simp: hdr_shape_def add_hdr_obj_def fd)
  qed
  show "hdr_counts Y ?s b k" if "db_hdr ?s b = Some k" "b \<notin> X'" for b k
  proof (cases "b = a")
    case True
    then show ?thesis using that cnt by (simp add: add_hdr_obj_def)
  next
    case False
    then have b: "db_hdr s b = Some k" "b \<notin> X" using that X by (auto simp: add_hdr_obj_def)
    show ?thesis using d(7) [OF b] by (simp add: hdr_counts_def hdr_users_def add_hdr_obj_def)
  qed
  show "ctx_shape ?s c y" if "db_ctx ?s c = Some y" for c y
    using d(8) [of c y] that fr by (auto simp: ctx_shape_def add_hdr_obj_def fd)
  show "ctx_counts ?s y" if "db_ctx ?s c = Some y" "c \<notin> Y" for c y
    using d(9) [of c y] that by (auto simp: ctx_counts_def add_hdr_obj_def)
qed

definition add_ctx_obj :: "nat \<Rightarrow> ctx_entry \<Rightarrow> hdr_ptr idr \<Rightarrow> hdr_db \<Rightarrow> hdr_db" where
  "add_ctx_obj c x t s = s\<lparr>db_ctx := (db_ctx s)(c \<mapsto> x), ctx_list := c # ctx_list s, ctx_cnt := ctx_cnt s + 1, db_idr := t\<rparr>"

text \<open>A new context of header \<open>a\<close>: the header has a reference to spare, or is under construction.\<close>

lemma add_ctx_obj_inv:
  assumes inv: "hdr_inv_in X Y s" and new: "db_ctx s c = None" "c < db_next s"
    and id: "idr_put (PCtx c) (db_idr s) = (c_id x, t)"
    and shape: "c_cookie x = IPA_PROC_HDR_COOKIE" "c_off x = Some off" "off \<in> used_slots (ctx_tbl s)" "db_off s off = Some oe"
      "c_ref x \<noteq> 0" "c_hdr x = Some a" "db_hdr s a = Some h"
    and slot: "\<And>b k. db_ctx s b = Some k \<Longrightarrow> c_off k \<noteq> Some off"
    and spare: "a \<notin> X \<Longrightarrow> card (hdr_users Y s a h) < unat (h_ref h)"
  shows "hdr_inv_in X Y (add_ctx_obj c x t s)"
proof (rule hdr_inv_inI)
  let ?s = "add_ctx_obj c x t s"
  note d = hdr_inv_inD [OF inv]
  note fd = idr.find_alloc [OF id] and fr = idr.alloc_fresh [OF id]
  show "idr_inv ?s" using d(1) new unfolding idr_inv_def add_ctx_obj_def
    by (auto simp: fd split: hdr_ptr.splits if_splits) (metis option.distinct(1))
  show "lists_inv ?s" using d(2) new(1) by (auto simp: lists_inv_def add_ctx_obj_def)
  show "fresh_inv ?s" using d(3) new(2) by (auto simp: fresh_inv_def add_ctx_obj_def)
  show "slots_inv ?s" using d(4) by (simp add: slots_inv_def add_ctx_obj_def)
  show "own_inv ?s" using d(5) slot shape(2) unfolding own_inv_def add_ctx_obj_def
    by (auto split: if_splits)
  show "hdr_shape ?s b k" if "db_hdr ?s b = Some k" for b k
    using d(6) [of b k] that fr by (auto simp: hdr_shape_def add_ctx_obj_def fd)
  show "hdr_counts Y ?s b k" if bk: "db_hdr ?s b = Some k" "b \<notin> X" for b k
  proof -
    have b: "db_hdr s b = Some k" using bk(1) by (simp add: add_ctx_obj_def)
    have cn: "hdr_counts Y s b k" by (rule d(7) [OF b bk(2)])
    have "hdr_users Y ?s b k \<subseteq> insert c (hdr_users Y s b k)" by (auto simp: hdr_users_def add_ctx_obj_def split: if_splits)
    from card_mono [OF _ this] have le: "card (hdr_users Y ?s b k) \<le> Suc (card (hdr_users Y s b k))"
      using hdr_users_finite [OF inv] card_insert_le_m1 by (metis card_insert_le_m1 card_insert_if finite_insert le_SucI order_trans order_refl)
    have same: "hdr_users Y ?s b k \<subseteq> hdr_users Y s b k" if "b \<noteq> a"
      using that shape(6) by (auto simp: hdr_users_def add_ctx_obj_def split: if_splits)
    have "card (hdr_users Y ?s b k) \<le> unat (h_ref k)"
    proof (cases "b = a")
      case True
      then have "k = h" using b shape(7) by simp
      then show ?thesis using le spare True bk(2) by simp
    next
      case False
      then show ?thesis using card_mono [OF hdr_users_finite [OF inv] same] cn by (simp add: hdr_counts_def)
    qed
    then show ?thesis using cn new(1) by (fastforce simp: hdr_counts_def add_ctx_obj_def)
  qed
  show "ctx_shape ?s b y" if "db_ctx ?s b = Some y" for b y
  proof (cases "b = c")
    case True
    then show ?thesis using that shape by (auto simp: ctx_shape_def add_ctx_obj_def fd)
  next
    case False
    then have b: "db_ctx s b = Some y" using that by (simp add: add_ctx_obj_def)
    show ?thesis using d(8) [OF b] fr by (auto simp: ctx_shape_def add_ctx_obj_def fd)
  qed
  show "ctx_counts ?s y" if "db_ctx ?s b = Some y" "b \<notin> Y" for b y
    using that d(9) [of b y] shape by (auto simp: ctx_counts_def add_ctx_obj_def split: if_splits)
qed

section \<open>Handles and slots under the invariant\<close>

lemma cookies_differ [simp]: "IPA_HDR_COOKIE \<noteq> IPA_PROC_HDR_COOKIE" "IPA_PROC_HDR_COOKIE \<noteq> IPA_HDR_COOKIE"
  by (simp_all add: IPA_HDR_COOKIE_def IPA_PROC_HDR_COOKIE_def)

lemma handle_cases:
  assumes inv: "hdr_inv_in X Y s"
  obtains "hdr_by_handle hdl s = Some None" "ctx_by_handle hdl s = Some None"
      "\<And>a. ipa3_id_find hdl (db_idr s) \<noteq> Some (PHdr a)" "\<And>c. ipa3_id_find hdl (db_idr s) \<noteq> Some (PCtx c)"
  | a h where "hdr_by_handle hdl s = Some (Some a)" "ctx_by_handle hdl s = Some None"
      "db_hdr s a = Some h" "h_id h = hdl" "ipa3_id_find hdl (db_idr s) = Some (PHdr a)"
  | c x where "ctx_by_handle hdl s = Some (Some c)" "hdr_by_handle hdl s = Some None"
      "db_ctx s c = Some x" "c_id x = hdl" "ipa3_id_find hdl (db_idr s) = Some (PCtx c)"
proof (cases "ipa3_id_find hdl (db_idr s)")
  case None
  then show thesis using that(1) by (simp add: hdr_by_handle_def ctx_by_handle_def)
next
  case (Some p)
  note d = hdr_inv_inD [OF inv]
  show thesis
  proof (cases p)
    case (PHdr a)
    then obtain h where h: "db_hdr s a = Some h" "h_id h = hdl" using d(1) Some by (fastforce simp: idr_inv_def)
    then have "h_cookie h = IPA_HDR_COOKIE" using d(6) by (simp add: hdr_shape_def)
    then show thesis using that(2) [of a h] h Some PHdr
      by (simp add: hdr_by_handle_def ctx_by_handle_def cookie_of_def)
  next
    case (PCtx c)
    then obtain x where x: "db_ctx s c = Some x" "c_id x = hdl" using d(1) Some by (fastforce simp: idr_inv_def)
    then have "c_cookie x = IPA_PROC_HDR_COOKIE" using d(8) by (simp add: ctx_shape_def)
    then show thesis using that(3) [of c x] x Some PCtx
      by (simp add: hdr_by_handle_def ctx_by_handle_def cookie_of_def)
  next
    case (POther k b)
    then have "k \<noteq> IPA_HDR_COOKIE \<and> k \<noteq> IPA_PROC_HDR_COOKIE" using d(1) Some by (fastforce simp: idr_inv_def)
    then show thesis using that(1) Some POther by (simp add: hdr_by_handle_def ctx_by_handle_def cookie_of_def)
  qed
qed

lemma free_not_used:
  assumes "tbl_inv offs bins t" "a \<in> set (ot_free t b)"
  shows "a \<notin> used_slots t"
proof
  assume "a \<in> used_slots t"
  then obtain b' where b': "a \<in> set (ot_used t b')" by (auto simp: used_slots_def)
  obtain oe where "offs a = Some oe" using tbl_invD(4) [OF assms(1)] assms(2) by blast
  then have "b' = b" using slot_bin [OF assms(1)] assms(2) b' by metis
  then show False using tbl_invD(3) [OF assms(1), of b] assms(2) b' by auto
qed

lemma slots_fresh:
  assumes "hdr_inv_in X Y s" "db_next s \<le> a"
  shows "a \<notin> slots (hdr_tbl s)" "a \<notin> slots (ctx_tbl s)"
proof -
  note d = hdr_inv_inD [OF assms(1)]
  have "db_off s a = None" using d(3) assms(2) by (simp add: fresh_inv_def)
  moreover have "\<exists>oe. offs x = Some oe" if "tbl_inv offs bins t" "x \<in> slots t" for offs bins t x
    using that tbl_invD(4) [OF that(1)] by (fastforce simp: slots_def)
  ultimately show "a \<notin> slots (hdr_tbl s)" "a \<notin> slots (ctx_tbl s)"
    using d(4) by (fastforce simp: slots_inv_def)+
qed

text \<open>A state in which only a slot has been taken for an object to come.\<close>

lemma inv_slots_change:
  assumes inv: "hdr_inv_in X Y s"
    and same: "db_idr s' = db_idr s" "db_hdr s' = db_hdr s" "db_ctx s' = db_ctx s"
      "hdr_list s' = hdr_list s" "ctx_list s' = ctx_list s" "db_next s \<le> db_next s'"
    and used: "\<And>a h off. db_hdr s a = Some h \<Longrightarrow> h_off h = Some off \<Longrightarrow> off \<in> used_slots (hdr_tbl s) \<Longrightarrow> off \<in> used_slots (hdr_tbl s')"
      "\<And>c x off. db_ctx s c = Some x \<Longrightarrow> c_off x = Some off \<Longrightarrow> off \<in> used_slots (ctx_tbl s) \<Longrightarrow> off \<in> used_slots (ctx_tbl s')"
    and offs: "\<And>a oe. db_off s a = Some oe \<Longrightarrow> \<exists>oe'. db_off s' a = Some oe' \<and> o_bin oe' = o_bin oe"
      "\<And>a. db_next s' \<le> a \<Longrightarrow> db_off s' a = None"
    and slots: "slots_inv s'"
  shows "hdr_inv_in X Y s'"
proof (rule hdr_inv_inI)
  note d = hdr_inv_inD [OF inv]
  show "idr_inv s'" using d(1) unfolding idr_inv_def same .
  show "lists_inv s'" using d(2) unfolding lists_inv_def same .
  show "own_inv s'" using d(5) unfolding own_inv_def same .
  show "fresh_inv s'" using d(3) offs(2) order_trans [OF same(6)] by (simp add: fresh_inv_def same)
  show "slots_inv s'" by (rule slots)
  show "hdr_shape s' a h" if "db_hdr s' a = Some h" for a h
  proof -
    have h: "hdr_shape s a h" using d(6) that same by simp
    have "\<exists>oe'. db_off s' off = Some oe' \<and> h_len h \<le> hdr_bin_sz ! o_bin oe'"
      if "db_off s off = Some oe" "h_len h \<le> hdr_bin_sz ! o_bin oe" for off oe using offs(1) [OF that(1)] that(2) by auto
    moreover have "off \<in> used_slots (hdr_tbl s')" if "h_off h = Some off" "off \<in> used_slots (hdr_tbl s)" for off
      using used(1) [of a h off] that \<open>db_hdr s' a = Some h\<close> by (simp add: same)
    ultimately show ?thesis using h by (fastforce simp: hdr_shape_def same)
  qed
  show "hdr_counts Y s' a h" if "db_hdr s' a = Some h" "a \<notin> X" for a h
    using d(7) that same by (simp add: hdr_counts_def hdr_users_def)
  show "ctx_shape s' c x" if "db_ctx s' c = Some x" for c x
    using d(8) [of c x] that used(2) [of c x] offs(1) by (fastforce simp: ctx_shape_def same)
  show "ctx_counts s' x" if "db_ctx s' c = Some x" "c \<notin> Y" for c x
    using d(9) [of c x] that by (simp add: ctx_counts_def same)
qed

lemma bins_length [simp]: "length hdr_bin_sz = 5" "length ctx_bin_sz = 2"
  by (simp_all add: hdr_consts)

lemma slot_grow_hdr:
  assumes inv: "hdr_inv_in X Y s" and b: "b < 5" and oe: "o_offset oe = ot_end (hdr_tbl s)" "o_bin oe = b"
  shows "hdr_inv_in X Y (s\<lparr>db_next := db_next s + 1, db_off := (db_off s)(db_next s \<mapsto> oe),
     hdr_tbl := slot_grow (db_next s) b (hdr_bin_sz ! b) (hdr_tbl s)\<rparr>)" (is "hdr_inv_in X Y ?s")
proof (rule inv_slots_change [OF inv])
  note d = hdr_inv_inD [OF inv] and fr = slots_fresh [OF inv order_refl]
  have none: "db_off s (db_next s) = None" using d(3) by (simp add: fresh_inv_def)
  show "slots_inv ?s" using d(4) tbl_inv_grow [of "db_off s" hdr_bin_sz "hdr_tbl s" b oe "db_next s"] fr b oe
    by (auto simp: slots_inv_def intro: tbl_inv_cong)
qed (use hdr_inv_inD(3) [OF inv] in \<open>auto simp: fresh_inv_def\<close>)

lemma slot_grow_ctx:
  assumes inv: "hdr_inv_in X Y s" and b: "b < 2" and oe: "o_offset oe = ot_end (ctx_tbl s)" "o_bin oe = b"
  shows "hdr_inv_in X Y (s\<lparr>db_next := db_next s + 1, db_off := (db_off s)(db_next s \<mapsto> oe),
     ctx_tbl := slot_grow (db_next s) b (ctx_bin_sz ! b) (ctx_tbl s)\<rparr>)" (is "hdr_inv_in X Y ?s")
proof (rule inv_slots_change [OF inv])
  note d = hdr_inv_inD [OF inv] and fr = slots_fresh [OF inv order_refl]
  show "slots_inv ?s" using d(4) tbl_inv_grow [of "db_off s" ctx_bin_sz "ctx_tbl s" b oe "db_next s"] fr b oe
    by (auto simp: slots_inv_def intro: tbl_inv_cong)
qed (use hdr_inv_inD(3) [OF inv] in \<open>auto simp: fresh_inv_def\<close>)

lemma slot_take_hdr:
  assumes inv: "hdr_inv_in X Y s" and f: "ot_free (hdr_tbl s) b = off # fs" "db_off s off = Some oe"
  shows "hdr_inv_in X Y (s\<lparr>db_off := (db_off s)(off \<mapsto> oe\<lparr>o_ipacm := u\<rparr>), hdr_tbl := slot_take b (hdr_tbl s)\<rparr>)"
    (is "hdr_inv_in X Y ?s")
proof (rule inv_slots_change [OF inv])
  note d = hdr_inv_inD [OF inv] and t = slot_take_sets [OF f(1)]
  have i: "tbl_inv (db_off s) hdr_bin_sz (slot_take b (hdr_tbl s))" "tbl_inv (db_off s) ctx_bin_sz (ctx_tbl s)"
    using d(4) tbl_inv_take [OF _ f(1)] by (auto simp: slots_inv_def)
  then have "tbl_inv (db_off ?s) hdr_bin_sz (hdr_tbl ?s)" "tbl_inv (db_off ?s) ctx_bin_sz (ctx_tbl ?s)"
    using f(2) by (auto elim!: tbl_inv_cong)
  then show "slots_inv ?s" using d(4) t by (simp add: slots_inv_def)
  have "off < db_next s" using d(3) f(2) by (force simp: fresh_inv_def not_less [symmetric])
  then show "\<And>a. db_next ?s \<le> a \<Longrightarrow> db_off ?s a = None" using d(3) by (auto simp: fresh_inv_def)
qed (use f(2) slot_take_sets [OF f(1)] in auto)

lemma slot_take_ctx:
  assumes inv: "hdr_inv_in X Y s" and f: "ot_free (ctx_tbl s) b = off # fs" "db_off s off = Some oe"
  shows "hdr_inv_in X Y (s\<lparr>db_off := (db_off s)(off \<mapsto> oe\<lparr>o_ipacm := u\<rparr>), ctx_tbl := slot_take b (ctx_tbl s)\<rparr>)"
    (is "hdr_inv_in X Y ?s")
proof (rule inv_slots_change [OF inv])
  note d = hdr_inv_inD [OF inv] and t = slot_take_sets [OF f(1)]
  have i: "tbl_inv (db_off s) ctx_bin_sz (slot_take b (ctx_tbl s))" "tbl_inv (db_off s) hdr_bin_sz (hdr_tbl s)"
    using d(4) tbl_inv_take [OF _ f(1)] by (auto simp: slots_inv_def)
  then have "tbl_inv (db_off ?s) ctx_bin_sz (ctx_tbl ?s)" "tbl_inv (db_off ?s) hdr_bin_sz (hdr_tbl ?s)"
    using f(2) by (auto elim!: tbl_inv_cong)
  then show "slots_inv ?s" using d(4) t by (simp add: slots_inv_def)
  have "off < db_next s" using d(3) f(2) by (force simp: fresh_inv_def not_less [symmetric])
  then show "\<And>a. db_next ?s \<le> a \<Longrightarrow> db_off ?s a = None" using d(3) by (auto simp: fresh_inv_def)
qed (use f(2) slot_take_sets [OF f(1)] in auto)


text \<open>A slot that was taken for an object that is not made after all goes back.\<close>

lemma slot_untake_hdr:
  assumes inv: "hdr_inv_in X Y s" and off: "off \<in> slots (hdr_tbl s)" "db_off s off = Some oe"
    and free: "\<And>a h. db_hdr s a = Some h \<Longrightarrow> h_off h \<noteq> Some off"
  shows "hdr_inv_in X Y (s\<lparr>hdr_tbl := slot_release (o_bin oe) off (hdr_tbl s)\<rparr>)" (is "hdr_inv_in X Y ?s")
proof (rule inv_slots_change [OF inv])
  note d = hdr_inv_inD [OF inv]
  have tb: "tbl_inv (db_off s) hdr_bin_sz (hdr_tbl s)" using d(4) by (simp add: slots_inv_def)
  note rel = slot_release_sets [OF tb, of "o_bin oe" off]
  show "slots_inv ?s" using d(4) tbl_inv_release [OF tb off] by (simp add: slots_inv_def rel(2) insert_absorb [OF off(1)])
  show "\<And>a h o'. db_hdr s a = Some h \<Longrightarrow> h_off h = Some o' \<Longrightarrow> o' \<in> used_slots (hdr_tbl s) \<Longrightarrow> o' \<in> used_slots (hdr_tbl ?s)"
    using free rel(1) by auto
qed (use hdr_inv_inD(3) [OF inv] in \<open>auto simp: fresh_inv_def\<close>)

lemma slot_untake_ctx:
  assumes inv: "hdr_inv_in X Y s" and off: "off \<in> slots (ctx_tbl s)" "db_off s off = Some oe"
    and free: "\<And>c x. db_ctx s c = Some x \<Longrightarrow> c_off x \<noteq> Some off"
  shows "hdr_inv_in X Y (s\<lparr>ctx_tbl := slot_release (o_bin oe) off (ctx_tbl s)\<rparr>)" (is "hdr_inv_in X Y ?s")
proof (rule inv_slots_change [OF inv])
  note d = hdr_inv_inD [OF inv]
  have tb: "tbl_inv (db_off s) ctx_bin_sz (ctx_tbl s)" using d(4) by (simp add: slots_inv_def)
  note rel = slot_release_sets [OF tb, of "o_bin oe" off]
  show "slots_inv ?s" using d(4) tbl_inv_release [OF tb off] by (simp add: slots_inv_def rel(2) insert_absorb [OF off(1)])
  show "\<And>c x o'. db_ctx s c = Some x \<Longrightarrow> c_off x = Some o' \<Longrightarrow> o' \<in> used_slots (ctx_tbl s) \<Longrightarrow> o' \<in> used_slots (ctx_tbl ?s)"
    using free rel(1) by auto
qed (use hdr_inv_inD(3) [OF inv] in \<open>auto simp: fresh_inv_def\<close>)

end
