(* ===== verification/Ipa_Hdr_Safe.thy ===== *)
theory Ipa_Hdr_Safe
  imports Ipa_Hdr_Inv
begin

text \<open>
  The operations of the header tables under the invariant: each of them returns, without a NULL
  or dangling pointer on its way, and keeps the invariant, also when it fails half-way.
\<close>

section \<open>Adding contexts\<close>

text \<open>The handles of other modules are the same.\<close>

definition others_kept :: "hdr_db \<Rightarrow> hdr_db \<Rightarrow> bool" where
  "others_kept s s' \<longleftrightarrow> (\<forall>j k b. ipa3_id_find j (db_idr s') = Some (POther k b) \<longleftrightarrow> ipa3_id_find j (db_idr s) = Some (POther k b))"

text \<open>Linking a context in a state with its slot, and what is left when that fails.\<close>

lemma ctx_link_ok:
  assumes inv: "hdr_inv_in X {} s" and new: "db_ctx s c = None" "c < db_next s"
    and st: "st = s\<lparr>db_ctx := (db_ctx s)(c \<mapsto> x)\<rparr>"
    and x: "c_cookie x = IPA_PROC_HDR_COOKIE" "c_hdr x = Some a" "c_ref x = 0"
    and h: "db_hdr s a = Some h"
    and off: "off \<in> used_slots (ctx_tbl s)" "db_off s off = Some oe" "o_bin oe = bin" "\<And>b k. db_ctx s b = Some k \<Longrightarrow> c_off k \<noteq> Some off"
    and spare: "a \<notin> X \<Longrightarrow> card (hdr_users {} s a h) < unat (h_ref h)"
    and undoref: "ref \<Longrightarrow> a \<notin> X \<Longrightarrow> hdr_counts {} s a (h\<lparr>h_ref := h_ref h - 1\<rparr>)"
  obtains (linked) i t where "idr_put (PCtx c) (db_idr s) = (i, t)"
      "ctx_link e a c off bin ref st = Some (OK, Some i, add_ctx_obj c (x\<lparr>c_off := Some off, c_id := i, c_ref := 1\<rparr>) t s)"
      "hdr_inv_in X {} (add_ctx_obj c (x\<lparr>c_off := Some off, c_id := i, c_ref := 1\<rparr>) t s)"
  | (undone) s' where "ctx_link e a c off bin ref st = Some (Err EPERM, None, s')" "hdr_inv_in X {} s'"
      "s' = s\<lparr>db_hdr := (if ref then (db_hdr s)(a \<mapsto> h\<lparr>h_ref := h_ref h - 1\<rparr>) else db_hdr s),
              ctx_tbl := slot_release bin off (ctx_tbl s)\<rparr>"
proof (cases "e_id e c")
  case True
  obtain i t where p: "idr_put (PCtx c) (db_idr s) = (i, t)" by fastforce
  have "ctx_link e a c off bin ref st = Some (OK, Some i, add_ctx_obj c (x\<lparr>c_off := Some off, c_id := i, c_ref := 1\<rparr>) t s)"
    using True x(3) by (simp add: ctx_link_def st ipa3_id_alloc_def p add_ctx_obj_def)
  moreover have "hdr_inv_in X {} (add_ctx_obj c (x\<lparr>c_off := Some off, c_id := i, c_ref := 1\<rparr>) t s)"
    using p x h off(1,2,4) spare by (intro add_ctx_obj_inv [OF inv new, where off = off and oe = oe and h = h and a = a]) auto
  ultimately show thesis using linked p by blast
next
  case False
  let ?u = "s\<lparr>db_hdr := (if ref then (db_hdr s)(a \<mapsto> h\<lparr>h_ref := h_ref h - 1\<rparr>) else db_hdr s)\<rparr>"
  have "hdr_inv_in X {} ?u"
    using inv upd_hdr_inv [OF inv h, of "h\<lparr>h_ref := h_ref h - 1\<rparr>" X] undoref by (cases ref) auto
  then have "hdr_inv_in X {} (?u\<lparr>ctx_tbl := slot_release (o_bin oe) off (ctx_tbl ?u)\<rparr>)"
    using off by (intro slot_untake_ctx) (auto simp: used_slots_def slots_def)
  moreover have "ctx_link e a c off bin ref st = Some (Err EPERM, None, ?u\<lparr>ctx_tbl := slot_release bin off (ctx_tbl s)\<rparr>)"
    using False new(1) h by (auto simp: ctx_link_def st ipa3_id_alloc_def ctx_bad_len_def drop_ref_def fun_upd_idem)
  ultimately show thesis using undone off(3) by simp
qed


text \<open>What the addition of a context leaves untouched in either case.\<close>

definition ctx_frame :: "hdr_db \<Rightarrow> hdr_db \<Rightarrow> bool" where
  "ctx_frame s s' \<longleftrightarrow> hdr_tbl s' = hdr_tbl s \<and> hdr_list s' = hdr_list s \<and> hdr_cnt s' = hdr_cnt s \<and>
     dma_mapped s' = dma_mapped s \<and> db_next s \<le> db_next s' \<and> dma_bufs s' = dma_bufs s \<and>
     (\<forall>off \<in> slots (hdr_tbl s). db_off s' off = db_off s off)"

lemma ctx_frame_upd: "ctx_frame s (s\<lparr>db_hdr := x\<rparr>)" "ctx_frame s (s\<lparr>db_next := Suc (db_next s), db_ctx := y\<rparr>)"
  by (simp_all add: ctx_frame_def)

lemma ctx_bin_lt: "ctx_bin l = Some b \<Longrightarrow> b < 2"
  by (auto simp: ctx_bin_def split: if_splits)

lemma unat_succ: "(w :: 'a :: len word) \<noteq> - 1 \<Longrightarrow> unat (w + 1) = Suc (unat w)"
  using unatSuc [of w] by (simp add: add.commute eq_neg_iff_add_eq_0)

lemma bad_len_back:
  assumes "db_hdr s a = Some h" "db_ctx s c = None"
    "st = s\<lparr>db_hdr := (db_hdr s)(a \<mapsto> if ref then h\<lparr>h_ref := h_ref h + 1\<rparr> else h), db_next := n,
         db_ctx := (db_ctx s)(c \<mapsto> x)\<rparr>"
  shows "ctx_bad_len a c ref st = Some (Err EPERM, None, s\<lparr>db_next := n\<rparr>)"
  using assms by (auto simp: ctx_bad_len_def drop_ref_def fun_upd_idem)

text \<open>A slot for a new context, in the state before the context is there.\<close>

definition ctx_slot_state :: "hdr_env \<Rightarrow> nat \<Rightarrow> bool \<Rightarrow> hdr_db \<Rightarrow> (nat \<times> hdr_db) option" where
  "ctx_slot_state e bin user s =
     (case ot_free (ctx_tbl s) bin of
        [] \<Rightarrow> if ot_end (ctx_tbl s) + ctx_bin_sz ! bin > ctx_mem_size e \<or> \<not> e_alloc e (db_next s) then None
              else Some (db_next s, s\<lparr>db_next := db_next s + 1,
                     db_off := (db_off s)(db_next s \<mapsto> \<lparr>o_offset = ot_end (ctx_tbl s), o_bin = bin, o_ipacm = user\<rparr>),
                     ctx_tbl := slot_grow (db_next s) bin (ctx_bin_sz ! bin) (ctx_tbl s)\<rparr>)
      | off # fs \<Rightarrow> (case db_off s off of None \<Rightarrow> None | Some oe \<Rightarrow>
          Some (off, s\<lparr>db_off := (db_off s)(off \<mapsto> oe\<lparr>o_ipacm := user\<rparr>), ctx_tbl := slot_take bin (ctx_tbl s)\<rparr>)))"

lemma ctx_slot_ok:
  assumes inv: "hdr_inv_in X Y s" and b: "bin < 2" and st: "ctx_slot_state e bin user s = Some (off, s')"
  shows "hdr_inv_in X Y s'" "off \<in> used_slots (ctx_tbl s')" "\<exists>oe. db_off s' off = Some oe \<and> o_bin oe = bin"
    "\<And>c x. db_ctx s c = Some x \<Longrightarrow> c_off x \<noteq> Some off" "db_hdr s' = db_hdr s" "db_ctx s' = db_ctx s"
    "db_idr s' = db_idr s" "ctx_list s' = ctx_list s" "ctx_frame s s'"
proof -
  note d = hdr_inv_inD [OF inv]
  have tb: "tbl_inv (db_off s) ctx_bin_sz (ctx_tbl s)" and disj: "slots (hdr_tbl s) \<inter> slots (ctx_tbl s) = {}"
    using d(4) by (simp_all add: slots_inv_def)
  have owned: "c_off x \<noteq> Some off" if "db_ctx s c = Some x" "off \<notin> used_slots (ctx_tbl s)" for c x off
    using d(8) [OF that(1)] that(2) by (auto simp: ctx_shape_def)
  have "hdr_inv_in X Y s' \<and> off \<in> used_slots (ctx_tbl s') \<and> (\<exists>oe. db_off s' off = Some oe \<and> o_bin oe = bin) \<and>
    (\<forall>c x. db_ctx s c = Some x \<longrightarrow> c_off x \<noteq> Some off) \<and> db_hdr s' = db_hdr s \<and> db_ctx s' = db_ctx s \<and>
    db_idr s' = db_idr s \<and> ctx_list s' = ctx_list s \<and> ctx_frame s s'"
  proof (cases "ot_free (ctx_tbl s) bin")
    case Nil
    let ?oe = "\<lparr>o_offset = ot_end (ctx_tbl s), o_bin = bin, o_ipacm = user\<rparr>"
    have st': "off = db_next s" "s' = s\<lparr>db_next := db_next s + 1, db_off := (db_off s)(db_next s \<mapsto> ?oe),
        ctx_tbl := slot_grow (db_next s) bin (ctx_bin_sz ! bin) (ctx_tbl s)\<rparr>"
      using st Nil by (auto simp: ctx_slot_state_def split: if_splits)
    have fr: "db_next s \<notin> slots (ctx_tbl s)" "db_next s \<notin> slots (hdr_tbl s)" using slots_fresh [OF inv order_refl] by auto
    then have "off \<notin> used_slots (ctx_tbl s)" by (auto simp: st' used_slots_def slots_def)
    then show ?thesis using slot_grow_ctx [OF inv b, of ?oe] owned fr by (auto simp: st' ctx_frame_def)
  next
    case (Cons o' fs)
    then have mem: "o' \<in> set (ot_free (ctx_tbl s) bin)" "o' \<in> slots (ctx_tbl s)" by (auto simp: slots_def intro: exI [of _ bin])
    from tbl_invD(4) [OF tb] mem(1) obtain oe where oe: "db_off s o' = Some oe" "o_bin oe = bin" by (auto simp: slot_ok_def)
    have st': "off = o'" "s' = s\<lparr>db_off := (db_off s)(o' \<mapsto> oe\<lparr>o_ipacm := user\<rparr>), ctx_tbl := slot_take bin (ctx_tbl s)\<rparr>"
      using st Cons oe by (auto simp: ctx_slot_state_def)
    have "off \<notin> used_slots (ctx_tbl s)" using free_not_used [OF tb mem(1)] by (simp add: st')
    then show ?thesis using slot_take_ctx [OF inv Cons oe(1), of user] owned slot_take_sets [OF Cons] oe(2) mem(2) disj
      by (auto simp: st' ctx_frame_def)
  qed
  then show "hdr_inv_in X Y s'" "off \<in> used_slots (ctx_tbl s')" "\<exists>oe. db_off s' off = Some oe \<and> o_bin oe = bin"
    "\<And>c x. db_ctx s c = Some x \<Longrightarrow> c_off x \<noteq> Some off" "db_hdr s' = db_hdr s" "db_ctx s' = db_ctx s"
    "db_idr s' = db_idr s" "ctx_list s' = ctx_list s" "ctx_frame s s'" by auto
qed

definition ref_hdr :: "bool \<Rightarrow> hdr_entry \<Rightarrow> hdr_entry" where
  "ref_hdr ref h = (if ref then h\<lparr>h_ref := h_ref h + 1\<rparr> else h)"

definition ctx_start :: "nat \<Rightarrow> hdr_entry \<Rightarrow> bool \<Rightarrow> hdr_db \<Rightarrow> hdr_db" where
  "ctx_start a h ref s = s\<lparr>db_hdr := (db_hdr s)(a \<mapsto> ref_hdr ref h), db_next := Suc (db_next s)\<rparr>"

definition new_ctx :: "ctx_add \<Rightarrow> nat \<Rightarrow> bool \<Rightarrow> ctx_entry" where
  "new_ctx pa a user = \<lparr>c_cookie = IPA_PROC_HDR_COOKIE, c_type = pa_type pa, c_l2tp = pa_l2tp pa,
     c_generic = pa_generic pa, c_off = None, c_hdr = Some a, c_ref = 0, c_id = 0, c_user_deleted = False, c_ipacm = user\<rparr>"

lemma add_ctx_eq:
  assumes inv: "hdr_inv_in X Y s" and type: "0 \<le> pa_type pa \<and> pa_type pa < e_proc_max e" and alloc: "e_alloc e (db_next s)"
    and h: "hdr_by_handle (pa_hdl pa) s = Some (Some a)" "db_hdr s a = Some h"
  shows "add_hdr_proc_ctx e pa ref user s =
    (let c = db_next s; x = new_ctx pa a user; s0 = ctx_start a h ref s; st = s0\<lparr>db_ctx := (db_ctx s)(c \<mapsto> x)\<rparr> in
     case ctx_bin (e_needed_len e (pa_type pa)) of None \<Rightarrow> ctx_bad_len a c ref st
     | Some bin \<Rightarrow> (case ctx_slot_state e bin user s0 of None \<Rightarrow> ctx_bad_len a c ref st
          | Some (off, s') \<Rightarrow> ctx_link e a c off bin ref (s'\<lparr>db_ctx := (db_ctx s')(c \<mapsto> x)\<rparr>)))"
proof -
  have live: "\<exists>oe. db_off s off = Some oe" if "ot_free (ctx_tbl s) bin = off # fs" for bin off fs
    using hdr_inv_inD(4) [OF inv] tbl_invD(4) [of "db_off s" ctx_bin_sz "ctx_tbl s" off bin] that by (auto simp: slots_inv_def)
  have same: "ot_free (ctx_tbl (ctx_start a h ref s)) = ot_free (ctx_tbl s)"
    "ot_end (ctx_tbl (ctx_start a h ref s)) = ot_end (ctx_tbl s)" "db_off (ctx_start a h ref s) = db_off s"
    by (simp_all add: ctx_start_def)
  have st: "ctx_start a h ref s\<lparr>db_ctx := z\<rparr> = (if ref then s\<lparr>db_hdr := (db_hdr s)(a \<mapsto> h\<lparr>h_ref := h_ref h + 1\<rparr>)\<rparr> else s)
      \<lparr>db_next := db_next s + 1, db_ctx := z\<rparr>" for z
    using h(2) by (simp add: ctx_start_def ref_hdr_def fun_upd_idem)
  note defs = add_hdr_proc_ctx_def add_ref_def new_ctx_def ctx_slot_state_def same ctx_start_def ref_hdr_def fun_upd_idem Let_def
  show ?thesis
  proof (cases "ctx_bin (e_needed_len e (pa_type pa))")
    case None
    then show ?thesis using type alloc h by (simp add: add_hdr_proc_ctx_def add_ref_def st new_ctx_def Let_def)
  next
    case (Some bin)
    then show ?thesis
    proof (cases "ot_free (ctx_tbl s) bin")
      case Nil
      then show ?thesis using type alloc h Some by (cases s) (simp add: defs)
    next
      case (Cons off fs)
      then obtain oe where "db_off s off = Some oe" using live by blast
      then show ?thesis using type alloc h Some Cons by (cases s) (simp add: defs)
    qed
  qed
qed

lemma ctx_start_inv:
  assumes inv: "hdr_inv_in X {} s" and h: "db_hdr s a = Some h" and X: "if ref then a \<notin> X \<and> h_ref h \<noteq> - 1 else a \<in> X"
  shows "hdr_inv_in X {} (ctx_start a h ref s)"
proof -
  have "hdr_inv_in X {} (s\<lparr>db_hdr := (db_hdr s)(a \<mapsto> ref_hdr ref h)\<rparr>)"
  proof (cases ref)
    case True
    then show ?thesis using hdr_inv_inD(7) [OF inv h] X unat_succ [of "h_ref h"]
      by (intro upd_hdr_inv [OF inv h]) (auto simp: ref_hdr_def hdr_counts_def hdr_users_def)
  qed (use inv h in \<open>simp add: ref_hdr_def fun_upd_idem\<close>)
  then show ?thesis by (rule hdr_inv_frame) (simp_all add: ctx_start_def)
qed

lemma add_ctx_ok:
  assumes inv: "hdr_inv_in X {} s"
    and ref: "\<And>a h. ipa3_id_find (pa_hdl pa) (db_idr s) = Some (PHdr a) \<Longrightarrow> db_hdr s a = Some h \<Longrightarrow>
      (if ref then a \<notin> X \<and> h_ref h \<noteq> - 1 else a \<in> X)"
  obtains (refused) err s' where "add_hdr_proc_ctx e pa ref user s = Some (Err err, None, s')" "hdr_inv_in X {} s'"
      "db_hdr s' = db_hdr s" "db_ctx s' = db_ctx s" "db_idr s' = db_idr s" "ctx_list s' = ctx_list s" "ctx_frame s s'"
  | (added) a h c x i s' where "add_hdr_proc_ctx e pa ref user s = Some (OK, Some i, s')" "hdr_inv_in X {} s'"
      "ipa3_id_find (pa_hdl pa) (db_idr s) = Some (PHdr a)" "db_hdr s a = Some h" "db_ctx s c = None"
      "db_ctx s' = (db_ctx s)(c \<mapsto> x)" "c_hdr x = Some a" "c_ref x = 1" "c_id x = i" "\<not> c_user_deleted x"
      "ipa3_id_find i (db_idr s') = Some (PCtx c)" "ipa3_id_find i (db_idr s) = None"
      "\<And>j. j \<noteq> i \<Longrightarrow> ipa3_id_find j (db_idr s') = ipa3_id_find j (db_idr s)"
      "db_hdr s' = (if ref then (db_hdr s)(a \<mapsto> h\<lparr>h_ref := h_ref h + 1\<rparr>) else db_hdr s)"
      "ctx_list s' = c # ctx_list s" "ctx_frame s s'"
proof (cases "0 \<le> pa_type pa \<and> pa_type pa < e_proc_max e")
  case False
  then have "add_hdr_proc_ctx e pa ref user s = Some (Err EINVAL, None, s)" by (auto simp: add_hdr_proc_ctx_def)
  then show thesis using refused inv by (simp add: ctx_frame_def)
next
  case type: True
  have refuse: thesis if "add_hdr_proc_ctx e pa ref user s = Some (Err err, None, s)" for err
    using refused [OF that inv] by (simp add: ctx_frame_def)
  consider "hdr_by_handle (pa_hdl pa) s = Some None"
    | a h where "hdr_by_handle (pa_hdl pa) s = Some (Some a)" "db_hdr s a = Some h"
        "ipa3_id_find (pa_hdl pa) (db_idr s) = Some (PHdr a)" using handle_cases [OF inv, of "pa_hdl pa"] by metis
  then show thesis
  proof cases
    case 1
    then show thesis using type by (intro refuse [of EINVAL]) (simp add: add_hdr_proc_ctx_def)
  next
    case 2
    show thesis
    proof (cases "e_alloc e (db_next s)")
      case False
      then show thesis using type 2(1) by (intro refuse [of ENOMEM]) (simp add: add_hdr_proc_ctx_def)
    next
      case alloc: True
      note d = hdr_inv_inD [OF inv]
      define c where "c = db_next s"
      define h1 where "h1 = ref_hdr ref h"
      define s0 where "s0 = ctx_start a h ref s"
      define x where "x = new_ctx pa a user"
      define st where "st = s0\<lparr>db_ctx := (db_ctx s)(c \<mapsto> x)\<rparr>"
      note defs = s0_def ctx_start_def h1_def ref_hdr_def
      have h1: "db_hdr s0 a = Some h1" by (simp add: s0_def ctx_start_def h1_def)
      have c: "db_ctx s c = None" "db_ctx s0 c = None" "c < db_next s0" using d(3) by (auto simp: fresh_inv_def c_def s0_def ctx_start_def)
      have X: "if ref then a \<notin> X \<and> h_ref h \<noteq> - 1 else a \<in> X" using ref 2 by simp
      have up: "unat (h_ref h + 1) = Suc (unat (h_ref h))" if ref using X that unat_succ [of "h_ref h"] by simp
      have inv0: "hdr_inv_in X {} s0" unfolding s0_def by (rule ctx_start_inv [OF inv 2(2) X])
      have bad: "ctx_bad_len a c ref st = Some (Err EPERM, None, s\<lparr>db_next := Suc (db_next s)\<rparr>)"
        using 2(2) c(1) by (intro bad_len_back [where h = h and x = x]) (auto simp: st_def defs)
      note eq = add_ctx_eq [OF inv type alloc 2(1,2), of ref user, folded s0_def x_def c_def, unfolded Let_def, folded st_def]
      have gone: thesis if "add_hdr_proc_ctx e pa ref user s = ctx_bad_len a c ref st"
        using that bad refused [of EPERM "s\<lparr>db_next := Suc (db_next s)\<rparr>"] hdr_inv_frame [OF inv, of "s\<lparr>db_next := Suc (db_next s)\<rparr>"]
        by (simp add: ctx_frame_def)
      show thesis
      proof (cases "\<exists>bin off s1. ctx_bin (e_needed_len e (pa_type pa)) = Some bin \<and> ctx_slot_state e bin user s0 = Some (off, s1)")
        case False
        then show thesis using eq by (intro gone) (auto split: option.splits)
      next
        case True
        then obtain bin off s1 where b: "ctx_bin (e_needed_len e (pa_type pa)) = Some bin" "ctx_slot_state e bin user s0 = Some (off, s1)" by blast
        note s1 = ctx_slot_ok [OF inv0 ctx_bin_lt [OF b(1)] b(2)]
        obtain oe where oe: "db_off s1 off = Some oe" "o_bin oe = bin" using s1(3) by blast
        have fr: "ctx_frame s s1" using s1(9) by (simp add: ctx_frame_def defs)
        have link: "add_hdr_proc_ctx e pa ref user s = ctx_link e a c off bin ref (s1\<lparr>db_ctx := (db_ctx s1)(c \<mapsto> x)\<rparr>)"
          using eq b by simp
        have cnt: "hdr_counts {} s a h" if "a \<notin> X" using d(7) [OF 2(2) that] .
        have us: "hdr_users {} s1 a h1 = hdr_users {} s a h" by (auto simp: hdr_users_def s1(6) defs)
        have spare: "a \<notin> X \<Longrightarrow> card (hdr_users {} s1 a h1) < unat (h_ref h1)"
          using cnt up X unfolding us by (auto simp: hdr_counts_def defs split: if_splits)
        have undo: "hdr_counts {} s1 a (h1\<lparr>h_ref := h_ref h1 - 1\<rparr>)" if ref "a \<notin> X"
          using cnt [OF that(2)] that by (simp add: hdr_counts_def hdr_users_def s1(6) defs)
        show thesis
        proof (rule ctx_link_ok [where s = s1 and c = c and x = x and a = a and h = h1 and off = off and oe = oe and bin = bin
              and ref = ref and e = e and X = X])
          show "hdr_inv_in X {} s1" by (rule s1(1))
          show "db_ctx s1 c = None" using c(2) by (simp add: s1(6))
          show "c < db_next s1" using fr c(3) s1(9) by (simp add: ctx_frame_def)
          show "s1\<lparr>db_ctx := (db_ctx s1)(c \<mapsto> x)\<rparr> = s1\<lparr>db_ctx := (db_ctx s1)(c \<mapsto> x)\<rparr>" ..
          show "db_hdr s1 a = Some h1" using h1 by (simp add: s1(5))
          show "\<And>b k. db_ctx s1 b = Some k \<Longrightarrow> c_off k \<noteq> Some off" using s1(4) by (simp add: s1(6))
        next
          fix i t
          let ?x = "x\<lparr>c_off := Some off, c_id := i, c_ref := 1\<rparr>"
          assume p: "idr_put (PCtx c) (db_idr s1) = (i, t)"
            and l: "ctx_link e a c off bin ref (s1\<lparr>db_ctx := (db_ctx s1)(c \<mapsto> x)\<rparr>) = Some (OK, Some i, add_ctx_obj c ?x t s1)"
            and i: "hdr_inv_in X {} (add_ctx_obj c ?x t s1)"
          have idr: "db_idr s1 = db_idr s" by (simp add: s1(7) defs)
          define q where "q = add_ctx_obj c ?x t s1"
          have x': "c_hdr ?x = Some a" "c_ref ?x = 1" "c_id ?x = i" "\<not> c_user_deleted ?x" by (simp_all add: x_def new_ctx_def)
          have f: "ipa3_id_find i (db_idr q) = Some (PCtx c)" "ipa3_id_find i (db_idr s) = None"
            "\<And>j. j \<noteq> i \<Longrightarrow> ipa3_id_find j (db_idr q) = ipa3_id_find j (db_idr s)"
            using idr.find_alloc [OF p] idr.alloc_fresh [OF p] by (simp_all add: q_def add_ctx_obj_def idr)
          have hs: "db_hdr q = (if ref then (db_hdr s)(a \<mapsto> h\<lparr>h_ref := h_ref h + 1\<rparr>) else db_hdr s)"
            using 2(2) by (simp add: q_def add_ctx_obj_def s1(5) defs fun_upd_idem)
          have cs: "db_ctx q = (db_ctx s)(c \<mapsto> ?x)" "ctx_list q = c # ctx_list s"
            by (simp_all add: q_def add_ctx_obj_def s1(6,8) defs)
          have "ctx_frame s q" using fr by (simp add: q_def add_ctx_obj_def ctx_frame_def)
          with link l i show thesis unfolding q_def [symmetric] by (intro added [OF _ _ 2(3,2) c(1) cs(1) x' f hs cs(2)]) simp_all
        next
          fix s' assume "ctx_link e a c off bin ref (s1\<lparr>db_ctx := (db_ctx s1)(c \<mapsto> x)\<rparr>) = Some (Err EPERM, None, s')"
            and i: "hdr_inv_in X {} s'"
            and s': "s' = s1\<lparr>db_hdr := (if ref then (db_hdr s1)(a \<mapsto> h1\<lparr>h_ref := h_ref h1 - 1\<rparr>) else db_hdr s1),
              ctx_tbl := slot_release bin off (ctx_tbl s1)\<rparr>"
          then show thesis using link 2(2) fr
            by (intro refused [OF _ i]) (simp_all add: s1(5-8) defs fun_upd_idem ctx_frame_def)
        qed (use s1(2) oe spare undo in \<open>auto simp: x_def new_ctx_def\<close>)
      qed
    qed
  qed
qed

section \<open>Adding headers\<close>

text \<open>A header that no context uses but its own, which came with it.\<close>

definition hdr_alone :: "hdr_db \<Rightarrow> hdr_db \<Rightarrow> nat \<Rightarrow> hdr_entry \<Rightarrow> bool" where
  "hdr_alone s s' a h \<longleftrightarrow> hdr_users {} s' a h = {} \<and>
     db_ctx s = (case h_ctx h of None \<Rightarrow> db_ctx s' | Some c \<Rightarrow> (db_ctx s')(c := None))"

lemma no_users_of_fresh:
  assumes inv: "hdr_inv_in X {} s" and a: "db_hdr s a = None"
  shows "db_ctx s c = Some x \<Longrightarrow> c_hdr x \<noteq> Some a"
  using hdr_inv_inD(9) [OF inv, of c x] a by (auto simp: ctx_counts_def)

lemma undo_new_idr:
  "idr_put p t = (i, t') \<Longrightarrow> ipa3_id_find j (ipa3_id_remove i t') = ipa3_id_find j t"
  by (rule idr.alloc_remove_find)

text \<open>A header that fits in the table.\<close>

lemma hdr_link_slot:
  assumes inv: "hdr_inv_in {} {} s" and new: "db_hdr s a = None" "a < db_next s"
    and h: "h_cookie h = IPA_HDR_COOKIE" "h_ref h = 0" "0 < h_len h" "h_len h \<le> 64" "h_len h \<le> length (h_hdr h)"
      "\<not> h_ddr h" "h_ctx h = None" "h_off h = Some off" "h_len h \<le> hdr_bin_sz ! o_bin oe"
    and off: "off \<in> used_slots (hdr_tbl s)" "db_off s off = Some oe" "\<And>b k. db_hdr s b = Some k \<Longrightarrow> h_off k \<noteq> Some off"
  obtains (linked) i t where "idr_put (PHdr a) (db_idr s) = (i, t)"
      "hdr_link e a h user s = Some (OK, Some i, add_hdr_obj a (h\<lparr>h_id := i, h_ref := 1\<rparr>) t s)"
      "hdr_inv_in {} {} (add_hdr_obj a (h\<lparr>h_id := i, h_ref := 1\<rparr>) t s)"
  | (undone) "hdr_link e a h user s = Some (Err EPERM, None, s\<lparr>hdr_tbl := slot_release (o_bin oe) off (hdr_tbl s)\<rparr>)"
      "hdr_inv_in {} {} (s\<lparr>hdr_tbl := slot_release (o_bin oe) off (hdr_tbl s)\<rparr>)"
proof (cases "e_id e a")
  case True
  obtain i t where p: "idr_put (PHdr a) (db_idr s) = (i, t)" by fastforce
  let ?h = "h\<lparr>h_id := i, h_ref := 1\<rparr>"
  have "hdr_link e a h user s = Some (OK, Some i, add_hdr_obj a ?h t s)"
    using True h(2,6) by (simp add: hdr_link_def ipa3_id_alloc_def p add_hdr_obj_def Let_def)
  moreover have "hdr_inv_in {} {} (add_hdr_obj a ?h t s)"
  proof (rule add_hdr_obj_inv [OF inv new])
    show "hdr_shape (add_hdr_obj a ?h t s) a ?h"
      using h off(1,2) idr.find_alloc [OF p] by (simp add: hdr_shape_def add_hdr_obj_def)
    have "hdr_users {} (add_hdr_obj a ?h t s) a ?h = {}"
      using no_users_of_fresh [OF inv new(1)] by (auto simp: hdr_users_def add_hdr_obj_def)
    then show "hdr_counts {} (add_hdr_obj a ?h t s) a ?h" using h(6) by (simp add: hdr_counts_def)
  qed (use p off(3) h(8) in auto)
  ultimately show thesis using linked p by blast
next
  case False
  have "hdr_link e a h user s = Some (Err EPERM, None, s\<lparr>hdr_tbl := slot_release (o_bin oe) off (hdr_tbl s)\<rparr>)"
    using False h(6,8) off(2) new(1)
    by (simp add: hdr_link_def ipa3_id_alloc_def Let_def hdr_undo_def fun_upd_idem)
  moreover have "hdr_inv_in {} {} (s\<lparr>hdr_tbl := slot_release (o_bin oe) off (hdr_tbl s)\<rparr>)"
    using off by (intro slot_untake_hdr [OF inv]) (auto simp: used_slots_def slots_def)
  ultimately show thesis by (rule undone)
qed


text \<open>A header that does not fit gets a context of its own.\<close>

lemma set_own_inv:
  assumes inv: "hdr_inv_in (insert a X) Y s" and h: "db_hdr s a = Some h" "h_ddr h" "h_ref h \<noteq> 0"
    and x: "db_ctx s c = Some x" "c_hdr x = Some a" "c_ref x = 1" "c \<notin> Y"
    and cnt: "card (hdr_users Y s a (h\<lparr>h_ctx := Some c\<rparr>)) \<le> unat (h_ref h)"
  shows "hdr_inv_in X Y (s\<lparr>db_hdr := (db_hdr s)(a \<mapsto> h\<lparr>h_ctx := Some c\<rparr>)\<rparr>)" (is "hdr_inv_in X Y ?s")
proof (rule hdr_inv_inI)
  note d = hdr_inv_inD [OF inv]
  show "idr_inv ?s" using d(1) h by (fastforce simp: idr_inv_def split: hdr_ptr.splits)
  show "lists_inv ?s" using d(2) h by (auto simp: lists_inv_def)
  show "fresh_inv ?s" using d(3) h by (force simp: fresh_inv_def)
  show "slots_inv ?s" using d(4) by (simp add: slots_inv_def)
  show "own_inv ?s" using d(5) h unfolding own_inv_def by (auto split: if_splits)
  show "hdr_shape ?s b k" if "db_hdr ?s b = Some k" for b k
    using that d(6) [of b] d(6) [OF h(1)] h(2) by (auto simp: hdr_shape_def split: if_splits)
  show "hdr_counts Y ?s b k" if "db_hdr ?s b = Some k" "b \<notin> X" for b k
  proof (cases "b = a")
    case True
    moreover have "hdr_users Y ?s a k = hdr_users Y s a k" by (simp add: hdr_users_def)
    ultimately show ?thesis using that h x cnt by (auto simp: hdr_counts_def)
  next
    case False
    then show ?thesis using that d(7) [of b k] by (simp add: hdr_counts_def hdr_users_def)
  qed
  show "ctx_shape ?s b y" if "db_ctx ?s b = Some y" for b y using that d(8) by (auto simp: ctx_shape_def)
  show "ctx_counts ?s y" if "db_ctx ?s b = Some y" "b \<notin> Y" for b y
    using that d(9) by (fastforce simp: ctx_counts_def)
qed

lemma hdr_link_ddr:
  assumes inv: "hdr_inv_in {} {} s" and new: "db_hdr s a = None" "a < db_next s"
    and h: "h_cookie h = IPA_HDR_COOKIE" "h_ref h = 0" "0 < h_len h" "h_len h \<le> 64" "h_len h \<le> length (h_hdr h)"
      "h_ddr h" "h_ctx h = None" "h_off h = None"
  obtains (linked) i c s' where "hdr_link e a h user s = Some (OK, Some i, s')" "hdr_inv_in {} {} s'"
      "db_hdr s' = (db_hdr s)(a \<mapsto> h\<lparr>h_id := i, h_ref := 1, h_ctx := Some c\<rparr>)"
      "ipa3_id_find i (db_idr s') = Some (PHdr a)" "ipa3_id_find i (db_idr s) = None" "hdr_list s' = a # hdr_list s"
      "hdr_alone s s' a (h\<lparr>h_id := i, h_ref := 1, h_ctx := Some c\<rparr>)" "others_kept s s'"
  | (undone) hdl s' where "hdr_link e a h user s = Some (Err EPERM, hdl, s')" "hdr_inv_in {} {} s'"
      "db_hdr s' = db_hdr s" "db_ctx s' = db_ctx s" "hdr_list s' = hdr_list s" "ctx_list s' = ctx_list s"
      "\<And>j. ipa3_id_find j (db_idr s') = ipa3_id_find j (db_idr s)"
proof (cases "e_id e a")
  case False
  let ?s = "s\<lparr>dma_mapped := remove1 a (dma_mapped s)\<rparr>"
  have "hdr_link e a h user s = Some (Err EPERM, None, ?s)"
    using False h(6) new(1) by (simp add: hdr_link_def ipa3_id_alloc_def Let_def hdr_undo_def fun_upd_idem)
  moreover have "hdr_inv_in {} {} ?s" by (rule hdr_inv_frame [OF inv]) simp_all
  ultimately show thesis by (rule undone) simp_all
next
  case True
  obtain i t where p: "idr_put (PHdr a) (db_idr s) = (i, t)" by fastforce
  note fd = idr.find_alloc [OF p] and fr = idr.alloc_fresh [OF p]
  define h1 where "h1 = h\<lparr>h_id := i, h_ref := 1\<rparr>"
  define s2 where "s2 = add_hdr_obj a h1 t s"
  define pa where "pa = \<lparr>pa_type = 0, pa_hdl = i, pa_l2tp = fst (e_stack e), pa_generic = snd (e_stack e)\<rparr>"
  have h1: "db_hdr s2 a = Some h1" by (simp add: s2_def add_hdr_obj_def)
  have inv2: "hdr_inv_in {a} {} s2" unfolding s2_def
  proof (rule add_hdr_obj_inv [OF inv new])
    show "hdr_shape (add_hdr_obj a h1 t s) a h1" using h fd by (simp add: hdr_shape_def add_hdr_obj_def h1_def)
  qed (use p h in \<open>auto simp: h1_def\<close>)
  have ids: "ipa3_id_find i (db_idr s2) = Some (PHdr a)" using fd by (simp add: s2_def add_hdr_obj_def)
  have eq: "hdr_link e a h user s = do {
      (r, ch, s3) \<leftarrow> add_hdr_proc_ctx e pa False user s2;
      if r \<noteq> OK then do {
        s4 \<leftarrow> hdr_undo a h1 (s3\<lparr>db_idr := ipa3_id_remove i (db_idr s3)\<rparr>);
        Some (Err EPERM, Some 0, s4) }
      else (case ch of None \<Rightarrow> None
        | Some j \<Rightarrow> (case ipa3_id_find j (db_idr s3) of
               Some (PCtx c) \<Rightarrow> Some (OK, Some i, s3\<lparr>db_hdr := (db_hdr s3)(a \<mapsto> h1\<lparr>h_ctx := Some c\<rparr>)\<rparr>)
             | _ \<Rightarrow> None)) }"
    using True h(2,6) p unfolding h1_def s2_def pa_def add_hdr_obj_def
    by (cases s) (simp add: hdr_link_def ipa3_id_alloc_def Let_def)
  show thesis
  proof (rule add_ctx_ok [OF inv2, of pa False e user])
    show "\<And>b k. ipa3_id_find (pa_hdl pa) (db_idr s2) = Some (PHdr b) \<Longrightarrow> db_hdr s2 b = Some k \<Longrightarrow>
      if False then b \<notin> {a} \<and> h_ref k \<noteq> - 1 else b \<in> {a}" using ids by (simp add: pa_def)
  next
    fix err s3 assume r: "add_hdr_proc_ctx e pa False user s2 = Some (Err err, None, s3)" and i3: "hdr_inv_in {a} {} s3"
      and same: "db_hdr s3 = db_hdr s2" "db_ctx s3 = db_ctx s2" "db_idr s3 = db_idr s2" "ctx_list s3 = ctx_list s2" "ctx_frame s2 s3"
    let ?s = "(rm_hdr a h1 s3)\<lparr>dma_mapped := remove1 a (dma_mapped s3)\<rparr>"
    have off: "h_off h1 = None" "h_ddr h1" "h_id h1 = i" using h by (simp_all add: h1_def)
    have "hdr_undo a h1 (s3\<lparr>db_idr := ipa3_id_remove i (db_idr s3)\<rparr>) = Some ?s"
      using off by (cases s3) (simp add: hdr_undo_def rm_hdr_def rm_slot_def)
    then have "hdr_link e a h user s = Some (Err EPERM, Some 0, ?s)" unfolding eq r by simp
    moreover have "hdr_inv_in {} {} (rm_hdr a h1 s3)"
      using h1 same no_users_of_fresh [OF inv new(1)]
      by (intro rm_hdr_inv [OF i3]) (auto simp: s2_def add_hdr_obj_def)
    then have "hdr_inv_in {} {} ?s" by (rule hdr_inv_frame) simp_all
    moreover have "db_hdr ?s = db_hdr s" using new(1) by (simp add: rm_hdr_def same s2_def add_hdr_obj_def fun_upd_idem)
    moreover have "hdr_list ?s = hdr_list s" using same(5) by (simp add: rm_hdr_def ctx_frame_def s2_def add_hdr_obj_def)
    ultimately show thesis
      by (intro undone [of "Some 0" ?s]) (simp_all add: rm_hdr_def same s2_def add_hdr_obj_def off undo_new_idr [OF p])
  next
    fix b k c x j s3
    assume r: "add_hdr_proc_ctx e pa False user s2 = Some (OK, Some j, s3)" and i3: "hdr_inv_in {a} {} s3"
      and f: "ipa3_id_find (pa_hdl pa) (db_idr s2) = Some (PHdr b)" "db_hdr s2 b = Some k" "db_ctx s2 c = None"
        "db_ctx s3 = (db_ctx s2)(c \<mapsto> x)" "c_hdr x = Some b" "c_ref x = 1" "c_id x = j"
        "ipa3_id_find j (db_idr s3) = Some (PCtx c)" "ipa3_id_find j (db_idr s2) = None"
        "\<And>m. m \<noteq> j \<Longrightarrow> ipa3_id_find m (db_idr s3) = ipa3_id_find m (db_idr s2)"
        "db_hdr s3 = (if False then (db_hdr s2)(b \<mapsto> k\<lparr>h_ref := h_ref k + 1\<rparr>) else db_hdr s2)" "ctx_frame s2 s3"
    let ?s = "s3\<lparr>db_hdr := (db_hdr s3)(a \<mapsto> h1\<lparr>h_ctx := Some c\<rparr>)\<rparr>"
    have b: "b = a" using f(1) ids by (simp add: pa_def)
    have "hdr_link e a h user s = Some (OK, Some i, ?s)" unfolding eq r using f(8) by simp
    moreover have "hdr_users {} s3 a (h1\<lparr>h_ctx := Some c\<rparr>) = {}"
      using no_users_of_fresh [OF inv new(1)] by (auto simp: hdr_users_def f(4) s2_def add_hdr_obj_def split: if_splits)
    then have "hdr_inv_in {} {} ?s"
      using h1 f(11) h(6) f(4-6) b by (intro set_own_inv [OF i3]) (auto simp: h1_def)
    moreover have "db_hdr ?s = (db_hdr s)(a \<mapsto> h\<lparr>h_id := i, h_ref := 1, h_ctx := Some c\<rparr>)"
      by (simp add: f(11) s2_def add_hdr_obj_def h1_def)
    moreover have "i \<noteq> j" using f(9) ids by auto
    then have "ipa3_id_find i (db_idr ?s) = Some (PHdr a)" using f(10) ids by simp
    moreover have "hdr_list ?s = a # hdr_list s" using f(12) by (simp add: ctx_frame_def s2_def add_hdr_obj_def)
    moreover have "hdr_alone s ?s a (h\<lparr>h_id := i, h_ref := 1, h_ctx := Some c\<rparr>)"
      using no_users_of_fresh [OF inv new(1)] f(3)
      by (auto simp: hdr_alone_def hdr_users_def f(4) s2_def add_hdr_obj_def fun_upd_idem split: if_splits)
    moreover have "others_kept s ?s" unfolding others_kept_def
    proof (intro allI)
      fix m q b
      show "ipa3_id_find m (db_idr ?s) = Some (POther q b) \<longleftrightarrow> ipa3_id_find m (db_idr s) = Some (POther q b)"
        using f(8,9) f(10) [of m] fd [of m] fr by (cases "m = j"; cases "m = i") (auto simp: s2_def add_hdr_obj_def)
    qed
    ultimately show thesis using fr by (intro linked [of i ?s c]) auto
  qed
qed


text \<open>A slot for a new header.\<close>

definition hdr_slot_state :: "hdr_env \<Rightarrow> nat \<Rightarrow> bool \<Rightarrow> hdr_db \<Rightarrow> (nat \<times> hdr_db) option" where
  "hdr_slot_state e bin user s =
     (case ot_free (hdr_tbl s) bin of
        [] \<Rightarrow> if \<not> e_alloc e (db_next s) then None
              else Some (db_next s, s\<lparr>db_next := db_next s + 1,
                     db_off := (db_off s)(db_next s \<mapsto> \<lparr>o_offset = ot_end (hdr_tbl s), o_bin = bin, o_ipacm = user\<rparr>),
                     hdr_tbl := slot_grow (db_next s) bin (hdr_bin_sz ! bin) (hdr_tbl s)\<rparr>)
      | off # fs \<Rightarrow> (case db_off s off of None \<Rightarrow> None | Some oe \<Rightarrow>
          Some (off, s\<lparr>db_off := (db_off s)(off \<mapsto> oe\<lparr>o_ipacm := user\<rparr>), hdr_tbl := slot_take bin (hdr_tbl s)\<rparr>)))"

lemma hdr_slot_ok:
  assumes inv: "hdr_inv_in X Y s" and b: "bin < 5" and st: "hdr_slot_state e bin user s = Some (off, s')"
  shows "hdr_inv_in X Y s'" "off \<in> used_slots (hdr_tbl s')" "\<exists>oe. db_off s' off = Some oe \<and> o_bin oe = bin"
    "\<And>a h. db_hdr s a = Some h \<Longrightarrow> h_off h \<noteq> Some off" "db_hdr s' = db_hdr s" "db_ctx s' = db_ctx s"
    "db_idr s' = db_idr s" "hdr_list s' = hdr_list s" "ctx_list s' = ctx_list s" "db_next s \<le> db_next s'"
proof -
  note d = hdr_inv_inD [OF inv]
  have tb: "tbl_inv (db_off s) hdr_bin_sz (hdr_tbl s)" using d(4) by (simp_all add: slots_inv_def)
  have owned: "h_off h \<noteq> Some off" if "db_hdr s a = Some h" "off \<notin> used_slots (hdr_tbl s)" for a h off
    using d(6) [OF that(1)] that(2) by (auto simp: hdr_shape_def split: if_splits)
  have "hdr_inv_in X Y s' \<and> off \<in> used_slots (hdr_tbl s') \<and> (\<exists>oe. db_off s' off = Some oe \<and> o_bin oe = bin) \<and>
    (\<forall>a h. db_hdr s a = Some h \<longrightarrow> h_off h \<noteq> Some off) \<and> db_hdr s' = db_hdr s \<and> db_ctx s' = db_ctx s \<and>
    db_idr s' = db_idr s \<and> hdr_list s' = hdr_list s \<and> ctx_list s' = ctx_list s \<and> db_next s \<le> db_next s'"
  proof (cases "ot_free (hdr_tbl s) bin")
    case Nil
    let ?oe = "\<lparr>o_offset = ot_end (hdr_tbl s), o_bin = bin, o_ipacm = user\<rparr>"
    have st': "off = db_next s" "s' = s\<lparr>db_next := db_next s + 1, db_off := (db_off s)(db_next s \<mapsto> ?oe),
        hdr_tbl := slot_grow (db_next s) bin (hdr_bin_sz ! bin) (hdr_tbl s)\<rparr>"
      using st Nil by (auto simp: hdr_slot_state_def split: if_splits)
    have fr: "db_next s \<notin> slots (hdr_tbl s)" using slots_fresh [OF inv order_refl] by auto
    then have "off \<notin> used_slots (hdr_tbl s)" by (auto simp: st' used_slots_def slots_def)
    then show ?thesis using slot_grow_hdr [OF inv b, of ?oe] owned by (auto simp: st')
  next
    case (Cons o' fs)
    then have mem: "o' \<in> set (ot_free (hdr_tbl s) bin)" by simp
    from tbl_invD(4) [OF tb] mem obtain oe where oe: "db_off s o' = Some oe" "o_bin oe = bin" by (auto simp: slot_ok_def)
    have st': "off = o'" "s' = s\<lparr>db_off := (db_off s)(o' \<mapsto> oe\<lparr>o_ipacm := user\<rparr>), hdr_tbl := slot_take bin (hdr_tbl s)\<rparr>"
      using st Cons oe by (auto simp: hdr_slot_state_def)
    have "off \<notin> used_slots (hdr_tbl s)" using free_not_used [OF tb mem] by (simp add: st')
    then show ?thesis using slot_take_hdr [OF inv Cons oe(1), of user] owned slot_take_sets [OF Cons] oe(2) by (auto simp: st')
  qed
  then show "hdr_inv_in X Y s'" "off \<in> used_slots (hdr_tbl s')" "\<exists>oe. db_off s' off = Some oe \<and> o_bin oe = bin"
    "\<And>a h. db_hdr s a = Some h \<Longrightarrow> h_off h \<noteq> Some off" "db_hdr s' = db_hdr s" "db_ctx s' = db_ctx s"
    "db_idr s' = db_idr s" "hdr_list s' = hdr_list s" "ctx_list s' = ctx_list s" "db_next s \<le> db_next s'" by auto
qed

lemma hdr_bin_fits: "hdr_bin l = Some b \<Longrightarrow> b < 5 \<and> l \<le> hdr_bin_sz ! b \<and> l \<le> 64"
  by (auto simp: hdr_bin_def hdr_consts split: if_splits)

lemma add_hdr_eq:
  assumes inv: "hdr_inv_in X Y s" and par: "0 < a_len ha" "a_len ha \<le> e_hdr_max e" "0 \<le> a_type ha" "a_type ha < e_l2_max e"
    and alloc: "e_alloc e (db_next s)" and bin: "hdr_bin (a_len ha) = Some bin"
  shows "add_hdr e ha user s =
    (let a = db_next s; h = new_hdr e ha user; s1 = s\<lparr>db_next := Suc a\<rparr> in
     if ot_free (hdr_tbl s) bin = [] \<and> ot_end (hdr_tbl s) + hdr_bin_sz ! bin > hdr_mem_size e
     then if \<not> e_map e a then Some (Err EPERM, None, s1)
          else hdr_link e a (h\<lparr>h_ddr := True, h_phys := e_phys e a\<rparr>) user (s1\<lparr>dma_mapped := a # dma_mapped s\<rparr>)
     else case hdr_slot_state e bin user s1 of None \<Rightarrow> Some (Err EPERM, None, s1)
          | Some (off, s2) \<Rightarrow> hdr_link e a (h\<lparr>h_off := Some off\<rparr>) user s2)"
proof (cases "ot_free (hdr_tbl s) bin")
  case Nil
  then show ?thesis using par alloc bin by (simp add: add_hdr_def Let_def hdr_slot_state_def)
next
  case (Cons off fs)
  then obtain oe where "db_off s off = Some oe"
    using hdr_inv_inD(4) [OF inv] tbl_invD(4) [of "db_off s" hdr_bin_sz "hdr_tbl s" off bin] by (auto simp: slots_inv_def)
  then show ?thesis using par alloc bin Cons by (simp add: add_hdr_def Let_def hdr_slot_state_def)
qed

text \<open>A new entry holds what the caller gave.\<close>

definition hdr_holds :: "hdr_env \<Rightarrow> hdr_add \<Rightarrow> bool \<Rightarrow> hdr_entry \<Rightarrow> bool" where
  "hdr_holds e ha user h \<longleftrightarrow> (let k = new_hdr e ha user in
     h_hdr h = h_hdr k \<and> h_len h = h_len k \<and> h_name h = h_name k \<and> h_type h = h_type k \<and> h_partial h = h_partial k \<and>
     h_eth2_valid h = h_eth2_valid k \<and> h_eth2_ofst h = h_eth2_ofst k \<and> \<not> h_user_deleted h \<and> h_ipacm h = user \<and> h_ref h = 1)"

lemma add_hdr_ok:
  assumes inv: "hdr_inv s" and len: "a_len ha \<le> length (a_hdr ha)"
  obtains (refused) hdl s' where "add_hdr e ha user s = Some (Err EPERM, hdl, s')" "hdr_inv s'"
      "db_hdr s' = db_hdr s" "db_ctx s' = db_ctx s" "hdr_list s' = hdr_list s" "ctx_list s' = ctx_list s"
      "\<And>j. ipa3_id_find j (db_idr s') = ipa3_id_find j (db_idr s)"
  | (added) a h i s' where "add_hdr e ha user s = Some (OK, Some i, s')" "hdr_inv s'" "db_hdr s a = None"
      "db_hdr s' = (db_hdr s)(a \<mapsto> h)" "hdr_holds e ha user h" "h_id h = i"
      "ipa3_id_find i (db_idr s') = Some (PHdr a)" "ipa3_id_find i (db_idr s) = None" "hdr_list s' = a # hdr_list s"
      "hdr_alone s s' a h" "others_kept s s'"
proof (cases "0 < a_len ha \<and> a_len ha \<le> e_hdr_max e \<and> 0 \<le> a_type ha \<and> a_type ha < e_l2_max e \<and> e_alloc e (db_next s)")
  case False
  then have "add_hdr e ha user s = Some (Err EPERM, None, s)" by (auto simp: add_hdr_def)
  then show thesis using refused inv by blast
next
  case par: True
  define a where "a = db_next s"
  define k where "k = new_hdr e ha user"
  define s1 where "s1 = s\<lparr>db_next := Suc a\<rparr>"
  have i0: "hdr_inv_in {} {} s" using inv by (simp add: hdr_inv_def)
  have i1: "hdr_inv_in {} {} s1" by (rule hdr_inv_frame [OF i0]) (simp_all add: s1_def a_def)
  have same: "db_hdr s1 = db_hdr s" "db_ctx s1 = db_ctx s" "hdr_list s1 = hdr_list s" "ctx_list s1 = ctx_list s" "db_idr s1 = db_idr s"
    by (simp_all add: s1_def)
  have new: "db_hdr s a = None" "a < db_next s1" using hdr_inv_inD(3) [OF i0] by (simp_all add: fresh_inv_def a_def s1_def)
  have k: "h_cookie k = IPA_HDR_COOKIE" "h_ref k = 0" "0 < h_len k" "h_len k = a_len ha" "h_len k \<le> length (h_hdr k)" "\<not> h_ddr k"
      "h_ctx k = None" "h_off k = None"
    using par len by (auto simp: k_def new_hdr_def)
  have lost: thesis if "add_hdr e ha user s = Some (Err EPERM, None, s1)" using refused [OF that] i1 same by (simp add: hdr_inv_def)
  show thesis
  proof (cases "hdr_bin (a_len ha)")
    case None
    then show thesis using par by (intro lost) (simp add: add_hdr_def s1_def a_def)
  next
    case (Some bin)
    note fits = hdr_bin_fits [OF Some]
    have eq: "add_hdr e ha user s = (if ot_free (hdr_tbl s) bin = [] \<and> ot_end (hdr_tbl s) + hdr_bin_sz ! bin > hdr_mem_size e
       then if \<not> e_map e a then Some (Err EPERM, None, s1)
            else hdr_link e a (k\<lparr>h_ddr := True, h_phys := e_phys e a\<rparr>) user (s1\<lparr>dma_mapped := a # dma_mapped s\<rparr>)
       else case hdr_slot_state e bin user s1 of None \<Rightarrow> Some (Err EPERM, None, s1)
            | Some (off, s2) \<Rightarrow> hdr_link e a (k\<lparr>h_off := Some off\<rparr>) user s2)"
      unfolding k_def s1_def a_def using par Some by (subst add_hdr_eq [OF i0, where bin = bin]) (simp_all add: Let_def)
    consider (ddr) "ot_free (hdr_tbl s) bin = [] \<and> ot_end (hdr_tbl s) + hdr_bin_sz ! bin > hdr_mem_size e" "e_map e a"
      | (none) "add_hdr e ha user s = Some (Err EPERM, None, s1)"
      | (slot) off s2 where "hdr_slot_state e bin user s1 = Some (off, s2)"
          "add_hdr e ha user s = hdr_link e a (k\<lparr>h_off := Some off\<rparr>) user s2"
      using eq by (auto split: if_splits option.splits)
    then show thesis
    proof cases
      case none
      then show thesis by (rule lost)
    next
      case ddr
      let ?s = "s1\<lparr>dma_mapped := a # dma_mapped s\<rparr>" and ?k = "k\<lparr>h_ddr := True, h_phys := e_phys e a\<rparr>"
      have i2: "hdr_inv_in {} {} ?s" by (rule hdr_inv_frame [OF i1]) simp_all
      have add: "add_hdr e ha user s = hdr_link e a ?k user ?s" using ddr eq by simp
      show thesis
      proof (rule hdr_link_ddr [OF i2, of a ?k e user])
        fix i c s' assume r: "hdr_link e a ?k user ?s = Some (OK, Some i, s')" "hdr_inv_in {} {} s'"
          "db_hdr s' = (db_hdr ?s)(a \<mapsto> ?k\<lparr>h_id := i, h_ref := 1, h_ctx := Some c\<rparr>)"
          "ipa3_id_find i (db_idr s') = Some (PHdr a)" "ipa3_id_find i (db_idr ?s) = None" "hdr_list s' = a # hdr_list ?s"
          "hdr_alone ?s s' a (?k\<lparr>h_id := i, h_ref := 1, h_ctx := Some c\<rparr>)" "others_kept ?s s'"
        have "hdr_holds e ha user (?k\<lparr>h_id := i, h_ref := 1, h_ctx := Some c\<rparr>)"
          by (simp add: hdr_holds_def k_def Let_def new_hdr_def)
        then show thesis using r same new(1) add
          by (intro added [of i s' a "?k\<lparr>h_id := i, h_ref := 1, h_ctx := Some c\<rparr>"]) (simp_all add: hdr_inv_def hdr_alone_def others_kept_def)
      next
        fix hdl s' assume r: "hdr_link e a ?k user ?s = Some (Err EPERM, hdl, s')" "hdr_inv_in {} {} s'"
          "db_hdr s' = db_hdr ?s" "db_ctx s' = db_ctx ?s" "hdr_list s' = hdr_list ?s" "ctx_list s' = ctx_list ?s"
          "\<And>j. ipa3_id_find j (db_idr s') = ipa3_id_find j (db_idr ?s)"
        then show thesis using same add by (intro refused [of hdl s']) (simp_all add: hdr_inv_def)
      qed (use k new fits same in auto)
    next
      case slot
      let ?k = "k\<lparr>h_off := Some off\<rparr>"
      note s2 = hdr_slot_ok [OF i1 _ slot(1)]
      note s2 = s2 [OF conjunct1 [OF fits]]
      obtain oe where oe: "db_off s2 off = Some oe" "o_bin oe = bin" using s2(3) by blast
      show thesis
      proof (rule hdr_link_slot [OF s2(1), of a ?k off oe e user])
        fix i t assume p: "idr_put (PHdr a) (db_idr s2) = (i, t)"
          and l: "hdr_link e a ?k user s2 = Some (OK, Some i, add_hdr_obj a (?k\<lparr>h_id := i, h_ref := 1\<rparr>) t s2)"
            "hdr_inv_in {} {} (add_hdr_obj a (?k\<lparr>h_id := i, h_ref := 1\<rparr>) t s2)"
        have "hdr_holds e ha user (?k\<lparr>h_id := i, h_ref := 1\<rparr>)" by (simp add: hdr_holds_def k_def Let_def new_hdr_def)
        moreover have "hdr_alone s (add_hdr_obj a (?k\<lparr>h_id := i, h_ref := 1\<rparr>) t s2) a (?k\<lparr>h_id := i, h_ref := 1\<rparr>)"
          using no_users_of_fresh [OF s2(1), of a] s2 same new(1) k(7)
          by (auto simp: hdr_alone_def hdr_users_def add_hdr_obj_def)
        ultimately show thesis using l slot(2) s2 same new(1) idr.find_alloc [OF p] idr.alloc_fresh [OF p]
          by (intro added [of i "add_hdr_obj a (?k\<lparr>h_id := i, h_ref := 1\<rparr>) t s2" a "?k\<lparr>h_id := i, h_ref := 1\<rparr>"]) (simp_all add: hdr_inv_def add_hdr_obj_def others_kept_def)
      next
        assume "hdr_link e a ?k user s2 = Some (Err EPERM, None, s2\<lparr>hdr_tbl := slot_release (o_bin oe) off (hdr_tbl s2)\<rparr>)"
          "hdr_inv_in {} {} (s2\<lparr>hdr_tbl := slot_release (o_bin oe) off (hdr_tbl s2)\<rparr>)"
        then show thesis using slot(2) s2 same by (intro refused [of None "s2\<lparr>hdr_tbl := slot_release (o_bin oe) off (hdr_tbl s2)\<rparr>"]) (simp_all add: hdr_inv_def)
      qed (use k new fits same oe s2 in \<open>auto intro: less_le_trans\<close>)
    qed
  qed
qed

section \<open>Deleting\<close>

lemma handle_of:
  assumes inv: "hdr_inv_in X Y s"
  shows "db_hdr s a = Some h \<Longrightarrow> hdr_by_handle (h_id h) s = Some (Some a)"
    "db_ctx s c = Some x \<Longrightarrow> ctx_by_handle (c_id x) s = Some (Some c)"
  using hdr_inv_inD(6) [OF inv, of a h] hdr_inv_inD(8) [OF inv, of c x]
  by (auto simp: hdr_by_handle_def ctx_by_handle_def cookie_of_def hdr_shape_def ctx_shape_def)

lemma one_left: "(w :: u32) - 1 = 0 \<longleftrightarrow> w = 1"
  by simp

lemma own_ctx_of:
  assumes "hdr_inv_in X Y s" "db_hdr s b = Some k" "b \<notin> X" "h_ctx k = Some c" "db_ctx s c = Some x"
  shows "c_hdr x = Some b"
  using hdr_inv_inD(6,7) [OF assms(1,2)] assms(3-5) by (auto simp: hdr_shape_def hdr_counts_def split: if_splits)

text \<open>The last reference of a context, when nothing is done with its header.\<close>

lemma del_ctx_last:
  assumes inv: "hdr_inv_in X Y s" and x: "db_ctx s c = Some x" "c \<notin> Y" "c_ref x = 1" "\<not> (by_user \<and> c_user_deleted x)"
    and own: "\<And>b k. db_hdr s b = Some k \<Longrightarrow> b \<notin> X \<Longrightarrow> h_ctx k \<noteq> Some c"
  obtains s' where "del_ctx_with (\<lambda>h s. Some s) (c_id x) by_user s = Some (OK, s')" "hdr_inv_in X Y s'"
    "db_ctx s' = (db_ctx s)(c := None)" "db_hdr s' = db_hdr s" "db_off s' = db_off s" "hdr_tbl s' = hdr_tbl s"
    "hdr_list s' = hdr_list s" "dma_mapped s' = dma_mapped s"
    "\<And>j. ipa3_id_find j (db_idr s') = (if j = c_id x then None else ipa3_id_find j (db_idr s))"
proof -
  define x0 where "x0 = x\<lparr>c_user_deleted := c_user_deleted x \<or> by_user, c_ref := 0\<rparr>"
  define s1 where "s1 = s\<lparr>db_ctx := (db_ctx s)(c \<mapsto> x0)\<rparr>"
  obtain off oe where oe: "c_off x = Some off" "db_off s off = Some oe" using hdr_inv_inD(8) [OF inv x(1)] by (auto simp: ctx_shape_def)
  have i1: "hdr_inv_in X (insert c Y) s1" unfolding s1_def
    by (rule upd_ctx_inv [OF inv x(1)]) (use own in \<open>auto simp: x0_def\<close>)
  have "hdr_inv_in X Y (rm_ctx c x0 off oe s1)"
    by (rule rm_ctx_inv [OF i1]) (use own oe in \<open>auto simp: s1_def x0_def\<close>)
  moreover have "del_ctx_with (\<lambda>h s. Some s) (c_id x) by_user s = Some (OK, rm_ctx c x0 off oe s1)"
    using x(1,3,4) oe by (simp add: del_ctx_with_def handle_of(2) [OF inv x(1)] Let_def rm_ctx_def s1_def x0_def)
  ultimately show thesis using that by (simp add: rm_ctx_def s1_def x0_def id_find_remove)
qed

lemma hdr_drop_ok:
  assumes inv: "hdr_inv_in {} Y s" and h: "db_hdr s a = Some h" and spare: "card (hdr_users Y s a h) < unat (h_ref h)"
  obtains (kept) s' where "hdr_drop (h_id h) a (h\<lparr>h_user_deleted := u\<rparr>) s = Some (OK, s')" "hdr_inv_in {} Y s'" "h_ref h \<noteq> 1"
      "s' = s\<lparr>db_hdr := (db_hdr s)(a \<mapsto> h\<lparr>h_user_deleted := u, h_ref := h_ref h - 1\<rparr>)\<rparr>"
  | (gone) s' where "hdr_drop (h_id h) a (h\<lparr>h_user_deleted := u\<rparr>) s = Some (OK, s')" "hdr_inv_in {} Y s'" "h_ref h = 1"
      "db_hdr s' = (db_hdr s)(a := None)" "db_off s' = db_off s"
      "db_ctx s' = (case h_ctx h of None \<Rightarrow> db_ctx s | Some c \<Rightarrow> (db_ctx s)(c := None))" "\<And>c. c \<in> Y \<Longrightarrow> h_ctx h \<noteq> Some c"
      "ipa3_id_find (h_id h) (db_idr s') = None" "others_kept s s'"
proof -
  define h1 where "h1 = h\<lparr>h_user_deleted := u, h_ref := h_ref h - 1\<rparr>"
  define s1 where "s1 = s\<lparr>db_hdr := (db_hdr s)(a \<mapsto> h1)\<rparr>"
  note d = hdr_inv_inD [OF inv]
  have cn: "hdr_counts Y s a h" by (rule d(7) [OF h]) simp
  then have ref: "h_ref h \<noteq> 0" by (simp add: hdr_counts_def)
  have idh: "ipa3_id_find (h_id h) (db_idr s) = Some (PHdr a)" using d(6) [OF h] by (simp add: hdr_shape_def)
  show thesis
  proof (cases "h_ref h = 1")
    case False
    have "hdr_users Y s a h1 = hdr_users Y s a h" by (simp add: hdr_users_def h1_def)
    then have "hdr_counts Y s a h1" using False cn spare unat_minus_one [OF ref] by (auto simp: hdr_counts_def h1_def)
    then have "hdr_inv_in {} Y s1" unfolding s1_def by (intro upd_hdr_inv [OF inv h]) (auto simp: h1_def)
    moreover have "hdr_drop (h_id h) a (h\<lparr>h_user_deleted := u\<rparr>) s = Some (OK, s1)"
      using False by (simp add: hdr_drop_def Let_def one_left s1_def h1_def)
    ultimately show thesis using False kept by (simp add: s1_def h1_def)
  next
    case True
    then have none: "hdr_users Y s a h = {}" using spare hdr_users_finite [OF inv] by simp
    have i1: "hdr_inv_in {a} Y s1" unfolding s1_def by (rule upd_hdr_inv [OF inv h]) (auto simp: h1_def)
    have h1: "db_hdr s1 a = Some h1" "h_id h1 = h_id h" by (simp_all add: s1_def h1_def)
    show thesis
    proof (cases "h_ddr h")
      case False
      then obtain off oe where oe: "h_off h = Some off" "db_off s off = Some oe" "h_ctx h = None"
        using d(6) [OF h] by (auto simp: hdr_shape_def)
      have "hdr_inv_in {} Y (rm_hdr a h1 s1)"
        by (rule rm_hdr_inv [OF i1 h1(1)]) (use none oe(3) in \<open>auto simp: hdr_users_def s1_def\<close>)
      moreover have "hdr_drop (h_id h) a (h\<lparr>h_user_deleted := u\<rparr>) s = Some (OK, rm_hdr a h1 s1)"
        using True False oe by (simp add: hdr_drop_def Let_def rm_hdr_def rm_slot_def s1_def h1_def)
      ultimately show thesis using True oe(3) by (intro gone [of "rm_hdr a h1 s1"]) (simp_all add: rm_hdr_def s1_def h1 id_find_remove others_kept_def idh)
    next
      case ddr: True
      then obtain c x where x: "h_ctx h = Some c" "c \<notin> Y" "db_ctx s c = Some x" "c_hdr x = Some a" "c_ref x = 1"
        using cn by (auto simp: hdr_counts_def)
      define s2 where "s2 = s1\<lparr>dma_mapped := remove1 a (dma_mapped s1)\<rparr>"
      have i2: "hdr_inv_in {a} Y s2" by (rule hdr_inv_frame [OF i1]) (simp_all add: s2_def)
      have own: "h_ctx k \<noteq> Some c" if "db_hdr s2 b = Some k" "b \<notin> {a}" for b k
        using own_ctx_of [OF i2 that] x(3,4) that(2) by (auto simp: s2_def s1_def)
      have x2: "db_ctx s2 c = Some x" using x(3) by (simp add: s2_def s1_def)
      show thesis
      proof (rule del_ctx_last [OF i2 x2 x(2,5) _ own, of False])
        fix s3 assume r: "del_ctx_with (\<lambda>h s. Some s) (c_id x) False s2 = Some (OK, s3)" and i3: "hdr_inv_in {a} Y s3"
          and f: "db_ctx s3 = (db_ctx s2)(c := None)" "db_hdr s3 = db_hdr s2" "db_off s3 = db_off s2"
            "hdr_list s3 = hdr_list s2" "\<And>j. ipa3_id_find j (db_idr s3) = (if j = c_id x then None else ipa3_id_find j (db_idr s2))"
        have "hdr_inv_in {} Y (rm_hdr a h1 s3)"
          by (rule rm_hdr_inv [OF i3]) (use none x(1) h1 f in \<open>auto simp: hdr_users_def s2_def s1_def split: if_splits\<close>)
        moreover have "h_off h1 = None" using d(6) [OF h] ddr by (simp add: hdr_shape_def h1_def)
        then have "hdr_drop (h_id h) a (h\<lparr>h_user_deleted := u\<rparr>) s = Some (OK, rm_hdr a h1 s3)"
          using True ddr x(1,3) r by (cases s3) (simp add: hdr_drop_def Let_def rm_hdr_def rm_slot_def s1_def s2_def h1_def)
        ultimately show thesis using True f x(1,2)
          using hdr_inv_inD(8) [OF inv x(3)]
          by (intro gone [of "rm_hdr a h1 s3"]) (auto simp: rm_hdr_def s2_def s1_def h1 id_find_remove others_kept_def idh ctx_shape_def)
      qed simp_all
    qed
  qed
qed


text \<open>
  A caller may give up a reference of its own only: one that no context relies on. A user must
  not name a header that is not in the table like the default header.
\<close>

definition may_del_hdr :: "nat set \<Rightarrow> nat \<Rightarrow> bool \<Rightarrow> hdr_db \<Rightarrow> bool" where
  "may_del_hdr Y hdl by_user s \<longleftrightarrow> (\<forall>a h. ipa3_id_find hdl (db_idr s) = Some (PHdr a) \<longrightarrow> db_hdr s a = Some h \<longrightarrow>
     by_user \<and> h_user_deleted h \<or>
     card (hdr_users Y s a h) < unat (h_ref h) \<and> \<not> (by_user \<and> h_name h = IPA_LAN_RX_HDR_NAME \<and> h_ddr h))"

definition hdr_dropped :: "hdr_db \<Rightarrow> nat \<Rightarrow> hdr_entry \<Rightarrow> bool \<Rightarrow> hdr_db \<Rightarrow> bool" where
  "hdr_dropped s a h by_user s' \<longleftrightarrow>
     (if h_ref h = 1
      then db_hdr s' = (db_hdr s)(a := None) \<and> db_off s' = db_off s \<and> ipa3_id_find (h_id h) (db_idr s') = None \<and>
        db_ctx s' = (case h_ctx h of None \<Rightarrow> db_ctx s | Some c \<Rightarrow> (db_ctx s)(c := None)) \<and> others_kept s s'
      else s' = s\<lparr>db_hdr := (db_hdr s)(a \<mapsto> h\<lparr>h_user_deleted := h_user_deleted h \<or> by_user, h_ref := h_ref h - 1\<rparr>)\<rparr>)"

lemma del_hdr_ok:
  assumes inv: "hdr_inv_in {} Y s" and may: "may_del_hdr Y hdl by_user s"
  obtains (refused) err where "del_hdr hdl by_user s = Some (Err err, s)"
  | (dropped) a h s' where "del_hdr hdl by_user s = Some (OK, s')" "hdr_inv_in {} Y s'" "db_hdr s a = Some h" "h_id h = hdl"
      "ipa3_id_find hdl (db_idr s) = Some (PHdr a)" "\<not> (by_user \<and> h_user_deleted h)" "hdr_dropped s a h by_user s'"
      "h_ref h = 1 \<Longrightarrow> \<forall>c \<in> Y. h_ctx h \<noteq> Some c"
proof -
  consider "hdr_by_handle hdl s = Some None"
    | a h where "hdr_by_handle hdl s = Some (Some a)" "db_hdr s a = Some h" "h_id h = hdl" "ipa3_id_find hdl (db_idr s) = Some (PHdr a)"
    using handle_cases [OF inv, of hdl] by metis
  then show thesis
  proof cases
    case 1
    then show thesis by (intro refused [of EINVAL]) (simp add: del_hdr_def)
  next
    case 2
    have live: "h_ddr h \<or> (\<exists>off oe. h_off h = Some off \<and> db_off s off = Some oe)"
      using hdr_inv_inD(6) [OF inv 2(2)] by (auto simp: hdr_shape_def split: if_splits)
    show thesis
    proof (cases "by_user \<and> h_user_deleted h")
      case True
      then show thesis using 2 live by (intro refused [of EINVAL]) (auto simp: del_hdr_def)
    next
      case False
      then have ok: "card (hdr_users Y s a h) < unat (h_ref h)" "by_user \<Longrightarrow> h_name h = IPA_LAN_RX_HDR_NAME \<Longrightarrow> \<not> h_ddr h"
        using may 2(2,4) unfolding may_del_hdr_def by blast+
      let ?u = "h_user_deleted h \<or> by_user"
      have "(\<exists>err. del_hdr hdl by_user s = Some (Err err, s)) \<or>
        del_hdr hdl by_user s = hdr_drop (h_id h) a (h\<lparr>h_user_deleted := ?u\<rparr>) s"
        using 2 live False ok(2) by (auto simp: del_hdr_def)
      then consider (err) err where "del_hdr hdl by_user s = Some (Err err, s)"
        | (drop) "del_hdr hdl by_user s = hdr_drop (h_id h) a (h\<lparr>h_user_deleted := ?u\<rparr>) s" by blast
      then show thesis
      proof cases
        case drop
        show thesis
          by (rule hdr_drop_ok [OF inv 2(2) ok(1), of ?u]; rule dropped [OF _ _ 2(2,3,4) False])
             (use drop in \<open>auto simp: hdr_dropped_def\<close>)
      qed (rule refused)
    qed
  qed
qed

text \<open>The own context of a header is deleted with the header only.\<close>

definition may_del_ctx :: "nat \<Rightarrow> hdr_db \<Rightarrow> bool" where
  "may_del_ctx hdl s \<longleftrightarrow> (\<forall>c. ipa3_id_find hdl (db_idr s) = Some (PCtx c) \<longrightarrow>
     (\<forall>a h. db_hdr s a = Some h \<longrightarrow> h_ctx h \<noteq> Some c))"

lemma release_ctx_hdr_ok:
  assumes inv: "hdr_inv_in {} {c} s" and h: "db_hdr s a = Some h" and spare: "card (hdr_users {c} s a h) < unat (h_ref h)"
  obtains s' where "release_ctx_hdr (Some a) s = Some s'" "hdr_inv_in {} {c} s'" "hdr_dropped s a h False s'"
    "h_ref h = 1 \<Longrightarrow> h_ctx h \<noteq> Some c"
proof -
  have id: "ipa3_id_find (h_id h) (db_idr s) = Some (PHdr a)" using hdr_inv_inD(6) [OF inv h] by (simp add: hdr_shape_def)
  then have "may_del_hdr {c} (h_id h) False s" using h spare by (auto simp: may_del_hdr_def)
  then show thesis
  proof (rule del_hdr_ok [OF inv])
    fix err assume "del_hdr (h_id h) False s = Some (Err err, s)"
    then have False using h handle_of(1) [OF inv h] hdr_inv_inD(6) [OF inv h]
      by (auto simp: del_hdr_def hdr_drop_def Let_def hdr_shape_def bind_eq_Some_conv split: if_splits)
    then show thesis ..
  next
    fix b k s' assume "del_hdr (h_id h) False s = Some (OK, s')" "hdr_inv_in {} {c} s'" "db_hdr s b = Some k" "h_id k = h_id h"
      "ipa3_id_find (h_id h) (db_idr s) = Some (PHdr b)" "hdr_dropped s b k False s'" "h_ref k = 1 \<Longrightarrow> \<forall>c \<in> {c}. h_ctx k \<noteq> Some c"
    then show thesis using h id by (intro that) (auto simp: release_ctx_hdr_def)
  qed
qed


text \<open>The effect of a deletion of a context: its count falls, or it goes and lets go of its header.\<close>

definition ctx_dropped :: "hdr_db \<Rightarrow> nat \<Rightarrow> ctx_entry \<Rightarrow> bool \<Rightarrow> hdr_db \<Rightarrow> bool" where
  "ctx_dropped s c x by_user s' \<longleftrightarrow>
     (let x0 = x\<lparr>c_user_deleted := c_user_deleted x \<or> by_user, c_ref := c_ref x - 1\<rparr>; s1 = s\<lparr>db_ctx := (db_ctx s)(c \<mapsto> x0)\<rparr> in
      if c_ref x = 1
      then \<exists>a h s2. c_hdr x = Some a \<and> db_hdr s a = Some h \<and> h_ctx h \<noteq> Some c \<and> hdr_dropped s1 a h False s2 \<and>
             db_hdr s' = db_hdr s2 \<and> db_ctx s' = (db_ctx s2)(c := None) \<and> others_kept s s'
      else s' = s1)"

lemma del_ctx_ok:
  assumes inv: "hdr_inv s" and may: "may_del_ctx hdl s"
  obtains (refused) err where "del_hdr_proc_ctx hdl True by_user s = Some (Err err, s)"
  | (dropped) c x s' where "del_hdr_proc_ctx hdl True by_user s = Some (OK, s')" "hdr_inv s'" "db_ctx s c = Some x" "c_id x = hdl"
      "\<not> (by_user \<and> c_user_deleted x)" "c_ref x = 1 \<Longrightarrow> db_ctx s' c = None \<and> ipa3_id_find hdl (db_idr s') = None"
      "ctx_dropped s c x by_user s'" "ipa3_id_find hdl (db_idr s) = Some (PCtx c)"
proof -
  have i0: "hdr_inv_in {} {} s" using inv by (simp add: hdr_inv_def)
  note d = hdr_inv_inD [OF i0]
  consider "ctx_by_handle hdl s = Some None"
    | c x where "ctx_by_handle hdl s = Some (Some c)" "db_ctx s c = Some x" "c_id x = hdl" "ipa3_id_find hdl (db_idr s) = Some (PCtx c)"
    using handle_cases [OF i0, of hdl] by metis
  then show thesis
  proof cases
    case 1
    then show thesis by (intro refused [of EINVAL]) (simp add: del_hdr_proc_ctx_def del_ctx_with_def)
  next
    case 2
    obtain off oe where oe: "c_off x = Some off" "db_off s off = Some oe" using d(8) [OF 2(2)] by (auto simp: ctx_shape_def)
    obtain a h where a: "c_hdr x = Some a" "db_hdr s a = Some h" "c_ref x \<noteq> 0" using d(9) [OF 2(2)] by (auto simp: ctx_counts_def)
    have own: "h_ctx k \<noteq> Some c" if "db_hdr s b = Some k" for b k using may 2(4) that unfolding may_del_ctx_def by blast
    define x0 where "x0 = x\<lparr>c_user_deleted := c_user_deleted x \<or> by_user, c_ref := c_ref x - 1\<rparr>"
    define s1 where "s1 = s\<lparr>db_ctx := (db_ctx s)(c \<mapsto> x0)\<rparr>"
    show thesis
    proof (cases "by_user \<and> c_user_deleted x")
      case True
      then show thesis using 2 oe by (intro refused [of EINVAL]) (simp add: del_hdr_proc_ctx_def del_ctx_with_def)
    next
      case user: False
      show thesis
      proof (cases "c_ref x = 1")
        case False
        have "hdr_inv_in {} {} s1" unfolding s1_def
          by (rule upd_ctx_inv [OF i0 2(2)]) (use own False in \<open>auto simp: x0_def one_left\<close>)
        moreover have "del_hdr_proc_ctx hdl True by_user s = Some (OK, s1)"
          using 2 oe user False by (simp add: del_hdr_proc_ctx_def del_ctx_with_def Let_def one_left s1_def x0_def)
        ultimately show thesis using False user 2 by (intro dropped [of s1 c x]) (simp_all add: hdr_inv_def ctx_dropped_def Let_def s1_def x0_def)
      next
        case True
        have i1: "hdr_inv_in {} {c} s1" unfolding s1_def
          by (rule upd_ctx_inv [OF i0 2(2)]) (use own in \<open>auto simp: x0_def\<close>)
        have "hdr_users {c} s1 a h \<subset> hdr_users {} s a h"
          using 2(2) a own [OF a(2)] by (auto simp: hdr_users_def s1_def x0_def split: if_splits)
        then have "card (hdr_users {c} s1 a h) < unat (h_ref h)"
          using d(7) [OF a(2)] psubset_card_mono [OF hdr_users_finite [OF i0], of "hdr_users {c} s1 a h" "{}" a h] by (simp add: hdr_counts_def)
        moreover have h1: "db_hdr s1 a = Some h" using a by (simp add: s1_def)
        ultimately obtain s2 where r: "release_ctx_hdr (Some a) s1 = Some s2" "hdr_inv_in {} {c} s2" "hdr_dropped s1 a h False s2"
            "h_ref h = 1 \<Longrightarrow> h_ctx h \<noteq> Some c"
          using release_ctx_hdr_ok [OF i1] by metis
        have same: "db_ctx s2 c = Some x0" "db_off s2 = db_off s" 
          using r(3,4) by (auto simp: hdr_dropped_def s1_def split: if_splits option.splits)
        have own2: "h_ctx k \<noteq> Some c" if "db_hdr s2 b = Some k" for b k
          using r(3) that own a(2) by (auto simp: hdr_dropped_def s1_def split: if_splits)
        have "hdr_inv_in {} {} (rm_ctx c x0 off oe s2)"
          by (rule rm_ctx_inv [OF r(2)]) (use same oe own2 in \<open>auto simp: x0_def\<close>)
        moreover have "del_hdr_proc_ctx hdl True by_user s = Some (OK, rm_ctx c x0 off oe s2)"
          using 2 oe user True a(1) same r(1)
          by (simp add: del_hdr_proc_ctx_def del_ctx_with_def Let_def s1_def x0_def rm_ctx_def)
        moreover have "others_kept s s2" using r(3) by (auto simp: hdr_dropped_def s1_def others_kept_def split: if_splits)
        then have "others_kept s (rm_ctx c x0 off oe s2)" using 2(3,4) by (auto simp: others_kept_def rm_ctx_def x0_def id_find_remove)
        then have "ctx_dropped s c x by_user (rm_ctx c x0 off oe s2)"
          unfolding ctx_dropped_def Let_def using a own [OF a(2)] r(3) True
          by (intro if_bool_eq_disj [THEN iffD2] disjI1 conjI exI [of _ a] exI [of _ h] exI [of _ s2]) (simp_all add: rm_ctx_def s1_def x0_def)
        ultimately show thesis using user 2
          by (intro dropped [of "rm_ctx c x0 off oe s2" c x]) (simp_all add: hdr_inv_def rm_ctx_def x0_def id_find_remove)
      qed
    qed
  qed
qed

section \<open>Commit\<close>

lemma copy_hdrs_ok:
  assumes inv: "hdr_inv_in X Y s" and as: "set as \<subseteq> dom (db_hdr s)" and len: "length buf = ot_end (hdr_tbl s)"
  shows "\<exists>img. copy_hdrs as s buf = Some img \<and> length img = ot_end (hdr_tbl s)"
  using as len
proof (induction as arbitrary: buf)
  case (Cons a as)
  note d = hdr_inv_inD [OF inv]
  obtain h where h: "db_hdr s a = Some h" using Cons.prems(1) by auto
  show ?case
  proof (cases "h_ddr h")
    case True
    then show ?thesis using Cons.IH [of buf] Cons.prems h by auto
  next
    case False
    then obtain off oe where oe: "h_off h = Some off" "off \<in> used_slots (hdr_tbl s)" "db_off s off = Some oe"
        "h_len h \<le> hdr_bin_sz ! o_bin oe" "h_len h \<le> length (h_hdr h)" using d(6) [OF h] by (auto simp: hdr_shape_def)
    have "o_offset oe + hdr_bin_sz ! o_bin oe \<le> ot_end (hdr_tbl s)"
      using oe(2,3) d(4) tbl_invD(4) [of "db_off s" hdr_bin_sz "hdr_tbl s" off]
      by (fastforce simp: used_slots_def slots_inv_def slot_ok_def)
    then have fits: "o_offset oe + h_len h \<le> length buf" using oe(4) Cons.prems(2) by simp
    define buf1 where "buf1 = take (o_offset oe) buf @ take (h_len h) (h_hdr h) @ drop (o_offset oe + h_len h) buf"
    have "memcpy_at buf (o_offset oe) (take (h_len h) (h_hdr h)) = Some buf1" "length buf1 = length buf"
      using fits oe(5) by (auto simp: memcpy_at_def buf1_def)
    then show ?thesis using Cons.IH [of buf1] Cons.prems h False oe by auto
  qed
qed auto

end
