(* ===== verification/Ipa_Hdr_Commit.thy ===== *)
theory Ipa_Hdr_Commit
  imports Ipa_Hdr_Safe
begin

text \<open>
  The commit of the header tables: the image of the table holds the bytes of every header at its
  slot, the loop over the contexts changes nothing but parameters it copies, and every way out of
  the commit keeps the invariant.
\<close>

text \<open>The bytes of the header table that a commit writes.\<close>

lemma memcpy_at_ok:
  assumes "memcpy_at buf p bs = Some buf'"
  shows "length buf' = length buf" "take (length bs) (drop p buf') = bs"
    "n + q \<le> p \<or> p + length bs \<le> q \<Longrightarrow> take n (drop q buf') = take n (drop q buf)"
proof -
  have b: "buf' = take p buf @ bs @ drop (p + length bs) buf" "p + length bs \<le> length buf"
    using assms by (auto simp: memcpy_at_def split: if_splits)
  show "length buf' = length buf" "take (length bs) (drop p buf') = bs" using b by auto
  show "take n (drop q buf') = take n (drop q buf)" if "n + q \<le> p \<or> p + length bs \<le> q"
    using that b by (auto intro!: nth_equalityI simp: nth_append)
qed

text \<open>Where a header of the table has its bytes.\<close>

definition hdr_at :: "hdr_db \<Rightarrow> nat \<Rightarrow> (nat \<times> nat \<times> byte list) option" where
  "hdr_at s a = do {
     h \<leftarrow> db_hdr s a;
     if h_ddr h then None
     else do { off \<leftarrow> h_off h; oe \<leftarrow> db_off s off; Some (o_offset oe, hdr_bin_sz ! o_bin oe, take (h_len h) (h_hdr h)) } }"

lemma hdr_at_inv:
  assumes inv: "hdr_inv_in X Y s" and h: "db_hdr s a = Some h" "\<not> h_ddr h"
  shows "\<exists>p n. hdr_at s a = Some (p, n, take (h_len h) (h_hdr h)) \<and> p + n \<le> ot_end (hdr_tbl s) \<and> h_len h \<le> n \<and>
    h_len h = length (take (h_len h) (h_hdr h))"
proof -
  note d = hdr_inv_inD [OF inv]
  obtain off oe where oe: "h_off h = Some off" "off \<in> used_slots (hdr_tbl s)" "db_off s off = Some oe"
      "h_len h \<le> hdr_bin_sz ! o_bin oe" "h_len h \<le> length (h_hdr h)" using d(6) [OF h(1)] h(2) by (auto simp: hdr_shape_def)
  have "o_offset oe + hdr_bin_sz ! o_bin oe \<le> ot_end (hdr_tbl s)"
    using oe(2,3) d(4) tbl_invD(4) [of "db_off s" hdr_bin_sz "hdr_tbl s" off]
    by (fastforce simp: used_slots_def slots_inv_def slot_ok_def)
  then show ?thesis using h oe by (simp add: hdr_at_def)
qed

lemma hdr_at_apart:
  assumes inv: "hdr_inv_in X Y s" and a: "hdr_at s a = Some (p, n, bs)" "hdr_at s b = Some (q, m, cs)" "a \<noteq> b"
  shows "p + n \<le> q \<or> q + m \<le> p"
proof -
  note d = hdr_inv_inD [OF inv]
  obtain h off oe k off' oe' where o: "db_hdr s a = Some h" "h_off h = Some off" "db_off s off = Some oe" "\<not> h_ddr h"
      "p = o_offset oe" "n = hdr_bin_sz ! o_bin oe" "db_hdr s b = Some k" "h_off k = Some off'" "db_off s off' = Some oe'" "\<not> h_ddr k"
      "q = o_offset oe'" "m = hdr_bin_sz ! o_bin oe'"
    using a(1,2) by (auto simp: hdr_at_def bind_eq_Some_conv split: if_splits)
  have "off \<noteq> off'" using d(5) o(1,2,7,8) a(3) unfolding own_inv_def by blast
  moreover have "off \<in> slots (hdr_tbl s)" "off' \<in> slots (hdr_tbl s)"
    using d(6) [OF o(1)] d(6) [OF o(7)] o(2,4,8,10) by (auto simp: hdr_shape_def used_slots_def slots_def)
  ultimately show ?thesis using d(4) tbl_invD(5) [of "db_off s" hdr_bin_sz "hdr_tbl s" off off'] o
    by (auto simp: slots_inv_def apart_def)
qed

lemma copy_hdrs_step:
  "hdr_at s a = Some (p, n, bs) \<Longrightarrow> copy_hdrs (a # as) s buf = do { buf1 \<leftarrow> memcpy_at buf p bs; copy_hdrs as s buf1 }"
  by (auto simp: hdr_at_def bind_eq_Some_conv split: if_splits)

lemma copy_hdrs_skip: "db_hdr s a = Some h \<Longrightarrow> h_ddr h \<Longrightarrow> copy_hdrs (a # as) s buf = copy_hdrs as s buf"
  by simp

lemma copy_hdrs_keeps:
  assumes inv: "hdr_inv_in X Y s" and c: "copy_hdrs as s buf = Some img" and as: "set as \<subseteq> dom (db_hdr s)"
    and b: "hdr_at s b = Some (q, m, cs)" "b \<notin> set as" "k \<le> m"
  shows "take k (drop q img) = take k (drop q buf)"
  using c as b(2)
proof (induction as arbitrary: buf)
  case (Cons a as)
  obtain h where h: "db_hdr s a = Some h" using Cons.prems(2) by auto
  show ?case
  proof (cases "h_ddr h")
    case True
    then show ?thesis using Cons.IH Cons.prems copy_hdrs_skip [OF h] by simp
  next
    case False
    obtain p n where p: "hdr_at s a = Some (p, n, take (h_len h) (h_hdr h))" "h_len h \<le> n" using hdr_at_inv [OF inv h False] by blast
    then obtain buf1 where m: "memcpy_at buf p (take (h_len h) (h_hdr h)) = Some buf1" "copy_hdrs as s buf1 = Some img"
      using Cons.prems(1) copy_hdrs_step [OF p(1)] by (auto simp: bind_eq_Some_conv)
    have "p + n \<le> q \<or> q + m \<le> p" using hdr_at_apart [OF inv p(1) b(1)] Cons.prems(3) by auto
    then have "k + q \<le> p \<or> p + length (take (h_len h) (h_hdr h)) \<le> q" using p(2) b(3) by auto
    then show ?thesis using memcpy_at_ok(3) [OF m(1)] Cons.IH [OF m(2)] Cons.prems by simp
  qed
qed simp

lemma copy_hdrs_image:
  assumes inv: "hdr_inv_in X Y s" and c: "copy_hdrs as s buf = Some img" and as: "set as \<subseteq> dom (db_hdr s)" "distinct as"
    and a: "a \<in> set as" "hdr_at s a = Some (p, n, bs)"
  shows "take (length bs) (drop p img) = bs"
  using c as a(1)
proof (induction as arbitrary: buf)
  case (Cons b as)
  obtain h where h: "db_hdr s b = Some h" using Cons.prems(2) by auto
  show ?case
  proof (cases "b = a")
    case True
    obtain k where k: "db_hdr s a = Some k" "\<not> h_ddr k" "bs = take (h_len k) (h_hdr k)"
      using a(2) by (auto simp: hdr_at_def bind_eq_Some_conv split: if_splits)
    obtain buf1 where m: "memcpy_at buf p bs = Some buf1" "copy_hdrs as s buf1 = Some img"
      using Cons.prems(1) copy_hdrs_step [OF a(2)] True by (auto simp: bind_eq_Some_conv)
    have "length bs \<le> n" using hdr_at_inv [OF inv k(1,2)] a(2) k(3) by auto
    then have "take (length bs) (drop p img) = take (length bs) (drop p buf1)"
      using True Cons.prems by (intro copy_hdrs_keeps [OF inv m(2) _ a(2)]) auto
    then show ?thesis using memcpy_at_ok(2) [OF m(1)] by simp
  next
    case False
    then obtain buf1 where "copy_hdrs as s buf1 = Some img"
      using Cons.prems(1) h by (auto simp: bind_eq_Some_conv split: if_splits)
    then show ?thesis using Cons.IH Cons.prems False by auto
  qed
qed simp

text \<open>The loop over the contexts changes their L2TP parameters only.\<close>

lemma upd_l2tp_inv:
  assumes inv: "hdr_inv s" and x: "db_ctx s c = Some x"
  shows "hdr_inv (s\<lparr>db_ctx := (db_ctx s)(c \<mapsto> x\<lparr>c_l2tp := lp\<rparr>)\<rparr>)"
proof -
  have i: "hdr_inv_in {} {} s" using inv by (simp add: hdr_inv_def)
  show ?thesis unfolding hdr_inv_def
    by (rule upd_ctx_inv [OF i x]) (use hdr_inv_inD(9) [OF i x] in \<open>auto simp: ctx_counts_def\<close>)
qed

definition commit_frame :: "hdr_db \<Rightarrow> hdr_db \<Rightarrow> bool" where
  "commit_frame s s' \<longleftrightarrow> db_idr s' = db_idr s \<and> db_hdr s' = db_hdr s \<and> db_off s' = db_off s \<and> hdr_list s' = hdr_list s \<and>
     hdr_tbl s' = hdr_tbl s \<and> ctx_list s' = ctx_list s \<and> ctx_tbl s' = ctx_tbl s \<and> dom (db_ctx s') = dom (db_ctx s) \<and>
     (\<forall>c x. db_ctx s c = Some x \<longrightarrow> (\<exists>lp. db_ctx s' c = Some (x\<lparr>c_l2tp := lp\<rparr>)))"

lemma l2tp_same: "\<exists>lp. x = x\<lparr>c_l2tp := lp\<rparr>" for x :: ctx_entry
  by (rule exI [of _ "c_l2tp x"]) simp

lemma ctx_to_hw_format_ok:
  assumes "hdr_inv s" "set cs \<subseteq> dom (db_ctx s)"
  shows "\<exists>r s'. ctx_to_hw_format e cs s = Some (r, s') \<and> hdr_inv s' \<and> commit_frame s s' \<and> dma_bufs s' = dma_bufs s \<and>
    db_next s' = db_next s \<and> hdr_mem s' = hdr_mem s \<and> ctx_mem s' = ctx_mem s \<and> hw_hdr s' = hw_hdr s"
  using assms
proof (induction cs arbitrary: s)
  case Nil
  then show ?case by (simp add: commit_frame_def l2tp_same)
next
  case (Cons c cs)
  have i: "hdr_inv_in {} {} s" using Cons.prems(1) by (simp add: hdr_inv_def)
  obtain x where x: "db_ctx s c = Some x" using Cons.prems(2) by auto
  obtain off oe where oe: "c_off x = Some off" "db_off s off = Some oe" using hdr_inv_inD(8) [OF i x] by (auto simp: ctx_shape_def)
  obtain a h where a: "c_hdr x = Some a" "db_hdr s a = Some h" using hdr_inv_inD(9) [OF i x] by (auto simp: ctx_counts_def)
  define s1 where "s1 = s\<lparr>db_ctx := (db_ctx s)(c \<mapsto> x\<lparr>c_l2tp := l2tp_of_ep e (c_l2tp x)\<rparr>)\<rparr>"
  have i1: "hdr_inv s1" unfolding s1_def by (rule upd_l2tp_inv [OF Cons.prems(1) x])
  have fr: "commit_frame s s1" using x by (auto simp: commit_frame_def s1_def l2tp_same)
  have "\<exists>r. ctx_to_hw_format e (c # cs) s = (case r of OK \<Rightarrow> ctx_to_hw_format e cs s1 | Err err \<Rightarrow> Some (Err err, s1))"
    using x oe a by (auto simp: s1_def Let_def split: rc.splits intro: exI [of _ OK] exI [of _ "Err _"])
  then obtain r where r: "ctx_to_hw_format e (c # cs) s = (case r of OK \<Rightarrow> ctx_to_hw_format e cs s1 | Err err \<Rightarrow> Some (Err err, s1))" ..
  have same: "dma_bufs s1 = dma_bufs s" "db_next s1 = db_next s" "hdr_mem s1 = hdr_mem s" "ctx_mem s1 = ctx_mem s" "hw_hdr s1 = hw_hdr s" by (simp_all add: s1_def)
  show ?case
  proof (cases r)
    case OK
    have "set cs \<subseteq> dom (db_ctx s1)" using Cons.prems(2) by (auto simp: s1_def)
    from Cons.IH [OF i1 this] obtain r' s' where s': "ctx_to_hw_format e cs s1 = Some (r', s')" "hdr_inv s'" "commit_frame s1 s'"
        "dma_bufs s' = dma_bufs s1" "db_next s' = db_next s1" "hdr_mem s' = hdr_mem s1" "ctx_mem s' = ctx_mem s1" "hw_hdr s' = hw_hdr s1" by blast
    have "commit_frame s s'" using fr s'(3) unfolding commit_frame_def by fastforce
    then show ?thesis using r OK s' same by simp
  next
    case (Err err)
    then show ?thesis using r i1 fr same by simp
  qed
qed


lemma rc_no_err: "(\<forall>x. r \<noteq> Err x) \<longleftrightarrow> r = OK"
  by (cases r) auto

lemma ctx_to_hw_format_slots:
  assumes "ctx_to_hw_format e cs s = Some (OK, s')" "c \<in> set cs" "db_ctx s c = Some x"
  shows "\<exists>a h. c_hdr x = Some a \<and> db_hdr s a = Some h \<and> h_off h \<noteq> None"
  using assms
proof (induction cs arbitrary: s x)
  case (Cons d cs)
  then obtain y a h where y: "db_ctx s d = Some y" "c_hdr y = Some a" "db_hdr s a = Some h" "h_off h \<noteq> None"
      "ctx_to_hw_format e cs (s\<lparr>db_ctx := (db_ctx s)(d \<mapsto> y\<lparr>c_l2tp := l2tp_of_ep e (c_l2tp y)\<rparr>)\<rparr>) = Some (OK, s')"
    by (auto simp: bind_eq_Some_conv Let_def rc_no_err split: option.splits if_splits rc.splits)
  show ?case
  proof (cases "c = d")
    case True
    then show ?thesis using y Cons.prems(3) by simp
  next
    case False
    then show ?thesis using Cons.IH [OF y(5), of x] Cons.prems(2,3) by simp
  qed
qed simp

lemma copy_hdrs_cong:
  assumes "db_hdr s' = db_hdr s" "db_off s' = db_off s"
  shows "copy_hdrs as s' = copy_hdrs as s"
proof (induction as)
  case (Cons a as)
  then show ?case using assms by (intro ext) (simp cong: if_cong)
qed (simp add: fun_eq_iff)

lemma dma_alloc_ok:
  obtains b where "dma_alloc e s = (Inr b, s\<lparr>db_next := Suc b, dma_bufs := b # dma_bufs s\<rparr>)" "b = db_next s"
      "e_dma e True b \<or> e_dma e False b"
  | "dma_alloc e s = (Inl ENOMEM, s)" "\<not> e_dma e True (db_next s)" "\<not> e_dma e False (db_next s)"
  by (auto simp: dma_alloc_def)

text \<open>What the end of a commit does to the buffers.\<close>

definition kept_bufs :: "hdr_env \<Rightarrow> bool \<Rightarrow> nat \<Rightarrow> nat \<Rightarrow> hdr_db \<Rightarrow> hdr_db" where
  "kept_bufs e ok hb cb s = keep_ctx_mem e ok cb (keep_hdr_mem e ok hb s)"

lemma kept_bufs_frame:
  "db_idr (kept_bufs e ok hb cb s) = db_idr s" "db_hdr (kept_bufs e ok hb cb s) = db_hdr s"
  "db_ctx (kept_bufs e ok hb cb s) = db_ctx s" "db_off (kept_bufs e ok hb cb s) = db_off s"
  "db_next (kept_bufs e ok hb cb s) = db_next s" "hdr_list (kept_bufs e ok hb cb s) = hdr_list s"
  "ctx_list (kept_bufs e ok hb cb s) = ctx_list s" "hdr_tbl (kept_bufs e ok hb cb s) = hdr_tbl s"
  "ctx_tbl (kept_bufs e ok hb cb s) = ctx_tbl s" "hw_hdr (kept_bufs e ok hb cb s) = hw_hdr s"
  by (auto simp: kept_bufs_def keep_ctx_mem_def keep_hdr_mem_def dma_free_def split: option.splits)

lemma commit_ok:
  assumes inv: "hdr_inv s"
  obtains (result) r s' where "commit_hdr_v3_0 e s = Some (r, s')" "hdr_inv s'" "commit_frame s s'" "r = OK \<or> r = Err EFAULT"
    "r = OK \<Longrightarrow> copy_hdrs (hdr_list s) s (replicate (ot_end (hdr_tbl s)) 0) = Some (hw_hdr s')"
    "r \<noteq> OK \<Longrightarrow> hw_hdr s' = hw_hdr s"
proof -
  have i: "hdr_inv_in {} {} s" using inv by (simp add: hdr_inv_def)
  have self: "commit_frame s s" by (simp add: commit_frame_def l2tp_same)
  obtain img where img: "copy_hdrs (hdr_list s) s (replicate (ot_end (hdr_tbl s)) 0) = Some img"
    using copy_hdrs_ok [OF i, of "hdr_list s"] hdr_inv_inD(2) [OF i] by (force simp: lists_inv_def)
  show thesis
  proof (cases "ot_end (hdr_tbl s) = 0")
    case True
    then have "commit_hdr_v3_0 e s = Some (Err EFAULT, s)" by (simp add: commit_hdr_v3_0_def generate_hdr_hw_tbl_def)
    then show thesis using result inv self by blast
  next
    case False
    show thesis
    proof (cases rule: dma_alloc_ok [of e s])
      case 2
      then have "commit_hdr_v3_0 e s = Some (Err EFAULT, s)" using False by (simp add: commit_hdr_v3_0_def generate_hdr_hw_tbl_def)
      then show thesis using result inv self by blast
    next
      case (1 hb)
      define s1 where "s1 = s\<lparr>db_next := Suc hb, dma_bufs := hb # dma_bufs s\<rparr>"
      have inv1: "hdr_inv s1" unfolding hdr_inv_def by (rule hdr_inv_frame [OF i]) (simp_all add: s1_def 1(2))
      have gen: "generate_hdr_hw_tbl e s = Some (Inr (hb, img), s1)" using False 1 img copy_hdrs_cong [of s1 s "hdr_list s"]
        by (simp add: generate_hdr_hw_tbl_def s1_def)
      have c1: "commit_frame s s1" using self by (simp add: commit_frame_def s1_def)
      have fr_free: "hdr_inv (dma_free hb s2) \<and> commit_frame s (dma_free hb s2) \<and> hw_hdr (dma_free hb s2) = hw_hdr s"
        if "hdr_inv s2" "commit_frame s s2" "hw_hdr s2 = hw_hdr s" for s2
        using that hdr_inv_frame [of "{}" "{}" s2 "dma_free hb s2"] by (simp add: hdr_inv_def dma_free_def commit_frame_def)
      have lost: thesis if "generate_hdr_proc_ctx_hw_tbl e s1 = Some (Inl err, s2)" "hdr_inv s2" "commit_frame s s2" "hw_hdr s2 = hw_hdr s" for err s2
      proof -
        have "commit_hdr_v3_0 e s = Some (Err EFAULT, dma_free hb s2)" using gen that(1) by (simp add: commit_hdr_v3_0_def)
        then show thesis using fr_free [OF that(2-4)] by (intro result [of "Err EFAULT" "dma_free hb s2"]) auto
      qed
      show thesis
      proof (cases rule: dma_alloc_ok [of e s1])
        case 2
        then show thesis by (intro lost [of ENOMEM s1]) (use inv1 c1 in \<open>simp_all add: generate_hdr_proc_ctx_hw_tbl_def s1_def Let_def\<close>)
      next
        case (1 cb)
        define s2 where "s2 = s1\<lparr>db_next := Suc cb, dma_bufs := cb # dma_bufs s1\<rparr>"
        have inv2: "hdr_inv s2" unfolding hdr_inv_def
          by (rule hdr_inv_frame [OF inv1 [unfolded hdr_inv_def]]) (simp_all add: s2_def 1(2))
        have "set (ctx_list s2) \<subseteq> dom (db_ctx s2)" using hdr_inv_inD(2) [OF inv2 [unfolded hdr_inv_def]] by (simp add: lists_inv_def)
        from ctx_to_hw_format_ok [OF inv2 this, of e] obtain r s3 where s3: "ctx_to_hw_format e (ctx_list s2) s2 = Some (r, s3)"
            "hdr_inv s3" "commit_frame s2 s3" "hw_hdr s3 = hw_hdr s2" by blast
        have c3: "commit_frame s s3" "hw_hdr s3 = hw_hdr s" using s3(3,4) by (simp_all add: commit_frame_def s2_def s1_def)
        define csz where "csz = (if ot_end (ctx_tbl s1) = 0 then 4 else ot_end (ctx_tbl s1)) + CTX_ALIGNMENT_BYTE - CTX_ALIGNMENT_BYTE"
        have gen2: "generate_hdr_proc_ctx_hw_tbl e s1 = Some (case r of OK \<Rightarrow> Inr (cb, csz) | Err err \<Rightarrow> Inl err, s3)"
          using 1(1) s3(1) by (cases r) (simp_all add: generate_hdr_proc_ctx_hw_tbl_def s2_def csz_def Let_def)
        show thesis
        proof (cases r)
          case (Err err)
          then show thesis using gen2 s3(2) c3 by (intro lost [of err s3]) auto
        next
          case OK
          let ?ok = "commit_cmds e (length img) csz"
          let ?k = "kept_bufs e ?ok hb cb s3"
          have eq: "commit_hdr_v3_0 e s = Some (if ?ok then (OK, ?k\<lparr>hw_hdr := img\<rparr>) else (Err EFAULT, ?k))"
            using gen gen2 OK by (simp add: commit_hdr_v3_0_def Let_def kept_bufs_def)
          have k: "hdr_inv ?k" "hdr_inv (?k\<lparr>hw_hdr := img\<rparr>)" "commit_frame s ?k" "commit_frame s (?k\<lparr>hw_hdr := img\<rparr>)"
            using s3(2) c3 hdr_inv_frame [of "{}" "{}" s3]
            by (simp_all add: hdr_inv_def kept_bufs_frame commit_frame_def)
          show thesis
          proof (cases ?ok)
            case True
            then show thesis using eq k img by (intro result [of OK "?k\<lparr>hw_hdr := img\<rparr>"]) simp_all
          next
            case False
            then show thesis using eq k c3(2) by (intro result [of "Err EFAULT" ?k]) (simp_all add: kept_bufs_frame)
          qed
        qed
      qed
    qed
  qed
qed

end
