(* ===== verification/Ipa_Hdr_Props.thy ===== *)
theory Ipa_Hdr_Props
  imports Ipa_Hdr_Commit
begin

text \<open>
  Sequences of calls of the header tables: the contract of an operation as a locale, batches as
  loops of such operations, the reachable states, and the properties of the component.
\<close>

section \<open>The contract of an operation\<close>

text \<open>A loop over the members of a batch.\<close>

fun each_of :: "('x \<Rightarrow> 's \<Rightarrow> ('r \<times> 's) option) \<Rightarrow> 'x list \<Rightarrow> 's \<Rightarrow> ('r list \<times> 's) option" where
  "each_of act [] s = Some ([], s)"
| "each_of act (x # xs) s = do { (r, s1) \<leftarrow> act x s; (rs, s2) \<leftarrow> each_of act xs s1; Some (r # rs, s2) }"

fun each_may :: "('x \<Rightarrow> 's \<Rightarrow> bool) \<Rightarrow> ('x \<Rightarrow> 's \<Rightarrow> ('r \<times> 's) option) \<Rightarrow> 'x list \<Rightarrow> 's \<Rightarrow> bool" where
  "each_may may act [] s = True"
| "each_may may act (x # xs) s =
     (may x s \<and> (case act x s of None \<Rightarrow> True | Some (r, s1) \<Rightarrow> each_may may act xs s1))"

locale safe_op =
  fixes may :: "'x \<Rightarrow> hdr_db \<Rightarrow> bool" and act :: "'x \<Rightarrow> hdr_db \<Rightarrow> ('r \<times> hdr_db) option"
  assumes safe: "hdr_inv s \<Longrightarrow> may x s \<Longrightarrow> \<exists>r s'. act x s = Some (r, s') \<and> hdr_inv s'"
begin

lemma each_safe:
  "hdr_inv s \<Longrightarrow> each_may may act xs s \<Longrightarrow> \<exists>rs s'. each_of act xs s = Some (rs, s') \<and> hdr_inv s'"
proof (induction xs arbitrary: s)
  case (Cons x xs)
  then obtain r s1 where s1: "act x s = Some (r, s1)" "hdr_inv s1" using safe [of s x] by auto
  then have "each_may may act xs s1" using Cons.prems(2) by simp
  from Cons.IH [OF s1(2) this] s1(1) show ?case by auto
qed simp

end

definition status :: "rc \<Rightarrow> int" where
  "status r = (if r \<noteq> OK then -1 else 0)"

definition add_hdr_act :: "hdr_env \<Rightarrow> bool \<Rightarrow> hdr_add \<Rightarrow> hdr_db \<Rightarrow> ((int \<times> nat option) \<times> hdr_db) option" where
  "add_hdr_act e user ha s = do { (r, hdl, s1) \<leftarrow> add_hdr e ha user s; Some ((status r, hdl), s1) }"

definition add_ctx_act :: "hdr_env \<Rightarrow> bool \<Rightarrow> ctx_add \<Rightarrow> hdr_db \<Rightarrow> ((int \<times> nat option) \<times> hdr_db) option" where
  "add_ctx_act e user pa s = do { (r, hdl, s1) \<leftarrow> add_hdr_proc_ctx e pa True user s; Some ((status r, hdl), s1) }"

definition del_act :: "(nat \<Rightarrow> hdr_db \<Rightarrow> (rc \<times> hdr_db) option) \<Rightarrow> nat \<Rightarrow> hdr_db \<Rightarrow> (int \<times> hdr_db) option" where
  "del_act del hdl s = do { (r, s1) \<leftarrow> del hdl s; Some (status r, s1) }"

lemma batch_loops:
  "add_hdrs e user has s = each_of (add_hdr_act e user) has s"
  "add_ctxs e user pas s = each_of (add_ctx_act e user) pas s"
  "del_each del hdls s = each_of (del_act del) hdls s"
proof -
  show "add_hdrs e user has s = each_of (add_hdr_act e user) has s"
    by (induction has arbitrary: s) (auto simp: add_hdr_act_def status_def split: Option.bind_split)
  show "add_ctxs e user pas s = each_of (add_ctx_act e user) pas s"
    by (induction pas arbitrary: s) (auto simp: add_ctx_act_def status_def split: Option.bind_split)
  show "del_each del hdls s = each_of (del_act del) hdls s"
    by (induction hdls arbitrary: s) (auto simp: del_act_def status_def split: Option.bind_split)
qed

text \<open>What a caller has to see to, beside its references: buffers as long as it says, no overflow of a count.\<close>

definition may_add_hdr :: "hdr_add \<Rightarrow> hdr_db \<Rightarrow> bool" where
  "may_add_hdr ha s \<longleftrightarrow> a_len ha \<le> length (a_hdr ha)"

definition may_add_ctx :: "ctx_add \<Rightarrow> hdr_db \<Rightarrow> bool" where
  "may_add_ctx pa s \<longleftrightarrow> (\<forall>a h. ipa3_id_find (pa_hdl pa) (db_idr s) = Some (PHdr a) \<longrightarrow> db_hdr s a = Some h \<longrightarrow> h_ref h \<noteq> - 1)"

interpretation add_hdr_op: safe_op may_add_hdr "add_hdr_act e user" for e user
proof
  fix ha s assume i: "hdr_inv s" and m: "may_add_hdr ha s"
  show "\<exists>r s'. add_hdr_act e user ha s = Some (r, s') \<and> hdr_inv s'"
    by (rule add_hdr_ok [OF i m [unfolded may_add_hdr_def], of e user]) (auto simp: add_hdr_act_def)
qed

interpretation add_ctx_op: safe_op may_add_ctx "add_ctx_act e user" for e user
proof
  fix pa s assume i: "hdr_inv s" and m: "may_add_ctx pa s"
  show "\<exists>r s'. add_ctx_act e user pa s = Some (r, s') \<and> hdr_inv s'"
    by (rule add_ctx_ok [OF i [unfolded hdr_inv_def], of pa True e user])
       (use m in \<open>auto simp: may_add_ctx_def add_ctx_act_def hdr_inv_def\<close>)
qed

interpretation del_hdr_op: safe_op "\<lambda>hdl. may_del_hdr {} hdl by_user" "del_act (\<lambda>hdl. del_hdr hdl by_user)" for by_user
proof
  fix hdl s assume i: "hdr_inv s" and m: "may_del_hdr {} hdl by_user s"
  show "\<exists>r s'. del_act (\<lambda>hdl. del_hdr hdl by_user) hdl s = Some (r, s') \<and> hdr_inv s'"
    by (rule del_hdr_ok [OF i [unfolded hdr_inv_def] m]) (use i in \<open>auto simp: del_act_def hdr_inv_def\<close>)
qed

interpretation del_ctx_op: safe_op may_del_ctx "del_act (\<lambda>hdl. del_hdr_proc_ctx hdl True by_user)" for by_user
proof
  fix hdl s assume i: "hdr_inv s" and m: "may_del_ctx hdl s"
  show "\<exists>r s'. del_act (\<lambda>hdl. del_hdr_proc_ctx hdl True by_user) hdl s = Some (r, s') \<and> hdr_inv s'"
    by (rule del_ctx_ok [OF i m, of by_user]) (use i in \<open>auto simp: del_act_def\<close>)
qed


section \<open>Sequences of calls\<close>

datatype hdr_call =
    AddHdrs "hdr_add list option" bool bool
  | AddCtxs "ctx_add list option" bool bool
  | DelHdrs "nat list option" bool bool
  | DelCtxs "nat list option" bool bool
  | CommitHdr
  | ReleaseHdr nat
  | ReleaseCtx nat
  | PutHdr nat

definition forget :: "(rc \<times> 'r \<times> hdr_db) option \<Rightarrow> (rc \<times> hdr_db) option" where
  "forget p = map_option (\<lambda>(r, rs, s). (r, s)) p"

fun hdr_run :: "hdr_env \<Rightarrow> hdr_call \<Rightarrow> hdr_db \<Rightarrow> (rc \<times> hdr_db) option" where
  "hdr_run e (AddHdrs hs commit user) s = forget (ipa3_add_hdr_usr e hs commit user s)"
| "hdr_run e (AddCtxs cs commit user) s = forget (ipa3_add_hdr_proc_ctx e cs commit user s)"
| "hdr_run e (DelHdrs hs commit by_user) s = forget (ipa3_del_hdr_by_user e hs commit by_user s)"
| "hdr_run e (DelCtxs hs commit by_user) s = forget (ipa3_del_hdr_proc_ctx_by_user e hs commit by_user s)"
| "hdr_run e CommitHdr s = ipa3_commit_hdr e (\<lambda>ip s. (OK, s)) s"
| "hdr_run e (ReleaseHdr hdl) s = ipa3_release_hdr e hdl s"
| "hdr_run e (ReleaseCtx hdl) s = ipa3_release_hdr_proc_ctx e hdl s"
| "hdr_run e (PutHdr hdl) s = ipa3_put_hdr hdl s"

fun hdr_may :: "hdr_env \<Rightarrow> hdr_call \<Rightarrow> hdr_db \<Rightarrow> bool" where
  "hdr_may e (AddHdrs hs commit user) s = each_may may_add_hdr (add_hdr_act e user) (case hs of None \<Rightarrow> [] | Some l \<Rightarrow> l) s"
| "hdr_may e (AddCtxs cs commit user) s = each_may may_add_ctx (add_ctx_act e user) (case cs of None \<Rightarrow> [] | Some l \<Rightarrow> l) s"
| "hdr_may e (DelHdrs hs commit by_user) s =
     each_may (\<lambda>hdl. may_del_hdr {} hdl by_user) (del_act (\<lambda>hdl. del_hdr hdl by_user)) (case hs of None \<Rightarrow> [] | Some l \<Rightarrow> l) s"
| "hdr_may e (DelCtxs hs commit by_user) s =
     each_may may_del_ctx (del_act (\<lambda>hdl. del_hdr_proc_ctx hdl True by_user)) (case hs of None \<Rightarrow> [] | Some l \<Rightarrow> l) s"
| "hdr_may e CommitHdr s = True"
| "hdr_may e (ReleaseHdr hdl) s = may_del_hdr {} hdl False s"
| "hdr_may e (ReleaseCtx hdl) s = may_del_ctx hdl s"
| "hdr_may e (PutHdr hdl) s = True"

lemma finish_batch_ok: "hdr_inv s \<Longrightarrow> \<exists>r s'. finish_batch e commit s = Some (r, s') \<and> hdr_inv s'"
  by (rule commit_ok [of s e]) (auto simp: finish_batch_def)

lemma batch_ok:
  assumes "\<exists>rs s'. loop = Some (rs, s') \<and> hdr_inv s'"
  shows "\<exists>r s'. forget (do { (rs, s1) \<leftarrow> loop; (r, s2) \<leftarrow> finish_batch e commit s1; Some (r, rs, s2) }) = Some (r, s') \<and> hdr_inv s'"
proof -
  obtain rs s1 where "loop = Some (rs, s1)" "hdr_inv s1" using assms by blast
  moreover obtain r s2 where "finish_batch e commit s1 = Some (r, s2)" "hdr_inv s2" using finish_batch_ok calculation(2) by blast
  ultimately show ?thesis by (simp add: forget_def)
qed

lemma release_ok:
  assumes "\<exists>r s'. del_act (\<lambda>hdl. del hdl) hdl s = Some (r, s') \<and> hdr_inv s'"
  shows "\<exists>r s'. do { (r, s1) \<leftarrow> del hdl s; if r \<noteq> OK then Some (Err EFAULT, s1)
     else do { (r2, s2) \<leftarrow> commit_hdr_v3_0 e s1; Some (if r2 \<noteq> OK then Err EFAULT else OK, s2) } } = Some (r, s') \<and> hdr_inv s'"
proof -
  obtain r s1 where d: "del hdl s = Some (r, s1)" "hdr_inv s1" using assms by (auto simp: del_act_def bind_eq_Some_conv)
  obtain r2 s2 where "commit_hdr_v3_0 e s1 = Some (r2, s2)" "hdr_inv s2" by (rule commit_ok [OF d(2), of e]) blast
  then show ?thesis using d by simp
qed

lemma hdr_run_safe:
  assumes inv: "hdr_inv s" and may: "hdr_may e c s"
  shows "\<exists>r s'. hdr_run e c s = Some (r, s') \<and> hdr_inv s'"
proof (cases c)
  case (AddHdrs hs commit user)
  then show ?thesis using inv may batch_ok [OF add_hdr_op.each_safe [OF inv, where xs = "the hs" and e = e and user = user], of e commit]
    by (auto simp: ipa3_add_hdr_usr_def batch_loops forget_def split: option.splits)
next
  case (AddCtxs cs commit user)
  then show ?thesis using inv may batch_ok [OF add_ctx_op.each_safe [OF inv, where xs = "the cs" and e = e and user = user], of e commit]
    by (auto simp: ipa3_add_hdr_proc_ctx_def batch_loops forget_def split: option.splits)
next
  case (DelHdrs hs commit by_user)
  then show ?thesis using inv may batch_ok [OF del_hdr_op.each_safe [OF inv, where xs = "the hs" and by_user = by_user], of e commit]
    by (auto simp: ipa3_del_hdr_by_user_def batch_loops forget_def split: option.splits)
next
  case (DelCtxs hs commit by_user)
  then show ?thesis using inv may batch_ok [OF del_ctx_op.each_safe [OF inv, where xs = "the hs" and by_user = by_user], of e commit]
    by (auto simp: ipa3_del_hdr_proc_ctx_by_user_def batch_loops forget_def split: option.splits)
next
  case CommitHdr
  show ?thesis by (rule commit_ok [OF inv, of e]) (auto simp: CommitHdr ipa3_commit_hdr_def)
next
  case (ReleaseHdr hdl)
  then show ?thesis using release_ok [OF del_hdr_op.safe [OF inv, where x = hdl and by_user = False], of e] may by (simp add: ipa3_release_hdr_def)
next
  case (ReleaseCtx hdl)
  then show ?thesis using release_ok [OF del_ctx_op.safe [OF inv, where x = hdl and by_user = False], of e] may by (simp add: ipa3_release_hdr_proc_ctx_def)
next
  case (PutHdr hdl)
  show ?thesis
    by (rule handle_cases [OF inv [unfolded hdr_inv_def], of hdl]) (use inv in \<open>simp_all add: PutHdr ipa3_put_hdr_def\<close>)
qed

definition hdr_start :: hdr_db where
  "hdr_start = \<lparr>db_idr = [], db_hdr = Map.empty, db_ctx = Map.empty, db_off = Map.empty, db_next = 0,
     hdr_list = [], hdr_cnt = 0, hdr_tbl = \<lparr>ot_used = \<lambda>b. [], ot_free = \<lambda>b. [], ot_end = 0\<rparr>,
     ctx_list = [], ctx_cnt = 0, ctx_tbl = \<lparr>ot_used = \<lambda>b. [], ot_free = \<lambda>b. [], ot_end = 0\<rparr>,
     dma_mapped = [], dma_bufs = [], hdr_mem = None, ctx_mem = None, hw_hdr = []\<rparr>"

inductive hdr_reachable :: "hdr_db \<Rightarrow> bool" where
  start: "hdr_reachable hdr_start"
| call: "hdr_reachable s \<Longrightarrow> hdr_may e c s \<Longrightarrow> hdr_run e c s = Some (r, s') \<Longrightarrow> hdr_reachable s'"

lemma hdr_start_inv: "hdr_inv hdr_start"
  unfolding hdr_inv_def hdr_inv_in_def
  by (auto simp: hdr_start_def idr_inv_def lists_inv_def fresh_inv_def slots_inv_def own_inv_def tbl_inv_def slots_def
      ipa3_id_find_def)

lemma hdr_reachable_inv: "hdr_reachable s \<Longrightarrow> hdr_inv s"
proof (induction rule: hdr_reachable.induct)
  case (call s e c r s')
  then show ?case using hdr_run_safe [of s e c] by auto
qed (rule hdr_start_inv)

section \<open>A configuration and states for the witnesses\<close>

definition demo_hdr_env :: hdr_env where
  "demo_hdr_env = \<lparr>e_hdr_max = 32, e_name_max = 32, e_l2_max = 5, e_proc_max = 12, e_hdr_lcl = True, e_ctx_lcl = True,
     e_hdr_size = 24, e_hdr_size_ddr = 0, e_ctx_size = 64, e_ctx_size_ddr = 0, e_needed_len = (\<lambda>t. 16),
     e_alloc = (\<lambda>a. True), e_id = (\<lambda>a. True), e_map = (\<lambda>a. True), e_phys = (\<lambda>a. a),
     e_dma = (\<lambda>w n. True), e_cmd = (\<lambda>n. True), e_send = True, e_coal_ep = -1, e_ep = (\<lambda>p. -1),
     e_ep_cfg = (\<lambda>p. (False, 0, False)), e_cp_ctx = (\<lambda>x h. OK),
     e_stack = (\<lparr>lp_dst_pipe_valid = False, lp_dst_pipe = 0, lp_ofst_valid = False, lp_ofst = 0, lp_endianness = 0\<rparr>, 0)\<rparr>"

definition demo_add :: "string \<Rightarrow> byte list \<Rightarrow> hdr_add" where
  "demo_add name bs = \<lparr>a_name = name, a_hdr = bs, a_len = length bs, a_type = 0, a_partial = False,
     a_eth2_valid = False, a_eth2_ofst = 0\<rparr>"

definition demo_entry :: "string \<Rightarrow> byte list \<Rightarrow> nat option \<Rightarrow> nat \<Rightarrow> bool \<Rightarrow> hdr_entry" where
  "demo_entry name bs off i user = \<lparr>h_cookie = IPA_HDR_COOKIE, h_hdr = bs @ replicate (32 - length bs) 0, h_len = length bs,
     h_name = name, h_type = 0, h_partial = False, h_ddr = False, h_phys = 0, h_ctx = None, h_off = off, h_ref = 1, h_id = i,
     h_eth2_valid = False, h_eth2_ofst = 0, h_user_deleted = False, h_ipacm = user\<rparr>"

definition demo_bytes :: "byte list" where
  "demo_bytes = [1, 2, 3, 4, 5, 6, 7, 8, 9, 10, 11, 12, 8, 0]"

text \<open>Two headers in the table.\<close>

definition demo_hdrs :: hdr_db where
  "demo_hdrs = \<lparr>db_idr = [Some (PHdr 0), Some (PHdr 2)],
     db_hdr = [0 \<mapsto> demo_entry ''ipa_lan_hdr'' [1, 2, 3, 4] (Some 1) 0 False, 2 \<mapsto> demo_entry ''eth'' demo_bytes (Some 3) 1 True],
     db_ctx = Map.empty, db_off = [1 \<mapsto> \<lparr>o_offset = 0, o_bin = 0, o_ipacm = False\<rparr>, 3 \<mapsto> \<lparr>o_offset = 8, o_bin = 1, o_ipacm = True\<rparr>],
     db_next = 4, hdr_list = [2, 0], hdr_cnt = 2,
     hdr_tbl = \<lparr>ot_used = (\<lambda>b. [])(0 := [1], 1 := [3]), ot_free = \<lambda>b. [], ot_end = 24\<rparr>,
     ctx_list = [], ctx_cnt = 0, ctx_tbl = \<lparr>ot_used = \<lambda>b. [], ot_free = \<lambda>b. [], ot_end = 0\<rparr>,
     dma_mapped = [], dma_bufs = [], hdr_mem = None, ctx_mem = None, hw_hdr = []\<rparr>"

text \<open>A third one that no longer fits.\<close>

definition demo_long :: "byte list" where
  "demo_long = demo_bytes @ [8, 1, 8, 2]"

definition demo_ddr :: hdr_db where
  "demo_ddr = demo_hdrs\<lparr>db_idr := [Some (PHdr 0), Some (PHdr 2), Some (PHdr 4), Some (PCtx 5)],
     db_hdr := (db_hdr demo_hdrs)(4 \<mapsto> (demo_entry ''vlan'' demo_long None 2 True)\<lparr>h_ddr := True, h_phys := 4, h_ctx := Some 5\<rparr>),
     db_ctx := [5 \<mapsto> \<lparr>c_cookie = IPA_PROC_HDR_COOKIE, c_type = 0, c_l2tp = fst (e_stack demo_hdr_env), c_generic = 0,
       c_off = Some 6, c_hdr = Some 4, c_ref = 1, c_id = 3, c_user_deleted = False, c_ipacm = True\<rparr>],
     db_off := (db_off demo_hdrs)(6 \<mapsto> \<lparr>o_offset = 0, o_bin = 0, o_ipacm = True\<rparr>), db_next := 7,
     hdr_list := [4, 2, 0], hdr_cnt := 3, ctx_list := [5], ctx_cnt := 1,
     ctx_tbl := \<lparr>ot_used = (\<lambda>b. [])(0 := [6]), ot_free = \<lambda>b. [], ot_end = 32\<rparr>, dma_mapped := [4]\<rparr>"

lemmas hdr_eval = add_hdr_def add_hdr_proc_ctx_def hdr_link_def ctx_link_def new_hdr_def hdr_bin_def ctx_bin_def hdr_consts
  hdr_mem_size_def ctx_mem_size_def ipa3_id_alloc_def ipa3_id_find_def hdr_by_handle_def ctx_by_handle_def cookie_of_def
  slot_grow_def slot_take_def strlcpy_def demo_hdr_env_def demo_add_def demo_entry_def demo_bytes_def demo_long_def Let_def

lemmas demo_states = hdr_start_def demo_hdrs_def demo_ddr_def

lemma demo_adds:
  "hdr_run demo_hdr_env (AddHdrs (Some [demo_add ''ipa_lan_hdr'' [1, 2, 3, 4]]) False False) hdr_start =
   Some (OK, snd (the (hdr_run demo_hdr_env (AddHdrs (Some [demo_add ''ipa_lan_hdr'' [1, 2, 3, 4]]) False False) hdr_start)))"
  "hdr_run demo_hdr_env (AddHdrs (Some [demo_add ''eth'' demo_bytes]) False True)
     (snd (the (hdr_run demo_hdr_env (AddHdrs (Some [demo_add ''ipa_lan_hdr'' [1, 2, 3, 4]]) False False) hdr_start))) = Some (OK, demo_hdrs)"
  "hdr_run demo_hdr_env (AddHdrs (Some [demo_add ''vlan'' demo_long]) False True) demo_hdrs = Some (OK, demo_ddr)"
    apply (simp add: hdr_eval hdr_start_def forget_def ipa3_add_hdr_usr_def finish_batch_def)
   apply (simp add: hdr_eval demo_states forget_def ipa3_add_hdr_usr_def finish_batch_def numeral_eq_Suc)
  apply (simp add: hdr_eval demo_states forget_def ipa3_add_hdr_usr_def finish_batch_def numeral_eq_Suc fun_upd_twist)
  done


lemma reach_add:
  assumes "hdr_reachable s" "\<And>ha. ha \<in> set hs \<Longrightarrow> a_len ha \<le> length (a_hdr ha)"
    and run: "hdr_run e (AddHdrs (Some hs) commit user) s = Some (r, s')"
  shows "hdr_reachable s'"
proof (rule hdr_reachable.call [OF assms(1) _ run])
  have "each_may may_add_hdr (add_hdr_act e user) hs s" using assms(2)
    by (induction hs arbitrary: s) (auto simp: may_add_hdr_def split: option.splits)
  then show "hdr_may e (AddHdrs (Some hs) commit user) s" by simp
qed

lemma demo_reachable: "hdr_reachable demo_hdrs" "hdr_reachable demo_ddr"
proof -
  show h: "hdr_reachable demo_hdrs"
    by (rule reach_add [OF reach_add [OF hdr_reachable.start _ demo_adds(1)] _ demo_adds(2)]) (simp_all add: demo_add_def)
  show "hdr_reachable demo_ddr" by (rule reach_add [OF h _ demo_adds(3)]) (simp add: demo_add_def)
qed

section \<open>Properties\<close>


lemma demo_users: "hdr_users {} demo_ddr 4 ((demo_entry ''vlan'' demo_long None 2 True)\<lparr>h_ddr := True, h_phys := 4, h_ctx := Some 5\<rparr>) = {}"
  by (auto simp: hdr_users_def demo_ddr_def demo_hdrs_def split: if_splits)


text \<open>
  C27: In every reachable state the slot of a header has room for it, lies before the end of the
  table, and never overlaps the slot of another header.
\<close>

theorem hdr_slots_apart:
  assumes "hdr_reachable s" "hdr_at s a = Some (p, n, bs)"
  shows "length bs \<le> n \<and> p + n \<le> ot_end (hdr_tbl s) \<and>
    (\<forall>b q m cs. hdr_at s b = Some (q, m, cs) \<longrightarrow> a \<noteq> b \<longrightarrow> p + n \<le> q \<or> q + m \<le> p)"
proof -
  note i = hdr_reachable_inv [OF assms(1), unfolded hdr_inv_def]
  obtain h where h: "db_hdr s a = Some h" "\<not> h_ddr h"
    using assms(2) by (auto simp: hdr_at_def bind_eq_Some_conv split: if_splits)
  show ?thesis using hdr_at_inv [OF i h] assms(2) hdr_at_apart [OF i assms(2)] by auto
qed

lemma demo_at: "hdr_at demo_hdrs 0 = Some (0, 8, [1, 2, 3, 4])" "hdr_at demo_hdrs 2 = Some (8, 16, demo_bytes)"
  by (simp_all add: hdr_at_def demo_hdrs_def demo_entry_def hdr_consts demo_bytes_def)

lemma hdr_slots_apart_witness:
  "hdr_at demo_hdrs 0 = Some (0, 8, [1, 2, 3, 4]) \<and> hdr_at demo_hdrs 2 = Some (8, 16, demo_bytes) \<and>
   length demo_bytes \<le> 16 \<and> 8 + 16 \<le> ot_end (hdr_tbl demo_hdrs) \<and> (8 + 16 \<le> (0 :: nat) \<or> 0 + 8 \<le> (8 :: nat))"
  using hdr_slots_apart [OF demo_reachable(1) demo_at(2)] demo_at by (metis zero_neq_numeral)

text \<open>
  C26: After a successful commit the table the hardware uses holds the bytes of every header of
  the table at the slot of the header, and has the size of the table.
\<close>

theorem hdr_commit_image:
  assumes "hdr_reachable s" "commit_hdr_v3_0 e s = Some (OK, s')" "db_hdr s a = Some h" "\<not> h_ddr h"
  shows "\<exists>p n. hdr_at s a = Some (p, n, take (h_len h) (h_hdr h)) \<and> p + n \<le> length (hw_hdr s') \<and>
    take (h_len h) (drop p (hw_hdr s')) = take (h_len h) (h_hdr h) \<and> length (hw_hdr s') = ot_end (hdr_tbl s)"
proof -
  note inv = hdr_reachable_inv [OF assms(1)] and i = hdr_reachable_inv [OF assms(1), unfolded hdr_inv_def]
  obtain p n where p: "hdr_at s a = Some (p, n, take (h_len h) (h_hdr h))" "p + n \<le> ot_end (hdr_tbl s)"
      "h_len h = length (take (h_len h) (h_hdr h))" using hdr_at_inv [OF i assms(3,4)] by blast
  have img: "copy_hdrs (hdr_list s) s (replicate (ot_end (hdr_tbl s)) 0) = Some (hw_hdr s')"
    by (rule commit_ok [OF inv, of e]) (use assms(2) in auto)
  have l: "set (hdr_list s) = dom (db_hdr s)" "distinct (hdr_list s)" using hdr_inv_inD(2) [OF i] by (simp_all add: lists_inv_def)
  have "length (hw_hdr s') = ot_end (hdr_tbl s)" using copy_hdrs_ok [OF i, of "hdr_list s" "replicate (ot_end (hdr_tbl s)) 0"] img l(1) by auto
  moreover have "a \<in> set (hdr_list s)" using l assms(3) by auto
  ultimately show ?thesis using copy_hdrs_image [OF i img _ l(2) _ p(1)] l p by auto
qed

lemma demo_commit: "map_option fst (commit_hdr_v3_0 demo_hdr_env demo_hdrs) = Some OK"
  by (simp add: commit_hdr_v3_0_def generate_hdr_hw_tbl_def dma_alloc_def demo_hdrs_def demo_entry_def demo_hdr_env_def memcpy_at_def
      demo_bytes_def generate_hdr_proc_ctx_hw_tbl_def commit_cmds_def hdr_consts hdr_mem_size_def ctx_mem_size_def Let_def)

lemma hdr_commit_image_witness:
  "\<exists>s'. commit_hdr_v3_0 demo_hdr_env demo_hdrs = Some (OK, s') \<and> take (length demo_bytes) (drop 8 (hw_hdr s')) = demo_bytes"
proof -
  obtain s' where c: "commit_hdr_v3_0 demo_hdr_env demo_hdrs = Some (OK, s')" using demo_commit by auto
  have h: "db_hdr demo_hdrs 2 = Some (demo_entry ''eth'' demo_bytes (Some 3) 1 True)" by (simp add: demo_hdrs_def)
  show ?thesis using hdr_commit_image [OF demo_reachable(1) c h] c demo_at(2) by (simp add: demo_entry_def)
qed

text \<open>Deleting a header that only its owner refers to.\<close>

lemma del_sole:
  assumes inv: "hdr_inv s" and h: "db_hdr s a = Some h" "hdr_users {} s a h = {}" "h_ref h = 1"
  shows "\<exists>s'. del_hdr (h_id h) False s = Some (OK, s') \<and> hdr_inv s' \<and> hdr_dropped s a h False s'"
proof -
  note i = inv [unfolded hdr_inv_def]
  note f = handle_of(1) [OF i h(1)]
  have "may_del_hdr {} (h_id h) False s" using h f hdr_inv_inD(6) [OF i h(1)]
    by (auto simp: may_del_hdr_def hdr_shape_def)
  then show ?thesis
  proof (rule del_hdr_ok [OF i])
    fix err assume "del_hdr (h_id h) False s = Some (Err err, s)"
    then have False using h(1) f hdr_inv_inD(6) [OF i h(1)]
      by (auto simp: del_hdr_def hdr_drop_def Let_def hdr_shape_def bind_eq_Some_conv split: if_splits)
    then show ?thesis ..
  next
    fix b k s'
    assume d: "del_hdr (h_id h) False s = Some (OK, s')" "hdr_inv_in {} {} s'" "db_hdr s b = Some k"
      "ipa3_id_find (h_id h) (db_idr s) = Some (PHdr b)" "hdr_dropped s b k False s'"
    have "ipa3_id_find (h_id h) (db_idr s) = Some (PHdr a)" using hdr_inv_inD(6) [OF i h(1)] by (simp add: hdr_shape_def)
    then show ?thesis using d h(1) by (auto simp: hdr_inv_def)
  qed
qed

text \<open>
  C29: A header that was added is found under its name, by copy with the bytes and attributes it
  was given and by get with the handle that was returned.
\<close>

theorem hdr_add_copy:
  assumes "hdr_reachable s" "a_len ha \<le> length (a_hdr ha)" "0 < e_name_max e" "add_hdr e ha user s = Some (OK, Some i, s')"
  shows "ipa3_copy_hdr e (Some (a_name ha)) s' = Some (OK, Some \<lparr>cp_hdr = take (a_len ha) (a_hdr ha), cp_len = a_len ha,
      cp_type = a_type ha, cp_partial = a_partial ha, cp_eth2_valid = a_eth2_valid ha, cp_eth2_ofst = a_eth2_ofst ha\<rparr>) \<and>
    ipa3_get_hdr e (Some (a_name ha)) s' = Some (OK, Some i)"
proof -
  obtain a h where n: "db_hdr s' a = Some h" "hdr_holds e ha user h" "h_id h = i" "hdr_list s' = a # hdr_list s"
    by (rule add_hdr_ok [OF hdr_reachable_inv [OF assms(1)] assms(2), of e user]) (use assms(4) in auto)
  have "ipa_find_hdr e (take (e_name_max e - 1) (a_name ha)) s' = Some (Some h)"
    using n assms(3) by (auto simp: ipa_find_hdr_def hdr_holds_def Let_def new_hdr_def strlcpy_def)
  then show ?thesis using n(2,3) assms(2) by (simp add: ipa3_copy_hdr_def ipa3_get_hdr_def hdr_holds_def Let_def new_hdr_def)
qed

lemma demo_add: "add_hdr demo_hdr_env (demo_add ''vlan'' demo_long) True demo_hdrs = Some (OK, Some 2, demo_ddr)"
  by (simp add: hdr_eval demo_states numeral_eq_Suc fun_upd_twist)

lemma hdr_add_copy_witness:
  "ipa3_get_hdr demo_hdr_env (Some ''vlan'') demo_ddr = Some (OK, Some 2)"
  using hdr_add_copy [OF demo_reachable(1) _ _ demo_add] by (simp add: demo_add_def demo_hdr_env_def)

text \<open>
  C30: Deleting a header that was just added restores the headers and contexts from before, the
  context that came with a header outside the table included; the handle is dead and a second
  deletion is refused.
\<close>

theorem hdr_add_delete:
  assumes "hdr_reachable s" "a_len ha \<le> length (a_hdr ha)" "add_hdr e ha user s = Some (OK, Some i, s')"
  shows "\<exists>s''. del_hdr i False s' = Some (OK, s'') \<and> db_hdr s'' = db_hdr s \<and> db_ctx s'' = db_ctx s \<and>
    ipa3_id_find i (db_idr s'') = None \<and> del_hdr i False s'' = Some (Err EINVAL, s'')"
proof -
  obtain a h where n: "hdr_inv s'" "db_hdr s a = None" "db_hdr s' = (db_hdr s)(a \<mapsto> h)" "hdr_holds e ha user h" "h_id h = i"
      "ipa3_id_find i (db_idr s') = Some (PHdr a)" "hdr_alone s s' a h"
    by (rule add_hdr_ok [OF hdr_reachable_inv [OF assms(1)] assms(2), of e user]) (use assms(3) in auto)
  have one: "h_ref h = 1" using n(4) by (simp add: hdr_holds_def Let_def)
  have "db_hdr s' a = Some h" "hdr_users {} s' a h = {}" using n by (simp_all add: hdr_alone_def)
  from del_sole [OF n(1) this one] obtain s'' where d: "del_hdr (h_id h) False s' = Some (OK, s'')"
      "hdr_dropped s' a h False s''" by blast
  with one n have "db_hdr s'' = db_hdr s" "db_ctx s'' = db_ctx s" "ipa3_id_find i (db_idr s'') = None"
    by (auto simp: hdr_dropped_def hdr_alone_def fun_upd_idem split: option.splits)
  then show ?thesis using d(1) n(5) by (simp add: del_hdr_def hdr_by_handle_def)
qed

lemma hdr_add_delete_witness:
  "\<exists>s''. del_hdr 2 False demo_ddr = Some (OK, s'') \<and> db_hdr s'' = db_hdr demo_hdrs \<and> ipa3_id_find 2 (db_idr s'') = None"
  using hdr_add_delete [OF demo_reachable(1) _ demo_add] by (auto simp: demo_add_def)

text \<open>
  After a user deleted a header, a second deletion by a user with the same handle is
  refused and changes nothing, also when others still hold references to the header.
\<close>

theorem hdr_second_user_delete:
  assumes "hdr_reachable s" "may_del_hdr {} hdl True s" "del_hdr hdl True s = Some (OK, s')"
  shows "del_hdr hdl True s' = Some (Err EINVAL, s')"
proof (rule del_hdr_ok [OF hdr_reachable_inv [OF assms(1), unfolded hdr_inv_def] assms(2)])
  fix a h s1 assume r: "del_hdr hdl True s = Some (OK, s1)" and i: "hdr_inv_in {} {} s1" and h: "db_hdr s a = Some h" "h_id h = hdl"
    "ipa3_id_find hdl (db_idr s) = Some (PHdr a)" and d: "hdr_dropped s a h True s1"
  have s1: "s1 = s'" using r assms(3) by simp
  show ?thesis
  proof (cases "h_ref h = 1")
    case True
    then show ?thesis using d h(2) by (simp add: hdr_dropped_def s1 del_hdr_def hdr_by_handle_def)
  next
    case False
    let ?k = "h\<lparr>h_user_deleted := True, h_ref := h_ref h - 1\<rparr>"
    have k: "db_hdr s' a = Some ?k" using d False by (simp add: hdr_dropped_def s1)
    then show ?thesis using handle_of(1) [OF i, of a ?k] hdr_inv_inD(6) [OF i, of a ?k] h(2)
      by (auto simp: s1 del_hdr_def hdr_shape_def split: if_splits)
  qed
qed (use assms(3) in auto)


lemma hdr_second_user_delete_witness:
  "\<exists>s'. del_hdr 1 True demo_hdrs = Some (OK, s') \<and> del_hdr 1 True s' = Some (Err EINVAL, s')"
proof -
  have no: "hdr_users {} demo_hdrs a h = {}" for a h by (simp add: hdr_users_def demo_hdrs_def)
  have may: "may_del_hdr {} 1 True demo_hdrs"
    unfolding may_del_hdr_def no by (simp add: ipa3_id_find_def demo_hdrs_def demo_entry_def IPA_LAN_RX_HDR_NAME_def)
  have "\<exists>s'. del_hdr 1 True demo_hdrs = Some (OK, s')"
    by (simp add: del_hdr_def hdr_drop_def hdr_by_handle_def cookie_of_def ipa3_id_find_def demo_hdrs_def demo_entry_def
        IPA_LAN_RX_HDR_NAME_def Let_def)
  then obtain s' where "del_hdr 1 True demo_hdrs = Some (OK, s')" ..
  then show ?thesis using hdr_second_user_delete [OF demo_reachable(1) may] by blast
qed



text \<open>
  A user that deletes a header outside the table that is named like the default header
  makes the driver follow a null pointer.
\<close>

theorem hdr_user_delete_null_slot:
  assumes "hdr_reachable s" "db_hdr s a = Some h" "h_ddr h" "h_name h = IPA_LAN_RX_HDR_NAME" "\<not> h_user_deleted h"
  shows "del_hdr (h_id h) True s = None"
proof -
  note i = hdr_reachable_inv [OF assms(1), unfolded hdr_inv_def]
  have "h_off h = None" using hdr_inv_inD(6) [OF i assms(2)] assms(3) by (simp add: hdr_shape_def)
  then show ?thesis using assms by (simp add: del_hdr_def handle_of(1) [OF i assms(2)])
qed

definition demo_lan :: hdr_db where
  "demo_lan = snd (snd (the (add_hdr demo_hdr_env (demo_add ''ipa_lan_hdr'' demo_long) True demo_hdrs)))"

lemma hdr_user_delete_null_slot_witness: "del_hdr 2 True demo_lan = None"
proof -
  have "\<exists>s' h. add_hdr demo_hdr_env (demo_add ''ipa_lan_hdr'' demo_long) True demo_hdrs = Some (OK, Some 2, s') \<and>
      db_hdr s' 4 = Some h \<and> h_ddr h \<and> h_name h = ''ipa_lan_hdr'' \<and> \<not> h_user_deleted h \<and> h_id h = 2"
    by (simp add: hdr_eval demo_states)
  then obtain s' h where a: "add_hdr demo_hdr_env (demo_add ''ipa_lan_hdr'' demo_long) True demo_hdrs = Some (OK, Some 2, s')"
      "db_hdr s' 4 = Some h" "h_ddr h" "h_name h = ''ipa_lan_hdr''" "\<not> h_user_deleted h" "h_id h = 2" by blast
  have "hdr_run demo_hdr_env (AddHdrs (Some [demo_add ''ipa_lan_hdr'' demo_long]) False True) demo_hdrs = Some (OK, s')"
    using a(1) by (simp add: ipa3_add_hdr_usr_def finish_batch_def forget_def)
  from reach_add [OF demo_reachable(1) _ this] have "hdr_reachable s'" by (simp add: demo_add_def)
  then show ?thesis using hdr_user_delete_null_slot [of s' 4 h] a by (simp add: demo_lan_def IPA_LAN_RX_HDR_NAME_def)
qed

text \<open>A kernel context of a user's header.\<close>

definition demo_ctx_add :: ctx_add where
  "demo_ctx_add = \<lparr>pa_type = 1, pa_hdl = 1, pa_l2tp = fst (e_stack demo_hdr_env), pa_generic = 0\<rparr>"

definition demo_shared :: hdr_db where
  "demo_shared = demo_hdrs\<lparr>db_idr := [Some (PHdr 0), Some (PHdr 2), Some (PCtx 4)],
     db_hdr := (db_hdr demo_hdrs)(2 \<mapsto> (demo_entry ''eth'' demo_bytes (Some 3) 1 True)\<lparr>h_ref := 2\<rparr>),
     db_ctx := [4 \<mapsto> \<lparr>c_cookie = IPA_PROC_HDR_COOKIE, c_type = 1, c_l2tp = fst (e_stack demo_hdr_env), c_generic = 0,
       c_off = Some 5, c_hdr = Some 2, c_ref = 1, c_id = 2, c_user_deleted = False, c_ipacm = False\<rparr>],
     db_off := (db_off demo_hdrs)(5 \<mapsto> \<lparr>o_offset = 0, o_bin = 0, o_ipacm = False\<rparr>), db_next := 6,
     ctx_list := [4], ctx_cnt := 1, ctx_tbl := \<lparr>ot_used = (\<lambda>b. [])(0 := [5]), ot_free = \<lambda>b. [], ot_end = 32\<rparr>\<rparr>"

lemma demo_shared_run:
  "hdr_run demo_hdr_env (AddCtxs (Some [demo_ctx_add]) False False) demo_hdrs = Some (OK, demo_shared)"
  by (simp add: hdr_eval demo_states demo_shared_def demo_ctx_add_def forget_def ipa3_add_hdr_proc_ctx_def finish_batch_def
      add_ref_def numeral_eq_Suc fun_upd_twist)

lemma demo_shared_reachable: "hdr_reachable demo_shared"
  by (rule hdr_reachable.call [OF demo_reachable(1) _ demo_shared_run])
     (simp add: may_add_ctx_def demo_ctx_add_def ipa3_id_find_def demo_hdrs_def demo_entry_def split: option.splits)

text \<open>
  In a reachable state in which a kernel context uses a header installed by the user, the
  reset of the user part frees the header under the context, and the commit at its end follows
  the dangling pointer.
\<close>

theorem hdr_user_reset_dangles:
  "hdr_reachable demo_shared \<and> ipa3_reset_hdr demo_hdr_env (\<lambda>ip user s. Some s) True demo_shared = None"
  by (simp add: demo_shared_reachable)
     (simp add: ipa3_reset_hdr_def demo_shared_def demo_hdrs_def demo_entry_def IPA_LAN_RX_HDR_NAME_def ipa3_id_find_def
      reset_one_hdr_def ipa3_id_remove_def commit_hdr_v3_0_def generate_hdr_hw_tbl_def dma_alloc_def demo_hdr_env_def
      memcpy_at_def demo_bytes_def generate_hdr_proc_ctx_hw_tbl_def slot_release_def hdr_consts Let_def)

end
