(* ===== verification/Ipa_Ecm.thy ===== *)
theory Ipa_Ecm
  imports Ipa_Hdr_Ops Ipa_Pm
begin

text \<open>
  The ECM network driver, \<open>ipa_clients/ecm_ipa.c\<close>: a client of the header tables and of the power
  manager. Its calls run on the models of those components; the network stack, the end points and
  the messages to user space are answers of an environment and records of what was asked of them.
\<close>

section \<open>Data\<close>

datatype ecm_state =
  ECM_UNLOADED | ECM_INITIALIZED | ECM_CONNECTED | ECM_UP | ECM_CONNECTED_AND_UP | ECM_INVALID

datatype ecm_operation =
  ECM_INITIALIZE | ECM_CONNECT | ECM_OPEN | ECM_STOP | ECM_DISCONNECT | ECM_CLEANUP

definition ECM_IPA_IPV4_HDR_NAME :: string where "ECM_IPA_IPV4_HDR_NAME = ''ecm_eth_ipv4''"
definition ECM_IPA_IPV6_HDR_NAME :: string where "ECM_IPA_IPV6_HDR_NAME = ''ecm_eth_ipv6''"
definition DEFAULT_OUTSTANDING_HIGH :: "8 word" where "DEFAULT_OUTSTANDING_HIGH = 64"
definition DEFAULT_OUTSTANDING_LOW :: "8 word" where "DEFAULT_OUTSTANDING_LOW = 32"
definition NO_PM_HDL :: nat where "NO_PM_HDL = 4294967295"

text \<open>
  \<open>struct ecm_ipa_dev\<close> with what the driver uses of its network device: name, address, carrier,
  transmit queue and statistics.
\<close>

record ecm_dev =
  d_name :: string
  d_addr :: "byte list"
  d_carrier :: bool
  d_queue_stopped :: bool
  d_tx_packets :: nat
  d_tx_bytes :: nat
  d_tx_errors :: int
  d_rx_packets :: nat
  d_rx_bytes :: nat
  d_v4_hdl :: nat
  d_v6_hdl :: nat
  d_usb_to_ipa_hdl :: nat
  d_ipa_to_usb_hdl :: nat
  d_outstanding :: int
  d_high :: "8 word"
  d_low :: "8 word"
  d_state :: ecm_state
  d_ready :: bool
  d_ipa_to_usb_client :: int
  d_usb_to_ipa_client :: int
  d_pm_hdl :: nat
  d_vlan :: bool

record ecm_params =
  ep_host :: "byte list"
  ep_device :: "byte list"
  ep_ready :: bool

text \<open>The properties of a pipe for user space, and the part of an end-point configuration that is set.\<close>

record intf_prop =
  pr_ip :: nat
  pr_pipe :: int
  pr_hdr_name :: string
  pr_l2_type :: int

record ecm_ep_cfg =
  epc_hdr_len :: nat
  epc_src_nat :: bool
  epc_basic_mode :: bool
  epc_metadata_valid :: bool

datatype ecm_msg = MsgConnect string | MsgDisconnect string

datatype netdev_tx = TX_OK | TX_BUSY

record ecm =
  ecm_ctx :: "ecm_dev option"
  ecm_hdr :: hdr_db
  ecm_ipa :: ipa
  ecm_intfs :: "(intf_prop list \<times> intf_prop list) list"
  ecm_eps :: "(nat \<times> ecm_ep_cfg) list"
  ecm_msgs :: "ecm_msg list"
  ecm_ready_calls :: nat
  ecm_delivered :: "nat list"
  ecm_freed :: nat

record ecm_env =
  en_hdr :: hdr_env
  en_ipa :: ipa_env
  en_l2_eth :: int
  en_l2_vlan :: int
  en_alloc_netdev :: bool
  en_vlan_mode :: "rc \<times> bool"
  en_kzalloc :: bool
  en_register_netdev :: rc
  en_ifname :: string
  en_handle_valid :: "nat \<Rightarrow> bool"
  en_client_of :: "nat \<Rightarrow> int"
  en_register_intf :: rc
  en_deregister_intf :: rc
  en_cfg_ep :: "nat \<Rightarrow> rc"
  en_send_msg :: rc
  en_tx_dp :: rc

section \<open>The state machine\<close>

fun ecm_next_state :: "ecm_state \<Rightarrow> ecm_operation \<Rightarrow> ecm_state" where
  "ecm_next_state ECM_UNLOADED opr = (if opr = ECM_INITIALIZE then ECM_INITIALIZED else ECM_INVALID)"
| "ecm_next_state ECM_INITIALIZED opr =
     (if opr = ECM_CONNECT then ECM_CONNECTED else if opr = ECM_OPEN then ECM_UP
      else if opr = ECM_CLEANUP then ECM_UNLOADED else ECM_INVALID)"
| "ecm_next_state ECM_CONNECTED opr =
     (if opr = ECM_DISCONNECT then ECM_INITIALIZED else if opr = ECM_OPEN then ECM_CONNECTED_AND_UP
      else ECM_INVALID)"
| "ecm_next_state ECM_UP opr =
     (if opr = ECM_STOP then ECM_INITIALIZED else if opr = ECM_CONNECT then ECM_CONNECTED_AND_UP
      else if opr = ECM_CLEANUP then ECM_UNLOADED else ECM_INVALID)"
| "ecm_next_state ECM_CONNECTED_AND_UP opr =
     (if opr = ECM_STOP then ECM_CONNECTED else if opr = ECM_DISCONNECT then ECM_UP else ECM_INVALID)"
| "ecm_next_state ECM_INVALID opr = ECM_INVALID"

section \<open>Headers\<close>

text \<open>The sixteen bits of an EtherType in network order.\<close>

definition be16 :: "nat \<Rightarrow> byte list" where
  "be16 n = [word_of_nat (n div 256), word_of_nat n]"

definition ETH_P_IP :: nat where "ETH_P_IP = 0x0800"
definition ETH_P_IPV6 :: nat where "ETH_P_IPV6 = 0x86DD"
definition ETH_P_8021Q :: nat where "ETH_P_8021Q = 0x8100"

definition pad_hdr :: "ecm_env \<Rightarrow> byte list \<Rightarrow> byte list" where
  "pad_hdr e bs = bs @ replicate (e_hdr_max (en_hdr e) - length bs) 0"

definition ecm_ipa_prepare_header_insertion ::
  "ecm_env \<Rightarrow> nat \<Rightarrow> string \<Rightarrow> byte list \<Rightarrow> byte list \<Rightarrow> bool \<Rightarrow> hdr_add" where
  "ecm_ipa_prepare_header_insertion e eth_type name dst_mac src_mac is_vlan_mode =
     (let name' = strlcpy (e_name_max (en_hdr e)) name; dst = take 6 dst_mac; src = take 6 src_mac in
      if is_vlan_mode
      then \<lparr>a_name = name', a_hdr = pad_hdr e (dst @ src @ be16 ETH_P_8021Q @ [0, 0] @ be16 eth_type), a_len = 18,
            a_type = en_l2_vlan e, a_partial = False, a_eth2_valid = True, a_eth2_ofst = 0\<rparr>
      else \<lparr>a_name = name', a_hdr = pad_hdr e (dst @ src @ be16 eth_type), a_len = 14,
            a_type = en_l2_eth e, a_partial = False, a_eth2_valid = True, a_eth2_ofst = 0\<rparr>)"

text \<open>A member that failed keeps the zero handle of the request.\<close>

definition hdl_of :: "nat option \<Rightarrow> nat" where
  "hdl_of p = (case p of None \<Rightarrow> 0 | Some h \<Rightarrow> h)"

definition ecm_ipa_rules_cfg ::
  "ecm_env \<Rightarrow> ecm_dev \<Rightarrow> byte list \<Rightarrow> byte list \<Rightarrow> ecm \<Rightarrow> (rc \<times> ecm_dev \<times> ecm) option" where
  "ecm_ipa_rules_cfg e d dst_mac src_mac w =
     (if \<not> en_kzalloc e then Some (Err ENOMEM, d, w)
      else do {
        let v4 = ecm_ipa_prepare_header_insertion e ETH_P_IP ECM_IPA_IPV4_HDR_NAME dst_mac src_mac (d_vlan d);
        let v6 = ecm_ipa_prepare_header_insertion e ETH_P_IPV6 ECM_IPA_IPV6_HDR_NAME dst_mac src_mac (d_vlan d);
        (r, rs, hs) \<leftarrow> ipa3_add_hdr (en_hdr e) (Some [v4, v6]) True (ecm_hdr w);
        let w1 = w\<lparr>ecm_hdr := hs\<rparr>;
        if r \<noteq> OK then Some (r, d, w1)
        else if fst (rs ! 0) \<noteq> 0 then Some (Err EPERM, d, w1)
        else if fst (rs ! 1) \<noteq> 0 then Some (Err EPERM, d, w1)
        else Some (OK, d\<lparr>d_v4_hdl := hdl_of (snd (rs ! 0)), d_v6_hdl := hdl_of (snd (rs ! 1))\<rparr>, w1) })"

definition ecm_ipa_rules_destroy :: "ecm_env \<Rightarrow> ecm_dev \<Rightarrow> ecm \<Rightarrow> ecm option" where
  "ecm_ipa_rules_destroy e d w =
     (if \<not> en_kzalloc e then Some w
      else do {
        (r, rs, hs) \<leftarrow> ipa3_del_hdr (en_hdr e) (Some [d_v4_hdl d, d_v6_hdl d]) True (ecm_hdr w);
        Some (w\<lparr>ecm_hdr := hs\<rparr>) })"

section \<open>Start and end\<close>

text \<open>\<open>is_valid_ether_addr\<close> of the kernel: neither multicast nor zero.\<close>

definition is_valid_ether_addr :: "byte list \<Rightarrow> bool" where
  "is_valid_ether_addr a = (\<not> bit (a ! 0) 0 \<and> list_ex (\<lambda>b. b \<noteq> 0) (take 6 a))"

definition ecm_ipa_set_device_ethernet_addr :: "ecm_dev \<Rightarrow> byte list \<Rightarrow> rc \<times> ecm_dev" where
  "ecm_ipa_set_device_ethernet_addr d device_ethaddr =
     (if \<not> is_valid_ether_addr device_ethaddr then (Err EINVAL, d) else (OK, d\<lparr>d_addr := take 6 device_ethaddr\<rparr>))"

definition new_ecm_dev :: "ecm_params \<Rightarrow> ecm_dev" where
  "new_ecm_dev pr =
     \<lparr>d_name = ''ecm%d'', d_addr = replicate 6 0, d_carrier = True, d_queue_stopped = False, d_tx_packets = 0,
      d_tx_bytes = 0, d_tx_errors = 0, d_rx_packets = 0, d_rx_bytes = 0, d_v4_hdl = 0, d_v6_hdl = 0,
      d_usb_to_ipa_hdl = 0, d_ipa_to_usb_hdl = 0, d_outstanding = 0, d_high = DEFAULT_OUTSTANDING_HIGH,
      d_low = DEFAULT_OUTSTANDING_LOW, d_state = ECM_UNLOADED, d_ready = ep_ready pr, d_ipa_to_usb_client = 0,
      d_usb_to_ipa_client = 0, d_pm_hdl = 0, d_vlan = False\<rparr>"

text \<open>The device exists outside the call only when the call got to its end.\<close>

definition ecm_ipa_init :: "ecm_env \<Rightarrow> ecm_params option \<Rightarrow> ecm \<Rightarrow> (rc \<times> ecm) option" where
  "ecm_ipa_init e params w =
     (case params of
        None \<Rightarrow> Some (Err EINVAL, w)
      | Some pr \<Rightarrow>
          if \<not> en_alloc_netdev e then Some (Err ENOMEM, w)
          else case ecm_ipa_set_device_ethernet_addr (new_ecm_dev pr) (ep_device pr) of
            (Err err, d) \<Rightarrow> Some (Err err, w)
          | (OK, d) \<Rightarrow>
              (case en_vlan_mode e of
                 (Err err, v) \<Rightarrow> Some (OK, w)
               | (OK, v) \<Rightarrow> do {
                   (r, d1, w1) \<leftarrow> ecm_ipa_rules_cfg e (d\<lparr>d_vlan := v\<rparr>) (ep_host pr) (ep_device pr) w;
                   if r \<noteq> OK then Some (r, w1)
                   else (case en_register_netdev e of
                           Err err \<Rightarrow> do { w2 \<leftarrow> ecm_ipa_rules_destroy e d1 w1; Some (Err err, w2) }
                         | OK \<Rightarrow> Some (OK, w1\<lparr>ecm_ctx := Some (d1\<lparr>d_name := en_ifname e, d_carrier := False,
                                     d_queue_stopped := True, d_state := ECM_INITIALIZED\<rparr>)\<rparr>)) }))"

definition ecm_ipa_cleanup :: "ecm_env \<Rightarrow> ecm \<Rightarrow> ecm option" where
  "ecm_ipa_cleanup e w =
     (case ecm_ctx w of
        None \<Rightarrow> Some w
      | Some d \<Rightarrow>
          let st = ecm_next_state (d_state d) ECM_CLEANUP in
          if st = ECM_INVALID then Some w
          else do { w1 \<leftarrow> ecm_ipa_rules_destroy e d w; Some (w1\<lparr>ecm_ctx := None\<rparr>) })"

section \<open>Connection\<close>

definition ecm_ipa_register_properties :: "ecm_env \<Rightarrow> ecm_dev \<Rightarrow> ecm \<Rightarrow> rc \<times> ecm" where
  "ecm_ipa_register_properties e d w =
     (let l2 = (if d_vlan d then en_l2_vlan e else en_l2_eth e);
          prop = \<lambda>ip pipe name. \<lparr>pr_ip = ip, pr_pipe = pipe, pr_hdr_name = name, pr_l2_type = l2\<rparr>;
          tx = [prop 4 (d_ipa_to_usb_client d) (strlcpy (e_name_max (en_hdr e)) ECM_IPA_IPV4_HDR_NAME),
                prop 6 (d_ipa_to_usb_client d) (strlcpy (e_name_max (en_hdr e)) ECM_IPA_IPV6_HDR_NAME)];
          rx = [prop 4 (d_usb_to_ipa_client d) [], prop 6 (d_usb_to_ipa_client d) []]
      in case en_register_intf e of
           OK \<Rightarrow> (OK, w\<lparr>ecm_intfs := (tx, rx) # ecm_intfs w\<rparr>)
         | Err err \<Rightarrow> (Err err, w))"

text \<open>The first interface of the name leaves, if the deregistration succeeds.\<close>

definition ecm_ipa_deregister_properties :: "ecm_env \<Rightarrow> ecm \<Rightarrow> ecm" where
  "ecm_ipa_deregister_properties e w =
     (if en_deregister_intf e = OK then w\<lparr>ecm_intfs := tl (ecm_intfs w)\<rparr> else w)"

definition ecm_ipa_ep_registers_cfg :: "ecm_env \<Rightarrow> nat \<Rightarrow> nat \<Rightarrow> bool \<Rightarrow> ecm \<Rightarrow> rc \<times> ecm" where
  "ecm_ipa_ep_registers_cfg e usb_to_ipa_hdl ipa_to_usb_hdl is_vlan_mode w =
     (let len = 14 + (if is_vlan_mode then 4 else 0);
          prod = \<lparr>epc_hdr_len = len, epc_src_nat = True, epc_basic_mode = True, epc_metadata_valid = True\<rparr>;
          cons = \<lparr>epc_hdr_len = len, epc_src_nat = False, epc_basic_mode = False, epc_metadata_valid = False\<rparr>
      in case en_cfg_ep e usb_to_ipa_hdl of
           Err err \<Rightarrow> (Err err, w)
         | OK \<Rightarrow>
             let w1 = w\<lparr>ecm_eps := (usb_to_ipa_hdl, prod) # ecm_eps w\<rparr>
             in case en_cfg_ep e ipa_to_usb_hdl of
                  Err err \<Rightarrow> (Err err, w1)
                | OK \<Rightarrow> (OK, w1\<lparr>ecm_eps := (ipa_to_usb_hdl, cons) # ecm_eps w1\<rparr>))"

definition ecm_ipa_register_pm_client :: "ecm_env \<Rightarrow> ecm_dev \<Rightarrow> ecm \<Rightarrow> rc \<times> ecm_dev \<times> ecm" where
  "ecm_ipa_register_pm_client e d w =
     (let (r, hdl, s) = ipa_pm_register (en_ipa e)
            (Some \<lparr>rp_name = Some (d_name d), rp_callback = True, rp_group = GROUP_APPS, rp_skip_clk_vote = False\<rparr>)
            True (ecm_ipa w)
      in (r, d\<lparr>d_pm_hdl := (case hdl of None \<Rightarrow> d_pm_hdl d | Some h \<Rightarrow> h)\<rparr>, w\<lparr>ecm_ipa := s\<rparr>))"

definition ecm_ipa_deregister_pm_client :: "ecm_env \<Rightarrow> ecm_dev \<Rightarrow> ecm \<Rightarrow> (ecm_dev \<times> ecm) outcome" where
  "ecm_ipa_deregister_pm_client e d w =
     (case ipa_pm_deactivate_sync (en_ipa e) (d_pm_hdl d) (ecm_ipa w) of
        Blocked \<Rightarrow> Blocked
      | Ret (r1, s1) \<Rightarrow>
          (case ipa_pm_deregister (d_pm_hdl d) s1 of
             Blocked \<Rightarrow> Blocked
           | Ret (r2, s2) \<Rightarrow> Ret (d\<lparr>d_pm_hdl := NO_PM_HDL\<rparr>, w\<lparr>ecm_ipa := s2\<rparr>)))"

definition set_ctx :: "ecm_dev \<Rightarrow> ecm \<Rightarrow> ecm" where
  "set_ctx d w = w\<lparr>ecm_ctx := Some d\<rparr>"

definition ecm_ipa_enable_data_path :: "ecm_dev \<Rightarrow> ecm \<Rightarrow> ecm" where
  "ecm_ipa_enable_data_path d w =
     set_ctx (d\<lparr>d_queue_stopped := False\<rparr>)
       (if d_ready d then w\<lparr>ecm_ready_calls := ecm_ready_calls w + 1\<rparr> else w)"

text \<open>The labels \<open>fail\<close> and \<open>fail_register_pm\<close>.\<close>

definition ecm_connect_fail :: "ecm_env \<Rightarrow> rc \<Rightarrow> bool \<Rightarrow> ecm_dev \<Rightarrow> ecm \<Rightarrow> (rc \<times> ecm) outcome" where
  "ecm_connect_fail e r props d w =
     (case ecm_ipa_deregister_pm_client e d (if props then ecm_ipa_deregister_properties e w else w) of
        Blocked \<Rightarrow> Blocked
      | Ret (d1, w1) \<Rightarrow> Ret (r, set_ctx d1 w1))"

text \<open>From the registration with the power manager on.\<close>

definition ecm_connect_clients :: "ecm_env \<Rightarrow> ecm_dev \<Rightarrow> ecm \<Rightarrow> (rc \<times> ecm) outcome" where
  "ecm_connect_clients e d w =
     (let (r, d1, w1) = ecm_ipa_register_pm_client e d w in
      if r \<noteq> OK then Ret (r, set_ctx d1 w1)
      else let (r2, w2) = ecm_ipa_register_properties e d1 w1 in
      if r2 \<noteq> OK then ecm_connect_fail e r2 False d1 w2
      else let (r3, w3) = ecm_ipa_ep_registers_cfg e (d_usb_to_ipa_hdl d1) (d_ipa_to_usb_hdl d1) (d_vlan d1) w2 in
      if r3 \<noteq> OK then ecm_connect_fail e r3 True d1 w3
      else let d2 = d1\<lparr>d_carrier := True\<rparr> in
      if \<not> en_kzalloc e then ecm_connect_fail e (Err ENOMEM) True d2 w3
      else if en_send_msg e \<noteq> OK then ecm_connect_fail e (en_send_msg e) True d2 w3
      else let w4 = w3\<lparr>ecm_msgs := ecm_msgs w3 @ [MsgConnect (strlcpy (e_name_max (en_hdr e)) (d_name d2))]\<rparr> in
      if \<not> d_carrier d2 then ecm_connect_fail e (Err EBUSY) True d2 w4
      else if d_state d2 = ECM_CONNECTED_AND_UP then Ret (OK, ecm_ipa_enable_data_path d2 w4)
      else Ret (OK, set_ctx d2 w4))"

definition ecm_ipa_connect :: "ecm_env \<Rightarrow> nat \<Rightarrow> nat \<Rightarrow> ecm \<Rightarrow> (rc \<times> ecm) outcome" where
  "ecm_ipa_connect e usb_to_ipa_hdl ipa_to_usb_hdl w =
     (case ecm_ctx w of
        None \<Rightarrow> Ret (Err EINVAL, w)
      | Some d \<Rightarrow>
          let st = ecm_next_state (d_state d) ECM_CONNECT in
          if st = ECM_INVALID then Ret (Err EPERM, w)
          else let d1 = d\<lparr>d_state := st\<rparr> in
          if \<not> en_handle_valid e usb_to_ipa_hdl then Ret (Err EINVAL, set_ctx d1 w)
          else if \<not> en_handle_valid e ipa_to_usb_hdl then Ret (Err EINVAL, set_ctx d1 w)
          else let d2 = d1\<lparr>d_ipa_to_usb_hdl := ipa_to_usb_hdl, d_usb_to_ipa_hdl := usb_to_ipa_hdl,
                           d_ipa_to_usb_client := en_client_of e ipa_to_usb_hdl\<rparr> in
          if d_ipa_to_usb_client d2 < 0 then Ret (Err EINVAL, set_ctx d2 w)
          else let d3 = d2\<lparr>d_usb_to_ipa_client := en_client_of e usb_to_ipa_hdl\<rparr> in
          if d_usb_to_ipa_client d3 < 0 then Ret (Err EINVAL, set_ctx d3 w)
          else ecm_connect_clients e d3 w)"

definition ecm_ipa_disconnect :: "ecm_env \<Rightarrow> ecm \<Rightarrow> (rc \<times> ecm) outcome" where
  "ecm_ipa_disconnect e w =
     (case ecm_ctx w of
        None \<Rightarrow> Ret (Err EINVAL, w)
      | Some d \<Rightarrow>
          let st = ecm_next_state (d_state d) ECM_DISCONNECT in
          if st = ECM_INVALID then Ret (Err EPERM, w)
          else let d1 = d\<lparr>d_state := st, d_carrier := False\<rparr> in
          if \<not> en_kzalloc e then Ret (Err ENOMEM, set_ctx d1 w)
          else if en_send_msg e \<noteq> OK then Ret (Err EPERM, set_ctx d1 w)
          else
            let w1 = w\<lparr>ecm_msgs := ecm_msgs w @ [MsgDisconnect (strlcpy (e_name_max (en_hdr e)) (d_name d1))]\<rparr>
            in case ecm_ipa_deregister_pm_client e (d1\<lparr>d_queue_stopped := True\<rparr>) w1 of
                 Blocked \<Rightarrow> Blocked
               | Ret (d2, w2) \<Rightarrow>
                   Ret (OK, set_ctx (d2\<lparr>d_tx_errors := d_tx_errors d2 + d_outstanding d2, d_outstanding := 0\<rparr>) w2))"

section \<open>The network interface\<close>

definition ecm_ipa_open :: "ecm \<Rightarrow> rc \<times> ecm" where
  "ecm_ipa_open w =
     (case ecm_ctx w of
        None \<Rightarrow> (Err EINVAL, w)
      | Some d \<Rightarrow>
          let st = ecm_next_state (d_state d) ECM_OPEN; d1 = d\<lparr>d_state := st\<rparr> in
          if st = ECM_INVALID then (Err EPERM, w)
          else if st = ECM_CONNECTED_AND_UP then (OK, ecm_ipa_enable_data_path d1 w)
          else (OK, set_ctx d1 w))"

definition ecm_ipa_stop :: "ecm \<Rightarrow> rc \<times> ecm" where
  "ecm_ipa_stop w =
     (case ecm_ctx w of
        None \<Rightarrow> (Err EINVAL, w)
      | Some d \<Rightarrow>
          let st = ecm_next_state (d_state d) ECM_STOP in
          if st = ECM_INVALID then (Err EPERM, w)
          else (OK, set_ctx (d\<lparr>d_state := st, d_queue_stopped := True\<rparr>) w))"

text \<open>The labels at the end of \<open>ecm_ipa_start_xmit\<close>: without packets under way the vote goes back.\<close>

definition ecm_xmit_out :: "ecm_dev \<Rightarrow> ecm \<Rightarrow> ecm" where
  "ecm_xmit_out d w =
     (if d_outstanding d = 0 then w\<lparr>ecm_ipa := snd (ipa_pm_deferred_deactivate (d_pm_hdl d) (ecm_ipa w))\<rparr> else w)"

definition ecm_ipa_start_xmit :: "ecm_env \<Rightarrow> ecm \<Rightarrow> netdev_tx \<times> ecm" where
  "ecm_ipa_start_xmit e w =
     (case ecm_ctx w of
        None \<Rightarrow> (TX_BUSY, w)
      | Some d \<Rightarrow>
          if d_queue_stopped d then (TX_BUSY, ecm_xmit_out d w)
          else if d_state d \<noteq> ECM_CONNECTED_AND_UP then (TX_BUSY, w)
          else
            let (r, s) = ipa_pm_activate (en_ipa e) (d_pm_hdl d) (ecm_ipa w); w1 = w\<lparr>ecm_ipa := s\<rparr> in
            if r \<noteq> OK then (TX_BUSY, set_ctx (d\<lparr>d_queue_stopped := True\<rparr>) w1)
            else if d_outstanding d \<ge> uint (d_high d)
            then (TX_BUSY, ecm_xmit_out d (set_ctx (d\<lparr>d_queue_stopped := True\<rparr>) w1))
            else if en_tx_dp e \<noteq> OK then (TX_BUSY, ecm_xmit_out d w1)
            else
              let d1 = d\<lparr>d_outstanding := d_outstanding d + 1\<rparr>
              in (TX_OK, ecm_xmit_out d1 (set_ctx d1 w1)))"

text \<open>A packet is its length. A buffer is handed to the network stack, freed, or kept.\<close>

definition ecm_ipa_packet_receive_notify :: "bool \<Rightarrow> nat option \<Rightarrow> ecm \<Rightarrow> ecm" where
  "ecm_ipa_packet_receive_notify receive skb w =
     (case skb of
        None \<Rightarrow> w
      | Some len \<Rightarrow>
          (case ecm_ctx w of
             None \<Rightarrow> w\<lparr>ecm_freed := ecm_freed w + 1\<rparr>
           | Some d \<Rightarrow>
               if d_state d \<noteq> ECM_CONNECTED_AND_UP then w\<lparr>ecm_freed := ecm_freed w + 1\<rparr>
               else if \<not> receive then w\<lparr>ecm_freed := ecm_freed w + 1\<rparr>
               else set_ctx (d\<lparr>d_rx_packets := d_rx_packets d + 1, d_rx_bytes := d_rx_bytes d + len\<rparr>)
                      (w\<lparr>ecm_delivered := ecm_delivered w @ [len]\<rparr>)))"

definition ecm_ipa_tx_complete_notify :: "bool \<Rightarrow> nat option \<Rightarrow> ecm \<Rightarrow> ecm" where
  "ecm_ipa_tx_complete_notify write_done skb w =
     (case skb of
        None \<Rightarrow> w
      | Some len \<Rightarrow>
          (case ecm_ctx w of
             None \<Rightarrow> w
           | Some d \<Rightarrow>
               if \<not> write_done then w
               else if d_state d \<noteq> ECM_CONNECTED_AND_UP then w\<lparr>ecm_freed := ecm_freed w + 1\<rparr>
               else
                 let out = (if d_outstanding d > 0 then d_outstanding d - 1 else d_outstanding d);
                     wake = d_queue_stopped d \<and> d_carrier d \<and> out < uint (d_low d);
                     d1 = d\<lparr>d_tx_packets := d_tx_packets d + 1, d_tx_bytes := d_tx_bytes d + len, d_outstanding := out,
                            d_queue_stopped := d_queue_stopped d \<and> \<not> wake\<rparr>
                 in ecm_xmit_out d1 (set_ctx d1 (w\<lparr>ecm_freed := ecm_freed w + 1\<rparr>))))"

definition ecm_ipa_tx_timeout :: "ecm \<Rightarrow> ecm" where
  "ecm_ipa_tx_timeout w =
     (case ecm_ctx w of None \<Rightarrow> w | Some d \<Rightarrow> set_ctx (d\<lparr>d_tx_errors := d_tx_errors d + 1\<rparr>) w)"

definition ecm_ipa_get_stats :: "ecm \<Rightarrow> (nat \<times> nat \<times> int \<times> nat \<times> nat) option" where
  "ecm_ipa_get_stats w =
     map_option (\<lambda>d. (d_tx_packets d, d_tx_bytes d, d_tx_errors d, d_rx_packets d, d_rx_bytes d)) (ecm_ctx w)"

text \<open>The power manager tells its client that the clocks are there.\<close>

definition ecm_ipa_pm_cb :: "pm_cb_event \<Rightarrow> ecm \<Rightarrow> ecm" where
  "ecm_ipa_pm_cb event w =
     (case ecm_ctx w of
        None \<Rightarrow> w
      | Some d \<Rightarrow>
          if event \<noteq> CLIENT_ACTIVATED then w
          else if d_queue_stopped d then set_ctx (d\<lparr>d_queue_stopped := False\<rparr>) w else w)"

end
