(* ===== verification/Ipa_Pm_Client.thy ===== *)
theory Ipa_Pm_Client
  imports Ipa_Pm_Props
begin

text \<open>
  The power manager as its clients see it: a locale for what a driver that sends packets relies
  on, and its interpretation on the client slot of the power manager.
\<close>

section \<open>The interface\<close>

text \<open>
  \<open>act\<close> asks for the clocks, \<open>idle\<close> says that they are not needed for now. The lemmas are about
  a driver with \<open>n\<close> packets under way.
\<close>

locale traffic_power =
  fixes act :: "'s \<Rightarrow> rc \<times> 's" and idle :: "'s \<Rightarrow> 's"
    and inv :: "'s \<Rightarrow> bool" and held :: "'s \<Rightarrow> bool" and running :: "'s \<Rightarrow> bool"
  assumes act_inv: "inv s \<Longrightarrow> act s = (r, s') \<Longrightarrow> inv s'"
    and act_holds: "inv s \<Longrightarrow> act s = (OK, s') \<Longrightarrow> held s'"
    and act_keeps: "inv s \<Longrightarrow> held s \<Longrightarrow> act s = (r, s') \<Longrightarrow> held s'"
    and idle_inv: "inv s \<Longrightarrow> inv (idle s)"
    and held_running: "inv s \<Longrightarrow> held s \<Longrightarrow> running s"
begin

definition carries :: "int \<Rightarrow> 's \<Rightarrow> bool" where
  "carries n s \<longleftrightarrow> inv s \<and> 0 \<le> n \<and> (0 < n \<longrightarrow> held s)"

lemma carries_act:
  assumes "carries n s" "act s = (r, s')"
  shows "carries n s'" "r = OK \<Longrightarrow> carries (n + 1) s'"
  using assms act_inv act_keeps act_holds [of s s'] by (auto simp: carries_def)

lemma carries_less: "carries n s \<Longrightarrow> 0 \<le> m \<Longrightarrow> m \<le> n \<Longrightarrow> carries m s"
  by (auto simp: carries_def)

lemma carries_defer: "carries n s \<Longrightarrow> carries 0 (idle s)"
  using idle_inv by (auto simp: carries_def)

lemma carries_running: "carries n s \<Longrightarrow> 0 < n \<Longrightarrow> running s"
  using held_running by (auto simp: carries_def)

end

section \<open>A client of the power manager\<close>

text \<open>
  The handle of a voting client with a callback: it leads to the client of that name, or no client
  ever has it. The vote of the name is held when its client, under whatever handle, is active and
  nothing is on its way that would deactivate it.
\<close>

definition client_slot :: "string \<Rightarrow> nat \<Rightarrow> ipa \<Rightarrow> bool" where
  "client_slot name h s \<longleftrightarrow> pm_inv s \<and>
     (case get_client h s of None \<Rightarrow> h = 0 \<or> IPA_PM_MAX_CLIENTS \<le> h
      | Some c \<Rightarrow> fixed_part c = (name, False, False, True))"

definition name_held :: "string \<Rightarrow> ipa \<Rightarrow> bool" where
  "name_held name s \<longleftrightarrow>
     (\<exists>h c. get_client h s = Some c \<and> fixed_part c = (name, False, False, True) \<and> calm (cl_state c))"

lemma no_client: "pm_inv s \<Longrightarrow> h = 0 \<or> IPA_PM_MAX_CLIENTS \<le> h \<Longrightarrow> get_client h s = None"
  using pm_inv_client [of s h] by (cases "get_client h s") (auto simp: client_inv_def)

lemma slotI: "pm_inv s \<Longrightarrow> get_client h s = Some c \<Longrightarrow> fixed_part c = (name, False, False, True) \<Longrightarrow> client_slot name h s"
  by (simp add: client_slot_def)

lemma slot_free: "pm_inv s \<Longrightarrow> h = 0 \<or> IPA_PM_MAX_CLIENTS \<le> h \<Longrightarrow> client_slot name h s"
  by (simp add: client_slot_def no_client)

lemma slot_inv: "client_slot name h s \<Longrightarrow> pm_inv s"
  by (simp add: client_slot_def)

lemma slot_client: "client_slot name h s \<Longrightarrow> get_client h s = Some c \<Longrightarrow> fixed_part c = (name, False, False, True)"
  by (simp add: client_slot_def)

lemma slot_none: "client_slot name h s \<Longrightarrow> get_client h s = None \<Longrightarrow> h = 0 \<or> IPA_PM_MAX_CLIENTS \<le> h"
  by (simp add: client_slot_def)

lemma name_heldI:
  "get_client h s = Some c \<Longrightarrow> fixed_part c = (name, False, False, True) \<Longrightarrow> calm (cl_state c) \<Longrightarrow> name_held name s"
  by (auto simp: name_held_def)

lemma one_name:
  assumes "pm_inv s" "get_client g s = Some c" "get_client h s = Some c'" "cl_name c = cl_name c'"
  shows "g = h"
proof -
  obtain k where k: "core_of s = Some k" "core_inv k" using assms(1) by (auto simp: pm_inv_def)
  then show ?thesis using assms(2-4) get_client_core [OF k(1)] by (auto simp: core_inv_def)
qed

text \<open>A client whose state moves while the rest of it stays.\<close>

lemma slot_keep:
  assumes slot: "client_slot name h s" and inv: "pm_inv s'"
    and keep: "\<And>c. get_client h s = Some c \<Longrightarrow> \<exists>c'. get_client h s' = Some c' \<and> fixed_part c' = fixed_part c"
  shows "client_slot name h s'"
proof (cases "get_client h s")
  case None
  then show ?thesis using slot_none [OF slot] inv by (auto intro: slot_free)
next
  case (Some c)
  then show ?thesis using keep slot_client [OF slot] inv by (fastforce intro: slotI)
qed

lemma no_client_calls:
  assumes "pm s = Some p" "get_client h s = None"
  shows "ipa_pm_activate e h s = (Err EINVAL, s)" "ipa_pm_deferred_deactivate h s = (Err EINVAL, s)"
    "ipa_pm_deactivate_sync e h s = Ret (Err EINVAL, s)" "ipa_pm_deregister h s = Ret (Err EINVAL, s)"
  using assms
  by (auto simp: get_client_def ipa_pm_activate_def ipa_pm_deferred_deactivate_def ipa_pm_deactivate_sync_def
      ipa_pm_deregister_def)

lemma deferred_moves:
  assumes "pm_inv s" "get_client h s = Some c"
  shows "\<exists>c'. get_client h (snd (ipa_pm_deferred_deactivate h s)) = Some c' \<and> fixed_part c' = fixed_part c"
proof -
  obtain p where p: "pm s = Some p" using pm_inv_pm [OF assms(1)] by blast
  note h = pm_inv_client(2) [OF assms]
  have cl: "clients p h = Some c" using assms(2) p by (simp add: get_client_def)
  show ?thesis
  proof (cases "cl_state c = ACTIVATED")
    case True
    show ?thesis using deferred_active_eq [OF p assms(2) h True] get_client_upd [OF assms(2)] by simp
  next
    case False
    then show ?thesis using p h cl assms(2) set_state_client [OF assms(2)]
      by (cases "cl_state c") (simp_all add: ipa_pm_deferred_deactivate_def)
  qed
qed

lemma slot_activate:
  assumes slot: "client_slot name h s" and r: "ipa_pm_activate e h s = (r, s')"
  shows "client_slot name h s'" "r = OK \<Longrightarrow> name_held name s'" "name_held name s \<Longrightarrow> name_held name s'"
    "name_held name s \<Longrightarrow> get_client h s = Some c \<Longrightarrow> r = OK"
proof -
  have inv: "pm_inv s" by (rule slot_inv [OF slot])
  obtain p where p: "pm s = Some p" using pm_inv_pm [OF inv] by blast
  have inv': "pm_inv s'" using activate_ok [OF inv, of e h] r by (simp add: pm_step_ok_def)
  have "client_slot name h s' \<and> (r = OK \<longrightarrow> name_held name s') \<and> (name_held name s \<longrightarrow> name_held name s') \<and>
      (name_held name s \<and> get_client h s \<noteq> None \<longrightarrow> r = OK)"
  proof (cases "get_client h s")
    case None
    then show ?thesis using no_client_calls [OF p None] slot r by auto
  next
    case (Some c)
    note fx = slot_client [OF slot Some]
    obtain c' where c': "get_client h s' = Some c'" "fixed_part c' = fixed_part c"
      "r = OK \<and> (STATE_ACTIVE (cl_state c) \<or> cl_state c = DEACTIVATED) \<and> calm (cl_state c') \<or>
       r = Err EINPROGRESS \<and> cl_state c' = ACTIVATE_IN_PROGRESS \<and> \<not> STATE_ACTIVE (cl_state c)"
      using activate_moves [OF inv Some r] by blast
    have "calm (cl_state c)" if held: "name_held name s"
    proof -
      obtain g d where g: "get_client g s = Some d" "fixed_part d = (name, False, False, True)" "calm (cl_state d)"
        using held by (auto simp: name_held_def)
      have "g = h" by (rule one_name [OF inv g(1) Some]) (use g(2) fx in \<open>simp add: fixed_part_def\<close>)
      then show ?thesis using g Some by simp
    qed
    then have "r = OK" if "name_held name s" using c'(3) that calm_active by auto
    then show ?thesis using c' fx inv' by (auto intro: slotI name_heldI)
  qed
  then show "client_slot name h s'" "r = OK \<Longrightarrow> name_held name s'" "name_held name s \<Longrightarrow> name_held name s'"
    "name_held name s \<Longrightarrow> get_client h s = Some c \<Longrightarrow> r = OK" by auto
qed

lemma slot_deferred:
  assumes "client_slot name h s"
  shows "client_slot name h (snd (ipa_pm_deferred_deactivate h s))"
proof (rule slot_keep [OF assms])
  have inv: "pm_inv s" by (rule slot_inv [OF assms])
  show "pm_inv (snd (ipa_pm_deferred_deactivate h s))"
    using deferred_deactivate_ok [OF inv, of h] by (simp add: pm_step_ok_def)
  show "\<exists>c'. get_client h (snd (ipa_pm_deferred_deactivate h s)) = Some c' \<and> fixed_part c' = fixed_part c"
    if "get_client h s = Some c" for c by (rule deferred_moves [OF inv that])
qed

lemma held_running:
  assumes "pm_inv s" "name_held name s"
  shows "clk_running s"
proof -
  obtain h c where c: "get_client h s = Some c" "fixed_part c = (name, False, False, True)" "calm (cl_state c)"
    using assms(2) by (auto simp: name_held_def)
  then have "voting c" using calm_active by (simp add: voting_def fixed_part_def)
  then show ?thesis by (rule pm_inv_running [OF assms(1) c(1)])
qed

interpretation pm_client: traffic_power "ipa_pm_activate e h" "\<lambda>s. snd (ipa_pm_deferred_deactivate h s)"
    "client_slot name h" "name_held name" clk_running for e h name
proof (unfold_locales, goal_cases)
  case (1 s r s') then show ?case by (rule slot_activate(1))
next
  case (2 s s') then show ?case by (rule slot_activate(2) [OF _ _ refl])
next
  case (3 s r s') then show ?case by (blast intro: slot_activate(3))
next
  case (4 s) then show ?case by (rule slot_deferred)
next
  case (5 s) then show ?case by (blast intro: held_running slot_inv)
qed

section \<open>Coming and going\<close>

lemma find_next_open_Inl: "find_next_open_array_element name p = Inl err \<Longrightarrow> err = EEXIST \<or> err = ENOBUFS"
  unfolding find_next_open_array_element_def find_open_spec by (auto split: if_splits list.splits)

lemma slot_register:
  assumes slot: "client_slot name h s" and e: "env_kzalloc e" "env_wakeup_source e"
    and rp: "rp_name rp = Some name" "rp_callback rp \<and> \<not> rp_skip_clk_vote rp" "length name < IPA_PM_MAX_EX_CL"
    and r: "ipa_pm_register e (Some rp) True s = (r, ho, s')"
  shows "\<exists>h'. ho = Some h' \<and> client_slot name h' s' \<and>
    (r \<noteq> OK \<and> IPA_PM_MAX_CLIENTS \<le> h' \<and> s' = s \<or>
     r = OK \<and> \<not> name_held name s \<and> get_client h' s' = Some (new_client name rp h' True))"
proof -
  have inv: "pm_inv s" by (rule slot_inv [OF slot])
  obtain p where p: "pm s = Some p" using pm_inv_pm [OF inv] by blast
  obtain k where k: "core_of s = Some k" using inv by (auto simp: pm_inv_def)
  show ?thesis
  proof (cases "find_next_open_array_element name p")
    case (Inl err)
    then have "IPA_PM_MAX_CLIENTS \<le> err_u32 err"
      using find_next_open_Inl [OF Inl] by (auto simp: err_u32_def pm_consts)
    then show ?thesis using Inl r p rp(1) slot_free [OF inv] by (auto simp: ipa_pm_register_def)
  next
    case (Inr h')
    note o = find_next_open_Inr [OF Inr]
    have nh: "\<not> name_held name s"
    proof
      assume "name_held name s"
      then obtain g c where c: "get_client g s = Some c" "cl_name c = name" by (auto simp: name_held_def fixed_part_def)
      have "clients p g = Some c" using c p by (simp add: get_client_def)
      moreover have "1 \<le> g" "g < IPA_PM_MAX_CLIENTS" using pm_inv_client [OF inv c(1)] by (auto simp: client_inv_def)
      ultimately show False using o(4) c(2) by (auto simp: registered_def)
    qed
    obtain t ys where "ipa_pm_register e (Some rp) True s = (OK, Some h', t)"
      "core_of t = Some (k\<lparr>co_clients := (co_clients k)(h' \<mapsto> new_client name rp h' True), co_exceptions := ys\<rparr>)"
      using register_shape [OF inv p rp(1) Inr e _ k] rp(3) by (auto simp: pm_consts)
    with r have s': "r = OK" "ho = Some h'" "core_of s' = Some (k\<lparr>co_clients := (co_clients k)(h' \<mapsto> new_client name rp h' True), co_exceptions := ys\<rparr>)"
      by auto
    have "pm_inv s'" using register_ok [OF inv r e(2)] rp(1,3) by (fastforce simp: pm_step_ok_def)
    moreover have "get_client h' s' = Some (new_client name rp h' True)" using get_client_core [OF s'(3)] by simp
    moreover have "fixed_part (new_client name rp h' True) = (name, False, False, True)"
      using rp(2,3) by (simp add: fixed_part_def new_client_def strlcpy_short)
    ultimately show ?thesis using s' nh by (auto intro: slotI)
  qed
qed

lemma slot_leave:
  assumes slot: "client_slot name h s"
    and r: "ipa_pm_deactivate_sync e h s = Ret (r1, s1)" "ipa_pm_deregister h s1 = Ret (r2, s2)"
  shows "pm_inv s2" "get_client h s2 = None"
proof -
  have inv: "pm_inv s" by (rule slot_inv [OF slot])
  obtain p where p: "pm s = Some p" using pm_inv_pm [OF inv] by blast
  have "pm_inv s2 \<and> get_client h s2 = None"
  proof (cases "get_client h s")
    case None
    then show ?thesis using r no_client_calls [OF p None] inv by auto
  next
    case (Some c)
    have q: "\<not> cl_sync_inflight c" using slot_client [OF slot Some] by (simp add: fixed_part_def)
    then have quiet: "\<And>c. get_client h s = Some c \<Longrightarrow> \<not> cl_sync_inflight c" using Some by simp
    note m = deactivate_sync_moves [OF inv r(1) quiet]
    obtain c1 where c1: "get_client h s1 = Some c1" "cl_state c1 = DEACTIVATED" "\<not> cl_sync_inflight c1"
      using m Some q by (auto simp: deactivated_client_def)
    have inv1: "pm_inv s1" using m by (simp add: pm_step_ok_def)
    obtain p1 where p1: "pm s1 = Some p1" "clients p1 h = Some c1"
      using c1(1) by (auto simp: get_client_def split: option.splits)
    have "r2 = OK" using r(2) p1 c1(2) pm_inv_client(2) [OF inv1 c1(1)] by (simp add: ipa_pm_deregister_def)
    moreover have "pm_step_ok s1 s2 \<and> (r2 = OK \<longrightarrow> get_client h s2 = None)"
      by (rule deregister_ok [OF inv1 r(2)]) (use c1 in simp)
    ultimately show ?thesis by (simp add: pm_step_ok_def)
  qed
  then show "pm_inv s2" "get_client h s2 = None" by blast+
qed

section \<open>What the rest of the system does to a client\<close>

text \<open>
  The works of the client of that name, the sweep over the deferred deactivations before the system
  sleeps, the other users of the clocks, and the other clients of the power manager: they leave
  alone a client that is not theirs.
\<close>

inductive around_client :: "string \<Rightarrow> ipa \<Rightarrow> ipa \<Rightarrow> bool" for name where
  own_activation: "get_client h s = Some c \<Longrightarrow> cl_name c = name \<Longrightarrow> cl_activate_work c \<Longrightarrow>
    around_client name s (run_activate_work e h s)"
| own_timer: "get_client h s = Some c \<Longrightarrow> cl_name c = name \<Longrightarrow> cl_deactivate_work c \<Longrightarrow>
    around_client name s (run_deactivate_work e h s)"
| own_sweep: "get_client h s = Some c \<Longrightarrow> cl_name c = name \<Longrightarrow> deactivate_one_deferred e h s = Ret (b, s') \<Longrightarrow>
    around_client name s s'"
| another_client: "pm_own_step s s' \<Longrightarrow>
    (\<And>h c. get_client h s = Some c \<Longrightarrow> cl_name c = name \<Longrightarrow> get_client h s' = Some c) \<Longrightarrow> around_client name s s'"
| another_user: "other_step s s' \<Longrightarrow> around_client name s s'"

lemma sweep_moves:
  assumes inv: "pm_inv s" and c: "get_client h s = Some c" and r: "deactivate_one_deferred e h s = Ret (b, s')"
  shows "\<exists>c'. get_client h s' = Some c' \<and> fixed_part c' = fixed_part c \<and> (calm (cl_state c) \<longrightarrow> calm (cl_state c'))"
proof -
  note ci = pm_inv_client(1) [OF inv c]
  have hdl: "cl_hdl c = h" using ci by (simp add: client_inv_def)
  let ?s1 = "cancel_deactivate_work h s"
  have s1: "get_client h ?s1 = Some (c\<lparr>cl_deactivate_work := False\<rparr>)"
    unfolding cancel_deactivate_work_def by (rule get_client_upd [OF c])
  show ?thesis
  proof (cases "cl_state c = ACTIVATED_PENDING_DEACTIVATION \<or> cl_state c = ACTIVATED_PENDING_RESCHEDULE")
    case False
    then have "s' = ?s1 \<or> s' = set_state h ACTIVATED ?s1"
      using r c by (auto simp: deactivate_one_deferred_def Let_def split: if_splits)
    moreover have "s' = ?s1 \<Longrightarrow> calm (cl_state c) \<Longrightarrow> calm (cl_state (c\<lparr>cl_deactivate_work := False\<rparr>))" by simp
    ultimately show ?thesis using s1 set_state_client [OF s1, of ACTIVATED] by auto
  next
    case True
    obtain k where k: "clk_inv s" "bugs s = []" "core_of s = Some k" "core_inv k" "core_votes k \<le> clk_votes s"
      using inv by (rule pm_invE)
    have kc: "co_clients k h = Some c" using c get_client_core [OF k(3)] by simp
    have act: "STATE_ACTIVE (cl_state c)" using True by auto
    have s2: "set_state h DEACTIVATED ?s1 = upd_client h (\<lambda>c. c\<lparr>cl_deactivate_work := False, cl_state := DEACTIVATED\<rparr>) s"
      by (simp add: set_state_def cancel_deactivate_work_def upd_client_comp [OF c])
    have "s' = deactivate_client h (pm_devote e 1144 h c (set_state h DEACTIVATED ?s1))"
      using r c True hdl by (auto simp: deactivate_one_deferred_def Let_def)
    then have "get_client h s' = Some (deactivated_client c)"
      using get_client_core [OF conjunct2 [OF devote_deactivate [OF k kc act s2]]] by simp
    then show ?thesis using True by (auto simp: deactivated_client_def fixed_part_def)
  qed
qed

lemma other_step_clients: "other_step s s' \<Longrightarrow> pm_inv s \<Longrightarrow> get_client h s' = get_client h s"
  using other_step_moves [of s s'] get_client_core by (metis pm_invE)

text \<open>One step around: what a named client keeps.\<close>

lemma around_moves:
  assumes "around_client name s s'" and inv: "pm_inv s"
  shows "pm_inv s'"
    "get_client h s = Some c \<Longrightarrow> fixed_part c = (name, False, False, True) \<Longrightarrow>
     \<exists>c'. get_client h s' = Some c' \<and> fixed_part c' = fixed_part c \<and> (calm (cl_state c) \<longrightarrow> calm (cl_state c'))"
proof -
  have own: "h = g" if "get_client g s = Some d" "cl_name d = name" "get_client h s = Some c" "fixed_part c = (name, False, False, True)" for g d
    by (rule one_name [OF inv that(3,1)]) (use that(2,4) in \<open>simp add: fixed_part_def\<close>)
  have "pm_inv s' \<and> (get_client h s = Some c \<longrightarrow> fixed_part c = (name, False, False, True) \<longrightarrow>
     (\<exists>c'. get_client h s' = Some c' \<and> fixed_part c' = fixed_part c \<and> (calm (cl_state c) \<longrightarrow> calm (cl_state c'))))"
    using assms(1)
  proof cases
    case (own_activation g d e)
    have "\<not> calm (cl_state d)" using pm_inv_client(1) [OF inv own_activation(2)] own_activation(4)
      by (cases "cl_state d") (auto simp: client_inv_def)
    then show ?thesis
      using activate_work_moves [OF inv own_activation(2,4), of e] own [OF own_activation(2,3)] own_activation
      by (auto simp: pm_step_ok_def)
  next
    case (own_timer g d e)
    then show ?thesis
      using deactivate_work_moves [OF inv own_timer(2,4), of e] deactivate_work_ok [OF inv own_timer(2,4), of e]
        own [OF own_timer(2,3)] by (auto simp: pm_step_ok_def)
  next
    case (own_sweep g d e b)
    then show ?thesis
      using deactivate_one_ok [OF inv own_sweep(3)] sweep_moves [OF inv own_sweep(1,3)] own [OF own_sweep(1,2)]
      by (auto simp: pm_step_ok_def)
  next
    case another_client
    then show ?thesis using pm_own_step_ok [OF another_client(1) inv] by (auto simp: pm_step_ok_def fixed_part_def)
  next
    case another_user
    then show ?thesis using other_step_inv [OF another_user inv] other_step_clients [OF another_user inv] by auto
  qed
  then show "pm_inv s'" "get_client h s = Some c \<Longrightarrow> fixed_part c = (name, False, False, True) \<Longrightarrow>
     \<exists>c'. get_client h s' = Some c' \<and> fixed_part c' = fixed_part c \<and> (calm (cl_state c) \<longrightarrow> calm (cl_state c'))" by blast+
qed

lemma slot_around:
  assumes "around_client name s s'" and slot: "client_slot name h s"
  shows "client_slot name h s'" "name_held name s \<Longrightarrow> name_held name s'"
proof -
  note inv = slot_inv [OF slot]
  show "client_slot name h s'"
    by (rule slot_keep [OF slot around_moves(1) [OF assms(1) inv]])
       (use around_moves(2) [OF assms(1) inv] slot_client [OF slot] in blast)
  show "name_held name s'" if held: "name_held name s"
  proof -
    obtain g c where "get_client g s = Some c" "fixed_part c = (name, False, False, True)" "calm (cl_state c)"
      using held by (auto simp: name_held_def)
    then show ?thesis using around_moves(2) [OF assms(1) inv, of g c] by (auto intro: name_heldI)
  qed
qed

end
