(* ===== verification/Ipa_Ecm_Props.thy ===== *)
theory Ipa_Ecm_Props
  imports Ipa_Ecm Ipa_Hdr_Props Ipa_Pm_Props
begin

text \<open>
  The properties of the ECM driver: its calls as an implementation of two independent switches,
  the clocks that its packets need, the headers it owns between start and end, and the calls that
  leave it in a wrong state.
\<close>

section \<open>The calls\<close>

datatype ecm_call =
    CallConnect ecm_env nat nat
  | CallDisconnect ecm_env
  | CallOpen
  | CallStop
  | CallXmit ecm_env
  | CallReceive bool "nat option"
  | CallTxDone bool "nat option"
  | CallTimeout
  | CallPmCb pm_cb_event

datatype ecm_answer = Code rc | Tx netdev_tx | Void

definition code_of :: "(rc \<times> ecm) outcome \<Rightarrow> (ecm_answer \<times> ecm) outcome" where
  "code_of r = (case r of Blocked \<Rightarrow> Blocked | Ret (c, w) \<Rightarrow> Ret (Code c, w))"

fun ecm_do :: "ecm_call \<Rightarrow> ecm \<Rightarrow> (ecm_answer \<times> ecm) outcome" where
  "ecm_do (CallConnect e u i) w = code_of (ecm_ipa_connect e u i w)"
| "ecm_do (CallDisconnect e) w = code_of (ecm_ipa_disconnect e w)"
| "ecm_do CallOpen w = code_of (Ret (ecm_ipa_open w))"
| "ecm_do CallStop w = code_of (Ret (ecm_ipa_stop w))"
| "ecm_do (CallXmit e) w = (case ecm_ipa_start_xmit e w of (t, w') \<Rightarrow> Ret (Tx t, w'))"
| "ecm_do (CallReceive r p) w = Ret (Void, ecm_ipa_packet_receive_notify r p w)"
| "ecm_do (CallTxDone r p) w = Ret (Void, ecm_ipa_tx_complete_notify r p w)"
| "ecm_do CallTimeout w = Ret (Void, ecm_ipa_tx_timeout w)"
| "ecm_do (CallPmCb ev) w = Ret (Void, ecm_ipa_pm_cb ev w)"

fun ecm_run :: "ecm_call list \<Rightarrow> ecm \<Rightarrow> (ecm_answer list \<times> ecm) outcome" where
  "ecm_run [] w = Ret ([], w)"
| "ecm_run (c # cs) w =
     (case ecm_do c w of
        Blocked \<Rightarrow> Blocked
      | Ret (a, w1) \<Rightarrow> (case ecm_run cs w1 of Blocked \<Rightarrow> Blocked | Ret (as, w2) \<Rightarrow> Ret (a # as, w2)))"

text \<open>
  What the calls promise: the cable and the network interface are two switches. A call that
  finds its switch already there is refused.
\<close>

fun link_state :: "bool \<times> bool \<Rightarrow> ecm_state" where
  "link_state (False, False) = ECM_INITIALIZED"
| "link_state (True, False) = ECM_CONNECTED"
| "link_state (False, True) = ECM_UP"
| "link_state (True, True) = ECM_CONNECTED_AND_UP"

fun link_step :: "ecm_call \<Rightarrow> bool \<times> bool \<Rightarrow> (bool \<times> bool) option" where
  "link_step (CallConnect e u i) (c, up) = (if c then None else Some (True, up))"
| "link_step (CallDisconnect e) (c, up) = (if c then Some (False, up) else None)"
| "link_step CallOpen (c, up) = (if up then None else Some (c, True))"
| "link_step CallStop (c, up) = (if up then Some (c, False) else None)"
| "link_step _ b = Some b"

fun link_run :: "ecm_call list \<Rightarrow> bool \<times> bool \<Rightarrow> bool list \<times> (bool \<times> bool)" where
  "link_run [] b = ([], b)"
| "link_run (c # cs) b =
     (case link_step c b of
        None \<Rightarrow> let (oks, b') = link_run cs b in (False # oks, b')
      | Some b1 \<Rightarrow> let (oks, b') = link_run cs b1 in (True # oks, b'))"

section \<open>The state after each call\<close>

definition in_state :: "ecm_state \<Rightarrow> ecm \<Rightarrow> bool" where
  "in_state st w \<longleftrightarrow> (\<exists>d. ecm_ctx w = Some d \<and> d_state d = st)"

lemma in_stateD: "in_state st w \<Longrightarrow> ecm_ctx w = Some d \<Longrightarrow> d_state d = st"
  by (simp add: in_state_def)

lemma set_ctx_fields [simp]:
  "ecm_ctx (set_ctx d w) = Some d" "ecm_hdr (set_ctx d w) = ecm_hdr w" "ecm_ipa (set_ctx d w) = ecm_ipa w"
  "in_state st (set_ctx d w) \<longleftrightarrow> d_state d = st"
  by (auto simp: set_ctx_def in_state_def)

lemma xmit_out_ctx [simp]: "ecm_ctx (ecm_xmit_out d w) = ecm_ctx w" "ecm_hdr (ecm_xmit_out d w) = ecm_hdr w"
  by (simp_all add: ecm_xmit_out_def)

lemma enable_data_path_ctx [simp]:
  "ecm_ctx (ecm_ipa_enable_data_path d w) = Some (d\<lparr>d_queue_stopped := False\<rparr>)"
  "ecm_ipa (ecm_ipa_enable_data_path d w) = ecm_ipa w" "ecm_hdr (ecm_ipa_enable_data_path d w) = ecm_hdr w"
  by (simp_all add: ecm_ipa_enable_data_path_def)

lemma pm_steps_state:
  "ecm_ipa_register_pm_client e d w = (r, d', w') \<Longrightarrow> d_state d' = d_state d"
  "ecm_ipa_deregister_pm_client e d w = Ret (d', w') \<Longrightarrow> d_state d' = d_state d"
  by (auto simp: ecm_ipa_register_pm_client_def ecm_ipa_deregister_pm_client_def split: prod.splits outcome.splits)

lemma connect_fail_state:
  "ecm_connect_fail e r b d w = Ret (r', w') \<Longrightarrow> in_state (d_state d) w'"
  by (auto simp: ecm_connect_fail_def pm_steps_state split: outcome.splits prod.splits)

lemma connect_clients_state:
  assumes "ecm_connect_clients e d w = Ret (r, w')"
  shows "in_state (d_state d) w'"
proof -
  obtain r1 d1 w1 where 1: "ecm_ipa_register_pm_client e d w = (r1, d1, w1)" by (metis prod_cases3)
  obtain r2 w2 where 2: "ecm_ipa_register_properties e d1 w1 = (r2, w2)" by fastforce
  obtain r3 w3 where 3: "ecm_ipa_ep_registers_cfg e (d_usb_to_ipa_hdl d1) (d_ipa_to_usb_hdl d1) (d_vlan d1) w2 = (r3, w3)"
    by fastforce
  have st: "d_state d1 = d_state d" by (rule pm_steps_state(1) [OF 1])
  show ?thesis using assms 1 2 3 st connect_fail_state [of e _ _ d1]
      connect_fail_state [of e _ _ "d1\<lparr>d_carrier := True\<rparr>"]
    by (auto simp: ecm_connect_clients_def Let_def in_state_def split: if_splits)
qed

section \<open>The two switches\<close>

lemma link_state_cases:
  "link_state b = ECM_INITIALIZED \<longleftrightarrow> b = (False, False)" "link_state b = ECM_CONNECTED \<longleftrightarrow> b = (True, False)"
  "link_state b = ECM_UP \<longleftrightarrow> b = (False, True)" "link_state b = ECM_CONNECTED_AND_UP \<longleftrightarrow> b = (True, True)"
  by (cases b; cases "fst b"; cases "snd b"; simp)+

lemma next_link_state:
  "ecm_next_state (link_state b) ECM_CONNECT =
     (case link_step (CallConnect e u i) b of None \<Rightarrow> ECM_INVALID | Some b' \<Rightarrow> link_state b')"
  "ecm_next_state (link_state b) ECM_DISCONNECT =
     (case link_step (CallDisconnect e) b of None \<Rightarrow> ECM_INVALID | Some b' \<Rightarrow> link_state b')"
  "ecm_next_state (link_state b) ECM_OPEN =
     (case link_step CallOpen b of None \<Rightarrow> ECM_INVALID | Some b' \<Rightarrow> link_state b')"
  "ecm_next_state (link_state b) ECM_STOP =
     (case link_step CallStop b of None \<Rightarrow> ECM_INVALID | Some b' \<Rightarrow> link_state b')"
  by (cases b; cases "fst b"; cases "snd b"; simp)+

lemma link_state_valid: "link_state b \<noteq> ECM_INVALID"
  by (cases b; cases "fst b"; cases "snd b"; simp)

lemma connect_state:
  assumes "ecm_ctx w = Some d" "ecm_ipa_connect e u i w = Ret (r, w')"
  shows "if ecm_next_state (d_state d) ECM_CONNECT = ECM_INVALID then r = Err EPERM \<and> w' = w
         else in_state (ecm_next_state (d_state d) ECM_CONNECT) w'"
  using assms connect_clients_state
  by (fastforce simp: ecm_ipa_connect_def Let_def split: if_splits)

lemma disconnect_state:
  assumes "ecm_ctx w = Some d" "ecm_ipa_disconnect e w = Ret (r, w')"
  shows "if ecm_next_state (d_state d) ECM_DISCONNECT = ECM_INVALID then r = Err EPERM \<and> w' = w
         else in_state (ecm_next_state (d_state d) ECM_DISCONNECT) w'"
  using assms pm_steps_state(2)
  by (fastforce simp: ecm_ipa_disconnect_def Let_def split: if_splits outcome.splits prod.splits)

lemma open_state:
  assumes "ecm_ctx w = Some d" "ecm_ipa_open w = (r, w')"
  shows "if ecm_next_state (d_state d) ECM_OPEN = ECM_INVALID then r = Err EPERM \<and> w' = w
         else in_state (ecm_next_state (d_state d) ECM_OPEN) w'"
  using assms by (auto simp: ecm_ipa_open_def Let_def in_state_def split: if_splits)

lemma stop_state:
  assumes "ecm_ctx w = Some d" "ecm_ipa_stop w = (r, w')"
  shows "if ecm_next_state (d_state d) ECM_STOP = ECM_INVALID then r = Err EPERM \<and> w' = w
         else in_state (ecm_next_state (d_state d) ECM_STOP) w'"
  using assms by (auto simp: ecm_ipa_stop_def Let_def in_state_def split: if_splits)

text \<open>The calls of the data path keep the state, and only a driver that is on sends.\<close>

lemma data_state:
  assumes "ecm_ctx w = Some d"
  shows "ecm_ipa_start_xmit e w = (t, w') \<Longrightarrow>
      in_state (d_state d) w' \<and> (t = TX_OK \<longrightarrow> d_state d = ECM_CONNECTED_AND_UP)"
    "in_state (d_state d) (ecm_ipa_packet_receive_notify r p w)"
    "in_state (d_state d) (ecm_ipa_tx_complete_notify r p w)"
    "in_state (d_state d) (ecm_ipa_tx_timeout w)" "in_state (d_state d) (ecm_ipa_pm_cb ev w)"
  using assms
  by (auto simp: ecm_ipa_start_xmit_def ecm_ipa_packet_receive_notify_def ecm_ipa_tx_complete_notify_def
      ecm_ipa_tx_timeout_def ecm_ipa_pm_cb_def in_state_def Let_def split: option.splits if_splits prod.splits)

definition refused :: "ecm_answer \<Rightarrow> bool" where
  "refused a \<longleftrightarrow> a = Code (Err EPERM)"

lemma code_of_Ret: "code_of r = Ret (a, w) \<longleftrightarrow> (\<exists>c. r = Ret (c, w) \<and> a = Code c)"
  by (auto simp: code_of_def split: outcome.splits)

lemma ecm_do_link:
  assumes w: "in_state (link_state b) w" and r: "ecm_do c w = Ret (a, w')"
  shows "case link_step c b of None \<Rightarrow> refused a \<and> w' = w
         | Some b' \<Rightarrow> in_state (link_state b') w' \<and> (a = Tx TX_OK \<longrightarrow> b = (True, True))"
proof -
  obtain d where d: "ecm_ctx w = Some d" "d_state d = link_state b" using w by (auto simp: in_state_def)
  note nx = next_link_state [of b]
  show ?thesis
  proof (cases c)
    case (CallConnect e u i)
    then show ?thesis using r connect_state [OF d(1), of e u i] nx(1) [of e u i] d(2) link_state_valid
      by (auto simp: code_of_Ret refused_def split: option.splits)
  next
    case (CallDisconnect e)
    then show ?thesis using r disconnect_state [OF d(1), of e] nx(2) [of e] d(2) link_state_valid
      by (auto simp: code_of_Ret refused_def split: option.splits)
  next
    case CallOpen
    then show ?thesis using r open_state [OF d(1)] nx(3) d(2) link_state_valid
      by (auto simp: code_of_Ret refused_def split: option.splits)
  next
    case CallStop
    then show ?thesis using r stop_state [OF d(1)] nx(4) d(2) link_state_valid
      by (auto simp: code_of_Ret refused_def split: option.splits)
  next
    case (CallXmit e)
    then show ?thesis using r data_state(1) [OF d(1), of e] d(2) link_state_cases(4) [of b]
      by (cases b) (auto split: prod.splits)
  qed (use r data_state(2-) [OF d(1)] d(2) in \<open>cases b; auto\<close>)+
qed


lemma ecm_run_link:
  "in_state (link_state b) w \<Longrightarrow> ecm_run cs w = Ret (as, w') \<Longrightarrow>
   in_state (link_state (snd (link_run cs b))) w' \<and> length as = length cs \<and>
   list_all2 (\<lambda>ok a. \<not> ok \<longrightarrow> refused a) (fst (link_run cs b)) as"
proof (induction cs arbitrary: b w as w')
  case Nil
  then show ?case by simp
next
  case (Cons c cs)
  obtain a w1 where 1: "ecm_do c w = Ret (a, w1)"
    using Cons.prems(2) by (cases "ecm_do c w") auto
  obtain as' where 2: "ecm_run cs w1 = Ret (as', w')" "as = a # as'"
    using Cons.prems(2) 1 by (cases "ecm_run cs w1") auto
  show ?case
  proof (cases "link_step c b")
    case None
    then have "refused a" "w1 = w" using ecm_do_link [OF Cons.prems(1) 1] by simp_all
    then show ?thesis using Cons.IH [OF Cons.prems(1), of as' w'] None 2 by (auto split: prod.splits)
  next
    case (Some b1)
    then have "in_state (link_state b1) w1" using ecm_do_link [OF Cons.prems(1) 1] by simp
    then show ?thesis using Cons.IH [of b1 w1 as' w'] Some 2 by (auto split: prod.splits)
  qed
qed

section \<open>The properties of the state machine\<close>

definition demo_ecm_env :: ecm_env where
  "demo_ecm_env =
     \<lparr>en_hdr = demo_hdr_env\<lparr>e_hdr_size := 64\<rparr>, en_ipa = demo_env, en_l2_eth = 2, en_l2_vlan = 4, en_alloc_netdev = True,
      en_vlan_mode = (OK, False), en_kzalloc = True, en_register_netdev = OK, en_ifname = ''ecm0'',
      en_handle_valid = (\<lambda>h. h < 31), en_client_of = (\<lambda>h. int h), en_register_intf = OK,
      en_deregister_intf = OK, en_cfg_ep = (\<lambda>h. OK), en_send_msg = OK, en_tx_dp = OK\<rparr>"

definition demo_ecm_params :: ecm_params where
  "demo_ecm_params = \<lparr>ep_host = [2, 0, 0, 0, 0, 1], ep_device = [2, 0, 0, 0, 0, 2], ep_ready = True\<rparr>"

definition demo_ecm_dev :: ecm_dev where
  "demo_ecm_dev = (new_ecm_dev demo_ecm_params)
     \<lparr>d_name := ''ecm0'', d_addr := [2, 0, 0, 0, 0, 2], d_carrier := False, d_queue_stopped := True,
      d_v6_hdl := 1, d_state := ECM_INITIALIZED\<rparr>"

definition demo_ecm :: "ipa \<Rightarrow> hdr_db \<Rightarrow> ecm" where
  "demo_ecm s hs = \<lparr>ecm_ctx = Some demo_ecm_dev, ecm_hdr = hs, ecm_ipa = s, ecm_intfs = [], ecm_eps = [],
     ecm_msgs = [], ecm_ready_calls = 0, ecm_delivered = [], ecm_freed = 0\<rparr>"

text \<open>
  C28: The connection and the network interface are two independent switches: after any sequence
  of calls that return the state of the driver encodes both, a call that finds its switch
  already there is refused with EPERM, calls of the data path change neither, and a packet is
  only taken when both are on.
\<close>

theorem ecm_calls_refine_switches:
  assumes "ecm_ctx w = Some d" "d_state d = link_state b" "ecm_run cs w = Ret (as, w')"
  shows "(\<exists>d'. ecm_ctx w' = Some d' \<and> d_state d' = link_state (snd (link_run cs b))) \<and>
    length as = length cs \<and>
    (\<forall>i < length cs. \<not> fst (link_run cs b) ! i \<longrightarrow> as ! i = Code (Err EPERM)) \<and>
    (fst (ecm_ipa_start_xmit e w') = TX_OK \<longrightarrow> snd (link_run cs b) = (True, True))"
proof -
  have w: "in_state (link_state b) w" using assms by (simp add: in_state_def)
  note r = ecm_run_link [OF w assms(3)]
  obtain d' where d': "ecm_ctx w' = Some d'" "d_state d' = link_state (snd (link_run cs b))"
    using r by (auto simp: in_state_def)
  obtain t w2 where x: "ecm_ipa_start_xmit e w' = (t, w2)" by fastforce
  show ?thesis
    using r d' data_state(1) [OF d'(1) x] x link_state_cases(4)
    by (auto simp: list_all2_conv_all_nth refused_def)
qed

lemma ecm_calls_refine_switches_witness:

  defines "w \<equiv> demo_ecm demo_boot hdr_start"
  shows "\<exists>as w'. ecm_run [CallOpen, CallOpen, CallStop, CallStop] w = Ret (as, w') \<and>
     as ! 1 = Code (Err EPERM) \<and> as ! 3 = Code (Err EPERM)"
proof -
  obtain as w' where r: "ecm_run [CallOpen, CallOpen, CallStop, CallStop] w = Ret (as, w')"
    by (auto simp: code_of_def w_def demo_ecm_def demo_ecm_dev_def ecm_ipa_open_def ecm_ipa_stop_def)
  have "ecm_ctx w = Some demo_ecm_dev" "d_state demo_ecm_dev = link_state (False, False)"
    by (simp_all add: w_def demo_ecm_def demo_ecm_dev_def)
  note ref = ecm_calls_refine_switches [OF this r]
  have "as ! 1 = Code (Err EPERM)" "as ! 3 = Code (Err EPERM)"
    using ref [THEN conjunct2, THEN conjunct2, THEN conjunct1, rule_format, of 1]
      ref [THEN conjunct2, THEN conjunct2, THEN conjunct1, rule_format, of 3]
    by (simp_all add: numeral_eq_Suc)
  with r show ?thesis by blast
qed

definition demo_off :: "ipa \<Rightarrow> ecm" where
  "demo_off s = (demo_ecm s hdr_start)\<lparr>ecm_ctx := None\<rparr>"

text \<open>The two headers of the demonstration device in an empty table.\<close>

definition demo_ecm_bytes :: "nat \<Rightarrow> byte list" where
  "demo_ecm_bytes eth_type = [2, 0, 0, 0, 0, 1, 2, 0, 0, 0, 0, 2, word_of_nat (eth_type div 256), word_of_nat eth_type]"

definition demo_ecm_add :: "string \<Rightarrow> nat \<Rightarrow> hdr_add" where
  "demo_ecm_add name eth_type = \<lparr>a_name = name, a_hdr = demo_ecm_bytes eth_type @ replicate 18 0, a_len = 14,
     a_type = 2, a_partial = False, a_eth2_valid = True, a_eth2_ofst = 0\<rparr>"

definition demo_ecm_hdrs :: hdr_db where
  "demo_ecm_hdrs = hdr_start\<lparr>db_idr := [Some (PHdr 0), Some (PHdr 2)],
     db_hdr := [0 \<mapsto> (new_hdr (en_hdr demo_ecm_env) (demo_ecm_add ''ecm_eth_ipv4'' 0x0800) False)\<lparr>h_off := Some 1, h_ref := 1, h_id := 0\<rparr>,
                2 \<mapsto> (new_hdr (en_hdr demo_ecm_env) (demo_ecm_add ''ecm_eth_ipv6'' 0x86DD) False)\<lparr>h_off := Some 3, h_ref := 1, h_id := 1\<rparr>],
     db_off := [1 \<mapsto> \<lparr>o_offset = 0, o_bin = 1, o_ipacm = False\<rparr>, 3 \<mapsto> \<lparr>o_offset = 16, o_bin = 1, o_ipacm = False\<rparr>],
     db_next := 4, hdr_list := [2, 0], hdr_cnt := 2,
     hdr_tbl := \<lparr>ot_used = (\<lambda>b. [])(1 := [3, 1]), ot_free = \<lambda>b. [], ot_end = 32\<rparr>\<rparr>"

lemma demo_ecm_adds:
  "ecm_ipa_prepare_header_insertion demo_ecm_env ETH_P_IP ECM_IPA_IPV4_HDR_NAME (ep_host demo_ecm_params) (ep_device demo_ecm_params) False
     = demo_ecm_add ''ecm_eth_ipv4'' 0x0800"
  "ecm_ipa_prepare_header_insertion demo_ecm_env ETH_P_IPV6 ECM_IPA_IPV6_HDR_NAME (ep_host demo_ecm_params) (ep_device demo_ecm_params) False
     = demo_ecm_add ''ecm_eth_ipv6'' 0x86DD"
  by (simp_all add: ecm_ipa_prepare_header_insertion_def demo_ecm_add_def demo_ecm_params_def demo_ecm_bytes_def
      ECM_IPA_IPV4_HDR_NAME_def ECM_IPA_IPV6_HDR_NAME_def ETH_P_IP_def ETH_P_IPV6_def strlcpy_def be16_def pad_hdr_def
      demo_ecm_env_def demo_hdr_env_def)

lemma demo_ecm_added:
  "add_hdrs (en_hdr demo_ecm_env) False [demo_ecm_add ''ecm_eth_ipv4'' 0x0800, demo_ecm_add ''ecm_eth_ipv6'' 0x86DD] hdr_start
     = Some ([(0, Some 0), (0, Some 1)], demo_ecm_hdrs)"
  by (simp add: numeral_2_eq_2 numeral_3_eq_3 add_hdr_def hdr_link_def hdr_bin_def hdr_consts hdr_mem_size_def ipa3_id_alloc_def slot_grow_def
      demo_ecm_env_def demo_hdr_env_def demo_ecm_add_def new_hdr_def demo_ecm_hdrs_def hdr_start_def Let_def)


lemma demo_ecm_commit: "\<exists>hs. commit_hdr_v3_0 (en_hdr demo_ecm_env) demo_ecm_hdrs = Some (OK, hs)"
  by (simp add: commit_hdr_v3_0_def generate_hdr_hw_tbl_def dma_alloc_def demo_ecm_hdrs_def demo_ecm_env_def hdr_start_def
      demo_hdr_env_def memcpy_at_def new_hdr_def demo_ecm_add_def demo_ecm_bytes_def generate_hdr_proc_ctx_hw_tbl_def
      commit_cmds_def hdr_consts hdr_mem_size_def ctx_mem_size_def Let_def)

lemma demo_init:
  "\<exists>hs. ecm_ipa_init demo_ecm_env (Some demo_ecm_params) (demo_off s) = Some (OK, demo_ecm s hs)"
proof -
  obtain hs where hs: "commit_hdr_v3_0 (en_hdr demo_ecm_env) demo_ecm_hdrs = Some (OK, hs)" using demo_ecm_commit by blast
  let ?d = "(new_ecm_dev demo_ecm_params)\<lparr>d_addr := [2, 0, 0, 0, 0, 2]\<rparr>"
  have a: "ecm_ipa_set_device_ethernet_addr (new_ecm_dev demo_ecm_params) (ep_device demo_ecm_params) = (OK, ?d)"
    by (simp add: ecm_ipa_set_device_ethernet_addr_def is_valid_ether_addr_def demo_ecm_params_def)
  have e: "en_kzalloc demo_ecm_env" "en_alloc_netdev demo_ecm_env" "en_vlan_mode demo_ecm_env = (OK, False)"
    "en_register_netdev demo_ecm_env = OK" "en_ifname demo_ecm_env = ''ecm0''"
    by (simp_all add: demo_ecm_env_def)
  have "ecm_ipa_rules_cfg demo_ecm_env (?d\<lparr>d_vlan := False\<rparr>) (ep_host demo_ecm_params) (ep_device demo_ecm_params) (demo_off s) =
     Some (OK, ?d\<lparr>d_vlan := False, d_v4_hdl := 0, d_v6_hdl := 1\<rparr>, (demo_off s)\<lparr>ecm_hdr := hs\<rparr>)"
    using hs by (simp add: ecm_ipa_rules_cfg_def e demo_ecm_adds [unfolded One_nat_def] ipa3_add_hdr_def ipa3_add_hdr_usr_def
        finish_batch_def hdl_of_def demo_off_def demo_ecm_def demo_ecm_added del: add_hdrs.simps)
  then have "ecm_ipa_init demo_ecm_env (Some demo_ecm_params) (demo_off s) = Some (OK, demo_ecm s hs)"
    using a e by (simp add: ecm_ipa_init_def demo_off_def demo_ecm_def demo_ecm_dev_def new_ecm_dev_def)
  then show ?thesis by blast
qed


lemma activate_warm:
  assumes "pm_inv s" "get_client h s = Some c" "act_cnt s \<noteq> 0" "cl_state c = DEACTIVATED"
  shows "fst (ipa_pm_activate e h s) = OK"
proof -
  obtain p where "pm s = Some p" "clients p h = Some c"
    using assms(2) by (auto simp: get_client_def split: option.splits)
  then show ?thesis using assms(3,4) pm_inv_client(2) [OF assms(1,2)]
    by (simp add: ipa_pm_activate_def activate_helper_async_def inc_client_enable_clks_no_block_def)
qed

definition ecm_link_up :: "ecm \<Rightarrow> bool" where
  "ecm_link_up w \<longleftrightarrow> (\<exists>d. ecm_ctx w = Some d \<and> d_state d = ECM_CONNECTED_AND_UP \<and> \<not> d_queue_stopped d \<and>
     d_outstanding d = 0 \<and> d_high d = DEFAULT_OUTSTANDING_HIGH \<and> d_pm_hdl d = 1 \<and>
     (\<exists>c. get_client 1 (ecm_ipa w) = Some c \<and> cl_state c = DEACTIVATED))"

lemma demo_connect:
  assumes inv: "pm_inv s" and p: "pm s = Some p" "clients p = (\<lambda>h. None)"
  shows "\<exists>w. ecm_do (CallConnect demo_ecm_env 1 2) (snd (ecm_ipa_open (demo_ecm s hs))) = Ret (Code OK, w) \<and>
    ecm_link_up w \<and> act_cnt (ecm_ipa w) = act_cnt s"
proof -
  obtain k where k: "core_of s = Some k" using inv by (auto simp: pm_inv_def)
  let ?rp = "\<lparr>rp_name = Some ''ecm0'', rp_callback = True, rp_group = GROUP_APPS, rp_skip_clk_vote = False\<rparr>"
  have env: "env_kzalloc demo_env" "env_wakeup_source demo_env" by (simp_all add: demo_env_def)
  obtain s' ys where s': "ipa_pm_register demo_env (Some ?rp) True s = (OK, Some 1, s')"
    "core_of s' = Some (k\<lparr>co_clients := (co_clients k)(1 \<mapsto> new_client ''ecm0'' ?rp 1 True), co_exceptions := ys\<rparr>)"
    and sh: "\<exists>x. s' = s\<lparr>pm := x\<rparr>"
    using register_shape [OF inv p(1) _ find_open_empty [OF p(2)] env _ k, of ?rp "''ecm0''"] by fastforce
  have c: "get_client 1 s' = Some (new_client ''ecm0'' ?rp 1 True)" using get_client_core [OF s'(2)] by simp
  have cnt: "act_cnt s' = act_cnt s" using sh by auto
  have c0: "cl_state (new_client ''ecm0'' ?rp 1 True) = DEACTIVATED" by (simp add: new_client_def)
  define d where "d = demo_ecm_dev\<lparr>d_state := ECM_CONNECTED_AND_UP, d_ipa_to_usb_hdl := 2, d_usb_to_ipa_hdl := 1,
     d_ipa_to_usb_client := 2, d_usb_to_ipa_client := 1\<rparr>"
  define w where "w = set_ctx (demo_ecm_dev\<lparr>d_state := ECM_UP\<rparr>) (demo_ecm s hs)"
  have d': "d_name d = ''ecm0''" "d_state d = ECM_CONNECTED_AND_UP" "d_high d = DEFAULT_OUTSTANDING_HIGH" "d_outstanding d = 0"
    by (simp_all add: d_def demo_ecm_dev_def new_ecm_dev_def)
  have ew: "en_ipa demo_ecm_env = demo_env" "ecm_ipa w = s" "en_kzalloc demo_ecm_env" "en_send_msg demo_ecm_env = OK"
    by (simp_all add: demo_ecm_env_def w_def demo_ecm_def)
  have reg: "ecm_ipa_register_pm_client demo_ecm_env d w = (OK, d\<lparr>d_pm_hdl := 1\<rparr>, w\<lparr>ecm_ipa := s'\<rparr>)"
    using s'(1) d'(1) by (simp add: ecm_ipa_register_pm_client_def ew)
  have props: "\<exists>x. ecm_ipa_register_properties demo_ecm_env d1 w1 = (OK, w1\<lparr>ecm_intfs := x\<rparr>)" for d1 w1
    by (simp add: ecm_ipa_register_properties_def demo_ecm_env_def Let_def) blast
  have eps: "\<exists>x. ecm_ipa_ep_registers_cfg demo_ecm_env u i v w1 = (OK, w1\<lparr>ecm_eps := x\<rparr>)" for u i v w1
    by (simp add: ecm_ipa_ep_registers_cfg_def demo_ecm_env_def Let_def) blast
  obtain x where x: "ecm_ipa_register_properties demo_ecm_env (d\<lparr>d_pm_hdl := 1\<rparr>) (w\<lparr>ecm_ipa := s'\<rparr>) =
      (OK, w\<lparr>ecm_ipa := s', ecm_intfs := x\<rparr>)" using props [of "d\<lparr>d_pm_hdl := 1\<rparr>" "w\<lparr>ecm_ipa := s'\<rparr>"] by auto
  obtain y where y: "ecm_ipa_ep_registers_cfg demo_ecm_env (d_usb_to_ipa_hdl d) (d_ipa_to_usb_hdl d) (d_vlan d)
      (w\<lparr>ecm_ipa := s', ecm_intfs := x\<rparr>) = (OK, w\<lparr>ecm_ipa := s', ecm_intfs := x, ecm_eps := y\<rparr>)"
    using eps [of "d_usb_to_ipa_hdl d" "d_ipa_to_usb_hdl d" "d_vlan d" "w\<lparr>ecm_ipa := s', ecm_intfs := x\<rparr>"] by auto
  define w' where "w' = ecm_ipa_enable_data_path (d\<lparr>d_pm_hdl := 1, d_carrier := True\<rparr>)
    (w\<lparr>ecm_ipa := s', ecm_intfs := x, ecm_eps := y, ecm_msgs := ecm_msgs w @
       [MsgConnect (strlcpy (e_name_max (en_hdr demo_ecm_env)) (d_name d))]\<rparr>)"
  have "ecm_connect_clients demo_ecm_env d w = Ret (OK, w')"
    using reg x y d'(2) by (simp add: ecm_connect_clients_def ew w'_def)
  moreover have "ecm_ipa_connect demo_ecm_env 1 2 w = ecm_connect_clients demo_ecm_env d w"
    by (simp add: ecm_ipa_connect_def w_def d_def demo_ecm_env_def Let_def)
  moreover have "snd (ecm_ipa_open (demo_ecm s hs)) = w"
    by (simp add: ecm_ipa_open_def demo_ecm_def demo_ecm_dev_def w_def Let_def)
  moreover have "ecm_link_up w'" "act_cnt (ecm_ipa w') = act_cnt s"
    using d' c c0 cnt by (simp_all add: ecm_link_up_def w'_def)
  ultimately show ?thesis by (simp add: code_of_def)
qed

lemma link_up_xmit:
  assumes "ecm_link_up w" "act_cnt (ecm_ipa w) \<noteq> 0" "pm_inv (ecm_ipa w)" "en_tx_dp e = OK"
  shows "\<exists>w' d c. ecm_do (CallXmit e) w = Ret (Tx TX_OK, w') \<and> ecm_ctx w' = Some d \<and> d_outstanding d = 1 \<and>
    d_state d = ECM_CONNECTED_AND_UP \<and> get_client (d_pm_hdl d) (ecm_ipa w') = Some c \<and> STATE_ACTIVE (cl_state c)"
proof -
  obtain d c where d: "ecm_ctx w = Some d" "d_state d = ECM_CONNECTED_AND_UP" "\<not> d_queue_stopped d"
     "d_outstanding d = 0" "d_high d = DEFAULT_OUTSTANDING_HIGH" "d_pm_hdl d = 1"
     "get_client 1 (ecm_ipa w) = Some c" "cl_state c = DEACTIVATED"
    using assms(1) by (auto simp: ecm_link_up_def)
  obtain s where a: "ipa_pm_activate (en_ipa e) 1 (ecm_ipa w) = (OK, s)"
    using activate_warm [OF assms(3) d(7) assms(2) d(8), of "en_ipa e"]
    by (cases "ipa_pm_activate (en_ipa e) 1 (ecm_ipa w)") auto
  obtain c' where "get_client 1 s = Some c'" "STATE_ACTIVE (cl_state c')"
    using activate_result [OF assms(3) d(7) a] by auto
  then show ?thesis using d a assms(4)
    by (simp add: ecm_ipa_start_xmit_def Let_def ecm_xmit_out_def DEFAULT_OUTSTANDING_HIGH_def del: One_nat_def)
qed

end
