(* ===== verification/Ipa_Ecm_Power.thy ===== *)
theory Ipa_Ecm_Power
  imports Ipa_Ecm_Props Ipa_Pm_Client
begin

text \<open>
  The clocks under the packets of the ECM driver: in every history of the driver, the power
  manager and the rest of the system, the clocks run while a packet is under way.
\<close>

section \<open>The invariant of the device\<close>

definition dev_power :: "ecm_dev \<Rightarrow> ipa \<Rightarrow> bool" where
  "dev_power d s \<longleftrightarrow> d_high d = DEFAULT_OUTSTANDING_HIGH \<and> length (d_name d) < IPA_PM_MAX_EX_CL \<and>
     d_outstanding d \<le> 64 \<and>
     traffic_power.carries (client_slot (d_name d) (d_pm_hdl d)) (name_held (d_name d)) (d_outstanding d) s"

definition ecm_power :: "ecm \<Rightarrow> bool" where
  "ecm_power w \<longleftrightarrow> pm_inv (ecm_ipa w) \<and> (\<forall>d. ecm_ctx w = Some d \<longrightarrow> dev_power d (ecm_ipa w))"

lemma dev_power_slot: "dev_power d s \<Longrightarrow> client_slot (d_name d) (d_pm_hdl d) s"
  by (simp add: dev_power_def pm_client.carries_def)

lemma dev_power_inv: "dev_power d s \<Longrightarrow> pm_inv s"
  by (rule slot_inv [OF dev_power_slot])

lemma ecm_powerI: "ecm_ctx w = Some d \<Longrightarrow> dev_power d (ecm_ipa w) \<Longrightarrow> ecm_power w"
  by (simp add: ecm_power_def dev_power_inv)

lemma ecm_power_dev: "ecm_power w \<Longrightarrow> ecm_ctx w = Some d \<Longrightarrow> dev_power d (ecm_ipa w)"
  by (simp add: ecm_power_def)

lemma dev_power_same:
  "dev_power d s \<Longrightarrow> d_high d' = d_high d \<Longrightarrow> d_name d' = d_name d \<Longrightarrow> d_outstanding d' = d_outstanding d \<Longrightarrow>
   d_pm_hdl d' = d_pm_hdl d \<Longrightarrow> dev_power d' s"
  by (simp add: dev_power_def)

text \<open>A device without packets needs only its slot.\<close>

lemma dev_power_idle:
  "d_high d = DEFAULT_OUTSTANDING_HIGH \<Longrightarrow> length (d_name d) < IPA_PM_MAX_EX_CL \<Longrightarrow> d_outstanding d = 0 \<Longrightarrow>
   client_slot (d_name d) (d_pm_hdl d) s \<Longrightarrow> dev_power d s"
  by (simp add: dev_power_def pm_client.carries_def)

section \<open>The data path\<close>

lemma xmit_out_power:
  assumes "dev_power d (ecm_ipa w)"
  shows "dev_power d (ecm_ipa (ecm_xmit_out d w))"
  using assms pm_client.carries_defer [of "d_name d" "d_pm_hdl d" "d_outstanding d" "ecm_ipa w"]
  by (auto simp: ecm_xmit_out_def dev_power_def)

lemma xmit_power:
  assumes "ecm_power w"
  shows "ecm_power (snd (ecm_ipa_start_xmit e w))"
proof (cases "ecm_ctx w")
  case None
  then show ?thesis using assms by (simp add: ecm_ipa_start_xmit_def)
next
  case (Some d)
  have p: "dev_power d (ecm_ipa w)" by (rule ecm_power_dev [OF assms Some])
  obtain r s where a: "ipa_pm_activate (en_ipa e) (d_pm_hdl d) (ecm_ipa w) = (r, s)" by fastforce
  have c: "pm_client.carries (d_name d) (d_pm_hdl d) (d_outstanding d) (ecm_ipa w)" using p by (simp add: dev_power_def)
  note act = pm_client.carries_act [OF c a]
  have same: "dev_power (d\<lparr>d_queue_stopped := b\<rparr>) s" "dev_power d s" for b using p act(1) by (simp_all add: dev_power_def)
  have more: "dev_power (d\<lparr>d_outstanding := d_outstanding d + 1\<rparr>) s"
    if "r = OK" "\<not> d_outstanding d \<ge> uint (d_high d)"
    using p act(2) [OF that(1)] that(2) by (simp add: dev_power_def DEFAULT_OUTSTANDING_HIGH_def)
  let ?w1 = "w\<lparr>ecm_ipa := s\<rparr>" and ?d1 = "d\<lparr>d_queue_stopped := True\<rparr>"
  have out: "ecm_power (ecm_xmit_out d w)" "ecm_power (set_ctx ?d1 ?w1)"
    "ecm_power (ecm_xmit_out d (set_ctx ?d1 ?w1))" "ecm_power (ecm_xmit_out d ?w1)"
  proof -
    show "ecm_power (ecm_xmit_out d w)" using xmit_out_power [OF p] Some by (auto intro: ecm_powerI)
    show "ecm_power (set_ctx ?d1 ?w1)" using same(1) by (auto intro: ecm_powerI)
    have "dev_power d (ecm_ipa (ecm_xmit_out d (set_ctx ?d1 ?w1)))" by (rule xmit_out_power) (simp add: same)
    then have "dev_power ?d1 (ecm_ipa (ecm_xmit_out d (set_ctx ?d1 ?w1)))" by (rule dev_power_same) simp_all
    then show "ecm_power (ecm_xmit_out d (set_ctx ?d1 ?w1))" by (rule ecm_powerI [rotated]) simp
    have "dev_power d (ecm_ipa (ecm_xmit_out d ?w1))" by (rule xmit_out_power) (simp add: same)
    then show "ecm_power (ecm_xmit_out d ?w1)" using Some by (intro ecm_powerI) auto
  qed
  have sent: "ecm_power (ecm_xmit_out (d\<lparr>d_outstanding := d_outstanding d + 1\<rparr>)
      (set_ctx (d\<lparr>d_outstanding := d_outstanding d + 1\<rparr>) ?w1))"
    if "r = OK" "\<not> d_outstanding d \<ge> uint (d_high d)"
    by (rule ecm_powerI [OF _ xmit_out_power]) (use more that in auto)
  show ?thesis using Some a out sent assms by (simp add: ecm_ipa_start_xmit_def Let_def)
qed

lemma tx_complete_power:
  assumes "ecm_power w"
  shows "ecm_power (ecm_ipa_tx_complete_notify ev skb w)"
proof (cases skb)
  case None
  then show ?thesis using assms by (simp add: ecm_ipa_tx_complete_notify_def)
next
  case (Some len)
  show ?thesis
  proof (cases "ecm_ctx w")
    case None
    then show ?thesis using assms Some by (simp add: ecm_ipa_tx_complete_notify_def)
  next
    case d: (Some d)
    have p: "dev_power d (ecm_ipa w)" by (rule ecm_power_dev [OF assms d])
    define out where "out = (if d_outstanding d > 0 then d_outstanding d - 1 else d_outstanding d)"
    have c: "pm_client.carries (d_name d) (d_pm_hdl d) (d_outstanding d) (ecm_ipa w)" using p by (simp add: dev_power_def)
    then have "pm_client.carries (d_name d) (d_pm_hdl d) out (ecm_ipa w)"
      by (rule pm_client.carries_less) (use c in \<open>auto simp: out_def pm_client.carries_def\<close>)
    then have q: "dev_power (d\<lparr>d_tx_packets := n, d_tx_bytes := m, d_outstanding := out, d_queue_stopped := b\<rparr>) (ecm_ipa w)"
      for n m b using p by (simp add: dev_power_def out_def)
    have "ecm_power (ecm_xmit_out d1 (set_ctx d1 (w\<lparr>ecm_freed := n\<rparr>)))" if "dev_power d1 (ecm_ipa w)" for d1 n
      by (rule ecm_powerI [OF _ xmit_out_power]) (use that in auto)
    moreover have "ecm_power (w\<lparr>ecm_freed := n\<rparr>)" for n using assms by (simp add: ecm_power_def)
    ultimately show ?thesis using Some d q assms by (simp add: ecm_ipa_tx_complete_notify_def Let_def out_def)
  qed
qed

lemma quiet_power:
  assumes "ecm_power w"
  shows "ecm_power (ecm_ipa_packet_receive_notify rcv skb w)" "ecm_power (ecm_ipa_tx_timeout w)"
    "ecm_power (ecm_ipa_pm_cb ev w)" "ecm_power (snd (ecm_ipa_open w))" "ecm_power (snd (ecm_ipa_stop w))"
  using assms
  by (auto simp: ecm_ipa_packet_receive_notify_def ecm_ipa_tx_timeout_def ecm_ipa_pm_cb_def ecm_ipa_open_def
      ecm_ipa_stop_def ecm_power_def Let_def ecm_ipa_enable_data_path_def split: option.split
      intro: dev_power_same [where d = "the (ecm_ctx w)"])

section \<open>Connection\<close>

lemma props_ipa [simp]:
  "ecm_ipa (ecm_ipa_deregister_properties e w) = ecm_ipa w"
  "ecm_ipa (snd (ecm_ipa_register_properties e d w)) = ecm_ipa w"
  "ecm_ipa (snd (ecm_ipa_ep_registers_cfg e u i v w)) = ecm_ipa w"
  by (auto simp: ecm_ipa_deregister_properties_def ecm_ipa_register_properties_def ecm_ipa_ep_registers_cfg_def
      Let_def split: rc.split)

lemma no_hdl_free: "pm_inv s \<Longrightarrow> client_slot name NO_PM_HDL s"
  by (rule slot_free) (simp_all add: NO_PM_HDL_def pm_consts)

lemma deregister_power:
  assumes p: "dev_power d (ecm_ipa w)" and r: "ecm_ipa_deregister_pm_client e d w = Ret (d', w')"
  shows "pm_inv (ecm_ipa w') \<and> d' = d\<lparr>d_pm_hdl := NO_PM_HDL\<rparr>"
  using r slot_leave [OF dev_power_slot [OF p]]
  by (auto simp: ecm_ipa_deregister_pm_client_def split: outcome.splits prod.splits)

lemma connect_fail_power:
  assumes p: "dev_power d (ecm_ipa w)" "d_outstanding d = 0" and r: "ecm_connect_fail e c b d w = Ret (c', w')"
  shows "ecm_power w'"
proof -
  let ?w = "if b then ecm_ipa_deregister_properties e w else w"
  obtain d1 w1 where d: "ecm_ipa_deregister_pm_client e d ?w = Ret (d1, w1)" "w' = set_ctx d1 w1"
    using r by (auto simp: ecm_connect_fail_def split: outcome.splits)
  have "dev_power d (ecm_ipa ?w)" using p by simp
  note q = deregister_power [OF this d(1)]
  have "dev_power d1 (ecm_ipa w1)"
    by (rule dev_power_idle) (use p q no_hdl_free in \<open>auto simp: dev_power_def\<close>)
  then show ?thesis using d(2) by (auto intro: ecm_powerI)
qed

lemma connect_clients_power:
  assumes p: "dev_power d (ecm_ipa w)" and e: "env_kzalloc (en_ipa e)" "env_wakeup_source (en_ipa e)"
    and r: "ecm_connect_clients e d w = Ret (c, w')"
  shows "ecm_power w'"
proof -
  let ?rp = "\<lparr>rp_name = Some (d_name d), rp_callback = True, rp_group = GROUP_APPS, rp_skip_clk_vote = False\<rparr>"
  obtain r1 ho s1 where reg: "ipa_pm_register (en_ipa e) (Some ?rp) True (ecm_ipa w) = (r1, ho, s1)" by (metis prod_cases3)
  let ?w1 = "w\<lparr>ecm_ipa := s1\<rparr>"
  let ?d1 = "d\<lparr>d_pm_hdl := (case ho of None \<Rightarrow> d_pm_hdl d | Some h \<Rightarrow> h)\<rparr>"
  have 1: "ecm_ipa_register_pm_client e d w = (r1, ?d1, ?w1)"
    using reg by (simp add: ecm_ipa_register_pm_client_def)
  have len: "length (d_name d) < IPA_PM_MAX_EX_CL" using p by (simp add: dev_power_def)
  note reg' = slot_register [OF dev_power_slot [OF p] e _ _ _ reg]
  obtain h where h: "ho = Some h" "client_slot (d_name d) h s1"
    and cases: "r1 \<noteq> OK \<and> s1 = ecm_ipa w \<or> r1 = OK \<and> \<not> name_held (d_name d) (ecm_ipa w)"
    using reg' len by auto
  from cases show ?thesis
  proof (elim disjE conjE)
    assume "r1 \<noteq> OK" "s1 = ecm_ipa w"
    moreover have "dev_power ?d1 s1" if "s1 = ecm_ipa w"
      using p h that by (simp add: dev_power_def pm_client.carries_def)
    ultimately show ?thesis using r 1 by (auto simp: ecm_connect_clients_def intro: ecm_powerI)
  next
    assume ok: "r1 = OK" and "\<not> name_held (d_name d) (ecm_ipa w)"
    then have zero: "d_outstanding d = 0" using p by (auto simp: dev_power_def pm_client.carries_def)
    then have q: "dev_power ?d1 s1"
      by (intro dev_power_idle) (use h p in \<open>auto simp: dev_power_def\<close>)
    obtain r2 w2 where p2: "ecm_ipa_register_properties e ?d1 ?w1 = (r2, w2)" by fastforce
    obtain r3 w3 where p3: "ecm_ipa_ep_registers_cfg e (d_usb_to_ipa_hdl d) (d_ipa_to_usb_hdl d) (d_vlan d) w2 = (r3, w3)"
      by fastforce
    have s: "ecm_ipa w2 = s1" "ecm_ipa w3 = s1"
      using props_ipa(2) [of e ?d1 ?w1] props_ipa(3) [of e "d_usb_to_ipa_hdl d" "d_ipa_to_usb_hdl d" "d_vlan d" w2] p2 p3
      by simp_all
    let ?d2 = "?d1\<lparr>d_carrier := True\<rparr>"
    have q2: "dev_power ?d2 s1" "dev_power (?d2\<lparr>d_queue_stopped := False\<rparr>) s1" using q by (auto elim: dev_power_same)
    have fin: "ecm_power (set_ctx ?d2 (w3\<lparr>ecm_msgs := m\<rparr>))"
      "ecm_power (ecm_ipa_enable_data_path ?d2 (w3\<lparr>ecm_msgs := m\<rparr>))" for m
      using q2 s by (auto intro: ecm_powerI)
    show ?thesis
      using r 1 ok p2 p3 fin connect_fail_power [of ?d1 w2 e] connect_fail_power [of ?d1 w3 e]
        connect_fail_power [of ?d2 w3 e] connect_fail_power [of ?d2 "w3\<lparr>ecm_msgs := m\<rparr>" e for m] q q2 s zero
      by (auto simp: ecm_connect_clients_def Let_def split: if_splits)
  qed
qed

lemma connect_power:
  assumes w: "ecm_power w" and e: "env_kzalloc (en_ipa e)" "env_wakeup_source (en_ipa e)"
    and r: "ecm_ipa_connect e u i w = Ret (c, w')"
  shows "ecm_power w'"
proof (cases "ecm_ctx w")
  case None
  then show ?thesis using w r by (simp add: ecm_ipa_connect_def)
next
  case (Some d)
  have p: "dev_power d (ecm_ipa w)" by (rule ecm_power_dev [OF w Some])
  have q: "dev_power (d\<lparr>d_state := st, d_ipa_to_usb_hdl := a, d_usb_to_ipa_hdl := b, d_ipa_to_usb_client := x,
      d_usb_to_ipa_client := y\<rparr>) (ecm_ipa w)" "dev_power (d\<lparr>d_state := st\<rparr>) (ecm_ipa w)"
    "dev_power (d\<lparr>d_state := st, d_ipa_to_usb_hdl := a, d_usb_to_ipa_hdl := b, d_ipa_to_usb_client := x\<rparr>) (ecm_ipa w)"
    for st a b x y by (rule dev_power_same [OF p]; simp)+
  have set: "ecm_power (set_ctx d' w)" if "dev_power d' (ecm_ipa w)" for d'
    using that by (auto intro: ecm_powerI)
  show ?thesis using r Some w set q connect_clients_power [OF q(1) e]
    by (auto simp: ecm_ipa_connect_def Let_def split: if_splits)
qed

lemma disconnect_power:
  assumes w: "ecm_power w" and r: "ecm_ipa_disconnect e w = Ret (c, w')"
  shows "ecm_power w'"
proof (cases "ecm_ctx w")
  case None
  then show ?thesis using w r by (simp add: ecm_ipa_disconnect_def)
next
  case (Some d)
  have p: "dev_power d (ecm_ipa w)" by (rule ecm_power_dev [OF w Some])
  let ?d1 = "d\<lparr>d_state := ecm_next_state (d_state d) ECM_DISCONNECT, d_carrier := False\<rparr>"
  have q: "dev_power ?d1 (ecm_ipa w)" "dev_power (?d1\<lparr>d_queue_stopped := True\<rparr>) (ecm_ipa w)"
    by (rule dev_power_same [OF p]; simp)+
  have gone: "ecm_power (set_ctx (d2\<lparr>d_tx_errors := n, d_outstanding := 0\<rparr>) w2)"
    if "ecm_ipa_deregister_pm_client e (?d1\<lparr>d_queue_stopped := True\<rparr>) (w\<lparr>ecm_msgs := m\<rparr>) = Ret (d2, w2)" for d2 w2 n m
  proof -
    have "dev_power (?d1\<lparr>d_queue_stopped := True\<rparr>) (ecm_ipa (w\<lparr>ecm_msgs := m\<rparr>))" using q(2) by simp
    note z = deregister_power [OF this that]
    have "dev_power (d2\<lparr>d_tx_errors := n, d_outstanding := 0\<rparr>) (ecm_ipa w2)"
      by (rule dev_power_idle) (use z p no_hdl_free in \<open>auto simp: dev_power_def\<close>)
    then show ?thesis by (auto intro: ecm_powerI)
  qed
  have set: "ecm_power (set_ctx ?d1 w)" using q(1) by (auto intro: ecm_powerI)
  show ?thesis using r Some w set gone
    by (auto simp: ecm_ipa_disconnect_def Let_def split: if_splits outcome.splits prod.splits)
qed

lemma rules_ipa:
  "ecm_ipa_rules_cfg e d a b w = Some (r, d', w') \<Longrightarrow> ecm_ipa w' = ecm_ipa w \<and> ecm_ctx w' = ecm_ctx w \<and>
     (\<exists>x y. d' = d\<lparr>d_v4_hdl := x, d_v6_hdl := y\<rparr>)"
  "ecm_ipa_rules_destroy e d w = Some w' \<Longrightarrow> ecm_ipa w' = ecm_ipa w \<and> ecm_ctx w' = ecm_ctx w"
proof -
  have "\<exists>x y. d = d\<lparr>d_v4_hdl := x, d_v6_hdl := y\<rparr>"
    by (intro exI [of _ "d_v4_hdl d"] exI [of _ "d_v6_hdl d"]) simp
  then show "ecm_ipa_rules_cfg e d a b w = Some (r, d', w') \<Longrightarrow> ecm_ipa w' = ecm_ipa w \<and> ecm_ctx w' = ecm_ctx w \<and>
     (\<exists>x y. d' = d\<lparr>d_v4_hdl := x, d_v6_hdl := y\<rparr>)"
    by (auto simp: ecm_ipa_rules_cfg_def Let_def split: if_splits bind_splits prod.splits)
qed (auto simp: ecm_ipa_rules_destroy_def split: if_splits bind_splits prod.splits)

lemma init_power:
  assumes w: "ecm_power w" and r: "ecm_ipa_init e params w = Some (c, w')" and n: "length (en_ifname e) < IPA_PM_MAX_EX_CL"
  shows "ecm_power w'"
proof -
  have keep: "ecm_power w1" if "ecm_ipa w1 = ecm_ipa w" "ecm_ctx w1 = ecm_ctx w" for w1
    using w that by (simp add: ecm_power_def)
  have new: "ecm_power (w1\<lparr>ecm_ctx := Some d\<rparr>)"
    if "ecm_ipa w1 = ecm_ipa w" "d_high d = DEFAULT_OUTSTANDING_HIGH" "d_name d = en_ifname e" "d_outstanding d = 0"
      "d_pm_hdl d = 0" for w1 d
  proof -
    have "dev_power d (ecm_ipa w)" using that n w
      by (intro dev_power_idle) (auto simp: ecm_power_def intro: slot_free)
    then show ?thesis using that(1) by (auto intro: ecm_powerI)
  qed
  show ?thesis
  proof (cases params)
    case None
    then show ?thesis using r w by (simp add: ecm_ipa_init_def)
  next
    case (Some pr)
    obtain r0 d where a: "ecm_ipa_set_device_ethernet_addr (new_ecm_dev pr) (ep_device pr) = (r0, d)" by fastforce
    have d: "d_high d = DEFAULT_OUTSTANDING_HIGH" "d_outstanding d = 0" "d_pm_hdl d = 0"
      using a by (auto simp: ecm_ipa_set_device_ethernet_addr_def new_ecm_dev_def split: if_splits)
    obtain r1 v where v: "en_vlan_mode e = (r1, v)" by fastforce
    show ?thesis
    proof (cases "en_alloc_netdev e \<and> r0 = OK \<and> r1 = OK")
      case False
      then show ?thesis using r Some a v w
        by (auto simp: ecm_ipa_init_def split: if_splits rc.splits)
    next
      case True
      then obtain r2 d1 w1 where cfg: "ecm_ipa_rules_cfg e (d\<lparr>d_vlan := v\<rparr>) (ep_host pr) (ep_device pr) w = Some (r2, d1, w1)"
        using r Some a v by (auto simp: ecm_ipa_init_def split: bind_splits)
      note c = rules_ipa(1) [OF cfg]
      have run: "(if r2 \<noteq> OK then Some (r2, w1) else case en_register_netdev e of
            Err err \<Rightarrow> do { w2 \<leftarrow> ecm_ipa_rules_destroy e d1 w1; Some (Err err, w2) }
          | OK \<Rightarrow> Some (OK, w1\<lparr>ecm_ctx := Some (d1\<lparr>d_name := en_ifname e, d_carrier := False,
               d_queue_stopped := True, d_state := ECM_INITIALIZED\<rparr>)\<rparr>)) = Some (c, w')"
        using r True Some a v cfg by (simp add: ecm_ipa_init_def)
      show ?thesis
      proof (cases "r2 = OK")
        case False
        then show ?thesis using run c keep by simp
      next
        case ok: True
        show ?thesis
        proof (cases "en_register_netdev e")
          case OK
          then have w': "w' = w1\<lparr>ecm_ctx := Some (d1\<lparr>d_name := en_ifname e, d_carrier := False,
               d_queue_stopped := True, d_state := ECM_INITIALIZED\<rparr>)\<rparr>" using run ok by simp
          show ?thesis unfolding w' by (rule new) (use c d in auto)
        next
          case (Err err)
          then obtain w2 where "ecm_ipa_rules_destroy e d1 w1 = Some w2" "w' = w2"
            using run ok by (auto split: bind_splits)
          then show ?thesis using rules_ipa(2) c keep by auto
        qed
      qed
    qed
  qed
qed

lemma cleanup_power:
  assumes "ecm_power w" "ecm_ipa_cleanup e w = Some w'"
  shows "ecm_power w'"
  using assms rules_ipa(2)
  by (fastforce simp: ecm_ipa_cleanup_def ecm_power_def Let_def split: option.splits if_splits bind_splits)

section \<open>All histories\<close>

text \<open>
  The driver's calls in any environment, with everything else that happens to the power manager
  and the header tables. Two guards: memory and wake source are there when a client registers,
  and the name of the interface fits the power manager.
\<close>

fun call_fair :: "ecm_call \<Rightarrow> bool" where
  "call_fair (CallConnect e u i) \<longleftrightarrow> env_kzalloc (en_ipa e) \<and> env_wakeup_source (en_ipa e)"
| "call_fair _ \<longleftrightarrow> True"

inductive ecm_step :: "ecm \<Rightarrow> ecm \<Rightarrow> bool" where
  step_init: "ecm_ipa_init e params w = Some (r, w') \<Longrightarrow> length (en_ifname e) < IPA_PM_MAX_EX_CL \<Longrightarrow> ecm_step w w'"
| step_cleanup: "ecm_ipa_cleanup e w = Some w' \<Longrightarrow> ecm_step w w'"
| step_call: "ecm_do c w = Ret (a, w') \<Longrightarrow> call_fair c \<Longrightarrow> ecm_step w w'"
| step_power: "around_client name (ecm_ipa w) s \<Longrightarrow> (\<And>d. ecm_ctx w = Some d \<Longrightarrow> d_name d = name) \<Longrightarrow>
    ecm_step w (w\<lparr>ecm_ipa := s\<rparr>)"
| step_headers: "hdr_run e c (ecm_hdr w) = Some (r, hs) \<Longrightarrow> ecm_step w (w\<lparr>ecm_hdr := hs\<rparr>)"

inductive ecm_reachable :: "ecm \<Rightarrow> bool" where
  ecm_start: "pm_reachable (ecm_ipa w) \<Longrightarrow> ecm_ctx w = None \<Longrightarrow> ecm_reachable w"
| ecm_next: "ecm_reachable w \<Longrightarrow> ecm_step w w' \<Longrightarrow> ecm_reachable w'"

lemma ecm_do_power:
  assumes w: "ecm_power w" and r: "ecm_do c w = Ret (a, w')" and f: "call_fair c"
  shows "ecm_power w'"
proof (cases c)
  case (CallConnect e u i)
  then show ?thesis using r f connect_power [OF w, of e u i] by (auto simp: code_of_Ret)
next
  case (CallDisconnect e)
  then show ?thesis using r disconnect_power [OF w, of e] by (auto simp: code_of_Ret)
next
  case (CallXmit e)
  then show ?thesis using r xmit_power [OF w, of e] by (auto split: prod.splits)
next
  case (CallTxDone b p)
  then show ?thesis using r tx_complete_power [OF w] by auto
qed (use r quiet_power [OF w] in \<open>auto simp: code_of_Ret\<close>)

lemma around_power:
  assumes w: "ecm_power w" and s: "around_client name (ecm_ipa w) s" "\<And>d. ecm_ctx w = Some d \<Longrightarrow> d_name d = name"
  shows "ecm_power (w\<lparr>ecm_ipa := s\<rparr>)"
proof (cases "ecm_ctx w")
  case None
  then show ?thesis using around_moves(1) [OF s(1)] w by (simp add: ecm_power_def)
next
  case (Some d)
  have p: "dev_power d (ecm_ipa w)" by (rule ecm_power_dev [OF w Some])
  have "dev_power d s"
    using slot_around [of "d_name d" "ecm_ipa w" s "d_pm_hdl d"] s(1) s(2) [OF Some] p
    by (auto simp: dev_power_def pm_client.carries_def)
  then show ?thesis using Some by (auto intro: ecm_powerI)
qed

lemma ecm_step_power: "ecm_step w w' \<Longrightarrow> ecm_power w \<Longrightarrow> ecm_power w'"
proof (induction rule: ecm_step.induct)
  case (step_init e params w r w')
  then show ?case by (blast intro: init_power)
next
  case (step_call c w a w')
  then show ?case by (blast intro: ecm_do_power)
next
  case (step_power name w s)
  then show ?case by (intro around_power) auto
next
  case (step_headers e c w r hs)
  then show ?case by (simp add: ecm_power_def)
qed (blast intro: cleanup_power)

lemma ecm_reachable_power: "ecm_reachable w \<Longrightarrow> ecm_power w"
proof (induction rule: ecm_reachable.induct)
  case (ecm_start w)
  then show ?case using pm_reachable_inv by (simp add: ecm_power_def)
next
  case (ecm_next w w')
  then show ?case by (blast intro: ecm_step_power)
qed


text \<open>The demonstration device, started and connected on a driver just booted or on gated clocks.\<close>

lemma demo_ecm_linked:
  assumes "demo_base b"
  shows "\<exists>w. ecm_reachable w \<and> ecm_link_up w \<and> act_cnt (ecm_ipa w) = act_cnt b"
proof -
  let ?s = "demo_s1 b"
  obtain hs where i: "ecm_ipa_init demo_ecm_env (Some demo_ecm_params) (demo_off ?s) = Some (OK, demo_ecm ?s hs)"
    using demo_init by blast
  have "ecm_reachable (demo_off ?s)"
    by (rule ecm_start) (simp_all add: demo_off_def demo_ecm_def demo_s1_reachable [OF assms])
  then have r0: "ecm_reachable (demo_ecm ?s hs)"
    by (rule ecm_next [OF _ step_init [OF i]]) (simp add: demo_ecm_env_def pm_consts)
  obtain p where p: "pm ?s = Some p" "clients p = (\<lambda>h. None)" "act_cnt ?s = act_cnt b"
    using demo_s1_clients [OF assms] by blast
  let ?w1 = "snd (ecm_ipa_open (demo_ecm ?s hs))"
  have "ecm_do CallOpen (demo_ecm ?s hs) = Ret (Code (fst (ecm_ipa_open (demo_ecm ?s hs))), ?w1)"
    by (simp add: code_of_def split: prod.split)
  then have r1: "ecm_reachable ?w1" by (rule ecm_next [OF r0 step_call]) simp
  obtain w2 where w2: "ecm_do (CallConnect demo_ecm_env 1 2) ?w1 = Ret (Code OK, w2)" "ecm_link_up w2"
      "act_cnt (ecm_ipa w2) = act_cnt ?s"
    using demo_connect [OF pm_reachable_inv [OF demo_s1_reachable [OF assms]] p(1,2)] by blast
  have "ecm_reachable w2"
    by (rule ecm_next [OF r1 step_call [OF w2(1)]]) (simp add: demo_ecm_env_def demo_env_def)
  then show ?thesis using w2 p(3) by auto
qed


section \<open>A packet on gated clocks\<close>

lemma slot_refused:
  assumes slot: "client_slot name h s" "get_client h s = Some c" and r: "ipa_pm_activate e h s = (r, s1)" "r \<noteq> OK"
  shows "\<exists>c1 c2. get_client h s1 = Some c1 \<and> cl_activate_work c1 \<and> cl_state c1 = ACTIVATE_IN_PROGRESS \<and>
    client_slot name h (run_activate_work e' h s1) \<and> get_client h (run_activate_work e' h s1) = Some c2 \<and>
    name_held name (run_activate_work e' h s1) \<and>
    PmCallback h CLIENT_ACTIVATED \<in> set (events (run_activate_work e' h s1))"
proof -
  note inv = slot_inv [OF slot(1)] and s1 = slot_activate(1) [OF slot(1) r(1)]
  obtain c1 where c1: "get_client h s1 = Some c1" "cl_state c1 = ACTIVATE_IN_PROGRESS"
    using activate_moves [OF inv slot(2) r(1)] r(2) by auto
  note ci = pm_inv_client(1) [OF slot_inv [OF s1] c1(1)] and fx = slot_client [OF s1 c1(1)]
  have w: "cl_activate_work c1" "cl_hdl c1 = h" "cl_callback c1" "cl_name c1 = name"
    using ci fx c1(2) by (auto simp: client_inv_def fixed_part_def)
  obtain c2 where c2: "get_client h (run_activate_work e' h s1) = Some c2" "fixed_part c2 = (name, False, False, True)"
      "calm (cl_state c2)"
    using activate_work_moves [OF slot_inv [OF s1] c1(1) w(1), of e'] c1(2) fx by auto
  moreover have "name_held name (run_activate_work e' h s1)" by (rule name_heldI [OF c2])
  moreover have "client_slot name h (run_activate_work e' h s1)"
    by (rule slot_around(1) [OF own_activation [OF c1(1) w(4,1)] s1])
  ultimately show ?thesis using c1 w activate_work_calls_back [OF c1(1) w(2) c1(2) w(3), of e'] by blast
qed

text \<open>
  C10: A packet that is refused because the clocks are gated stops the queue and leaves an
  activation queued; once that ran it calls the driver back, the callback starts the queue, and
  the same packet is then taken with the clocks running.
\<close>

theorem ecm_xmit_wakes_clocks:
  assumes "ecm_reachable w" "ecm_ctx w = Some d" "d_state d = ECM_CONNECTED_AND_UP" "\<not> d_queue_stopped d"
    and "d_outstanding d < 64" "en_tx_dp e = OK" "get_client (d_pm_hdl d) (ecm_ipa w) = Some c"
    and "ecm_ipa_start_xmit e w = (TX_BUSY, w1)"
  shows "\<exists>c1. get_client (d_pm_hdl d) (ecm_ipa w1) = Some c1 \<and> cl_activate_work c1 \<and>
    ecm_ctx w1 = Some (d\<lparr>d_queue_stopped := True\<rparr>) \<and>
    (let s2 = run_activate_work e' (d_pm_hdl d) (ecm_ipa w1);
         (t, w3) = ecm_ipa_start_xmit e (ecm_ipa_pm_cb CLIENT_ACTIVATED (w1\<lparr>ecm_ipa := s2\<rparr>))
     in PmCallback (d_pm_hdl d) CLIENT_ACTIVATED \<in> set (events s2) \<and> t = TX_OK \<and>
        ecm_ctx w3 = Some (d\<lparr>d_outstanding := 1\<rparr>) \<and> clk_running (ecm_ipa w3))"
proof -
  let ?h = "d_pm_hdl d"
  have p: "dev_power d (ecm_ipa w)" by (rule ecm_power_dev [OF ecm_reachable_power [OF assms(1)] assms(2)])
  then have high: "uint (d_high d) = 64" by (simp add: dev_power_def DEFAULT_OUTSTANDING_HIGH_def)
  obtain r s1 where a: "ipa_pm_activate (en_ipa e) ?h (ecm_ipa w) = (r, s1)" by fastforce
  have r: "r \<noteq> OK"
    using assms(2-6,8) a high by (auto simp: ecm_ipa_start_xmit_def Let_def)
  have zero: "d_outstanding d = 0"
    using p slot_activate(4) [OF dev_power_slot [OF p] a _ assms(7)] r by (force simp: dev_power_def pm_client.carries_def)
  have w1: "w1 = set_ctx (d\<lparr>d_queue_stopped := True\<rparr>) (w\<lparr>ecm_ipa := s1\<rparr>)"
    using assms(2-4,8) a r by (auto simp: ecm_ipa_start_xmit_def Let_def)
  obtain c1 c2 where c1: "get_client ?h s1 = Some c1" "cl_activate_work c1"
      "client_slot (d_name d) ?h (run_activate_work e' ?h s1)" "get_client ?h (run_activate_work e' ?h s1) = Some c2"
      "name_held (d_name d) (run_activate_work e' ?h s1)"
      "PmCallback ?h CLIENT_ACTIVATED \<in> set (events (run_activate_work e' ?h s1))"
    using slot_refused [OF dev_power_slot [OF p] assms(7) a r, of e'] by blast
  obtain r3 s3 where b: "ipa_pm_activate (en_ipa e) ?h (run_activate_work e' ?h s1) = (r3, s3)" by fastforce
  note act = slot_activate [OF c1(3) b]
  have r3: "r3 = OK" by (rule act(4) [OF c1(5,4)])
  have run: "clk_running s3" by (rule held_running [OF slot_inv [OF act(1)] act(2) [OF r3]])
  have d: "d\<lparr>d_queue_stopped := False, d_outstanding := x\<rparr> = d\<lparr>d_outstanding := x\<rparr>" for x using assms(4) by simp
  have "ecm_ipa_pm_cb CLIENT_ACTIVATED (w1\<lparr>ecm_ipa := run_activate_work e' ?h s1\<rparr>) =
      set_ctx (d\<lparr>d_queue_stopped := False\<rparr>) (w\<lparr>ecm_ipa := run_activate_work e' ?h s1\<rparr>)"
    by (simp add: ecm_ipa_pm_cb_def w1 set_ctx_def)
  then show ?thesis
    using c1 assms(3,6) b r3 zero high run
    by (auto simp: w1 ecm_ipa_start_xmit_def Let_def ecm_xmit_out_def d)
qed

lemma ecm_xmit_wakes_clocks_witness:
  "\<exists>w w1 d s2 w3. ecm_ctx w = Some d \<and> ecm_ipa_start_xmit demo_ecm_env w = (TX_BUSY, w1) \<and>
     s2 = run_activate_work demo_env 1 (ecm_ipa w1) \<and>
     ecm_ipa_start_xmit demo_ecm_env (ecm_ipa_pm_cb CLIENT_ACTIVATED (w1\<lparr>ecm_ipa := s2\<rparr>)) = (TX_OK, w3) \<and>
     clk_running (ecm_ipa w3)"
proof -
  obtain w where w: "ecm_reachable w" "ecm_link_up w" "act_cnt (ecm_ipa w) = act_cnt demo_gated"
    using demo_ecm_linked [OF demo_gated_facts(1)] by blast
  obtain d c where d: "ecm_ctx w = Some d" "d_state d = ECM_CONNECTED_AND_UP" "\<not> d_queue_stopped d"
     "d_outstanding d = 0" "d_pm_hdl d = 1" "get_client 1 (ecm_ipa w) = Some c" "cl_state c = DEACTIVATED"
    using w(2) by (auto simp: ecm_link_up_def)
  have e: "en_tx_dp demo_ecm_env = OK" "en_ipa demo_ecm_env = demo_env" by (simp_all add: demo_ecm_env_def)
  have g: "get_client (d_pm_hdl d) (ecm_ipa w) = Some c" using d by simp
  have slot: "client_slot (d_name d) (d_pm_hdl d) (ecm_ipa w)"
    by (rule dev_power_slot [OF ecm_power_dev [OF ecm_reachable_power [OF w(1)] d(1)]])
  then have "\<not> cl_skip_clk_vote c" using slot_client g by (fastforce simp: fixed_part_def)
  moreover obtain p where "pm (ecm_ipa w) = Some p" "clients p 1 = Some c"
    using d(6) by (auto simp: get_client_def split: option.splits)
  ultimately obtain s where "ipa_pm_activate demo_env 1 (ecm_ipa w) = (Err EINPROGRESS, s)"
    using d(7) w(3) demo_gated_facts(2)
    by (simp add: ipa_pm_activate_def activate_helper_async_def inc_client_enable_clks_no_block_def pm_consts)
  then obtain w1 where x: "ecm_ipa_start_xmit demo_ecm_env w = (TX_BUSY, w1)"
    using d(1-5) e by (simp add: ecm_ipa_start_xmit_def Let_def)
  have "d_outstanding d < 64" using d(4) by simp
  from ecm_xmit_wakes_clocks [OF w(1) d(1-3) this e(1) g x, of demo_env] d(1,5) x
  show ?thesis by (auto simp: Let_def split: prod.splits)
qed

text \<open>
  A connect with an invalid handle fails but counts as connected: no later connect is
  accepted, the interface then comes up with its queue running, and every packet is refused
  because the power manager has no client.
\<close>

theorem ecm_failed_connect_sticks:
  assumes "ecm_ctx w = Some d" "d_state d = ECM_INITIALIZED" "pm (ecm_ipa w) \<noteq> None" "get_client (d_pm_hdl d) (ecm_ipa w) = None"
    and "\<not> (en_handle_valid e u \<and> en_handle_valid e i)"
  shows "\<exists>w1 w2. ecm_ipa_connect e u i w = Ret (Err EINVAL, w1) \<and> ecm_ipa w1 = ecm_ipa w \<and>
    (\<forall>e' u' i'. ecm_ipa_connect e' u' i' w1 = Ret (Err EPERM, w1)) \<and>
    ecm_ipa_open w1 = (OK, w2) \<and>
    (\<forall>e'. \<exists>w3. ecm_ipa_start_xmit e' w2 = (TX_BUSY, w3) \<and> ecm_ipa w3 = ecm_ipa w)"
proof -
  let ?d = "d\<lparr>d_state := ECM_CONNECTED\<rparr>" and ?d2 = "d\<lparr>d_state := ECM_CONNECTED_AND_UP, d_queue_stopped := False\<rparr>"
  have 1: "ecm_ipa_connect e u i w = Ret (Err EINVAL, set_ctx ?d w)"
    using assms by (auto simp: ecm_ipa_connect_def Let_def)
  have 2: "ecm_ipa_connect e' u' i' (set_ctx ?d w) = Ret (Err EPERM, set_ctx ?d w)" for e' u' i'
    by (simp add: ecm_ipa_connect_def)
  obtain w2 where o: "ecm_ipa_open (set_ctx ?d w) = (OK, w2)" "ecm_ctx w2 = Some ?d2" "ecm_ipa w2 = ecm_ipa w"
    by (simp add: ecm_ipa_open_def Let_def)
  obtain p where "pm (ecm_ipa w) = Some p" using assms(3) by blast
  from no_client_calls(1) [OF this assms(4)]
  have "\<exists>w3. ecm_ipa_start_xmit e' w2 = (TX_BUSY, w3) \<and> ecm_ipa w3 = ecm_ipa w" for e'
    using o(2,3) by (simp add: ecm_ipa_start_xmit_def Let_def)
  then show ?thesis using 1 2 o(1) by (intro exI [of _ "set_ctx ?d w"] exI [of _ w2]) auto
qed

lemma ecm_failed_connect_sticks_witness:
  "\<exists>w1. ecm_ipa_connect demo_ecm_env 40 2 (demo_ecm (demo_s1 demo_boot) hdr_start) = Ret (Err EINVAL, w1) \<and>
     ecm_ipa_connect demo_ecm_env 1 2 w1 = Ret (Err EPERM, w1)"
proof -
  let ?w = "demo_ecm (demo_s1 demo_boot) hdr_start"
  obtain p where p: "pm (demo_s1 demo_boot) = Some p" "clients p = (\<lambda>h. None)"
    using demo_s1_clients [OF demo_base_boot] by blast
  have "ecm_ctx ?w = Some demo_ecm_dev" "d_state demo_ecm_dev = ECM_INITIALIZED" "pm (ecm_ipa ?w) \<noteq> None"
    "get_client (d_pm_hdl demo_ecm_dev) (ecm_ipa ?w) = None" "\<not> (en_handle_valid demo_ecm_env 40 \<and> en_handle_valid demo_ecm_env 2)"
    using p by (simp_all add: demo_ecm_def demo_ecm_dev_def get_client_def demo_ecm_env_def)
  from ecm_failed_connect_sticks [OF this] show ?thesis by blast
qed

section \<open>The vote of a lost client\<close>

text \<open>A name in use is refused, and the handle of the caller is overwritten with the error.\<close>

lemma register_taken:
  assumes inv: "pm_inv s" and c: "get_client h s = Some c" "cl_name c = name" and rp: "rp_name rp = Some name"
  shows "ipa_pm_register e (Some rp) True s = (Err EEXIST, Some (err_u32 EEXIST), s)"
proof -
  obtain p where p: "pm s = Some p" using pm_inv_pm [OF inv] by blast
  have "registered name (clients p) h" using c p by (simp add: registered_def get_client_def)
  moreover have "1 \<le> h" "h < IPA_PM_MAX_CLIENTS" using pm_inv_client [OF inv c(1)] by (auto simp: client_inv_def)
  ultimately have "find_next_open_array_element name p = Inl EEXIST"
    unfolding find_next_open_array_element_def find_open_spec by auto
  then show ?thesis using p rp by (simp add: ipa_pm_register_def)
qed

text \<open>
  C40: A disconnect whose message cannot be sent, a connect and a complete disconnect later the
  client of the driver is still active and its vote keeps the clocks running, but the driver no
  longer has its handle.
\<close>

theorem ecm_orphaned_vote:
  assumes "ecm_reachable w" "ecm_ctx w = Some d" "d_state d = ECM_CONNECTED \<or> d_state d = ECM_CONNECTED_AND_UP"
    and "get_client (d_pm_hdl d) (ecm_ipa w) = Some c" "STATE_ACTIVE (cl_state c)"
    and "\<not> en_kzalloc e1"
    and "en_handle_valid e2 u" "en_handle_valid e2 i" "0 \<le> en_client_of e2 u" "0 \<le> en_client_of e2 i"
    and "en_kzalloc e3" "en_send_msg e3 = OK"
  shows "\<exists>w1 w2 w3. ecm_ipa_disconnect e1 w = Ret (Err ENOMEM, w1) \<and> ecm_ipa_connect e2 u i w1 = Ret (Err EEXIST, w2) \<and>
    ecm_ipa_disconnect e3 w2 = Ret (OK, w3) \<and> map_option d_pm_hdl (ecm_ctx w3) = Some NO_PM_HDL \<and>
    get_client (d_pm_hdl d) (ecm_ipa w3) = Some c \<and> clk_running (ecm_ipa w3)"
proof -
  let ?s = "ecm_ipa w"
  have slot: "client_slot (d_name d) (d_pm_hdl d) ?s"
    by (rule dev_power_slot [OF ecm_power_dev [OF ecm_reachable_power [OF assms(1)] assms(2)]])
  note inv = slot_inv [OF slot] and fx = slot_client [OF slot assms(4)]
  have run: "clk_running ?s"
    by (rule pm_inv_running [OF inv assms(4)]) (use assms(5) fx in \<open>simp add: voting_def fixed_part_def\<close>)
  define off where "off = ecm_next_state (d_state d) ECM_DISCONNECT"
  have st: "off \<noteq> ECM_INVALID" "ecm_next_state off ECM_CONNECT = d_state d" "d_state d \<noteq> ECM_INVALID"
    using assms(3) by (auto simp: off_def)
  define d1 where "d1 = d\<lparr>d_state := off, d_carrier := False\<rparr>"
  define d2 where "d2 = d1\<lparr>d_state := d_state d, d_ipa_to_usb_hdl := i, d_usb_to_ipa_hdl := u,
     d_ipa_to_usb_client := en_client_of e2 i, d_usb_to_ipa_client := en_client_of e2 u, d_pm_hdl := err_u32 EEXIST\<rparr>"
  have 1: "ecm_ipa_disconnect e1 w = Ret (Err ENOMEM, set_ctx d1 w)"
    using assms(2,6) st by (simp add: ecm_ipa_disconnect_def off_def d1_def)
  have reg: "ipa_pm_register (en_ipa e2) (Some \<lparr>rp_name = Some (d_name d), rp_callback = True, rp_group = GROUP_APPS,
      rp_skip_clk_vote = False\<rparr>) True ?s = (Err EEXIST, Some (err_u32 EEXIST), ?s)"
    by (rule register_taken [OF inv assms(4)]) (use fx in \<open>simp_all add: fixed_part_def\<close>)
  have 2: "ecm_ipa_connect e2 u i (set_ctx d1 w) = Ret (Err EEXIST, set_ctx d2 (set_ctx d1 w))"
    using st assms(7-10) reg
    by (simp add: ecm_ipa_connect_def ecm_connect_clients_def ecm_ipa_register_pm_client_def d1_def d2_def set_ctx_def)
  obtain p where p: "pm ?s = Some p" using pm_inv_pm [OF inv] by blast
  have "get_client (err_u32 EEXIST) ?s = None"
    by (rule no_client [OF inv]) (simp add: err_u32_def pm_consts)
  note nc = no_client_calls(3,4) [OF p this]
  obtain w3 where 3: "ecm_ipa_disconnect e3 (set_ctx d2 (set_ctx d1 w)) = Ret (OK, w3)" "ecm_ipa w3 = ?s"
      "map_option d_pm_hdl (ecm_ctx w3) = Some NO_PM_HDL"
    using st assms(11,12) nc
    by (simp add: ecm_ipa_disconnect_def ecm_ipa_deregister_pm_client_def d1_def d2_def set_ctx_def off_def)
  show ?thesis using 1 2 3 assms(4) run by auto
qed

lemma ecm_orphaned_vote_witness:
  "\<exists>w w1 w2 w3. ecm_reachable w \<and> ecm_ipa_disconnect (demo_ecm_env\<lparr>en_kzalloc := False\<rparr>) w = Ret (Err ENOMEM, w1) \<and>
     ecm_ipa_connect demo_ecm_env 1 2 w1 = Ret (Err EEXIST, w2) \<and> ecm_ipa_disconnect demo_ecm_env w2 = Ret (OK, w3) \<and>
     clk_running (ecm_ipa w3)"
proof -
  obtain w2 where w2: "ecm_reachable w2" "ecm_link_up w2" "act_cnt (ecm_ipa w2) = act_cnt demo_boot"
    using demo_ecm_linked [OF demo_base_boot] by blast
  have inv: "pm_inv (ecm_ipa w2)" using ecm_reachable_power [OF w2(1)] by (simp add: ecm_power_def)
  have "act_cnt (ecm_ipa w2) \<noteq> 0" "en_tx_dp demo_ecm_env = OK"
    using w2(3) demo_boot_facts(2) by (simp_all add: demo_ecm_env_def)
  from link_up_xmit [OF w2(2) this(1) inv this(2)] obtain w d c where w: "ecm_do (CallXmit demo_ecm_env) w2 = Ret (Tx TX_OK, w)"
      "ecm_ctx w = Some d" "d_state d = ECM_CONNECTED_AND_UP" "get_client (d_pm_hdl d) (ecm_ipa w) = Some c"
      "STATE_ACTIVE (cl_state c)" by blast
  have r: "ecm_reachable w" by (rule ecm_next [OF w2(1) step_call [OF w(1)]]) simp
  have e: "\<not> en_kzalloc (demo_ecm_env\<lparr>en_kzalloc := False\<rparr>)" "en_handle_valid demo_ecm_env 1" "en_handle_valid demo_ecm_env 2"
    "0 \<le> en_client_of demo_ecm_env 1" "0 \<le> en_client_of demo_ecm_env 2" "en_kzalloc demo_ecm_env" "en_send_msg demo_ecm_env = OK"
    by (simp_all add: demo_ecm_env_def)
  from ecm_orphaned_vote [OF r w(2) disjI2 [OF w(3)] w(4,5) e] r show ?thesis by blast
qed

end
