(* ===== verification/Ipa_Ecm_Headers.thy ===== *)
theory Ipa_Ecm_Headers
  imports Ipa_Ecm_Power
begin

text \<open>
  The headers of the ECM driver between its start and its end: what the start leaves in the header
  tables under its two names, and that the end takes exactly that away.
\<close>

section \<open>Headers that nobody else uses\<close>

text \<open>A second header that came alone leaves the first one alone.\<close>

lemma alone_apart:
  assumes inv: "hdr_inv s'" and new: "hdr_alone s s' b k" "db_hdr s' b = Some k" and a: "a \<noteq> b" "hdr_users {} s a h = {}"
  shows "hdr_users {} s' a h = {}"
proof -
  note i = inv [unfolded hdr_inv_def]
  have False if c: "db_ctx s' c = Some x" "c_hdr x = Some a" "h_ctx h \<noteq> Some c" for c x
  proof (cases "h_ctx k = Some c")
    case True
    then have "h_ddr k" using hdr_inv_inD(6) [OF i new(2)] by (auto simp: hdr_shape_def split: if_splits)
    then have "c_hdr x = Some b" using hdr_inv_inD(7) [OF i new(2)] True c(1) by (auto simp: hdr_counts_def)
    then show False using c(2) a(1) by simp
  next
    case False
    then have "db_ctx s c = Some x" using new(1) c(1) by (auto simp: hdr_alone_def split: option.splits)
    then show False using a(2) c(2,3) by (auto simp: hdr_users_def)
  qed
  then show ?thesis by (auto simp: hdr_users_def)
qed

lemma users_mono:
  "(\<And>c x. db_ctx s' c = Some x \<Longrightarrow> \<exists>y. db_ctx s c = Some y \<and> c_hdr y = c_hdr x) \<Longrightarrow>
   hdr_users {} s a h = {} \<Longrightarrow> hdr_users {} s' a h = {}"
  unfolding hdr_users_def by fastforce

lemma commit_users:
  assumes "commit_frame s s'" "hdr_users {} s a h = {}"
  shows "hdr_users {} s' a h = {}"
proof (rule users_mono [OF _ assms(2)])
  fix c x assume x: "db_ctx s' c = Some x"
  then have "c \<in> dom (db_ctx s)" using assms(1) by (metis commit_frame_def domI)
  then obtain y where y: "db_ctx s c = Some y" by blast
  then obtain lp where "db_ctx s' c = Some (y\<lparr>c_l2tp := lp\<rparr>)" using assms(1) unfolding commit_frame_def by blast
  then show "\<exists>y. db_ctx s c = Some y \<and> c_hdr y = c_hdr x" using x y by auto
qed

lemma dropped_users:
  assumes "hdr_dropped s b k False s'" "hdr_users {} s a h = {}"
  shows "hdr_users {} s' a h = {}"
  by (rule users_mono [OF _ assms(2)])
     (use assms(1) in \<open>auto simp: hdr_dropped_def split: if_splits option.splits\<close>)

section \<open>Two headers under two names\<close>

text \<open>What the driver owns in the tables \<open>t\<close> that it found as \<open>s\<close>.\<close>

definition holds_pair :: "hdr_env \<Rightarrow> hdr_add \<Rightarrow> hdr_add \<Rightarrow> nat \<Rightarrow> nat \<Rightarrow> hdr_db \<Rightarrow> hdr_db \<Rightarrow> bool" where
  "holds_pair e v4 v6 i4 i6 s t \<longleftrightarrow> hdr_inv t \<and>
     (\<exists>a b h k. db_hdr s a = None \<and> db_hdr s b = None \<and> a \<noteq> b \<and> db_hdr t = (db_hdr s)(a \<mapsto> h, b \<mapsto> k) \<and>
        hdr_holds e v4 False h \<and> hdr_holds e v6 False k \<and> h_id h = i4 \<and> h_id k = i6 \<and>
        hdr_users {} t a h = {} \<and> hdr_users {} t b k = {} \<and> hdr_list t = b # a # hdr_list s)"

lemma commit_pair:
  assumes "holds_pair e v4 v6 i4 i6 s t" "commit_hdr_v3_0 e' t = Some (r, t')"
  shows "holds_pair e v4 v6 i4 i6 s t'"
proof -
  have "hdr_inv t" using assms(1) by (simp add: holds_pair_def)
  then have "hdr_inv t' \<and> commit_frame t t'" by (rule commit_ok [of t e']) (use assms(2) in auto)
  then show ?thesis using assms(1) commit_users [of t t'] unfolding holds_pair_def commit_frame_def by metis
qed

lemma add_pair:
  assumes inv: "hdr_inv s" and len: "a_len v4 \<le> length (a_hdr v4)" "a_len v6 \<le> length (a_hdr v6)"
    and r: "ipa3_add_hdr e (Some [v4, v6]) True s = Some (r, rs, t)" "fst (rs ! 0) = 0" "fst (rs ! 1) = 0"
  shows "\<exists>i4 i6. rs = [(0, Some i4), (0, Some i6)] \<and> holds_pair e v4 v6 i4 i6 s t"
proof -
  obtain r1 hd1 s1 where 1: "add_hdr e v4 False s = Some (r1, hd1, s1)"
    using r(1) by (auto simp: ipa3_add_hdr_def ipa3_add_hdr_usr_def split: bind_splits)
  obtain r2 hd2 s2 where 2: "add_hdr e v6 False s1 = Some (r2, hd2, s2)"
    using r(1) 1 by (auto simp: ipa3_add_hdr_def ipa3_add_hdr_usr_def split: bind_splits)
  have rs: "rs = [(if r1 \<noteq> OK then -1 else 0, hd1), (if r2 \<noteq> OK then -1 else 0, hd2)]"
    and c: "\<exists>r3. commit_hdr_v3_0 e s2 = Some (r3, t)"
    using r(1) 1 2 by (auto simp: ipa3_add_hdr_def ipa3_add_hdr_usr_def finish_batch_def split: bind_splits if_splits)
  have ok: "r1 = OK" "r2 = OK" using rs r(2,3) by (auto split: if_splits)
  obtain a h i where a: "hd1 = Some i" "hdr_inv s1" "db_hdr s a = None" "db_hdr s1 = (db_hdr s)(a \<mapsto> h)" "hdr_holds e v4 False h"
      "h_id h = i" "hdr_list s1 = a # hdr_list s" "hdr_alone s s1 a h"
    by (rule add_hdr_ok [OF inv len(1), of e False]) (use 1 ok in auto)
  obtain b k j where b: "hd2 = Some j" "hdr_inv s2" "db_hdr s1 b = None" "db_hdr s2 = (db_hdr s1)(b \<mapsto> k)" "hdr_holds e v6 False k"
      "h_id k = j" "hdr_list s2 = b # hdr_list s1" "hdr_alone s1 s2 b k"
    by (rule add_hdr_ok [OF a(2) len(2), of e False]) (use 2 ok in auto)
  have ab: "a \<noteq> b" "db_hdr s b = None" using a(4) b(3) by (auto split: if_splits)
  have "hdr_users {} s2 a h = {}"
    by (rule alone_apart [OF b(2,8)]) (use a b ab in \<open>auto simp: hdr_alone_def\<close>)
  then have "holds_pair e v4 v6 i j s s2"
    unfolding holds_pair_def using a b ab
    by (intro conjI exI [of _ a] exI [of _ b] exI [of _ h] exI [of _ k]) (simp_all add: hdr_alone_def)
  then show ?thesis using c commit_pair rs ok a(1) b(1) by auto
qed

lemma del_pair:
  assumes "holds_pair e v4 v6 i4 i6 s t"
  shows "\<exists>r rs t'. ipa3_del_hdr e' (Some [i4, i6]) True t = Some (r, rs, t') \<and> db_hdr t' = db_hdr s \<and> hdr_inv t'"
proof -
  obtain a b h k where p: "hdr_inv t" "db_hdr s a = None" "db_hdr s b = None" "a \<noteq> b" "db_hdr t = (db_hdr s)(a \<mapsto> h, b \<mapsto> k)"
      "hdr_holds e v4 False h" "hdr_holds e v6 False k" "h_id h = i4" "h_id k = i6"
      "hdr_users {} t a h = {}" "hdr_users {} t b k = {}"
    using assms by (auto simp: holds_pair_def)
  have one: "h_ref h = 1" "h_ref k = 1" using p(6,7) by (simp_all add: hdr_holds_def Let_def)
  have "db_hdr t a = Some h" "db_hdr t b = Some k" using p(4,5) by simp_all
  from del_sole [OF p(1) this(1) p(10) one(1)] this(2) obtain t1
    where 1: "del_hdr i4 False t = Some (OK, t1)" "hdr_inv t1" "hdr_dropped t a h False t1" "db_hdr t b = Some k"
    using p(8) by auto
  have k1: "db_hdr t1 b = Some k" using 1(3,4) one p(4) by (simp add: hdr_dropped_def)
  from del_sole [OF 1(2) k1 dropped_users [OF 1(3) p(11)] one(2)] obtain t2
    where 2: "del_hdr i6 False t1 = Some (OK, t2)" "hdr_inv t2" "hdr_dropped t1 b k False t2"
    using p(9) by auto
  have hdr: "db_hdr t2 = db_hdr s" using 1(3) 2(3) one p(2-5) by (auto simp: hdr_dropped_def)
  obtain r3 t3 where c: "commit_hdr_v3_0 e' t2 = Some (r3, t3)" "commit_frame t2 t3" "hdr_inv t3"
    by (rule commit_ok [OF 2(2), of e']) blast
  have "ipa3_del_hdr e' (Some [i4, i6]) True t = Some (if r3 \<noteq> OK then Err EPERM else OK, [0, 0], t3)"
    using 1(1) 2(1) c(1) by (simp add: ipa3_del_hdr_def ipa3_del_hdr_by_user_def finish_batch_def)
  then show ?thesis using c(2,3) hdr by (auto simp: commit_frame_def)
qed

section \<open>Start and end of the driver\<close>

text \<open>The bytes in front of a packet of the given EtherType.\<close>

definition ecm_frame :: "bool \<Rightarrow> byte list \<Rightarrow> byte list \<Rightarrow> nat \<Rightarrow> byte list" where
  "ecm_frame vlan host dev eth_type =
     take 6 host @ take 6 dev @ (if vlan then be16 ETH_P_8021Q @ [0, 0] else []) @ be16 eth_type"

lemma be16_length [simp]: "length (be16 n) = 2"
  by (simp add: be16_def)

lemma prepare_header:
  fixes e :: ecm_env and host dev :: "byte list"
  assumes "6 \<le> length host" "6 \<le> length dev"
  defines "v vlan ty name \<equiv> ecm_ipa_prepare_header_insertion e ty name host dev vlan"
  shows "a_len (v vlan ty name) \<le> length (a_hdr (v vlan ty name))"
    "take (a_len (v vlan ty name)) (a_hdr (v vlan ty name)) = ecm_frame vlan host dev ty"
    "a_len (v vlan ty name) = length (ecm_frame vlan host dev ty)"
    "a_name (v vlan ty name) = strlcpy (e_name_max (en_hdr e)) name"
  using assms(1,2)
  by (auto simp: v_def ecm_ipa_prepare_header_insertion_def Let_def pad_hdr_def ecm_frame_def)

text \<open>A name of the driver leads to the bytes it was added with.\<close>

lemma holds_copy:
  assumes "hdr_holds e v False h" "a_len v \<le> length (a_hdr v)"
  shows "take (h_len h) (h_hdr h) = take (a_len v) (a_hdr v)" "h_len h = a_len v" "h_name h = strlcpy (e_name_max e) (a_name v)"
  using assms by (simp_all add: hdr_holds_def Let_def new_hdr_def)

definition finds_frame :: "hdr_env \<Rightarrow> string \<Rightarrow> byte list \<Rightarrow> hdr_db \<Rightarrow> bool" where
  "finds_frame e name bs t \<longleftrightarrow> (\<exists>c. ipa3_copy_hdr e (Some name) t = Some (OK, Some c) \<and> cp_hdr c = bs \<and> cp_len c = length bs)"

lemma pair_found:
  assumes p: "holds_pair (en_hdr e) v4 v6 i4 i6 s t" and nm: "12 < e_name_max (en_hdr e)" and len: "6 \<le> length host" "6 \<le> length dev"
    and v: "v4 = ecm_ipa_prepare_header_insertion e ETH_P_IP ECM_IPA_IPV4_HDR_NAME host dev vlan"
      "v6 = ecm_ipa_prepare_header_insertion e ETH_P_IPV6 ECM_IPA_IPV6_HDR_NAME host dev vlan"
  shows "finds_frame (en_hdr e) ECM_IPA_IPV4_HDR_NAME (ecm_frame vlan host dev ETH_P_IP) t"
    "finds_frame (en_hdr e) ECM_IPA_IPV6_HDR_NAME (ecm_frame vlan host dev ETH_P_IPV6) t"
proof -
  obtain a b h k where q: "a \<noteq> b" "db_hdr t a = Some h" "db_hdr t b = Some k"
      "hdr_holds (en_hdr e) v4 False h" "hdr_holds (en_hdr e) v6 False k" "hdr_list t = b # a # hdr_list s"
    using p by (auto simp: holds_pair_def)
  note pr = prepare_header [OF len, of e]
  note h = holds_copy [OF q(4)] and k = holds_copy [OF q(5)]
  have names: "strlcpy (e_name_max (en_hdr e)) ECM_IPA_IPV4_HDR_NAME = ECM_IPA_IPV4_HDR_NAME"
    "strlcpy (e_name_max (en_hdr e)) ECM_IPA_IPV6_HDR_NAME = ECM_IPA_IPV6_HDR_NAME"
    using nm by (simp_all add: strlcpy_short ECM_IPA_IPV4_HDR_NAME_def ECM_IPA_IPV6_HDR_NAME_def)
  have ne: "ECM_IPA_IPV4_HDR_NAME \<noteq> ECM_IPA_IPV6_HDR_NAME"
    by (simp add: ECM_IPA_IPV4_HDR_NAME_def ECM_IPA_IPV6_HDR_NAME_def)
  have find: "ipa_find_hdr (en_hdr e) (take (e_name_max (en_hdr e) - 1) ECM_IPA_IPV4_HDR_NAME) t = Some (Some h)"
    "ipa_find_hdr (en_hdr e) (take (e_name_max (en_hdr e) - 1) ECM_IPA_IPV6_HDR_NAME) t = Some (Some k)"
    using q h(3) k(3) names ne pr(1,4) nm
    by (auto simp: ipa_find_hdr_def strlcpy_def [symmetric] v ECM_IPA_IPV4_HDR_NAME_def ECM_IPA_IPV6_HDR_NAME_def)
  show "finds_frame (en_hdr e) ECM_IPA_IPV4_HDR_NAME (ecm_frame vlan host dev ETH_P_IP) t"
    using find(1) h(1,2) pr(1-3) by (simp add: finds_frame_def ipa3_copy_hdr_def v)
  show "finds_frame (en_hdr e) ECM_IPA_IPV6_HDR_NAME (ecm_frame vlan host dev ETH_P_IPV6) t"
    using find(2) k(1,2) pr(1-3) by (simp add: finds_frame_def ipa3_copy_hdr_def v)
qed

lemma rules_cfg_OK:
  assumes "ecm_ipa_rules_cfg e d host dev w = Some (OK, d1, w1)" "hdr_inv (ecm_hdr w)" "6 \<le> length host" "6 \<le> length dev"
  defines "v4 \<equiv> ecm_ipa_prepare_header_insertion e ETH_P_IP ECM_IPA_IPV4_HDR_NAME host dev (d_vlan d)"
    and "v6 \<equiv> ecm_ipa_prepare_header_insertion e ETH_P_IPV6 ECM_IPA_IPV6_HDR_NAME host dev (d_vlan d)"
  shows "\<exists>i4 i6. holds_pair (en_hdr e) v4 v6 i4 i6 (ecm_hdr w) (ecm_hdr w1) \<and>
    d1 = d\<lparr>d_v4_hdl := i4, d_v6_hdl := i6\<rparr> \<and> w1 = w\<lparr>ecm_hdr := ecm_hdr w1\<rparr>"
proof -
  obtain rs hs where r: "ipa3_add_hdr (en_hdr e) (Some [v4, v6]) True (ecm_hdr w) = Some (OK, rs, hs)"
      "fst (rs ! 0) = 0" "fst (rs ! 1) = 0" "w1 = w\<lparr>ecm_hdr := hs\<rparr>"
      "d1 = d\<lparr>d_v4_hdl := hdl_of (snd (rs ! 0)), d_v6_hdl := hdl_of (snd (rs ! 1))\<rparr>"
    using assms(1) by (auto simp: ecm_ipa_rules_cfg_def v4_def v6_def Let_def split: if_splits bind_splits)
  have "a_len v4 \<le> length (a_hdr v4)" "a_len v6 \<le> length (a_hdr v6)"
    using prepare_header(1) [OF assms(3,4)] by (simp_all add: v4_def v6_def)
  from add_pair [OF assms(2) this r(1-3)] obtain i4 i6
    where "rs = [(0, Some i4), (0, Some i6)]" "holds_pair (en_hdr e) v4 v6 i4 i6 (ecm_hdr w) hs" by blast
  then show ?thesis using r(4,5) by (intro exI [of _ i4] exI [of _ i6]) (simp add: hdl_of_def)
qed

lemma init_OK:
  assumes "ecm_ipa_init e (Some pr) w = Some (OK, w1)" "ecm_ctx w = None" "ecm_ctx w1 = Some d"
  shows "\<exists>d0 d1 w0. ecm_ipa_rules_cfg e d0 (ep_host pr) (ep_device pr) w = Some (OK, d1, w0) \<and> d_vlan d0 = d_vlan d \<and>
    d_vlan d1 = d_vlan d \<and> w1 = w0\<lparr>ecm_ctx := Some d\<rparr> \<and> d_v4_hdl d = d_v4_hdl d1 \<and> d_v6_hdl d = d_v6_hdl d1 \<and>
    d_state d = ECM_INITIALIZED"
proof -
  obtain r0 d0 where a: "ecm_ipa_set_device_ethernet_addr (new_ecm_dev pr) (ep_device pr) = (r0, d0)" by fastforce
  obtain r1 v where v: "en_vlan_mode e = (r1, v)" by fastforce
  have ok: "r0 = OK" "r1 = OK" "en_alloc_netdev e"
    using assms a v by (auto simp: ecm_ipa_init_def split: if_splits rc.splits)
  obtain r2 d1 w0 where cfg: "ecm_ipa_rules_cfg e (d0\<lparr>d_vlan := v\<rparr>) (ep_host pr) (ep_device pr) w = Some (r2, d1, w0)"
    using assms(1) a v ok by (auto simp: ecm_ipa_init_def split: bind_splits)
  have run: "(if r2 \<noteq> OK then Some (r2, w0) else case en_register_netdev e of
        Err err \<Rightarrow> do { w2 \<leftarrow> ecm_ipa_rules_destroy e d1 w0; Some (Err err, w2) }
      | OK \<Rightarrow> Some (OK, w0\<lparr>ecm_ctx := Some (d1\<lparr>d_name := en_ifname e, d_carrier := False,
           d_queue_stopped := True, d_state := ECM_INITIALIZED\<rparr>)\<rparr>)) = Some (OK, w1)"
    using assms(1) a v ok cfg by (simp add: ecm_ipa_init_def)
  then have "r2 = OK" by (auto split: if_splits)
  moreover have "en_register_netdev e = OK"
    using run \<open>r2 = OK\<close> by (cases "en_register_netdev e") (auto split: bind_splits)
  ultimately have fin: "r2 = OK" "w1 = w0\<lparr>ecm_ctx := Some (d1\<lparr>d_name := en_ifname e, d_carrier := False,
               d_queue_stopped := True, d_state := ECM_INITIALIZED\<rparr>)\<rparr>"
    using run by simp_all
  have "d_vlan d1 = v" using rules_ipa(1) [OF cfg] by auto
  then show ?thesis using cfg fin assms(3)
    by (intro exI [of _ "d0\<lparr>d_vlan := v\<rparr>"] exI [of _ d1] exI [of _ w0]) auto
qed



end
