(* ===== verification/Ipa_Rt.thy ===== *)
theory Ipa_Rt
  imports Ipa_Hdr_Ops
begin

text \<open>
  The routing tables of the driver, \<open>ipa_v3/ipa_rt.c\<close>: tables with names and indices, the rules
  in them, the references that rules hold on headers and processing contexts, and the handles of
  tables and rules, which come from the same database as those of headers. As in the header
  component, following a NULL or dangling pointer is the result \<open>None\<close> of an operation.
\<close>

section \<open>Data\<close>

definition IPA_RT_RULE_COOKIE :: u32 where "IPA_RT_RULE_COOKIE = 0x57831604"
definition IPA_RT_TBL_COOKIE :: u32 where "IPA_RT_TBL_COOKIE = 0x57831605"
definition IPA_RULE_CNT_MAX :: u32 where "IPA_RULE_CNT_MAX = 512"
definition IPA_RT_INDEX_BITMAP_SIZE :: nat where "IPA_RT_INDEX_BITMAP_SIZE = 32"
definition RULE_MAX_PRIORITY :: int where "RULE_MAX_PRIORITY = 0"
definition RULE_MIN_PRIORITY :: int where "RULE_MIN_PRIORITY = 1023"
definition LOW_RULE_ID :: nat where "LOW_RULE_ID = 1"
definition RULE_ID_BIT_LEN :: nat where "RULE_ID_BIT_LEN = 10"

datatype ip_type = IPA_IP_v4 | IPA_IP_v6 | IPA_IP_MAX

datatype rule_type = IPA_RULE_HASHABLE | IPA_RULE_NON_HASHABLE

text \<open>
  The members of \<open>ipa_rt_rule_i\<close> that the driver reads; \<open>ru_rest\<close> stands for the others, which
  go to the hardware as they are.
\<close>

record rt_rule =
  ru_dst :: nat
  ru_hdr_hdl :: nat
  ru_ctx_hdl :: nat
  ru_pure_ack :: bool
  ru_rest :: nat
  ru_max_prio :: bool
  ru_hashable :: bool
  ru_coalesce :: bool
  ru_enable_stats :: bool
  ru_cnt_idx :: nat

record rt_entry =
  re_cookie :: u32
  re_rule :: rt_rule
  re_tbl :: nat
  re_hdr :: "nat option"
  re_ctx :: "nat option"
  re_hw_len :: nat
  re_id :: nat
  re_prio :: int
  re_rule_id :: nat
  re_rule_id_valid :: bool
  re_cnt_idx :: nat
  re_ipacm :: bool

text \<open>\<open>rt_rule_ids\<close> says whether the pointer to the rule identifiers of the set is still there.\<close>

record rt_tbl =
  rt_cookie :: u32
  rt_rules :: "nat list"
  rt_name :: string
  rt_idx :: nat
  rt_rule_cnt :: u32
  rt_ref_cnt :: u32
  rt_set :: ip_type
  rt_in_sys :: "rule_type \<Rightarrow> bool"
  rt_sz :: "rule_type \<Rightarrow> nat"
  rt_curr :: "rule_type \<Rightarrow> nat option"
  rt_prev :: "rule_type \<Rightarrow> nat option"
  rt_id :: nat
  rt_rule_ids :: bool

text \<open>The header of a family in the hardware: the buffer of each index, \<open>None\<close> the empty table.\<close>

type_synonym rt_img = "rule_type \<Rightarrow> nat \<Rightarrow> nat option"

text \<open>
  The bits of \<open>rt_idx_bitmap\<close> beyond the 32 of \<open>IPA_RT_INDEX_BITMAP_SIZE\<close> are never used, so a 32-bit word
  stands for the \<open>unsigned long\<close>.
\<close>

record rt_db =
  hdb :: hdr_db
  r_rule :: "nat \<Rightarrow> rt_entry option"
  r_tbl :: "nat \<Rightarrow> rt_tbl option"
  r_next :: nat
  tbl_list :: "ip_type \<Rightarrow> nat list"
  tbl_cnt :: "ip_type \<Rightarrow> u32"
  rule_ids :: "ip_type \<Rightarrow> nat list"
  reap_list :: "ip_type \<Rightarrow> nat list"
  rt_idx_bitmap :: "ip_type \<Rightarrow> u32"
  rt_mem :: "nat \<Rightarrow> byte list option"
  rt_hw :: "ip_type \<Rightarrow> rt_img"

text \<open>What the abstraction layer gets to write a rule.\<close>

datatype rt_hdr_type = RULE_HDR_NONE | RULE_HDR_RAW | RULE_HDR_PROC_CTX

record gen_params =
  g_ip :: ip_type
  g_pipe :: int
  g_hdr_type :: rt_hdr_type
  g_hdr_lcl :: bool
  g_hdr_ofst :: nat
  g_prio :: int
  g_id :: nat
  g_rule :: rt_rule
  g_cnt_idx :: nat

text \<open>
  The configuration, constants of the interface header and answers of the kernel and of the
  abstraction layer.
\<close>

record rt_env =
  x_hdr :: hdr_env
  x_hw_v4_5 :: bool
  x_cnt_max :: nat
  x_used_hw :: "nat \<Rightarrow> bool"
  x_not_hashable :: bool
  x_lcl :: "ip_type \<Rightarrow> rule_type \<Rightarrow> bool"
  x_modem_lo :: "ip_type \<Rightarrow> nat"
  x_modem_hi :: "ip_type \<Rightarrow> nat"
  x_apps_lo :: "ip_type \<Rightarrow> nat"
  x_apps_hi :: "ip_type \<Rightarrow> nat"
  x_dflt_name :: string
  x_wan_cons :: nat
  x_coal_cons :: nat
  x_client_max :: nat
  x_ctx_start :: nat
  x_hdr_width :: nat
  x_prefetch :: nat
  x_alloc_tbl :: "nat \<Rightarrow> bool"
  x_alloc_rule :: "nat \<Rightarrow> bool"
  x_alloc_rid :: "nat \<Rightarrow> bool"
  x_alloc_mem :: "nat \<Rightarrow> bool"
  x_id :: "hdr_ptr \<Rightarrow> bool"
  x_v1 :: "rt_rule \<Rightarrow> rt_rule"
  x_gen :: "gen_params \<Rightarrow> byte list option"
  x_imgs :: "ip_type \<Rightarrow> bool"
  x_hdr_buf :: "rule_type \<Rightarrow> bool"
  x_rt_cmd :: "nat \<Rightarrow> bool"
  x_rt_send :: bool

definition IPA_CLIENT_IS_CONS :: "rt_env \<Rightarrow> nat \<Rightarrow> bool" where
  "IPA_CLIENT_IS_CONS e x \<longleftrightarrow> x < x_client_max e \<and> x mod 2 = 1"

abbreviation PRule :: "nat \<Rightarrow> hdr_ptr" where "PRule \<equiv> POther IPA_RT_RULE_COOKIE"
abbreviation PTbl :: "nat \<Rightarrow> hdr_ptr" where "PTbl \<equiv> POther IPA_RT_TBL_COOKIE"

section \<open>Small steps\<close>

definition upd_hdb :: "(hdr_db \<Rightarrow> hdr_db) \<Rightarrow> rt_db \<Rightarrow> rt_db" where
  "upd_hdb f s = s\<lparr>hdb := f (hdb s)\<rparr>"

definition upd_tbl :: "nat \<Rightarrow> (rt_tbl \<Rightarrow> rt_tbl) \<Rightarrow> rt_db \<Rightarrow> rt_db option" where
  "upd_tbl t f s = do { tb \<leftarrow> r_tbl s t; Some (s\<lparr>r_tbl := (r_tbl s)(t \<mapsto> f tb)\<rparr>) }"

definition upd_rule :: "nat \<Rightarrow> (rt_entry \<Rightarrow> rt_entry) \<Rightarrow> rt_db \<Rightarrow> rt_db option" where
  "upd_rule a f s = do { x \<leftarrow> r_rule s a; Some (s\<lparr>r_rule := (r_rule s)(a \<mapsto> f x)\<rparr>) }"

definition rt_id_remove :: "nat \<Rightarrow> rt_db \<Rightarrow> rt_db" where
  "rt_id_remove i = upd_hdb (\<lambda>d. d\<lparr>db_idr := ipa3_id_remove i (db_idr d)\<rparr>)"

definition rt_freed :: "hdr_ptr \<Rightarrow> rt_db \<Rightarrow> bool" where
  "rt_freed p s = ipa3_check_idr_if_freed p (db_idr (hdb s))"

text \<open>The rule behind a handle: the inner \<open>None\<close> is a handle the operations refuse.\<close>

definition rt_cookie_of :: "hdr_ptr \<Rightarrow> rt_db \<Rightarrow> u32 option" where
  "rt_cookie_of p s =
     (case p of
        POther k a \<Rightarrow>
          if k = IPA_RT_RULE_COOKIE then map_option re_cookie (r_rule s a)
          else if k = IPA_RT_TBL_COOKIE then map_option rt_cookie (r_tbl s a)
          else Some k
      | _ \<Rightarrow> cookie_of p (hdb s))"

definition rule_by_handle :: "nat \<Rightarrow> rt_db \<Rightarrow> nat option option" where
  "rule_by_handle hdl s =
     (case ipa3_id_find hdl (db_idr (hdb s)) of
        None \<Rightarrow> Some None
      | Some p \<Rightarrow> do {
          k \<leftarrow> rt_cookie_of p s;
          if k \<noteq> IPA_RT_RULE_COOKIE then Some None
          else (case p of POther k' a \<Rightarrow> Some (Some a) | _ \<Rightarrow> None) })"

definition tbl_by_handle :: "nat \<Rightarrow> rt_db \<Rightarrow> nat option option" where
  "tbl_by_handle hdl s =
     (case ipa3_id_find hdl (db_idr (hdb s)) of
        None \<Rightarrow> Some None
      | Some p \<Rightarrow> do {
          k \<leftarrow> rt_cookie_of p s;
          if k \<noteq> IPA_RT_TBL_COOKIE then Some None
          else (case p of POther k' a \<Rightarrow> Some (Some a) | _ \<Rightarrow> None) })"

section \<open>Tables\<close>

fun find_tbl :: "string \<Rightarrow> nat list \<Rightarrow> rt_db \<Rightarrow> nat option option" where
  "find_tbl name [] s = Some None"
| "find_tbl name (t # ts) s = do {
     tb \<leftarrow> r_tbl s t;
     if \<not> rt_freed (PTbl t) s \<and> name = rt_name tb then Some (Some t) else find_tbl name ts s }"

definition ipa3_find_rt_tbl :: "rt_env \<Rightarrow> ip_type \<Rightarrow> string \<Rightarrow> rt_db \<Rightarrow> nat option option" where
  "ipa3_find_rt_tbl e ip name s =
     (if length name \<ge> e_name_max (x_hdr e) then Some None else find_tbl name (tbl_list s ip) s)"

text \<open>The name array of a request is cut at its last byte.\<close>

definition cut_name :: "rt_env \<Rightarrow> string \<Rightarrow> string" where
  "cut_name e name = take (e_name_max (x_hdr e) - 1) name"

definition ipa3_query_rt_index :: "rt_env \<Rightarrow> ip_type \<Rightarrow> string \<Rightarrow> rt_db \<Rightarrow> (errno + nat) option" where
  "ipa3_query_rt_index e ip name s =
     (if ip = IPA_IP_MAX then Some (Inl EINVAL)
      else do {
        r \<leftarrow> ipa3_find_rt_tbl e ip (cut_name e name) s;
        case r of None \<Rightarrow> Some (Inl EFAULT)
        | Some t \<Rightarrow> do { tb \<leftarrow> r_tbl s t; Some (Inr (rt_idx tb)) } })"

definition first_free_idx :: "u32 \<Rightarrow> nat option" where
  "first_free_idx m = List.find (\<lambda>i. \<not> bit m i) [0..<IPA_RT_INDEX_BITMAP_SIZE]"

definition set_idx :: "ip_type \<Rightarrow> nat \<Rightarrow> rt_db \<Rightarrow> rt_db" where
  "set_idx ip i s = s\<lparr>rt_idx_bitmap := (rt_idx_bitmap s)(ip := rt_idx_bitmap s ip OR bit_of i)\<rparr>"

definition clear_idx :: "ip_type \<Rightarrow> nat \<Rightarrow> rt_db \<Rightarrow> rt_db" where
  "clear_idx ip i s = s\<lparr>rt_idx_bitmap := (rt_idx_bitmap s)(ip := rt_idx_bitmap s ip AND NOT (bit_of i))\<rparr>"

definition new_tbl :: "rt_env \<Rightarrow> ip_type \<Rightarrow> string \<Rightarrow> nat \<Rightarrow> rt_tbl" where
  "new_tbl e ip name i =
     \<lparr>rt_cookie = IPA_RT_TBL_COOKIE, rt_rules = [], rt_name = strlcpy (e_name_max (x_hdr e)) name, rt_idx = i,
      rt_rule_cnt = 0, rt_ref_cnt = 0, rt_set = ip, rt_in_sys = (\<lambda>r. \<not> x_lcl e ip r), rt_sz = (\<lambda>r. 0),
      rt_curr = (\<lambda>r. None), rt_prev = (\<lambda>r. None), rt_id = 0, rt_rule_ids = True\<rparr>"

text \<open>
  The table of a name, made if there is none. On the way \<open>ipa_insert_failed\<close> the identifiers of the
  whole set are destroyed and the bit of the index stays.
\<close>

definition add_rt_tbl :: "rt_env \<Rightarrow> ip_type \<Rightarrow> string \<Rightarrow> rt_db \<Rightarrow> (nat option \<times> rt_db) option" where
  "add_rt_tbl e ip name s =
     (if ip = IPA_IP_MAX then Some (None, s)
      else do {
        r \<leftarrow> ipa3_find_rt_tbl e ip name s;
        case r of Some t \<Rightarrow> Some (Some t, s)
        | None \<Rightarrow>
            if \<not> x_alloc_tbl e (r_next s) then Some (None, s)
            else
              let t = r_next s; s1 = s\<lparr>r_next := r_next s + 1\<rparr>
              in case first_free_idx (rt_idx_bitmap s1 ip) of
                   None \<Rightarrow> Some (None, s1)
                 | Some i \<Rightarrow>
                     let s2 = set_idx ip i s1 in
                     if i > max (x_modem_hi e ip) (x_apps_hi e ip) then Some (None, s2)
                     else
                       let tb = new_tbl e ip name i;
                           s3 = s2\<lparr>r_tbl := (r_tbl s2)(t \<mapsto> tb), tbl_cnt := (tbl_cnt s2)(ip := tbl_cnt s2 ip + 1),
                                   tbl_list := (tbl_list s2)(ip := t # tbl_list s2 ip)\<rparr>
                       in case ipa3_id_alloc (x_id e (PTbl t)) (PTbl t) (db_idr (hdb s3)) of
                            (Inl err, d) \<Rightarrow>
                              Some (None, s3\<lparr>tbl_cnt := (tbl_cnt s3)(ip := tbl_cnt s3 ip - 1),
                                             tbl_list := (tbl_list s3)(ip := remove1 t (tbl_list s3 ip)),
                                             rule_ids := (rule_ids s3)(ip := []), r_tbl := (r_tbl s3)(t := None)\<rparr>)
                          | (Inr i', d) \<Rightarrow>
                              Some (Some t, s3\<lparr>hdb := (hdb s3)\<lparr>db_idr := d\<rparr>, r_tbl := (r_tbl s3)(t \<mapsto> tb\<lparr>rt_id := i'\<rparr>)\<rparr>) })"

text \<open>\<open>list_move\<close> and \<open>list_del\<close> take the table out of whatever list it is in.\<close>

definition unlink_tbl :: "nat \<Rightarrow> rt_db \<Rightarrow> rt_db" where
  "unlink_tbl t s = s\<lparr>tbl_list := (\<lambda>ip. remove1 t (tbl_list s ip)), reap_list := (\<lambda>ip. remove1 t (reap_list s ip))\<rparr>"

text \<open>What the deletion and the reset of a table have in common.\<close>

definition drop_tbl :: "ip_type \<Rightarrow> nat \<Rightarrow> rt_tbl \<Rightarrow> rt_db \<Rightarrow> rt_db" where
  "drop_tbl ip t tb s =
     (let s1 = clear_idx ip (rt_idx tb) (unlink_tbl t s);
          s2 = s1\<lparr>tbl_cnt := (tbl_cnt s1)(ip := tbl_cnt s1 ip - 1)\<rparr>
      in if rt_in_sys tb IPA_RULE_HASHABLE \<or> rt_in_sys tb IPA_RULE_NON_HASHABLE
         then s2\<lparr>reap_list := (reap_list s2)(ip := t # reap_list s2 ip),
                 r_tbl := (r_tbl s2)(t \<mapsto> tb\<lparr>rt_rule_ids := False\<rparr>)\<rparr>
         else s2\<lparr>r_tbl := (r_tbl s2)(t := None)\<rparr>)"

definition del_rt_tbl :: "nat \<Rightarrow> rt_db \<Rightarrow> (rc \<times> rt_db) option" where
  "del_rt_tbl t s = do {
     tb \<leftarrow> r_tbl s t;
     if rt_cookie tb \<noteq> IPA_RT_TBL_COOKIE then Some (Err EINVAL, s)
     else if ipa3_id_find (rt_id tb) (db_idr (hdb s)) = None then Some (Err EPERM, s)
     else if rt_set tb = IPA_IP_MAX then Some (Err EPERM, s)
     else Some (OK, rt_id_remove (rt_id tb) (drop_tbl (rt_set tb) t tb s)) }"

section \<open>Rules\<close>

definition rt_validate_rule_id :: "nat \<Rightarrow> rc" where
  "rt_validate_rule_id rid =
     (if rid = 0 then OK
      else if rid < 2 ^ (RULE_ID_BIT_LEN - 1) \<or> rid \<ge> 2 * 2 ^ (RULE_ID_BIT_LEN - 1) - 1 then Err EPERM
      else OK)"

text \<open>The header and the context a rule names; the inner \<open>None\<close> is a refusal.\<close>

definition rt_validate_hndls :: "rt_env \<Rightarrow> rt_rule \<Rightarrow> rt_db \<Rightarrow> (nat option \<times> nat option) option option" where
  "rt_validate_hndls e r s =
     (if ru_hdr_hdl r \<noteq> 0 \<and> ru_ctx_hdl r \<noteq> 0 then Some None
      else do {
        h \<leftarrow> (if ru_hdr_hdl r \<noteq> 0 then hdr_by_handle (ru_hdr_hdl r) (hdb s) else Some None);
        c \<leftarrow> (if ru_hdr_hdl r = 0 \<and> ru_ctx_hdl r \<noteq> 0 then ctx_by_handle (ru_ctx_hdl r) (hdb s) else Some None);
        if ru_hdr_hdl r \<noteq> 0 \<and> h = None \<or> ru_hdr_hdl r = 0 \<and> ru_ctx_hdl r \<noteq> 0 \<and> c = None then Some None
        else if \<not> x_hw_v4_5 e \<and> ru_coalesce r then Some None
        else if x_hw_v4_5 e then
          if ru_enable_stats r \<and> ru_cnt_idx r \<noteq> 0 \<and>
             (\<not> ru_cnt_idx r \<le> x_cnt_max e \<or> \<not> x_used_hw e (ru_cnt_idx r - 1))
          then Some None else Some (Some (h, c))
        else if ru_enable_stats r then Some None else Some (Some (h, c)) })"

text \<open>\<open>ipa3_alloc_rule_id\<close>: the smallest free identifier below the high bit.\<close>

definition ipa3_alloc_rule_id :: "bool \<Rightarrow> nat list \<Rightarrow> nat option" where
  "ipa3_alloc_rule_id ok ids =
     (if ok then List.find (\<lambda>i. i \<notin> set ids) [LOW_RULE_ID..<2 ^ (RULE_ID_BIT_LEN - 1)] else None)"

definition new_rule ::
  "rt_env \<Rightarrow> rt_rule \<Rightarrow> nat \<Rightarrow> nat option \<Rightarrow> nat option \<Rightarrow> nat \<Rightarrow> bool \<Rightarrow> bool \<Rightarrow> rt_entry" where
  "new_rule e r t h c rid valid user =
     \<lparr>re_cookie = IPA_RT_RULE_COOKIE,
      re_rule = (if ru_coalesce r \<and> ru_dst r = x_wan_cons e \<and> e_coal_ep (x_hdr e) \<noteq> -1
                 then r\<lparr>ru_dst := x_coal_cons e\<rparr> else r),
      re_tbl = t, re_hdr = h, re_ctx = c, re_hw_len = 0, re_id = 0, re_prio = 0, re_rule_id = rid,
      re_rule_id_valid = valid, re_cnt_idx = (if ru_enable_stats r then ru_cnt_idx r else 0), re_ipacm = user\<rparr>"

definition create_rt_entry ::
  "rt_env \<Rightarrow> rt_rule \<Rightarrow> nat \<Rightarrow> nat option \<Rightarrow> nat option \<Rightarrow> nat \<Rightarrow> bool \<Rightarrow> rt_db \<Rightarrow> (nat option \<times> rt_db) option" where
  "create_rt_entry e r t h c rid user s =
     (if \<not> x_alloc_rule e (r_next s) then Some (None, s)
      else
        let a = r_next s; s1 = s\<lparr>r_next := r_next s + 1\<rparr>
        in if rid \<noteq> 0 then Some (Some a, s1\<lparr>r_rule := (r_rule s1)(a \<mapsto> new_rule e r t h c rid True user)\<rparr>)
           else do {
             tb \<leftarrow> r_tbl s1 t;
             if \<not> rt_rule_ids tb then None
             else case ipa3_alloc_rule_id (x_alloc_rid e a) (rule_ids s1 (rt_set tb)) of
                    None \<Rightarrow> Some (None, s1)
                  | Some i \<Rightarrow>
                      Some (Some a, s1\<lparr>rule_ids := (rule_ids s1)(rt_set tb := i # rule_ids s1 (rt_set tb)),
                                       r_rule := (r_rule s1)(a \<mapsto> new_rule e r t h c i False user)\<rparr>) })"

definition ctx_ref :: "(u32 \<Rightarrow> u32) \<Rightarrow> nat \<Rightarrow> hdr_db \<Rightarrow> hdr_db option" where
  "ctx_ref f c d = do { x \<leftarrow> db_ctx d c; Some (d\<lparr>db_ctx := (db_ctx d)(c \<mapsto> x\<lparr>c_ref := f (c_ref x)\<rparr>)\<rparr>) }"

text \<open>The references of a rule on what it points to.\<close>

definition take_refs :: "rt_entry \<Rightarrow> rt_db \<Rightarrow> rt_db option" where
  "take_refs x s = do {
     d \<leftarrow> (case re_hdr x of Some h \<Rightarrow> add_ref h (hdb s)
          | None \<Rightarrow> (case re_ctx x of Some c \<Rightarrow> ctx_ref (\<lambda>n. n + 1) c (hdb s) | None \<Rightarrow> Some (hdb s)));
     Some (s\<lparr>hdb := d\<rparr>) }"

definition drop_refs :: "rt_entry \<Rightarrow> rt_db \<Rightarrow> rt_db option" where
  "drop_refs x s = do {
     d \<leftarrow> (case re_hdr x of Some h \<Rightarrow> drop_ref h (hdb s)
          | None \<Rightarrow> (case re_ctx x of Some c \<Rightarrow> ctx_ref (\<lambda>n. n - 1) c (hdb s) | None \<Rightarrow> Some (hdb s)));
     Some (s\<lparr>hdb := d\<rparr>) }"

text \<open>\<open>idr_remove\<close> of a rule identifier, through the pointer of the table.\<close>

definition rid_remove :: "nat \<Rightarrow> rt_tbl \<Rightarrow> rt_db \<Rightarrow> rt_db option" where
  "rid_remove i tb s =
     (if rt_rule_ids tb then Some (s\<lparr>rule_ids := (rule_ids s)(rt_set tb := remove1 i (rule_ids s (rt_set tb)))\<rparr>) else None)"

definition finish_rt_rule_add :: "rt_env \<Rightarrow> nat \<Rightarrow> nat \<Rightarrow> rt_db \<Rightarrow> (rc \<times> nat option \<times> rt_db) option" where
  "finish_rt_rule_add e a t s = do {
     tb \<leftarrow> r_tbl s t;
     if \<not> rt_rule_cnt tb < IPA_RULE_CNT_MAX then Some (Err EINVAL, None, s)
     else do {
       s1 \<leftarrow> upd_tbl t (\<lambda>tb. tb\<lparr>rt_rule_cnt := rt_rule_cnt tb + 1\<rparr>) s;
       x \<leftarrow> r_rule s1 a;
       s2 \<leftarrow> take_refs x s1;
       case ipa3_id_alloc (x_id e (PRule a)) (PRule a) (db_idr (hdb s2)) of
         (Inl err, d) \<Rightarrow> do {
           s3 \<leftarrow> drop_refs x s2;
           s4 \<leftarrow> rid_remove (re_rule_id x) tb s3;
           s5 \<leftarrow> upd_tbl t (\<lambda>tb. tb\<lparr>rt_rules := remove1 a (rt_rules tb)\<rparr>) s4;
           Some (Err EPERM, None, s5\<lparr>r_rule := (r_rule s5)(a := None)\<rparr>) }
       | (Inr i, d) \<Rightarrow> do {
           s3 \<leftarrow> upd_rule a (\<lambda>x. x\<lparr>re_id := i\<rparr>) (s2\<lparr>hdb := (hdb s2)\<lparr>db_idr := d\<rparr>\<rparr>);
           Some (OK, Some i, s3) } } }"

definition add_rt_rule ::
  "rt_env \<Rightarrow> ip_type \<Rightarrow> string \<Rightarrow> rt_rule \<Rightarrow> bool \<Rightarrow> nat \<Rightarrow> bool \<Rightarrow> rt_db \<Rightarrow> (rc \<times> nat option \<times> rt_db) option" where
  "add_rt_rule e ip name r at_rear rid user s = do {
     v \<leftarrow> rt_validate_hndls e r s;
     case v of None \<Rightarrow> Some (Err EPERM, None, s)
     | Some (h, c) \<Rightarrow>
         if rt_validate_rule_id rid \<noteq> OK then Some (Err EPERM, None, s)
         else do {
           (ot, s1) \<leftarrow> add_rt_tbl e ip name s;
           case ot of None \<Rightarrow> Some (Err EPERM, None, s1)
           | Some t \<Rightarrow> do {
               tb \<leftarrow> r_tbl s1 t;
               if rt_cookie tb \<noteq> IPA_RT_TBL_COOKIE then Some (Err EPERM, None, s1)
               else if rt_name tb = x_dflt_name e \<and> rt_rule_cnt tb > 0 then Some (Err EPERM, None, s1)
               else do {
                 (oa, s2) \<leftarrow> create_rt_entry e r t h c rid user s1;
                 case oa of None \<Rightarrow> Some (Err EPERM, None, s2)
                 | Some a \<Rightarrow> do {
                     s3 \<leftarrow> upd_tbl t (\<lambda>tb. tb\<lparr>rt_rules := (if at_rear then rt_rules tb @ [a] else a # rt_rules tb)\<rparr>) s2;
                     (ret, hdl, s4) \<leftarrow> finish_rt_rule_add e a t s3;
                     Some (if ret \<noteq> OK then Err EPERM else OK, hdl, s4) } } } } }"

fun insert_after :: "'a \<Rightarrow> 'a \<Rightarrow> 'a list \<Rightarrow> 'a list" where
  "insert_after y x [] = []"
| "insert_after y x (z # zs) = (if z = x then z # y # zs else z # insert_after y x zs)"

text \<open>The last member of the result is the entry the next rule goes after.\<close>

definition add_rt_rule_after ::
  "rt_env \<Rightarrow> nat \<Rightarrow> rt_rule \<Rightarrow> nat option \<Rightarrow> rt_db \<Rightarrow> (rc \<times> nat option \<times> nat option \<times> rt_db) option" where
  "add_rt_rule_after e t r after s =
     (case after of None \<Rightarrow> Some (Err EPERM, None, None, s)
      | Some b \<Rightarrow> do {
          v \<leftarrow> rt_validate_hndls e r s;
          case v of None \<Rightarrow> Some (Err EPERM, None, None, s)
          | Some (h, c) \<Rightarrow> do {
              (oa, s1) \<leftarrow> create_rt_entry e r t h c 0 True s;
              case oa of None \<Rightarrow> Some (Err EPERM, None, None, s1)
              | Some a \<Rightarrow> do {
                  s2 \<leftarrow> upd_tbl t (\<lambda>tb. tb\<lparr>rt_rules := insert_after a b (rt_rules tb)\<rparr>) s1;
                  (ret, hdl, s3) \<leftarrow> finish_rt_rule_add e a t s2;
                  if ret \<noteq> OK then Some (Err EPERM, hdl, None, s3) else Some (OK, hdl, Some a, s3) } } })"

text \<open>
  The check that the header or the context of a rule is still there, by its handle; if it is not,
  the pointer of the rule is cleared.
\<close>

definition forget_gone :: "nat \<Rightarrow> rt_entry \<Rightarrow> rt_db \<Rightarrow> (rt_entry \<times> rt_db) option" where
  "forget_gone a x s = do {
     h \<leftarrow> (if re_hdr x \<noteq> None then hdr_by_handle (ru_hdr_hdl (re_rule x)) (hdb s) else Some None);
     c \<leftarrow> (if re_hdr x = None \<and> re_ctx x \<noteq> None then ctx_by_handle (ru_ctx_hdl (re_rule x)) (hdb s) else Some None);
     let x1 = (if re_hdr x \<noteq> None then (if h = None then x\<lparr>re_hdr := None\<rparr> else x)
               else if re_ctx x \<noteq> None then (if c = None then x\<lparr>re_ctx := None\<rparr> else x) else x);
     Some (x1, s\<lparr>r_rule := (r_rule s)(a \<mapsto> x1)\<rparr>) }"

text \<open>The release of what the rule points to: its result is not looked at.\<close>

definition release_refs :: "rt_env \<Rightarrow> rt_entry \<Rightarrow> rt_db \<Rightarrow> rt_db option" where
  "release_refs e x s =
     (if re_hdr x \<noteq> None \<and> \<not> rt_freed (PHdr (the (re_hdr x))) s then do {
        h \<leftarrow> db_hdr (hdb s) (the (re_hdr x));
        (r, d) \<leftarrow> ipa3_release_hdr (x_hdr e) (h_id h) (hdb s);
        Some (s\<lparr>hdb := d\<rparr>) }
      else if re_ctx x \<noteq> None \<and> \<not> rt_freed (PCtx (the (re_ctx x))) s then do {
        c \<leftarrow> db_ctx (hdb s) (the (re_ctx x));
        (r, d) \<leftarrow> ipa3_release_hdr_proc_ctx (x_hdr e) (c_id c) (hdb s);
        Some (s\<lparr>hdb := d\<rparr>) }
      else Some s)"

definition del_rt_rule :: "rt_env \<Rightarrow> nat \<Rightarrow> rt_db \<Rightarrow> (rc \<times> rt_db) option" where
  "del_rt_rule e hdl s = do {
     r \<leftarrow> rule_by_handle hdl s;
     case r of None \<Rightarrow> Some (Err EINVAL, s)
     | Some a \<Rightarrow> do {
         x \<leftarrow> r_rule s a;
         dflt \<leftarrow> (if \<not> rt_freed (PRule a) s
                 then do { tb \<leftarrow> r_tbl s (re_tbl x); Some (rt_name tb = x_dflt_name e \<and> rt_rule_cnt tb = 1) }
                 else Some False);
         if dflt then Some (Err EINVAL, s)
         else do {
           (x1, s1) \<leftarrow> forget_gone a x s;
           s2 \<leftarrow> release_refs e x1 s1;
           s3 \<leftarrow> upd_tbl (re_tbl x1) (\<lambda>tb. tb\<lparr>rt_rules := remove1 a (rt_rules tb), rt_rule_cnt := rt_rule_cnt tb - 1\<rparr>) s2;
           tb \<leftarrow> r_tbl s3 (re_tbl x1);
           s4 \<leftarrow> (if re_rule_id_valid x1 then Some s3 else rid_remove (re_rule_id x1) tb s3);
           s5 \<leftarrow> (if rt_rule_cnt tb = 0 \<and> rt_ref_cnt tb = 0
                  then do { (ret, s') \<leftarrow> del_rt_tbl (re_tbl x1) s4; Some s' } else Some s4);
           Some (OK, rt_id_remove (re_id x1) (s5\<lparr>r_rule := (r_rule s5)(a := None)\<rparr>)) } } }"

definition mdfy_rt_rule :: "rt_env \<Rightarrow> nat \<Rightarrow> rt_rule \<Rightarrow> rt_db \<Rightarrow> (rc \<times> rt_db) option" where
  "mdfy_rt_rule e hdl r s = do {
     v \<leftarrow> rt_validate_hndls e r s;
     case v of None \<Rightarrow> Some (Err EPERM, s)
     | Some (h, c) \<Rightarrow> do {
         ra \<leftarrow> rule_by_handle hdl s;
         case ra of None \<Rightarrow> Some (Err EPERM, s)
         | Some a \<Rightarrow> do {
             x \<leftarrow> r_rule s a;
             dflt \<leftarrow> (if \<not> rt_freed (PRule a) s
                     then do { tb \<leftarrow> r_tbl s (re_tbl x); Some (rt_name tb = x_dflt_name e) } else Some False);
             if dflt then Some (Err EINVAL, s)
             else do {
               oh \<leftarrow> (if re_hdr x \<noteq> None then hdr_by_handle (ru_hdr_hdl (re_rule x)) (hdb s) else Some None);
               oc \<leftarrow> (if re_hdr x = None \<and> re_ctx x \<noteq> None then ctx_by_handle (ru_ctx_hdl (re_rule x)) (hdb s) else Some None);
               if re_hdr x \<noteq> None \<and> (oh = None \<or> rt_freed (PHdr (the (re_hdr x))) s) \<or>
                  re_hdr x = None \<and> re_ctx x \<noteq> None \<and> (oc = None \<or> rt_freed (PCtx (the (re_ctx x))) s)
               then Some (Err EPERM, s)
               else do {
                 s1 \<leftarrow> drop_refs x s;
                 let x1 = x\<lparr>re_rule := r, re_hdr := h, re_ctx := c, re_hw_len := 0, re_prio := 0,
                            re_cnt_idx := (if ru_enable_stats r then ru_cnt_idx r else 0)\<rparr>;
                 s2 \<leftarrow> take_refs x1 s1;
                 Some (OK, s2\<lparr>r_rule := (r_rule s2)(a \<mapsto> x1)\<rparr>) } } } } }"

end
