(* ===== verification/Ipa_Rt_Ops.thy ===== *)
theory Ipa_Rt_Ops
  imports Ipa_Rt
begin

text \<open>
  The commit of the routing tables and the calls of \<open>ipa_v3/ipa_rt.c\<close> that clients and the
  user-space interface make.
\<close>

section \<open>A rule for the hardware\<close>

text \<open>Whether the check of a rule finds that its header or context was deleted.\<close>

definition target_gone :: "rt_entry \<Rightarrow> rt_db \<Rightarrow> bool option" where
  "target_gone x s =
     (case re_hdr x of
        Some h \<Rightarrow> do { r \<leftarrow> hdr_by_handle (ru_hdr_hdl (re_rule x)) (hdb s); Some (r = None \<or> rt_freed (PHdr h) s) }
      | None \<Rightarrow>
          (case re_ctx x of
             Some c \<Rightarrow> do { r \<leftarrow> ctx_by_handle (ru_ctx_hdl (re_rule x)) (hdb s); Some (r = None \<or> rt_freed (PCtx c) s) }
           | None \<Rightarrow> Some False))"

definition ctx_of_rule :: "rt_env \<Rightarrow> nat option \<Rightarrow> rt_db \<Rightarrow> (rt_hdr_type \<times> bool \<times> nat) option" where
  "ctx_of_rule e oc s =
     (case oc of None \<Rightarrow> Some (RULE_HDR_NONE, False, 0)
      | Some c \<Rightarrow>
          if rt_freed (PCtx c) s then Some (RULE_HDR_NONE, False, 0)
          else do {
            y \<leftarrow> db_ctx (hdb s) c;
            if c_cookie y \<noteq> IPA_PROC_HDR_COOKIE then Some (RULE_HDR_NONE, False, 0)
            else do {
              off \<leftarrow> c_off y;
              oe \<leftarrow> db_off (hdb s) off;
              Some (RULE_HDR_PROC_CTX, e_ctx_lcl (x_hdr e), o_offset oe + x_ctx_start e) } })"

definition hdr_of_rule :: "rt_env \<Rightarrow> rt_entry \<Rightarrow> rt_db \<Rightarrow> (rt_hdr_type \<times> bool \<times> nat) option" where
  "hdr_of_rule e x s =
     (if re_ctx x \<noteq> None then ctx_of_rule e (re_ctx x) s
      else case re_hdr x of None \<Rightarrow> Some (RULE_HDR_NONE, False, 0)
      | Some a \<Rightarrow> do {
          h \<leftarrow> db_hdr (hdb s) a;
          if h_ddr h then ctx_of_rule e (h_ctx h) s
          else if h_cookie h \<noteq> IPA_HDR_COOKIE then Some (RULE_HDR_NONE, False, 0)
          else do {
            off \<leftarrow> h_off h;
            oe \<leftarrow> db_off (hdb s) off;
            Some (RULE_HDR_RAW, e_hdr_lcl (x_hdr e), o_offset oe) } })"

text \<open>The length of a rule, once known, has to stay (\<open>ipa_rt_gen_hw_rule\<close> of the abstraction layer).\<close>

definition generate_rt_hw_rule :: "rt_env \<Rightarrow> ip_type \<Rightarrow> nat \<Rightarrow> rt_db \<Rightarrow> ((errno + byte list) \<times> rt_db) option" where
  "generate_rt_hw_rule e ip a s = do {
     x \<leftarrow> r_rule s a;
     let r = re_rule x;
     if ru_hashable r \<and> ru_pure_ack r then Some (Inl EPERM, s)
     else if e_ep (x_hdr e) (ru_dst r) = -1 then Some (Inl EPERM, s)
     else if \<not> IPA_CLIENT_IS_CONS e (ru_dst r) then Some (Inl EPERM, s)
     else do {
       gone \<leftarrow> target_gone x s;
       if gone then Some (Inl EPERM, s)
       else do {
         (ht, lcl, ofst) \<leftarrow> hdr_of_rule e x s;
         case x_gen e \<lparr>g_ip = ip, g_pipe = e_ep (x_hdr e) (ru_dst r), g_hdr_type = ht, g_hdr_lcl = lcl, g_hdr_ofst = ofst,
                       g_prio = re_prio x, g_id = re_rule_id x, g_rule = r, g_cnt_idx = re_cnt_idx x\<rparr> of
           None \<Rightarrow> Some (Inl EPERM, s)
         | Some bs \<Rightarrow>
             if re_hw_len x \<noteq> 0 \<and> re_hw_len x \<noteq> length bs then Some (Inl EPERM, s)
             else Some (Inr bs, s\<lparr>r_rule := (r_rule s)(a \<mapsto> x\<lparr>re_hw_len := length bs\<rparr>)\<rparr>) } } }"

section \<open>Preparation\<close>

definition rule_decrease_priority :: "int \<Rightarrow> errno + int" where
  "rule_decrease_priority p =
     (if p > RULE_MIN_PRIORITY \<or> p < RULE_MAX_PRIORITY then Inl EINVAL
      else if p + 1 > RULE_MIN_PRIORITY then Inl EFAULT else Inr (p + 1))"

definition type_of :: "rt_entry \<Rightarrow> rule_type" where
  "type_of x = (if ru_hashable (re_rule x) then IPA_RULE_HASHABLE else IPA_RULE_NON_HASHABLE)"

text \<open>The priority a rule gets and the one the next rule starts from.\<close>

definition next_prio :: "rt_entry \<Rightarrow> int \<Rightarrow> errno + int \<times> int" where
  "next_prio x p =
     (if ru_max_prio (re_rule x) then Inr (RULE_MAX_PRIORITY, p)
      else case rule_decrease_priority p of Inl err \<Rightarrow> Inl EPERM | Inr q \<Rightarrow> Inr (q, q))"

fun prep_rules :: "rt_env \<Rightarrow> ip_type \<Rightarrow> nat \<Rightarrow> nat list \<Rightarrow> int \<Rightarrow> rt_db \<Rightarrow> (rc \<times> rt_db) option" where
  "prep_rules e ip t [] p s = Some (OK, s)"
| "prep_rules e ip t (a # as) p s = do {
     x \<leftarrow> r_rule s a;
     case next_prio x p of
       Inl err \<Rightarrow> Some (Err err, s)
     | Inr (q, p') \<Rightarrow> do {
         (g, s1) \<leftarrow> generate_rt_hw_rule e ip a (s\<lparr>r_rule := (r_rule s)(a \<mapsto> x\<lparr>re_prio := q\<rparr>)\<rparr>);
         case g of
           Inl err \<Rightarrow> Some (Err EPERM, s1)
         | Inr bs \<Rightarrow> do {
             s2 \<leftarrow> upd_tbl t (\<lambda>tb. tb\<lparr>rt_sz := (rt_sz tb)(type_of x := rt_sz tb (type_of x) + length bs)\<rparr>) s1;
             prep_rules e ip t as p' s2 } } }"

definition prep_rt_tbl_for_cmt :: "rt_env \<Rightarrow> ip_type \<Rightarrow> nat \<Rightarrow> rt_db \<Rightarrow> (rc \<times> rt_db) option" where
  "prep_rt_tbl_for_cmt e ip t s = do {
     tb \<leftarrow> r_tbl s t;
     s1 \<leftarrow> upd_tbl t (\<lambda>tb. tb\<lparr>rt_sz := (\<lambda>r. 0)\<rparr>) s;
     (r, s2) \<leftarrow> prep_rules e ip t (rt_rules tb) RULE_MAX_PRIORITY s1;
     if r \<noteq> OK then Some (r, s2)
     else do {
       s3 \<leftarrow> upd_tbl t (\<lambda>tb. tb\<lparr>rt_sz := (\<lambda>r. if rt_sz tb r \<noteq> 0 then rt_sz tb r + x_hdr_width e else 0)\<rparr>) s2;
       Some (OK, s3) } }"

fun prep_tbls :: "rt_env \<Rightarrow> ip_type \<Rightarrow> nat list \<Rightarrow> rt_db \<Rightarrow> (rc \<times> rt_db) option" where
  "prep_tbls e ip [] s = Some (OK, s)"
| "prep_tbls e ip (t # ts) s = do {
     (r, s1) \<leftarrow> prep_rt_tbl_for_cmt e ip t s;
     if r \<noteq> OK then Some (r, s1) else prep_tbls e ip ts s1 }"

section \<open>The images\<close>

text \<open>The bytes of the rules of one type, one behind the other; the inner \<open>None\<close> is a failure.\<close>

fun rules_bytes :: "rt_env \<Rightarrow> ip_type \<Rightarrow> rule_type \<Rightarrow> nat list \<Rightarrow> rt_db \<Rightarrow> (byte list option \<times> rt_db) option" where
  "rules_bytes e ip rlt [] s = Some (Some [], s)"
| "rules_bytes e ip rlt (a # as) s = do {
     x \<leftarrow> r_rule s a;
     if type_of x \<noteq> rlt then rules_bytes e ip rlt as s
     else do {
       (g, s1) \<leftarrow> generate_rt_hw_rule e ip a s;
       case g of Inl err \<Rightarrow> Some (None, s1)
       | Inr bs \<Rightarrow> do {
           (r, s2) \<leftarrow> rules_bytes e ip rlt as s1;
           Some (map_option (\<lambda>cs. bs @ cs) r, s2) } } }"

text \<open>
  The body of a table in system memory: its new buffer. Tables in the memory of the hardware are
  never configured (\<open>_ipa_sram_settings_read_v3_0\<close>) and the abstraction layer allocates no body
  for them: their body would be written through NULL.
\<close>

definition translate_tbl ::
  "rt_env \<Rightarrow> ip_type \<Rightarrow> rule_type \<Rightarrow> nat \<Rightarrow> (nat \<Rightarrow> nat option) \<Rightarrow> rt_db \<Rightarrow> (rc \<times> (nat \<Rightarrow> nat option) \<times> rt_db) option" where
  "translate_tbl e ip rlt t img s = do {
     tb \<leftarrow> r_tbl s t;
     if rt_sz tb rlt = 0 then Some (OK, img, s)
     else if \<not> rt_in_sys tb rlt then None
     else
       let b = r_next s; size = rt_sz tb rlt - x_hdr_width e + x_prefetch e; s1 = s\<lparr>r_next := r_next s + 1\<rparr>
       in if \<not> x_alloc_mem e b \<or> size = 0 then Some (Err EPERM, img, s1)
          else if \<not> x_hdr_buf e rlt then Some (Err EPERM, img, s1)
          else if rt_idx tb < x_apps_lo e ip \<or> rt_idx tb > x_apps_hi e ip then None
          else do {
            (bs, s2) \<leftarrow> rules_bytes e ip rlt (rt_rules tb) (s1\<lparr>rt_mem := (rt_mem s1)(b \<mapsto> [])\<rparr>);
            case bs of
              None \<Rightarrow> Some (Err EPERM, img, s2\<lparr>rt_mem := (rt_mem s2)(b := None)\<rparr>)
            | Some cs \<Rightarrow>
                if length cs > size then None
                else do {
                  s3 \<leftarrow> upd_tbl t (\<lambda>tb. tb\<lparr>rt_prev := (case rt_curr tb rlt of None \<Rightarrow> rt_prev tb
                                                     | Some c \<Rightarrow> (rt_prev tb)(rlt := Some c)),
                                        rt_curr := (rt_curr tb)(rlt := Some b)\<rparr>)
                         (s2\<lparr>rt_mem := (rt_mem s2)(b \<mapsto> cs)\<rparr>);
                  Some (OK, img(rt_idx tb - x_apps_lo e ip := Some b), s3) } } }"

fun translate_rt_tbl_to_hw_fmt ::
  "rt_env \<Rightarrow> ip_type \<Rightarrow> rule_type \<Rightarrow> nat list \<Rightarrow> (nat \<Rightarrow> nat option) \<Rightarrow> rt_db \<Rightarrow> (rc \<times> (nat \<Rightarrow> nat option) \<times> rt_db) option" where
  "translate_rt_tbl_to_hw_fmt e ip rlt [] img s = Some (OK, img, s)"
| "translate_rt_tbl_to_hw_fmt e ip rlt (t # ts) img s = do {
     (r, img1, s1) \<leftarrow> translate_tbl e ip rlt t img s;
     if r \<noteq> OK then Some (r, img1, s1) else translate_rt_tbl_to_hw_fmt e ip rlt ts img1 s1 }"

definition generate_rt_hw_tbl_img :: "rt_env \<Rightarrow> ip_type \<Rightarrow> rt_db \<Rightarrow> (rc \<times> rt_img \<times> rt_db) option" where
  "generate_rt_hw_tbl_img e ip s =
     (if \<not> x_imgs e ip then Some (Err ENOMEM, \<lambda>r i. None, s)
      else do {
        (r, hash, s1) \<leftarrow> translate_rt_tbl_to_hw_fmt e ip IPA_RULE_HASHABLE (tbl_list s ip) (\<lambda>i. None) s;
        if r \<noteq> OK then Some (Err EPERM, \<lambda>r i. None, s1)
        else do {
          (r2, nhash, s2) \<leftarrow> translate_rt_tbl_to_hw_fmt e ip IPA_RULE_NON_HASHABLE (tbl_list s1 ip) (\<lambda>i. None) s1;
          Some (if r2 \<noteq> OK then Err EPERM else OK,
                \<lambda>r. case r of IPA_RULE_HASHABLE \<Rightarrow> hash | IPA_RULE_NON_HASHABLE \<Rightarrow> nhash, s2) } })"

section \<open>Commit\<close>

fun reap_prev :: "nat list \<Rightarrow> rt_db \<Rightarrow> rt_db option" where
  "reap_prev [] s = Some s"
| "reap_prev (t # ts) s = do {
     tb \<leftarrow> r_tbl s t;
     reap_prev ts (s\<lparr>rt_mem := (\<lambda>b. if \<exists>r \<in> {IPA_RULE_HASHABLE, IPA_RULE_NON_HASHABLE}. rt_prev tb r = Some b
                                   then None else rt_mem s b),
                     r_tbl := (r_tbl s)(t \<mapsto> tb\<lparr>rt_prev := (\<lambda>r. None)\<rparr>)\<rparr>) }"

fun reap_tbls :: "ip_type \<Rightarrow> nat list \<Rightarrow> rt_db \<Rightarrow> rt_db option" where
  "reap_tbls ip [] s = Some s"
| "reap_tbls ip (t # ts) s = do {
     tb \<leftarrow> r_tbl s t;
     reap_tbls ip ts (s\<lparr>rt_mem := (\<lambda>b. if \<exists>r \<in> {IPA_RULE_HASHABLE, IPA_RULE_NON_HASHABLE}. rt_curr tb r = Some b
                                      then None else rt_mem s b),
                        reap_list := (reap_list s)(ip := remove1 t (reap_list s ip)),
                        r_tbl := (r_tbl s)(t := None)\<rparr>) }"

definition reap_sys_rt_tbls :: "ip_type \<Rightarrow> rt_db \<Rightarrow> rt_db option" where
  "reap_sys_rt_tbls ip s = do { s1 \<leftarrow> reap_prev (tbl_list s ip) s; reap_tbls ip (reap_list s1 ip) s1 }"

text \<open>Whether the commands of a commit can be made; if not, the code returns 0 all the same.\<close>

definition rt_cmds_made :: "rt_env \<Rightarrow> bool" where
  "rt_cmds_made e \<longleftrightarrow>
     (e_coal_ep (x_hdr e) \<noteq> -1 \<longrightarrow> x_rt_cmd e 0) \<and> (\<not> x_not_hashable e \<longrightarrow> x_rt_cmd e 1) \<and> x_rt_cmd e 2 \<and>
     (\<not> x_not_hashable e \<longrightarrow> x_rt_cmd e 3)"

definition commit_rt_v3 :: "rt_env \<Rightarrow> ip_type \<Rightarrow> rt_db \<Rightarrow> (rc \<times> rt_db) option" where
  "commit_rt_v3 e ip s =
     (if rt_idx_bitmap s ip = 0 then Some (Err EPERM, s)
      else do {
        (r, s1) \<leftarrow> prep_tbls e ip (tbl_list s ip) s;
        if r \<noteq> OK then Some (Err EPERM, s1)
        else do {
          (r2, img, s2) \<leftarrow> generate_rt_hw_tbl_img e ip s1;
          if r2 \<noteq> OK then Some (Err EFAULT, s2)
          else if \<not> rt_cmds_made e then Some (OK, s2)
          else if \<not> x_rt_send e then Some (Err EFAULT, s2)
          else do {
            s3 \<leftarrow> reap_sys_rt_tbls ip
                   (s2\<lparr>rt_hw := (rt_hw s2)(ip := (\<lambda>r. if r = IPA_RULE_HASHABLE \<and> x_not_hashable e then rt_hw s2 ip r else img r))\<rparr>);
            Some (OK, s3) } } })"

text \<open>The end of the calls: an optional commit.\<close>

definition finish_rt :: "rt_env \<Rightarrow> ip_type \<Rightarrow> bool \<Rightarrow> rt_db \<Rightarrow> (rc \<times> rt_db) option" where
  "finish_rt e ip commit s =
     (if commit then do { (r, s1) \<leftarrow> commit_rt_v3 e ip s; Some (if r \<noteq> OK then Err EPERM else OK, s1) } else Some (OK, s))"

text \<open>\<open>ipa3_commit_rt\<close>, after the commit of the filtering tables, which is a parameter.\<close>

definition ipa3_commit_rt :: "rt_env \<Rightarrow> (ip_type \<Rightarrow> rt_db \<Rightarrow> rc \<times> rt_db) \<Rightarrow> ip_type \<Rightarrow> rt_db \<Rightarrow> (rc \<times> rt_db) option" where
  "ipa3_commit_rt e flt_commit ip s =
     (if ip = IPA_IP_MAX then Some (Err EINVAL, s)
      else let (r, s1) = flt_commit ip s in
      if r \<noteq> OK then Some (Err EPERM, s1) else finish_rt e ip True s1)"

section \<open>Adding rules\<close>

record rule_add =
  ad_rule :: rt_rule
  ad_rear :: bool
  ad_rule_id :: nat

text \<open>If the hardware cannot hash, no rule is hashable.\<close>

definition norm_rule :: "rt_env \<Rightarrow> rt_rule \<Rightarrow> rt_rule" where
  "norm_rule e r = (if x_not_hashable e then r\<lparr>ru_hashable := False\<rparr> else r)"

definition status_of :: "rc \<Rightarrow> int" where
  "status_of r = (if r \<noteq> OK then -1 else 0)"

text \<open>The loop of the four calls that add rules: the rule of a member, its identifier or 0.\<close>

fun add_rules ::
  "rt_env \<Rightarrow> ip_type \<Rightarrow> string \<Rightarrow> bool \<Rightarrow> (rule_add \<Rightarrow> rt_rule) \<Rightarrow> (rule_add \<Rightarrow> nat) \<Rightarrow> rule_add list \<Rightarrow> rt_db \<Rightarrow>
   ((int \<times> nat option) list \<times> rt_db) option" where
  "add_rules e ip name user rule rid [] s = Some ([], s)"
| "add_rules e ip name user rule rid (m # ms) s = do {
     (r, hdl, s1) \<leftarrow> add_rt_rule e ip name (rule m) (ad_rear m) (rid m) user s;
     (rs, s2) \<leftarrow> add_rules e ip name user rule rid ms s1;
     Some ((status_of r, hdl) # rs, s2) }"

definition add_call ::
  "rt_env \<Rightarrow> ip_type \<Rightarrow> string \<Rightarrow> bool \<Rightarrow> (rule_add \<Rightarrow> rt_rule) \<Rightarrow> (rule_add \<Rightarrow> nat) \<Rightarrow> rule_add list option \<Rightarrow> bool \<Rightarrow> rt_db \<Rightarrow>
   (rc \<times> (int \<times> nat option) list \<times> rt_db) option" where
  "add_call e ip name user rule rid rules commit s =
     (case rules of None \<Rightarrow> Some (Err EINVAL, [], s)
      | Some ms \<Rightarrow>
          if ms = [] \<or> ip = IPA_IP_MAX then Some (Err EINVAL, [], s)
          else do {
            (rs, s1) \<leftarrow> add_rules e ip name user rule rid ms s;
            (r, s2) \<leftarrow> finish_rt e ip commit s1;
            Some (r, rs, s2) })"

text \<open>The first version of the interface copies the shorter structure over zeros (\<open>x_v1\<close>).\<close>

definition ipa3_add_rt_rule_usr ::
  "rt_env \<Rightarrow> ip_type \<Rightarrow> string \<Rightarrow> rule_add list option \<Rightarrow> bool \<Rightarrow> bool \<Rightarrow> rt_db \<Rightarrow> (rc \<times> (int \<times> nat option) list \<times> rt_db) option" where
  "ipa3_add_rt_rule_usr e ip name rules commit user =
     add_call e ip (cut_name e name) user (\<lambda>m. x_v1 e (norm_rule e (ad_rule m))) (\<lambda>m. 0) rules commit"

definition ipa3_add_rt_rule_usr_v2 ::
  "rt_env \<Rightarrow> ip_type \<Rightarrow> string \<Rightarrow> rule_add list option \<Rightarrow> bool \<Rightarrow> bool \<Rightarrow> rt_db \<Rightarrow> (rc \<times> (int \<times> nat option) list \<times> rt_db) option" where
  "ipa3_add_rt_rule_usr_v2 e ip name rules commit user =
     add_call e ip (cut_name e name) user (\<lambda>m. norm_rule e (ad_rule m)) (\<lambda>m. 0) rules commit"

definition ipa3_add_rt_rule ::
  "rt_env \<Rightarrow> ip_type \<Rightarrow> string \<Rightarrow> rule_add list option \<Rightarrow> bool \<Rightarrow> rt_db \<Rightarrow> (rc \<times> (int \<times> nat option) list \<times> rt_db) option" where
  "ipa3_add_rt_rule e ip name rules commit = ipa3_add_rt_rule_usr e ip name rules commit False"

definition ipa3_add_rt_rule_v2 ::
  "rt_env \<Rightarrow> ip_type \<Rightarrow> string \<Rightarrow> rule_add list option \<Rightarrow> bool \<Rightarrow> rt_db \<Rightarrow> (rc \<times> (int \<times> nat option) list \<times> rt_db) option" where
  "ipa3_add_rt_rule_v2 e ip name rules commit = ipa3_add_rt_rule_usr_v2 e ip name rules commit False"

definition ipa3_add_rt_rule_ext ::
  "rt_env \<Rightarrow> ip_type \<Rightarrow> string \<Rightarrow> rule_add list option \<Rightarrow> bool \<Rightarrow> rt_db \<Rightarrow> (rc \<times> (int \<times> nat option) list \<times> rt_db) option" where
  "ipa3_add_rt_rule_ext e ip name rules commit =
     add_call e ip name True (\<lambda>m. x_v1 e (norm_rule e (ad_rule m))) ad_rule_id rules commit"

definition ipa3_add_rt_rule_ext_v2 ::
  "rt_env \<Rightarrow> ip_type \<Rightarrow> string \<Rightarrow> rule_add list option \<Rightarrow> bool \<Rightarrow> rt_db \<Rightarrow> (rc \<times> (int \<times> nat option) list \<times> rt_db) option" where
  "ipa3_add_rt_rule_ext_v2 e ip name rules commit =
     add_call e ip name True (\<lambda>m. norm_rule e (ad_rule m)) ad_rule_id rules commit"

section \<open>Adding rules after a rule\<close>

fun add_rules_after ::
  "rt_env \<Rightarrow> nat \<Rightarrow> (rule_add \<Rightarrow> rt_rule) \<Rightarrow> nat option \<Rightarrow> rule_add list \<Rightarrow> rt_db \<Rightarrow> ((int \<times> nat option) list \<times> rt_db) option" where
  "add_rules_after e t rule after [] s = Some ([], s)"
| "add_rules_after e t rule after (m # ms) s = do {
     (r, hdl, after1, s1) \<leftarrow> add_rt_rule_after e t (rule m) after s;
     (rs, s2) \<leftarrow> add_rules_after e t rule after1 ms s1;
     Some ((status_of r, hdl) # rs, s2) }"

definition add_after_call ::
  "rt_env \<Rightarrow> ip_type \<Rightarrow> string \<Rightarrow> nat \<Rightarrow> (rule_add \<Rightarrow> rt_rule) \<Rightarrow> rule_add list option \<Rightarrow> bool \<Rightarrow> rt_db \<Rightarrow>
   (rc \<times> (int \<times> nat option) list \<times> rt_db) option" where
  "add_after_call e ip name hdl rule rules commit s =
     (case rules of None \<Rightarrow> Some (Err EINVAL, [], s)
      | Some ms \<Rightarrow>
          if ms = [] \<or> ip = IPA_IP_MAX then Some (Err EINVAL, [], s)
          else do {
            ot \<leftarrow> ipa3_find_rt_tbl e ip (cut_name e name) s;
            case ot of None \<Rightarrow> Some (Err EINVAL, [], s)
            | Some t \<Rightarrow> do {
                tb \<leftarrow> r_tbl s t;
                if rt_cookie tb \<noteq> IPA_RT_TBL_COOKIE \<or> rt_rule_cnt tb = 0 then Some (Err EINVAL, [], s)
                else do {
                  ra \<leftarrow> rule_by_handle hdl s;
                  case ra of None \<Rightarrow> Some (Err EINVAL, [], s)
                  | Some a \<Rightarrow> do {
                      x \<leftarrow> r_rule s a;
                      if re_tbl x \<noteq> t then Some (Err EINVAL, [], s)
                      else if rt_name tb = x_dflt_name e \<and> rt_rule_cnt tb > 0 then Some (Err EINVAL, [], s)
                      else do {
                        (rs, s1) \<leftarrow> add_rules_after e t rule (Some a) ms s;
                        (r, s2) \<leftarrow> finish_rt e ip commit s1;
                        Some (r, rs, s2) } } } } })"

definition ipa3_add_rt_rule_after ::
  "rt_env \<Rightarrow> ip_type \<Rightarrow> string \<Rightarrow> nat \<Rightarrow> rule_add list option \<Rightarrow> bool \<Rightarrow> rt_db \<Rightarrow> (rc \<times> (int \<times> nat option) list \<times> rt_db) option" where
  "ipa3_add_rt_rule_after e ip name hdl rules commit =
     add_after_call e ip name hdl (\<lambda>m. x_v1 e (norm_rule e (ad_rule m))) rules commit"

definition ipa3_add_rt_rule_after_v2 ::
  "rt_env \<Rightarrow> ip_type \<Rightarrow> string \<Rightarrow> nat \<Rightarrow> rule_add list option \<Rightarrow> bool \<Rightarrow> rt_db \<Rightarrow> (rc \<times> (int \<times> nat option) list \<times> rt_db) option" where
  "ipa3_add_rt_rule_after_v2 e ip name hdl rules commit =
     add_after_call e ip name hdl (\<lambda>m. norm_rule e (ad_rule m)) rules commit"

section \<open>Deleting and changing rules\<close>

fun del_rules :: "rt_env \<Rightarrow> nat list \<Rightarrow> rt_db \<Rightarrow> (int list \<times> rt_db) option" where
  "del_rules e [] s = Some ([], s)"
| "del_rules e (hdl # hdls) s = do {
     (r, s1) \<leftarrow> del_rt_rule e hdl s;
     (rs, s2) \<leftarrow> del_rules e hdls s1;
     Some (status_of r # rs, s2) }"

definition ipa3_del_rt_rule :: "rt_env \<Rightarrow> ip_type \<Rightarrow> nat list option \<Rightarrow> bool \<Rightarrow> rt_db \<Rightarrow> (rc \<times> int list \<times> rt_db) option" where
  "ipa3_del_rt_rule e ip hdls commit s =
     (case hdls of None \<Rightarrow> Some (Err EINVAL, [], s)
      | Some hs \<Rightarrow>
          if hs = [] \<or> ip = IPA_IP_MAX then Some (Err EINVAL, [], s)
          else do {
            (rs, s1) \<leftarrow> del_rules e hs s;
            (r, s2) \<leftarrow> finish_rt e ip commit s1;
            Some (r, rs, s2) })"

fun mdfy_rules :: "rt_env \<Rightarrow> (rt_rule \<Rightarrow> rt_rule) \<Rightarrow> (nat \<times> rt_rule) list \<Rightarrow> rt_db \<Rightarrow> (int list \<times> rt_db) option" where
  "mdfy_rules e rule [] s = Some ([], s)"
| "mdfy_rules e rule ((hdl, r) # ms) s = do {
     (ret, s1) \<leftarrow> mdfy_rt_rule e hdl (rule r) s;
     (rs, s2) \<leftarrow> mdfy_rules e rule ms s1;
     Some (status_of ret # rs, s2) }"

definition mdfy_call ::
  "rt_env \<Rightarrow> ip_type \<Rightarrow> (rt_rule \<Rightarrow> rt_rule) \<Rightarrow> (nat \<times> rt_rule) list option \<Rightarrow> bool \<Rightarrow> rt_db \<Rightarrow> (rc \<times> int list \<times> rt_db) option" where
  "mdfy_call e ip rule rules commit s =
     (case rules of None \<Rightarrow> Some (Err EINVAL, [], s)
      | Some ms \<Rightarrow>
          if ms = [] \<or> ip = IPA_IP_MAX then Some (Err EINVAL, [], s)
          else do {
            (rs, s1) \<leftarrow> mdfy_rules e rule ms s;
            (r, s2) \<leftarrow> finish_rt e ip commit s1;
            Some (r, rs, s2) })"

definition ipa3_mdfy_rt_rule ::
  "rt_env \<Rightarrow> ip_type \<Rightarrow> (nat \<times> rt_rule) list option \<Rightarrow> bool \<Rightarrow> rt_db \<Rightarrow> (rc \<times> int list \<times> rt_db) option" where
  "ipa3_mdfy_rt_rule e ip = mdfy_call e ip (\<lambda>r. x_v1 e (norm_rule e r))"

definition ipa3_mdfy_rt_rule_v2 ::
  "rt_env \<Rightarrow> ip_type \<Rightarrow> (nat \<times> rt_rule) list option \<Rightarrow> bool \<Rightarrow> rt_db \<Rightarrow> (rc \<times> int list \<times> rt_db) option" where
  "ipa3_mdfy_rt_rule_v2 e ip = mdfy_call e ip (norm_rule e)"

section \<open>References on tables\<close>

definition ipa3_get_rt_tbl :: "rt_env \<Rightarrow> ip_type \<Rightarrow> string option \<Rightarrow> rt_db \<Rightarrow> (rc \<times> nat option \<times> rt_db) option" where
  "ipa3_get_rt_tbl e ip lookup s =
     (case lookup of None \<Rightarrow> Some (Err EINVAL, None, s)
      | Some name \<Rightarrow>
          if ip = IPA_IP_MAX then Some (Err EINVAL, None, s)
          else do {
            ot \<leftarrow> ipa3_find_rt_tbl e ip (cut_name e name) s;
            case ot of None \<Rightarrow> Some (Err EFAULT, None, s)
            | Some t \<Rightarrow> do {
                tb \<leftarrow> r_tbl s t;
                if rt_cookie tb \<noteq> IPA_RT_TBL_COOKIE \<or> rt_ref_cnt tb = -1 then Some (Err EFAULT, None, s)
                else do {
                  s1 \<leftarrow> upd_tbl t (\<lambda>tb. tb\<lparr>rt_ref_cnt := rt_ref_cnt tb + 1\<rparr>) s;
                  (r, s2) \<leftarrow> commit_rt_v3 e ip s1;
                  Some (OK, Some (rt_id tb), s2) } } })"

definition ipa3_put_rt_tbl :: "rt_env \<Rightarrow> nat \<Rightarrow> rt_db \<Rightarrow> (rc \<times> rt_db) option" where
  "ipa3_put_rt_tbl e hdl s = do {
     ot \<leftarrow> tbl_by_handle hdl s;
     case ot of None \<Rightarrow> Some (Err EINVAL, s)
     | Some t \<Rightarrow> do {
         tb \<leftarrow> r_tbl s t;
         if rt_ref_cnt tb = 0 then Some (Err EINVAL, s)
         else if rt_set tb = IPA_IP_MAX then Some (Err EINVAL, s)
         else do {
           s1 \<leftarrow> upd_tbl t (\<lambda>tb. tb\<lparr>rt_ref_cnt := rt_ref_cnt tb - 1\<rparr>) s;
           if rt_ref_cnt tb - 1 = 0 \<and> rt_rule_cnt tb = 0 then do {
             (r, s2) \<leftarrow> del_rt_tbl t s1;
             (r2, s3) \<leftarrow> commit_rt_v3 e (rt_set tb) s2;
             Some (OK, s3) }
           else Some (OK, s1) } } }"

section \<open>Reset\<close>

text \<open>The inner loop; the flag says whether the table has rules of the user.\<close>

fun reset_rules ::
  "rt_env \<Rightarrow> ip_type \<Rightarrow> bool \<Rightarrow> nat \<Rightarrow> nat list \<Rightarrow> bool \<Rightarrow> rt_db \<Rightarrow> ((errno + bool) \<times> rt_db) option" where
  "reset_rules e ip user_only t [] tbl_user s = Some (Inr tbl_user, s)"
| "reset_rules e ip user_only t (a # as) tbl_user s = do {
     x \<leftarrow> r_rule s a;
     if ipa3_id_find (re_id x) (db_idr (hdb s)) = None then Some (Inl EFAULT, s)
     else do {
       tb \<leftarrow> r_tbl s t;
       let tu = tbl_user \<or> re_ipacm x;
       if rt_idx tb = x_apps_lo e ip \<and> rt_rule_cnt tb = 1 then reset_rules e ip user_only t as tu s
       else if \<not> user_only \<or> re_ipacm x then do {
         (x1, s1) \<leftarrow> forget_gone a x s;
         s2 \<leftarrow> upd_tbl t (\<lambda>tb. tb\<lparr>rt_rules := remove1 a (rt_rules tb), rt_rule_cnt := rt_rule_cnt tb - 1\<rparr>) s1;
         s3 \<leftarrow> release_refs e x1 s2;
         s4 \<leftarrow> (if re_rule_id_valid x1 then Some s3 else rid_remove (re_rule_id x1) tb s3);
         reset_rules e ip user_only t as tu (rt_id_remove (re_id x1) (s4\<lparr>r_rule := (r_rule s4)(a := None)\<rparr>)) }
       else reset_rules e ip user_only t as tu s } }"

fun reset_tbls :: "rt_env \<Rightarrow> ip_type \<Rightarrow> bool \<Rightarrow> nat list \<Rightarrow> rt_db \<Rightarrow> (rc \<times> rt_db) option" where
  "reset_tbls e ip user_only [] s = Some (OK, s)"
| "reset_tbls e ip user_only (t # ts) s = do {
     tb \<leftarrow> r_tbl s t;
     (r, s1) \<leftarrow> reset_rules e ip user_only t (rt_rules tb) False s;
     case r of Inl err \<Rightarrow> Some (Err err, s1)
     | Inr tbl_user \<Rightarrow> do {
         tb1 \<leftarrow> r_tbl s1 t;
         if ipa3_id_find (rt_id tb1) (db_idr (hdb s1)) = None then Some (Err EFAULT, s1)
         else if rt_idx tb1 \<noteq> x_apps_lo e ip \<and> (\<not> user_only \<or> tbl_user)
         then reset_tbls e ip user_only ts (rt_id_remove (rt_id tb1) (drop_tbl ip t tb1 s1))
         else reset_tbls e ip user_only ts s1 } }"

text \<open>\<open>ipa3_reset_rt\<close>, after the reset of the filtering tables, which is a parameter.\<close>

definition ipa3_reset_rt ::
  "rt_env \<Rightarrow> (ip_type \<Rightarrow> bool \<Rightarrow> rt_db \<Rightarrow> rt_db option) \<Rightarrow> ip_type \<Rightarrow> bool \<Rightarrow> rt_db \<Rightarrow> (rc \<times> rt_db) option" where
  "ipa3_reset_rt e flt_reset ip user_only s0 =
     (if ip = IPA_IP_MAX then Some (Err EINVAL, s0)
      else do {
        s \<leftarrow> flt_reset ip user_only s0;
        (r, s1) \<leftarrow> reset_tbls e ip user_only (tbl_list s ip) s;
        if r \<noteq> OK then Some (r, s1)
        else do {
          (r4, s2) \<leftarrow> commit_rt_v3 e IPA_IP_v4 s1;
          if r4 \<noteq> OK then Some (Err EPERM, s2)
          else do {
            (r6, s3) \<leftarrow> commit_rt_v3 e IPA_IP_v6 s2;
            Some (if r6 \<noteq> OK then Err EPERM else OK, s3) } } })"

section \<open>The start\<close>

text \<open>\<open>_ipa_init_rt4_v3\<close> and \<open>_ipa_init_rt6_v3\<close> reserve the indices of the modem.\<close>

definition init_rt_bitmap :: "rt_env \<Rightarrow> ip_type \<Rightarrow> rt_db \<Rightarrow> rt_db" where
  "init_rt_bitmap e ip s = foldl (\<lambda>s i. set_idx ip i s) s [x_modem_lo e ip..<x_modem_hi e ip + 1]"

text \<open>
  \<open>ipa3_setup_dflt_rt_tables\<close>: one rule in the default table of each family, to the local
  interface, with the exception header; \<open>retain_hdr\<close> stands for the flag of that name, the only other
  member of the rule that is set. The first argument says whether the request could be allocated.
\<close>

definition dflt_rt_rule :: "nat \<Rightarrow> nat \<Rightarrow> nat \<Rightarrow> rt_rule" where
  "dflt_rt_rule retain_hdr lan_cons excp_hdr_hdl =
     \<lparr>ru_dst = lan_cons, ru_hdr_hdl = excp_hdr_hdl, ru_ctx_hdl = 0, ru_pure_ack = False, ru_rest = retain_hdr, ru_max_prio = False,
      ru_hashable = False, ru_coalesce = False, ru_enable_stats = False, ru_cnt_idx = 0\<rparr>"

definition ipa3_setup_dflt_rt_tables :: "rt_env \<Rightarrow> bool \<Rightarrow> nat \<Rightarrow> nat \<Rightarrow> nat \<Rightarrow> rt_db \<Rightarrow> (rc \<times> (int \<times> nat option) list \<times> rt_db) option" where
  "ipa3_setup_dflt_rt_tables e ok retain_hdr lan_cons excp_hdr_hdl s =
     (if \<not> ok then Some (Err ENOMEM, [], s)
      else do {
        let rules = Some [\<lparr>ad_rule = dflt_rt_rule retain_hdr lan_cons excp_hdr_hdl, ad_rear = True, ad_rule_id = 0\<rparr>];
        (r4, h4, s1) \<leftarrow> ipa3_add_rt_rule e IPA_IP_v4 (x_dflt_name e) rules True s;
        if r4 \<noteq> OK then Some (Err EPERM, h4, s1)
        else do {
          (r6, h6, s2) \<leftarrow> ipa3_add_rt_rule e IPA_IP_v6 (x_dflt_name e) rules True s1;
          Some (if r6 \<noteq> OK then Err EPERM else OK, h4 @ h6, s2) } })"

end
