(* ===== verification/Ipa_Rt_Refs.thy ===== *)
theory Ipa_Rt_Refs
  imports Ipa_Hdr_Props Ipa_Rt_Ops
begin

text \<open>
  The header tables as the routing tables see them: a store of counted objects on which others
  hold references. The contract is a locale; its interpretation on \<open>ipa_v3/ipa_hdr.c\<close> says that
  what is held stays, whatever the clients of the header tables do with references of their own.
\<close>

section \<open>The contract\<close>

text \<open>\<open>inv R d\<close>: the store is consistent and covers \<open>R p\<close> references of the holder on each object.\<close>

locale ref_store =
  fixes inv :: "('p \<Rightarrow> nat) \<Rightarrow> 'd \<Rightarrow> bool"
    and live :: "'p \<Rightarrow> 'd \<Rightarrow> bool"
    and release :: "'p \<Rightarrow> 'd \<Rightarrow> 'd option"
  assumes held_live: "inv R d \<Longrightarrow> R p \<noteq> 0 \<Longrightarrow> live p d"
    and releases: "inv R d \<Longrightarrow> R p \<noteq> 0 \<Longrightarrow> \<exists>d'. release p d = Some d' \<and> inv (R(p := R p - 1)) d'"
begin

lemma release_keeps:
  assumes "inv R d" "R p \<noteq> 0" "release p d = Some d'" "R q \<noteq> 0" "q \<noteq> p \<or> 1 < R p"
  shows "live q d'"
proof -
  have "inv (R(p := R p - 1)) d'" using releases [OF assms(1,2)] assms(3) by auto
  then show ?thesis using assms(4,5) held_live [of "R(p := R p - 1)" d' q] by auto
qed

fun release_all :: "'p list \<Rightarrow> 'd \<Rightarrow> 'd option" where
  "release_all [] d = Some d"
| "release_all (p # ps) d = do { d' \<leftarrow> release p d; release_all ps d' }"

lemma release_all_ok:
  "inv R d \<Longrightarrow> (\<And>p. count_list ps p \<le> R p) \<Longrightarrow>
   \<exists>d'. release_all ps d = Some d' \<and> inv (\<lambda>p. R p - count_list ps p) d'"
proof (induction ps arbitrary: R d)
  case (Cons p ps)
  have "R p \<noteq> 0" using Cons.prems(2) [of p] by auto
  then obtain d1 where d1: "release p d = Some d1" "inv (R(p := R p - 1)) d1" using releases Cons.prems(1) by blast
  have "count_list ps q \<le> (R(p := R p - 1)) q" for q using Cons.prems(2) [of q] by auto
  from Cons.IH [OF d1(2) this] obtain d' where "release_all ps d1 = Some d'"
    "inv (\<lambda>q. (R(p := R p - 1)) q - count_list ps q) d'" by blast
  moreover have "(\<lambda>q. (R(p := R p - 1)) q - count_list ps q) = (\<lambda>q. R q - count_list (p # ps) q)" by auto
  ultimately show ?case using d1(1) by simp
qed simp

end

section \<open>References held on headers and contexts\<close>

definition held :: "(hdr_ptr \<Rightarrow> nat) \<Rightarrow> hdr_db \<Rightarrow> bool" where
  "held R d \<longleftrightarrow>
     (\<forall>h. R (PHdr h) \<noteq> 0 \<longrightarrow> db_hdr d h \<noteq> None) \<and> (\<forall>c. R (PCtx c) \<noteq> 0 \<longrightarrow> db_ctx d c \<noteq> None) \<and>
     (\<forall>h he. db_hdr d h = Some he \<longrightarrow> card (hdr_users {} d h he) + R (PHdr h) \<le> unat (h_ref he)) \<and>
     (\<forall>c x. db_ctx d c = Some x \<longrightarrow> R (PCtx c) \<le> unat (c_ref x)) \<and>
     (\<forall>h he c. db_hdr d h = Some he \<longrightarrow> h_ctx he = Some c \<longrightarrow> R (PCtx c) = 0)"

lemma heldI:
  assumes "\<And>h. R (PHdr h) \<noteq> 0 \<Longrightarrow> db_hdr d h \<noteq> None" "\<And>c. R (PCtx c) \<noteq> 0 \<Longrightarrow> db_ctx d c \<noteq> None"
    "\<And>h he. db_hdr d h = Some he \<Longrightarrow> card (hdr_users {} d h he) + R (PHdr h) \<le> unat (h_ref he)"
    "\<And>c x. db_ctx d c = Some x \<Longrightarrow> R (PCtx c) \<le> unat (c_ref x)"
    "\<And>h he c. db_hdr d h = Some he \<Longrightarrow> h_ctx he = Some c \<Longrightarrow> R (PCtx c) = 0"
  shows "held R d"
  using assms by (auto simp: held_def)

lemma heldD:
  assumes "held R d"
  shows "R (PHdr h) \<noteq> 0 \<Longrightarrow> db_hdr d h \<noteq> None" "R (PCtx c) \<noteq> 0 \<Longrightarrow> db_ctx d c \<noteq> None"
    "db_hdr d h = Some he \<Longrightarrow> card (hdr_users {} d h he) + R (PHdr h) \<le> unat (h_ref he)"
    "db_ctx d c = Some x \<Longrightarrow> R (PCtx c) \<le> unat (c_ref x)"
    "db_hdr d h = Some he \<Longrightarrow> h_ctx he = Some c \<Longrightarrow> R (PCtx c) = 0"
  using assms by (auto simp: held_def)

text \<open>What a holder may rely on: the handles of other modules and of what it holds.\<close>

definition kept :: "(hdr_ptr \<Rightarrow> nat) \<Rightarrow> hdr_db \<Rightarrow> hdr_db \<Rightarrow> bool" where
  "kept R d d' \<longleftrightarrow> others_kept d d' \<and>
     (\<forall>h. R (PHdr h) \<noteq> 0 \<longrightarrow> map_option h_id (db_hdr d' h) = map_option h_id (db_hdr d h)) \<and>
     (\<forall>c. R (PCtx c) \<noteq> 0 \<longrightarrow> map_option c_id (db_ctx d' c) = map_option c_id (db_ctx d c))"

lemma kept_refl: "kept R d d"
  by (simp add: kept_def others_kept_def)

lemma kept_trans: "kept R d d1 \<Longrightarrow> kept R d1 d2 \<Longrightarrow> kept R d d2"
  by (simp add: kept_def others_kept_def)

lemma kept_mono: "kept R d d' \<Longrightarrow> (\<And>p. R' p \<noteq> 0 \<Longrightarrow> R p \<noteq> 0) \<Longrightarrow> kept R' d d'"
  by (simp add: kept_def)

lemma held_commit:
  assumes f: "commit_frame d d'" and fin: "\<And>h he. finite (hdr_users {} d h he)" and held: "held R d"
  shows "held R d'" "kept R d d'"
proof -
  have c: "db_ctx d' c = Some x' \<Longrightarrow> \<exists>x. db_ctx d c = Some x \<and> c_hdr x' = c_hdr x \<and> c_ref x' = c_ref x" for c x'
    using f unfolding commit_frame_def by fastforce
  have c': "db_ctx d c = Some x \<Longrightarrow> \<exists>x'. db_ctx d' c = Some x' \<and> c_id x' = c_id x" for c x
    using f unfolding commit_frame_def by fastforce
  have u: "hdr_users {} d' h he \<subseteq> hdr_users {} d h he" for h he
    unfolding hdr_users_def using c by fastforce
  have h: "db_hdr d' = db_hdr d" "others_kept d d'" using f by (simp_all add: commit_frame_def others_kept_def)
  show "held R d'"
  proof (rule heldI)
    show "db_hdr d' a \<noteq> None" if "R (PHdr a) \<noteq> 0" for a using heldD(1) [OF held that] by (simp add: h)
    show "db_ctx d' a \<noteq> None" if "R (PCtx a) \<noteq> 0" for a using heldD(2) [OF held that] c' by fastforce
    show "R (PCtx a) \<le> unat (c_ref x)" if "db_ctx d' a = Some x" for a x using c [OF that] heldD(4) [OF held] by fastforce
    show "R (PCtx b) = 0" if "db_hdr d' a = Some he" "h_ctx he = Some b" for a b he using heldD(5) [OF held] that by (simp add: h)
  next
    fix a he assume "db_hdr d' a = Some he"
    then show "card (hdr_users {} d' a he) + R (PHdr a) \<le> unat (h_ref he)"
      using heldD(3) [OF held, of a he] card_mono [OF fin u, of a he] by (simp add: h)
  qed
  show "kept R d d'" unfolding kept_def h(1)
  proof (intro conjI allI impI)
    fix a assume "R (PCtx a) \<noteq> 0"
    then obtain x where "db_ctx d a = Some x" using heldD(2) [OF held] by blast
    then show "map_option c_id (db_ctx d' a) = map_option c_id (db_ctx d a)" using c' by fastforce
  qed (use h(2) in simp_all)
qed

lemma held_same: "db_hdr d' = db_hdr d \<Longrightarrow> db_ctx d' = db_ctx d \<Longrightarrow> held R d' \<longleftrightarrow> held R d"
  by (simp add: held_def hdr_users_def)

section \<open>Somebody gives up a reference\<close>

lemma held_hdr_dropped:
  assumes i: "hdr_inv_in {} Y d" and held: "held R d" and h: "db_hdr d h = Some he" and drop: "hdr_dropped d h he u d'"
    and k: "k \<le> R (PHdr h)" "card (hdr_users {} d h he) + k < unat (h_ref he)"
  shows "held (R(PHdr h := k)) d'" "kept (R(PHdr h := k)) d d'"
proof -
  note hd = heldD [OF held]
  have "held (R(PHdr h := k)) d' \<and> kept (R(PHdr h := k)) d d'"
  proof (cases "h_ref he = 1")
    case False
    then have d': "d' = d\<lparr>db_hdr := (db_hdr d)(h \<mapsto> he\<lparr>h_user_deleted := h_user_deleted he \<or> u, h_ref := h_ref he - 1\<rparr>)\<rparr>"
      using drop by (simp add: hdr_dropped_def)
    have us: "hdr_users {} d' b x = hdr_users {} d b x" for b x by (simp add: d' hdr_users_def)
    have "h_ref he \<noteq> 0" using k(2) by auto
    then have r: "unat (h_ref he - 1) = unat (h_ref he) - 1" by (rule unat_minus_one)
    have us': "hdr_users {} d b (he\<lparr>h_user_deleted := v, h_ref := w\<rparr>) = hdr_users {} d b he" for b v w by (simp add: hdr_users_def)
    have "held (R(PHdr h := k)) d'"
    proof (rule heldI)
      show "card (hdr_users {} d' b x) + (R(PHdr h := k)) (PHdr b) \<le> unat (h_ref x)" if "db_hdr d' b = Some x" for b x
        using that hd(3) [of b x] k r unfolding us by (auto simp: d' us' split: if_splits)
    qed (use hd h k in \<open>auto simp: d' split: if_splits\<close>)
    moreover have "kept (R(PHdr h := k)) d d'" using h by (simp add: kept_def others_kept_def d')
    ultimately show ?thesis ..
  next
    case True
    then have d': "db_hdr d' = (db_hdr d)(h := None)" "others_kept d d'"
        "db_ctx d' = (case h_ctx he of None \<Rightarrow> db_ctx d | Some c \<Rightarrow> (db_ctx d)(c := None))"
      using drop by (simp_all add: hdr_dropped_def)
    have k0: "k = 0" using True k(2) by simp
    have sub: "db_ctx d' c = Some x \<Longrightarrow> db_ctx d c = Some x" for c x by (auto simp: d'(3) split: option.splits if_splits)
    have same: "R (PCtx c) \<noteq> 0 \<Longrightarrow> db_ctx d' c = db_ctx d c" for c using hd(5) [OF h] by (auto simp: d'(3) split: option.splits)
    have us: "card (hdr_users {} d' b x) \<le> card (hdr_users {} d b x)" for b x
      by (rule card_mono [OF hdr_users_finite [OF i]]) (use sub in \<open>fastforce simp: hdr_users_def\<close>)
    have "held (R(PHdr h := k)) d'"
    proof (rule heldI)
      show "card (hdr_users {} d' b x) + (R(PHdr h := k)) (PHdr b) \<le> unat (h_ref x)" if "db_hdr d' b = Some x" for b x
        using that hd(3) [of b x] us [of b x] by (auto simp: d' split: if_splits)
      show "db_ctx d' c \<noteq> None" if "(R(PHdr h := k)) (PCtx c) \<noteq> 0" for c using that hd(2) [of c] same [of c] by simp
    qed (use hd k0 sub in \<open>auto simp: d'(1) split: if_splits\<close>)
    moreover have "kept (R(PHdr h := k)) d d'" using d' k0 same by (simp add: kept_def)
    ultimately show ?thesis ..
  qed
  then show "held (R(PHdr h := k)) d'" "kept (R(PHdr h := k)) d d'" by blast+
qed

lemma held_ctx_dropped:
  assumes i: "hdr_inv d" and held: "held R d" and x: "db_ctx d c = Some x" and drop: "ctx_dropped d c x u d'"
    and k: "k \<le> R (PCtx c)" "k < unat (c_ref x)"
  shows "held (R(PCtx c := k)) d'" "kept (R(PCtx c := k)) d d'"
proof -
  note hd = heldD [OF held]
  have i0: "hdr_inv_in {} {} d" using i by (simp add: hdr_inv_def)
  define x0 where "x0 = x\<lparr>c_user_deleted := c_user_deleted x \<or> u, c_ref := c_ref x - 1\<rparr>"
  define d1 where "d1 = d\<lparr>db_ctx := (db_ctx d)(c \<mapsto> x0)\<rparr>"
  have us1: "hdr_users {} d1 h he = hdr_users {} d h he" for h he using x by (auto simp: hdr_users_def d1_def x0_def)
  have "held (R(PCtx c := k)) d' \<and> kept (R(PCtx c := k)) d d'"
  proof (cases "c_ref x = 1")
    case False
    then have d': "d' = d1" using drop by (simp add: ctx_dropped_def Let_def d1_def x0_def)
    have "c_ref x \<noteq> 0" using k(2) by auto
    then have r: "unat (c_ref x - 1) = unat (c_ref x) - 1" by (rule unat_minus_one)
    have "held (R(PCtx c := k)) d1"
    proof (rule heldI)
      show "card (hdr_users {} d1 b y) + (R(PCtx c := k)) (PHdr b) \<le> unat (h_ref y)" if "db_hdr d1 b = Some y" for b y
        using that hd(3) [of b y] unfolding us1 by (simp add: d1_def)
    qed (use hd k r in \<open>auto simp: d1_def x0_def split: if_splits\<close>)
    moreover have "kept (R(PCtx c := k)) d d1" using x by (simp add: kept_def others_kept_def d1_def x0_def)
    ultimately show ?thesis using d' by simp
  next
    case True
    obtain a h d2 where a: "c_hdr x = Some a" "db_hdr d a = Some h" "h_ctx h \<noteq> Some c" "hdr_dropped d1 a h False d2"
        "db_hdr d' = db_hdr d2" "db_ctx d' = (db_ctx d2)(c := None)" "others_kept d d'"
      using drop True by (auto simp: ctx_dropped_def Let_def d1_def x0_def)
    have k0: "k = 0" using True k(2) by simp
    let ?R = "R(PCtx c := 0)"
    have ca: "c \<in> hdr_users {} d a h" using x a by (auto simp: hdr_users_def)
    note fin = hdr_users_finite [OF i0, of "{}" a h]
    have pos: "card (hdr_users {} d a h) \<noteq> 0" using ca fin by auto
    have sub: "db_ctx d' b = Some y \<Longrightarrow> db_ctx d b = Some y \<and> b \<noteq> c" for b y
      using a(4,6) by (auto simp: hdr_dropped_def d1_def split: option.splits if_splits)
    have users: "hdr_users {} d' b y \<subseteq> hdr_users {} d b y - {c}" for b y using sub by (fastforce simp: hdr_users_def)
    have le: "card (hdr_users {} d' b y) \<le> card (hdr_users {} d b y)" for b y
      by (rule card_mono [OF hdr_users_finite [OF i0]]) (use users in blast)
    have less: "card (hdr_users {} d' a h) \<le> card (hdr_users {} d a h) - 1"
      using card_mono [OF _ users [of a h]] fin ca by simp
    have stay: "?R (PCtx b) \<noteq> 0 \<Longrightarrow> db_ctx d' b = db_ctx d b" for b
      using a(4,6) hd(5) [OF a(2), of b] by (auto simp: hdr_dropped_def d1_def split: option.splits if_splits)
    have hdr: "db_hdr d' b = Some y \<Longrightarrow> b \<noteq> a \<Longrightarrow> db_hdr d b = Some y" for b y
      using a(4,5) by (auto simp: hdr_dropped_def d1_def split: if_splits)
    have ha: "db_hdr d' a = (if h_ref h = 1 then None else Some (h\<lparr>h_user_deleted := h_user_deleted h, h_ref := h_ref h - 1\<rparr>))"
      using a(4,5) by (auto simp: hdr_dropped_def d1_def)
    have other: "b \<noteq> a \<Longrightarrow> db_hdr d' b = db_hdr d b" for b using a(4,5) by (auto simp: hdr_dropped_def d1_def split: if_splits)
    have Ra: "h_ref h = 1 \<Longrightarrow> R (PHdr a) = 0" using hd(3) [OF a(2)] pos by simp
    have ref0: "h_ref h \<noteq> 0" using hd(3) [OF a(2)] pos by auto
    have "held ?R d'"
    proof (rule heldI)
      show "db_hdr d' b \<noteq> None" if "?R (PHdr b) \<noteq> 0" for b
        using that hd(1) [of b] other [of b] ha Ra by (cases "b = a") auto
      show "db_ctx d' b \<noteq> None" if "?R (PCtx b) \<noteq> 0" for b using that hd(2) [of b] stay [of b] by (simp split: if_splits)
      show "?R (PCtx b) \<le> unat (c_ref y)" if "db_ctx d' b = Some y" for b y using hd(4) sub [OF that] by simp
      show "card (hdr_users {} d' b y) + ?R (PHdr b) \<le> unat (h_ref y)" if y: "db_hdr d' b = Some y" for b y
      proof (cases "b = a")
        case True
        then have y': "y = h\<lparr>h_user_deleted := h_user_deleted h, h_ref := h_ref h - 1\<rparr>" using y ha by (auto split: if_splits)
        have "hdr_users {} d' a y = hdr_users {} d' a h" by (simp add: hdr_users_def y')
        then show ?thesis using True hd(3) [OF a(2)] less pos unat_minus_one [OF ref0] by (simp add: y')
      next
        case False
        then show ?thesis using hd(3) [OF hdr [OF y]] le [of b y] by simp
      qed
      show "?R (PCtx b) = 0" if "db_hdr d' h' = Some y" "h_ctx y = Some b" for b h' y
      proof (cases "h' = a")
        case True
        then have "h_ctx h = Some b" using that ha by (auto split: if_splits)
        then show ?thesis using hd(5) [OF a(2)] by simp
      qed (use hd(5) [OF hdr [OF that(1)]] that(2) in auto)
    qed
    moreover have "kept ?R d d'" unfolding kept_def
    proof (intro conjI allI impI a(7))
      fix b assume "?R (PHdr b) \<noteq> 0"
      then show "map_option h_id (db_hdr d' b) = map_option h_id (db_hdr d b)" using other [of b] ha Ra a(2) by (cases "b = a") auto
    qed (use stay in simp)
    ultimately show ?thesis using k0 by simp
  qed
  then show "held (R(PCtx c := k)) d'" "kept (R(PCtx c := k)) d d'" by blast+
qed

section \<open>The holder releases\<close>

lemma held_release_hdr:
  assumes inv: "hdr_inv d" and held: "held R d" and R: "R (PHdr h) \<noteq> 0"
  obtains he r d' where "db_hdr d h = Some he" "ipa3_release_hdr e (h_id he) d = Some (r, d')" "hdr_inv d'"
    "held (R(PHdr h := R (PHdr h) - 1)) d'" "kept (R(PHdr h := R (PHdr h) - 1)) d d'"
proof -
  let ?R = "R(PHdr h := R (PHdr h) - 1)"
  have i: "hdr_inv_in {} {} d" using inv by (simp add: hdr_inv_def)
  obtain he where he: "db_hdr d h = Some he" using heldD(1) [OF held R] by blast
  have spare: "card (hdr_users {} d h he) + (R (PHdr h) - 1) < unat (h_ref he)" using heldD(3) [OF held he] R by simp
  have id: "ipa3_id_find (h_id he) (db_idr d) = Some (PHdr h)" using hdr_inv_inD(6) [OF i he] by (simp add: hdr_shape_def)
  have may: "may_del_hdr {} (h_id he) False d" using he id spare by (auto simp: may_del_hdr_def)
  have "\<exists>d1. del_hdr (h_id he) False d = Some (OK, d1) \<and> hdr_inv d1 \<and> hdr_dropped d h he False d1"
  proof (rule del_hdr_ok [OF i may])
    fix err assume "del_hdr (h_id he) False d = Some (Err err, d)"
    then have False using he handle_of(1) [OF i he] hdr_inv_inD(6) [OF i he]
      by (auto simp: del_hdr_def hdr_drop_def Let_def hdr_shape_def bind_eq_Some_conv split: if_splits)
    then show ?thesis ..
  qed (use he id in \<open>auto simp: hdr_inv_def\<close>)
  then obtain d1 where d1: "del_hdr (h_id he) False d = Some (OK, d1)" "hdr_inv d1" "hdr_dropped d h he False d1" by blast
  note hk = held_hdr_dropped [OF i held he d1(3), of "R (PHdr h) - 1", OF diff_le_self spare]
  show thesis
  proof (rule commit_ok [OF d1(2), of e])
    fix r d2 assume c: "commit_hdr_v3_0 e d1 = Some (r, d2)" "hdr_inv d2" "commit_frame d1 d2"
    have "ipa3_release_hdr e (h_id he) d = Some (if r \<noteq> OK then Err EFAULT else OK, d2)"
      using d1(1) c(1) by (simp add: ipa3_release_hdr_def)
    moreover note held_commit [OF c(3) hdr_users_finite [OF d1(2) [unfolded hdr_inv_def]] hk(1)]
    ultimately show thesis using that [OF he] c(2) kept_trans [OF hk(2)] by blast
  qed
qed

lemma held_release_ctx:
  assumes inv: "hdr_inv d" and held: "held R d" and R: "R (PCtx c) \<noteq> 0"
  obtains x r d' where "db_ctx d c = Some x" "ipa3_release_hdr_proc_ctx e (c_id x) d = Some (r, d')" "hdr_inv d'"
    "held (R(PCtx c := R (PCtx c) - 1)) d'" "kept (R(PCtx c := R (PCtx c) - 1)) d d'"
proof -
  let ?R = "R(PCtx c := R (PCtx c) - 1)"
  have i: "hdr_inv_in {} {} d" using inv by (simp add: hdr_inv_def)
  obtain x where x: "db_ctx d c = Some x" using heldD(2) [OF held R] by blast
  have spare: "R (PCtx c) - 1 < unat (c_ref x)" using heldD(4) [OF held x] R by simp
  have sh: "ipa3_id_find (c_id x) (db_idr d) = Some (PCtx c)" "\<exists>off oe. c_off x = Some off \<and> db_off d off = Some oe"
    using hdr_inv_inD(8) [OF i x] by (auto simp: ctx_shape_def)
  have may: "may_del_ctx (c_id x) d" using sh(1) heldD(5) [OF held] R by (auto simp: may_del_ctx_def)
  have "\<exists>d1. del_hdr_proc_ctx (c_id x) True False d = Some (OK, d1) \<and> hdr_inv d1 \<and> ctx_dropped d c x False d1"
  proof (rule del_ctx_ok [OF inv may, of False])
    fix err assume "del_hdr_proc_ctx (c_id x) True False d = Some (Err err, d)"
    then have False using x handle_of(2) [OF i x] sh(2)
      by (auto simp: del_hdr_proc_ctx_def del_ctx_with_def Let_def bind_eq_Some_conv split: if_splits)
    then show ?thesis ..
  qed (use x sh(1) in auto)
  then obtain d1 where d1: "del_hdr_proc_ctx (c_id x) True False d = Some (OK, d1)" "hdr_inv d1" "ctx_dropped d c x False d1" by blast
  note hk = held_ctx_dropped [OF inv held x d1(3), of "R (PCtx c) - 1", OF diff_le_self spare]
  show thesis
  proof (rule commit_ok [OF d1(2), of e])
    fix r d2 assume c: "commit_hdr_v3_0 e d1 = Some (r, d2)" "hdr_inv d2" "commit_frame d1 d2"
    have "ipa3_release_hdr_proc_ctx e (c_id x) d = Some (if r \<noteq> OK then Err EFAULT else OK, d2)"
      using d1(1) c(1) by (simp add: ipa3_release_hdr_proc_ctx_def)
    moreover note held_commit [OF c(3) hdr_users_finite [OF d1(2) [unfolded hdr_inv_def]] hk(1)]
    ultimately show thesis using that [OF x] c(2) kept_trans [OF hk(2)] by blast
  qed
qed

text \<open>The release that a rule makes: \<open>release_refs\<close> on the header tables.\<close>

definition release_target :: "hdr_env \<Rightarrow> hdr_ptr \<Rightarrow> hdr_db \<Rightarrow> hdr_db option" where
  "release_target e p d =
     (if ipa3_check_idr_if_freed p (db_idr d) then Some d
      else case p of
        PHdr h \<Rightarrow> do { he \<leftarrow> db_hdr d h; (r, d') \<leftarrow> ipa3_release_hdr e (h_id he) d; Some d' }
      | PCtx c \<Rightarrow> do { x \<leftarrow> db_ctx d c; (r, d') \<leftarrow> ipa3_release_hdr_proc_ctx e (c_id x) d; Some d' }
      | POther k b \<Rightarrow> Some d)"

definition store_inv :: "(hdr_ptr \<Rightarrow> nat) \<Rightarrow> hdr_db \<Rightarrow> bool" where
  "store_inv R d \<longleftrightarrow> hdr_inv d \<and> held R d \<and> (\<forall>k b. R (POther k b) = 0)"

definition store_live :: "hdr_ptr \<Rightarrow> hdr_db \<Rightarrow> bool" where
  "store_live p d \<longleftrightarrow> (case p of PHdr h \<Rightarrow> db_hdr d h \<noteq> None | PCtx c \<Rightarrow> db_ctx d c \<noteq> None | POther k b \<Rightarrow> False)"

lemma store_handle:
  assumes "hdr_inv d"
  shows "db_hdr d h = Some he \<Longrightarrow> ipa3_id_find (h_id he) (db_idr d) = Some (PHdr h)"
    "db_ctx d c = Some x \<Longrightarrow> ipa3_id_find (c_id x) (db_idr d) = Some (PCtx c)"
    "db_hdr d h = Some he \<Longrightarrow> hdr_by_handle (h_id he) d = Some (Some h)"
    "db_ctx d c = Some x \<Longrightarrow> ctx_by_handle (c_id x) d = Some (Some c)"
  using hdr_inv_inD(6) [OF assms [unfolded hdr_inv_def], of h he] hdr_inv_inD(8) [OF assms [unfolded hdr_inv_def], of c x]
    handle_of(1) [OF assms [unfolded hdr_inv_def], of h he] handle_of(2) [OF assms [unfolded hdr_inv_def], of c x]
  by (auto simp: hdr_shape_def ctx_shape_def)

lemma live_not_freed: "hdr_inv d \<Longrightarrow> store_live p d \<Longrightarrow> \<not> ipa3_check_idr_if_freed p (db_idr d)"
  by (auto simp: check_idr_if_freed store_live_def dest: store_handle split: hdr_ptr.splits)

lemma store_release:
  assumes inv: "store_inv R d" and R: "R p \<noteq> 0"
  shows "\<exists>d'. release_target e p d = Some d' \<and> store_inv (R(p := R p - 1)) d' \<and> kept (R(p := R p - 1)) d d'"
proof (cases p)
  case (PHdr h)
  note i = inv [unfolded store_inv_def]
  have "\<not> ipa3_check_idr_if_freed p (db_idr d)"
    using live_not_freed [of d p] i heldD(1) [of R d h] R by (auto simp: PHdr store_live_def)
  then show ?thesis using i R PHdr
    by (elim conjE held_release_hdr [of d R h e]) (auto simp: release_target_def store_inv_def)
next
  case (PCtx c)
  note i = inv [unfolded store_inv_def]
  have "\<not> ipa3_check_idr_if_freed p (db_idr d)"
    using live_not_freed [of d p] i heldD(2) [of R d c] R by (auto simp: PCtx store_live_def)
  then show ?thesis using i R PCtx
    by (elim conjE held_release_ctx [of d R c e]) (auto simp: release_target_def store_inv_def)
qed (use assms in \<open>simp add: store_inv_def\<close>)

interpretation hdr_refs: ref_store store_inv store_live "release_target e" for e
proof
  show "store_live p d" if "store_inv R d" "R p \<noteq> 0" for R d p
    using that heldD(1,2) [of R d] by (auto simp: store_inv_def store_live_def split: hdr_ptr.splits)
  show "\<exists>d'. release_target e p d = Some d' \<and> store_inv (R(p := R p - 1)) d'" if "store_inv R d" "R p \<noteq> 0" for R d p
    using store_release [OF that] by blast
qed

section \<open>The holder takes and drops\<close>

text \<open>The handles of other modules do not matter to the store.\<close>

lemma store_idr:
  assumes inv: "store_inv R d"
    and t: "\<And>i p. (case p of POther k b \<Rightarrow> False | _ \<Rightarrow> True) \<Longrightarrow> ipa3_id_find i t = Some p \<longleftrightarrow> ipa3_id_find i (db_idr d) = Some p"
    and o: "\<And>i k b. ipa3_id_find i t = Some (POther k b) \<Longrightarrow> k \<noteq> IPA_HDR_COOKIE \<and> k \<noteq> IPA_PROC_HDR_COOKIE"
  shows "store_inv R (d\<lparr>db_idr := t\<rparr>)"
proof -
  have i: "hdr_inv_in {} {} d" using inv by (simp add: store_inv_def hdr_inv_def)
  note hd = hdr_inv_inD [OF i]
  have h: "ipa3_id_find j t = Some (PHdr a) \<longleftrightarrow> ipa3_id_find j (db_idr d) = Some (PHdr a)"
    "ipa3_id_find j t = Some (PCtx a) \<longleftrightarrow> ipa3_id_find j (db_idr d) = Some (PCtx a)" for j a using t by simp_all
  let ?d = "d\<lparr>db_idr := t\<rparr>"
  have "hdr_inv_in {} {} ?d"
  proof (rule hdr_inv_inI)
    show "idr_inv ?d" unfolding idr_inv_def
    proof (intro allI impI)
      fix j p assume "ipa3_id_find j (db_idr (d\<lparr>db_idr := t\<rparr>)) = Some p"
      then show "case p of PHdr a \<Rightarrow> \<exists>h. db_hdr (d\<lparr>db_idr := t\<rparr>) a = Some h \<and> h_id h = j
              | PCtx c \<Rightarrow> \<exists>x. db_ctx (d\<lparr>db_idr := t\<rparr>) c = Some x \<and> c_id x = j
              | POther k b \<Rightarrow> k \<noteq> IPA_HDR_COOKIE \<and> k \<noteq> IPA_PROC_HDR_COOKIE"
        using hd(1) h o by (cases p) (fastforce simp: idr_inv_def)+
    qed
    show "hdr_shape ?d a he" if "db_hdr ?d a = Some he" for a he
      using hd(6) [of a he] that by (auto simp: hdr_shape_def h split: if_splits)
    show "hdr_counts {} ?d a he" if "db_hdr ?d a = Some he" for a he
      using hd(7) [of a he] that by (simp add: hdr_counts_def hdr_users_def)
    show "ctx_shape ?d c x" if "db_ctx ?d c = Some x" for c x
      using hd(8) [of c x] that by (simp add: ctx_shape_def h)
    show "ctx_counts ?d x" if "db_ctx ?d c = Some x" for c x
      using hd(9) [of c x] that by (simp add: ctx_counts_def)
  qed (use hd in \<open>simp_all add: lists_inv_def fresh_inv_def slots_inv_def own_inv_def\<close>)
  then show ?thesis using inv held_same [of "d\<lparr>db_idr := t\<rparr>" d] by (simp add: store_inv_def hdr_inv_def)
qed

definition ref_room :: "hdr_ptr \<Rightarrow> hdr_db \<Rightarrow> bool" where
  "ref_room p d \<longleftrightarrow> (case p of
      PHdr h \<Rightarrow> \<exists>he. db_hdr d h = Some he \<and> h_ref he \<noteq> -1
    | PCtx c \<Rightarrow> \<exists>x. db_ctx d c = Some x \<and> c_ref x \<noteq> -1 \<and> (\<forall>h he. db_hdr d h = Some he \<longrightarrow> h_ctx he \<noteq> Some c)
    | POther k b \<Rightarrow> False)"

definition take_target :: "hdr_ptr \<Rightarrow> hdr_db \<Rightarrow> hdr_db option" where
  "take_target p d = (case p of PHdr h \<Rightarrow> add_ref h d | PCtx c \<Rightarrow> ctx_ref (\<lambda>n. n + 1) c d | POther k b \<Rightarrow> None)"

definition drop_target :: "hdr_ptr \<Rightarrow> hdr_db \<Rightarrow> hdr_db option" where
  "drop_target p d = (case p of PHdr h \<Rightarrow> drop_ref h d | PCtx c \<Rightarrow> ctx_ref (\<lambda>n. n - 1) c d | POther k b \<Rightarrow> None)"

lemma hdr_users_upd: "hdr_users Y s b (he\<lparr>h_ref := w\<rparr>) = hdr_users Y s b he"
  by (simp add: hdr_users_def)

lemma store_ref_hdr:
  assumes inv: "store_inv R d" and h: "db_hdr d h = Some he"
    and w: "w \<noteq> 0" "card (hdr_users {} d h he) + k \<le> unat w"
  shows "store_inv (R(PHdr h := k)) (d\<lparr>db_hdr := (db_hdr d)(h \<mapsto> he\<lparr>h_ref := w\<rparr>)\<rparr>)"
proof -
  let ?d = "d\<lparr>db_hdr := (db_hdr d)(h \<mapsto> he\<lparr>h_ref := w\<rparr>)\<rparr>"
  have i: "hdr_inv_in {} {} d" and held: "held R d" using inv by (simp_all add: store_inv_def hdr_inv_def)
  have "hdr_counts {} d h (he\<lparr>h_ref := w\<rparr>)" using hdr_inv_inD(7) [OF i h] w by (simp add: hdr_counts_def hdr_users_upd)
  then have "hdr_inv ?d" unfolding hdr_inv_def by (intro upd_hdr_inv [OF i h]) simp_all
  moreover have us: "hdr_users {} ?d b x = hdr_users {} d b x" for b x by (simp add: hdr_users_def)
  have "held (R(PHdr h := k)) ?d"
  proof (rule heldI)
    show "card (hdr_users {} ?d b x) + (R(PHdr h := k)) (PHdr b) \<le> unat (h_ref x)" if "db_hdr ?d b = Some x" for b x
      using that w heldD(3) [OF held, of b x] unfolding us by (auto simp: hdr_users_upd split: if_splits)
  qed (use heldD [OF held] h in \<open>auto split: if_splits\<close>)
  ultimately show ?thesis using inv by (simp add: store_inv_def)
qed

lemma store_ref_ctx:
  assumes inv: "store_inv R d" and x: "db_ctx d c = Some x" and w: "w \<noteq> 0" "k \<le> unat w"
    and own: "\<And>h he. db_hdr d h = Some he \<Longrightarrow> h_ctx he \<noteq> Some c"
  shows "store_inv (R(PCtx c := k)) (d\<lparr>db_ctx := (db_ctx d)(c \<mapsto> x\<lparr>c_ref := w\<rparr>)\<rparr>)"
proof -
  let ?d = "d\<lparr>db_ctx := (db_ctx d)(c \<mapsto> x\<lparr>c_ref := w\<rparr>)\<rparr>"
  have i: "hdr_inv_in {} {} d" and held: "held R d" using inv by (simp_all add: store_inv_def hdr_inv_def)
  have "hdr_inv ?d" unfolding hdr_inv_def by (intro upd_ctx_inv [OF i x]) (use w own in auto)
  moreover have us: "hdr_users {} ?d b y = hdr_users {} d b y" for b y using x by (auto simp: hdr_users_def)
  have "held (R(PCtx c := k)) ?d"
  proof (rule heldI)
    show "card (hdr_users {} ?d b y) + (R(PCtx c := k)) (PHdr b) \<le> unat (h_ref y)" if "db_hdr ?d b = Some y" for b y
      using that heldD(3) [OF held, of b y] unfolding us by simp
  qed (use heldD [OF held] w own in \<open>auto split: if_splits\<close>)
  ultimately show ?thesis using inv by (simp add: store_inv_def)
qed

lemma unat_less_succ: "(w :: u32) \<noteq> -1 \<Longrightarrow> w + 1 \<noteq> 0 \<and> unat (w + 1) = Suc (unat w)"
  using unat_succ [of w] by (metis nat.distinct(1) unat_0)

lemma store_take:
  assumes inv: "store_inv R d" and room: "ref_room p d"
  shows "\<exists>d'. take_target p d = Some d' \<and> store_inv (R(p := R p + 1)) d' \<and> kept (\<lambda>q. 1) d d' \<and>
    db_idr d' = db_idr d \<and> (\<forall>q. ref_room q d \<and> q \<noteq> p \<longrightarrow> ref_room q d')"
proof (cases p)
  case (PHdr h)
  then obtain he where he: "db_hdr d h = Some he" "h_ref he \<noteq> -1" using room by (auto simp: ref_room_def)
  have "card (hdr_users {} d h he) + (R p + 1) \<le> unat (h_ref he + 1)" "h_ref he + 1 \<noteq> 0"
    using heldD(3) [of R d h he] inv he unat_less_succ [OF he(2)] by (auto simp: store_inv_def PHdr)
  from store_ref_hdr [OF inv he(1) this(2,1)] show ?thesis using he
    by (auto simp: take_target_def PHdr add_ref_def kept_def others_kept_def ref_room_def split: hdr_ptr.splits)
next
  case (PCtx c)
  then obtain x where x: "db_ctx d c = Some x" "c_ref x \<noteq> -1" "\<And>h he. db_hdr d h = Some he \<Longrightarrow> h_ctx he \<noteq> Some c"
    using room by (auto simp: ref_room_def)
  have "R p + 1 \<le> unat (c_ref x + 1)" "c_ref x + 1 \<noteq> 0"
    using heldD(4) [of R d c x] inv x unat_less_succ [OF x(2)] by (auto simp: store_inv_def PCtx)
  from store_ref_ctx [OF inv x(1) this(2,1) x(3)] show ?thesis using x
    by (auto simp: take_target_def PCtx ctx_ref_def kept_def others_kept_def ref_room_def split: hdr_ptr.splits)
qed (use room in \<open>simp add: ref_room_def\<close>)

definition ref_count :: "hdr_ptr \<Rightarrow> hdr_db \<Rightarrow> u32" where
  "ref_count p d = (case p of
      PHdr h \<Rightarrow> (case db_hdr d h of None \<Rightarrow> 0 | Some he \<Rightarrow> h_ref he)
    | PCtx c \<Rightarrow> (case db_ctx d c of None \<Rightarrow> 0 | Some x \<Rightarrow> c_ref x)
    | POther k b \<Rightarrow> 0)"

lemma store_drop:
  assumes inv: "store_inv R d" and R: "R p \<noteq> 0" and cnt: "ref_count p d \<noteq> 1"
  shows "\<exists>d'. drop_target p d = Some d' \<and> store_inv (R(p := R p - 1)) d' \<and> kept (\<lambda>q. 1) d d' \<and>
    db_idr d' = db_idr d \<and> (\<forall>q. ref_room q d \<and> q \<noteq> p \<longrightarrow> ref_room q d')"
proof (cases p)
  case (PHdr h)
  obtain he where he: "db_hdr d h = Some he" "h_ref he \<noteq> 1"
    using heldD(1) [of R d h] inv R cnt by (auto simp: store_inv_def PHdr ref_count_def)
  have c: "card (hdr_users {} d h he) + R p \<le> unat (h_ref he)" using heldD(3) [of R d h he] inv he by (simp add: store_inv_def PHdr)
  then have "h_ref he \<noteq> 0" using R by auto
  then have "card (hdr_users {} d h he) + (R p - 1) \<le> unat (h_ref he - 1)" "h_ref he - 1 \<noteq> 0"
    using c R he(2) by (auto simp: unat_minus_one)
  from store_ref_hdr [OF inv he(1) this(2,1)] show ?thesis using he
    by (auto simp: drop_target_def PHdr drop_ref_def kept_def others_kept_def ref_room_def split: hdr_ptr.splits)
next
  case (PCtx c)
  obtain x where x: "db_ctx d c = Some x" "c_ref x \<noteq> 1"
    using heldD(2) [of R d c] inv R cnt by (auto simp: store_inv_def PCtx ref_count_def)
  have own: "\<And>h he. db_hdr d h = Some he \<Longrightarrow> h_ctx he \<noteq> Some c" using heldD(5) [of R d _ _ c] inv R by (auto simp: store_inv_def PCtx)
  have c: "R p \<le> unat (c_ref x)" using heldD(4) [of R d c x] inv x by (simp add: store_inv_def PCtx)
  then have "c_ref x \<noteq> 0" using R by auto
  then have "R p - 1 \<le> unat (c_ref x - 1)" "c_ref x - 1 \<noteq> 0" using c R x(2) by (auto simp: unat_minus_one)
  from store_ref_ctx [OF inv x(1) this(2,1) own] show ?thesis using x
    by (auto simp: drop_target_def PCtx ctx_ref_def kept_def others_kept_def ref_room_def split: hdr_ptr.splits)
qed (use inv R in \<open>simp add: store_inv_def\<close>)

text \<open>References of an optional target, and the move of one from one target to another.\<close>

definition with_opt :: "('p \<Rightarrow> 'd \<Rightarrow> 'd option) \<Rightarrow> 'p option \<Rightarrow> 'd \<Rightarrow> 'd option" where
  "with_opt f op d = (case op of None \<Rightarrow> Some d | Some p \<Rightarrow> f p d)"

definition opt_ref :: "'p option \<Rightarrow> 'p \<Rightarrow> nat" where
  "opt_ref op p = (if op = Some p then 1 else 0)"

lemma drop_take_same:
  "store_live p d \<Longrightarrow> \<exists>d1. drop_target p d = Some d1 \<and> take_target p d1 = Some d"
  by (auto simp: store_live_def drop_target_def take_target_def drop_ref_def add_ref_def ctx_ref_def fun_upd_idem
      split: hdr_ptr.splits)

lemma store_move:
  assumes inv: "store_inv R d" and old: "\<And>p. old = Some p \<Longrightarrow> R p \<noteq> 0 \<and> (ref_count p d \<noteq> 1 \<or> new = old)"
    and new: "\<And>p. new = Some p \<Longrightarrow> ref_room p d \<or> new = old"
  shows "\<exists>d1 d2. with_opt drop_target old d = Some d1 \<and> with_opt take_target new d1 = Some d2 \<and>
    store_inv (\<lambda>p. R p - opt_ref old p + opt_ref new p) d2 \<and> kept (\<lambda>q. 1) d d2 \<and> db_idr d2 = db_idr d"
proof (cases "new = old")
  case True
  have same: "(\<lambda>p. R p - opt_ref old p + opt_ref old p) = R" using old by (auto simp: opt_ref_def)
  have "\<exists>d1. with_opt drop_target old d = Some d1 \<and> with_opt take_target old d1 = Some d"
  proof (cases old)
    case (Some p)
    then have "store_live p d" using hdr_refs.held_live [OF inv] old by blast
    then show ?thesis using drop_take_same by (simp add: with_opt_def Some)
  qed (simp add: with_opt_def)
  then show ?thesis using True inv kept_refl by (auto simp: same)
next
  case False
  define R1 where "R1 = (\<lambda>p. R p - opt_ref old p)"
  have "\<exists>d1. with_opt drop_target old d = Some d1 \<and> store_inv R1 d1 \<and> kept (\<lambda>q. 1) d d1 \<and> db_idr d1 = db_idr d \<and>
      (\<forall>q. ref_room q d \<and> old \<noteq> Some q \<longrightarrow> ref_room q d1)"
  proof (cases old)
    case None
    then have "R1 = R" by (simp add: R1_def opt_ref_def)
    then show ?thesis using inv kept_refl None by (auto simp: with_opt_def)
  next
    case (Some p)
    then have "R1 = R(p := R p - 1)" by (auto simp: R1_def opt_ref_def)
    then show ?thesis using store_drop [OF inv, of p] old [OF Some] False Some by (auto simp: with_opt_def)
  qed
  then obtain d1 where d1: "with_opt drop_target old d = Some d1" "store_inv R1 d1" "kept (\<lambda>q. 1) d d1" "db_idr d1 = db_idr d"
    "\<And>q. ref_room q d \<Longrightarrow> old \<noteq> Some q \<Longrightarrow> ref_room q d1" by blast
  show ?thesis
  proof (cases new)
    case None
    then show ?thesis using d1 by (auto simp: with_opt_def opt_ref_def R1_def)
  next
    case (Some q)
    then have "ref_room q d1" using new [OF Some] False d1(5) by auto
    from store_take [OF d1(2) this] obtain d2 where d2: "take_target q d1 = Some d2" "store_inv (R1(q := R1 q + 1)) d2"
      "kept (\<lambda>q. 1) d1 d2" "db_idr d2 = db_idr d1" by blast
    have R2: "(\<lambda>p. R p - opt_ref old p + opt_ref new p) = R1(q := R1 q + 1)" by (auto simp: R1_def opt_ref_def Some)
    have "kept (\<lambda>q. 1) d d2" by (rule kept_trans [OF d1(3) d2(3)])
    then show ?thesis unfolding R2 using d1 d2 by (simp add: with_opt_def Some)
  qed
qed


section \<open>Others work with the header tables\<close>

text \<open>A caller may give up a reference that neither a context nor the holder relies on.\<close>

definition spare_hdr :: "(hdr_ptr \<Rightarrow> nat) \<Rightarrow> bool \<Rightarrow> nat \<Rightarrow> hdr_db \<Rightarrow> bool" where
  "spare_hdr R by_user hdl d \<longleftrightarrow> may_del_hdr {} hdl by_user d \<and>
     (\<forall>a h. ipa3_id_find hdl (db_idr d) = Some (PHdr a) \<longrightarrow> db_hdr d a = Some h \<longrightarrow>
        by_user \<and> h_user_deleted h \<or> card (hdr_users {} d a h) + R (PHdr a) < unat (h_ref h))"

definition spare_ctx :: "(hdr_ptr \<Rightarrow> nat) \<Rightarrow> bool \<Rightarrow> nat \<Rightarrow> hdr_db \<Rightarrow> bool" where
  "spare_ctx R by_user hdl d \<longleftrightarrow> may_del_ctx hdl d \<and>
     (\<forall>c x. ipa3_id_find hdl (db_idr d) = Some (PCtx c) \<longrightarrow> db_ctx d c = Some x \<longrightarrow>
        by_user \<and> c_user_deleted x \<or> R (PCtx c) < unat (c_ref x))"

locale held_op =
  fixes may :: "(hdr_ptr \<Rightarrow> nat) \<Rightarrow> 'x \<Rightarrow> hdr_db \<Rightarrow> bool" and act :: "'x \<Rightarrow> hdr_db \<Rightarrow> ('r \<times> hdr_db) option"
  assumes keeps: "store_inv R d \<Longrightarrow> may R x d \<Longrightarrow> \<exists>r d'. act x d = Some (r, d') \<and> store_inv R d' \<and> kept R d d'"
begin

lemma each_keeps:
  "store_inv R d \<Longrightarrow> each_may (may R) act xs d \<Longrightarrow> \<exists>rs d'. each_of act xs d = Some (rs, d') \<and> store_inv R d' \<and> kept R d d'"
proof (induction xs arbitrary: d)
  case (Cons x xs)
  then obtain r d1 where d1: "act x d = Some (r, d1)" "store_inv R d1" "kept R d d1" using keeps [of R d x] by auto
  then have "each_may (may R) act xs d1" using Cons.prems(2) by simp
  from Cons.IH [OF d1(2) this] obtain rs d' where d': "each_of act xs d1 = Some (rs, d')" "store_inv R d'" "kept R d1 d'" by blast
  then show ?case using d1 kept_trans [OF d1(3) d'(3)] by simp
qed (simp add: kept_refl)

end

lemma store_invD: "store_inv R d \<Longrightarrow> hdr_inv d \<and> hdr_inv_in {} {} d \<and> held R d"
  by (simp add: store_inv_def hdr_inv_def)

lemma store_commit:
  assumes "store_inv R d"
  shows "\<exists>r d'. commit_hdr_v3_0 e d = Some (r, d') \<and> store_inv R d' \<and> kept R d d'"
proof -
  note i = store_invD [OF assms]
  show ?thesis
  proof (rule commit_ok [of d e])
    fix r d' assume c: "commit_hdr_v3_0 e d = Some (r, d')" "hdr_inv d'" "commit_frame d d'"
    note hk = held_commit [OF c(3) hdr_users_finite [OF conjunct1 [OF conjunct2 [OF i]]] conjunct2 [OF conjunct2 [OF i]]]
    show ?thesis using c assms hk by (simp add: store_inv_def)
  qed (use i in simp)
qed

interpretation held_add_hdr: held_op "\<lambda>R. may_add_hdr" "add_hdr_act e user" for e user
proof
  fix R ha d assume s: "store_inv R d" and m: "may_add_hdr ha d"
  note i = store_invD [OF s] and hd = heldD [OF conjunct2 [OF conjunct2 [OF store_invD [OF s]]]]
  have hi: "hdr_inv d" using i by blast
  show "\<exists>r d'. add_hdr_act e user ha d = Some (r, d') \<and> store_inv R d' \<and> kept R d d'"
  proof (rule add_hdr_ok [OF hi m [unfolded may_add_hdr_def], of e user])
    fix hdl d' assume c: "add_hdr e ha user d = Some (Err EPERM, hdl, d')" "hdr_inv d'" "db_hdr d' = db_hdr d" "db_ctx d' = db_ctx d"
      "\<And>j. ipa3_id_find j (db_idr d') = ipa3_id_find j (db_idr d)"
    then show ?thesis using s held_same [OF c(3,4)]
      by (simp add: add_hdr_act_def store_inv_def kept_def others_kept_def)
  next
    fix a h j d'
    assume c: "add_hdr e ha user d = Some (OK, Some j, d')" "hdr_inv d'" "db_hdr d a = None" "db_hdr d' = (db_hdr d)(a \<mapsto> h)"
      "hdr_holds e ha user h" "hdr_alone d d' a h" "others_kept d d'"
    have Ra: "R (PHdr a) = 0" using hd(1) c(3) by blast
    have own: "db_ctx d = (case h_ctx h of None \<Rightarrow> db_ctx d' | Some b \<Rightarrow> (db_ctx d')(b := None))" "hdr_users {} d' a h = {}"
      using c(6) by (simp_all add: hdr_alone_def)
    have same: "db_ctx d b = Some x \<Longrightarrow> db_ctx d' b = Some x" for b x using own(1) by (auto split: option.splits if_splits)
    have new: "R (PCtx b) \<noteq> 0 \<Longrightarrow> h_ctx h \<noteq> Some b" for b using hd(2) [of b] own(1) by auto
    have us: "hdr_users {} d' b y = hdr_users {} d b y" if y: "db_hdr d b = Some y" for b y
    proof -
      have "c_hdr x = Some a" if "h_ctx h = Some k" "db_ctx d' k = Some x" for k x
        using that hdr_inv_inD(6,7) [OF c(2) [unfolded hdr_inv_def], of a h] c(4)
        by (auto simp: hdr_shape_def hdr_counts_def split: if_splits)
      moreover have "b \<noteq> a" using y c(3) by auto
      ultimately show ?thesis using own(1) by (auto simp: hdr_users_def split: option.splits if_splits)
    qed
    have "held R d'"
    proof (rule heldI)
      show "db_ctx d' b \<noteq> None" if "R (PCtx b) \<noteq> 0" for b using hd(2) [OF that] same by fastforce
      show "db_hdr d' b \<noteq> None" if "R (PHdr b) \<noteq> 0" for b using hd(1) [OF that] by (simp add: c(4))
      show "card (hdr_users {} d' b y) + R (PHdr b) \<le> unat (h_ref y)" if "db_hdr d' b = Some y" for b y
        using that hd(3) [of b y] us [of b y] Ra own(2) by (cases "b = a") (auto simp: c(4))
      show "R (PCtx b) \<le> unat (c_ref x)" if "db_ctx d' b = Some x" for b x
        using hd(4) [of b x] hd(2) [of b] same that by fastforce
      show "R (PCtx b) = 0" if "db_hdr d' k = Some y" "h_ctx y = Some b" for k b y
        using that hd(5) [of k y b] new [of b] by (auto simp: c(4) split: if_splits)
    qed
    moreover have "kept R d d'" unfolding kept_def
    proof (intro conjI allI impI c(7))
      show "map_option c_id (db_ctx d' b) = map_option c_id (db_ctx d b)" if "R (PCtx b) \<noteq> 0" for b
        using hd(2) [OF that] same by fastforce
    qed (use Ra in \<open>auto simp: c(4)\<close>)
    ultimately show ?thesis using c s by (simp add: add_hdr_act_def store_inv_def)
  qed
qed

interpretation held_add_ctx: held_op "\<lambda>R. may_add_ctx" "add_ctx_act e user" for e user
proof
  fix R pa d assume s: "store_inv R d" and m: "may_add_ctx pa d"
  note i = store_invD [OF s]
  have held: "held R d" using i by blast
  note hd = heldD [OF held]
  show "\<exists>r d'. add_ctx_act e user pa d = Some (r, d') \<and> store_inv R d' \<and> kept R d d'"
  proof (rule add_ctx_ok [OF conjunct1 [OF conjunct2 [OF i]], of pa True e user])
    show "if True then a \<notin> {} \<and> h_ref h \<noteq> - 1 else a \<in> {}"
      if "ipa3_id_find (pa_hdl pa) (db_idr d) = Some (PHdr a)" "db_hdr d a = Some h" for a h
      using m that by (auto simp: may_add_ctx_def)
  next
    fix err d' assume c: "add_hdr_proc_ctx e pa True user d = Some (Err err, None, d')" "hdr_inv_in {} {} d'"
      "db_hdr d' = db_hdr d" "db_ctx d' = db_ctx d" "db_idr d' = db_idr d"
    then show ?thesis using s held_same [OF c(3,4)] by (simp add: add_ctx_act_def store_inv_def hdr_inv_def kept_def others_kept_def)
  next
    fix a h b x j d'
    assume c: "add_hdr_proc_ctx e pa True user d = Some (OK, Some j, d')" "hdr_inv_in {} {} d'"
      "ipa3_id_find (pa_hdl pa) (db_idr d) = Some (PHdr a)" "db_hdr d a = Some h" "db_ctx d b = None"
      "db_ctx d' = (db_ctx d)(b \<mapsto> x)" "c_hdr x = Some a" "c_ref x = 1" "c_id x = j"
      "ipa3_id_find j (db_idr d') = Some (PCtx b)" "ipa3_id_find j (db_idr d) = None"
      "\<And>k. k \<noteq> j \<Longrightarrow> ipa3_id_find k (db_idr d') = ipa3_id_find k (db_idr d)"
      "db_hdr d' = (if True then (db_hdr d)(a \<mapsto> h\<lparr>h_ref := h_ref h + 1\<rparr>) else db_hdr d)"
    have h': "db_hdr d' = (db_hdr d)(a \<mapsto> h\<lparr>h_ref := h_ref h + 1\<rparr>)" using c(13) by simp
    have room: "h_ref h \<noteq> -1" using m c(3,4) by (auto simp: may_add_ctx_def)
    have Rb: "R (PCtx b) = 0" using hd(2) c(5) by blast
    have us: "hdr_users {} d' k y \<subseteq> (if k = a then insert b (hdr_users {} d k y) else hdr_users {} d k y)" for k y
      using c(7) by (auto simp: hdr_users_def c(6) split: if_splits)
    have fin: "finite (hdr_users {} d k y)" for k y using hdr_users_finite i by blast
    have "held R d'"
    proof (rule heldI)
      show "card (hdr_users {} d' k y) + R (PHdr k) \<le> unat (h_ref y)" if y: "db_hdr d' k = Some y" for k y
      proof (cases "k = a")
        case True
        then have y': "y = h\<lparr>h_ref := h_ref h + 1\<rparr>" using y by (simp add: h')
        have "card (hdr_users {} d' a y) \<le> card (insert b (hdr_users {} d a y))"
          by (rule card_mono) (use us [of a y] fin in auto)
        also have "hdr_users {} d a y = hdr_users {} d a h" by (simp add: y' hdr_users_def)
        also have "card (insert b (hdr_users {} d a h)) \<le> Suc (card (hdr_users {} d a h))" by (simp add: card_insert_if fin)
        finally show ?thesis using True hd(3) [OF c(4)] unat_less_succ [OF room] y' by simp
      next
        case False
        then show ?thesis using y hd(3) [of k y] card_mono [OF fin, of "hdr_users {} d' k y" k y] us [of k y] by (simp add: h')
      qed
    qed (use hd c(4,8) Rb in \<open>auto simp: h' c(6) split: if_splits\<close>)
    moreover have "kept R d d'" unfolding kept_def others_kept_def
    proof (intro conjI allI impI)
      show "ipa3_id_find k (db_idr d') = Some (POther l q) \<longleftrightarrow> ipa3_id_find k (db_idr d) = Some (POther l q)" for k l q
        using c(10-12) by (cases "k = j") auto
    qed (use c(4) Rb in \<open>auto simp: h' c(6)\<close>)
    ultimately show ?thesis using c s by (simp add: add_ctx_act_def store_inv_def hdr_inv_def)
  qed
qed

lemma fun_upd_le: "(R :: 'a \<Rightarrow> nat) p = k \<Longrightarrow> R(p := k) = R"
  by auto

interpretation held_del_hdr: held_op "\<lambda>R. spare_hdr R by_user" "del_act (\<lambda>hdl. del_hdr hdl by_user)" for by_user
proof
  fix R hdl d assume s: "store_inv R d" and m: "spare_hdr R by_user hdl d"
  note i = store_invD [OF s]
  show "\<exists>r d'. del_act (\<lambda>hdl. del_hdr hdl by_user) hdl d = Some (r, d') \<and> store_inv R d' \<and> kept R d d'"
  proof (rule del_hdr_ok [OF conjunct1 [OF conjunct2 [OF i]], of hdl by_user])
    show "may_del_hdr {} hdl by_user d" using m by (simp add: spare_hdr_def)
  next
    fix err assume "del_hdr hdl by_user d = Some (Err err, d)"
    then show ?thesis using s kept_refl by (simp add: del_act_def)
  next
    fix a h d' assume c: "del_hdr hdl by_user d = Some (OK, d')" "hdr_inv_in {} {} d'" "db_hdr d a = Some h"
      "ipa3_id_find hdl (db_idr d) = Some (PHdr a)" "\<not> (by_user \<and> h_user_deleted h)" "hdr_dropped d a h by_user d'"
    have "card (hdr_users {} d a h) + R (PHdr a) < unat (h_ref h)" using m c(3-5) unfolding spare_hdr_def by blast
    from held_hdr_dropped [OF conjunct1 [OF conjunct2 [OF i]] conjunct2 [OF conjunct2 [OF i]] c(3,6) le_refl this]
    show ?thesis using c s by (simp add: del_act_def store_inv_def hdr_inv_def fun_upd_le)
  qed
qed

interpretation held_del_ctx: held_op "\<lambda>R. spare_ctx R by_user" "del_act (\<lambda>hdl. del_hdr_proc_ctx hdl True by_user)" for by_user
proof
  fix R hdl d assume s: "store_inv R d" and m: "spare_ctx R by_user hdl d"
  note i = store_invD [OF s]
  show "\<exists>r d'. del_act (\<lambda>hdl. del_hdr_proc_ctx hdl True by_user) hdl d = Some (r, d') \<and> store_inv R d' \<and> kept R d d'"
  proof (rule del_ctx_ok [OF conjunct1 [OF i], of hdl by_user])
    show "may_del_ctx hdl d" using m by (simp add: spare_ctx_def)
  next
    fix err assume "del_hdr_proc_ctx hdl True by_user d = Some (Err err, d)"
    then show ?thesis using s kept_refl by (simp add: del_act_def)
  next
    fix b x d' assume c: "del_hdr_proc_ctx hdl True by_user d = Some (OK, d')" "hdr_inv d'" "db_ctx d b = Some x"
      "\<not> (by_user \<and> c_user_deleted x)" "ctx_dropped d b x by_user d'" "ipa3_id_find hdl (db_idr d) = Some (PCtx b)"
    have "R (PCtx b) < unat (c_ref x)" using m c(3,4,6) unfolding spare_ctx_def by blast
    from held_ctx_dropped [OF conjunct1 [OF i] conjunct2 [OF conjunct2 [OF i]] c(3,5) le_refl this]
    show ?thesis using c s by (simp add: del_act_def store_inv_def fun_upd_le)
  qed
qed

fun hdr_spare :: "(hdr_ptr \<Rightarrow> nat) \<Rightarrow> hdr_env \<Rightarrow> hdr_call \<Rightarrow> hdr_db \<Rightarrow> bool" where
  "hdr_spare R e (AddHdrs hs commit user) d = each_may may_add_hdr (add_hdr_act e user) (case hs of None \<Rightarrow> [] | Some l \<Rightarrow> l) d"
| "hdr_spare R e (AddCtxs cs commit user) d = each_may may_add_ctx (add_ctx_act e user) (case cs of None \<Rightarrow> [] | Some l \<Rightarrow> l) d"
| "hdr_spare R e (DelHdrs hs commit by_user) d =
     each_may (spare_hdr R by_user) (del_act (\<lambda>hdl. del_hdr hdl by_user)) (case hs of None \<Rightarrow> [] | Some l \<Rightarrow> l) d"
| "hdr_spare R e (DelCtxs hs commit by_user) d =
     each_may (spare_ctx R by_user) (del_act (\<lambda>hdl. del_hdr_proc_ctx hdl True by_user)) (case hs of None \<Rightarrow> [] | Some l \<Rightarrow> l) d"
| "hdr_spare R e CommitHdr d = True"
| "hdr_spare R e (ReleaseHdr hdl) d = spare_hdr R False hdl d"
| "hdr_spare R e (ReleaseCtx hdl) d = spare_ctx R False hdl d"
| "hdr_spare R e (PutHdr hdl) d = True"

lemma store_batch:
  assumes "\<exists>rs d'. loop = Some (rs, d') \<and> store_inv R d' \<and> kept R d d'"
  shows "\<exists>r d'. forget (do { (rs, d1) \<leftarrow> loop; (r, d2) \<leftarrow> finish_batch e commit d1; Some (r, rs, d2) }) = Some (r, d') \<and>
    store_inv R d' \<and> kept R d d'"
proof -
  obtain rs d1 where d1: "loop = Some (rs, d1)" "store_inv R d1" "kept R d d1" using assms by blast
  obtain r d2 where d2: "commit_hdr_v3_0 e d1 = Some (r, d2)" "store_inv R d2" "kept R d1 d2" using store_commit [OF d1(2)] by blast
  have k: "kept R d d2" by (rule kept_trans [OF d1(3) d2(3)])
  show ?thesis
  proof (cases commit)
    case True
    then show ?thesis using d1(1) d2(1,2) k by (simp add: forget_def finish_batch_def)
  next
    case False
    then show ?thesis using d1 by (simp add: forget_def finish_batch_def)
  qed
qed

lemma store_release_call:
  assumes "\<exists>r d'. del_act del hdl d = Some (r, d') \<and> store_inv R d' \<and> kept R d d'"
  shows "\<exists>r d'. do { (r, d1) \<leftarrow> del hdl d; if r \<noteq> OK then Some (Err EFAULT, d1)
     else do { (r2, d2) \<leftarrow> commit_hdr_v3_0 e d1; Some (if r2 \<noteq> OK then Err EFAULT else OK, d2) } } = Some (r, d') \<and>
     store_inv R d' \<and> kept R d d'"
proof -
  obtain r d1 where d1: "del hdl d = Some (r, d1)" "store_inv R d1" "kept R d d1" using assms by (auto simp: del_act_def bind_eq_Some_conv)
  obtain r2 d2 where d2: "commit_hdr_v3_0 e d1 = Some (r2, d2)" "store_inv R d2" "kept R d1 d2" using store_commit [OF d1(2)] by blast
  show ?thesis using d1 d2(1,2) kept_trans [OF d1(3) d2(3)] by simp
qed

lemma store_call:
  assumes inv: "store_inv R d" and may: "hdr_spare R e c d"
  shows "\<exists>r d'. hdr_run e c d = Some (r, d') \<and> store_inv R d' \<and> kept R d d'"
proof (cases c)
  case (AddHdrs hs commit user)
  then show ?thesis using inv kept_refl may
      store_batch [OF held_add_hdr.each_keeps [OF inv, where xs = "the hs" and e = e and user = user], of e commit]
    by (auto simp: ipa3_add_hdr_usr_def batch_loops forget_def split: option.splits)
next
  case (AddCtxs cs commit user)
  then show ?thesis using inv kept_refl may
      store_batch [OF held_add_ctx.each_keeps [OF inv, where xs = "the cs" and e = e and user = user], of e commit]
    by (auto simp: ipa3_add_hdr_proc_ctx_def batch_loops forget_def split: option.splits)
next
  case (DelHdrs hs commit by_user)
  then show ?thesis using inv kept_refl may
      store_batch [OF held_del_hdr.each_keeps [OF inv, where xs = "the hs" and by_user = by_user], of e commit]
    by (auto simp: ipa3_del_hdr_by_user_def batch_loops forget_def split: option.splits)
next
  case (DelCtxs hs commit by_user)
  then show ?thesis using inv kept_refl may
      store_batch [OF held_del_ctx.each_keeps [OF inv, where xs = "the hs" and by_user = by_user], of e commit]
    by (auto simp: ipa3_del_hdr_proc_ctx_by_user_def batch_loops forget_def split: option.splits)
next
  case CommitHdr
  then show ?thesis using store_commit [OF inv, of e] by (auto simp: ipa3_commit_hdr_def)
next
  case (ReleaseHdr hdl)
  then show ?thesis using store_release_call [OF held_del_hdr.keeps [OF inv, where x = hdl and by_user = False], of e] may
    by (simp add: ipa3_release_hdr_def)
next
  case (ReleaseCtx hdl)
  then show ?thesis using store_release_call [OF held_del_ctx.keeps [OF inv, where x = hdl and by_user = False], of e] may
    by (simp add: ipa3_release_hdr_proc_ctx_def)
next
  case (PutHdr hdl)
  show ?thesis
    by (rule handle_cases [OF conjunct1 [OF conjunct2 [OF store_invD [OF inv]]], of hdl])
       (use inv kept_refl in \<open>simp_all add: PutHdr ipa3_put_hdr_def\<close>)
qed

end
