(* ===== verification/Ipa_Rt_Inv.thy ===== *)
theory Ipa_Rt_Inv
  imports Ipa_Rt_Refs
begin

text \<open>
  The invariant of the routing tables: every rule is in one live table, under its handle, and its
  header or context is held by a reference; every live table has an index of its own between those
  of the applications processor; what is freed is not reachable. Each small change of the state that
  an operation makes keeps it.
\<close>

section \<open>The invariant\<close>

definition target_of :: "rt_entry \<Rightarrow> hdr_ptr option" where
  "target_of x = (case re_hdr x of Some h \<Rightarrow> Some (PHdr h) | None \<Rightarrow> map_option PCtx (re_ctx x))"

text \<open>The references that the rules hold on an object of the header tables.\<close>

definition rule_refs :: "rt_db \<Rightarrow> hdr_ptr \<Rightarrow> nat" where
  "rule_refs s p = card {a. \<exists>x. r_rule s a = Some x \<and> target_of x = Some p}"

definition finds :: "rt_db \<Rightarrow> nat \<Rightarrow> hdr_ptr \<Rightarrow> bool" where
  "finds s j p \<longleftrightarrow> ipa3_id_find j (db_idr (hdb s)) = Some p"

text \<open>The handle in a rule is the one of the object it points to, and it points to one object at most.\<close>

definition target_ok :: "hdr_db \<Rightarrow> rt_entry \<Rightarrow> bool" where
  "target_ok d x \<longleftrightarrow> (re_hdr x = None \<or> re_ctx x = None) \<and>
     (\<forall>h. re_hdr x = Some h \<longrightarrow> map_option h_id (db_hdr d h) = Some (ru_hdr_hdl (re_rule x))) \<and>
     (\<forall>c. re_ctx x = Some c \<longrightarrow> map_option c_id (db_ctx d c) = Some (ru_ctx_hdl (re_rule x)))"

definition rule_ok :: "rt_db \<Rightarrow> nat \<Rightarrow> rt_entry \<Rightarrow> bool" where
  "rule_ok s a x \<longleftrightarrow> re_cookie x = IPA_RT_RULE_COOKIE \<and> finds s (re_id x) (PRule a) \<and>
     (\<exists>ip tb. re_tbl x \<in> set (tbl_list s ip) \<and> r_tbl s (re_tbl x) = Some tb \<and> a \<in> set (rt_rules tb)) \<and>
     0 < re_rule_id x \<and> re_rule_id x < 1023 \<and> 0 \<le> re_prio x \<and> re_prio x \<le> 1023 \<and> target_ok (hdb s) x"

definition tbl_ok :: "rt_env \<Rightarrow> rt_db \<Rightarrow> ip_type \<Rightarrow> nat \<Rightarrow> rt_tbl \<Rightarrow> bool" where
  "tbl_ok e s ip t tb \<longleftrightarrow> rt_cookie tb = IPA_RT_TBL_COOKIE \<and> rt_set tb = ip \<and> rt_rule_ids tb \<and> (\<forall>r. rt_in_sys tb r) \<and>
     finds s (rt_id tb) (PTbl t) \<and> distinct (rt_rules tb) \<and>
     (\<forall>a \<in> set (rt_rules tb). \<exists>x. r_rule s a = Some x \<and> re_tbl x = t) \<and>
     length (rt_rules tb) \<le> unat (rt_rule_cnt tb) \<and> rt_rule_cnt tb \<le> IPA_RULE_CNT_MAX \<and>
     x_apps_lo e ip \<le> rt_idx tb \<and> rt_idx tb \<le> x_apps_hi e ip \<and> bit (rt_idx_bitmap s ip) (rt_idx tb)"

definition handles_ok :: "rt_db \<Rightarrow> bool" where
  "handles_ok s \<longleftrightarrow>
     (\<forall>j a. finds s j (PRule a) \<longrightarrow> (\<exists>x. r_rule s a = Some x \<and> re_id x = j)) \<and>
     (\<forall>j t. finds s j (PTbl t) \<longrightarrow> (\<exists>ip tb. t \<in> set (tbl_list s ip) \<and> r_tbl s t = Some tb \<and> rt_id tb = j))"

text \<open>The lists of live tables and of tables that wait for the hardware to let go of them.\<close>

definition tbls_ok :: "rt_db \<Rightarrow> bool" where
  "tbls_ok s \<longleftrightarrow> tbl_list s IPA_IP_MAX = [] \<and> reap_list s IPA_IP_MAX = [] \<and>
     (\<forall>ip. distinct (tbl_list s ip) \<and> distinct (reap_list s ip) \<and>
        (\<forall>t \<in> set (reap_list s ip). \<exists>tb. r_tbl s t = Some tb \<and> rt_set tb = ip \<and> \<not> rt_rule_ids tb))"

definition idx_ok :: "rt_db \<Rightarrow> bool" where
  "idx_ok s \<longleftrightarrow> (\<forall>ip. \<forall>t \<in> set (tbl_list s ip). \<forall>t' \<in> set (tbl_list s ip). \<forall>tb tb'.
     r_tbl s t = Some tb \<longrightarrow> r_tbl s t' = Some tb' \<longrightarrow> rt_idx tb = rt_idx tb' \<longrightarrow> t = t')"

definition rt_fresh :: "rt_db \<Rightarrow> bool" where
  "rt_fresh s \<longleftrightarrow> (\<forall>a \<ge> r_next s. r_rule s a = None \<and> r_tbl s a = None)"

definition live_tbls_ok :: "rt_env \<Rightarrow> rt_db \<Rightarrow> bool" where
  "live_tbls_ok e s \<longleftrightarrow> (\<forall>ip. \<forall>t \<in> set (tbl_list s ip). \<exists>tb. r_tbl s t = Some tb \<and> tbl_ok e s ip t tb)"

definition rules_ok :: "rt_db \<Rightarrow> bool" where
  "rules_ok s \<longleftrightarrow> (\<forall>a x. r_rule s a = Some x \<longrightarrow> rule_ok s a x)"

text \<open>The indices below those of the applications processor are not given out.\<close>

definition bits_ok :: "rt_env \<Rightarrow> rt_db \<Rightarrow> bool" where
  "bits_ok e s \<longleftrightarrow> (\<forall>ip. ip \<noteq> IPA_IP_MAX \<longrightarrow> (\<forall>i < x_apps_lo e ip. bit (rt_idx_bitmap s ip) i))"

definition rt_inv :: "rt_env \<Rightarrow> rt_db \<Rightarrow> bool" where
  "rt_inv e s \<longleftrightarrow> store_inv (rule_refs s) (hdb s) \<and> rules_ok s \<and> live_tbls_ok e s \<and> handles_ok s \<and> tbls_ok s \<and> idx_ok s \<and>
     rt_fresh s \<and> bits_ok e s"

text \<open>
  The memory map: the indices of the modem are the first ones, those of the applications processor
  follow them, and all tables are in system memory (\<open>_ipa_sram_settings_read_v3_0\<close>).
\<close>

definition good_cfg :: "rt_env \<Rightarrow> bool" where
  "good_cfg e \<longleftrightarrow> (\<forall>ip. ip \<noteq> IPA_IP_MAX \<longrightarrow>
     x_modem_lo e ip = 0 \<and> x_apps_lo e ip = Suc (x_modem_hi e ip) \<and> x_apps_lo e ip \<le> x_apps_hi e ip \<and>
     x_apps_hi e ip < IPA_RT_INDEX_BITMAP_SIZE \<and> (\<forall>r. \<not> x_lcl e ip r))"

lemma rt_invD:
  assumes "rt_inv e s"
  shows "store_inv (rule_refs s) (hdb s)" "r_rule s a = Some x \<Longrightarrow> rule_ok s a x"
    "t \<in> set (tbl_list s ip) \<Longrightarrow> \<exists>tb. r_tbl s t = Some tb \<and> tbl_ok e s ip t tb"
    "finds s j (PRule a) \<Longrightarrow> \<exists>x. r_rule s a = Some x \<and> re_id x = j"
    "finds s j (PTbl t) \<Longrightarrow> \<exists>ip tb. t \<in> set (tbl_list s ip) \<and> r_tbl s t = Some tb \<and> rt_id tb = j"
    "tbls_ok s" "idx_ok s" "rt_fresh s" "bits_ok e s"
  using assms by (auto simp: rt_inv_def rules_ok_def live_tbls_ok_def handles_ok_def)

lemma rt_invI:
  assumes "store_inv (rule_refs s) (hdb s)" "\<And>a x. r_rule s a = Some x \<Longrightarrow> rule_ok s a x"
    "\<And>t ip. t \<in> set (tbl_list s ip) \<Longrightarrow> \<exists>tb. r_tbl s t = Some tb \<and> tbl_ok e s ip t tb"
    "\<And>j a. finds s j (PRule a) \<Longrightarrow> \<exists>x. r_rule s a = Some x \<and> re_id x = j"
    "\<And>j t. finds s j (PTbl t) \<Longrightarrow> \<exists>ip tb. t \<in> set (tbl_list s ip) \<and> r_tbl s t = Some tb \<and> rt_id tb = j"
    "tbls_ok s" "idx_ok s" "rt_fresh s" "bits_ok e s"
  shows "rt_inv e s"
  using assms by (auto simp: rt_inv_def rules_ok_def live_tbls_ok_def handles_ok_def)

lemma rt_cookies [simp]:
  "IPA_RT_RULE_COOKIE \<noteq> IPA_RT_TBL_COOKIE" "IPA_RT_TBL_COOKIE \<noteq> IPA_RT_RULE_COOKIE"
  "IPA_RT_RULE_COOKIE \<noteq> IPA_HDR_COOKIE" "IPA_RT_RULE_COOKIE \<noteq> IPA_PROC_HDR_COOKIE"
  "IPA_RT_TBL_COOKIE \<noteq> IPA_HDR_COOKIE" "IPA_RT_TBL_COOKIE \<noteq> IPA_PROC_HDR_COOKIE"
  "IPA_HDR_COOKIE \<noteq> IPA_RT_RULE_COOKIE" "IPA_PROC_HDR_COOKIE \<noteq> IPA_RT_RULE_COOKIE"
  "IPA_HDR_COOKIE \<noteq> IPA_RT_TBL_COOKIE" "IPA_PROC_HDR_COOKIE \<noteq> IPA_RT_TBL_COOKIE"
  by (simp_all add: IPA_RT_RULE_COOKIE_def IPA_RT_TBL_COOKIE_def IPA_HDR_COOKIE_def IPA_PROC_HDR_COOKIE_def)

section \<open>References\<close>

lemma finite_rules: "rt_fresh s \<Longrightarrow> finite {a. \<exists>x. r_rule s a = Some x \<and> P x}"
  by (rule finite_subset [of _ "{..<r_next s}"]) (force simp: rt_fresh_def not_less [symmetric])+

lemma rule_refs_cong: "r_rule s' = r_rule s \<Longrightarrow> rule_refs s' = rule_refs s"
  by (rule ext) (simp add: rule_refs_def)

lemma rule_refs_add:
  assumes "rt_fresh s" "r_rule s a = None" "r_rule s' = (r_rule s)(a \<mapsto> x)"
  shows "rule_refs s' = (\<lambda>p. rule_refs s p + opt_ref (target_of x) p)"
proof
  fix p
  let ?A = "{b. \<exists>y. r_rule s b = Some y \<and> target_of y = Some p}"
  have "{b. \<exists>y. r_rule s' b = Some y \<and> target_of y = Some p} = (if target_of x = Some p then insert a ?A else ?A)"
    using assms by auto
  moreover have "a \<notin> ?A" "finite ?A" using assms finite_rules by auto
  ultimately show "rule_refs s' p = rule_refs s p + opt_ref (target_of x) p" by (simp add: rule_refs_def opt_ref_def)
qed

lemma rule_refs_rm:
  assumes "rt_fresh s" "r_rule s a = Some x" "r_rule s' = (r_rule s)(a := None)"
  shows "rule_refs s' = (\<lambda>p. rule_refs s p - opt_ref (target_of x) p)"
proof
  fix p
  let ?A = "{b. \<exists>y. r_rule s b = Some y \<and> target_of y = Some p}"
  have "{b. \<exists>y. r_rule s' b = Some y \<and> target_of y = Some p} = ?A - {a}" using assms by auto
  moreover have "a \<in> ?A \<longleftrightarrow> target_of x = Some p" using assms by auto
  moreover have "finite ?A" by (rule finite_rules [OF assms(1)])
  ultimately show "rule_refs s' p = rule_refs s p - opt_ref (target_of x) p" by (auto simp: rule_refs_def opt_ref_def)
qed

lemma rule_refs_upd:
  assumes "rt_fresh s" "r_rule s a = Some x" "r_rule s' = (r_rule s)(a \<mapsto> y)"
  shows "rule_refs s' = (\<lambda>p. rule_refs s p - opt_ref (target_of x) p + opt_ref (target_of y) p)"
proof -
  define s1 where "s1 = s\<lparr>r_rule := (r_rule s)(a := None)\<rparr>"
  have f: "rt_fresh s1" using assms(1) by (simp add: rt_fresh_def s1_def)
  have "rule_refs s' = (\<lambda>p. rule_refs s1 p + opt_ref (target_of y) p)"
    by (rule rule_refs_add [OF f, of a]) (simp_all add: s1_def assms(3))
  moreover have "rule_refs s1 = (\<lambda>p. rule_refs s p - opt_ref (target_of x) p)"
    by (rule rule_refs_rm [OF assms(1,2)]) (simp add: s1_def)
  ultimately show ?thesis by simp
qed

lemma rule_refs_pos: "rt_fresh s \<Longrightarrow> r_rule s a = Some x \<Longrightarrow> target_of x = Some p \<Longrightarrow> rule_refs s p \<noteq> 0"
  using finite_rules [of s "\<lambda>x. target_of x = Some p"] by (auto simp: rule_refs_def)

section \<open>Small changes\<close>

lemma finds_unfold: "finds s' j p = finds s j p" if "db_idr (hdb s') = db_idr (hdb s)"
  by (simp add: finds_def that)

lemma rule_ok_cong:
  assumes "rule_ok s a x" "\<And>j. finds s j (PRule a) \<Longrightarrow> finds s' j (PRule a)" "target_ok (hdb s') x"
    "\<And>ip t tb. t \<in> set (tbl_list s ip) \<Longrightarrow> r_tbl s t = Some tb \<Longrightarrow> a \<in> set (rt_rules tb) \<Longrightarrow>
       t = re_tbl x \<Longrightarrow> \<exists>ip' tb'. t \<in> set (tbl_list s' ip') \<and> r_tbl s' t = Some tb' \<and> a \<in> set (rt_rules tb')"
  shows "rule_ok s' a x"
  using assms unfolding rule_ok_def by blast

lemma tbl_ok_cong:
  assumes "tbl_ok e s ip t tb" "\<And>j. finds s j (PTbl t) \<Longrightarrow> finds s' j (PTbl t)"
    "\<And>a x. a \<in> set (rt_rules tb) \<Longrightarrow> r_rule s a = Some x \<Longrightarrow> re_tbl x = t \<Longrightarrow> \<exists>x'. r_rule s' a = Some x' \<and> re_tbl x' = t"
    "bit (rt_idx_bitmap s ip) (rt_idx tb) \<Longrightarrow> bit (rt_idx_bitmap s' ip) (rt_idx tb)"
  shows "tbl_ok e s' ip t tb"
  using assms unfolding tbl_ok_def by metis

lemma target_ok_kept:
  assumes "target_ok d x" "kept R d d'" "\<And>p. target_of x = Some p \<Longrightarrow> R p \<noteq> 0"
  shows "target_ok d' x"
  using assms by (cases "re_hdr x"; cases "re_ctx x") (auto simp: target_ok_def target_of_def kept_def simp del: map_option_eq_Some)

text \<open>Fields that the invariant does not see.\<close>

lemma rt_inv_frame:
  assumes inv: "rt_inv e s" and same: "hdb s' = hdb s" "r_rule s' = r_rule s" "r_tbl s' = r_tbl s" "tbl_list s' = tbl_list s"
    "reap_list s' = reap_list s"
    and bits: "\<And>ip i. bit (rt_idx_bitmap s ip) i \<Longrightarrow> bit (rt_idx_bitmap s' ip) i" and nxt: "r_next s \<le> r_next s'"
  shows "rt_inv e s'"
proof (rule rt_invI)
  note d = rt_invD [OF inv]
  have f: "finds s' j p = finds s j p" for j p by (simp add: finds_def same)
  show "store_inv (rule_refs s') (hdb s')" using d(1) same rule_refs_cong [OF same(2)] by simp
  show "rule_ok s' a x" if "r_rule s' a = Some x" for a x
    using d(2) [of a x] that by (simp add: same rule_ok_def f)
  show "\<exists>tb. r_tbl s' t = Some tb \<and> tbl_ok e s' ip t tb" if "t \<in> set (tbl_list s' ip)" for t ip
    using d(3) [of t ip] that bits by (auto simp: same tbl_ok_def f)
  show "bits_ok e s'" using d(9) bits by (simp add: bits_ok_def)
  show "rt_fresh s'" using d(8) nxt by (auto simp: rt_fresh_def same)
qed (use rt_invD [OF inv] in \<open>simp_all add: same finds_def tbls_ok_def idx_ok_def\<close>)

lemma rt_inv_hdb:
  assumes inv: "rt_inv e s" and st: "store_inv (rule_refs s) d" and kept: "kept (rule_refs s) (hdb s) d"
  shows "rt_inv e (s\<lparr>hdb := d\<rparr>)"
proof (rule rt_invI)
  let ?s = "s\<lparr>hdb := d\<rparr>"
  note i = rt_invD [OF inv]
  have f: "finds ?s j (POther k b) = finds s j (POther k b)" for j k b
    using kept by (simp add: kept_def others_kept_def finds_def)
  show "store_inv (rule_refs ?s) (hdb ?s)" using st rule_refs_cong [of ?s s] by simp
  show "rule_ok ?s a x" if "r_rule ?s a = Some x" for a x
  proof -
    have x: "r_rule s a = Some x" "rule_ok s a x" using that i(2) by simp_all
    have "target_ok d x" using x(2) rule_refs_pos [OF i(8) x(1)]
      by (intro target_ok_kept [OF _ kept]) (simp_all add: rule_ok_def)
    then show ?thesis using x(2) f by (simp add: rule_ok_def)
  qed
  show "\<exists>tb. r_tbl ?s t = Some tb \<and> tbl_ok e ?s ip t tb" if "t \<in> set (tbl_list ?s ip)" for t ip
    using i(3) [of t ip] that by (simp add: tbl_ok_def f)
qed (use rt_invD [OF inv] kept in \<open>simp_all add: kept_def others_kept_def finds_def tbls_ok_def idx_ok_def rt_fresh_def bits_ok_def\<close>)

lemma rt_inv_tbl_upd:
  assumes inv: "rt_inv e s" and tb: "r_tbl s t = Some tb"
    and same: "rt_cookie tb' = rt_cookie tb" "rt_rules tb' = rt_rules tb" "rt_idx tb' = rt_idx tb" "rt_set tb' = rt_set tb"
      "rt_in_sys tb' = rt_in_sys tb" "rt_id tb' = rt_id tb" "rt_rule_ids tb' = rt_rule_ids tb"
    and cnt: "length (rt_rules tb) \<le> unat (rt_rule_cnt tb) \<Longrightarrow> rt_rule_cnt tb \<le> IPA_RULE_CNT_MAX \<Longrightarrow>
      length (rt_rules tb) \<le> unat (rt_rule_cnt tb') \<and> rt_rule_cnt tb' \<le> IPA_RULE_CNT_MAX"
  shows "rt_inv e (s\<lparr>r_tbl := (r_tbl s)(t \<mapsto> tb')\<rparr>)"
proof (rule rt_invI)
  let ?s = "s\<lparr>r_tbl := (r_tbl s)(t \<mapsto> tb')\<rparr>"
  note i = rt_invD [OF inv]
  have f: "finds ?s j p = finds s j p" for j p by (simp add: finds_def)
  show "store_inv (rule_refs ?s) (hdb ?s)" using i(1) rule_refs_cong [of ?s s] by simp
  show "rule_ok ?s a x" if "r_rule ?s a = Some x" for a x
    by (rule rule_ok_cong [OF i(2) [of a x]]) (use that i(2) [of a x] tb same(2) in \<open>auto simp: f rule_ok_def\<close>)
  show "\<exists>tb. r_tbl ?s u = Some tb \<and> tbl_ok e ?s ip u tb" if u: "u \<in> set (tbl_list ?s ip)" for u ip
  proof (cases "u = t")
    case True
    then have "tbl_ok e s ip t tb" using i(3) [of t ip] u tb by auto
    then show ?thesis using True same cnt by (auto simp: tbl_ok_def f)
  next
    case False
    then show ?thesis using i(3) [of u ip] u by (simp add: tbl_ok_def f)
  qed
  show "\<exists>ip tb. u \<in> set (tbl_list ?s ip) \<and> r_tbl ?s u = Some tb \<and> rt_id tb = j" if "finds ?s j (PTbl u)" for j u
    using i(5) [of j u] that tb same(6) by (auto simp: f)
  show "tbls_ok ?s" using i(6) tb same by (fastforce simp: tbls_ok_def)
  show "idx_ok ?s" using i(7) tb same(3) by (auto simp: idx_ok_def)
  show "rt_fresh ?s" using i(8) tb by (auto simp: rt_fresh_def)
qed (use rt_invD [OF inv] in \<open>auto simp: finds_def bits_ok_def\<close>)

text \<open>A change of a rule and, with it, of its target.\<close>

lemma rt_inv_rule_upd:
  assumes inv: "rt_inv e s" and x: "r_rule s a = Some x"
    and same: "re_cookie x' = re_cookie x" "re_tbl x' = re_tbl x" "re_id x' = re_id x" "re_rule_id x' = re_rule_id x"
      "0 \<le> re_prio x'" "re_prio x' \<le> 1023"
    and st: "store_inv (\<lambda>p. rule_refs s p - opt_ref (target_of x) p + opt_ref (target_of x') p) d" "kept (\<lambda>p. 1) (hdb s) d" "target_ok d x'"
  shows "rt_inv e (s\<lparr>r_rule := (r_rule s)(a \<mapsto> x'), hdb := d\<rparr>)"
proof (rule rt_invI)
  let ?s = "s\<lparr>r_rule := (r_rule s)(a \<mapsto> x'), hdb := d\<rparr>"
  note i = rt_invD [OF inv]
  have f: "finds ?s j (POther k b) = finds s j (POther k b)" for j k b
    using st(2) by (simp add: kept_def others_kept_def finds_def)
  show "store_inv (rule_refs ?s) (hdb ?s)" using st(1) rule_refs_upd [OF i(8) x, of ?s x'] by simp
  show "rule_ok ?s b y" if "r_rule ?s b = Some y" for b y
  proof (cases "b = a")
    case True
    then have y: "y = x'" using that by simp
    show ?thesis unfolding y True using i(2) [OF x] same st(3) by (simp add: rule_ok_def f)
  next
    case False
    then have y: "rule_ok s b y" using that i(2) by simp
    have "target_ok d y" by (rule target_ok_kept [OF _ st(2)]) (use y in \<open>simp_all add: rule_ok_def\<close>)
    then show ?thesis using y by (simp add: rule_ok_def f)
  qed
  show "\<exists>tb. r_tbl ?s t = Some tb \<and> tbl_ok e ?s ip t tb" if "t \<in> set (tbl_list ?s ip)" for t ip
  proof -
    obtain tb where tb: "r_tbl s t = Some tb" "tbl_ok e s ip t tb" using i(3) [of t ip] \<open>t \<in> set (tbl_list ?s ip)\<close> by auto
    have "tbl_ok e ?s ip t tb" by (rule tbl_ok_cong [OF tb(2)]) (use x same(2) in \<open>auto simp: f\<close>)
    then show ?thesis using tb(1) by simp
  qed
  show "\<exists>y. r_rule ?s b = Some y \<and> re_id y = j" if "finds ?s j (PRule b)" for j b
    using i(4) [of j b] that x same(3) by (auto simp: f)
  show "rt_fresh ?s" using i(8) x by (auto simp: rt_fresh_def)
qed (use rt_invD [OF inv] st(2) in \<open>auto simp: kept_def others_kept_def finds_def tbls_ok_def idx_ok_def bits_ok_def\<close>)

lemma rt_inv_rule_note:
  assumes inv: "rt_inv e s" and x: "r_rule s a = Some x"
    and same: "re_cookie x' = re_cookie x" "re_tbl x' = re_tbl x" "re_id x' = re_id x" "re_rule_id x' = re_rule_id x"
      "0 \<le> re_prio x'" "re_prio x' \<le> 1023" "re_hdr x' = re_hdr x" "re_ctx x' = re_ctx x" "re_rule x' = re_rule x"
  shows "rt_inv e (s\<lparr>r_rule := (r_rule s)(a \<mapsto> x')\<rparr>)"
proof -
  note i = rt_invD [OF inv]
  have t: "target_of x' = target_of x" by (cases "re_hdr x") (simp_all add: target_of_def same)
  have "rule_refs s p - opt_ref (target_of x) p + opt_ref (target_of x') p = rule_refs s p" for p
    using rule_refs_pos [OF i(8) x] by (auto simp: t opt_ref_def)
  moreover have "target_ok (hdb s) x'" using i(2) [OF x] same by (simp add: rule_ok_def target_ok_def)
  ultimately have "rt_inv e (s\<lparr>r_rule := (r_rule s)(a \<mapsto> x'), hdb := hdb s\<rparr>)"
    using i(1) same by (intro rt_inv_rule_upd [OF inv x]) (simp_all add: kept_refl)
  then show ?thesis by simp
qed

section \<open>Handles of rules and tables\<close>

lemma store_put:
  assumes "store_inv R d" "idr_put (POther k b) (db_idr d) = (i, t)" "k \<noteq> IPA_HDR_COOKIE" "k \<noteq> IPA_PROC_HDR_COOKIE"
  shows "store_inv R (d\<lparr>db_idr := t\<rparr>)"
proof (rule store_idr [OF assms(1)])
  note p = idr.find_alloc [OF assms(2)] idr.alloc_fresh [OF assms(2)]
  have "idr_inv d" using hdr_inv_inD(1) store_invD [OF assms(1)] by blast
  then show "l \<noteq> IPA_HDR_COOKIE \<and> l \<noteq> IPA_PROC_HDR_COOKIE" if "ipa3_id_find j t = Some (POther l c)" for j l c
    using that assms(3,4) by (fastforce simp: p idr_inv_def split: if_splits)
  show "ipa3_id_find j t = Some q \<longleftrightarrow> ipa3_id_find j (db_idr d) = Some q" if "case q of POther k b \<Rightarrow> False | _ \<Rightarrow> True" for j q
    using that p by auto
qed

lemma store_unput:
  assumes "store_inv R d" "ipa3_id_find i (db_idr d) = Some (POther k b)"
  shows "store_inv R (d\<lparr>db_idr := ipa3_id_remove i (db_idr d)\<rparr>)"
proof (rule store_idr [OF assms(1)])
  have "idr_inv d" using hdr_inv_inD(1) store_invD [OF assms(1)] by blast
  then show "l \<noteq> IPA_HDR_COOKIE \<and> l \<noteq> IPA_PROC_HDR_COOKIE" if "ipa3_id_find j (ipa3_id_remove i (db_idr d)) = Some (POther l c)" for j l c
    using that by (fastforce simp: id_find_remove idr_inv_def split: if_splits)
  show "ipa3_id_find j (ipa3_id_remove i (db_idr d)) = Some q \<longleftrightarrow> ipa3_id_find j (db_idr d) = Some q"
    if "case q of POther k b \<Rightarrow> False | _ \<Rightarrow> True" for j q
    using that assms(2) by (auto simp: id_find_remove)
qed

lemma finds_fun: "finds s j p \<Longrightarrow> finds s j q \<Longrightarrow> p = q"
  by (simp add: finds_def)

section \<open>Rules come and go\<close>

definition link_rule :: "nat \<Rightarrow> rt_entry \<Rightarrow> nat \<Rightarrow> rt_tbl \<Rightarrow> nat list \<Rightarrow> hdr_ptr idr \<Rightarrow> hdr_db \<Rightarrow> rt_db \<Rightarrow> rt_db" where
  "link_rule a x t tb rs i d s =
     s\<lparr>hdb := d\<lparr>db_idr := i\<rparr>, r_rule := (r_rule s)(a \<mapsto> x),
       r_tbl := (r_tbl s)(t \<mapsto> tb\<lparr>rt_rules := rs, rt_rule_cnt := rt_rule_cnt tb + 1\<rparr>)\<rparr>"

lemma link_rule_inv:
  assumes inv: "rt_inv e s" and t: "t \<in> set (tbl_list s ip)" "r_tbl s t = Some tb" and room: "rt_rule_cnt tb < IPA_RULE_CNT_MAX"
    and new: "r_rule s a = None" "a < r_next s"
    and rs: "set rs = insert a (set (rt_rules tb))" "distinct rs" "length rs = Suc (length (rt_rules tb))"
    and x: "re_cookie x = IPA_RT_RULE_COOKIE" "re_tbl x = t" "re_id x = i" "0 < re_rule_id x" "re_rule_id x < 1023"
      "0 \<le> re_prio x" "re_prio x \<le> 1023" "target_ok d x"
    and st: "store_inv (\<lambda>p. rule_refs s p + opt_ref (target_of x) p) d" "kept (\<lambda>p. 1) (hdb s) d" "db_idr d = db_idr (hdb s)"
    and i: "idr_put (PRule a) (db_idr (hdb s)) = (i, i')"
  shows "rt_inv e (link_rule a x t tb rs i' d s)"
proof -
  define S where "S = link_rule a x t tb rs i' d s"
  have "rt_inv e S"
  proof (rule rt_invI)
  let ?tb = "tb\<lparr>rt_rules := rs, rt_rule_cnt := rt_rule_cnt tb + 1\<rparr>"
  note v = rt_invD [OF inv] and p = idr.find_alloc [OF i] idr.alloc_fresh [OF i]
  have s: "hdb S = d\<lparr>db_idr := i'\<rparr>" "r_rule S = (r_rule s)(a \<mapsto> x)" "r_tbl S = (r_tbl s)(t \<mapsto> ?tb)" "tbl_list S = tbl_list s"
    "reap_list S = reap_list s" "rt_idx_bitmap S = rt_idx_bitmap s" "r_next S = r_next s" by (simp_all add: S_def link_rule_def)
  have f: "finds S j q \<longleftrightarrow> (if j = i then q = PRule a else finds s j q)" for j q by (auto simp: finds_def s p)
  have free: "\<not> finds s i q" for q using p(2) by (simp add: finds_def)
  have tok: "tbl_ok e s ip t tb" using v(3) [OF t(1)] t(2) by auto
  have nm: "rt_rule_cnt tb \<noteq> -1" using room by (auto simp: IPA_RULE_CNT_MAX_def)
  have c: "unat (rt_rule_cnt tb + 1) = Suc (unat (rt_rule_cnt tb))" "rt_rule_cnt tb + 1 \<le> IPA_RULE_CNT_MAX"
    using room unat_less_succ [OF nm] by (auto simp: word_le_nat_alt word_less_nat_alt IPA_RULE_CNT_MAX_def)
  have "store_inv (\<lambda>p. rule_refs s p + opt_ref (target_of x) p) (d\<lparr>db_idr := i'\<rparr>)"
    by (rule store_put [OF st(1) i [folded st(3)]]) simp_all
  then show "store_inv (rule_refs S) (hdb S)" using rule_refs_add [OF v(8) new(1) s(2)] by (simp add: s)
  show "rule_ok S b y" if y: "r_rule S b = Some y" for b y
  proof (cases "b = a")
    case True
    then have "y = x" using y by (simp add: s)
    moreover have "rule_ok S a x" using x(1,4-7) rs(1) t unfolding rule_ok_def f x(2,3) target_ok_def s
      by (intro conjI exI [of _ ip] exI [of _ ?tb]) (use x(8) in \<open>auto simp: target_ok_def\<close>)
    ultimately show ?thesis using True by simp
  next
    case False
    then have y': "rule_ok s b y" using y v(2) by (simp add: s)
    have "target_ok d y" by (rule target_ok_kept [OF _ st(2)]) (use y' in \<open>simp_all add: rule_ok_def\<close>)
    then show ?thesis
      by (intro rule_ok_cong [OF y']) (use free rs(1) t(2) in \<open>auto simp: f s target_ok_def\<close>)
  qed
  show "\<exists>tb. r_tbl S u = Some tb \<and> tbl_ok e S ip' u tb" if u: "u \<in> set (tbl_list S ip')" for u ip'
  proof -
    obtain ub where ub: "r_tbl s u = Some ub" "tbl_ok e s ip' u ub" using v(3) [of u ip'] u by (auto simp: s)
    have ok: "tbl_ok e S ip' u ub"
      by (rule tbl_ok_cong [OF ub(2)]) (use x(2) new(1) free in \<open>auto simp: f s\<close>)
    show ?thesis
    proof (cases "u = t")
      case True
      then show ?thesis using ok ub t(2) rs c x(2) by (auto simp: tbl_ok_def s)
    qed (use ok ub(1) in \<open>simp add: s\<close>)
  qed
  show "\<exists>y. r_rule S b = Some y \<and> re_id y = j" if "finds S j (PRule b)" for j b
    using v(4) [of j b] that x(3) new(1) by (auto simp: f s split: if_splits)
  show "\<exists>ip tb. u \<in> set (tbl_list S ip) \<and> r_tbl S u = Some tb \<and> rt_id tb = j" if "finds S j (PTbl u)" for j u
    using v(5) [of j u] that t(2) by (auto simp: f s split: if_splits)
  show "tbls_ok S" using v(6) t(2) by (fastforce simp: tbls_ok_def s)
  show "idx_ok S" using v(7) t(2) by (auto simp: idx_ok_def s)
  show "rt_fresh S" using v(8) t(2) new(2) by (auto simp: rt_fresh_def s)
  show "bits_ok e S" using v(9) by (simp add: bits_ok_def s)
  qed
  then show ?thesis by (simp add: S_def)
qed

definition unlink_rule :: "nat \<Rightarrow> rt_entry \<Rightarrow> rt_tbl \<Rightarrow> hdr_db \<Rightarrow> rt_db \<Rightarrow> rt_db" where
  "unlink_rule a x tb d s =
     s\<lparr>hdb := d\<lparr>db_idr := ipa3_id_remove (re_id x) (db_idr d)\<rparr>, r_rule := (r_rule s)(a := None),
       r_tbl := (r_tbl s)(re_tbl x \<mapsto> tb\<lparr>rt_rules := remove1 a (rt_rules tb), rt_rule_cnt := rt_rule_cnt tb - 1\<rparr>)\<rparr>"

lemma unlink_rule_inv:
  assumes inv: "rt_inv e s" and x: "r_rule s a = Some x" and tb: "r_tbl s (re_tbl x) = Some tb"
    and st: "store_inv (\<lambda>p. rule_refs s p - opt_ref (target_of x) p) d" "kept (\<lambda>p. rule_refs s p - opt_ref (target_of x) p) (hdb s) d"
  shows "rt_inv e (unlink_rule a x tb d s)"
proof -
  define S where "S = unlink_rule a x tb d s"
  have "rt_inv e S"
  proof (rule rt_invI)
  let ?tb = "tb\<lparr>rt_rules := remove1 a (rt_rules tb), rt_rule_cnt := rt_rule_cnt tb - 1\<rparr>"
  note v = rt_invD [OF inv]
  have s: "hdb S = d\<lparr>db_idr := ipa3_id_remove (re_id x) (db_idr d)\<rparr>" "r_rule S = (r_rule s)(a := None)"
    "r_tbl S = (r_tbl s)(re_tbl x \<mapsto> ?tb)" "tbl_list S = tbl_list s"
    "reap_list S = reap_list s" "rt_idx_bitmap S = rt_idx_bitmap s" "r_next S = r_next s" by (simp_all add: S_def unlink_rule_def)
  have R: "rule_refs S = (\<lambda>p. rule_refs s p - opt_ref (target_of x) p)" by (rule rule_refs_rm [OF v(8) x s(2)])
  have fr: "rt_fresh S" using v(8) tb by (auto simp: rt_fresh_def s)
  note okx = v(2) [OF x, unfolded rule_ok_def]
  have f: "finds S j (POther k b) \<longleftrightarrow> j \<noteq> re_id x \<and> finds s j (POther k b)" for j k b
    using st(2) by (auto simp: finds_def s id_find_remove kept_def others_kept_def)
  have own: "b = a" if "finds s (re_id x) (POther k b)" for k b using finds_fun [OF that] okx by blast
  have keep: "finds S j (PTbl u)" if "finds s j (PTbl u)" for j u
    using that finds_fun [of s j "PTbl u" "PRule a"] okx by (auto simp: f)
  obtain ip where t: "re_tbl x \<in> set (tbl_list s ip)" "a \<in> set (rt_rules tb)" using okx tb by auto
  have tok: "tbl_ok e s ip (re_tbl x) tb" using v(3) [OF t(1)] tb by auto
  have "rt_rule_cnt tb \<noteq> 0" using tok t(2) by (auto simp: tbl_ok_def dest: length_pos_if_in_set)
  then have c: "unat (rt_rule_cnt tb - 1) = unat (rt_rule_cnt tb) - 1" by (rule unat_minus_one)
  have len: "length (remove1 a (rt_rules tb)) = length (rt_rules tb) - 1" using t(2) by (simp add: length_remove1)
  have "ipa3_id_find (re_id x) (db_idr d) = Some (PRule a)" using okx st(2) by (simp add: finds_def kept_def others_kept_def)
  from store_unput [OF st(1) this] show "store_inv (rule_refs S) (hdb S)" by (simp add: R s)
  show "rule_ok S b y" if y: "r_rule S b = Some y" for b y
  proof -
    have b: "b \<noteq> a" "rule_ok s b y" using y v(2) by (auto simp: s split: if_splits)
    have "target_ok d y"
      by (rule target_ok_kept [OF _ st(2)]) (use b rule_refs_pos [OF fr y] in \<open>simp_all add: rule_ok_def R\<close>)
    then show ?thesis using b(1) own tb
      by (intro rule_ok_cong [OF b(2)]) (auto simp: f s target_ok_def)
  qed
  show "\<exists>tb. r_tbl S u = Some tb \<and> tbl_ok e S ip' u tb" if u: "u \<in> set (tbl_list S ip')" for u ip'
  proof -
    obtain ub where ub: "r_tbl s u = Some ub" "tbl_ok e s ip' u ub" using v(3) [of u ip'] u by (auto simp: s)
    show ?thesis
    proof (cases "u = re_tbl x")
      case True
      then have "ub = tb" using ub(1) tb by simp
      then have t: "tbl_ok e s ip' (re_tbl x) tb" using ub(2) True by simp
      have "finds S (rt_id tb) (PTbl (re_tbl x))" using t keep by (simp add: tbl_ok_def)
      moreover have "rt_rule_cnt tb - 1 \<le> IPA_RULE_CNT_MAX" using t c unfolding tbl_ok_def word_le_nat_alt by linarith
      ultimately have "tbl_ok e S ip' (re_tbl x) ?tb" using t c len by (auto simp: tbl_ok_def s)
      then show ?thesis using True by (simp add: s)
    next
      case False
      have "tbl_ok e S ip' u ub"
        by (rule tbl_ok_cong [OF ub(2)]) (use False x keep in \<open>auto simp: s\<close>)
      then show ?thesis using False ub(1) by (simp add: s)
    qed
  qed
  show "\<exists>y. r_rule S b = Some y \<and> re_id y = j" if "finds S j (PRule b)" for j b
    using v(4) [of j b] that x by (auto simp: f s)
  show "\<exists>ip tb. u \<in> set (tbl_list S ip) \<and> r_tbl S u = Some tb \<and> rt_id tb = j" if "finds S j (PTbl u)" for j u
    using v(5) [of j u] that tb by (auto simp: f s)
  show "tbls_ok S" using v(6) tb by (fastforce simp: tbls_ok_def s)
  show "idx_ok S" using v(7) tb by (auto simp: idx_ok_def s)
  show "rt_fresh S" by (rule fr)
  show "bits_ok e S" using v(9) by (simp add: bits_ok_def s)
  qed
  then show ?thesis by (simp add: S_def)
qed

section \<open>Tables come and go\<close>

lemma reaped_tbl: "tbls_ok s \<Longrightarrow> t \<in> set (reap_list s ip) \<Longrightarrow> \<exists>tb. r_tbl s t = Some tb \<and> rt_set tb = ip \<and> \<not> rt_rule_ids tb"
  by (simp add: tbls_ok_def)

lemma link_tbl_inv:
  assumes inv: "rt_inv e s" and ip: "ip \<noteq> IPA_IP_MAX" and new: "r_tbl s t = None" "r_rule s t = None"
    and nxt: "r_next s \<le> r_next S" "t < r_next S"
    and tb: "rt_cookie tb = IPA_RT_TBL_COOKIE" "rt_set tb = ip" "rt_rule_ids tb" "\<And>r. rt_in_sys tb r" "rt_rules tb = []"
      "rt_rule_cnt tb = 0" "x_apps_lo e ip \<le> rt_idx tb" "rt_idx tb \<le> x_apps_hi e ip" "rt_id tb = i"
    and bits: "\<And>ip' j. bit (rt_idx_bitmap S ip') j \<longleftrightarrow> bit (rt_idx_bitmap s ip') j \<or> ip' = ip \<and> j = rt_idx tb"
    and idx: "\<not> bit (rt_idx_bitmap s ip) (rt_idx tb)"
    and i: "idr_put (PTbl t) (db_idr (hdb s)) = (i, i')"
    and s: "hdb S = (hdb s)\<lparr>db_idr := i'\<rparr>" "r_rule S = r_rule s" "r_tbl S = (r_tbl s)(t \<mapsto> tb)"
      "tbl_list S = (tbl_list s)(ip := t # tbl_list s ip)" "reap_list S = reap_list s"
  shows "rt_inv e S"
proof (rule rt_invI)
  note v = rt_invD [OF inv] and p = idr.find_alloc [OF i] idr.alloc_fresh [OF i]
  have f: "finds S j q \<longleftrightarrow> (if j = i then q = PTbl t else finds s j q)" for j q by (auto simp: finds_def s p)
  have free: "\<not> finds s i q" for q using p(2) by (simp add: finds_def)
  have notin: "t \<notin> set (tbl_list s ip')" "t \<notin> set (reap_list s ip')" for ip'
    using v(3) [of t ip'] reaped_tbl [OF v(6), of t ip'] new(1) by auto
  have "store_inv (rule_refs s) (hdb s\<lparr>db_idr := i'\<rparr>)" by (rule store_put [OF v(1) i]) simp_all
  then show "store_inv (rule_refs S) (hdb S)" using rule_refs_cong [OF s(2)] by (simp add: s)
  show "rule_ok S a x" if "r_rule S a = Some x" for a x
  proof (rule rule_ok_cong [OF v(2) [of a x]])
    show "r_rule s a = Some x" using that by (simp add: s)
    then show "target_ok (hdb S) x" using v(2) by (simp add: rule_ok_def s target_ok_def)
  next
    fix ip' u ub assume "u \<in> set (tbl_list s ip')" "r_tbl s u = Some ub" "a \<in> set (rt_rules ub)"
    then show "\<exists>ip' tb'. u \<in> set (tbl_list S ip') \<and> r_tbl S u = Some tb' \<and> a \<in> set (rt_rules tb')"
      using new(1) by (intro exI [of _ ip']) (auto simp: s)
  qed (use free in \<open>auto simp: f\<close>)
  show "\<exists>tb. r_tbl S u = Some tb \<and> tbl_ok e S ip' u tb" if u: "u \<in> set (tbl_list S ip')" for u ip'
  proof (cases "u = t")
    case True
    then have "ip' = ip" using u notin(1) by (auto simp: s split: if_splits)
    then show ?thesis using True tb bits by (auto simp: tbl_ok_def s f)
  next
    case False
    then have "u \<in> set (tbl_list s ip')" using u by (auto simp: s split: if_splits)
    then obtain ub where ub: "r_tbl s u = Some ub" "tbl_ok e s ip' u ub" using v(3) by blast
    have "tbl_ok e S ip' u ub" by (rule tbl_ok_cong [OF ub(2)]) (use free bits in \<open>auto simp: f s\<close>)
    then show ?thesis using ub(1) False by (simp add: s)
  qed
  show "\<exists>x. r_rule S a = Some x \<and> re_id x = j" if "finds S j (PRule a)" for j a
    using v(4) [of j a] that by (auto simp: f s split: if_splits)
  show "\<exists>ip tb. u \<in> set (tbl_list S ip) \<and> r_tbl S u = Some tb \<and> rt_id tb = j" if fu: "finds S j (PTbl u)" for j u
  proof (cases "j = i")
    case True
    then show ?thesis using fu tb(9) by (auto simp: f s)
  next
    case False
    then obtain ip' ub where "u \<in> set (tbl_list s ip')" "r_tbl s u = Some ub" "rt_id ub = j" using v(5) [of j u] fu by (auto simp: f)
    then show ?thesis using new(1) by (intro exI [of _ ip'] exI [of _ ub]) (auto simp: s)
  qed
  show "tbls_ok S" using v(6) notin ip new(1) by (fastforce simp: tbls_ok_def s)
  have used: "rt_idx ub \<noteq> rt_idx tb" if "u \<in> set (tbl_list s ip)" "r_tbl s u = Some ub" for u ub
    using v(3) [OF that(1)] that(2) idx by (auto simp: tbl_ok_def)
  show "idx_ok S" unfolding idx_ok_def
  proof (intro allI ballI impI)
    fix ip' u u' ub ub'
    assume u: "u \<in> set (tbl_list S ip')" "u' \<in> set (tbl_list S ip')" "r_tbl S u = Some ub" "r_tbl S u' = Some ub'" "rt_idx ub = rt_idx ub'"
    have old: "w \<in> set (tbl_list s ip') \<and> r_tbl s w = Some wb" if "w \<in> set (tbl_list S ip')" "w \<noteq> t" "r_tbl S w = Some wb" for w wb
      using that by (auto simp: s split: if_splits)
    show "u = u'"
    proof (rule ccontr)
      assume ne: "u \<noteq> u'"
      have new: "ip' = ip \<and> wb = tb" if "t \<in> set (tbl_list S ip')" "r_tbl S t = Some wb" for wb
        using that notin(1) by (auto simp: s split: if_splits)
      consider "u = t" "u' \<noteq> t" | "u \<noteq> t" "u' = t" | "u \<noteq> t" "u' \<noteq> t" using ne by blast
      then show False
      proof cases
        case 1
        then show ?thesis using old [OF u(2) 1(2) u(4)] new [of ub] u(1,3,5) used [of u' ub'] by auto
      next
        case 2
        then show ?thesis using old [OF u(1) 2(1) u(3)] new [of ub'] u(2,4,5) used [of u ub] by auto
      next
        case 3
        then show ?thesis using v(7) old [OF u(1) 3(1) u(3)] old [OF u(2) 3(2) u(4)] u(5) ne unfolding idx_ok_def by blast
      qed
    qed
  qed
  show "rt_fresh S" using v(8) nxt by (auto simp: rt_fresh_def s)
  show "bits_ok e S" using v(9) bits by (auto simp: bits_ok_def)
qed

lemma drop_tbl_inv:
  assumes inv: "rt_inv e s" and t: "t \<in> set (tbl_list s ip)" "r_tbl s t = Some tb" "rt_rules tb = []"
  shows "rt_inv e (rt_id_remove (rt_id tb) (drop_tbl ip t tb s))"
proof -
  define S where "S = rt_id_remove (rt_id tb) (drop_tbl ip t tb s)"
  note v = rt_invD [OF inv]
  have tok: "tbl_ok e s ip t tb" using v(3) [OF t(1)] t(2) by auto
  have ip: "ip \<noteq> IPA_IP_MAX" using v(6) t(1) by (auto simp: tbls_ok_def)
  have in_list: "ip' = ip" if "t \<in> set (tbl_list s ip')" for ip' using v(3) [OF that] t(2) tok by (auto simp: tbl_ok_def)
  have reap: "t \<notin> set (reap_list s ip')" for ip' using reaped_tbl [OF v(6), of t ip'] t(2) tok by (auto simp: tbl_ok_def)
  have s: "hdb S = (hdb s)\<lparr>db_idr := ipa3_id_remove (rt_id tb) (db_idr (hdb s))\<rparr>" "r_rule S = r_rule s"
    "r_tbl S = (r_tbl s)(t \<mapsto> tb\<lparr>rt_rule_ids := False\<rparr>)" "tbl_list S = (\<lambda>ip. remove1 t (tbl_list s ip))"
    "reap_list S = (reap_list s)(ip := t # reap_list s ip)" "r_next S = r_next s"
    "rt_idx_bitmap S = (rt_idx_bitmap s)(ip := rt_idx_bitmap s ip AND NOT (bit_of (rt_idx tb)))"
    using tok reap by (auto simp: S_def rt_id_remove_def drop_tbl_def Let_def clear_idx_def unlink_tbl_def upd_hdb_def tbl_ok_def remove1_idem)
  have own: "p = PTbl t" if "finds s (rt_id tb) p" for p using finds_fun [OF that] tok by (simp add: tbl_ok_def)
  have f: "finds S j p \<longleftrightarrow> j \<noteq> rt_id tb \<and> finds s j p" for j p by (simp add: finds_def s id_find_remove)
  have mem: "u \<in> set (tbl_list S ip') \<longleftrightarrow> u \<noteq> t \<and> u \<in> set (tbl_list s ip')" for u ip'
    using v(6) by (auto simp: s tbls_ok_def)
  have "rt_inv e S"
  proof (rule rt_invI)
    have "store_inv (rule_refs s) (hdb s\<lparr>db_idr := ipa3_id_remove (rt_id tb) (db_idr (hdb s))\<rparr>)"
      by (rule store_unput [OF v(1)]) (use tok in \<open>simp add: tbl_ok_def finds_def\<close>)
    then show "store_inv (rule_refs S) (hdb S)" using rule_refs_cong [OF s(2)] by (simp add: s)
    show "rule_ok S a x" if "r_rule S a = Some x" for a x
    proof (rule rule_ok_cong [OF v(2) [of a x]])
      show "r_rule s a = Some x" using that by (simp add: s)
      then show "target_ok (hdb S) x" using v(2) by (simp add: rule_ok_def s target_ok_def)
    next
      fix ip' u ub assume u: "u \<in> set (tbl_list s ip')" "r_tbl s u = Some ub" "a \<in> set (rt_rules ub)"
      then have "u \<noteq> t" using t by auto
      then show "\<exists>ip' tb'. u \<in> set (tbl_list S ip') \<and> r_tbl S u = Some tb' \<and> a \<in> set (rt_rules tb')"
        using u by (intro exI [of _ ip'] exI [of _ ub]) (simp add: mem s(3))
    qed (use own in \<open>force simp: f\<close>)+
    show "\<exists>tb. r_tbl S u = Some tb \<and> tbl_ok e S ip' u tb" if "u \<in> set (tbl_list S ip')" for u ip'
    proof -
      have u: "u \<noteq> t" "u \<in> set (tbl_list s ip')" using that by (simp_all add: mem)
      then obtain ub where ub: "r_tbl s u = Some ub" "tbl_ok e s ip' u ub" using v(3) by blast
      have "rt_idx ub \<noteq> rt_idx tb" if "ip' = ip" using v(7) u ub(1) t that unfolding idx_ok_def by blast
      then have "tbl_ok e S ip' u ub"
        by (intro tbl_ok_cong [OF ub(2)]) (use own u(1) in \<open>force simp: f s bit_clear_mask\<close>)+
      then show ?thesis using ub(1) u(1) by (simp add: s)
    qed
    show "\<exists>x. r_rule S a = Some x \<and> re_id x = j" if "finds S j (PRule a)" for j a
      using v(4) [of j a] that by (auto simp: f s)
    show "\<exists>ip tb. u \<in> set (tbl_list S ip) \<and> r_tbl S u = Some tb \<and> rt_id tb = j" if fu: "finds S j (PTbl u)" for j u
    proof -
      obtain ip' ub where u: "u \<in> set (tbl_list s ip')" "r_tbl s u = Some ub" "rt_id ub = j" using v(5) [of j u] fu by (auto simp: f)
      moreover have "u \<noteq> t" using u(2,3) t(2) fu by (auto simp: f)
      ultimately show ?thesis by (intro exI [of _ ip'] exI [of _ ub]) (simp add: mem s(3))
    qed
    show "tbls_ok S" using v(6) ip reap t(2) tok by (fastforce simp: tbls_ok_def s tbl_ok_def)
    show "idx_ok S" unfolding idx_ok_def
    proof (intro allI ballI impI)
      fix ip' u u' ub ub'
      assume u: "u \<in> set (tbl_list S ip')" "u' \<in> set (tbl_list S ip')" "r_tbl S u = Some ub" "r_tbl S u' = Some ub'" "rt_idx ub = rt_idx ub'"
      then have "u \<in> set (tbl_list s ip')" "u' \<in> set (tbl_list s ip')" "r_tbl s u = Some ub" "r_tbl s u' = Some ub'"
        by (simp_all add: mem s(3))
      then show "u = u'" using v(7) u(5) unfolding idx_ok_def by blast
    qed
    show "rt_fresh S" using v(8) t(2) by (auto simp: rt_fresh_def s)
    show "bits_ok e S" using v(9) tok by (auto simp: bits_ok_def s bit_clear_mask tbl_ok_def)
  qed
  then show ?thesis by (simp add: S_def)
qed

section \<open>Lookups\<close>

lemma rt_hdr_inv: "rt_inv e s \<Longrightarrow> hdr_inv_in {} {} (hdb s)"
  using rt_invD(1) store_invD by blast

lemma rule_lookup:
  assumes inv: "rt_inv e s"
  obtains (none) "rule_by_handle hdl s = Some None" "\<And>a. \<not> finds s hdl (PRule a)"
  | (found) a x where "rule_by_handle hdl s = Some (Some a)" "r_rule s a = Some x" "re_id x = hdl" "finds s hdl (PRule a)"
proof -
  note v = rt_invD [OF inv] and h = hdr_inv_inD [OF rt_hdr_inv [OF inv]]
  show thesis
  proof (cases "ipa3_id_find hdl (db_idr (hdb s))")
    case None
    then show thesis by (intro none) (simp_all add: rule_by_handle_def finds_def)
  next
    case (Some p)
    show thesis
    proof (cases p)
      case (PHdr a)
      then obtain y where y: "db_hdr (hdb s) a = Some y" using h(1) Some by (fastforce simp: idr_inv_def)
      then have "h_cookie y = IPA_HDR_COOKIE" using h(6) by (simp add: hdr_shape_def)
      then show thesis using y Some PHdr by (intro none) (simp_all add: rule_by_handle_def rt_cookie_of_def cookie_of_def finds_def)
    next
      case (PCtx a)
      then obtain y where y: "db_ctx (hdb s) a = Some y" using h(1) Some by (fastforce simp: idr_inv_def)
      then have "c_cookie y = IPA_PROC_HDR_COOKIE" using h(8) by (simp add: ctx_shape_def)
      then show thesis using y Some PCtx by (intro none) (simp_all add: rule_by_handle_def rt_cookie_of_def cookie_of_def finds_def)
    next
      case (POther k a)
      then have f: "finds s hdl (POther k a)" using Some by (simp add: finds_def)
      consider "k = IPA_RT_RULE_COOKIE" | "k = IPA_RT_TBL_COOKIE" | "k \<noteq> IPA_RT_RULE_COOKIE" "k \<noteq> IPA_RT_TBL_COOKIE" by blast
      then show thesis
      proof cases
        case 1
        then obtain x where x: "r_rule s a = Some x" "re_id x = hdl" using v(4) f by blast
        then have "re_cookie x = IPA_RT_RULE_COOKIE" using v(2) by (simp add: rule_ok_def)
        then show thesis using x Some POther 1 f by (intro found [of a x]) (simp_all add: rule_by_handle_def rt_cookie_of_def)
      next
        case 2
        then obtain ip tb where tb: "a \<in> set (tbl_list s ip)" "r_tbl s a = Some tb" using v(5) f by blast
        then have "rt_cookie tb = IPA_RT_TBL_COOKIE" using v(3) [OF tb(1)] by (auto simp: tbl_ok_def)
        then show thesis using tb(2) Some POther 2 by (intro none) (simp_all add: rule_by_handle_def rt_cookie_of_def finds_def)
      next
        case 3
        then show thesis using Some POther by (intro none) (auto simp: rule_by_handle_def rt_cookie_of_def finds_def)
      qed
    qed
  qed
qed

lemma tbl_lookup:
  assumes inv: "rt_inv e s"
  obtains (none) "tbl_by_handle hdl s = Some None"
  | (found) t ip tb where "tbl_by_handle hdl s = Some (Some t)" "t \<in> set (tbl_list s ip)" "r_tbl s t = Some tb" "rt_id tb = hdl"
proof -
  note v = rt_invD [OF inv] and h = hdr_inv_inD [OF rt_hdr_inv [OF inv]]
  show thesis
  proof (cases "ipa3_id_find hdl (db_idr (hdb s))")
    case None
    then show thesis by (intro none) (simp add: tbl_by_handle_def)
  next
    case (Some p)
    show thesis
    proof (cases p)
      case (PHdr a)
      then obtain y where y: "db_hdr (hdb s) a = Some y" using h(1) Some by (fastforce simp: idr_inv_def)
      then have "h_cookie y = IPA_HDR_COOKIE" using h(6) by (simp add: hdr_shape_def)
      then show thesis using y Some PHdr by (intro none) (simp add: tbl_by_handle_def rt_cookie_of_def cookie_of_def)
    next
      case (PCtx a)
      then obtain y where y: "db_ctx (hdb s) a = Some y" using h(1) Some by (fastforce simp: idr_inv_def)
      then have "c_cookie y = IPA_PROC_HDR_COOKIE" using h(8) by (simp add: ctx_shape_def)
      then show thesis using y Some PCtx by (intro none) (simp add: tbl_by_handle_def rt_cookie_of_def cookie_of_def)
    next
      case (POther k a)
      then have f: "finds s hdl (POther k a)" using Some by (simp add: finds_def)
      consider "k = IPA_RT_RULE_COOKIE" | "k = IPA_RT_TBL_COOKIE" | "k \<noteq> IPA_RT_RULE_COOKIE" "k \<noteq> IPA_RT_TBL_COOKIE" by blast
      then show thesis
      proof cases
        case 1
        then obtain x where x: "r_rule s a = Some x" using v(4) f by blast
        then have "re_cookie x = IPA_RT_RULE_COOKIE" using v(2) by (simp add: rule_ok_def)
        then show thesis using x Some POther 1 by (intro none) (simp add: tbl_by_handle_def rt_cookie_of_def)
      next
        case 2
        then obtain ip tb where tb: "a \<in> set (tbl_list s ip)" "r_tbl s a = Some tb" "rt_id tb = hdl" using v(5) f by blast
        then have "rt_cookie tb = IPA_RT_TBL_COOKIE" using v(3) [OF tb(1)] by (auto simp: tbl_ok_def)
        then show thesis using tb Some POther 2 by (intro found [of a ip tb]) (simp_all add: tbl_by_handle_def rt_cookie_of_def)
      next
        case 3
        then show thesis using Some POther by (intro none) (auto simp: tbl_by_handle_def rt_cookie_of_def)
      qed
    qed
  qed
qed

lemma find_tbl_ok:
  assumes inv: "rt_inv e s" and ts: "set ts \<subseteq> set (tbl_list s ip)"
  shows "\<exists>r. find_tbl name ts s = Some r \<and>
    (case r of None \<Rightarrow> \<forall>t \<in> set ts. map_option rt_name (r_tbl s t) \<noteq> Some name
     | Some t \<Rightarrow> t \<in> set ts \<and> map_option rt_name (r_tbl s t) = Some name)"
  using ts
proof (induction ts)
  case (Cons t ts)
  obtain tb where tb: "r_tbl s t = Some tb" "tbl_ok e s ip t tb" using rt_invD(3) [OF inv, of t ip] Cons.prems by auto
  then have "\<not> rt_freed (PTbl t) s" by (auto simp: rt_freed_def check_idr_if_freed tbl_ok_def finds_def)
  then show ?case using Cons tb(1) by (auto split: option.splits)
qed simp

lemma find_rt_tbl_ok:
  assumes inv: "rt_inv e s"
  obtains (none) "ipa3_find_rt_tbl e ip name s = Some None"
    "length name < e_name_max (x_hdr e) \<Longrightarrow> \<forall>t \<in> set (tbl_list s ip). map_option rt_name (r_tbl s t) \<noteq> Some name"
  | (found) t tb where "ipa3_find_rt_tbl e ip name s = Some (Some t)" "t \<in> set (tbl_list s ip)" "r_tbl s t = Some tb" "rt_name tb = name"
      "tbl_ok e s ip t tb"
proof -
  obtain r where r: "find_tbl name (tbl_list s ip) s = Some r"
    "case r of None \<Rightarrow> \<forall>t \<in> set (tbl_list s ip). map_option rt_name (r_tbl s t) \<noteq> Some name
     | Some t \<Rightarrow> t \<in> set (tbl_list s ip) \<and> map_option rt_name (r_tbl s t) = Some name"
    using find_tbl_ok [OF inv subset_refl] by blast
  show thesis
  proof (cases "length name < e_name_max (x_hdr e)")
    case False
    then show thesis by (intro none) (simp_all add: ipa3_find_rt_tbl_def)
  next
    case True
    then have eq: "ipa3_find_rt_tbl e ip name s = Some r" using r(1) by (simp add: ipa3_find_rt_tbl_def)
    show thesis
    proof (cases r)
      case None
      then show thesis using eq r(2) by (intro none) simp_all
    next
      case (Some t)
      then have t: "t \<in> set (tbl_list s ip)" "map_option rt_name (r_tbl s t) = Some name" using r(2) by simp_all
      obtain tb where "r_tbl s t = Some tb" "tbl_ok e s ip t tb" using rt_invD(3) [OF inv t(1)] by blast
      then show thesis using eq Some t by (intro found [of t tb]) simp_all
    qed
  qed
qed

text \<open>The object a rule is to point to.\<close>

definition named_target :: "rt_rule \<Rightarrow> rt_db \<Rightarrow> hdr_ptr option" where
  "named_target r s =
     (if ru_hdr_hdl r \<noteq> 0 then ipa3_id_find (ru_hdr_hdl r) (db_idr (hdb s))
      else if ru_ctx_hdl r \<noteq> 0 then ipa3_id_find (ru_ctx_hdl r) (db_idr (hdb s)) else None)"

definition rule_bad :: "rt_env \<Rightarrow> rt_rule \<Rightarrow> bool" where
  "rule_bad e r \<longleftrightarrow> \<not> x_hw_v4_5 e \<and> (ru_coalesce r \<or> ru_enable_stats r) \<or>
     x_hw_v4_5 e \<and> ru_enable_stats r \<and> ru_cnt_idx r \<noteq> 0 \<and> (\<not> ru_cnt_idx r \<le> x_cnt_max e \<or> \<not> x_used_hw e (ru_cnt_idx r - 1))"

lemma validate_eq:
  "rt_validate_hndls e r s =
     (if ru_hdr_hdl r \<noteq> 0 \<and> ru_ctx_hdl r \<noteq> 0 then Some None
      else do {
        h \<leftarrow> (if ru_hdr_hdl r \<noteq> 0 then hdr_by_handle (ru_hdr_hdl r) (hdb s) else Some None);
        c \<leftarrow> (if ru_hdr_hdl r = 0 \<and> ru_ctx_hdl r \<noteq> 0 then ctx_by_handle (ru_ctx_hdl r) (hdb s) else Some None);
        if (ru_hdr_hdl r \<noteq> 0 \<and> h = None \<or> ru_hdr_hdl r = 0 \<and> ru_ctx_hdl r \<noteq> 0 \<and> c = None) \<or> rule_bad e r then Some None
        else Some (Some (h, c)) })"
proof -
  have *: "(if \<not> x_hw_v4_5 e \<and> ru_coalesce r then Some None
        else if x_hw_v4_5 e then
          if ru_enable_stats r \<and> ru_cnt_idx r \<noteq> 0 \<and> (\<not> ru_cnt_idx r \<le> x_cnt_max e \<or> \<not> x_used_hw e (ru_cnt_idx r - 1))
          then Some None else Some (Some hc)
        else if ru_enable_stats r then Some None else Some (Some hc)) = (if rule_bad e r then Some None else Some (Some hc))" for hc :: "nat option \<times> nat option"
    by (auto simp: rule_bad_def)
  show ?thesis unfolding rt_validate_hndls_def * by (simp split: Option.bind_split)
qed

lemma validate_ok:
  assumes inv: "rt_inv e s"
  obtains (refused) "rt_validate_hndls e r s = Some None"
  | (valid) h c where "rt_validate_hndls e r s = Some (Some (h, c))" "h = None \<or> c = None"
      "\<And>a. h = Some a \<Longrightarrow> named_target r s = Some (PHdr a) \<and> map_option h_id (db_hdr (hdb s) a) = Some (ru_hdr_hdl r)"
      "\<And>a. c = Some a \<Longrightarrow> named_target r s = Some (PCtx a) \<and> map_option c_id (db_ctx (hdb s) a) = Some (ru_ctx_hdl r)"
      "h = None \<Longrightarrow> ru_hdr_hdl r = 0" "c = None \<Longrightarrow> ru_ctx_hdl r = 0"
proof -
  note hc = handle_cases [OF rt_hdr_inv [OF inv]]
  have hd: "hdr_by_handle j (hdb s) = Some None \<or> (\<exists>a. hdr_by_handle j (hdb s) = Some (Some a) \<and>
      ipa3_id_find j (db_idr (hdb s)) = Some (PHdr a) \<and> map_option h_id (db_hdr (hdb s) a) = Some j)" for j
    by (rule hc [of j]) auto
  have cx: "ctx_by_handle j (hdb s) = Some None \<or> (\<exists>a. ctx_by_handle j (hdb s) = Some (Some a) \<and>
      ipa3_id_find j (db_idr (hdb s)) = Some (PCtx a) \<and> map_option c_id (db_ctx (hdb s) a) = Some j)" for j
    by (rule hc [of j]) auto
  consider "ru_hdr_hdl r \<noteq> 0" "ru_ctx_hdl r \<noteq> 0" | "ru_hdr_hdl r \<noteq> 0" "ru_ctx_hdl r = 0" | "ru_hdr_hdl r = 0" "ru_ctx_hdl r \<noteq> 0"
    | "ru_hdr_hdl r = 0" "ru_ctx_hdl r = 0" by blast
  then show thesis
  proof cases
    case 1
    then show thesis by (intro refused) (simp add: validate_eq)
  next
    case 2
    have "rt_validate_hndls e r s = Some None \<or> (\<exists>a. rt_validate_hndls e r s = Some (Some (Some a, None)) \<and>
      named_target r s = Some (PHdr a) \<and> map_option h_id (db_hdr (hdb s) a) = Some (ru_hdr_hdl r))"
      using hd [of "ru_hdr_hdl r"] 2 by (cases "rule_bad e r") (auto simp: validate_eq named_target_def)
    then show thesis using refused valid [of "Some _" None] 2 by auto
  next
    case 3
    have "rt_validate_hndls e r s = Some None \<or> (\<exists>a. rt_validate_hndls e r s = Some (Some (None, Some a)) \<and>
      named_target r s = Some (PCtx a) \<and> map_option c_id (db_ctx (hdb s) a) = Some (ru_ctx_hdl r))"
      using cx [of "ru_ctx_hdl r"] 3 by (cases "rule_bad e r") (auto simp: validate_eq named_target_def)
    then show thesis using refused valid [of None "Some _"] 3 by auto
  next
    case 4
    have "rt_validate_hndls e r s = Some None \<or> rt_validate_hndls e r s = Some (Some (None, None))"
      using 4 by (cases "rule_bad e r") (auto simp: validate_eq)
    then show thesis using refused valid [of None None] 4 by auto
  qed
qed

end
