(* ===== verification/Ipa_Rt_Safe.thy ===== *)
theory Ipa_Rt_Safe
  imports Ipa_Rt_Inv
begin

text \<open>
  The operations on rules and tables under the invariant: each of them returns, without a NULL or
  dangling pointer on its way, and keeps the invariant, also when it fails half-way.
\<close>

section \<open>The table of a name\<close>

definition rt_same :: "rt_db \<Rightarrow> rt_db \<Rightarrow> bool" where
  "rt_same s s' \<longleftrightarrow> hdb s' = hdb s \<and> r_rule s' = r_rule s \<and> r_tbl s' = r_tbl s \<and> tbl_list s' = tbl_list s"

lemma first_free_idx_ok:
  "first_free_idx m = Some i \<Longrightarrow> \<not> bit m i \<and> i < 32 \<and> (\<forall>j < i. bit m j)"
  "first_free_idx m = None \<Longrightarrow> \<forall>j < 32. bit m j"
  by (auto simp: first_free_idx_def find_Some_iff find_None_iff IPA_RT_INDEX_BITMAP_SIZE_def)

lemma set_idx_simps [simp]:
  "hdb (set_idx ip i s) = hdb s" "r_rule (set_idx ip i s) = r_rule s" "r_tbl (set_idx ip i s) = r_tbl s"
  "tbl_list (set_idx ip i s) = tbl_list s" "reap_list (set_idx ip i s) = reap_list s" "r_next (set_idx ip i s) = r_next s"
  "tbl_cnt (set_idx ip i s) = tbl_cnt s" "rule_ids (set_idx ip i s) = rule_ids s"
  by (simp_all add: set_idx_def)

lemma set_idx_bits: "bit (rt_idx_bitmap (set_idx ip i s) ip') j \<longleftrightarrow> bit (rt_idx_bitmap s ip') j \<or> ip' = ip \<and> j = i \<and> i < 32"
  by (auto simp: set_idx_def bit_set_mask)

lemma add_rt_tbl_ok:
  assumes inv: "rt_inv e s" and cfg: "good_cfg e"
  obtains (failed) s' where "add_rt_tbl e ip name s = Some (None, s')" "rt_inv e s'" "rt_same s s'"
  | (existing) t tb where "add_rt_tbl e ip name s = Some (Some t, s)" "t \<in> set (tbl_list s ip)" "r_tbl s t = Some tb"
      "rt_name tb = name" "tbl_ok e s ip t tb" "ipa3_find_rt_tbl e ip name s = Some (Some t)" "ip \<noteq> IPA_IP_MAX"
  | (created) t tb i s' where "add_rt_tbl e ip name s = Some (Some t, s')" "rt_inv e s'" "ip \<noteq> IPA_IP_MAX"
      "ipa3_find_rt_tbl e ip name s = Some None" "r_tbl s t = None" "t = r_next s"
      "r_tbl s' = (r_tbl s)(t \<mapsto> tb)" "tbl_list s' = (tbl_list s)(ip := t # tbl_list s ip)" "r_rule s' = r_rule s"
      "tb = (new_tbl e ip name (rt_idx tb))\<lparr>rt_id := i\<rparr>" "finds s' i (PTbl t)"
      "hdb s' = (hdb s)\<lparr>db_idr := db_idr (hdb s')\<rparr>"
      "first_free_idx (rt_idx_bitmap s ip) = Some (rt_idx tb)"
proof (cases "ip = IPA_IP_MAX")
  case True
  then show thesis using inv by (intro failed [of s]) (simp_all add: add_rt_tbl_def rt_same_def)
next
  case ip: False
  note v = rt_invD [OF inv]
  show thesis
  proof (rule find_rt_tbl_ok [OF inv, of ip name])
    fix t tb assume "ipa3_find_rt_tbl e ip name s = Some (Some t)" "t \<in> set (tbl_list s ip)" "r_tbl s t = Some tb" "rt_name tb = name" "tbl_ok e s ip t tb"
    then show thesis using ip by (intro existing [of t tb]) (simp_all add: add_rt_tbl_def)
  next
    assume none: "ipa3_find_rt_tbl e ip name s = Some None"
    define t where "t = r_next s"
    define s1 where "s1 = s\<lparr>r_next := Suc t\<rparr>"
    have new: "r_tbl s t = None" "r_rule s t = None" using v(8) by (simp_all add: rt_fresh_def t_def)
    have i1: "rt_inv e s1" by (rule rt_inv_frame [OF inv]) (simp_all add: s1_def t_def)
    show thesis
    proof (cases "x_alloc_tbl e t")
      case False
      then show thesis using none ip inv by (intro failed [of s]) (simp_all add: add_rt_tbl_def t_def rt_same_def)
    next
      case alloc: True
      show thesis
      proof (cases "first_free_idx (rt_idx_bitmap s ip)")
        case None
        then show thesis using none ip alloc i1
          by (intro failed [of s1]) (simp_all add: add_rt_tbl_def t_def rt_same_def s1_def)
      next
        case (Some i)
        define s2 where "s2 = set_idx ip i s1"
        have free: "\<not> bit (rt_idx_bitmap s ip) i" "i < 32" using first_free_idx_ok(1) [OF Some] by simp_all
        have i2: "rt_inv e s2" by (rule rt_inv_frame [OF i1]) (simp_all add: s2_def set_idx_bits)
        show thesis
        proof (cases "i > max (x_modem_hi e ip) (x_apps_hi e ip)")
          case True
          then show thesis using none ip alloc Some i2
            by (intro failed [of s2]) (simp_all add: add_rt_tbl_def t_def rt_same_def s1_def s2_def Let_def)
        next
          case big: False
          note c = cfg [unfolded good_cfg_def, rule_format, OF ip]
          have lo: "\<not> i < x_apps_lo e ip" using v(9) ip free(1) unfolding bits_ok_def by blast
          have idx: "x_apps_lo e ip \<le> i" "i \<le> x_apps_hi e ip"
            using lo big c by auto
          define tb where "tb = new_tbl e ip name i"
          define s3 where "s3 = s2\<lparr>r_tbl := (r_tbl s2)(t \<mapsto> tb), tbl_cnt := (tbl_cnt s2)(ip := tbl_cnt s2 ip + 1),
                                   tbl_list := (tbl_list s2)(ip := t # tbl_list s2 ip)\<rparr>"
          show thesis
          proof (cases "x_id e (PTbl t)")
            case False
            define s4 where "s4 = s3\<lparr>tbl_cnt := (tbl_cnt s3)(ip := tbl_cnt s3 ip - 1),
                   tbl_list := (tbl_list s3)(ip := remove1 t (tbl_list s3 ip)),
                   rule_ids := (rule_ids s3)(ip := []), r_tbl := (r_tbl s3)(t := None)\<rparr>"
            have "rt_inv e s4"
              by (rule rt_inv_frame [OF i2]) (use new in \<open>simp_all add: s4_def s3_def s2_def s1_def fun_upd_idem\<close>)
            moreover have "rt_same s s4" using new by (simp add: rt_same_def s4_def s3_def s2_def s1_def fun_upd_idem)
            moreover have "add_rt_tbl e ip name s = Some (None, s4)" using none ip alloc Some big False
              by (simp add: add_rt_tbl_def Let_def ipa3_id_alloc_def t_def s4_def s3_def s2_def s1_def tb_def del: max_less_iff_conj)
            ultimately show thesis by (intro failed [of s4])
          next
            case True
            obtain j d where p: "idr_put (PTbl t) (db_idr (hdb s)) = (j, d)" by fastforce
            define s4 where "s4 = s3\<lparr>hdb := (hdb s3)\<lparr>db_idr := d\<rparr>, r_tbl := (r_tbl s3)(t \<mapsto> tb\<lparr>rt_id := j\<rparr>)\<rparr>"
            have h: "hdb s3 = hdb s" by (simp add: s3_def s2_def s1_def)
            have "rt_inv e s4"
              by (rule link_tbl_inv [OF inv ip new, where tb = "tb\<lparr>rt_id := j\<rparr>" and i = j and i' = d])
                 (use p idx free c in \<open>auto simp: s4_def s3_def s2_def s1_def t_def tb_def new_tbl_def set_idx_bits\<close>)
            moreover have "add_rt_tbl e ip name s = Some (Some t, s4)" using none ip alloc Some big True p
              by (simp add: add_rt_tbl_def Let_def ipa3_id_alloc_def t_def s4_def s3_def s2_def s1_def tb_def del: max_less_iff_conj)
            moreover have "finds s4 j (PTbl t)" using idr.find_alloc [OF p, of j] by (simp add: finds_def s4_def)
            ultimately show thesis using none ip new Some
              by (intro created [of t s4 "tb\<lparr>rt_id := j\<rparr>" j]) (simp_all add: t_def s4_def s3_def s2_def s1_def tb_def new_tbl_def)
          qed
        qed
      qed
    qed
  qed
qed

section \<open>A new rule\<close>

lemma alloc_rule_id_ok:
  "ipa3_alloc_rule_id ok ids = Some i \<Longrightarrow> ok \<and> i \<notin> set ids \<and> 0 < i \<and> i < 512 \<and> (\<forall>j. 0 < j \<and> j < i \<longrightarrow> j \<in> set ids)"
  by (auto simp: ipa3_alloc_rule_id_def find_Some_iff LOW_RULE_ID_def RULE_ID_BIT_LEN_def split: if_splits)
     (metis Suc_pred diff_Suc_1 less_Suc_eq_0_disj less_diff_conv2 less_imp_diff_less not_less_eq zero_less_Suc)

lemma validate_rule_id_ok: "rt_validate_rule_id rid = OK \<longleftrightarrow> rid = 0 \<or> 512 \<le> rid \<and> rid < 1023"
  by (auto simp: rt_validate_rule_id_def RULE_ID_BIT_LEN_def)

text \<open>The state of which a rule is made: the address and, maybe, an identifier are taken.\<close>

definition rule_base :: "ip_type \<Rightarrow> nat list \<Rightarrow> rt_db \<Rightarrow> rt_db" where
  "rule_base ip ids s = s\<lparr>r_next := Suc (r_next s), rule_ids := (rule_ids s)(ip := ids)\<rparr>"

lemma rule_base_simps [simp]:
  "hdb (rule_base ip ids s) = hdb s" "r_rule (rule_base ip ids s) = r_rule s" "r_tbl (rule_base ip ids s) = r_tbl s"
  "tbl_list (rule_base ip ids s) = tbl_list s" "reap_list (rule_base ip ids s) = reap_list s"
  "r_next (rule_base ip ids s) = Suc (r_next s)" "rt_idx_bitmap (rule_base ip ids s) = rt_idx_bitmap s"
  "rule_ids (rule_base ip ids s) = (rule_ids s)(ip := ids)"
  by (simp_all add: rule_base_def)

lemma create_rt_entry_ok:
  assumes tb: "r_tbl s t = Some tb" "rt_rule_ids tb" and rid: "rt_validate_rule_id rid = OK"
  obtains (failed) s' where "create_rt_entry e r t h c rid user s = Some (None, s')" "rt_same s s'" "reap_list s' = reap_list s"
      "rt_idx_bitmap s' = rt_idx_bitmap s" "r_next s \<le> r_next s'"
  | (made) k valid ids where "0 < k" "k < 1023" "rid \<noteq> 0 \<longleftrightarrow> valid" "valid \<Longrightarrow> k = rid"
      "ids = (if valid then rule_ids s (rt_set tb) else k # rule_ids s (rt_set tb))" "\<not> valid \<Longrightarrow> k \<notin> set (rule_ids s (rt_set tb))"
      "create_rt_entry e r t h c rid user s =
         Some (Some (r_next s), (rule_base (rt_set tb) ids s)\<lparr>r_rule := (r_rule s)(r_next s \<mapsto> new_rule e r t h c k valid user)\<rparr>)"
proof (cases "x_alloc_rule e (r_next s)")
  case False
  then show thesis by (intro failed [of s]) (simp_all add: create_rt_entry_def rt_same_def)
next
  case alloc: True
  show thesis
  proof (cases "rid = 0")
    case False
    then have "0 < rid" "rid < 1023" using rid by (simp_all add: validate_rule_id_ok)
    then show thesis using alloc
      by (intro made [of rid True "rule_ids s (rt_set tb)"]) (simp_all add: create_rt_entry_def Let_def rule_base_def)
  next
    case True
    show thesis
    proof (cases "ipa3_alloc_rule_id (x_alloc_rid e (r_next s)) (rule_ids s (rt_set tb))")
      case None
      then show thesis using alloc True tb
        by (intro failed [of "s\<lparr>r_next := r_next s + 1\<rparr>"]) (simp_all add: create_rt_entry_def Let_def rt_same_def)
    next
      case (Some k)
      then show thesis using alloc True tb alloc_rule_id_ok [OF Some]
        by (intro made [of k False "k # rule_ids s (rt_set tb)"]) (simp_all add: create_rt_entry_def Let_def rule_base_def)
    qed
  qed
qed

lemma new_rule_simps [simp]:
  "re_cookie (new_rule e r t h c k v u) = IPA_RT_RULE_COOKIE" "re_tbl (new_rule e r t h c k v u) = t"
  "re_hdr (new_rule e r t h c k v u) = h" "re_ctx (new_rule e r t h c k v u) = c" "re_rule_id (new_rule e r t h c k v u) = k"
  "re_prio (new_rule e r t h c k v u) = 0" "ru_hdr_hdl (re_rule (new_rule e r t h c k v u)) = ru_hdr_hdl r"
  "ru_ctx_hdl (re_rule (new_rule e r t h c k v u)) = ru_ctx_hdl r"
  by (simp_all add: new_rule_def)

lemma target_of_simps [simp]: "target_of (x\<lparr>re_id := i\<rparr>) = target_of x" "target_ok d (x\<lparr>re_id := i\<rparr>) = target_ok d x"
  by (cases "re_hdr x"; simp add: target_of_def target_ok_def)+

lemma take_refs_eq: "take_refs x s = map_option (\<lambda>d. s\<lparr>hdb := d\<rparr>) (with_opt take_target (target_of x) (hdb s))"
  by (auto simp: take_refs_def with_opt_def take_target_def target_of_def split: option.splits Option.bind_split)

lemma drop_refs_eq: "drop_refs x s = map_option (\<lambda>d. s\<lparr>hdb := d\<rparr>) (with_opt drop_target (target_of x) (hdb s))"
  by (auto simp: drop_refs_def with_opt_def drop_target_def target_of_def split: option.splits Option.bind_split)

lemma take_drop_same:
  assumes "take_target p d = Some d1"
  shows "drop_target p d1 = Some d"
  using assms by (auto simp: take_target_def drop_target_def add_ref_def drop_ref_def ctx_ref_def fun_upd_idem bind_eq_Some_conv
      split: hdr_ptr.splits)

lemma store_take_opt:
  assumes inv: "store_inv R d" and room: "\<And>p. op = Some p \<Longrightarrow> ref_room p d"
  shows "\<exists>d'. with_opt take_target op d = Some d' \<and> store_inv (\<lambda>p. R p + opt_ref op p) d' \<and> kept (\<lambda>p. 1) d d' \<and>
    db_idr d' = db_idr d \<and> with_opt drop_target op d' = Some d"
proof (cases op)
  case None
  then show ?thesis using inv kept_refl by (simp add: with_opt_def opt_ref_def)
next
  case (Some p)
  from store_take [OF inv room [OF Some]] obtain d' where d': "take_target p d = Some d'" "store_inv (R(p := R p + 1)) d'"
    "kept (\<lambda>p. 1) d d'" "db_idr d' = db_idr d" by blast
  have "(\<lambda>q. R q + opt_ref (Some p) q) = R(p := R p + 1)" by (auto simp: opt_ref_def)
  then show ?thesis using d' take_drop_same [OF d'(1)] by (simp add: with_opt_def Some)
qed

text \<open>The end of an addition: the rule is on the list of its table; \<open>b\<close> is the state without it.\<close>

lemma finish_rt_rule_add_ok:
  assumes inv: "rt_inv e b" and t: "t \<in> set (tbl_list b ip)" "r_tbl b t = Some tb" and room: "rt_rule_cnt tb < IPA_RULE_CNT_MAX"
    and new: "r_rule b a = None" "a < r_next b"
    and rs: "set rs = insert a (set (rt_rules tb))" "distinct rs" "length rs = Suc (length (rt_rules tb))" "remove1 a rs = rt_rules tb"
    and x: "re_cookie x = IPA_RT_RULE_COOKIE" "re_tbl x = t" "0 < re_rule_id x" "re_rule_id x < 1023" "0 \<le> re_prio x" "re_prio x \<le> 1023"
      "target_ok (hdb b) x" "\<And>p. target_of x = Some p \<Longrightarrow> ref_room p (hdb b)"
    and s: "s = b\<lparr>r_rule := (r_rule b)(a \<mapsto> x), r_tbl := (r_tbl b)(t \<mapsto> tb\<lparr>rt_rules := rs\<rparr>)\<rparr>"
  obtains (done_ok) i i' d where "finish_rt_rule_add e a t s = Some (OK, Some i, link_rule a (x\<lparr>re_id := i\<rparr>) t tb rs i' d b)"
      "rt_inv e (link_rule a (x\<lparr>re_id := i\<rparr>) t tb rs i' d b)" "with_opt take_target (target_of x) (hdb b) = Some d"
      "idr_put (PRule a) (db_idr (hdb b)) = (i, i')"
  | (undone) s' where "finish_rt_rule_add e a t s = Some (Err EPERM, None, s')" "rt_inv e s'" "hdb s' = hdb b" "r_rule s' = r_rule b"
      "r_tbl s' = (r_tbl b)(t \<mapsto> tb\<lparr>rt_rule_cnt := rt_rule_cnt tb + 1\<rparr>)" "tbl_list s' = tbl_list b"
proof -
  note v = rt_invD [OF inv]
  have tok: "tbl_ok e b ip t tb" using v(3) [OF t(1)] t(2) by auto
  obtain d where d: "with_opt take_target (target_of x) (hdb b) = Some d" "store_inv (\<lambda>p. rule_refs b p + opt_ref (target_of x) p) d"
      "kept (\<lambda>p. 1) (hdb b) d" "db_idr d = db_idr (hdb b)" "with_opt drop_target (target_of x) d = Some (hdb b)"
    using store_take_opt [OF v(1) x(8)] by blast
  let ?tb = "tb\<lparr>rt_rules := rs, rt_rule_cnt := rt_rule_cnt tb + 1\<rparr>"
  have room': "rt_rule_cnt (tb\<lparr>rt_rules := rs\<rparr>) < IPA_RULE_CNT_MAX" using room by simp
  show thesis
  proof (cases "x_id e (PRule a)")
    case True
    obtain i i' where p: "idr_put (PRule a) (db_idr (hdb b)) = (i, i')" by fastforce
    let ?S = "link_rule a (x\<lparr>re_id := i\<rparr>) t tb rs i' d b"
    have "target_ok d x" by (rule target_ok_kept [OF x(7) d(3)]) simp
    then have "rt_inv e ?S"
      by (intro link_rule_inv [OF inv t room new rs(1-3), where i = i]) (use x d(2-4) p in simp_all)
    moreover have "finish_rt_rule_add e a t s = Some (OK, Some i, ?S)"
      using t(2) room d(1) True p
      by (simp add: finish_rt_rule_add_def s upd_tbl_def upd_rule_def take_refs_eq ipa3_id_alloc_def d(4) link_rule_def)
    ultimately show thesis using done_ok d(1) p by blast
  next
    case False
    define s' where "s' = b\<lparr>r_tbl := (r_tbl b)(t \<mapsto> tb\<lparr>rt_rule_cnt := rt_rule_cnt tb + 1\<rparr>),
       rule_ids := (rule_ids b)(rt_set tb := remove1 (re_rule_id x) (rule_ids b (rt_set tb)))\<rparr>"
    have nm: "rt_rule_cnt tb \<noteq> -1" using room by (auto simp: IPA_RULE_CNT_MAX_def)
    have "rt_inv e (b\<lparr>r_tbl := (r_tbl b)(t \<mapsto> tb\<lparr>rt_rule_cnt := rt_rule_cnt tb + 1\<rparr>)\<rparr>)"
      by (rule rt_inv_tbl_upd [OF inv t(2)])
         (use room unat_less_succ [OF nm] in \<open>auto simp: word_le_nat_alt word_less_nat_alt IPA_RULE_CNT_MAX_def\<close>)
    then have "rt_inv e s'" by (rule rt_inv_frame) (simp_all add: s'_def)
    moreover have "finish_rt_rule_add e a t s = Some (Err EPERM, None, s')"
      using t(2) room d(1,5) False tok rs(4) new(1)
      by (simp add: finish_rt_rule_add_def s upd_tbl_def take_refs_eq drop_refs_eq ipa3_id_alloc_def s'_def rid_remove_def tbl_ok_def fun_upd_idem)
    ultimately show thesis by (intro undone [of s']) (simp_all add: s'_def)
  qed
qed

section \<open>Adding\<close>

text \<open>
  What the caller has to see to: the count of what the rule points to does not overflow, and the
  table is not full (on a full table the code leaves the rule linked, without a handle).
\<close>

definition target_room :: "rt_rule \<Rightarrow> rt_db \<Rightarrow> bool" where
  "target_room r s \<longleftrightarrow> (\<forall>p. named_target r s = Some p \<longrightarrow> (case p of POther k b \<Rightarrow> True | _ \<Rightarrow> ref_room p (hdb s)))"

definition tbl_room :: "rt_env \<Rightarrow> ip_type \<Rightarrow> string \<Rightarrow> rt_db \<Rightarrow> bool" where
  "tbl_room e ip name s \<longleftrightarrow> (\<forall>t tb. ipa3_find_rt_tbl e ip name s = Some (Some t) \<longrightarrow> r_tbl s t = Some tb \<longrightarrow> rt_rule_cnt tb < IPA_RULE_CNT_MAX)"

definition may_add_rule :: "rt_env \<Rightarrow> ip_type \<Rightarrow> string \<Rightarrow> rt_rule \<Rightarrow> rt_db \<Rightarrow> bool" where
  "may_add_rule e ip name r s \<longleftrightarrow> target_room r s \<and> tbl_room e ip name s"

definition rule_of_new :: "rt_env \<Rightarrow> rt_rule \<Rightarrow> rt_rule" where
  "rule_of_new e r = re_rule (new_rule e r 0 None None 0 True True)"

lemma rule_of_new: "re_rule (new_rule e r t h c k v u) = rule_of_new e r"
  by (simp add: rule_of_new_def new_rule_def)

text \<open>A rule \<open>x\<close> was added to the table \<open>t\<close>, which was \<open>tb\<close> before; its rules are now \<open>rs\<close>.\<close>

definition hdrs_taken :: "hdr_ptr option \<Rightarrow> hdr_db \<Rightarrow> hdr_db \<Rightarrow> bool" where
  "hdrs_taken op d d' \<longleftrightarrow>
     (case op of
        Some (PHdr h) \<Rightarrow> \<exists>he. db_hdr d h = Some he \<and> db_hdr d' = (db_hdr d)(h \<mapsto> he\<lparr>h_ref := h_ref he + 1\<rparr>) \<and> db_ctx d' = db_ctx d
      | Some (PCtx c) \<Rightarrow> \<exists>y. db_ctx d c = Some y \<and> db_ctx d' = (db_ctx d)(c \<mapsto> y\<lparr>c_ref := c_ref y + 1\<rparr>) \<and> db_hdr d' = db_hdr d
      | _ \<Rightarrow> db_hdr d' = db_hdr d \<and> db_ctx d' = db_ctx d)"

lemma hdrs_taken: "with_opt take_target op d = Some d' \<Longrightarrow> hdrs_taken op d (d'\<lparr>db_idr := i\<rparr>)"
  by (auto simp: hdrs_taken_def with_opt_def take_target_def add_ref_def ctx_ref_def bind_eq_Some_conv split: option.splits hdr_ptr.splits)

lemma hdrs_taken_idr: "db_hdr d1 = db_hdr d \<Longrightarrow> db_ctx d1 = db_ctx d \<Longrightarrow> hdrs_taken op d1 d' = hdrs_taken op d d'"
  by (simp add: hdrs_taken_def split: option.splits hdr_ptr.splits)

definition rule_added :: "rt_env \<Rightarrow> nat \<Rightarrow> rt_tbl \<Rightarrow> nat list \<Rightarrow> nat \<Rightarrow> rt_entry \<Rightarrow> rt_rule \<Rightarrow> bool \<Rightarrow> rt_db \<Rightarrow> rt_db \<Rightarrow> bool" where
  "rule_added e t tb rs a x r user s s' \<longleftrightarrow>
     r_rule s a = None \<and> r_rule s' = (r_rule s)(a \<mapsto> x) \<and> re_tbl x = t \<and> re_rule x = rule_of_new e r \<and> re_ipacm x = user \<and>
     r_tbl s' = (r_tbl s)(t \<mapsto> tb\<lparr>rt_rules := rs, rt_rule_cnt := rt_rule_cnt tb + 1\<rparr>) \<and>
     (re_hdr x = None \<longrightarrow> ru_hdr_hdl r = 0) \<and> (re_ctx x = None \<longrightarrow> ru_ctx_hdl r = 0) \<and> target_ok (hdb s') x \<and>
     hdrs_taken (target_of x) (hdb s) (hdb s')"

text \<open>The table of a name: found, or made.\<close>

definition tbl_for :: "rt_env \<Rightarrow> ip_type \<Rightarrow> string \<Rightarrow> nat \<Rightarrow> rt_tbl \<Rightarrow> rt_db \<Rightarrow> rt_db \<Rightarrow> bool" where
  "tbl_for e ip name t tb s s' \<longleftrightarrow>
     (if t \<in> set (tbl_list s ip)
      then ipa3_find_rt_tbl e ip name s = Some (Some t) \<and> r_tbl s t = Some tb \<and> rt_name tb = name \<and> tbl_list s' = tbl_list s
      else ipa3_find_rt_tbl e ip name s = Some None \<and> r_tbl s t = None \<and> rt_name tb = strlcpy (e_name_max (x_hdr e)) name \<and>
        rt_rules tb = [] \<and> rt_rule_cnt tb = 0 \<and> rt_ref_cnt tb = 0 \<and> tbl_list s' = (tbl_list s)(ip := t # tbl_list s ip) \<and>
        first_free_idx (rt_idx_bitmap s ip) = Some (rt_idx tb))"

text \<open>From the table on; \<open>s\<close> is the state with the table.\<close>

lemma add_to_tbl_ok:
  fixes user :: bool
  assumes inv: "rt_inv e s" and t: "t \<in> set (tbl_list s ip)" "r_tbl s t = Some tb" and room: "rt_rule_cnt tb < IPA_RULE_CNT_MAX"
    and rid: "rt_validate_rule_id rid = OK"
    and h: "h = None \<or> c = None"
      "\<And>a. h = Some a \<Longrightarrow> map_option h_id (db_hdr (hdb s) a) = Some (ru_hdr_hdl r) \<and> ref_room (PHdr a) (hdb s)"
      "\<And>a. c = Some a \<Longrightarrow> map_option c_id (db_ctx (hdb s) a) = Some (ru_ctx_hdl r) \<and> ref_room (PCtx a) (hdb s)"
      "h = None \<Longrightarrow> ru_hdr_hdl r = 0" "c = None \<Longrightarrow> ru_ctx_hdl r = 0"
    and ins: "\<And>a. a \<notin> set (rt_rules tb) \<Longrightarrow> set (ins a) = insert a (set (rt_rules tb)) \<and> distinct (ins a) \<and>
      length (ins a) = Suc (length (rt_rules tb)) \<and> remove1 a (ins a) = rt_rules tb"
  defines "run \<equiv> do {
      (oa, s2) \<leftarrow> create_rt_entry e r t h c rid user s;
      case oa of None \<Rightarrow> Some (Err EPERM, None, None, s2)
      | Some a \<Rightarrow> do {
          s3 \<leftarrow> upd_tbl t (\<lambda>tb. tb\<lparr>rt_rules := ins a\<rparr>) s2;
          (ret, hdl, s4) \<leftarrow> finish_rt_rule_add e a t s3;
          Some (ret, hdl, Some a, s4) } }"
  obtains (refused) oa s' where "run = Some (Err EPERM, None, oa, s')" "rt_inv e s'" "r_rule s' = r_rule s" "hdb s' = hdb s"
      "tbl_list s' = tbl_list s" "\<exists>n. r_tbl s' = (r_tbl s)(t \<mapsto> tb\<lparr>rt_rule_cnt := n\<rparr>)"
  | (added) i a x s' where "run = Some (OK, Some i, Some a, s')" "rt_inv e s'" "rule_added e t tb (ins a) a x r user s s'"
      "tbl_list s' = tbl_list s" "re_id x = i" "re_rule_id_valid x \<longleftrightarrow> rid \<noteq> 0" "rid \<noteq> 0 \<Longrightarrow> re_rule_id x = rid" "finds s' i (PRule a)"
proof -
  note v = rt_invD [OF inv]
  have tok: "tbl_ok e s ip t tb" using v(3) [OF t(1)] t(2) by auto
  have ids: "rt_rule_ids tb" "rt_set tb = ip" using tok by (simp_all add: tbl_ok_def)
  show thesis
  proof (rule create_rt_entry_ok [OF t(2) ids(1) rid, of e r h c user])
    fix s' assume c: "create_rt_entry e r t h c rid user s = Some (None, s')" "rt_same s s'" "reap_list s' = reap_list s"
      "rt_idx_bitmap s' = rt_idx_bitmap s" "r_next s \<le> r_next s'"
    have "rt_inv e s'" by (rule rt_inv_frame [OF inv]) (use c in \<open>simp_all add: rt_same_def\<close>)
    moreover have "\<exists>n. r_tbl s = (r_tbl s)(t \<mapsto> tb\<lparr>rt_rule_cnt := n\<rparr>)"
      by (rule exI [of _ "rt_rule_cnt tb"]) (use t(2) in auto)
    ultimately show thesis using c by (intro refused [of None s']) (simp_all add: run_def rt_same_def)
  next
    fix k valid ids
    assume m: "0 < k" "k < 1023" "rid \<noteq> 0 \<longleftrightarrow> valid" "valid \<Longrightarrow> k = rid"
      "create_rt_entry e r t h c rid user s =
         Some (Some (r_next s), (rule_base (rt_set tb) ids s)\<lparr>r_rule := (r_rule s)(r_next s \<mapsto> new_rule e r t h c k valid user)\<rparr>)"
    define a where "a = r_next s"
    define x where "x = new_rule e r t h c k valid user"
    define b where "b = rule_base (rt_set tb) ids s"
    have ib: "rt_inv e b" unfolding b_def by (rule rt_inv_frame [OF inv]) simp_all
    have new: "r_rule b a = None" "a < r_next b" using v(8) by (simp_all add: rt_fresh_def a_def b_def)
    have notin: "a \<notin> set (rt_rules tb)" using tok new(1) by (auto simp: tbl_ok_def b_def)
    have tgt: "target_ok (hdb b) x" using h by (auto simp: target_ok_def x_def b_def simp del: map_option_eq_Some)
    have troom: "ref_room p (hdb b)" if "target_of x = Some p" for p
      using that h(1-3) by (auto simp: target_of_def x_def b_def split: option.splits)
    show thesis
    proof (rule finish_rt_rule_add_ok [OF ib, of t ip tb a "ins a" x])
      fix i i' d
      let ?S = "link_rule a (x\<lparr>re_id := i\<rparr>) t tb (ins a) i' d b"
      assume f: "finish_rt_rule_add e a t (b\<lparr>r_rule := (r_rule b)(a \<mapsto> x), r_tbl := (r_tbl b)(t \<mapsto> tb\<lparr>rt_rules := ins a\<rparr>)\<rparr>) = Some (OK, Some i, ?S)"
        "rt_inv e ?S" "with_opt take_target (target_of x) (hdb b) = Some d" "idr_put (PRule a) (db_idr (hdb b)) = (i, i')"
      have run: "run = Some (OK, Some i, Some a, ?S)"
        using m(5) f(1) t(2) by (simp add: run_def a_def [symmetric] x_def [symmetric] b_def [symmetric] upd_tbl_def) (simp add: b_def)
      have "target_ok (hdb ?S) (x\<lparr>re_id := i\<rparr>)" using rt_invD(2) [OF f(2), of a "x\<lparr>re_id := i\<rparr>"] by (simp add: rule_ok_def link_rule_def)
      moreover have "hdrs_taken (target_of x) (hdb s) (hdb ?S)" using hdrs_taken [OF f(3)] by (simp add: link_rule_def b_def)
      ultimately have "rule_added e t tb (ins a) a (x\<lparr>re_id := i\<rparr>) r user s ?S"
        using new(1) h(4,5) by (simp add: rule_added_def link_rule_def b_def x_def rule_of_new) (simp add: new_rule_def)
      moreover have "finds ?S i (PRule a)" using idr.find_alloc [OF f(4), of i] by (simp add: finds_def link_rule_def)
      ultimately show thesis using run f(2) m(3,4)
        by (intro added [of i a ?S "x\<lparr>re_id := i\<rparr>"]) (simp_all add: link_rule_def b_def x_def new_rule_def)
    next
      fix s' assume f: "finish_rt_rule_add e a t (b\<lparr>r_rule := (r_rule b)(a \<mapsto> x), r_tbl := (r_tbl b)(t \<mapsto> tb\<lparr>rt_rules := ins a\<rparr>)\<rparr>) =
          Some (Err EPERM, None, s')" "rt_inv e s'" "hdb s' = hdb b" "r_rule s' = r_rule b"
        "r_tbl s' = (r_tbl b)(t \<mapsto> tb\<lparr>rt_rule_cnt := rt_rule_cnt tb + 1\<rparr>)" "tbl_list s' = tbl_list b"
      have "run = Some (Err EPERM, None, Some a, s')"
        using m(5) f(1) t(2) by (simp add: run_def a_def [symmetric] x_def [symmetric] b_def [symmetric] upd_tbl_def) (simp add: b_def)
      then show thesis using f by (intro refused [of "Some a" s']) (auto simp: b_def)
    qed (use t room new ins [OF notin] m tgt troom in \<open>simp_all add: b_def x_def\<close>)
  qed
qed

lemma rules_bounds: "rt_inv e s \<Longrightarrow> t \<in> set (tbl_list s ip) \<Longrightarrow> r_tbl s t = Some tb \<Longrightarrow> a \<in> set (rt_rules tb) \<Longrightarrow> \<exists>x. r_rule s a = Some x \<and> re_tbl x = t"
  using rt_invD(3) [of e s t ip] by (auto simp: tbl_ok_def)

text \<open>The list of a table after an addition at one of its ends.\<close>

definition ins_end :: "bool \<Rightarrow> nat list \<Rightarrow> nat \<Rightarrow> nat list" where
  "ins_end at_rear rs a = (if at_rear then rs @ [a] else a # rs)"

lemma ins_end_ok:
  "distinct rs \<Longrightarrow> a \<notin> set rs \<Longrightarrow> set (ins_end r rs a) = insert a (set rs) \<and> distinct (ins_end r rs a) \<and>
     length (ins_end r rs a) = Suc (length rs) \<and> remove1 a (ins_end r rs a) = rs"
  by (auto simp: ins_end_def remove1_append)

lemma add_rt_rule_ok:
  assumes inv: "rt_inv e s" and cfg: "good_cfg e" and may: "may_add_rule e ip name r s"
  obtains (refused) s' where "add_rt_rule e ip name r at_rear rid user s = Some (Err EPERM, None, s')" "rt_inv e s'" "r_rule s' = r_rule s"
      "rt_same s s' \<or> (\<exists>t tb n. tbl_for e ip name t tb s s' \<and> r_tbl s' = (r_tbl s)(t \<mapsto> tb\<lparr>rt_rule_cnt := n\<rparr>))"
  | (added) i t tb a x s' where "add_rt_rule e ip name r at_rear rid user s = Some (OK, Some i, s')" "rt_inv e s'"
      "tbl_for e ip name t tb s s'" "rule_added e t tb (ins_end at_rear (rt_rules tb) a) a x r user s s'"
      "re_id x = i" "finds s' i (PRule a)" "re_rule_id_valid x \<longleftrightarrow> rid \<noteq> 0" "rid \<noteq> 0 \<Longrightarrow> re_rule_id x = rid"
      "\<not> (rt_name tb = x_dflt_name e \<and> rt_rule_cnt tb > 0)"
proof -
  let ?run = "add_rt_rule e ip name r at_rear rid user s"
  show thesis
  proof (rule validate_ok [OF inv, of r])
    assume "rt_validate_hndls e r s = Some None"
    then show thesis using inv by (intro refused [of s]) (simp_all add: add_rt_rule_def rt_same_def)
  next
    fix h c
    assume v: "rt_validate_hndls e r s = Some (Some (h, c))" "h = None \<or> c = None"
      "\<And>a. h = Some a \<Longrightarrow> named_target r s = Some (PHdr a) \<and> map_option h_id (db_hdr (hdb s) a) = Some (ru_hdr_hdl r)"
      "\<And>a. c = Some a \<Longrightarrow> named_target r s = Some (PCtx a) \<and> map_option c_id (db_ctx (hdb s) a) = Some (ru_ctx_hdl r)"
      "h = None \<Longrightarrow> ru_hdr_hdl r = 0" "c = None \<Longrightarrow> ru_ctx_hdl r = 0"
    have room: "h = Some a \<Longrightarrow> ref_room (PHdr a) (hdb s)" "c = Some a \<Longrightarrow> ref_room (PCtx a) (hdb s)" for a
      using may v(3,4) [of a] by (auto simp: may_add_rule_def target_room_def split: hdr_ptr.splits)
    show thesis
    proof (cases "rt_validate_rule_id rid = OK")
      case False
      then show thesis using inv v(1) by (intro refused [of s]) (simp_all add: add_rt_rule_def rt_same_def)
    next
      case rid: True
      have go: thesis
        if at: "add_rt_tbl e ip name s = Some (Some t, s1)" "rt_inv e s1" "t \<in> set (tbl_list s1 ip)" "r_tbl s1 t = Some tb"
          "hdb s1 = (hdb s)\<lparr>db_idr := db_idr (hdb s1)\<rparr>" "rt_rule_cnt tb < IPA_RULE_CNT_MAX" "r_rule s1 = r_rule s"
          "r_tbl s1 = (r_tbl s)(t \<mapsto> tb)" "tbl_for e ip name t tb s s1" for t tb s1
      proof -
        have tok: "tbl_ok e s1 ip t tb" using rt_invD(3) [OF at(2,3)] at(4) by auto
        have same: "db_hdr (hdb s1) = db_hdr (hdb s)" "db_ctx (hdb s1) = db_ctx (hdb s)" by (subst at(5), simp)+
        show thesis
        proof (cases "rt_name tb = x_dflt_name e \<and> rt_rule_cnt tb > 0")
          case True
          have "\<exists>n. r_tbl s1 = (r_tbl s)(t \<mapsto> tb\<lparr>rt_rule_cnt := n\<rparr>)" using at(8) by (intro exI [of _ "rt_rule_cnt tb"]) simp
          moreover have "?run = Some (Err EPERM, None, s1)" using True v(1) rid at tok by (simp add: add_rt_rule_def tbl_ok_def)
          ultimately show thesis using at(2,7,9) by (intro refused [of s1]) auto
        next
          case dflt: False
          let ?core = "do {
            (oa, s2) \<leftarrow> create_rt_entry e r t h c rid user s1;
            case oa of None \<Rightarrow> Some (Err EPERM, None, None, s2)
            | Some a \<Rightarrow> do {
                s3 \<leftarrow> upd_tbl t (\<lambda>tb'. tb'\<lparr>rt_rules := ins_end at_rear (rt_rules tb) a\<rparr>) s2;
                (ret, hdl, s4) \<leftarrow> finish_rt_rule_add e a t s3;
                Some (ret, hdl, Some a, s4) } }"
          have upd: "upd_tbl t (\<lambda>tb'. tb'\<lparr>rt_rules := if at_rear then rt_rules tb' @ [a] else a # rt_rules tb'\<rparr>) s2 =
              upd_tbl t (\<lambda>tb'. tb'\<lparr>rt_rules := ins_end at_rear (rt_rules tb) a\<rparr>) s2" if "r_tbl s2 t = Some tb" for a s2
            using that by (simp add: upd_tbl_def ins_end_def)
          have tb2: "r_tbl s2 t = Some tb" if "create_rt_entry e r t h c rid user s1 = Some (oa, s2)" for oa s2
          proof -
            have "rt_rule_ids tb" using tok by (simp add: tbl_ok_def)
            then show ?thesis using that at(4)
              by (elim create_rt_entry_ok [OF at(4) _ rid, of e r h c user]) (auto simp: rt_same_def)
          qed
          have eq: "?run = do { (ret, hdl, oa, s4) \<leftarrow> ?core; Some (if ret \<noteq> OK then Err EPERM else OK, hdl, s4) }"
            using v(1) rid at(1,4) tok dflt
            by (auto simp: add_rt_rule_def tbl_ok_def upd tb2 split: option.splits Option.bind_split)
          have ins: "set (ins_end at_rear (rt_rules tb) a) = insert a (set (rt_rules tb)) \<and> distinct (ins_end at_rear (rt_rules tb) a) \<and>
              length (ins_end at_rear (rt_rules tb) a) = Suc (length (rt_rules tb)) \<and> remove1 a (ins_end at_rear (rt_rules tb) a) = rt_rules tb"
            if "a \<notin> set (rt_rules tb)" for a using ins_end_ok [OF _ that] tok by (simp add: tbl_ok_def)
          show thesis
          proof (rule add_to_tbl_ok [OF at(2-4,6) rid v(2), where r = r and ins = "ins_end at_rear (rt_rules tb)" and user = user])
            fix oa s' assume f: "?core = Some (Err EPERM, None, oa, s')" "rt_inv e s'" "r_rule s' = r_rule s1" "tbl_list s' = tbl_list s1"
              "\<exists>n. r_tbl s' = (r_tbl s1)(t \<mapsto> tb\<lparr>rt_rule_cnt := n\<rparr>)"
            have "tbl_for e ip name t tb s s'" using at(9) f(4) by (simp add: tbl_for_def)
            then show thesis using f(2,3,5) at(7,8) eq by (intro refused [of s']) (auto simp: f(1))
          next
            fix i a x s'
            assume f: "?core = Some (OK, Some i, Some a, s')" "rt_inv e s'" "rule_added e t tb (ins_end at_rear (rt_rules tb) a) a x r user s1 s'"
              "tbl_list s' = tbl_list s1" "re_id x = i" "re_rule_id_valid x \<longleftrightarrow> rid \<noteq> 0" "rid \<noteq> 0 \<Longrightarrow> re_rule_id x = rid" "finds s' i (PRule a)"
            have "tbl_for e ip name t tb s s'" using at(9) f(4) by (simp add: tbl_for_def)
            moreover have "rule_added e t tb (ins_end at_rear (rt_rules tb) a) a x r user s s'"
              using f(3) at(7,8) hdrs_taken_idr [OF same] by (simp add: rule_added_def)
            ultimately show thesis using f(2,5-8) eq dflt by (intro added [of i s' t tb a x]) (simp_all add: f(1))
          next
            show "map_option h_id (db_hdr (hdb s1) a) = Some (ru_hdr_hdl r) \<and> ref_room (PHdr a) (hdb s1)" if "h = Some a" for a
              using v(3) [OF that] room(1) [OF that] by (simp add: same ref_room_def)
            show "map_option c_id (db_ctx (hdb s1) a) = Some (ru_ctx_hdl r) \<and> ref_room (PCtx a) (hdb s1)" if "c = Some a" for a
              using v(4) [OF that] room(2) [OF that] by (simp add: same ref_room_def)
          qed (use v ins in simp_all)
        qed
      qed
      show thesis
      proof (rule add_rt_tbl_ok [OF inv cfg, of ip name])
        fix s' assume "add_rt_tbl e ip name s = Some (None, s')" "rt_inv e s'" "rt_same s s'"
        then show thesis using v(1) rid by (intro refused [of s']) (simp_all add: add_rt_rule_def rt_same_def)
      next
        fix t tb assume f: "add_rt_tbl e ip name s = Some (Some t, s)" "t \<in> set (tbl_list s ip)" "r_tbl s t = Some tb" "rt_name tb = name"
          "ipa3_find_rt_tbl e ip name s = Some (Some t)"
        have "rt_rule_cnt tb < IPA_RULE_CNT_MAX" using may f(3,5) by (simp add: may_add_rule_def tbl_room_def)
        then show thesis using f inv by (intro go [of t s tb]) (auto simp: tbl_for_def)
      next
        fix t tb i s' assume f: "add_rt_tbl e ip name s = Some (Some t, s')" "rt_inv e s'" "ipa3_find_rt_tbl e ip name s = Some None" "r_tbl s t = None"
          "r_tbl s' = (r_tbl s)(t \<mapsto> tb)" "tbl_list s' = (tbl_list s)(ip := t # tbl_list s ip)" "r_rule s' = r_rule s"
          "tb = (new_tbl e ip name (rt_idx tb))\<lparr>rt_id := i\<rparr>" "hdb s' = (hdb s)\<lparr>db_idr := db_idr (hdb s')\<rparr>"
          "first_free_idx (rt_idx_bitmap s ip) = Some (rt_idx tb)"
        have n: "rt_name tb = strlcpy (e_name_max (x_hdr e)) name" "rt_rules tb = []" "rt_rule_cnt tb = 0" "rt_ref_cnt tb = 0"
          by (subst f(8), simp add: new_tbl_def)+
        have "t \<notin> set (tbl_list s ip)" using rt_invD(3) [OF inv, of t ip] f(4) by auto
        then show thesis using f n by (intro go [of t s' tb]) (auto simp: tbl_for_def IPA_RULE_CNT_MAX_def)
      qed
    qed
  qed
qed

lemma insert_after_ok:
  "distinct rs \<Longrightarrow> b \<in> set rs \<Longrightarrow> a \<notin> set rs \<Longrightarrow> set (insert_after a b rs) = insert a (set rs) \<and> distinct (insert_after a b rs) \<and>
     length (insert_after a b rs) = Suc (length rs) \<and> remove1 a (insert_after a b rs) = rs"
  by (induction rs) auto

text \<open>The table is live and not full, and the rule to go after is in it.\<close>

definition may_add_after :: "ip_type \<Rightarrow> nat \<Rightarrow> rt_rule \<Rightarrow> nat option \<Rightarrow> rt_db \<Rightarrow> bool" where
  "may_add_after ip t r after s \<longleftrightarrow> target_room r s \<and> t \<in> set (tbl_list s ip) \<and>
     (\<forall>tb. r_tbl s t = Some tb \<longrightarrow> (after = None \<or> rt_rule_cnt tb < IPA_RULE_CNT_MAX) \<and> (\<forall>b. after = Some b \<longrightarrow> b \<in> set (rt_rules tb)))"

lemma add_rt_rule_after_ok:
  assumes inv: "rt_inv e s" and may: "may_add_after ip t r after s"
  obtains (refused) s' where "add_rt_rule_after e t r after s = Some (Err EPERM, None, None, s')" "rt_inv e s'" "r_rule s' = r_rule s"
      "tbl_list s' = tbl_list s" "\<forall>tb. r_tbl s t = Some tb \<longrightarrow> (\<exists>n. r_tbl s' = (r_tbl s)(t \<mapsto> tb\<lparr>rt_rule_cnt := n\<rparr>))"
  | (added) i tb a x b s' where "add_rt_rule_after e t r after s = Some (OK, Some i, Some a, s')" "rt_inv e s'" "after = Some b"
      "r_tbl s t = Some tb" "b \<in> set (rt_rules tb)" "rule_added e t tb (insert_after a b (rt_rules tb)) a x r True s s'"
      "tbl_list s' = tbl_list s" "re_id x = i" "finds s' i (PRule a)"
proof -
  have t: "t \<in> set (tbl_list s ip)" using may by (simp add: may_add_after_def)
  obtain tb where tb: "r_tbl s t = Some tb" "tbl_ok e s ip t tb" using rt_invD(3) [OF inv t] by blast
  have self: "\<forall>tb. r_tbl s t = Some tb \<longrightarrow> (\<exists>n. r_tbl s = (r_tbl s)(t \<mapsto> tb\<lparr>rt_rule_cnt := n\<rparr>))"
  proof (intro allI impI)
    fix tb assume "r_tbl s t = Some tb"
    then show "\<exists>n. r_tbl s = (r_tbl s)(t \<mapsto> tb\<lparr>rt_rule_cnt := n\<rparr>)" by (intro exI [of _ "rt_rule_cnt tb"]) auto
  qed
  show thesis
  proof (cases after)
    case None
    then show thesis using inv self by (intro refused [of s]) (simp_all add: add_rt_rule_after_def)
  next
    case (Some b)
    then have b: "b \<in> set (rt_rules tb)" "rt_rule_cnt tb < IPA_RULE_CNT_MAX" using may tb(1) by (auto simp: may_add_after_def)
    show thesis
    proof (rule validate_ok [OF inv, of r])
      assume "rt_validate_hndls e r s = Some None"
      then show thesis using inv self by (intro refused [of s]) (simp_all add: add_rt_rule_after_def Some)
    next
      fix h c
      assume v: "rt_validate_hndls e r s = Some (Some (h, c))" "h = None \<or> c = None"
        "\<And>a. h = Some a \<Longrightarrow> named_target r s = Some (PHdr a) \<and> map_option h_id (db_hdr (hdb s) a) = Some (ru_hdr_hdl r)"
        "\<And>a. c = Some a \<Longrightarrow> named_target r s = Some (PCtx a) \<and> map_option c_id (db_ctx (hdb s) a) = Some (ru_ctx_hdl r)"
        "h = None \<Longrightarrow> ru_hdr_hdl r = 0" "c = None \<Longrightarrow> ru_ctx_hdl r = 0"
      have room: "h = Some a \<Longrightarrow> ref_room (PHdr a) (hdb s)" "c = Some a \<Longrightarrow> ref_room (PCtx a) (hdb s)" for a
        using may v(3,4) [of a] by (auto simp: may_add_after_def target_room_def split: hdr_ptr.splits)
      have rid: "rt_validate_rule_id 0 = OK" by (simp add: rt_validate_rule_id_def)
      let ?ins = "\<lambda>a. insert_after a b (rt_rules tb)"
      let ?core = "do {
        (oa, s2) \<leftarrow> create_rt_entry e r t h c 0 True s;
        case oa of None \<Rightarrow> Some (Err EPERM, None, None, s2)
        | Some a \<Rightarrow> do {
            s3 \<leftarrow> upd_tbl t (\<lambda>tb'. tb'\<lparr>rt_rules := ?ins a\<rparr>) s2;
            (ret, hdl, s4) \<leftarrow> finish_rt_rule_add e a t s3;
            Some (ret, hdl, Some a, s4) } }"
      have tb2: "r_tbl s2 t = Some tb" if "create_rt_entry e r t h c 0 True s = Some (oa, s2)" for oa s2
      proof -
        have "rt_rule_ids tb" using tb(2) by (simp add: tbl_ok_def)
        then show ?thesis using that tb(1)
          by (elim create_rt_entry_ok [OF tb(1) _ rid, of e r h c True]) (auto simp: rt_same_def)
      qed
      have upd: "upd_tbl t (\<lambda>tb'. tb'\<lparr>rt_rules := insert_after a b (rt_rules tb')\<rparr>) s2 = upd_tbl t (\<lambda>tb'. tb'\<lparr>rt_rules := ?ins a\<rparr>) s2"
        if "r_tbl s2 t = Some tb" for a s2
        using that by (simp add: upd_tbl_def)
      have eq: "add_rt_rule_after e t r after s =
          do { (ret, hdl, oa, s4) \<leftarrow> ?core; if ret \<noteq> OK then Some (Err EPERM, hdl, None, s4) else Some (OK, hdl, oa, s4) }"
        using v(1) by (auto simp: add_rt_rule_after_def Some upd tb2 split: option.splits Option.bind_split)
      show thesis
      proof (rule add_to_tbl_ok [OF inv t tb(1) b(2) rid v(2), where r = r and ins = ?ins and user = True])
        fix oa s' assume f: "?core = Some (Err EPERM, None, oa, s')" "rt_inv e s'" "r_rule s' = r_rule s" "tbl_list s' = tbl_list s"
          "\<exists>n. r_tbl s' = (r_tbl s)(t \<mapsto> tb\<lparr>rt_rule_cnt := n\<rparr>)"
        then show thesis using eq tb(1) by (intro refused [of s']) (simp_all add: f(1))
      next
        fix i a x s'
        assume f: "?core = Some (OK, Some i, Some a, s')" "rt_inv e s'" "rule_added e t tb (?ins a) a x r True s s'"
          "tbl_list s' = tbl_list s" "re_id x = i" "finds s' i (PRule a)"
        then show thesis using eq tb(1) b(1) Some by (intro added [of i a s' b tb x]) (simp_all add: f(1))
      next
        show "set (?ins a) = insert a (set (rt_rules tb)) \<and> distinct (?ins a) \<and> length (?ins a) = Suc (length (rt_rules tb)) \<and> remove1 a (?ins a) = rt_rules tb"
          if "a \<notin> set (rt_rules tb)" for a using insert_after_ok [OF _ b(1) that] tb(2) by (simp add: tbl_ok_def)
      qed (use v room in simp_all)
    qed
  qed
qed

section \<open>Deleting\<close>

lemma release_refs_eq:
  assumes "target_ok (hdb s) x"
  shows "release_refs e x s = map_option (\<lambda>d. s\<lparr>hdb := d\<rparr>) (with_opt (release_target (x_hdr e)) (target_of x) (hdb s))"
  using assms
  by (cases "re_hdr x"; cases "re_ctx x")
     (simp_all add: release_refs_def with_opt_def release_target_def target_of_def rt_freed_def target_ok_def split: Option.bind_split)

lemma store_release_opt:
  assumes "store_inv R d" "\<And>p. op = Some p \<Longrightarrow> R p \<noteq> 0"
  shows "\<exists>d'. with_opt (release_target e) op d = Some d' \<and> store_inv (\<lambda>p. R p - opt_ref op p) d' \<and> kept (\<lambda>p. R p - opt_ref op p) d d'"
proof (cases op)
  case None
  then show ?thesis using assms(1) kept_refl by (simp add: with_opt_def opt_ref_def)
next
  case (Some p)
  have "(\<lambda>q. R q - opt_ref (Some p) q) = R(p := R p - 1)" by (auto simp: opt_ref_def)
  then show ?thesis using store_release [OF assms(1) assms(2) [OF Some], of e] by (simp add: with_opt_def Some)
qed

text \<open>Under the invariant the check finds what the rule points to.\<close>

lemma target_handle:
  assumes inv: "rt_inv e s" and x: "r_rule s a = Some x"
  shows "re_hdr x = Some h \<Longrightarrow> hdr_by_handle (ru_hdr_hdl (re_rule x)) (hdb s) = Some (Some h) \<and> \<not> rt_freed (PHdr h) s"
    "re_ctx x = Some c \<Longrightarrow> ctx_by_handle (ru_ctx_hdl (re_rule x)) (hdb s) = Some (Some c) \<and> \<not> rt_freed (PCtx c) s"
proof -
  have t: "target_ok (hdb s) x" using rt_invD(2) [OF inv x] by (simp add: rule_ok_def)
  have i: "hdr_inv (hdb s)" using store_invD [OF rt_invD(1) [OF inv]] by blast
  show "hdr_by_handle (ru_hdr_hdl (re_rule x)) (hdb s) = Some (Some h) \<and> \<not> rt_freed (PHdr h) s" if h: "re_hdr x = Some h"
  proof -
    obtain he where he: "db_hdr (hdb s) h = Some he" "h_id he = ru_hdr_hdl (re_rule x)" using t h by (auto simp: target_ok_def)
    then show ?thesis using store_handle(3) [OF i he(1)] live_not_freed [OF i, of "PHdr h"] by (simp add: rt_freed_def store_live_def)
  qed
  show "ctx_by_handle (ru_ctx_hdl (re_rule x)) (hdb s) = Some (Some c) \<and> \<not> rt_freed (PCtx c) s" if c: "re_ctx x = Some c"
  proof -
    obtain y where y: "db_ctx (hdb s) c = Some y" "c_id y = ru_ctx_hdl (re_rule x)" using t c by (auto simp: target_ok_def)
    then show ?thesis using store_handle(4) [OF i y(1)] live_not_freed [OF i, of "PCtx c"] by (simp add: rt_freed_def store_live_def)
  qed
qed

lemma forget_gone_ok:
  assumes inv: "rt_inv e s" and x: "r_rule s a = Some x"
  shows "forget_gone a x s = Some (x, s)"
  using target_handle [OF inv x] x
  by (cases "re_hdr x"; cases "re_ctx x") (simp_all add: forget_gone_def fun_upd_idem)

lemma release_rule_ok:
  assumes inv: "rt_inv e s" and x: "r_rule s a = Some x"
  obtains d where "release_refs e' x s = Some (s\<lparr>hdb := d\<rparr>)" "store_inv (\<lambda>p. rule_refs s p - opt_ref (target_of x) p) d"
    "kept (\<lambda>p. rule_refs s p - opt_ref (target_of x) p) (hdb s) d"
proof -
  note v = rt_invD [OF inv]
  have t: "target_ok (hdb s) x" using v(2) [OF x] by (simp add: rule_ok_def)
  from store_release_opt [OF v(1), of "target_of x" "x_hdr e'"] rule_refs_pos [OF v(8) x] that
  show thesis by (auto simp: release_refs_eq [OF t])
qed

text \<open>A rule \<open>x\<close> was deleted from the table \<open>tb\<close>, and the table with it if that was its last use.\<close>

definition rule_gone :: "nat \<Rightarrow> rt_entry \<Rightarrow> rt_tbl \<Rightarrow> ip_type \<Rightarrow> rt_db \<Rightarrow> rt_db \<Rightarrow> bool" where
  "rule_gone a x tb ip s s' \<longleftrightarrow>
     (let tb' = tb\<lparr>rt_rules := remove1 a (rt_rules tb), rt_rule_cnt := rt_rule_cnt tb - 1\<rparr> in
      r_rule s' = (r_rule s)(a := None) \<and> (\<forall>p. finds s' (re_id x) p \<longrightarrow> False) \<and>
      (if rt_rule_cnt tb = 1 \<and> rt_ref_cnt tb = 0
       then tbl_list s' = (tbl_list s)(ip := remove1 (re_tbl x) (tbl_list s ip)) \<and> r_tbl s' = (r_tbl s)(re_tbl x \<mapsto> tb'\<lparr>rt_rule_ids := False\<rparr>)
       else tbl_list s' = tbl_list s \<and> r_tbl s' = (r_tbl s)(re_tbl x \<mapsto> tb')))"

lemma id_remove_swap: "ipa3_id_remove i (ipa3_id_remove j t) = ipa3_id_remove j (ipa3_id_remove i t)"
  by (cases "i = j") (simp_all add: ipa3_id_remove_def list_update_swap)

lemma tbl_in_one_list:
  assumes "rt_inv e s" "t \<in> set (tbl_list s ip)"
  shows "t \<in> set (tbl_list s ip') \<longleftrightarrow> ip' = ip" "t \<notin> set (reap_list s ip')"
proof -
  obtain tb where tb: "r_tbl s t = Some tb" "tbl_ok e s ip t tb" using rt_invD(3) [OF assms] by blast
  show "t \<in> set (tbl_list s ip') \<longleftrightarrow> ip' = ip" using rt_invD(3) [OF assms(1), of t ip'] tb assms(2) by (auto simp: tbl_ok_def)
  show "t \<notin> set (reap_list s ip')" using reaped_tbl [OF rt_invD(6) [OF assms(1)], of t ip'] tb by (auto simp: tbl_ok_def)
qed

text \<open>The part of the deletion that the reset shares: the rule leaves its table and gives its reference back.\<close>

lemma unlink_ok:
  assumes inv: "rt_inv e s" and x: "r_rule s a = Some x"
    and t: "re_tbl x \<in> set (tbl_list s ip)" "r_tbl s (re_tbl x) = Some tb" "tbl_ok e s ip (re_tbl x) tb"
    and d: "store_inv (\<lambda>p. rule_refs s p - opt_ref (target_of x) p) d" "kept (\<lambda>p. rule_refs s p - opt_ref (target_of x) p) (hdb s) d"
    and ids: "ids = (if re_rule_id_valid x then rule_ids s ip else remove1 (re_rule_id x) (rule_ids s ip))"
    and S: "S = (unlink_rule a x tb d s)\<lparr>rule_ids := (rule_ids s)(ip := ids)\<rparr>"
  shows "rt_inv e S" "tbl_list S = tbl_list s" "reap_list S = reap_list s"
    "r_tbl S = (r_tbl s)(re_tbl x \<mapsto> tb\<lparr>rt_rules := remove1 a (rt_rules tb), rt_rule_cnt := rt_rule_cnt tb - 1\<rparr>)"
    "r_rule S = (r_rule s)(a := None)" "\<not> finds S (re_id x) p" "db_hdr (hdb S) = db_hdr d" "db_ctx (hdb S) = db_ctx d"
proof -
  show "rt_inv e S" unfolding S
    by (rule rt_inv_frame [OF unlink_rule_inv [OF inv x t(2) d]]) simp_all
qed (simp_all add: S unlink_rule_def finds_def id_find_remove)

lemma del_rt_rule_ok:
  assumes inv: "rt_inv e s"
  obtains (refused) err where "del_rt_rule e' hdl s = Some (Err err, s)"
  | (deleted) a x ip tb d s' where "del_rt_rule e' hdl s = Some (OK, s')" "rt_inv e s'" "r_rule s a = Some x" "re_id x = hdl"
      "re_tbl x \<in> set (tbl_list s ip)" "r_tbl s (re_tbl x) = Some tb" "a \<in> set (rt_rules tb)" "rule_gone a x tb ip s s'"
      "\<not> (rt_name tb = x_dflt_name e' \<and> rt_rule_cnt tb = 1)" "finds s hdl (PRule a)"
      "with_opt (release_target (x_hdr e')) (target_of x) (hdb s) = Some d" "db_hdr (hdb s') = db_hdr d" "db_ctx (hdb s') = db_ctx d"
proof -
  show thesis
  proof (rule rule_lookup [OF inv, of hdl])
    assume "rule_by_handle hdl s = Some None"
    then show thesis by (intro refused [of EINVAL]) (simp add: del_rt_rule_def)
  next
    fix a x assume l: "rule_by_handle hdl s = Some (Some a)" "r_rule s a = Some x" "re_id x = hdl" "finds s hdl (PRule a)"
    note okx = rt_invD(2) [OF inv l(2), unfolded rule_ok_def]
    obtain ip tb where t: "re_tbl x \<in> set (tbl_list s ip)" "r_tbl s (re_tbl x) = Some tb" "a \<in> set (rt_rules tb)" using okx by blast
    have tok: "tbl_ok e s ip (re_tbl x) tb" using rt_invD(3) [OF inv t(1)] t(2) by auto
    have nf: "\<not> rt_freed (PRule a) s" using l(4) by (auto simp: rt_freed_def check_idr_if_freed finds_def)
    show thesis
    proof (cases "rt_name tb = x_dflt_name e' \<and> rt_rule_cnt tb = 1")
      case True
      then show thesis using l t(2) nf by (intro refused [of EINVAL]) (simp add: del_rt_rule_def)
    next
      case dflt: False
      show thesis
      proof (rule release_rule_ok [OF inv l(2), of e'])
        fix d assume d: "release_refs e' x s = Some (s\<lparr>hdb := d\<rparr>)" "store_inv (\<lambda>p. rule_refs s p - opt_ref (target_of x) p) d"
          "kept (\<lambda>p. rule_refs s p - opt_ref (target_of x) p) (hdb s) d"
        have od: "with_opt (release_target (x_hdr e')) (target_of x) (hdb s) = Some d"
        proof -
          have "target_ok (hdb s) x" using okx by blast
          from d(1) [unfolded release_refs_eq [OF this]] show ?thesis by (auto dest: arg_cong [of _ _ hdb])
        qed
        define ids where "ids = (if re_rule_id_valid x then rule_ids s ip else remove1 (re_rule_id x) (rule_ids s ip))"
        define S where "S = (unlink_rule a x tb d s)\<lparr>rule_ids := (rule_ids s)(ip := ids)\<rparr>"
        note u = unlink_ok [OF inv l(2) t(1,2) tok d(2,3) ids_def S_def]
        let ?tb = "tb\<lparr>rt_rules := remove1 a (rt_rules tb), rt_rule_cnt := rt_rule_cnt tb - 1\<rparr>"
        have set: "rt_set tb = ip" "rt_rule_ids tb" using tok by (simp_all add: tbl_ok_def)
        show thesis
        proof (cases "rt_rule_cnt tb = 1 \<and> rt_ref_cnt tb = 0")
          case False
          have "del_rt_rule e' hdl s = Some (OK, S)"
            using l t(2) nf dflt forget_gone_ok [OF inv l(2)] d(1) set False
            by (auto simp: del_rt_rule_def upd_tbl_def rid_remove_def rt_id_remove_def upd_hdb_def S_def ids_def unlink_rule_def)
          moreover have "rule_gone a x tb ip s S" using False u by (auto simp: rule_gone_def Let_def)
          ultimately show thesis using u(1,7,8) l t dflt od by (intro deleted [of S a x ip tb d]) simp_all
        next
          case last: True
          have "length (rt_rules tb) \<le> 1" using tok last by (auto simp: tbl_ok_def)
          then have empty: "remove1 a (rt_rules tb) = []" using t(3) by (cases "rt_rules tb") auto
          have tS: "re_tbl x \<in> set (tbl_list S ip)" "r_tbl S (re_tbl x) = Some ?tb" "rt_rules ?tb = []" using u t(1) empty by simp_all
          define S' where "S' = rt_id_remove (rt_id ?tb) (drop_tbl ip (re_tbl x) ?tb S)"
          have iS: "rt_inv e S'" unfolding S'_def by (rule drop_tbl_inv [OF u(1) tS])
          have ip: "ip \<noteq> IPA_IP_MAX" using rt_invD(6) [OF inv] t(1) by (auto simp: tbls_ok_def)
          have fd: "ipa3_id_find (rt_id tb) (db_idr d) = Some (PTbl (re_tbl x))"
            using tok d(3) by (simp add: tbl_ok_def finds_def kept_def others_kept_def)
          have "del_rt_rule e' hdl s = Some (OK, S')"
            using l t(2) nf dflt forget_gone_ok [OF inv l(2)] d(1) set last tok ip fd
            by (auto simp: del_rt_rule_def upd_tbl_def rid_remove_def del_rt_tbl_def rt_id_remove_def upd_hdb_def S_def S'_def ids_def unlink_rule_def
                drop_tbl_def clear_idx_def unlink_tbl_def Let_def tbl_ok_def id_remove_swap [of "re_id x"])
          moreover have "rule_gone a x tb ip s S'"
          proof -
            have "tbl_list S' = (tbl_list s)(ip := remove1 (re_tbl x) (tbl_list s ip))"
              using tbl_in_one_list(1) [OF inv t(1)] u(2)
              by (auto simp: S'_def rt_id_remove_def upd_hdb_def drop_tbl_def clear_idx_def unlink_tbl_def Let_def remove1_idem)
            moreover have "r_tbl S' = (r_tbl s)(re_tbl x \<mapsto> ?tb\<lparr>rt_rule_ids := False\<rparr>)"
              using tok u(4) by (auto simp: S'_def rt_id_remove_def upd_hdb_def drop_tbl_def clear_idx_def unlink_tbl_def Let_def tbl_ok_def)
            moreover have "r_rule S' = r_rule S" by (simp add: S'_def rt_id_remove_def upd_hdb_def drop_tbl_def clear_idx_def unlink_tbl_def Let_def)
            moreover have "\<not> finds S' (re_id x) p" for p using u(6)
              by (auto simp: finds_def S'_def rt_id_remove_def upd_hdb_def drop_tbl_def clear_idx_def unlink_tbl_def Let_def id_find_remove)
            ultimately show ?thesis using u(5) last by (simp add: rule_gone_def Let_def)
          qed
          moreover have "db_hdr (hdb S') = db_hdr d" "db_ctx (hdb S') = db_ctx d" using u(7,8)
            by (simp_all add: S'_def rt_id_remove_def upd_hdb_def drop_tbl_def clear_idx_def unlink_tbl_def Let_def)
          ultimately show thesis using iS l t dflt od by (intro deleted [of S' a x ip tb d]) simp_all
        qed
      qed
    qed
  qed
qed

section \<open>Changing a rule\<close>

text \<open>
  The old reference is dropped without a look at the count: it must not be the last one, or be
  taken again.
\<close>

definition may_mdfy_rule :: "nat \<Rightarrow> rt_rule \<Rightarrow> rt_db \<Rightarrow> bool" where
  "may_mdfy_rule hdl r s \<longleftrightarrow> (\<forall>a x. finds s hdl (PRule a) \<longrightarrow> r_rule s a = Some x \<longrightarrow>
     (target_room r s \<or> named_target r s = target_of x) \<and>
     (\<forall>p. target_of x = Some p \<longrightarrow> ref_count p (hdb s) \<noteq> 1 \<or> named_target r s = Some p))"

definition mdfied :: "rt_rule \<Rightarrow> nat option \<Rightarrow> nat option \<Rightarrow> rt_entry \<Rightarrow> rt_entry" where
  "mdfied r h c x = x\<lparr>re_rule := r, re_hdr := h, re_ctx := c, re_hw_len := 0, re_prio := 0,
     re_cnt_idx := (if ru_enable_stats r then ru_cnt_idx r else 0)\<rparr>"

lemma mdfy_rt_rule_ok:
  assumes inv: "rt_inv e s" and may: "may_mdfy_rule hdl r s"
  obtains (refused) err where "mdfy_rt_rule e hdl r s = Some (Err err, s)"
  | (changed) a x h c ip tb s' where "mdfy_rt_rule e hdl r s = Some (OK, s')" "rt_inv e s'" "r_rule s a = Some x" "re_id x = hdl"
      "finds s hdl (PRule a)" "r_rule s' = (r_rule s)(a \<mapsto> mdfied r h c x)" "r_tbl s' = r_tbl s" "tbl_list s' = tbl_list s"
      "re_tbl x \<in> set (tbl_list s ip)" "r_tbl s (re_tbl x) = Some tb" "a \<in> set (rt_rules tb)" "rt_name tb \<noteq> x_dflt_name e"
      "target_of (mdfied r h c x) = named_target r s" "db_idr (hdb s') = db_idr (hdb s)"
proof -
  show thesis
  proof (rule validate_ok [OF inv, of r])
    assume "rt_validate_hndls e r s = Some None"
    then show thesis by (intro refused [of EPERM]) (simp add: mdfy_rt_rule_def)
  next
    fix h c
    assume v: "rt_validate_hndls e r s = Some (Some (h, c))" "h = None \<or> c = None"
      "\<And>a. h = Some a \<Longrightarrow> named_target r s = Some (PHdr a) \<and> map_option h_id (db_hdr (hdb s) a) = Some (ru_hdr_hdl r)"
      "\<And>a. c = Some a \<Longrightarrow> named_target r s = Some (PCtx a) \<and> map_option c_id (db_ctx (hdb s) a) = Some (ru_ctx_hdl r)"
      "h = None \<Longrightarrow> ru_hdr_hdl r = 0" "c = None \<Longrightarrow> ru_ctx_hdl r = 0"
    show thesis
    proof (rule rule_lookup [OF inv, of hdl])
      assume "rule_by_handle hdl s = Some None"
      then show thesis using v(1) by (intro refused [of EPERM]) (simp add: mdfy_rt_rule_def)
    next
      fix a x assume l: "rule_by_handle hdl s = Some (Some a)" "r_rule s a = Some x" "re_id x = hdl" "finds s hdl (PRule a)"
      note okx = rt_invD(2) [OF inv l(2), unfolded rule_ok_def]
      obtain ip tb where t: "re_tbl x \<in> set (tbl_list s ip)" "r_tbl s (re_tbl x) = Some tb" "a \<in> set (rt_rules tb)" using okx by blast
      have nf: "\<not> rt_freed (PRule a) s" using l(4) by (auto simp: rt_freed_def check_idr_if_freed finds_def)
      note th = target_handle [OF inv l(2)]
      show thesis
      proof (cases "rt_name tb = x_dflt_name e")
        case True
        then show thesis using l t(2) nf v(1) by (intro refused [of EINVAL]) (simp add: mdfy_rt_rule_def)
      next
        case dflt: False
        define x1 where "x1 = mdfied r h c x"
        have tgt: "target_of x1 = named_target r s"
          using v(2-6) by (cases h; cases c) (auto simp: x1_def mdfied_def target_of_def named_target_def)
        have live: "case p of POther k b \<Rightarrow> False | _ \<Rightarrow> True" if "target_of x1 = Some p" for p
          using that by (auto simp: target_of_def split: option.splits)
        note m = may [unfolded may_mdfy_rule_def, rule_format, OF l(4,2)]
        have "\<exists>d1 d2. with_opt drop_target (target_of x) (hdb s) = Some d1 \<and> with_opt take_target (target_of x1) d1 = Some d2 \<and>
          store_inv (\<lambda>p. rule_refs s p - opt_ref (target_of x) p + opt_ref (target_of x1) p) d2 \<and> kept (\<lambda>q. 1) (hdb s) d2 \<and> db_idr d2 = db_idr (hdb s)"
        proof (rule store_move [OF rt_invD(1) [OF inv]])
          show "rule_refs s p \<noteq> 0 \<and> (ref_count p (hdb s) \<noteq> 1 \<or> target_of x1 = target_of x)" if "target_of x = Some p" for p
            using m that rule_refs_pos [OF rt_invD(8) [OF inv] l(2) that] tgt by auto
          show "ref_room p (hdb s) \<or> target_of x1 = target_of x" if "target_of x1 = Some p" for p
            using m that live [OF that] tgt by (auto simp: target_room_def split: hdr_ptr.splits)
        qed
        then obtain d1 d2 where d: "with_opt drop_target (target_of x) (hdb s) = Some d1" "with_opt take_target (target_of x1) d1 = Some d2"
          "store_inv (\<lambda>p. rule_refs s p - opt_ref (target_of x) p + opt_ref (target_of x1) p) d2" "kept (\<lambda>q. 1) (hdb s) d2" "db_idr d2 = db_idr (hdb s)"
          by blast
        have "target_ok (hdb s) x1" using v(2-4) by (auto simp: target_ok_def x1_def mdfied_def simp del: map_option_eq_Some)
        then have ok: "target_ok d2 x1" by (rule target_ok_kept [OF _ d(4)]) simp
        let ?S = "s\<lparr>r_rule := (r_rule s)(a \<mapsto> x1), hdb := d2\<rparr>"
        have "rt_inv e ?S" by (rule rt_inv_rule_upd [OF inv l(2) _ _ _ _ _ _ d(3,4) ok]) (simp_all add: x1_def mdfied_def)
        moreover have "mdfy_rt_rule e hdl r s = Some (OK, ?S)"
          using v(1) l t(2) nf dflt th d(1,2)
          by (cases "re_hdr x"; cases "re_ctx x")
             (simp_all add: mdfy_rt_rule_def drop_refs_eq take_refs_eq x1_def mdfied_def)
        ultimately show thesis using l t dflt tgt d(5) by (intro changed [of ?S a x h c ip tb]) (simp_all add: x1_def)
      qed
    qed
  qed
qed

section \<open>References on tables\<close>

lemma upd_ref_inv:
  "rt_inv e s \<Longrightarrow> r_tbl s t = Some tb \<Longrightarrow> rt_inv e (s\<lparr>r_tbl := (r_tbl s)(t \<mapsto> tb\<lparr>rt_ref_cnt := n\<rparr>)\<rparr>)"
  by (rule rt_inv_tbl_upd) simp_all

text \<open>The deletion of an empty table.\<close>

lemma del_rt_tbl_ok:
  assumes inv: "rt_inv e s" and t: "t \<in> set (tbl_list s ip)" "r_tbl s t = Some tb" "rt_rules tb = []"
  shows "del_rt_tbl t s = Some (OK, rt_id_remove (rt_id tb) (drop_tbl ip t tb s))" "rt_inv e (rt_id_remove (rt_id tb) (drop_tbl ip t tb s))"
proof -
  have tok: "tbl_ok e s ip t tb" using rt_invD(3) [OF inv t(1)] t(2) by auto
  have "ip \<noteq> IPA_IP_MAX" using rt_invD(6) [OF inv] t(1) by (auto simp: tbls_ok_def)
  then show "del_rt_tbl t s = Some (OK, rt_id_remove (rt_id tb) (drop_tbl ip t tb s))"
    using tok t(2) by (simp add: del_rt_tbl_def tbl_ok_def finds_def)
qed (rule drop_tbl_inv [OF inv t])

end
