(* ===== verification/Ipa_Rt_Commit.thy ===== *)
theory Ipa_Rt_Commit
  imports Ipa_Rt_Safe
begin

text \<open>
  The commit of the routing tables: the preparation, which gives every rule its priority and its
  length, the images of the tables, and the buffers that the hardware lets go of.
\<close>

section \<open>The bytes of a rule\<close>

definition gen_bytes :: "rt_env \<Rightarrow> ip_type \<Rightarrow> rt_entry \<Rightarrow> rt_db \<Rightarrow> byte list option" where
  "gen_bytes e ip x s =
     (let r = re_rule x in
      if ru_hashable r \<and> ru_pure_ack r \<or> e_ep (x_hdr e) (ru_dst r) = -1 \<or> \<not> IPA_CLIENT_IS_CONS e (ru_dst r) then None
      else do {
        (ht, lcl, ofst) \<leftarrow> hdr_of_rule e x s;
        x_gen e \<lparr>g_ip = ip, g_pipe = e_ep (x_hdr e) (ru_dst r), g_hdr_type = ht, g_hdr_lcl = lcl, g_hdr_ofst = ofst,
                 g_prio = re_prio x, g_id = re_rule_id x, g_rule = r, g_cnt_idx = re_cnt_idx x\<rparr> })"

lemma gen_bytes_cong:
  assumes "hdb s' = hdb s"
  shows "gen_bytes e ip x s' = gen_bytes e ip x s"
proof -
  have c: "ctx_of_rule e c s' = ctx_of_rule e c s" for c unfolding ctx_of_rule_def rt_freed_def assms ..
  show ?thesis unfolding gen_bytes_def hdr_of_rule_def c assms ..
qed

lemma gen_bytes_len: "gen_bytes e ip (x\<lparr>re_hw_len := n\<rparr>) s = gen_bytes e ip x s"
  by (simp add: gen_bytes_def hdr_of_rule_def Let_def)

lemma ctx_of_rule_ok:
  assumes inv: "hdr_inv_in {} {} (hdb s)" and c: "\<And>a. c = Some a \<Longrightarrow> db_ctx (hdb s) a \<noteq> None"
  shows "ctx_of_rule e c s \<noteq> None"
proof (cases c)
  case (Some a)
  then obtain y where y: "db_ctx (hdb s) a = Some y" using c by blast
  then obtain off oe where "c_off y = Some off" "db_off (hdb s) off = Some oe"
    using hdr_inv_inD(8) [OF inv y] by (auto simp: ctx_shape_def)
  then show ?thesis using y Some by (auto simp: ctx_of_rule_def)
qed (simp add: ctx_of_rule_def)

lemma hdr_of_rule_ok:
  assumes inv: "rt_inv e s" and x: "target_ok (hdb s) x"
  shows "hdr_of_rule e' x s \<noteq> None"
proof -
  note i = rt_hdr_inv [OF inv]
  show ?thesis
  proof (cases "re_ctx x")
    case (Some c)
    have "ctx_of_rule e' (re_ctx x) s \<noteq> None" by (rule ctx_of_rule_ok [OF i]) (use x in \<open>auto simp: target_ok_def\<close>)
    then show ?thesis using Some by (simp add: hdr_of_rule_def)
  next
    case no_ctx: None
    show ?thesis
    proof (cases "re_hdr x")
      case (Some a)
      then obtain h where h: "db_hdr (hdb s) a = Some h" using x by (auto simp: target_ok_def)
      show ?thesis
      proof (cases "h_ddr h")
        case True
        have "ctx_of_rule e' (h_ctx h) s \<noteq> None"
          by (rule ctx_of_rule_ok [OF i]) (use hdr_inv_inD(7) [OF i h] True in \<open>auto simp: hdr_counts_def\<close>)
        then show ?thesis using Some no_ctx h True by (simp add: hdr_of_rule_def)
      next
        case False
        then obtain off oe where "h_off h = Some off" "db_off (hdb s) off = Some oe" "h_cookie h = IPA_HDR_COOKIE"
          using hdr_inv_inD(6) [OF i h] by (auto simp: hdr_shape_def)
        then show ?thesis using Some no_ctx h False by (simp add: hdr_of_rule_def)
      qed
    qed (simp add: hdr_of_rule_def no_ctx)
  qed
qed

lemma generate_rt_hw_rule_eq:
  assumes inv: "rt_inv e s" and x: "r_rule s a = Some x"
  shows "generate_rt_hw_rule e' ip a s =
    (case gen_bytes e' ip x s of None \<Rightarrow> Some (Inl EPERM, s)
     | Some bs \<Rightarrow> if re_hw_len x \<noteq> 0 \<and> re_hw_len x \<noteq> length bs then Some (Inl EPERM, s)
         else Some (Inr bs, s\<lparr>r_rule := (r_rule s)(a \<mapsto> x\<lparr>re_hw_len := length bs\<rparr>)\<rparr>))"
proof -
  have t: "target_ok (hdb s) x" using rt_invD(2) [OF inv x] by (simp add: rule_ok_def)
  have g: "target_gone x s = Some False"
    using target_handle [OF inv x] by (cases "re_hdr x"; cases "re_ctx x") (simp_all add: target_gone_def)
  obtain ht lcl ofst where "hdr_of_rule e' x s = Some (ht, lcl, ofst)" using hdr_of_rule_ok [OF inv t] by fastforce
  then show ?thesis using x g
    by (auto simp: generate_rt_hw_rule_def gen_bytes_def Let_def split: option.splits)
qed

section \<open>Preparation\<close>

text \<open>What a commit may change in a rule.\<close>

definition rules_noted :: "rt_db \<Rightarrow> rt_db \<Rightarrow> bool" where
  "rules_noted s s' \<longleftrightarrow> (\<forall>a. rel_option (\<lambda>x x'. \<exists>n p. x' = x\<lparr>re_hw_len := n, re_prio := p\<rparr>) (r_rule s a) (r_rule s' a))"

definition rt_frame :: "rt_db \<Rightarrow> rt_db \<Rightarrow> bool" where
  "rt_frame s s' \<longleftrightarrow> hdb s' = hdb s \<and> tbl_list s' = tbl_list s \<and> rt_idx_bitmap s' = rt_idx_bitmap s \<and> tbl_cnt s' = tbl_cnt s \<and>
     rule_ids s' = rule_ids s \<and> r_next s \<le> r_next s' \<and> rules_noted s s'"

text \<open>What the preparation leaves alone beside that.\<close>

definition prep_frame :: "rt_db \<Rightarrow> rt_db \<Rightarrow> bool" where
  "prep_frame s s' \<longleftrightarrow> rt_frame s s' \<and> reap_list s' = reap_list s \<and> r_next s' = r_next s \<and> rt_mem s' = rt_mem s \<and> rt_hw s' = rt_hw s \<and>
     (\<forall>t. rel_option (\<lambda>tb tb'. \<exists>sz. tb' = tb\<lparr>rt_sz := sz\<rparr>) (r_tbl s t) (r_tbl s' t))"

lemma rules_noted_refl: "rules_noted s s"
  unfolding rules_noted_def
proof
  fix a
  show "rel_option (\<lambda>x x'. \<exists>n p. x' = x\<lparr>re_hw_len := n, re_prio := p\<rparr>) (r_rule s a) (r_rule s a)"
  proof (cases "r_rule s a")
    case (Some x)
    have "x = x\<lparr>re_hw_len := re_hw_len x, re_prio := re_prio x\<rparr>" by simp
    then show ?thesis using Some by (simp only: option.rel_inject) blast
  qed simp
qed

lemma rel_option_trans:
  assumes "rel_option P a b" "rel_option Q b c" "\<And>x y z. P x y \<Longrightarrow> Q y z \<Longrightarrow> R x z"
  shows "rel_option R a c"
  using assms by (cases a; cases b; cases c) auto

lemma rules_noted_trans:
  assumes "rules_noted s s1" "rules_noted s1 s2"
  shows "rules_noted s s2"
  unfolding rules_noted_def
proof
  fix a
  from assms have "rel_option (\<lambda>x x'. \<exists>n p. x' = x\<lparr>re_hw_len := n, re_prio := p\<rparr>) (r_rule s a) (r_rule s1 a)"
    "rel_option (\<lambda>x x'. \<exists>n p. x' = x\<lparr>re_hw_len := n, re_prio := p\<rparr>) (r_rule s1 a) (r_rule s2 a)"
    by (simp_all add: rules_noted_def)
  then show "rel_option (\<lambda>x x'. \<exists>n p. x' = x\<lparr>re_hw_len := n, re_prio := p\<rparr>) (r_rule s a) (r_rule s2 a)"
  proof (rule rel_option_trans)
    fix x y z :: rt_entry
    assume "\<exists>n p. y = x\<lparr>re_hw_len := n, re_prio := p\<rparr>" "\<exists>n p. z = y\<lparr>re_hw_len := n, re_prio := p\<rparr>"
    then obtain n p n' p' where "y = x\<lparr>re_hw_len := n, re_prio := p\<rparr>" "z = y\<lparr>re_hw_len := n', re_prio := p'\<rparr>" by blast
    then have "z = x\<lparr>re_hw_len := n', re_prio := p'\<rparr>" by simp
    then show "\<exists>n p. z = x\<lparr>re_hw_len := n, re_prio := p\<rparr>" by blast
  qed
qed

lemma rt_frame_trans: "rt_frame s s1 \<Longrightarrow> rt_frame s1 s2 \<Longrightarrow> rt_frame s s2"
  unfolding rt_frame_def using rules_noted_trans order_trans by auto

lemma rt_frame_refl: "rt_frame s s"
  by (simp add: rt_frame_def rules_noted_refl)

lemma prep_frame_refl: "prep_frame s s"
proof -
  have "rel_option (\<lambda>tb tb'. \<exists>sz. tb' = tb\<lparr>rt_sz := sz\<rparr>) (r_tbl s t) (r_tbl s t)" for t
  proof (cases "r_tbl s t")
    case (Some tb)
    have "tb = tb\<lparr>rt_sz := rt_sz tb\<rparr>" by simp
    then show ?thesis using Some by (simp only: option.rel_inject) blast
  qed simp
  then show ?thesis by (simp add: prep_frame_def rt_frame_refl)
qed

lemma prep_frame_trans:
  assumes "prep_frame s s1" "prep_frame s1 s2"
  shows "prep_frame s s2"
proof -
  have "rel_option (\<lambda>tb tb'. \<exists>sz. tb' = tb\<lparr>rt_sz := sz\<rparr>) (r_tbl s t) (r_tbl s2 t)" for t
  proof -
    from assms have "rel_option (\<lambda>tb tb'. \<exists>sz. tb' = tb\<lparr>rt_sz := sz\<rparr>) (r_tbl s t) (r_tbl s1 t)"
      "rel_option (\<lambda>tb tb'. \<exists>sz. tb' = tb\<lparr>rt_sz := sz\<rparr>) (r_tbl s1 t) (r_tbl s2 t)" by (simp_all add: prep_frame_def)
    then show ?thesis by (rule rel_option_trans) auto
  qed
  then show ?thesis using assms rt_frame_trans by (auto simp: prep_frame_def)
qed

text \<open>A rule whose bytes are known to exist, with the length it carries.\<close>

definition ready :: "rt_env \<Rightarrow> ip_type \<Rightarrow> rt_db \<Rightarrow> nat \<Rightarrow> bool" where
  "ready e ip s a \<longleftrightarrow> (\<exists>x bs. r_rule s a = Some x \<and> gen_bytes e ip x s = Some bs \<and> re_hw_len x = length bs)"

text \<open>The priorities of a list of rules: 0 for the flagged ones, then 1, 2 and so on.\<close>

fun prios :: "int \<Rightarrow> rt_entry list \<Rightarrow> int list" where
  "prios p [] = []"
| "prios p (x # xs) = (if ru_max_prio (re_rule x) then 0 # prios p xs else (p + 1) # prios (p + 1) xs)"

definition entries :: "rt_db \<Rightarrow> nat list \<Rightarrow> rt_entry list" where
  "entries s as = map (\<lambda>a. the (r_rule s a)) as"

definition type_len :: "rule_type \<Rightarrow> rt_entry list \<Rightarrow> nat" where
  "type_len rlt xs = sum_list (map re_hw_len (filter (\<lambda>x. type_of x = rlt) xs))"

lemma ready_cong: "r_rule s' a = r_rule s a \<Longrightarrow> hdb s' = hdb s \<Longrightarrow> ready e ip s' a \<longleftrightarrow> ready e ip s a"
  using gen_bytes_cong [of s' s] by (simp add: ready_def)

lemma noted_rule: "r_rule s a = Some x \<Longrightarrow> rules_noted s (s\<lparr>r_rule := (r_rule s)(a \<mapsto> x\<lparr>re_prio := p\<rparr>)\<rparr>)"
    "r_rule s a = Some x \<Longrightarrow> rules_noted s (s\<lparr>r_rule := (r_rule s)(a \<mapsto> x\<lparr>re_hw_len := n\<rparr>)\<rparr>)"
proof -
  assume x: "r_rule s a = Some x"
  have "x\<lparr>re_prio := p\<rparr> = x\<lparr>re_hw_len := re_hw_len x, re_prio := p\<rparr>" "x\<lparr>re_hw_len := n\<rparr> = x\<lparr>re_hw_len := n, re_prio := re_prio x\<rparr>" by simp_all
  then have "\<exists>m q. x\<lparr>re_prio := p\<rparr> = x\<lparr>re_hw_len := m, re_prio := q\<rparr>" "\<exists>m q. x\<lparr>re_hw_len := n\<rparr> = x\<lparr>re_hw_len := m, re_prio := q\<rparr>" by blast+
  then show "rules_noted s (s\<lparr>r_rule := (r_rule s)(a \<mapsto> x\<lparr>re_prio := p\<rparr>)\<rparr>)" "rules_noted s (s\<lparr>r_rule := (r_rule s)(a \<mapsto> x\<lparr>re_hw_len := n\<rparr>)\<rparr>)"
    using rules_noted_refl [of s] x by (simp_all add: rules_noted_def)
qed

lemma prep_rule_frame:
  "r_rule s a = Some x \<Longrightarrow> prep_frame s (s\<lparr>r_rule := (r_rule s)(a \<mapsto> x\<lparr>re_prio := p\<rparr>)\<rparr>)"
  "r_rule s a = Some x \<Longrightarrow> prep_frame s (s\<lparr>r_rule := (r_rule s)(a \<mapsto> x\<lparr>re_hw_len := n\<rparr>)\<rparr>)"
  using noted_rule [of s a x] prep_frame_refl [of s] by (simp_all add: prep_frame_def rt_frame_def)

lemma prep_tbl_frame:
  assumes "r_tbl s t = Some tb"
  shows "prep_frame s (s\<lparr>r_tbl := (r_tbl s)(t \<mapsto> tb\<lparr>rt_sz := sz\<rparr>)\<rparr>)"
proof -
  have "rel_option (\<lambda>tb tb'. \<exists>sz. tb' = tb\<lparr>rt_sz := sz\<rparr>) (r_tbl s u) ((if u = t then Some (tb\<lparr>rt_sz := sz\<rparr>) else r_tbl s u))" for u
    using assms prep_frame_refl [of s] by (auto simp: prep_frame_def)
  then show ?thesis using rules_noted_refl [of s] by (simp add: prep_frame_def rt_frame_def rules_noted_def)
qed

lemma prep_rules_ok:
  assumes "rt_inv e s" "r_tbl s t = Some tb" "distinct as" "\<forall>a \<in> set as. r_rule s a \<noteq> None" "0 \<le> p" "p + int (length as) \<le> 1023"
  shows "\<exists>r s'. prep_rules e ip t as p s = Some (r, s') \<and> rt_inv e s' \<and> prep_frame s s' \<and>
    (r = OK \<longrightarrow> (\<forall>a \<in> set as. ready e ip s' a) \<and> (\<forall>b. b \<notin> set as \<longrightarrow> r_rule s' b = r_rule s b) \<and>
       r_tbl s' = (r_tbl s)(t \<mapsto> tb\<lparr>rt_sz := \<lambda>r. rt_sz tb r + type_len r (entries s' as)\<rparr>) \<and>
       map re_prio (entries s' as) = prios p (entries s as))"
  using assms
proof (induction as arbitrary: s p tb)
  case Nil
  have "r_tbl s = (r_tbl s)(t \<mapsto> tb\<lparr>rt_sz := \<lambda>r. rt_sz tb r + type_len r (entries s [])\<rparr>)"
    using Nil.prems(2) by (auto simp: type_len_def entries_def)
  then show ?case using Nil.prems(1) prep_frame_refl by (auto simp: entries_def)
next
  case (Cons a as)
  obtain x where x: "r_rule s a = Some x" using Cons.prems(4) by auto
  define q where "q = (if ru_max_prio (re_rule x) then 0 else p + 1)"
  define p' where "p' = (if ru_max_prio (re_rule x) then p else p + 1)"
  have q: "0 \<le> q" "q \<le> 1023" "0 \<le> p'" "p' + int (length as) \<le> 1023" using Cons.prems(5,6) by (auto simp: q_def p'_def)
  have np: "next_prio x p = Inr (q, p')"
    using Cons.prems(5,6) by (simp add: next_prio_def q_def p'_def rule_decrease_priority_def RULE_MAX_PRIORITY_def RULE_MIN_PRIORITY_def)
  define x1 where "x1 = x\<lparr>re_prio := q\<rparr>"
  define s1 where "s1 = s\<lparr>r_rule := (r_rule s)(a \<mapsto> x1)\<rparr>"
  have i1: "rt_inv e s1" unfolding s1_def by (rule rt_inv_rule_note [OF Cons.prems(1) x]) (simp_all add: x1_def q)
  have f1: "prep_frame s s1" using prep_rule_frame(1) [OF x] by (simp add: s1_def x1_def)
  have x1: "r_rule s1 a = Some x1" by (simp add: s1_def)
  note g = generate_rt_hw_rule_eq [OF i1 x1, of e ip]
  have step: "prep_rules e ip t (a # as) p s = do {
      (g, s2) \<leftarrow> generate_rt_hw_rule e ip a s1;
      case g of Inl err \<Rightarrow> Some (Err EPERM, s2)
      | Inr bs \<Rightarrow> do {
          s3 \<leftarrow> upd_tbl t (\<lambda>tb. tb\<lparr>rt_sz := (rt_sz tb)(type_of x := rt_sz tb (type_of x) + length bs)\<rparr>) s2;
          prep_rules e ip t as p' s3 } }"
    using x np by (simp add: s1_def x1_def)
  show ?case
  proof (cases "\<exists>bs. gen_bytes e ip x1 s1 = Some bs \<and> (re_hw_len x1 = 0 \<or> re_hw_len x1 = length bs)")
    case False
    then have "prep_rules e ip t (a # as) p s = Some (Err EPERM, s1)" unfolding step g by (auto split: option.splits)
    then show ?thesis using i1 f1 by blast
  next
    case True
    then obtain bs where bs: "gen_bytes e ip x1 s1 = Some bs" "re_hw_len x1 = 0 \<or> re_hw_len x1 = length bs" by blast
    define x2 where "x2 = x1\<lparr>re_hw_len := length bs\<rparr>"
    define tb2 where "tb2 = tb\<lparr>rt_sz := (rt_sz tb)(type_of x := rt_sz tb (type_of x) + length bs)\<rparr>"
    define s2 where "s2 = s1\<lparr>r_rule := (r_rule s1)(a \<mapsto> x2)\<rparr>"
    define s3 where "s3 = s2\<lparr>r_tbl := (r_tbl s2)(t \<mapsto> tb2)\<rparr>"
    have tb: "r_tbl s2 t = Some tb" using Cons.prems(2) by (simp add: s2_def s1_def)
    have "rt_inv e s2" unfolding s2_def by (rule rt_inv_rule_note [OF i1 x1]) (simp_all add: x2_def x1_def q)
    then have i3: "rt_inv e s3" unfolding s3_def by (rule rt_inv_tbl_upd [OF _ tb]) (simp_all add: tb2_def)
    have "prep_frame s1 s2" using prep_rule_frame(2) [OF x1] by (simp add: s2_def x2_def)
    moreover have "prep_frame s2 s3" unfolding s3_def tb2_def by (rule prep_tbl_frame [OF tb])
    ultimately have f3: "prep_frame s s3" using f1 prep_frame_trans by blast
    have run: "prep_rules e ip t (a # as) p s = prep_rules e ip t as p' s3"
      unfolding step g using bs tb by (auto simp: upd_tbl_def s3_def s2_def x2_def tb2_def)
    have "r_tbl s3 t = Some tb2" "distinct as" "\<forall>b \<in> set as. r_rule s3 b \<noteq> None"
      using Cons.prems(3,4) by (auto simp: s3_def s2_def s1_def)
    from Cons.IH [OF i3 this q(3,4)] obtain r s' where s': "prep_rules e ip t as p' s3 = Some (r, s')" "rt_inv e s'" "prep_frame s3 s'"
      "r = OK \<Longrightarrow> (\<forall>a \<in> set as. ready e ip s' a) \<and> (\<forall>b. b \<notin> set as \<longrightarrow> r_rule s' b = r_rule s3 b) \<and>
         r_tbl s' = (r_tbl s3)(t \<mapsto> tb2\<lparr>rt_sz := \<lambda>r. rt_sz tb2 r + type_len r (entries s' as)\<rparr>) \<and>
         map re_prio (entries s' as) = prios p' (entries s3 as)" by blast
    have fr: "prep_frame s s'" by (rule prep_frame_trans [OF f3 s'(3)])
    have res: "r = OK \<longrightarrow> (\<forall>a \<in> set (a # as). ready e ip s' a) \<and> (\<forall>b. b \<notin> set (a # as) \<longrightarrow> r_rule s' b = r_rule s b) \<and>
       r_tbl s' = (r_tbl s)(t \<mapsto> tb\<lparr>rt_sz := \<lambda>r. rt_sz tb r + type_len r (entries s' (a # as))\<rparr>) \<and>
       map re_prio (entries s' (a # as)) = prios p (entries s (a # as))"
    proof
      assume ok: "r = OK"
      note k = s'(4) [OF ok]
      have a: "a \<notin> set as" using Cons.prems(3) by simp
      then have ra: "r_rule s' a = Some x2" using k by (simp add: s3_def s2_def)
      have "hdb s' = hdb s1" using s'(3) by (simp add: prep_frame_def rt_frame_def s3_def s2_def)
      from gen_bytes_cong [OF this] have "gen_bytes e ip x2 s' = Some bs" using bs(1) by (simp add: x2_def gen_bytes_len)
      then have rd: "ready e ip s' a" using ra by (simp add: ready_def x2_def)
      have es: "entries s3 as = entries s as" using a by (auto simp: entries_def s3_def s2_def s1_def)
      have ty: "type_of x2 = type_of x" by (simp add: type_of_def x2_def x1_def)
      have "(\<lambda>r. rt_sz tb2 r + type_len r (entries s' as)) = (\<lambda>r. rt_sz tb r + type_len r (entries s' (a # as)))"
        using ra ty by (auto simp: tb2_def type_len_def entries_def x2_def)
      then have tbl: "r_tbl s' = (r_tbl s)(t \<mapsto> tb\<lparr>rt_sz := \<lambda>r. rt_sz tb r + type_len r (entries s' (a # as))\<rparr>)"
        using k by (simp add: s3_def s2_def s1_def tb2_def)
      have "map re_prio (entries s' (a # as)) = q # prios p' (entries s as)"
      proof -
        have "map re_prio (entries s' as) = prios p' (entries s as)" using k es by simp
        moreover have "entries s' (a # as) = x2 # entries s' as" using ra by (simp add: entries_def)
        ultimately show ?thesis by (simp add: x2_def x1_def)
      qed
      also have "\<dots> = prios p (entries s (a # as))" using x by (simp add: entries_def q_def p'_def)
      finally show "(\<forall>a \<in> set (a # as). ready e ip s' a) \<and> (\<forall>b. b \<notin> set (a # as) \<longrightarrow> r_rule s' b = r_rule s b) \<and>
        r_tbl s' = (r_tbl s)(t \<mapsto> tb\<lparr>rt_sz := \<lambda>r. rt_sz tb r + type_len r (entries s' (a # as))\<rparr>) \<and>
        map re_prio (entries s' (a # as)) = prios p (entries s (a # as))"
        using k rd tbl a by (auto simp: s3_def s2_def s1_def)
    qed
    show ?thesis using trans [OF run s'(1)] s'(2) fr res by (intro exI [of _ r] exI [of _ s'] conjI)
  qed
qed

definition prepared :: "rt_env \<Rightarrow> ip_type \<Rightarrow> rt_db \<Rightarrow> nat \<Rightarrow> bool" where
  "prepared e ip s t \<longleftrightarrow> (\<exists>tb. r_tbl s t = Some tb \<and> (\<forall>a \<in> set (rt_rules tb). ready e ip s a) \<and>
     (\<forall>r. rt_sz tb r = (let n = type_len r (entries s (rt_rules tb)) in if n = 0 then 0 else n + x_hdr_width e)) \<and>
     map re_prio (entries s (rt_rules tb)) = prios 0 (entries s (rt_rules tb)))"

lemma prios_cong: "map re_rule xs = map re_rule ys \<Longrightarrow> prios p xs = prios p ys"
proof (induction xs arbitrary: p ys)
  case (Cons x xs)
  then show ?case by (cases ys) auto
qed simp

lemma noted_rules: "rules_noted s s' \<Longrightarrow> r_rule s a = Some x \<Longrightarrow> \<exists>n p. r_rule s' a = Some (x\<lparr>re_hw_len := n, re_prio := p\<rparr>)"
  by (drule rules_noted_def [THEN iffD1, rule_format, of _ _ a]) (auto simp: option_rel_Some1)

lemma entries_noted:
  assumes "rules_noted s s'" "\<forall>a \<in> set as. r_rule s a \<noteq> None"
  shows "map re_rule (entries s' as) = map re_rule (entries s as)"
  unfolding entries_def map_map
proof (rule map_cong [OF refl])
  fix a assume "a \<in> set as"
  then obtain x where x: "r_rule s a = Some x" using assms(2) by auto
  then obtain n p where "r_rule s' a = Some (x\<lparr>re_hw_len := n, re_prio := p\<rparr>)" using noted_rules [OF assms(1)] by blast
  then show "(re_rule \<circ> (\<lambda>a. the (r_rule s' a))) a = (re_rule \<circ> (\<lambda>a. the (r_rule s a))) a" using x by simp
qed

lemma prepared_cong:
  assumes "prepared e ip s t" "r_tbl s' t = r_tbl s t" "hdb s' = hdb s"
    "\<And>tb a. r_tbl s t = Some tb \<Longrightarrow> a \<in> set (rt_rules tb) \<Longrightarrow> r_rule s' a = r_rule s a"
  shows "prepared e ip s' t"
proof -
  obtain tb where tb: "r_tbl s t = Some tb" using assms(1) by (auto simp: prepared_def)
  have "entries s' (rt_rules tb) = entries s (rt_rules tb)" using assms(4) [OF tb] by (simp add: entries_def)
  moreover have "ready e ip s' a \<longleftrightarrow> ready e ip s a" if "a \<in> set (rt_rules tb)" for a
    by (rule ready_cong [OF assms(4) [OF tb that] assms(3)])
  ultimately show ?thesis using assms(1,2) tb by (auto simp: prepared_def)
qed

lemma prep_rt_tbl_for_cmt_ok:
  assumes inv: "rt_inv e s" and t: "t \<in> set (tbl_list s ip)" "r_tbl s t = Some tb"
  shows "\<exists>r s'. prep_rt_tbl_for_cmt e ip t s = Some (r, s') \<and> rt_inv e s' \<and> prep_frame s s' \<and>
    (r = OK \<longrightarrow> prepared e ip s' t \<and> (\<forall>b. b \<notin> set (rt_rules tb) \<longrightarrow> r_rule s' b = r_rule s b) \<and> (\<forall>u. u \<noteq> t \<longrightarrow> r_tbl s' u = r_tbl s u))"
proof -
  have tok: "tbl_ok e s ip t tb" using rt_invD(3) [OF inv t(1)] t(2) by auto
  let ?as = "rt_rules tb"
  define tb1 where "tb1 = tb\<lparr>rt_sz := \<lambda>r. 0\<rparr>"
  define s1 where "s1 = s\<lparr>r_tbl := (r_tbl s)(t \<mapsto> tb1)\<rparr>"
  have i1: "rt_inv e s1" unfolding s1_def by (rule rt_inv_tbl_upd [OF inv t(2)]) (simp_all add: tb1_def)
  have f1: "prep_frame s s1" unfolding s1_def tb1_def by (rule prep_tbl_frame [OF t(2)])
  have "unat (rt_rule_cnt tb) \<le> 512" using tok by (simp add: tbl_ok_def IPA_RULE_CNT_MAX_def word_le_nat_alt)
  then have len: "RULE_MAX_PRIORITY + int (length ?as) \<le> 1023" "0 \<le> RULE_MAX_PRIORITY" using tok by (simp_all add: tbl_ok_def RULE_MAX_PRIORITY_def)
  have tb1: "r_tbl s1 t = Some tb1" "distinct ?as" "\<forall>a \<in> set ?as. r_rule s1 a \<noteq> None" using tok by (auto simp: s1_def tbl_ok_def)
  obtain r s2 where s2: "prep_rules e ip t ?as RULE_MAX_PRIORITY s1 = Some (r, s2)" "rt_inv e s2" "prep_frame s1 s2"
    "r = OK \<longrightarrow> (\<forall>a \<in> set ?as. ready e ip s2 a) \<and> (\<forall>b. b \<notin> set ?as \<longrightarrow> r_rule s2 b = r_rule s1 b) \<and>
       r_tbl s2 = (r_tbl s1)(t \<mapsto> tb1\<lparr>rt_sz := \<lambda>r. rt_sz tb1 r + type_len r (entries s2 ?as)\<rparr>) \<and>
       map re_prio (entries s2 ?as) = prios RULE_MAX_PRIORITY (entries s1 ?as)"
    using prep_rules_ok [OF i1 tb1 len(2,1), of ip] by (elim exE conjE) (rule that)
  have f2: "prep_frame s s2" by (rule prep_frame_trans [OF f1 s2(3)])
  show ?thesis
  proof (cases "r = OK")
    case False
    then have "prep_rt_tbl_for_cmt e ip t s = Some (r, s2)"
      using t(2) s2(1) by (simp add: prep_rt_tbl_for_cmt_def upd_tbl_def s1_def tb1_def)
    then show ?thesis using False s2(2) f2 by blast
  next
    case True
    note k = s2(4) [rule_format, OF True]
    define tb2 where "tb2 = tb1\<lparr>rt_sz := \<lambda>r. type_len r (entries s2 ?as)\<rparr>"
    define tb3 where "tb3 = tb2\<lparr>rt_sz := \<lambda>r. if rt_sz tb2 r \<noteq> 0 then rt_sz tb2 r + x_hdr_width e else 0\<rparr>"
    define s3 where "s3 = s2\<lparr>r_tbl := (r_tbl s2)(t \<mapsto> tb3)\<rparr>"
    have tb2: "r_tbl s2 t = Some tb2" using k by (simp add: tb2_def tb1_def)
    have i3: "rt_inv e s3" unfolding s3_def by (rule rt_inv_tbl_upd [OF s2(2) tb2]) (simp_all add: tb3_def)
    have "prep_frame s2 s3" unfolding s3_def tb3_def by (rule prep_tbl_frame [OF tb2])
    then have f3: "prep_frame s s3" by (rule prep_frame_trans [OF f2])
    have run: "prep_rt_tbl_for_cmt e ip t s = Some (OK, s3)"
      using t(2) s2(1) True tb2 by (simp add: prep_rt_tbl_for_cmt_def upd_tbl_def s1_def tb1_def s3_def tb3_def)
    have es: "entries s3 ?as = entries s2 ?as" by (simp add: entries_def s3_def)
    have rules: "rt_rules tb3 = ?as" by (simp add: tb3_def tb2_def tb1_def)
    have "map re_rule (entries s2 ?as) = map re_rule (entries s1 ?as)"
      using s2(3) tb1(3) by (intro entries_noted) (simp_all add: prep_frame_def rt_frame_def)
    then have "prios 0 (entries s2 ?as) = prios 0 (entries s1 ?as)" by (rule prios_cong)
    then have "map re_prio (entries s3 ?as) = prios 0 (entries s3 ?as)" using k es by (simp add: RULE_MAX_PRIORITY_def)
    moreover have "\<forall>a \<in> set ?as. ready e ip s3 a" using k ready_cong [of s3 _ s2] by (simp add: s3_def)
    moreover have "rt_sz tb3 r = (let n = type_len r (entries s3 ?as) in if n = 0 then 0 else n + x_hdr_width e)" for r
      by (simp add: tb3_def tb2_def es Let_def)
    ultimately have "prepared e ip s3 t" unfolding prepared_def by (intro exI [of _ tb3]) (simp add: s3_def rules)
    moreover have "\<forall>b. b \<notin> set ?as \<longrightarrow> r_rule s3 b = r_rule s b" "\<forall>u. u \<noteq> t \<longrightarrow> r_tbl s3 u = r_tbl s u"
      using k by (simp_all add: s3_def s1_def)
    ultimately show ?thesis using run i3 f3 by blast
  qed
qed

lemma prep_tbls_ok:
  assumes "rt_inv e s" "set ts \<subseteq> set (tbl_list s ip)" "distinct ts"
  shows "\<exists>r s'. prep_tbls e ip ts s = Some (r, s') \<and> rt_inv e s' \<and> prep_frame s s' \<and>
    (r = OK \<longrightarrow> (\<forall>t \<in> set ts. prepared e ip s' t) \<and> (\<forall>b x. r_rule s b = Some x \<longrightarrow> re_tbl x \<notin> set ts \<longrightarrow> r_rule s' b = r_rule s b) \<and>
       (\<forall>u. u \<notin> set ts \<longrightarrow> r_tbl s' u = r_tbl s u))"
  using assms
proof (induction ts arbitrary: s)
  case Nil
  then show ?case using prep_frame_refl by auto
next
  case (Cons t ts)
  obtain tb where tb: "r_tbl s t = Some tb" "tbl_ok e s ip t tb" using rt_invD(3) [OF Cons.prems(1), of t ip] Cons.prems(2) by auto
  have t: "t \<in> set (tbl_list s ip)" using Cons.prems(2) by simp
  obtain r1 s1 where s1: "prep_rt_tbl_for_cmt e ip t s = Some (r1, s1)" "rt_inv e s1" "prep_frame s s1"
    "r1 = OK \<longrightarrow> prepared e ip s1 t \<and> (\<forall>b. b \<notin> set (rt_rules tb) \<longrightarrow> r_rule s1 b = r_rule s b) \<and> (\<forall>u. u \<noteq> t \<longrightarrow> r_tbl s1 u = r_tbl s u)"
    using prep_rt_tbl_for_cmt_ok [OF Cons.prems(1) t tb(1)] by blast
  show ?case
  proof (cases "r1 = OK")
    case False
    then show ?thesis using s1 by (intro exI [of _ r1] exI [of _ s1]) simp
  next
    case True
    note k = s1(4) [rule_format, OF True]
    have l1: "set ts \<subseteq> set (tbl_list s1 ip)" "distinct ts" "t \<notin> set ts"
      using s1(3) Cons.prems(2,3) by (simp_all add: prep_frame_def rt_frame_def)
    obtain r s' where s': "prep_tbls e ip ts s1 = Some (r, s')" "rt_inv e s'" "prep_frame s1 s'"
      "r = OK \<longrightarrow> (\<forall>t \<in> set ts. prepared e ip s' t) \<and> (\<forall>b x. r_rule s1 b = Some x \<longrightarrow> re_tbl x \<notin> set ts \<longrightarrow> r_rule s' b = r_rule s1 b) \<and>
       (\<forall>u. u \<notin> set ts \<longrightarrow> r_tbl s' u = r_tbl s1 u)"
      using Cons.IH [OF s1(2) l1(1,2)] by blast
    have run: "prep_tbls e ip (t # ts) s = Some (r, s')" using s1(1) True s'(1) by simp
    have fr: "prep_frame s s'" by (rule prep_frame_trans [OF s1(3) s'(3)])
    have res: "(\<forall>t \<in> set (t # ts). prepared e ip s' t) \<and> (\<forall>b x. r_rule s b = Some x \<longrightarrow> re_tbl x \<notin> set (t # ts) \<longrightarrow> r_rule s' b = r_rule s b) \<and>
       (\<forall>u. u \<notin> set (t # ts) \<longrightarrow> r_tbl s' u = r_tbl s u)" if ok: "r = OK"
    proof (intro conjI)
      note k' = s'(4) [rule_format, OF ok]
      have n1: "\<exists>n p. r_rule s1 b = Some (x\<lparr>re_hw_len := n, re_prio := p\<rparr>)" if "r_rule s b = Some x" for b x
        using noted_rules [OF _ that] s1(3) by (simp add: prep_frame_def rt_frame_def)
      have "prepared e ip s' t"
      proof (rule prepared_cong)
        show "prepared e ip s1 t" using k by blast
        show "r_tbl s' t = r_tbl s1 t" using k' l1(3) by blast
        show "hdb s' = hdb s1" using s'(3) by (simp add: prep_frame_def rt_frame_def)
        fix ub a assume u: "r_tbl s1 t = Some ub" "a \<in> set (rt_rules ub)"
        obtain vb where "r_tbl s1 t = Some vb" "tbl_ok e s1 ip t vb"
          using rt_invD(3) [OF s1(2), of t ip] t s1(3) by (auto simp: prep_frame_def rt_frame_def)
        then obtain x where "r_rule s1 a = Some x" "re_tbl x = t" using u by (auto simp: tbl_ok_def)
        then show "r_rule s' a = r_rule s1 a" using k' l1(3) by blast
      qed
      then show "\<forall>t \<in> set (t # ts). prepared e ip s' t" using k' by simp
      show "\<forall>b x. r_rule s b = Some x \<longrightarrow> re_tbl x \<notin> set (t # ts) \<longrightarrow> r_rule s' b = r_rule s b"
      proof (intro allI impI)
        fix b x assume b: "r_rule s b = Some x" "re_tbl x \<notin> set (t # ts)"
        have "b \<notin> set (rt_rules tb)" using b tb(2) by (auto simp: tbl_ok_def)
        then have e: "r_rule s1 b = r_rule s b" using k by blast
        then have "r_rule s1 b = Some x" "re_tbl x \<notin> set ts" using b by simp_all
        then show "r_rule s' b = r_rule s b" using k' e by metis
      qed
      show "\<forall>u. u \<notin> set (t # ts) \<longrightarrow> r_tbl s' u = r_tbl s u" using k k' by simp
    qed
    show ?thesis using run s'(2) fr res by blast
  qed
qed

section \<open>The images of the tables\<close>

text \<open>The bytes of the rules of one type.\<close>

definition rules_img :: "rt_env \<Rightarrow> ip_type \<Rightarrow> rule_type \<Rightarrow> rt_db \<Rightarrow> nat list \<Rightarrow> byte list" where
  "rules_img e ip rlt s as = concat (map (\<lambda>x. the (gen_bytes e ip x s)) (filter (\<lambda>x. type_of x = rlt) (entries s as)))"

lemma rules_img_cong: "r_rule s' = r_rule s \<Longrightarrow> hdb s' = hdb s \<Longrightarrow> rules_img e ip rlt s' as = rules_img e ip rlt s as"
  using gen_bytes_cong [of s' s] by (simp add: rules_img_def entries_def)

lemma rules_img_len: "\<forall>a \<in> set as. ready e ip s a \<Longrightarrow> length (rules_img e ip rlt s as) = type_len rlt (entries s as)"
  by (induction as) (auto simp: rules_img_def type_len_def entries_def ready_def)

lemma rules_bytes_ok:
  assumes "rt_inv e s" "\<forall>a \<in> set as. ready e ip s a"
  shows "rules_bytes e ip rlt as s = Some (Some (rules_img e ip rlt s as), s)"
  using assms(2)
proof (induction as)
  case Nil
  then show ?case by (simp add: rules_img_def entries_def)
next
  case (Cons a as)
  obtain x bs where x: "r_rule s a = Some x" "gen_bytes e ip x s = Some bs" "re_hw_len x = length bs" using Cons.prems by (auto simp: ready_def)
  have "x\<lparr>re_hw_len := length bs\<rparr> = x" using x(3) by simp
  then have "generate_rt_hw_rule e ip a s = Some (Inr bs, s)"
    using generate_rt_hw_rule_eq [OF assms(1) x(1), of e ip] x by (simp add: fun_upd_idem)
  then show ?case using Cons x by (simp add: rules_img_def entries_def)
qed

text \<open>What the translation may change: buffers, and which of them a table has.\<close>

definition trans_frame :: "rt_db \<Rightarrow> rt_db \<Rightarrow> bool" where
  "trans_frame s s' \<longleftrightarrow> hdb s' = hdb s \<and> tbl_list s' = tbl_list s \<and> rt_idx_bitmap s' = rt_idx_bitmap s \<and> tbl_cnt s' = tbl_cnt s \<and>
     rule_ids s' = rule_ids s \<and> r_next s \<le> r_next s' \<and> r_rule s' = r_rule s \<and> reap_list s' = reap_list s \<and> rt_hw s' = rt_hw s \<and>
     (\<forall>b < r_next s. rt_mem s' b = rt_mem s b) \<and>
     (\<forall>t. rel_option (\<lambda>tb tb'. \<exists>c p. tb' = tb\<lparr>rt_curr := c, rt_prev := p\<rparr>) (r_tbl s t) (r_tbl s' t))"

lemma trans_frame_refl: "trans_frame s s"
proof -
  have "rel_option (\<lambda>tb tb'. \<exists>c p. tb' = tb\<lparr>rt_curr := c, rt_prev := p\<rparr>) (r_tbl s t) (r_tbl s t)" for t
  proof (cases "r_tbl s t")
    case (Some tb)
    have "tb = tb\<lparr>rt_curr := rt_curr tb, rt_prev := rt_prev tb\<rparr>" by simp
    then show ?thesis using Some by (simp only: option.rel_inject) blast
  qed simp
  then show ?thesis by (simp add: trans_frame_def)
qed

lemma trans_frame_trans:
  assumes "trans_frame s s1" "trans_frame s1 s2"
  shows "trans_frame s s2"
proof -
  have "rel_option (\<lambda>tb tb'. \<exists>c p. tb' = tb\<lparr>rt_curr := c, rt_prev := p\<rparr>) (r_tbl s t) (r_tbl s2 t)" for t
  proof -
    from assms have "rel_option (\<lambda>tb tb'. \<exists>c p. tb' = tb\<lparr>rt_curr := c, rt_prev := p\<rparr>) (r_tbl s t) (r_tbl s1 t)"
      "rel_option (\<lambda>tb tb'. \<exists>c p. tb' = tb\<lparr>rt_curr := c, rt_prev := p\<rparr>) (r_tbl s1 t) (r_tbl s2 t)" by (simp_all add: trans_frame_def)
    then show ?thesis
    proof (rule rel_option_trans)
      fix x y z :: rt_tbl
      assume "\<exists>c p. y = x\<lparr>rt_curr := c, rt_prev := p\<rparr>" "\<exists>c p. z = y\<lparr>rt_curr := c, rt_prev := p\<rparr>"
      then obtain c p c' p' where "y = x\<lparr>rt_curr := c, rt_prev := p\<rparr>" "z = y\<lparr>rt_curr := c', rt_prev := p'\<rparr>" by blast
      then have "z = x\<lparr>rt_curr := c', rt_prev := p'\<rparr>" by simp
      then show "\<exists>c p. z = x\<lparr>rt_curr := c, rt_prev := p\<rparr>" by blast
    qed
  qed
  then show ?thesis using assms by (auto simp: trans_frame_def)
qed

lemma trans_tbl:
  "trans_frame s s' \<Longrightarrow> r_tbl s t = Some tb \<Longrightarrow> \<exists>c p. r_tbl s' t = Some (tb\<lparr>rt_curr := c, rt_prev := p\<rparr>)"
  by (drule trans_frame_def [THEN iffD1]) (elim conjE, drule spec [of _ t], auto simp: option_rel_Some1)

lemma prepared_trans:
  assumes "prepared e ip s t" "trans_frame s s'"
  shows "prepared e ip s' t"
proof -
  have same: "hdb s' = hdb s" "r_rule s' = r_rule s" using assms(2) by (simp_all add: trans_frame_def)
  obtain tb where tb: "r_tbl s t = Some tb" using assms(1) by (auto simp: prepared_def)
  obtain c p where "r_tbl s' t = Some (tb\<lparr>rt_curr := c, rt_prev := p\<rparr>)" using trans_tbl [OF assms(2) tb] by blast
  moreover have "entries s' as = entries s as" for as by (simp add: entries_def same)
  moreover have "ready e ip s' a \<longleftrightarrow> ready e ip s a" for a using ready_cong [of s' a s] same by simp
  ultimately show ?thesis using assms(1) tb by (auto simp: prepared_def)
qed

text \<open>
  The buffers of the tables and of the hardware belong to one family each, and the hardware only
  knows buffers that are there.
\<close>

definition buf_own :: "(nat \<Rightarrow> ip_type) \<Rightarrow> rt_db \<Rightarrow> bool" where
  "buf_own own s \<longleftrightarrow>
     (\<forall>t tb r b. r_tbl s t = Some tb \<longrightarrow> rt_curr tb r = Some b \<or> rt_prev tb r = Some b \<longrightarrow> b < r_next s \<and> own b = rt_set tb) \<and>
     (\<forall>ip r i b. rt_hw s ip r i = Some b \<longrightarrow> b < r_next s \<and> own b = ip \<and> rt_mem s b \<noteq> None)"

definition own_from :: "nat \<Rightarrow> ip_type \<Rightarrow> (nat \<Rightarrow> ip_type) \<Rightarrow> nat \<Rightarrow> ip_type" where
  "own_from n ip own b = (if b < n then own b else ip)"

text \<open>What was there before the commit, from the address \<open>n\<close> on nothing.\<close>

definition old_bufs :: "nat \<Rightarrow> rule_type \<Rightarrow> nat list \<Rightarrow> rt_db \<Rightarrow> bool" where
  "old_bufs n rlt ts s \<longleftrightarrow> (\<forall>t tb. r_tbl s t = Some tb \<longrightarrow>
     (\<forall>r b. rt_prev tb r = Some b \<longrightarrow> b < n) \<and> (\<forall>b. t \<in> set ts \<longrightarrow> rt_curr tb rlt = Some b \<longrightarrow> b < n))"

lemma translate_tbl_ok:
  assumes inv: "rt_inv e s" and t: "t \<in> set (tbl_list s ip)" "r_tbl s t = Some tb" and prep: "prepared e ip s t"
    and own: "buf_own own s" and old: "old_bufs n rlt (t # ts) s" "n \<le> r_next s" "t \<notin> set ts"
  shows "\<exists>r img' s'. translate_tbl e ip rlt t img s = Some (r, img', s') \<and> rt_inv e s' \<and> trans_frame s s' \<and>
    buf_own (own_from (r_next s) ip own) s' \<and> old_bufs n rlt ts s' \<and> (\<forall>u. u \<noteq> t \<longrightarrow> r_tbl s' u = r_tbl s u) \<and>
    (\<forall>r tb'. r \<noteq> rlt \<longrightarrow> r_tbl s' t = Some tb' \<longrightarrow> rt_curr tb' r = rt_curr tb r) \<and>
    (r = OK \<longrightarrow> (if rules_img e ip rlt s (rt_rules tb) = [] then img' = img
       else \<exists>b. n \<le> b \<and> b < r_next s' \<and> img' = img(rt_idx tb - x_apps_lo e ip := Some b) \<and> rt_mem s' b = Some (rules_img e ip rlt s (rt_rules tb))))"
proof -
  have tok: "tbl_ok e s ip t tb" using rt_invD(3) [OF inv t(1)] t(2) by auto
  let ?img = "rules_img e ip rlt s (rt_rules tb)"
  have rd: "\<forall>a \<in> set (rt_rules tb). ready e ip s a" using prep t(2) by (auto simp: prepared_def)
  have sz: "rt_sz tb rlt = (if ?img = [] then 0 else length ?img + x_hdr_width e)"
    using prep t(2) rules_img_len [OF rd, of rlt] by (auto simp: prepared_def Let_def)
  have idx: "x_apps_lo e ip \<le> rt_idx tb" "rt_idx tb \<le> x_apps_hi e ip" "rt_in_sys tb rlt" using tok by (simp_all add: tbl_ok_def)
  have same: "old_bufs n rlt ts s" using old(1) by (auto simp: old_bufs_def)
  have self: "buf_own (own_from (r_next s) ip own) s" using own by (auto simp: buf_own_def own_from_def)
  let ?b = "r_next s" and ?size = "rt_sz tb rlt - x_hdr_width e + x_prefetch e"
  define s1 where "s1 = s\<lparr>r_next := ?b + 1\<rparr>"
  have i1: "rt_inv e s1" by (rule rt_inv_frame [OF inv]) (simp_all add: s1_def)
  have f1: "trans_frame s s1" using trans_frame_refl [of s] by (simp add: trans_frame_def s1_def)
  have o1: "buf_own (own_from (r_next s) ip own) s1" using own by (auto simp: buf_own_def own_from_def s1_def less_Suc_eq)
  have keep1: "old_bufs n rlt ts s1" using same by (simp add: old_bufs_def s1_def)
  consider (empty) "?img = []" | (fail) "?img \<noteq> []" "\<not> x_alloc_mem e ?b \<or> ?size = 0 \<or> \<not> x_hdr_buf e rlt"
    | (made) "?img \<noteq> []" "x_alloc_mem e ?b" "?size \<noteq> 0" "x_hdr_buf e rlt" by argo
  then show ?thesis
  proof cases
    case empty
    then have "translate_tbl e ip rlt t img s = Some (OK, img, s)" using t(2) sz by (simp add: translate_tbl_def)
    then show ?thesis using inv trans_frame_refl self same empty t(2)
      by (intro exI [of _ OK] exI [of _ img] exI [of _ s]) simp
  next
    case fail
    then have "translate_tbl e ip rlt t img s = Some (Err EPERM, img, s1)"
      using t(2) sz idx by (auto simp: translate_tbl_def Let_def s1_def)
    then show ?thesis using i1 f1 o1 keep1 t(2)
      by (intro exI [of _ "Err EPERM"] exI [of _ img] exI [of _ s1]) (simp add: s1_def)
  next
    case made
    define s2 where "s2 = s1\<lparr>rt_mem := (rt_mem s1)(?b \<mapsto> [])\<rparr>"
    have i2: "rt_inv e s2" by (rule rt_inv_frame [OF i1]) (simp_all add: s2_def)
    have rd2: "\<forall>a \<in> set (rt_rules tb). ready e ip s2 a" using rd ready_cong [of s2 _ s] by (simp add: s2_def s1_def)
    have img2: "rules_img e ip rlt s2 (rt_rules tb) = ?img" using rules_img_cong [of s2 s] by (simp add: s2_def s1_def)
    have rb: "rules_bytes e ip rlt (rt_rules tb) s2 = Some (Some ?img, s2)" using rules_bytes_ok [OF i2 rd2] img2 by simp
    define tb' where "tb' = tb\<lparr>rt_prev := (case rt_curr tb rlt of None \<Rightarrow> rt_prev tb | Some c \<Rightarrow> (rt_prev tb)(rlt := Some c)),
                              rt_curr := (rt_curr tb)(rlt := Some ?b)\<rparr>"
    define s3 where "s3 = s2\<lparr>rt_mem := (rt_mem s2)(?b \<mapsto> ?img), r_tbl := (r_tbl s2)(t \<mapsto> tb')\<rparr>"
    have "length ?img \<le> ?size" using sz made(1) by simp
    then have run: "translate_tbl e ip rlt t img s = Some (OK, img(rt_idx tb - x_apps_lo e ip := Some ?b), s3)"
      using t(2) sz made idx rb
      by (simp add: translate_tbl_def Let_def s1_def [symmetric] upd_tbl_def) (simp add: s1_def s2_def s3_def tb'_def upd_tbl_def)
    have "rt_inv e (s2\<lparr>r_tbl := (r_tbl s2)(t \<mapsto> tb')\<rparr>)"
      by (rule rt_inv_tbl_upd [OF i2, of t tb]) (simp_all add: s2_def s1_def t(2) tb'_def)
    then have i3: "rt_inv e s3" by (rule rt_inv_frame) (simp_all add: s3_def)
    have tbl3: "r_tbl s3 = (r_tbl s)(t \<mapsto> tb')" by (simp add: s3_def s2_def s1_def)
    have f3: "trans_frame s s3"
    proof -
      have "tb' = tb\<lparr>rt_curr := rt_curr tb', rt_prev := rt_prev tb'\<rparr>" by (simp add: tb'_def)
      then have "\<exists>c p. tb' = tb\<lparr>rt_curr := c, rt_prev := p\<rparr>" by blast
      then show ?thesis using trans_frame_refl [of s] t(2) by (simp add: trans_frame_def tbl3) (simp add: s3_def s2_def s1_def)
    qed
    have bufs: "rt_curr tb' r = Some c \<or> rt_prev tb' r = Some c \<Longrightarrow> c = ?b \<or> (\<exists>r. rt_curr tb r = Some c \<or> rt_prev tb r = Some c)" for r c
      by (auto simp: tb'_def split: option.splits if_splits)
    have oc: "c < ?b \<and> own c = ip" if "rt_curr tb r = Some c \<or> rt_prev tb r = Some c" for r c
      using own t(2) that tok by (auto simp: buf_own_def tbl_ok_def)
    have o3: "buf_own (own_from ?b ip own) s3"
      unfolding buf_own_def
    proof (intro conjI allI impI)
      fix u ub r c assume u: "r_tbl s3 u = Some ub" "rt_curr ub r = Some c \<or> rt_prev ub r = Some c"
      have "c < r_next s3 \<and> own_from ?b ip own c = rt_set ub"
      proof (cases "u = t")
        case True
        then have ub: "ub = tb'" using u(1) by (simp add: tbl3)
        have "rt_set tb' = ip" using tok by (simp add: tb'_def tbl_ok_def)
        moreover have "c = ?b \<or> c < ?b \<and> own c = ip" using bufs u(2) oc unfolding ub by blast
        ultimately show ?thesis by (auto simp: ub own_from_def s3_def s2_def s1_def)
      next
        case False
        then have "r_tbl s u = Some ub" using u(1) by (simp add: tbl3)
        then have "c < ?b \<and> own c = rt_set ub" using own u(2) by (auto simp: buf_own_def)
        then show ?thesis by (auto simp: own_from_def s3_def s2_def s1_def)
      qed
      then show "c < r_next s3" "own_from ?b ip own c = rt_set ub" by simp_all
    next
      fix ip' r i c assume "rt_hw s3 ip' r i = Some c"
      then have "c < ?b \<and> own c = ip' \<and> rt_mem s c \<noteq> None" using own by (simp add: buf_own_def s3_def s2_def s1_def)
      then show "c < r_next s3" "own_from ?b ip own c = ip'" "rt_mem s3 c \<noteq> None" by (auto simp: own_from_def s3_def s2_def s1_def)
    qed
    have k3: "old_bufs n rlt ts s3"
      using old(1,3) t(2) by (auto simp: old_bufs_def tbl3 tb'_def split: option.splits if_splits)
    show ?thesis using run i3 f3 o3 k3 made(1) old(2)
      by (intro exI [of _ OK] exI [of _ "img(rt_idx tb - x_apps_lo e ip := Some ?b)"] exI [of _ s3])
         (auto simp: tbl3 tb'_def s3_def s2_def s1_def)
  qed
qed

text \<open>An image shows the tables of a list: the buffer of each with its bytes, nothing elsewhere.\<close>

definition shows_tbl :: "rt_env \<Rightarrow> ip_type \<Rightarrow> rule_type \<Rightarrow> nat \<Rightarrow> (nat \<Rightarrow> nat option) \<Rightarrow> rt_tbl \<Rightarrow> rt_db \<Rightarrow> bool" where
  "shows_tbl e ip rlt n img tb s \<longleftrightarrow>
     (let bs = rules_img e ip rlt s (rt_rules tb); i = rt_idx tb - x_apps_lo e ip in
      if bs = [] then img i = None else \<exists>b. img i = Some b \<and> n \<le> b \<and> b < r_next s \<and> rt_mem s b = Some bs)"

definition img_for :: "rt_env \<Rightarrow> ip_type \<Rightarrow> rule_type \<Rightarrow> nat \<Rightarrow> (nat \<Rightarrow> nat option) \<Rightarrow> nat list \<Rightarrow> rt_db \<Rightarrow> bool" where
  "img_for e ip rlt n img ts s \<longleftrightarrow> (\<forall>t \<in> set ts. \<forall>tb. r_tbl s t = Some tb \<longrightarrow> shows_tbl e ip rlt n img tb s) \<and>
     (\<forall>i. (\<forall>t \<in> set ts. \<forall>tb. r_tbl s t = Some tb \<longrightarrow> rt_idx tb - x_apps_lo e ip \<noteq> i) \<longrightarrow> img i = None)"

lemma trans_tbl_back:
  "trans_frame s s' \<Longrightarrow> r_tbl s' t = Some tb' \<Longrightarrow> \<exists>tb c p. r_tbl s t = Some tb \<and> tb' = tb\<lparr>rt_curr := c, rt_prev := p\<rparr>"
  by (drule trans_frame_def [THEN iffD1]) (elim conjE, drule spec [of _ t], auto simp: option_rel_Some2)

lemma shows_tbl_trans:
  assumes "shows_tbl e ip rlt n img tb s" "trans_frame s s'" "rt_rules tb' = rt_rules tb" "rt_idx tb' = rt_idx tb"
  shows "shows_tbl e ip rlt n img tb' s'"
proof -
  have "hdb s' = hdb s" "r_rule s' = r_rule s" "r_next s \<le> r_next s'" "\<forall>b < r_next s. rt_mem s' b = rt_mem s b"
    using assms(2) by (simp_all add: trans_frame_def)
  moreover from this(1,2) have "rules_img e ip rlt s' as = rules_img e ip rlt s as" for as using rules_img_cong [of s' s] by simp
  ultimately show ?thesis using assms(1) unfolding shows_tbl_def assms(3,4) Let_def by (auto split: if_splits)
qed

lemma img_for_trans:
  assumes "img_for e ip rlt n img ts s" "trans_frame s s'" "\<forall>t \<in> set ts. r_tbl s t \<noteq> None"
  shows "img_for e ip rlt n img ts s'"
  unfolding img_for_def
proof (intro conjI ballI allI impI)
  fix t tb' assume t: "t \<in> set ts" "r_tbl s' t = Some tb'"
  then obtain tb c p where "r_tbl s t = Some tb" "tb' = tb\<lparr>rt_curr := c, rt_prev := p\<rparr>" using trans_tbl_back [OF assms(2)] by blast
  then show "shows_tbl e ip rlt n img tb' s'" using assms(1) t(1) by (intro shows_tbl_trans [OF _ assms(2), of _ _ _ _ _ tb]) (auto simp: img_for_def)
next
  fix i assume i: "\<forall>t \<in> set ts. \<forall>tb. r_tbl s' t = Some tb \<longrightarrow> rt_idx tb - x_apps_lo e ip \<noteq> i"
  have "rt_idx tb - x_apps_lo e ip \<noteq> i" if t: "t \<in> set ts" "r_tbl s t = Some tb" for t tb
  proof -
    obtain c p where "r_tbl s' t = Some (tb\<lparr>rt_curr := c, rt_prev := p\<rparr>)" using trans_tbl [OF assms(2) t(2)] by blast
    then show ?thesis using i t(1) by fastforce
  qed
  then show "img i = None" using assms(1) by (simp add: img_for_def)
qed

lemma translate_list_ok:
  assumes "rt_inv e s" "set (ps @ ts) \<subseteq> set (tbl_list s ip)" "distinct (ps @ ts)" "\<forall>t \<in> set ts. prepared e ip s t"
    "buf_own own s" "old_bufs n rlt ts s" "n \<le> r_next s" "img_for e ip rlt n img ps s"
  shows "\<exists>r img' s'. translate_rt_tbl_to_hw_fmt e ip rlt ts img s = Some (r, img', s') \<and> rt_inv e s' \<and> trans_frame s s' \<and>
    buf_own (own_from (r_next s) ip own) s' \<and> old_bufs n rlt [] s' \<and>
    (\<forall>u r ub ub'. r \<noteq> rlt \<longrightarrow> r_tbl s u = Some ub \<longrightarrow> r_tbl s' u = Some ub' \<longrightarrow> rt_curr ub' r = rt_curr ub r) \<and>
    (\<forall>u. u \<notin> set ts \<longrightarrow> r_tbl s' u = r_tbl s u) \<and>
    (r = OK \<longrightarrow> img_for e ip rlt n img' (ps @ ts) s')"
  using assms
proof (induction ts arbitrary: s ps own img)
  case Nil
  have "buf_own (own_from (r_next s) ip own) s" using Nil.prems(5) by (auto simp: buf_own_def own_from_def)
  then show ?case using Nil.prems trans_frame_refl by auto
next
  case (Cons t ts)
  have t: "t \<in> set (tbl_list s ip)" "t \<notin> set ts" "t \<notin> set ps" using Cons.prems(2,3) by auto
  obtain tb where tb: "r_tbl s t = Some tb" "tbl_ok e s ip t tb" using rt_invD(3) [OF Cons.prems(1) t(1)] by blast
  have pt: "prepared e ip s t" using Cons.prems(4) by simp
  let ?bs = "rules_img e ip rlt s (rt_rules tb)" and ?i = "rt_idx tb - x_apps_lo e ip"
  obtain r1 img1 s1 where s1: "translate_tbl e ip rlt t img s = Some (r1, img1, s1)" "rt_inv e s1" "trans_frame s s1"
    "buf_own (own_from (r_next s) ip own) s1" "old_bufs n rlt ts s1" "\<forall>u. u \<noteq> t \<longrightarrow> r_tbl s1 u = r_tbl s u"
    "\<forall>r tb'. r \<noteq> rlt \<longrightarrow> r_tbl s1 t = Some tb' \<longrightarrow> rt_curr tb' r = rt_curr tb r"
    "r1 = OK \<longrightarrow> (if ?bs = [] then img1 = img
       else \<exists>b. n \<le> b \<and> b < r_next s1 \<and> img1 = img(?i := Some b) \<and> rt_mem s1 b = Some ?bs)"
    using translate_tbl_ok [OF Cons.prems(1) t(1) tb(1) pt Cons.prems(5,6,7) t(2), of img] by (elim exE conjE) (rule that)
  have curr1: "rt_curr ub' r = rt_curr ub r" if "r \<noteq> rlt" "r_tbl s u = Some ub" "r_tbl s1 u = Some ub'" for u r ub ub'
    using that s1(6,7) tb(1) by (cases "u = t") auto
  show ?case
  proof (cases "r1 = OK")
    case False
    have "old_bufs n rlt [] s1" using s1(5) by (auto simp: old_bufs_def)
    then show ?thesis using False s1(1-4,6) curr1 by (intro exI [of _ r1] exI [of _ img1] exI [of _ s1]) auto
  next
    case True
    note k = s1(8) [rule_format, OF True]
    have l1: "tbl_list s1 = tbl_list s" "r_next s \<le> r_next s1" "hdb s1 = hdb s" "r_rule s1 = r_rule s" using s1(3) by (simp_all add: trans_frame_def)
    have psl: "\<forall>u \<in> set ps. r_tbl s u \<noteq> None" using rt_invD(3) [OF Cons.prems(1)] Cons.prems(2) by fastforce
    have old1: "img_for e ip rlt n img ps s1" by (rule img_for_trans [OF Cons.prems(8) s1(3) psl])
    obtain c p where tb1: "r_tbl s1 t = Some (tb\<lparr>rt_curr := c, rt_prev := p\<rparr>)" using trans_tbl [OF s1(3) tb(1)] by blast
    have apart: "rt_idx ub - x_apps_lo e ip \<noteq> ?i" if u: "u \<in> set ps" "r_tbl s1 u = Some ub" for u ub
    proof -
      have ul: "u \<in> set (tbl_list s ip)" "u \<noteq> t" using u(1) Cons.prems(2) t(3) by auto
      then obtain vb where vb: "r_tbl s u = Some vb" "tbl_ok e s ip u vb" using rt_invD(3) [OF Cons.prems(1)] by blast
      have "ub = vb" using s1(6) ul(2) u(2) vb(1) by simp
      moreover have "rt_idx vb \<noteq> rt_idx tb" using rt_invD(7) [OF Cons.prems(1)] ul t(1) vb(1) tb(1) unfolding idx_ok_def by blast
      ultimately show ?thesis using vb(2) tb(2) by (auto simp: tbl_ok_def)
    qed
    have free: "img ?i = None" using old1 apart by (auto simp: img_for_def)
    have same: "rules_img e ip rlt s1 as = rules_img e ip rlt s as" for as using rules_img_cong [of s1 s] l1 by simp
    have other: "img1 j = img j" if "j \<noteq> ?i" for j using k that by (auto split: if_splits)
    have img1: "img_for e ip rlt n img1 (ps @ [t]) s1"
      unfolding img_for_def
    proof (intro conjI ballI allI impI)
      fix u ub assume u: "u \<in> set (ps @ [t])" "r_tbl s1 u = Some ub"
      show "shows_tbl e ip rlt n img1 ub s1"
      proof (cases "u = t")
        case True
        then have ub: "rt_rules ub = rt_rules tb" "rt_idx ub = rt_idx tb" using u(2) tb1 by auto
        show ?thesis using k free by (auto simp: shows_tbl_def ub same Let_def)
      next
        case False
        then have "u \<in> set ps" using u(1) by simp
        then have "shows_tbl e ip rlt n img ub s1" "rt_idx ub - x_apps_lo e ip \<noteq> ?i" using old1 u(2) apart by (auto simp: img_for_def)
        then show ?thesis using other by (simp add: shows_tbl_def Let_def)
      qed
    next
      fix i assume i: "\<forall>u \<in> set (ps @ [t]). \<forall>ub. r_tbl s1 u = Some ub \<longrightarrow> rt_idx ub - x_apps_lo e ip \<noteq> i"
      then have "i \<noteq> ?i" using tb1 by fastforce
      moreover have "img i = None" using i old1 by (auto simp: img_for_def)
      ultimately show "img1 i = None" using other by simp
    qed
    have "set ((ps @ [t]) @ ts) \<subseteq> set (tbl_list s1 ip)" "distinct ((ps @ [t]) @ ts)" "\<forall>u \<in> set ts. prepared e ip s1 u" "n \<le> r_next s1"
      using Cons.prems(2,3,4,7) l1 prepared_trans [OF _ s1(3)] by auto
    from Cons.IH [OF s1(2) this(1-3) s1(4,5) this(4) img1] obtain r img' s' where s':
      "translate_rt_tbl_to_hw_fmt e ip rlt ts img1 s1 = Some (r, img', s')" "rt_inv e s'" "trans_frame s1 s'"
      "buf_own (own_from (r_next s1) ip (own_from (r_next s) ip own)) s'" "old_bufs n rlt [] s'"
      "\<forall>u r ub ub'. r \<noteq> rlt \<longrightarrow> r_tbl s1 u = Some ub \<longrightarrow> r_tbl s' u = Some ub' \<longrightarrow> rt_curr ub' r = rt_curr ub r"
      "\<forall>u. u \<notin> set ts \<longrightarrow> r_tbl s' u = r_tbl s1 u" "r = OK \<longrightarrow> img_for e ip rlt n img' ((ps @ [t]) @ ts) s'" by (elim exE conjE) (rule that)
    have "own_from (r_next s1) ip (own_from (r_next s) ip own) = own_from (r_next s) ip own"
      using l1(2) by (auto simp: own_from_def)
    moreover have "rt_curr ub' r = rt_curr ub r" if u: "r \<noteq> rlt" "r_tbl s u = Some ub" "r_tbl s' u = Some ub'" for u r ub ub'
    proof -
      obtain vb where "r_tbl s1 u = Some vb" using trans_tbl [OF s1(3) u(2)] by blast
      then show ?thesis using s'(6) curr1 u by metis
    qed
    moreover have "translate_rt_tbl_to_hw_fmt e ip rlt (t # ts) img s = Some (r, img', s')" using s1(1) True s'(1) by simp
    moreover have "trans_frame s s'" by (rule trans_frame_trans [OF s1(3) s'(3)])
    ultimately show ?thesis using s'(2,4,5,7,8) s1(6) by (intro exI [of _ r] exI [of _ img'] exI [of _ s']) simp
  qed
qed

section \<open>The hardware lets go\<close>

lemma rt_inv_reap:
  assumes inv: "rt_inv e s" and t: "t \<in> set (reap_list s ip)"
  shows "rt_inv e (s\<lparr>reap_list := (reap_list s)(ip := remove1 t (reap_list s ip)), r_tbl := (r_tbl s)(t := None)\<rparr>)"
proof -
  define S where "S = s\<lparr>reap_list := (reap_list s)(ip := remove1 t (reap_list s ip)), r_tbl := (r_tbl s)(t := None)\<rparr>"
  note v = rt_invD [OF inv]
  have live: "u \<noteq> t" if "u \<in> set (tbl_list s ip')" for u ip' using tbl_in_one_list(2) [OF inv that] t by blast
  have f: "finds S j p = finds s j p" for j p by (simp add: finds_def S_def)
  have "rt_inv e S"
  proof (rule rt_invI)
    show "store_inv (rule_refs S) (hdb S)" using v(1) rule_refs_cong [of S s] by (simp add: S_def)
    show "rule_ok S a x" if x: "r_rule S a = Some x" for a x
    proof (rule rule_ok_cong [OF v(2) [of a x]])
      show "r_rule s a = Some x" using x by (simp add: S_def)
      then show "target_ok (hdb S) x" using v(2) by (simp add: rule_ok_def S_def)
    next
      fix ip' u ub assume "u \<in> set (tbl_list s ip')" "r_tbl s u = Some ub" "a \<in> set (rt_rules ub)"
      then show "\<exists>ip' tb'. u \<in> set (tbl_list S ip') \<and> r_tbl S u = Some tb' \<and> a \<in> set (rt_rules tb')"
        using live by (intro exI [of _ ip'] exI [of _ ub]) (simp add: S_def)
    qed (simp add: f)
    show "\<exists>tb. r_tbl S u = Some tb \<and> tbl_ok e S ip' u tb" if u: "u \<in> set (tbl_list S ip')" for u ip'
    proof -
      have ul: "u \<in> set (tbl_list s ip')" using u by (simp add: S_def)
      then obtain ub where "r_tbl s u = Some ub" "tbl_ok e s ip' u ub" using v(3) by blast
      moreover from this(2) have "tbl_ok e S ip' u ub" by (rule tbl_ok_cong) (simp_all add: f, simp_all add: S_def)
      ultimately show ?thesis using live [OF ul] by (simp add: S_def)
    qed
    show "\<exists>x. r_rule S a = Some x \<and> re_id x = j" if "finds S j (PRule a)" for j a
      using v(4) [of j a] that by (simp add: f) (simp add: S_def)
    show "\<exists>ip tb. u \<in> set (tbl_list S ip) \<and> r_tbl S u = Some tb \<and> rt_id tb = j" if fu: "finds S j (PTbl u)" for j u
    proof -
      obtain ip' ub where "u \<in> set (tbl_list s ip')" "r_tbl s u = Some ub" "rt_id ub = j" using v(5) [of j u] fu by (auto simp: f)
      then show ?thesis using live by (intro exI [of _ ip'] exI [of _ ub]) (simp add: S_def)
    qed
    have other: "u \<noteq> t" if u: "u \<in> set (reap_list S ip')" for u ip'
    proof (cases "ip' = ip")
      case True
      then show ?thesis using u v(6) by (auto simp: S_def tbls_ok_def)
    next
      case False
      then have "u \<in> set (reap_list s ip')" using u by (simp add: S_def)
      then show ?thesis using reaped_tbl [OF v(6), of u ip'] reaped_tbl [OF v(6) t] False by auto
    qed
    have sub: "set (reap_list S ip') \<subseteq> set (reap_list s ip')" for ip'
      using set_remove1_subset [of t "reap_list s ip"] by (auto simp: S_def)
    show "tbls_ok S" unfolding tbls_ok_def
    proof (intro conjI allI ballI)
      show "tbl_list S IPA_IP_MAX = []" "reap_list S IPA_IP_MAX = []" using v(6) by (simp_all add: tbls_ok_def S_def)
      show "distinct (tbl_list S ip')" "distinct (reap_list S ip')" for ip' using v(6) by (simp_all add: tbls_ok_def S_def)
      fix ip' u assume u: "u \<in> set (reap_list S ip')"
      then have "u \<in> set (reap_list s ip')" using sub by blast
      from reaped_tbl [OF v(6) this] other [OF u] show "\<exists>tb. r_tbl S u = Some tb \<and> rt_set tb = ip' \<and> \<not> rt_rule_ids tb" by (simp add: S_def)
    qed
    show "idx_ok S" using v(7) by (auto simp: idx_ok_def S_def)
    show "rt_fresh S" using v(8) by (simp add: rt_fresh_def S_def)
    show "bits_ok e S" using v(9) by (simp add: bits_ok_def S_def)
  qed
  then show ?thesis by (simp add: S_def)
qed

text \<open>What the reaping leaves alone: all but buffers, the old buffers of live tables and dead tables.\<close>

definition reap_frame :: "rt_db \<Rightarrow> rt_db \<Rightarrow> bool" where
  "reap_frame s s' \<longleftrightarrow> hdb s' = hdb s \<and> tbl_list s' = tbl_list s \<and> rt_idx_bitmap s' = rt_idx_bitmap s \<and> tbl_cnt s' = tbl_cnt s \<and>
     rule_ids s' = rule_ids s \<and> r_next s' = r_next s \<and> r_rule s' = r_rule s \<and> rt_hw s' = rt_hw s \<and>
     (\<forall>t tb'. r_tbl s' t = Some tb' \<longrightarrow> (\<exists>tb p. r_tbl s t = Some tb \<and> tb' = tb\<lparr>rt_prev := p\<rparr> \<and> (\<forall>r. p r = rt_prev tb r \<or> p r = None))) \<and>
     (\<forall>t tb ip. t \<in> set (tbl_list s ip) \<longrightarrow> r_tbl s t = Some tb \<longrightarrow> (\<exists>p. r_tbl s' t = Some (tb\<lparr>rt_prev := p\<rparr>)))"

lemma reap_frame_refl: "reap_frame s s"
  unfolding reap_frame_def
proof (intro conjI allI impI refl)
  fix t tb' assume t: "r_tbl s t = Some tb'"
  have "tb' = tb'\<lparr>rt_prev := rt_prev tb'\<rparr>" by simp
  then show "\<exists>tb p. r_tbl s t = Some tb \<and> tb' = tb\<lparr>rt_prev := p\<rparr> \<and> (\<forall>r. p r = rt_prev tb r \<or> p r = None)" using t by blast
next
  fix t tb ip assume t: "t \<in> set (tbl_list s ip)" "r_tbl s t = Some tb"
  have "tb = tb\<lparr>rt_prev := rt_prev tb\<rparr>" by simp
  then show "\<exists>p. r_tbl s t = Some (tb\<lparr>rt_prev := p\<rparr>)" using t(2) by metis
qed

lemma reap_frame_trans:
  assumes "reap_frame s s1" "reap_frame s1 s2"
  shows "reap_frame s s2"
proof -
  have same: "tbl_list s1 = tbl_list s" using assms(1) by (simp add: reap_frame_def)
  have "\<exists>tb p. r_tbl s t = Some tb \<and> tb2 = tb\<lparr>rt_prev := p\<rparr> \<and> (\<forall>r. p r = rt_prev tb r \<or> p r = None)" if "r_tbl s2 t = Some tb2" for t tb2
  proof -
    obtain tb1 p1 where 1: "r_tbl s1 t = Some tb1" "tb2 = tb1\<lparr>rt_prev := p1\<rparr>" "\<forall>r. p1 r = rt_prev tb1 r \<or> p1 r = None"
      using assms(2) \<open>r_tbl s2 t = Some tb2\<close> unfolding reap_frame_def by blast
    obtain tb p where 2: "r_tbl s t = Some tb" "tb1 = tb\<lparr>rt_prev := p\<rparr>" "\<forall>r. p r = rt_prev tb r \<or> p r = None"
      using assms(1) 1(1) unfolding reap_frame_def by blast
    have "rt_prev tb1 = p" using 2(2) by simp
    then have "\<forall>r. p1 r = rt_prev tb r \<or> p1 r = None" using 1(3) 2(3) by metis
    then show ?thesis using 1(2) 2(1,2) by (intro exI [of _ tb] exI [of _ p1]) simp
  qed
  moreover have "\<exists>p. r_tbl s2 t = Some (tb\<lparr>rt_prev := p\<rparr>)" if t: "t \<in> set (tbl_list s ip)" "r_tbl s t = Some tb" for t tb ip
  proof -
    obtain p where "r_tbl s1 t = Some (tb\<lparr>rt_prev := p\<rparr>)" using assms(1) t unfolding reap_frame_def by blast
    then obtain p' where "r_tbl s2 t = Some (tb\<lparr>rt_prev := p\<rparr>\<lparr>rt_prev := p'\<rparr>)" using assms(2) t(1) same unfolding reap_frame_def by metis
    then show ?thesis by auto
  qed
  ultimately show ?thesis using assms unfolding reap_frame_def by auto
qed

lemma reap_prev_ok:
  assumes "rt_inv e s" "set ts \<subseteq> set (tbl_list s ip)" "\<And>t tb r b. r_tbl s t = Some tb \<Longrightarrow> t \<in> set ts \<Longrightarrow> rt_prev tb r = Some b \<Longrightarrow> b \<in> B"
  shows "\<exists>s'. reap_prev ts s = Some s' \<and> rt_inv e s' \<and> reap_frame s s' \<and> reap_list s' = reap_list s \<and> (\<forall>b. b \<notin> B \<longrightarrow> rt_mem s' b = rt_mem s b)"
  using assms
proof (induction ts arbitrary: s)
  case Nil
  then show ?case using reap_frame_refl by simp
next
  case (Cons t ts)
  obtain tb where tb: "r_tbl s t = Some tb" using rt_invD(3) [OF Cons.prems(1), of t ip] Cons.prems(2) by auto
  define tb1 where "tb1 = tb\<lparr>rt_prev := \<lambda>r. None\<rparr>"
  define s1 where "s1 = s\<lparr>rt_mem := (\<lambda>b. if \<exists>r \<in> {IPA_RULE_HASHABLE, IPA_RULE_NON_HASHABLE}. rt_prev tb r = Some b then None else rt_mem s b),
     r_tbl := (r_tbl s)(t \<mapsto> tb1)\<rparr>"
  have "rt_inv e (s\<lparr>r_tbl := (r_tbl s)(t \<mapsto> tb1)\<rparr>)" by (rule rt_inv_tbl_upd [OF Cons.prems(1) tb]) (simp_all add: tb1_def)
  then have i1: "rt_inv e s1" by (rule rt_inv_frame) (simp_all add: s1_def)
  have f1: "reap_frame s s1"
    unfolding reap_frame_def
  proof (intro conjI allI impI)
    fix u ub' assume u: "r_tbl s1 u = Some ub'"
    show "\<exists>ub p. r_tbl s u = Some ub \<and> ub' = ub\<lparr>rt_prev := p\<rparr> \<and> (\<forall>r. p r = rt_prev ub r \<or> p r = None)"
    proof (cases "u = t")
      case True
      then show ?thesis using u tb by (intro exI [of _ tb] exI [of _ "\<lambda>r. None"]) (simp add: s1_def tb1_def)
    next
      case False
      then show ?thesis using u by (intro exI [of _ ub'] exI [of _ "rt_prev ub'"]) (simp add: s1_def)
    qed
  next
    fix u ub ip' assume u: "r_tbl s u = Some ub"
    show "\<exists>p. r_tbl s1 u = Some (ub\<lparr>rt_prev := p\<rparr>)"
    proof (cases "u = t")
      case True
      then show ?thesis using u tb by (intro exI [of _ "\<lambda>r. None"]) (simp add: s1_def tb1_def)
    next
      case False
      then show ?thesis using u by (intro exI [of _ "rt_prev ub"]) (simp add: s1_def)
    qed
  qed (simp_all add: s1_def)
  have p1: "\<forall>b. b \<notin> B \<longrightarrow> rt_mem s1 b = rt_mem s b" using Cons.prems(3) [OF tb] by (auto simp: s1_def)
  have "set ts \<subseteq> set (tbl_list s1 ip)" using Cons.prems(2) by (simp add: s1_def)
  moreover have "b \<in> B" if "r_tbl s1 u = Some ub" "u \<in> set ts" "rt_prev ub r = Some b" for u ub r b
    using that Cons.prems(3) [of u ub r b] by (cases "u = t") (auto simp: s1_def tb1_def)
  ultimately obtain s' where s': "reap_prev ts s1 = Some s'" "rt_inv e s'" "reap_frame s1 s'" "reap_list s' = reap_list s1"
    "\<forall>b. b \<notin> B \<longrightarrow> rt_mem s' b = rt_mem s1 b" using Cons.IH [OF i1] by blast
  have "reap_prev (t # ts) s = Some s'" using tb s'(1) by (simp add: s1_def tb1_def)
  then show ?case using s' reap_frame_trans [OF f1 s'(3)] p1 by (intro exI [of _ s']) (simp add: s1_def)
qed

lemma reap_tbls_ok:
  assumes "rt_inv e s" "set ts \<subseteq> set (reap_list s ip)" "distinct ts"
    "\<And>t tb r b. r_tbl s t = Some tb \<Longrightarrow> t \<in> set ts \<Longrightarrow> rt_curr tb r = Some b \<Longrightarrow> b \<in> B"
  shows "\<exists>s'. reap_tbls ip ts s = Some s' \<and> rt_inv e s' \<and> reap_frame s s' \<and> (\<forall>b. b \<notin> B \<longrightarrow> rt_mem s' b = rt_mem s b)"
  using assms
proof (induction ts arbitrary: s)
  case Nil
  then show ?case using reap_frame_refl by simp
next
  case (Cons t ts)
  have t: "t \<in> set (reap_list s ip)" using Cons.prems(2) by simp
  obtain tb where tb: "r_tbl s t = Some tb" using reaped_tbl [OF rt_invD(6) [OF Cons.prems(1)] t] by blast
  define s1 where "s1 = s\<lparr>rt_mem := (\<lambda>b. if \<exists>r \<in> {IPA_RULE_HASHABLE, IPA_RULE_NON_HASHABLE}. rt_curr tb r = Some b then None else rt_mem s b),
     reap_list := (reap_list s)(ip := remove1 t (reap_list s ip)), r_tbl := (r_tbl s)(t := None)\<rparr>"
  have i1: "rt_inv e s1" by (rule rt_inv_frame [OF rt_inv_reap [OF Cons.prems(1) t]]) (simp_all add: s1_def)
  have f1: "reap_frame s s1"
    unfolding reap_frame_def
  proof (intro conjI allI impI)
    fix u ub' assume "r_tbl s1 u = Some ub'"
    then show "\<exists>ub p. r_tbl s u = Some ub \<and> ub' = ub\<lparr>rt_prev := p\<rparr> \<and> (\<forall>r. p r = rt_prev ub r \<or> p r = None)"
      by (intro exI [of _ ub'] exI [of _ "rt_prev ub'"]) (simp add: s1_def split: if_splits)
  next
    fix u ub ip' assume u: "u \<in> set (tbl_list s ip')" "r_tbl s u = Some ub"
    have "u \<noteq> t" using tbl_in_one_list(2) [OF Cons.prems(1) u(1)] t by blast
    then show "\<exists>p. r_tbl s1 u = Some (ub\<lparr>rt_prev := p\<rparr>)" using u by (intro exI [of _ "rt_prev ub"]) (simp add: s1_def)
  qed (simp_all add: s1_def)
  have p1: "\<forall>b. b \<notin> B \<longrightarrow> rt_mem s1 b = rt_mem s b" using Cons.prems(4) [OF tb] by (auto simp: s1_def)
  have "x \<in> set (reap_list s1 ip)" if "x \<in> set ts" for x
  proof -
    have "x \<noteq> t" "x \<in> set (reap_list s ip)" using that Cons.prems(2,3) by auto
    then show ?thesis using in_set_remove1 [of x t "reap_list s ip"] by (simp add: s1_def)
  qed
  then have "set ts \<subseteq> set (reap_list s1 ip)" "distinct ts" using Cons.prems(3) by auto
  moreover have "b \<in> B" if "r_tbl s1 u = Some ub" "u \<in> set ts" "rt_curr ub r = Some b" for u ub r b
    using that Cons.prems(4) [of u ub r b] by (cases "u = t") (auto simp: s1_def)
  ultimately obtain s' where s': "reap_tbls ip ts s1 = Some s'" "rt_inv e s'" "reap_frame s1 s'"
    "\<forall>b. b \<notin> B \<longrightarrow> rt_mem s' b = rt_mem s1 b" using Cons.IH [OF i1] by blast
  have "reap_tbls ip (t # ts) s = Some s'" using tb s'(1) by (simp add: s1_def)
  then show ?case using s' reap_frame_trans [OF f1 s'(3)] p1 by (intro exI [of _ s']) simp
qed

section \<open>Commit\<close>

definition committed :: "rt_db \<Rightarrow> rt_db \<Rightarrow> bool" where
  "committed s s' \<longleftrightarrow> hdb s' = hdb s \<and> tbl_list s' = tbl_list s \<and> rt_idx_bitmap s' = rt_idx_bitmap s \<and> tbl_cnt s' = tbl_cnt s \<and>
     rule_ids s' = rule_ids s \<and> r_next s \<le> r_next s' \<and> rules_noted s s' \<and>
     (\<forall>t tb ip. t \<in> set (tbl_list s ip) \<longrightarrow> r_tbl s t = Some tb \<longrightarrow>
        (\<exists>sz c p. r_tbl s' t = Some (tb\<lparr>rt_sz := sz, rt_curr := c, rt_prev := p\<rparr>))) \<and>
     (\<forall>t. r_tbl s t = None \<longrightarrow> r_tbl s' t = None)"

definition hw_ok :: "rt_env \<Rightarrow> rt_db \<Rightarrow> bool" where
  "hw_ok e s \<longleftrightarrow> (\<exists>own. buf_own own s) \<and> (x_not_hashable e \<longrightarrow> (\<forall>ip i. rt_hw s ip IPA_RULE_HASHABLE i = None))"

lemma prep_tbl:
  assumes "prep_frame s s'"
  shows "r_tbl s t = Some tb \<Longrightarrow> \<exists>sz. r_tbl s' t = Some (tb\<lparr>rt_sz := sz\<rparr>)" "r_tbl s t = None \<Longrightarrow> r_tbl s' t = None"
    "r_tbl s' t = Some tb' \<Longrightarrow> \<exists>tb sz. r_tbl s t = Some tb \<and> tb' = tb\<lparr>rt_sz := sz\<rparr>"
proof -
  have r: "rel_option (\<lambda>tb tb'. \<exists>sz. tb' = tb\<lparr>rt_sz := sz\<rparr>) (r_tbl s t) (r_tbl s' t)" using assms by (simp add: prep_frame_def)
  show "r_tbl s t = Some tb \<Longrightarrow> \<exists>sz. r_tbl s' t = Some (tb\<lparr>rt_sz := sz\<rparr>)" using r by (auto simp: option_rel_Some1)
  show "r_tbl s t = None \<Longrightarrow> r_tbl s' t = None" using r by auto
  show "r_tbl s' t = Some tb' \<Longrightarrow> \<exists>tb sz. r_tbl s t = Some tb \<and> tb' = tb\<lparr>rt_sz := sz\<rparr>" using r by (auto simp: option_rel_Some2)
qed

lemma prep_committed:
  assumes "prep_frame s s'" shows "committed s s'"
proof -
  have "\<exists>sz c p. r_tbl s' t = Some (tb\<lparr>rt_sz := sz, rt_curr := c, rt_prev := p\<rparr>)" if u: "r_tbl s t = Some tb" for t tb
  proof -
    obtain sz where "r_tbl s' t = Some (tb\<lparr>rt_sz := sz\<rparr>)" using prep_tbl(1) [OF assms u] by blast
    then have "r_tbl s' t = Some (tb\<lparr>rt_sz := sz, rt_curr := rt_curr tb, rt_prev := rt_prev tb\<rparr>)" by simp
    then show ?thesis by blast
  qed
  then show ?thesis using assms prep_tbl(2) [OF assms] by (simp add: committed_def prep_frame_def rt_frame_def)
qed

lemma trans_committed:
  assumes "trans_frame s s'" shows "committed s s'"
proof -
  have "\<exists>sz c p. r_tbl s' t = Some (tb\<lparr>rt_sz := sz, rt_curr := c, rt_prev := p\<rparr>)" if u: "r_tbl s t = Some tb" for t tb
  proof -
    obtain c p where "r_tbl s' t = Some (tb\<lparr>rt_curr := c, rt_prev := p\<rparr>)" using trans_tbl [OF assms u] by blast
    then have "r_tbl s' t = Some (tb\<lparr>rt_sz := rt_sz tb, rt_curr := c, rt_prev := p\<rparr>)" by simp
    then show ?thesis by blast
  qed
  moreover have "r_tbl s' t = None" if "r_tbl s t = None" for t
  proof -
    have "rel_option (\<lambda>tb tb'. \<exists>c p. tb' = tb\<lparr>rt_curr := c, rt_prev := p\<rparr>) (r_tbl s t) (r_tbl s' t)" using assms by (simp add: trans_frame_def)
    then show ?thesis using that by auto
  qed
  moreover have "rules_noted s s'" using assms rules_noted_refl [of s] by (simp add: trans_frame_def rules_noted_def)
  ultimately show ?thesis using assms by (simp add: committed_def trans_frame_def)
qed

lemma reap_committed:
  assumes "reap_frame s s'" shows "committed s s'"
proof -
  have "\<exists>sz c p. r_tbl s' t = Some (tb\<lparr>rt_sz := sz, rt_curr := c, rt_prev := p\<rparr>)" if u: "t \<in> set (tbl_list s ip)" "r_tbl s t = Some tb" for t tb ip
  proof -
    obtain p where "r_tbl s' t = Some (tb\<lparr>rt_prev := p\<rparr>)" using assms u unfolding reap_frame_def by blast
    then have "r_tbl s' t = Some (tb\<lparr>rt_sz := rt_sz tb, rt_curr := rt_curr tb, rt_prev := p\<rparr>)" by simp
    then show ?thesis by blast
  qed
  moreover have "r_tbl s' t = None" if n: "r_tbl s t = None" for t
  proof (rule ccontr)
    assume "r_tbl s' t \<noteq> None"
    then obtain tb' where "r_tbl s' t = Some tb'" by blast
    then show False using assms n unfolding reap_frame_def by fastforce
  qed
  moreover have "rules_noted s s'" using assms rules_noted_refl [of s] by (simp add: reap_frame_def rules_noted_def)
  ultimately show ?thesis using assms by (simp add: committed_def reap_frame_def)
qed

lemma committed_trans:
  assumes "committed s s1" "committed s1 s2"
  shows "committed s s2"
proof -
  have same: "tbl_list s1 = tbl_list s" using assms(1) by (simp add: committed_def)
  have "\<exists>sz c p. r_tbl s2 t = Some (tb\<lparr>rt_sz := sz, rt_curr := c, rt_prev := p\<rparr>)" if u: "t \<in> set (tbl_list s ip)" "r_tbl s t = Some tb" for t tb ip
  proof -
    obtain sz c p where 1: "r_tbl s1 t = Some (tb\<lparr>rt_sz := sz, rt_curr := c, rt_prev := p\<rparr>)" using assms(1) u unfolding committed_def by blast
    have "t \<in> set (tbl_list s1 ip)" using u(1) same by simp
    then obtain sz' c' p' where "r_tbl s2 t = Some (tb\<lparr>rt_sz := sz, rt_curr := c, rt_prev := p\<rparr>\<lparr>rt_sz := sz', rt_curr := c', rt_prev := p'\<rparr>)"
      using assms(2) 1 unfolding committed_def by blast
    then have "r_tbl s2 t = Some (tb\<lparr>rt_sz := sz', rt_curr := c', rt_prev := p'\<rparr>)" by simp
    then show ?thesis by blast
  qed
  then show ?thesis using assms rules_noted_trans [of s s1 s2] by (simp add: committed_def)
qed

lemma committed_refl: "committed s s"
  by (rule prep_committed [OF prep_frame_refl])

text \<open>A state with another image in the hardware.\<close>

lemma hw_committed: "committed s (s\<lparr>rt_hw := h\<rparr>)"
  using committed_refl [of s] by (simp add: committed_def rules_noted_def)

definition hw_shows :: "rt_env \<Rightarrow> ip_type \<Rightarrow> rt_db \<Rightarrow> bool" where
  "hw_shows e ip s \<longleftrightarrow> (\<forall>t \<in> set (tbl_list s ip). prepared e ip s t) \<and>
     (\<exists>n. \<forall>rlt. (rlt = IPA_RULE_HASHABLE \<longrightarrow> \<not> x_not_hashable e) \<longrightarrow> img_for e ip rlt n (rt_hw s ip rlt) (tbl_list s ip) s)"

lemma buf_own_prep:
  assumes "buf_own own s" "prep_frame s s'"
  shows "buf_own own s'"
  unfolding buf_own_def
proof (intro conjI allI impI)
  fix t tb' r b assume t: "r_tbl s' t = Some tb'" "rt_curr tb' r = Some b \<or> rt_prev tb' r = Some b"
  then obtain tb sz where "r_tbl s t = Some tb" "tb' = tb\<lparr>rt_sz := sz\<rparr>" using prep_tbl(3) [OF assms(2)] by blast
  then show "b < r_next s'" "own b = rt_set tb'" using assms t(2) by (auto simp: buf_own_def prep_frame_def)
next
  fix ip r i b assume "rt_hw s' ip r i = Some b"
  then show "b < r_next s'" "own b = ip" "rt_mem s' b \<noteq> None" using assms by (auto simp: buf_own_def prep_frame_def)
qed

lemma img_for_next:
  assumes img: "img_for e ip rlt n img ts s" and t: "t \<in> set ts" "r_tbl s t = Some tb" "img (rt_idx tb - x_apps_lo e ip) = Some b"
  shows "n \<le> b \<and> b < r_next s \<and> rt_mem s b \<noteq> None"
proof -
  have "shows_tbl e ip rlt n img tb s" using img t(1,2) by (simp add: img_for_def)
  then show ?thesis using t(3) by (cases "rules_img e ip rlt s (rt_rules tb) = []") (auto simp: shows_tbl_def Let_def)
qed

lemma img_for_some:
  assumes "img_for e ip rlt n img ts s" "img i = Some b"
  shows "n \<le> b \<and> b < r_next s \<and> rt_mem s b \<noteq> None"
proof -
  obtain t tb where "t \<in> set ts" "r_tbl s t = Some tb" "rt_idx tb - x_apps_lo e ip = i"
    using assms unfolding img_for_def by (metis option.distinct(1))
  then show ?thesis using img_for_next [OF assms(1)] assms(2) by blast
qed

lemma generate_rt_hw_tbl_img_ok:
  assumes inv: "rt_inv e s" and prep: "\<forall>t \<in> set (tbl_list s ip). prepared e ip s t" and own: "buf_own own s"
  shows "\<exists>r img s'. generate_rt_hw_tbl_img e ip s = Some (r, img, s') \<and> rt_inv e s' \<and> trans_frame s s' \<and>
    buf_own (own_from (r_next s) ip own) s' \<and> (\<forall>t tb rlt b. r_tbl s' t = Some tb \<longrightarrow> rt_prev tb rlt = Some b \<longrightarrow> b < r_next s) \<and>
    (\<forall>u. u \<notin> set (tbl_list s ip) \<longrightarrow> r_tbl s' u = r_tbl s u) \<and>
    (r = OK \<longrightarrow> (\<forall>rlt. img_for e ip rlt (r_next s) (img rlt) (tbl_list s ip) s'))"
proof (cases "x_imgs e ip")
  case False
  have "buf_own (own_from (r_next s) ip own) s" using own by (auto simp: buf_own_def own_from_def)
  moreover have "\<forall>t tb rlt b. r_tbl s t = Some tb \<longrightarrow> rt_prev tb rlt = Some b \<longrightarrow> b < r_next s" using own by (auto simp: buf_own_def)
  ultimately show ?thesis using False inv trans_frame_refl by (simp add: generate_rt_hw_tbl_img_def)
next
  case imgs: True
  let ?n = "r_next s" and ?ts = "tbl_list s ip" and ?own = "own_from (r_next s) ip own"
  have dist: "distinct ([] @ ?ts)" using rt_invD(6) [OF inv] by (simp add: tbls_ok_def)
  have sub: "set ([] @ ?ts) \<subseteq> set (tbl_list s ip)" by simp
  have old: "old_bufs ?n rlt ?ts s" for rlt using own by (auto simp: buf_own_def old_bufs_def)
  have none: "img_for e ip rlt ?n (\<lambda>i. None) [] z" for rlt z by (simp add: img_for_def)
  obtain r hash s1 where s1: "translate_rt_tbl_to_hw_fmt e ip IPA_RULE_HASHABLE ?ts (\<lambda>i. None) s = Some (r, hash, s1)" "rt_inv e s1" "trans_frame s s1"
    "buf_own ?own s1" "old_bufs ?n IPA_RULE_HASHABLE [] s1"
    "\<forall>u r ub ub'. r \<noteq> IPA_RULE_HASHABLE \<longrightarrow> r_tbl s u = Some ub \<longrightarrow> r_tbl s1 u = Some ub' \<longrightarrow> rt_curr ub' r = rt_curr ub r"
    "\<forall>u. u \<notin> set ?ts \<longrightarrow> r_tbl s1 u = r_tbl s u" "r = OK \<longrightarrow> img_for e ip IPA_RULE_HASHABLE ?n hash ([] @ ?ts) s1"
    using translate_list_ok [OF inv sub dist prep own old [of IPA_RULE_HASHABLE] order_refl none] by (elim exE conjE) (rule that)
  have prev: "\<forall>t tb rlt b. r_tbl z t = Some tb \<longrightarrow> rt_prev tb rlt = Some b \<longrightarrow> b < ?n" if "old_bufs ?n rlt [] z" for rlt z
    using that by (auto simp: old_bufs_def)
  show ?thesis
  proof (cases "r = OK")
    case False
    then have "generate_rt_hw_tbl_img e ip s = Some (Err EPERM, \<lambda>r i. None, s1)" using imgs s1(1) by (simp add: generate_rt_hw_tbl_img_def)
    then show ?thesis using s1(2-4,7) prev [OF s1(5)] by (intro exI [of _ "Err EPERM"] exI [of _ "\<lambda>r i. None"] exI [of _ s1]) simp
  next
    case True
    have list: "tbl_list s1 ip = ?ts" "?n \<le> r_next s1" using s1(3) by (simp_all add: trans_frame_def)
    have curr: "b < ?n" if t: "r_tbl s1 t = Some tb'" "rt_curr tb' IPA_RULE_NON_HASHABLE = Some b" for t tb' b
    proof -
      obtain tb where tb: "r_tbl s t = Some tb" using trans_tbl_back [OF s1(3) t(1)] by blast
      have "rt_curr tb IPA_RULE_NON_HASHABLE = Some b" using s1(6) tb t by force
      then show ?thesis using own tb by (auto simp: buf_own_def)
    qed
    have old1: "old_bufs ?n IPA_RULE_NON_HASHABLE ?ts s1" using curr s1(5) by (auto simp: old_bufs_def)
    have prep1: "\<forall>t \<in> set ?ts. prepared e ip s1 t" using prep prepared_trans [OF _ s1(3)] by blast
    have sub1: "set ([] @ ?ts) \<subseteq> set (tbl_list s1 ip)" using list(1) by simp
    obtain r2 nhash s2 where s2: "translate_rt_tbl_to_hw_fmt e ip IPA_RULE_NON_HASHABLE ?ts (\<lambda>i. None) s1 = Some (r2, nhash, s2)" "rt_inv e s2"
      "trans_frame s1 s2" "buf_own (own_from (r_next s1) ip ?own) s2" "old_bufs ?n IPA_RULE_NON_HASHABLE [] s2"
      "\<forall>u. u \<notin> set ?ts \<longrightarrow> r_tbl s2 u = r_tbl s1 u" "r2 = OK \<longrightarrow> img_for e ip IPA_RULE_NON_HASHABLE ?n nhash ([] @ ?ts) s2"
      using translate_list_ok [OF s1(2) sub1 dist prep1 s1(4) old1 list(2) none] by (elim exE conjE) (rule that)
    let ?img = "\<lambda>r. case r of IPA_RULE_HASHABLE \<Rightarrow> hash | IPA_RULE_NON_HASHABLE \<Rightarrow> nhash"
    have run: "generate_rt_hw_tbl_img e ip s = Some (if r2 \<noteq> OK then Err EPERM else OK, ?img, s2)"
      using imgs s1(1) True s2(1) list by (simp add: generate_rt_hw_tbl_img_def)
    have own2: "own_from (r_next s1) ip ?own = ?own" using list(2) by (auto simp: own_from_def)
    have "\<forall>t \<in> set ?ts. r_tbl s1 t \<noteq> None" using rt_invD(3) [OF s1(2), of _ ip] list(1) by auto
    then have "img_for e ip IPA_RULE_HASHABLE ?n hash ?ts s2" using img_for_trans [OF _ s2(3)] s1(8) True by simp
    then have "\<forall>rlt. img_for e ip rlt ?n (?img rlt) ?ts s2" if "r2 = OK" using s2(7) that by (auto split: rule_type.splits)
    then show ?thesis using run s2(2) trans_frame_trans [OF s1(3) s2(3)] s2(4) own2 prev [OF s2(5)] s1(7) s2(6)
      by (intro exI [of _ "if r2 \<noteq> OK then Err EPERM else OK"] exI [of _ ?img] exI [of _ s2]) simp
  qed
qed

lemma img_for_reap:
  assumes img: "img_for e ip rlt n img (tbl_list s ip) s" and fr: "reap_frame s s'" and mem: "\<forall>b \<ge> n. rt_mem s' b = rt_mem s b"
    and live: "\<forall>t \<in> set (tbl_list s ip). r_tbl s t \<noteq> None"
  shows "img_for e ip rlt n img (tbl_list s ip) s'"
  unfolding img_for_def
proof (intro conjI ballI allI impI)
  have same: "hdb s' = hdb s" "r_rule s' = r_rule s" "r_next s' = r_next s" using fr by (simp_all add: reap_frame_def)
  fix t tb' assume t: "t \<in> set (tbl_list s ip)" "r_tbl s' t = Some tb'"
  then obtain tb p where tb: "r_tbl s t = Some tb" "tb' = tb\<lparr>rt_prev := p\<rparr>" using fr unfolding reap_frame_def by blast
  then have "shows_tbl e ip rlt n img tb s" using img t(1) by (simp add: img_for_def)
  then show "shows_tbl e ip rlt n img tb' s'"
    using mem same rules_img_cong [of s' s]
    by (cases "rules_img e ip rlt s (rt_rules tb) = []") (auto simp: shows_tbl_def Let_def tb(2))
next
  fix i assume i: "\<forall>t \<in> set (tbl_list s ip). \<forall>tb. r_tbl s' t = Some tb \<longrightarrow> rt_idx tb - x_apps_lo e ip \<noteq> i"
  have "rt_idx tb - x_apps_lo e ip \<noteq> i" if t: "t \<in> set (tbl_list s ip)" "r_tbl s t = Some tb" for t tb
  proof -
    obtain p where "r_tbl s' t = Some (tb\<lparr>rt_prev := p\<rparr>)" using fr t unfolding reap_frame_def by blast
    then show ?thesis using i t(1) by fastforce
  qed
  then show "img i = None" using img by (simp add: img_for_def)
qed

lemma prepared_reap:
  assumes "prepared e ip s t" "reap_frame s s'" "t \<in> set (tbl_list s ip)"
  shows "prepared e ip s' t"
proof -
  have same: "hdb s' = hdb s" "r_rule s' = r_rule s" using assms(2) by (simp_all add: reap_frame_def)
  obtain tb where tb: "r_tbl s t = Some tb" using assms(1) by (auto simp: prepared_def)
  obtain p where "r_tbl s' t = Some (tb\<lparr>rt_prev := p\<rparr>)" using assms(2,3) tb unfolding reap_frame_def by blast
  moreover have "entries s' as = entries s as" for as by (simp add: entries_def same)
  moreover have "ready e ip s' a \<longleftrightarrow> ready e ip s a" for a using ready_cong [of s' a s] same by simp
  ultimately show ?thesis using assms(1) tb by (auto simp: prepared_def)
qed

lemma reap_sys_rt_tbls_ok:
  assumes inv: "rt_inv e s"
    and prev: "\<And>t tb r b. t \<in> set (tbl_list s ip) \<Longrightarrow> r_tbl s t = Some tb \<Longrightarrow> rt_prev tb r = Some b \<Longrightarrow> b \<in> B"
    and curr: "\<And>t tb r b. t \<in> set (reap_list s ip) \<Longrightarrow> r_tbl s t = Some tb \<Longrightarrow> rt_curr tb r = Some b \<Longrightarrow> b \<in> B"
  shows "\<exists>s'. reap_sys_rt_tbls ip s = Some s' \<and> rt_inv e s' \<and> reap_frame s s' \<and> (\<forall>b. b \<notin> B \<longrightarrow> rt_mem s' b = rt_mem s b)"
proof -
  obtain s1 where s1: "reap_prev (tbl_list s ip) s = Some s1" "rt_inv e s1" "reap_frame s s1" "reap_list s1 = reap_list s"
    "\<forall>b. b \<notin> B \<longrightarrow> rt_mem s1 b = rt_mem s b"
    using reap_prev_ok [OF inv subset_refl, of ip B] prev by blast
  have c1: "b \<in> B" if u: "r_tbl s1 t = Some tb'" "t \<in> set (reap_list s1 ip)" "rt_curr tb' r = Some b" for t tb' r b
  proof -
    obtain tb p where tb: "r_tbl s t = Some tb" "tb' = tb\<lparr>rt_prev := p\<rparr>" using s1(3) u(1) unfolding reap_frame_def by blast
    then show ?thesis using curr [of t tb r b] u(2,3) s1(4) by simp
  qed
  have "distinct (reap_list s1 ip)" using rt_invD(6) [OF s1(2)] by (simp add: tbls_ok_def)
  note reap_tbls_ok [OF s1(2) subset_refl this, where B = B]
  then obtain s' where s': "reap_tbls ip (reap_list s1 ip) s1 = Some s'" "rt_inv e s'" "reap_frame s1 s'"
    "\<forall>b. b \<notin> B \<longrightarrow> rt_mem s' b = rt_mem s1 b" using c1 by blast
  then show ?thesis using s1 reap_frame_trans [OF s1(3) s'(3)] by (intro exI [of _ s']) (simp add: reap_sys_rt_tbls_def)
qed

lemma buf_own_reap:
  assumes own: "buf_own own s" and fr: "reap_frame s s'"
    and mem: "\<And>ip r i b. rt_hw s ip r i = Some b \<Longrightarrow> rt_mem s' b = rt_mem s b"
  shows "buf_own own s'"
  unfolding buf_own_def
proof (intro conjI allI impI)
  have same: "r_next s' = r_next s" "rt_hw s' = rt_hw s" using fr by (simp_all add: reap_frame_def)
  fix t tb' r b assume t: "r_tbl s' t = Some tb'" "rt_curr tb' r = Some b \<or> rt_prev tb' r = Some b"
  then obtain tb p where tb: "r_tbl s t = Some tb" "tb' = tb\<lparr>rt_prev := p\<rparr>" "\<forall>r. p r = rt_prev tb r \<or> p r = None"
    using fr unfolding reap_frame_def by blast
  have "p r = rt_prev tb r \<or> p r = None" using tb(3) by simp
  then have "rt_curr tb r = Some b \<or> rt_prev tb r = Some b" using t(2) tb(2) by auto
  then show "b < r_next s'" "own b = rt_set tb'" using own tb(1,2) same by (auto simp: buf_own_def)
next
  have same: "r_next s' = r_next s" "rt_hw s' = rt_hw s" using fr by (simp_all add: reap_frame_def)
  fix ip r i b assume "rt_hw s' ip r i = Some b"
  then show "b < r_next s'" "own b = ip" "rt_mem s' b \<noteq> None" using own mem same by (auto simp: buf_own_def)
qed

text \<open>The commit: it has a result, and if it returns 0 and its commands were made, the hardware has the tables.\<close>

lemma commit_rt_ok:
  assumes inv: "rt_inv e s" and hw: "hw_ok e s"
  shows "\<exists>r s'. commit_rt_v3 e ip s = Some (r, s') \<and> rt_inv e s' \<and> committed s s' \<and> hw_ok e s' \<and>
    (if r = OK \<and> rt_cmds_made e then hw_shows e ip s' else rt_hw s' = rt_hw s)"
proof (cases "rt_idx_bitmap s ip = 0")
  case True
  then show ?thesis using inv hw committed_refl by (simp add: commit_rt_v3_def)
next
  case bitmap: False
  let ?ts = "tbl_list s ip"
  obtain own where own: "buf_own own s" using hw by (auto simp: hw_ok_def)
  have hash: "x_not_hashable e \<longrightarrow> (\<forall>ip i. rt_hw s ip IPA_RULE_HASHABLE i = None)" using hw by (simp add: hw_ok_def)
  have "distinct ?ts" using rt_invD(6) [OF inv] by (simp add: tbls_ok_def)
  from prep_tbls_ok [OF inv subset_refl this] obtain r1 s1 where s1: "prep_tbls e ip ?ts s = Some (r1, s1)" "rt_inv e s1" "prep_frame s s1"
    "r1 = OK \<longrightarrow> (\<forall>t \<in> set ?ts. prepared e ip s1 t)" by blast
  have own1: "buf_own own s1" by (rule buf_own_prep [OF own s1(3)])
  have c1: "committed s s1" by (rule prep_committed [OF s1(3)])
  have hw1: "rt_hw s1 = rt_hw s" "tbl_list s1 = tbl_list s" "r_next s1 = r_next s" using s1(3) by (simp_all add: prep_frame_def rt_frame_def)
  then have ok1: "hw_ok e s1" using own1 hash by (auto simp: hw_ok_def)
  show ?thesis
  proof (cases "r1 = OK")
    case False
    then have "commit_rt_v3 e ip s = Some (Err EPERM, s1)" using bitmap s1(1) by (simp add: commit_rt_v3_def)
    then show ?thesis using s1(2) c1 ok1 hw1 by (intro exI [of _ "Err EPERM"] exI [of _ s1]) simp
  next
    case prep: True
    let ?n = "r_next s1" and ?own = "own_from (r_next s1) ip own"
    have prepared1: "\<forall>t \<in> set (tbl_list s1 ip). prepared e ip s1 t" using s1(4) prep hw1 by simp
    obtain r2 img s2 where s2: "generate_rt_hw_tbl_img e ip s1 = Some (r2, img, s2)" "rt_inv e s2" "trans_frame s1 s2" "buf_own ?own s2"
      "\<forall>t tb rlt b. r_tbl s2 t = Some tb \<longrightarrow> rt_prev tb rlt = Some b \<longrightarrow> b < ?n" "\<forall>u. u \<notin> set (tbl_list s1 ip) \<longrightarrow> r_tbl s2 u = r_tbl s1 u"
      "r2 = OK \<longrightarrow> (\<forall>rlt. img_for e ip rlt ?n (img rlt) (tbl_list s1 ip) s2)"
      using generate_rt_hw_tbl_img_ok [OF s1(2) prepared1 own1] by (elim exE conjE) (rule that)
    have c2: "committed s s2" by (rule committed_trans [OF c1 trans_committed [OF s2(3)]])
    have hw2: "rt_hw s2 = rt_hw s" "tbl_list s2 = tbl_list s" "?n \<le> r_next s2" "reap_list s2 = reap_list s1"
      using s2(3) hw1 by (simp_all add: trans_frame_def)
    have ok2: "hw_ok e s2" using s2(4) hash hw2(1) by (auto simp: hw_ok_def)
    show ?thesis
    proof (cases "r2 = OK \<and> rt_cmds_made e \<and> x_rt_send e")
      case False
      then have "\<exists>r. commit_rt_v3 e ip s = Some (r, s2) \<and> \<not> (r = OK \<and> rt_cmds_made e)"
        using bitmap s1(1) prep s2(1) by (simp add: commit_rt_v3_def)
      then show ?thesis using s2(2) c2 ok2 hw2 by auto
    next
      case send: True
      define h where "h = (rt_hw s2)(ip := (\<lambda>r. if r = IPA_RULE_HASHABLE \<and> x_not_hashable e then rt_hw s2 ip r else img r))"
      define z where "z = s2\<lparr>rt_hw := h\<rparr>"
      define B where "B = {b. b < ?n \<and> own b = ip}"
      have img: "img_for e ip rlt ?n (img rlt) (tbl_list z ip) s2" for rlt using s2(7) send hw1 hw2 by (simp add: z_def)
      have iz: "rt_inv e z" unfolding z_def by (rule rt_inv_frame [OF s2(2)]) simp_all
      have hz: "?n \<le> b \<and> b < r_next s2 \<and> rt_mem s2 b \<noteq> None" if "h ip r i = Some b" for r i b
        using that img_for_some [OF img, of r i b] hash hw2(1) by (auto simp: h_def split: if_splits)
      have oz: "buf_own ?own z" unfolding buf_own_def
      proof (intro conjI allI impI)
        fix t tb r b assume "r_tbl z t = Some tb" "rt_curr tb r = Some b \<or> rt_prev tb r = Some b"
        then show "b < r_next z" "?own b = rt_set tb" using s2(4) by (auto simp: buf_own_def z_def)
      next
        fix ip' r i b assume b: "rt_hw z ip' r i = Some b"
        have "b < r_next s2 \<and> ?own b = ip' \<and> rt_mem s2 b \<noteq> None"
        proof (cases "ip' = ip")
          case True
          then have "?n \<le> b \<and> b < r_next s2 \<and> rt_mem s2 b \<noteq> None" using hz [of r i b] b by (simp add: z_def)
          then show ?thesis using True by (simp add: own_from_def)
        next
          case False
          then have "rt_hw s2 ip' r i = Some b" using b by (simp add: z_def h_def)
          then show ?thesis using s2(4) by (simp add: buf_own_def)
        qed
        then show "b < r_next z" "?own b = ip'" "rt_mem z b \<noteq> None" by (simp_all add: z_def)
      qed
      have out: "b \<notin> B" if b: "rt_hw z ip' r i = Some b" for ip' r i b
      proof (cases "ip' = ip")
        case True
        then show ?thesis using hz b by (fastforce simp: B_def z_def)
      next
        case False
        have "?own b = ip'" using oz b by (auto simp: buf_own_def)
        then show ?thesis using False by (auto simp: B_def own_from_def split: if_splits)
      qed
      have p: "b \<in> B" if t: "t \<in> set (tbl_list z ip)" "r_tbl z t = Some tb" "rt_prev tb r = Some b" for t tb r b
      proof -
        have "rt_set tb = ip" using rt_invD(3) [OF iz t(1)] t(2) by (auto simp: tbl_ok_def)
        moreover have "?own b = rt_set tb" using oz t by (auto simp: buf_own_def)
        moreover have "b < ?n" using s2(5) t by (simp add: z_def)
        ultimately show ?thesis by (simp add: B_def own_from_def)
      qed
      have c: "b \<in> B" if t: "t \<in> set (reap_list z ip)" "r_tbl z t = Some tb" "rt_curr tb r = Some b" for t tb r b
      proof -
        have t1: "t \<in> set (reap_list s1 ip)" using t(1) hw2(4) by (simp add: z_def)
        then have "t \<notin> set (tbl_list s1 ip)" using tbl_in_one_list(2) [OF s1(2)] by blast
        then have tb: "r_tbl s1 t = Some tb" using s2(6) t(2) by (simp add: z_def)
        have "rt_set tb = ip" using reaped_tbl [OF rt_invD(6) [OF s1(2)] t1] tb by auto
        then show ?thesis using own1 tb t(3) by (auto simp: buf_own_def B_def)
      qed
      note reap_sys_rt_tbls_ok [OF iz, where B = B and ip = ip]
      then obtain s3 where s3: "reap_sys_rt_tbls ip z = Some s3" "rt_inv e s3" "reap_frame z s3"
        "\<forall>b. b \<notin> B \<longrightarrow> rt_mem s3 b = rt_mem z b" using p c by blast
      have run: "commit_rt_v3 e ip s = Some (OK, s3)"
        using bitmap s1(1) prep s2(1) send s3(1) by (simp add: commit_rt_v3_def z_def h_def)
      have c3: "committed s s3"
        using committed_trans [OF c2 committed_trans [OF hw_committed reap_committed [OF s3(3) [unfolded z_def]]]] .
      have hw3: "rt_hw s3 = h" "tbl_list s3 = tbl_list z" using s3(3) by (simp_all add: reap_frame_def z_def)
      have "buf_own ?own s3" by (rule buf_own_reap [OF oz s3(3)]) (use s3(4) out in blast)
      moreover have "x_not_hashable e \<longrightarrow> (\<forall>ip i. rt_hw s3 ip IPA_RULE_HASHABLE i = None)"
        using hash hw2(1) by (simp add: hw3 h_def)
      ultimately have ok3: "hw_ok e s3" by (auto simp: hw_ok_def)
      have live: "\<forall>t \<in> set (tbl_list z ip). r_tbl z t \<noteq> None" using rt_invD(3) [OF iz] by fastforce
      have "shows_tbl e ip rlt m i tb z = shows_tbl e ip rlt m i tb s2" for rlt m i tb
        using rules_img_cong [of z s2] by (simp add: shows_tbl_def z_def Let_def)
      then have imgz: "img_for e ip rlt ?n (img rlt) (tbl_list z ip) z" for rlt
        using img [of rlt] by (simp add: img_for_def z_def)
      have "img_for e ip rlt ?n (img rlt) (tbl_list z ip) s3" for rlt
        by (rule img_for_reap [OF imgz s3(3) _ live]) (use s3(4) in \<open>simp add: B_def\<close>)
      then have "img_for e ip rlt ?n (rt_hw s3 ip rlt) (tbl_list s3 ip) s3" if "rlt = IPA_RULE_HASHABLE \<longrightarrow> \<not> x_not_hashable e" for rlt
        using that hw3 by (auto simp: h_def)
      moreover have "prepared e ip s3 t" if t: "t \<in> set (tbl_list s3 ip)" for t
      proof -
        have "prepared e ip s2 t" using prepared_trans [OF _ s2(3)] prepared1 t hw1 hw2 hw3 by (simp add: z_def)
        then have "prepared e ip z t" by (rule prepared_cong) (simp_all add: z_def)
        then show ?thesis using prepared_reap [OF _ s3(3)] t hw3(2) by simp
      qed
      ultimately have "hw_shows e ip s3" unfolding hw_shows_def by blast
      then show ?thesis using run s3(2) c3 ok3 send by (intro exI [of _ OK] exI [of _ s3]) simp
    qed
  qed
qed

end
