(* ===== verification/Ipa_Rt_Calls.thy ===== *)
theory Ipa_Rt_Calls
  imports Ipa_Rt_Commit
begin

text \<open>
  The calls of the routing component: that the operations leave the buffers of the commit alone, that
  every call has a result and keeps the invariant, and histories of calls, with the calls of the
  header tables between them.
\<close>

section \<open>Buffers stay\<close>

text \<open>Outside a commit no buffer changes, and a new table has none.\<close>

definition bufs_kept :: "rt_db \<Rightarrow> rt_db \<Rightarrow> bool" where
  "bufs_kept s s' \<longleftrightarrow> rt_hw s' = rt_hw s \<and> rt_mem s' = rt_mem s \<and> r_next s \<le> r_next s' \<and>
     (\<forall>t tb'. r_tbl s' t = Some tb' \<longrightarrow> rt_curr tb' = (\<lambda>r. None) \<and> rt_prev tb' = (\<lambda>r. None) \<or>
        (\<exists>tb. r_tbl s t = Some tb \<and> rt_set tb' = rt_set tb \<and> rt_curr tb' = rt_curr tb \<and> rt_prev tb' = rt_prev tb))"

named_theorems bufs

lemma bufs_refl [bufs]: "bufs_kept s s"
  by (auto simp: bufs_kept_def)

lemma bufs_trans:
  assumes "bufs_kept s s1" "bufs_kept s1 s2"
  shows "bufs_kept s s2"
proof -
  have "rt_curr tb2 = (\<lambda>r. None) \<and> rt_prev tb2 = (\<lambda>r. None) \<or>
      (\<exists>tb. r_tbl s t = Some tb \<and> rt_set tb2 = rt_set tb \<and> rt_curr tb2 = rt_curr tb \<and> rt_prev tb2 = rt_prev tb)"
    if t: "r_tbl s2 t = Some tb2" for t tb2
  proof -
    consider "rt_curr tb2 = (\<lambda>r. None) \<and> rt_prev tb2 = (\<lambda>r. None)"
      | tb1 where "r_tbl s1 t = Some tb1" "rt_set tb2 = rt_set tb1" "rt_curr tb2 = rt_curr tb1" "rt_prev tb2 = rt_prev tb1"
      using assms(2) t unfolding bufs_kept_def by blast
    then show ?thesis
    proof cases
      case 2
      then show ?thesis using assms(1) unfolding bufs_kept_def by metis
    qed simp
  qed
  then show ?thesis using assms unfolding bufs_kept_def by auto
qed

lemma hw_ok_bufs:
  assumes "hw_ok e s" "bufs_kept s s'"
  shows "hw_ok e s'"
proof -
  obtain own where own: "buf_own own s" using assms(1) by (auto simp: hw_ok_def)
  have "buf_own own s'"
    unfolding buf_own_def
  proof (intro conjI allI impI)
    fix t tb' r b assume t: "r_tbl s' t = Some tb'" and b: "rt_curr tb' r = Some b \<or> rt_prev tb' r = Some b"
    then obtain tb where "r_tbl s t = Some tb" "rt_set tb' = rt_set tb" "rt_curr tb' = rt_curr tb" "rt_prev tb' = rt_prev tb"
      using assms(2) unfolding bufs_kept_def by fastforce
    moreover have "r_next s \<le> r_next s'" using assms(2) by (simp add: bufs_kept_def)
    ultimately have "b < r_next s' \<and> own b = rt_set tb'" using own b unfolding buf_own_def by (metis order_less_le_trans)
    then show "b < r_next s'" "own b = rt_set tb'" by simp_all
  next
    fix ip r i b assume "rt_hw s' ip r i = Some b"
    moreover have "rt_hw s' = rt_hw s" "rt_mem s' = rt_mem s" "r_next s \<le> r_next s'" using assms(2) by (simp_all add: bufs_kept_def)
    ultimately have "b < r_next s' \<and> own b = ip \<and> rt_mem s' b \<noteq> None" using own unfolding buf_own_def by (metis order_less_le_trans)
    then show "b < r_next s'" "own b = ip" "rt_mem s' b \<noteq> None" by simp_all
  qed
  then show ?thesis using assms by (auto simp: hw_ok_def bufs_kept_def)
qed

lemma bufs_fields [bufs]:
  "bufs_kept s (s\<lparr>hdb := d\<rparr>)" "bufs_kept s (s\<lparr>r_rule := R\<rparr>)" "bufs_kept s (s\<lparr>rule_ids := k\<rparr>)" "bufs_kept s (s\<lparr>r_next := Suc (r_next s)\<rparr>)"
  "bufs_kept s (set_idx ip i s)" "bufs_kept s (rt_id_remove i s)"
  by (auto simp: bufs_kept_def set_idx_def rt_id_remove_def upd_hdb_def)

lemma bufs_tbl:
  assumes "r_tbl s t = Some tb" "rt_set tb' = rt_set tb" "rt_curr tb' = rt_curr tb" "rt_prev tb' = rt_prev tb"
  shows "bufs_kept s (s\<lparr>r_tbl := (r_tbl s)(t \<mapsto> tb')\<rparr>)"
  unfolding bufs_kept_def
proof (intro conjI allI impI)
  fix u ub assume "r_tbl (s\<lparr>r_tbl := (r_tbl s)(t \<mapsto> tb')\<rparr>) u = Some ub"
  then show "rt_curr ub = (\<lambda>r. None) \<and> rt_prev ub = (\<lambda>r. None) \<or>
     (\<exists>tb. r_tbl s u = Some tb \<and> rt_set ub = rt_set tb \<and> rt_curr ub = rt_curr tb \<and> rt_prev ub = rt_prev tb)"
    using assms by (cases "u = t") auto
qed simp_all

lemma bufs_upd_tbl:
  "upd_tbl t f s = Some s' \<Longrightarrow> (\<And>tb. rt_set (f tb) = rt_set tb \<and> rt_curr (f tb) = rt_curr tb \<and> rt_prev (f tb) = rt_prev tb) \<Longrightarrow> bufs_kept s s'"
  by (auto simp: upd_tbl_def bind_eq_Some_conv intro: bufs_tbl)

lemma bufs_upd_rule: "upd_rule a f s = Some s' \<Longrightarrow> bufs_kept s s'"
  by (auto simp: upd_rule_def bufs_kept_def bind_eq_Some_conv)

lemma bufs_refs: "take_refs x s = Some s' \<Longrightarrow> bufs_kept s s'" "drop_refs x s = Some s' \<Longrightarrow> bufs_kept s s'"
    "release_refs e x s = Some s' \<Longrightarrow> bufs_kept s s'"
  by (auto simp: take_refs_def drop_refs_def release_refs_def bufs_kept_def bind_eq_Some_conv split: if_splits)

lemma bufs_rid: "rid_remove i tb s = Some s' \<Longrightarrow> bufs_kept s s'"
  by (auto simp: rid_remove_def bufs_kept_def split: if_splits)

lemma bufs_add_rt_tbl: "add_rt_tbl e ip name s = Some (r, s') \<Longrightarrow> bufs_kept s s'"
  by (auto simp: add_rt_tbl_def bufs_kept_def set_idx_def new_tbl_def Let_def bind_eq_Some_conv
      split: if_splits option.splits sum.splits prod.splits)

lemma bufs_drop_tbl: "r_tbl s t = Some tb \<Longrightarrow> bufs_kept s (drop_tbl ip t tb s)"
  by (auto simp: drop_tbl_def bufs_kept_def clear_idx_def unlink_tbl_def Let_def)

lemma bufs_del_rt_tbl: "del_rt_tbl t s = Some (r, s') \<Longrightarrow> bufs_kept s s'"
  using bufs_drop_tbl [of s t] bufs_trans [OF _ bufs_fields(6)]
  by (auto simp: del_rt_tbl_def bind_eq_Some_conv bufs_refl split: if_splits)

lemma bufs_create: "create_rt_entry e r t h c rid user s = Some (oa, s') \<Longrightarrow> bufs_kept s s'"
  by (auto simp: create_rt_entry_def bufs_kept_def Let_def bind_eq_Some_conv split: if_splits option.splits)

lemma bufs_finish:
  assumes "finish_rt_rule_add e a t s = Some (r, hdl, s')"
  shows "bufs_kept s s'"
proof -
  obtain tb where tb: "r_tbl s t = Some tb" using assms by (auto simp: finish_rt_rule_add_def bind_eq_Some_conv)
  show ?thesis
  proof (cases "rt_rule_cnt tb < IPA_RULE_CNT_MAX")
    case False
    then show ?thesis using assms tb by (simp add: finish_rt_rule_add_def bufs_refl)
  next
    case True
    obtain s1 x s2 where s1: "upd_tbl t (\<lambda>tb. tb\<lparr>rt_rule_cnt := rt_rule_cnt tb + 1\<rparr>) s = Some s1" "r_rule s1 a = Some x" "take_refs x s1 = Some s2"
      using assms True tb by (auto simp: finish_rt_rule_add_def bind_eq_Some_conv)
    have b2: "bufs_kept s s2" using bufs_trans [OF bufs_upd_tbl [OF s1(1)] bufs_refs(1) [OF s1(3)]] by simp
    obtain o1 d where al: "ipa3_id_alloc (x_id e (PRule a)) (PRule a) (db_idr (hdb s2)) = (o1, d)" by (cases "ipa3_id_alloc (x_id e (PRule a)) (PRule a) (db_idr (hdb s2))")
    show ?thesis
    proof (cases o1)
      case (Inl err)
      then obtain s3 s4 s5 where s5: "drop_refs x s2 = Some s3" "rid_remove (re_rule_id x) tb s3 = Some s4"
        "upd_tbl t (\<lambda>tb. tb\<lparr>rt_rules := remove1 a (rt_rules tb)\<rparr>) s4 = Some s5" "s' = s5\<lparr>r_rule := (r_rule s5)(a := None)\<rparr>"
        using assms True tb s1 al by (auto simp: finish_rt_rule_add_def bind_eq_Some_conv)
      have "bufs_kept s2 s4" by (rule bufs_trans [OF bufs_refs(2) [OF s5(1)] bufs_rid [OF s5(2)]])
      moreover have "bufs_kept s4 s'" unfolding s5(4) by (rule bufs_trans [OF bufs_upd_tbl [OF s5(3)] bufs_fields(2)]) simp
      ultimately show ?thesis using b2 bufs_trans by blast
    next
      case (Inr i)
      then have "upd_rule a (\<lambda>x. x\<lparr>re_id := i\<rparr>) (s2\<lparr>hdb := (hdb s2)\<lparr>db_idr := d\<rparr>\<rparr>) = Some s'"
        using assms True tb s1 al by (auto simp: finish_rt_rule_add_def bind_eq_Some_conv)
      then show ?thesis using bufs_trans [OF b2 bufs_trans [OF bufs_fields(1) bufs_upd_rule]] by blast
    qed
  qed
qed


lemma bufs_add_rule:
  assumes "add_rt_rule e ip name r at_rear rid user s = Some (rc, hdl, s')"
  shows "bufs_kept s s'"
proof -
  obtain v where v: "rt_validate_hndls e r s = Some v" using assms by (auto simp: add_rt_rule_def bind_eq_Some_conv)
  show ?thesis
  proof (cases "v = None \<or> rt_validate_rule_id rid \<noteq> OK")
    case True
    then show ?thesis using assms v by (auto simp: add_rt_rule_def bufs_refl split: option.splits prod.splits)
  next
    case False
    then obtain h c where hc: "v = Some (h, c)" "rt_validate_rule_id rid = OK" by auto
    obtain ot s1 where s1: "add_rt_tbl e ip name s = Some (ot, s1)" using assms v hc by (auto simp: add_rt_rule_def bind_eq_Some_conv)
    note b1 = bufs_add_rt_tbl [OF s1]
    show ?thesis
    proof (cases ot)
      case None
      then show ?thesis using assms v hc s1 b1 by (simp add: add_rt_rule_def)
    next
      case (Some t)
      obtain tb where tb: "r_tbl s1 t = Some tb" using assms v hc s1 Some by (auto simp: add_rt_rule_def bind_eq_Some_conv)
      show ?thesis
      proof (cases "rt_cookie tb \<noteq> IPA_RT_TBL_COOKIE \<or> rt_name tb = x_dflt_name e \<and> rt_rule_cnt tb > 0")
        case True
        then show ?thesis using assms v hc s1 Some tb b1 by (auto simp: add_rt_rule_def split: if_splits)
      next
        case ok: False
        then obtain oa s2 where s2: "create_rt_entry e r t h c rid user s1 = Some (oa, s2)"
          using assms v hc s1 Some tb by (auto simp: add_rt_rule_def bind_eq_Some_conv)
        note b2 = bufs_trans [OF b1 bufs_create [OF s2]]
        show ?thesis
        proof (cases oa)
          case None
          then show ?thesis using assms v hc s1 Some tb ok s2 b2 by (auto simp: add_rt_rule_def split: if_splits)
        next
          case a: (Some a)
          then obtain s3 ret where s3: "upd_tbl t (\<lambda>tb. tb\<lparr>rt_rules := (if at_rear then rt_rules tb @ [a] else a # rt_rules tb)\<rparr>) s2 = Some s3"
            "finish_rt_rule_add e a t s3 = Some (ret, hdl, s')"
            using assms v hc s1 Some tb ok s2 by (auto simp: add_rt_rule_def bind_eq_Some_conv split: if_splits)
          have "bufs_kept s2 s'" by (rule bufs_trans [OF bufs_upd_tbl [OF s3(1)] bufs_finish [OF s3(2)]]) simp
          then show ?thesis by (rule bufs_trans [OF b2])
        qed
      qed
    qed
  qed
qed

lemma bufs_add_after:
  assumes "add_rt_rule_after e t r after s = Some (rc, hdl, nxt, s')"
  shows "bufs_kept s s'"
proof (cases after)
  case None
  then show ?thesis using assms by (simp add: add_rt_rule_after_def bufs_refl)
next
  case (Some b)
  obtain v where v: "rt_validate_hndls e r s = Some v" using assms Some by (auto simp: add_rt_rule_after_def bind_eq_Some_conv)
  show ?thesis
  proof (cases v)
    case None
    then show ?thesis using assms Some v by (simp add: add_rt_rule_after_def bufs_refl)
  next
    case vs: (Some hc)
    obtain h c where hc: "hc = (h, c)" by (cases hc)
    obtain oa s1 where s1: "create_rt_entry e r t h c 0 True s = Some (oa, s1)"
      using assms Some v vs hc by (auto simp: add_rt_rule_after_def bind_eq_Some_conv)
    note b1 = bufs_create [OF s1]
    show ?thesis
    proof (cases oa)
      case None
      then show ?thesis using assms Some v vs hc s1 b1 by (simp add: add_rt_rule_after_def)
    next
      case a: (Some a)
      then obtain s2 ret where s2: "upd_tbl t (\<lambda>tb. tb\<lparr>rt_rules := insert_after a b (rt_rules tb)\<rparr>) s1 = Some s2"
        "finish_rt_rule_add e a t s2 = Some (ret, hdl, s')"
        using assms Some v vs hc s1 by (auto simp: add_rt_rule_after_def bind_eq_Some_conv split: if_splits)
      have "bufs_kept s1 s'" by (rule bufs_trans [OF bufs_upd_tbl [OF s2(1)] bufs_finish [OF s2(2)]]) simp
      then show ?thesis by (rule bufs_trans [OF b1])
    qed
  qed
qed

lemma bufs_forget: "forget_gone a x s = Some (x1, s') \<Longrightarrow> bufs_kept s s'"
  by (auto simp: forget_gone_def bufs_fields Let_def bind_eq_Some_conv)

lemma bufs_del_rule:
  assumes "del_rt_rule e hdl s = Some (r, s')"
  shows "bufs_kept s s'"
proof -
  obtain ra where ra: "rule_by_handle hdl s = Some ra" using assms by (auto simp: del_rt_rule_def bind_eq_Some_conv)
  show ?thesis
  proof (cases ra)
    case None
    then show ?thesis using assms ra by (simp add: del_rt_rule_def bufs_refl)
  next
    case (Some a)
    obtain x dflt where x: "r_rule s a = Some x"
      "(if \<not> rt_freed (PRule a) s then do { tb \<leftarrow> r_tbl s (re_tbl x); Some (rt_name tb = x_dflt_name e \<and> rt_rule_cnt tb = 1) } else Some False) = Some dflt"
      using assms ra Some by (auto simp: del_rt_rule_def bind_eq_Some_conv simp del: if_splits)
    show ?thesis
    proof (cases dflt)
      case True
      then show ?thesis using assms ra Some x by (simp add: del_rt_rule_def bufs_refl)
    next
      case False
      define rest where "rest = (\<lambda>(x1, s1). do {
           s2 \<leftarrow> release_refs e x1 s1;
           s3 \<leftarrow> upd_tbl (re_tbl x1) (\<lambda>tb. tb\<lparr>rt_rules := remove1 a (rt_rules tb), rt_rule_cnt := rt_rule_cnt tb - 1\<rparr>) s2;
           tb \<leftarrow> r_tbl s3 (re_tbl x1);
           s4 \<leftarrow> (if re_rule_id_valid x1 then Some s3 else rid_remove (re_rule_id x1) tb s3);
           s5 \<leftarrow> (if rt_rule_cnt tb = 0 \<and> rt_ref_cnt tb = 0
                  then do { (ret, s') \<leftarrow> del_rt_tbl (re_tbl x1) s4; Some s' } else Some s4);
           Some (OK, rt_id_remove (re_id x1) (s5\<lparr>r_rule := (r_rule s5)(a := None)\<rparr>)) })"
      have "forget_gone a x s \<bind> rest = Some (r, s')"
        using assms ra Some x False by (simp add: del_rt_rule_def rest_def)
      then obtain x1 s1 where s1: "forget_gone a x s = Some (x1, s1)" "rest (x1, s1) = Some (r, s')"
        unfolding bind_eq_Some_conv by auto
      obtain s2 s3 tb s4 s5 where s5: "release_refs e x1 s1 = Some s2"
        "upd_tbl (re_tbl x1) (\<lambda>tb. tb\<lparr>rt_rules := remove1 a (rt_rules tb), rt_rule_cnt := rt_rule_cnt tb - 1\<rparr>) s2 = Some s3"
        "(if re_rule_id_valid x1 then Some s3 else rid_remove (re_rule_id x1) tb s3) = Some s4"
        "(if rt_rule_cnt tb = 0 \<and> rt_ref_cnt tb = 0 then do { (ret, s') \<leftarrow> del_rt_tbl (re_tbl x1) s4; Some s' } else Some s4) = Some s5"
        "s' = rt_id_remove (re_id x1) (s5\<lparr>r_rule := (r_rule s5)(a := None)\<rparr>)"
        using s1(2) unfolding rest_def prod.case bind_eq_Some_conv by (elim exE conjE) (rule that, assumption+, simp)
      have "bufs_kept s s2" by (rule bufs_trans [OF bufs_forget [OF s1(1)] bufs_refs(3) [OF s5(1)]])
      moreover have "bufs_kept s2 s3" by (rule bufs_upd_tbl [OF s5(2)]) simp
      moreover have "bufs_kept s3 s4" using s5(3) bufs_rid bufs_refl by (auto split: if_splits)
      moreover have "bufs_kept s4 s5" using s5(4) bufs_del_rt_tbl bufs_refl by (auto simp: bind_eq_Some_conv split: if_splits)
      moreover have "bufs_kept s5 s'" unfolding s5(5) by (rule bufs_trans [OF bufs_fields(2,6)])
      ultimately show ?thesis using bufs_trans by blast
    qed
  qed
qed

lemma bufs_swap:
  "do { s1 \<leftarrow> drop_refs x s; s2 \<leftarrow> take_refs x1 s1; Some (r, s2\<lparr>r_rule := (r_rule s2)(a \<mapsto> x1)\<rparr>) } = Some (rc, s') \<Longrightarrow> bufs_kept s s'"
  using bufs_trans [OF bufs_refs(2) bufs_trans [OF bufs_refs(1) bufs_fields(2)]] by (auto simp: bind_eq_Some_conv)

lemma bufs_mdfy_rule:
  assumes "mdfy_rt_rule e hdl r s = Some (rc, s')"
  shows "bufs_kept s s'"
proof -
  obtain v where v: "rt_validate_hndls e r s = Some v" using assms by (cases "rt_validate_hndls e r s") (simp_all add: mdfy_rt_rule_def)
  show ?thesis
  proof (cases v)
    case None
    then show ?thesis using assms v by (simp add: mdfy_rt_rule_def bufs_refl)
  next
    case (Some hc)
    obtain h c where hc: "hc = (h, c)" by (cases hc)
    obtain ra where ra: "rule_by_handle hdl s = Some ra" using assms v Some hc by (cases "rule_by_handle hdl s") (simp_all add: mdfy_rt_rule_def)
    show ?thesis
    proof (cases ra)
      case None
      then show ?thesis using assms v Some hc ra by (simp add: mdfy_rt_rule_def bufs_refl)
    next
      case a: (Some a)
      obtain x where x: "r_rule s a = Some x" using assms v Some hc ra a by (cases "r_rule s a") (simp_all add: mdfy_rt_rule_def)
      define D where "D = (if \<not> rt_freed (PRule a) s then do { tb \<leftarrow> r_tbl s (re_tbl x); Some (rt_name tb = x_dflt_name e) } else Some False)"
      obtain dflt where d: "D = Some dflt" using assms v Some hc ra a x by (cases D) (simp_all add: mdfy_rt_rule_def D_def)
      show ?thesis
      proof (cases dflt)
        case True
        then show ?thesis using assms v Some hc ra a x d by (simp add: mdfy_rt_rule_def D_def bufs_refl)
      next
        case False
        define H where "H = (if re_hdr x \<noteq> None then hdr_by_handle (ru_hdr_hdl (re_rule x)) (hdb s) else Some None)"
        define C where "C = (if re_hdr x = None \<and> re_ctx x \<noteq> None then ctx_by_handle (ru_ctx_hdl (re_rule x)) (hdb s) else Some None)"
        define x1 where "x1 = x\<lparr>re_rule := r, re_hdr := h, re_ctx := c, re_hw_len := 0, re_prio := 0,
                            re_cnt_idx := (if ru_enable_stats r then ru_cnt_idx r else 0)\<rparr>"
        define swap where "swap = do { s1 \<leftarrow> drop_refs x s; s2 \<leftarrow> take_refs x1 s1; Some (OK, s2\<lparr>r_rule := (r_rule s2)(a \<mapsto> x1)\<rparr>) }"
        define gone where "gone = (\<lambda>(oh :: nat option) (oc :: nat option). re_hdr x \<noteq> None \<and> (oh = None \<or> rt_freed (PHdr (the (re_hdr x))) s) \<or>
                  re_hdr x = None \<and> re_ctx x \<noteq> None \<and> (oc = None \<or> rt_freed (PCtx (the (re_ctx x))) s))"
        have "D \<bind> (\<lambda>dflt. if dflt then Some (Err EINVAL, s)
              else H \<bind> (\<lambda>oh. C \<bind> (\<lambda>oc. if gone oh oc then Some (Err EPERM, s) else swap))) = Some (rc, s')"
          using assms unfolding mdfy_rt_rule_def v Some hc ra a x Let_def Option.bind.bind_lunit option.case prod.case
          by (simp only: H_def C_def D_def gone_def swap_def x1_def)
        then have "s' = s \<or> swap = Some (rc, s')" using d False by (cases H; cases C) (auto split: if_splits)
        then show ?thesis unfolding swap_def by (elim disjE) (simp add: bufs_refl, erule bufs_swap)
      qed
    qed
  qed
qed

section \<open>Batches\<close>

text \<open>Everything the calls rely on.\<close>

definition rt_safe :: "rt_env \<Rightarrow> rt_db \<Rightarrow> bool" where
  "rt_safe e s \<longleftrightarrow> rt_inv e s \<and> hw_ok e s"

lemma rt_safeD: "rt_safe e s \<Longrightarrow> rt_inv e s" "rt_safe e s \<Longrightarrow> hw_ok e s"
  by (simp_all add: rt_safe_def)

lemma rt_safe_bufs: "rt_safe e s \<Longrightarrow> rt_inv e s' \<Longrightarrow> bufs_kept s s' \<Longrightarrow> rt_safe e s'"
  using hw_ok_bufs by (auto simp: rt_safe_def)

locale rt_op =
  fixes e :: rt_env and may :: "'x \<Rightarrow> rt_db \<Rightarrow> bool" and act :: "'x \<Rightarrow> rt_db \<Rightarrow> ('r \<times> rt_db) option"
  assumes keeps: "rt_safe e s \<Longrightarrow> may x s \<Longrightarrow> \<exists>r s'. act x s = Some (r, s') \<and> rt_safe e s'"
begin

lemma each_keeps: "rt_safe e s \<Longrightarrow> each_may may act xs s \<Longrightarrow> \<exists>rs s'. each_of act xs s = Some (rs, s') \<and> rt_safe e s'"
proof (induction xs arbitrary: s)
  case (Cons x xs)
  then obtain r s1 where s1: "act x s = Some (r, s1)" "rt_safe e s1" using keeps [of s x] by auto
  then have "each_may may act xs s1" using Cons.prems(2) by simp
  from Cons.IH [OF s1(2) this] s1(1) show ?case by auto
qed simp

end

definition add_rule_act ::
  "rt_env \<Rightarrow> ip_type \<Rightarrow> string \<Rightarrow> bool \<Rightarrow> (rule_add \<Rightarrow> rt_rule) \<Rightarrow> (rule_add \<Rightarrow> nat) \<Rightarrow> rule_add \<Rightarrow> rt_db \<Rightarrow> ((int \<times> nat option) \<times> rt_db) option" where
  "add_rule_act e ip name user rule rid m s =
     do { (r, hdl, s1) \<leftarrow> add_rt_rule e ip name (rule m) (ad_rear m) (rid m) user s; Some ((status_of r, hdl), s1) }"

definition del_rule_act :: "rt_env \<Rightarrow> nat \<Rightarrow> rt_db \<Rightarrow> (int \<times> rt_db) option" where
  "del_rule_act e hdl s = do { (r, s1) \<leftarrow> del_rt_rule e hdl s; Some (status_of r, s1) }"

definition mdfy_rule_act :: "rt_env \<Rightarrow> (rt_rule \<Rightarrow> rt_rule) \<Rightarrow> nat \<times> rt_rule \<Rightarrow> rt_db \<Rightarrow> (int \<times> rt_db) option" where
  "mdfy_rule_act e rule m s = do { (r, s1) \<leftarrow> mdfy_rt_rule e (fst m) (rule (snd m)) s; Some (status_of r, s1) }"

lemma rt_batches:
  "add_rules e ip name user rule rid ms s = each_of (add_rule_act e ip name user rule rid) ms s"
  "del_rules e hdls s = each_of (del_rule_act e) hdls s"
  "mdfy_rules e upd rs s = each_of (mdfy_rule_act e upd) rs s"
proof -
  show "add_rules e ip name user rule rid ms s = each_of (add_rule_act e ip name user rule rid) ms s"
    by (induction ms arbitrary: s) (auto simp: add_rule_act_def split: Option.bind_split)
  show "del_rules e hdls s = each_of (del_rule_act e) hdls s"
    by (induction hdls arbitrary: s) (auto simp: del_rule_act_def split: Option.bind_split)
  show "mdfy_rules e upd rs s = each_of (mdfy_rule_act e upd) rs s"
    by (induction e upd rs s rule: mdfy_rules.induct) (auto simp: mdfy_rule_act_def split: Option.bind_split)
qed

definition may_add :: "rt_env \<Rightarrow> ip_type \<Rightarrow> string \<Rightarrow> (rule_add \<Rightarrow> rt_rule) \<Rightarrow> rule_add \<Rightarrow> rt_db \<Rightarrow> bool" where
  "may_add e ip name rule m s \<longleftrightarrow> good_cfg e \<and> may_add_rule e ip name (rule m) s"

interpretation add_op: rt_op e "may_add e ip name rule" "add_rule_act e ip name user rule rid" for e ip name rule user rid
proof
  fix m s assume s: "rt_safe e s" and m: "may_add e ip name rule m s"
  have cfg: "good_cfg e" "may_add_rule e ip name (rule m) s" using m by (simp_all add: may_add_def)
  have "\<exists>r h s'. add_rt_rule e ip name (rule m) (ad_rear m) (rid m) user s = Some (r, h, s') \<and> rt_inv e s'"
    by (rule add_rt_rule_ok [OF rt_safeD(1) [OF s] cfg, where at_rear = "ad_rear m" and rid = "rid m" and user = user]) blast+
  then obtain r h s' where r: "add_rt_rule e ip name (rule m) (ad_rear m) (rid m) user s = Some (r, h, s')" "rt_inv e s'" by blast
  then have "rt_safe e s'" using rt_safe_bufs [OF s] bufs_add_rule by blast
  then show "\<exists>r s'. add_rule_act e ip name user rule rid m s = Some (r, s') \<and> rt_safe e s'" using r(1) by (simp add: add_rule_act_def)
qed

interpretation del_op: rt_op e "\<lambda>hdl s. True" "del_rule_act e'" for e e'
proof
  fix hdl s assume s: "rt_safe e s"
  have "\<exists>r s'. del_rt_rule e' hdl s = Some (r, s') \<and> rt_inv e s'"
    by (rule del_rt_rule_ok [OF rt_safeD(1) [OF s], of e' hdl]) (use rt_safeD(1) [OF s] in blast)+
  then obtain r s' where r: "del_rt_rule e' hdl s = Some (r, s')" "rt_inv e s'" by blast
  then have "rt_safe e s'" using rt_safe_bufs [OF s] bufs_del_rule by blast
  then show "\<exists>r s'. del_rule_act e' hdl s = Some (r, s') \<and> rt_safe e s'" using r(1) by (simp add: del_rule_act_def)
qed

interpretation mdfy_op: rt_op e "\<lambda>m. may_mdfy_rule (fst m) (upd (snd m))" "mdfy_rule_act e upd" for e upd
proof
  fix m :: "nat \<times> rt_rule" and s assume s: "rt_safe e s" and m: "may_mdfy_rule (fst m) (upd (snd m)) s"
  have "\<exists>r s'. mdfy_rt_rule e (fst m) (upd (snd m)) s = Some (r, s') \<and> rt_inv e s'"
    by (rule mdfy_rt_rule_ok [OF rt_safeD(1) [OF s] m]) (use rt_safeD(1) [OF s] in blast)+
  then obtain r s' where r: "mdfy_rt_rule e (fst m) (upd (snd m)) s = Some (r, s')" "rt_inv e s'" by blast
  then have "rt_safe e s'" using rt_safe_bufs [OF s] bufs_mdfy_rule by blast
  then show "\<exists>r s'. mdfy_rule_act e upd m s = Some (r, s') \<and> rt_safe e s'" using r(1) by (simp add: mdfy_rule_act_def)
qed

text \<open>The rules that go one after another: each one after the one before it.\<close>

fun after_may :: "rt_env \<Rightarrow> ip_type \<Rightarrow> nat \<Rightarrow> (rule_add \<Rightarrow> rt_rule) \<Rightarrow> nat option \<Rightarrow> rule_add list \<Rightarrow> rt_db \<Rightarrow> bool" where
  "after_may e ip t rule after [] s = True"
| "after_may e ip t rule after (m # ms) s =
     (may_add_after ip t (rule m) after s \<and>
      (case add_rt_rule_after e t (rule m) after s of None \<Rightarrow> True | Some (r, hdl, after1, s1) \<Rightarrow> after_may e ip t rule after1 ms s1))"

lemma add_rules_after_ok:
  "rt_safe e s \<Longrightarrow> after_may e ip t rule after ms s \<Longrightarrow> \<exists>rs s'. add_rules_after e t rule after ms s = Some (rs, s') \<and> rt_safe e s'"
proof (induction ms arbitrary: after s)
  case (Cons m ms)
  have m: "may_add_after ip t (rule m) after s" using Cons.prems(2) by simp
  have "\<exists>r h a s'. add_rt_rule_after e t (rule m) after s = Some (r, h, a, s') \<and> rt_inv e s'"
    by (rule add_rt_rule_after_ok [OF rt_safeD(1) [OF Cons.prems(1)] m]) blast+
  then obtain r h a s1 where r: "add_rt_rule_after e t (rule m) after s = Some (r, h, a, s1)" "rt_inv e s1" by blast
  have "rt_safe e s1" using rt_safe_bufs [OF Cons.prems(1) r(2)] bufs_add_after [OF r(1)] by blast
  moreover have "after_may e ip t rule a ms s1" using Cons.prems(2) r(1) by simp
  ultimately obtain rs s2 where "add_rules_after e t rule a ms s1 = Some (rs, s2)" "rt_safe e s2" using Cons.IH by blast
  then show ?case using r(1) by simp
qed simp

lemma commit_safe: "rt_safe e s \<Longrightarrow> \<exists>r s'. commit_rt_v3 e ip s = Some (r, s') \<and> rt_safe e s'"
  using commit_rt_ok by (fastforce simp: rt_safe_def)

lemma finish_rt_safe: "rt_safe e s \<Longrightarrow> \<exists>r s'. finish_rt e ip commit s = Some (r, s') \<and> rt_safe e s'"
  using commit_safe [of e s ip] by (auto simp: finish_rt_def)

lemma get_rt_tbl_safe:
  assumes "rt_safe e s"
  shows "\<exists>r h s'. ipa3_get_rt_tbl e ip lookup s = Some (r, h, s') \<and> rt_safe e s'"
proof (cases "lookup = None \<or> ip = IPA_IP_MAX")
  case True
  then show ?thesis using assms by (auto simp: ipa3_get_rt_tbl_def split: option.splits)
next
  case False
  then obtain name where l: "lookup = Some name" "ip \<noteq> IPA_IP_MAX" by auto
  show ?thesis
  proof (rule find_rt_tbl_ok [OF rt_safeD(1) [OF assms], of ip "cut_name e name"])
    assume "ipa3_find_rt_tbl e ip (cut_name e name) s = Some None"
    then show ?thesis using assms l by (simp add: ipa3_get_rt_tbl_def)
  next
    fix t tb assume t: "ipa3_find_rt_tbl e ip (cut_name e name) s = Some (Some t)" "r_tbl s t = Some tb"
    show ?thesis
    proof (cases "rt_cookie tb \<noteq> IPA_RT_TBL_COOKIE \<or> rt_ref_cnt tb = -1")
      case True
      then show ?thesis using assms l t by (auto simp: ipa3_get_rt_tbl_def)
    next
      case ok: False
      define s1 where "s1 = s\<lparr>r_tbl := (r_tbl s)(t \<mapsto> tb\<lparr>rt_ref_cnt := rt_ref_cnt tb + 1\<rparr>)\<rparr>"
      have "rt_inv e s1" unfolding s1_def by (rule upd_ref_inv [OF rt_safeD(1) [OF assms] t(2)])
      then have "rt_safe e s1" using rt_safe_bufs [OF assms] bufs_tbl [OF t(2)] by (simp add: s1_def)
      then obtain r s2 where "commit_rt_v3 e ip s1 = Some (r, s2)" "rt_safe e s2" using commit_safe by blast
      then show ?thesis using l t ok by (auto simp: ipa3_get_rt_tbl_def upd_tbl_def s1_def)
    qed
  qed
qed

lemma put_rt_tbl_safe:
  assumes "rt_safe e s"
  shows "\<exists>r s'. ipa3_put_rt_tbl e hdl s = Some (r, s') \<and> rt_safe e s'"
proof (rule tbl_lookup [OF rt_safeD(1) [OF assms], of hdl])
  assume "tbl_by_handle hdl s = Some None"
  then show ?thesis using assms by (simp add: ipa3_put_rt_tbl_def)
next
  fix t ip tb assume t: "tbl_by_handle hdl s = Some (Some t)" "t \<in> set (tbl_list s ip)" "r_tbl s t = Some tb"
  note inv = rt_safeD(1) [OF assms]
  have tok: "tbl_ok e s ip t tb" using rt_invD(3) [OF inv t(2)] t(3) by auto
  show ?thesis
  proof (cases "rt_ref_cnt tb = 0 \<or> rt_set tb = IPA_IP_MAX")
    case True
    then show ?thesis using assms t by (auto simp: ipa3_put_rt_tbl_def)
  next
    case ok: False
    define tb1 where "tb1 = tb\<lparr>rt_ref_cnt := rt_ref_cnt tb - 1\<rparr>"
    define s1 where "s1 = s\<lparr>r_tbl := (r_tbl s)(t \<mapsto> tb1)\<rparr>"
    have i1: "rt_inv e s1" unfolding s1_def tb1_def by (rule upd_ref_inv [OF inv t(3)])
    then have safe1: "rt_safe e s1" using rt_safe_bufs [OF assms] bufs_tbl [OF t(3), of tb1] by (simp add: s1_def tb1_def)
    show ?thesis
    proof (cases "rt_ref_cnt tb - 1 = 0 \<and> rt_rule_cnt tb = 0")
      case False
      then show ?thesis using t ok safe1 by (auto simp: ipa3_put_rt_tbl_def upd_tbl_def s1_def tb1_def)
    next
      case True
      have t1: "t \<in> set (tbl_list s1 ip)" "r_tbl s1 t = Some tb1" "rt_rules tb1 = []"
        using t tok True by (simp_all add: s1_def tb1_def tbl_ok_def)
      note d = del_rt_tbl_ok [OF i1 t1]
      define s2 where "s2 = rt_id_remove (rt_id tb1) (drop_tbl ip t tb1 s1)"
      have d1: "del_rt_tbl t s1 = Some (OK, s2)" and "rt_inv e s2" using d by (simp_all add: s2_def)
      then have "rt_safe e s2" using rt_safe_bufs [OF safe1] bufs_del_rt_tbl [OF d1] by blast
      then obtain r s3 where "commit_rt_v3 e (rt_set tb) s2 = Some (r, s3)" "rt_safe e s3" using commit_safe by blast
      then show ?thesis using t ok True d1 by (auto simp: ipa3_put_rt_tbl_def upd_tbl_def s1_def tb1_def)
    qed
  qed
qed

section \<open>Reset\<close>

lemma bufs_unlink: "r_tbl s (re_tbl x) = Some tb \<Longrightarrow> bufs_kept s ((unlink_rule a x tb d s)\<lparr>rule_ids := k\<rparr>)"
  using bufs_tbl [of s "re_tbl x" tb] by (simp add: bufs_kept_def unlink_rule_def)

text \<open>What the deletion of one rule by the reset does.\<close>

definition reset_rule :: "rt_env \<Rightarrow> nat \<Rightarrow> nat \<Rightarrow> rt_entry \<Rightarrow> rt_tbl \<Rightarrow> rt_db \<Rightarrow> rt_db option" where
  "reset_rule e t a x tb s = do {
     (x1, s1) \<leftarrow> forget_gone a x s;
     s2 \<leftarrow> upd_tbl t (\<lambda>tb. tb\<lparr>rt_rules := remove1 a (rt_rules tb), rt_rule_cnt := rt_rule_cnt tb - 1\<rparr>) s1;
     s3 \<leftarrow> release_refs e x1 s2;
     s4 \<leftarrow> (if re_rule_id_valid x1 then Some s3 else rid_remove (re_rule_id x1) tb s3);
     Some (rt_id_remove (re_id x1) (s4\<lparr>r_rule := (r_rule s4)(a := None)\<rparr>)) }"

lemma reset_rules_Cons:
  "r_rule s a = Some x \<Longrightarrow> r_tbl s t = Some tb \<Longrightarrow> reset_rules e ip user_only t (a # as) tu s =
     (if ipa3_id_find (re_id x) (db_idr (hdb s)) = None then Some (Inl EFAULT, s)
      else if rt_idx tb = x_apps_lo e ip \<and> rt_rule_cnt tb = 1 \<or> user_only \<and> \<not> re_ipacm x
      then reset_rules e ip user_only t as (tu \<or> re_ipacm x) s
      else do { s' \<leftarrow> reset_rule e t a x tb s; reset_rules e ip user_only t as (tu \<or> re_ipacm x) s' })"
  by (auto simp: reset_rule_def Let_def split: Option.bind_split)

lemma reset_rule_ok:
  assumes safe: "rt_safe e s" and x: "r_rule s a = Some x" "re_tbl x = t" and t: "t \<in> set (tbl_list s ip)" "r_tbl s t = Some tb"
  shows "\<exists>s'. reset_rule e t a x tb s = Some s' \<and> rt_safe e s' \<and> tbl_list s' = tbl_list s \<and> r_rule s' = (r_rule s)(a := None) \<and>
    r_tbl s' = (r_tbl s)(t \<mapsto> tb\<lparr>rt_rules := remove1 a (rt_rules tb), rt_rule_cnt := rt_rule_cnt tb - 1\<rparr>)"
proof -
  note inv = rt_safeD(1) [OF safe]
  have tok: "tbl_ok e s ip t tb" using rt_invD(3) [OF inv t(1)] t(2) by auto
  have set: "rt_set tb = ip" "rt_rule_ids tb" using tok by (simp_all add: tbl_ok_def)
  have tx: "target_ok (hdb s) x" using rt_invD(2) [OF inv x(1)] by (simp add: rule_ok_def)
  show ?thesis
  proof (rule release_rule_ok [OF inv x(1), of e])
    fix d assume d: "release_refs e x s = Some (s\<lparr>hdb := d\<rparr>)" "store_inv (\<lambda>p. rule_refs s p - opt_ref (target_of x) p) d"
      "kept (\<lambda>p. rule_refs s p - opt_ref (target_of x) p) (hdb s) d"
    define ids where "ids = (if re_rule_id_valid x then rule_ids s ip else remove1 (re_rule_id x) (rule_ids s ip))"
    define S where "S = (unlink_rule a x tb d s)\<lparr>rule_ids := (rule_ids s)(ip := ids)\<rparr>"
    have t': "re_tbl x \<in> set (tbl_list s ip)" "r_tbl s (re_tbl x) = Some tb" "tbl_ok e s ip (re_tbl x) tb" using t tok x(2) by simp_all
    note u = unlink_ok [OF inv x(1) t' d(2,3) ids_def S_def]
    define s2 where "s2 = s\<lparr>r_tbl := (r_tbl s)(t \<mapsto> tb\<lparr>rt_rules := remove1 a (rt_rules tb), rt_rule_cnt := rt_rule_cnt tb - 1\<rparr>)\<rparr>"
    have "with_opt (release_target (x_hdr e)) (target_of x) (hdb s) = Some d"
      using d(1) [unfolded release_refs_eq [OF tx]] by (auto dest: arg_cong [of _ _ hdb])
    then have "release_refs e x s2 = Some (s2\<lparr>hdb := d\<rparr>)" using release_refs_eq [of s2 x e] tx by (simp add: s2_def)
    then have "reset_rule e t a x tb s = Some S"
      using forget_gone_ok [OF inv x(1)] t(2) set x(2)
      by (auto simp: reset_rule_def upd_tbl_def rid_remove_def rt_id_remove_def upd_hdb_def s2_def S_def ids_def unlink_rule_def)
    moreover have "rt_safe e S" using rt_safe_bufs [OF safe u(1)] bufs_unlink [OF t'(2)] by (simp add: S_def)
    ultimately show ?thesis using u(2,4,5) x(2) by simp
  qed
qed

lemma reset_rules_ok:
  assumes "rt_safe e s" "t \<in> set (tbl_list s ip)" "r_tbl s t = Some tb" "set as \<subseteq> set (rt_rules tb)" "distinct as"
  shows "\<exists>s' rs n. reset_rules e ip u t as tu s = Some (Inr (tu \<or> (\<exists>a \<in> set as. \<exists>x. r_rule s a = Some x \<and> re_ipacm x)), s') \<and> rt_safe e s' \<and>
    tbl_list s' = tbl_list s \<and> (\<forall>b. b \<notin> set as \<longrightarrow> r_rule s' b = r_rule s b) \<and> r_tbl s' = (r_tbl s)(t \<mapsto> tb\<lparr>rt_rules := rs, rt_rule_cnt := n\<rparr>) \<and>
    set rs \<subseteq> set (rt_rules tb) \<and>
    (rt_idx tb \<noteq> x_apps_lo e ip \<longrightarrow>
       set rs \<inter> {a \<in> set as. u \<longrightarrow> (\<exists>x. r_rule s a = Some x \<and> re_ipacm x)} = {}) \<and>
    (\<forall>b x. u \<longrightarrow> b \<in> set (rt_rules tb) \<longrightarrow> r_rule s b = Some x \<longrightarrow> \<not> re_ipacm x \<longrightarrow> b \<in> set rs \<and> r_rule s' b = Some x)"
  using assms
proof (induction as arbitrary: s tb tu)
  case Nil
  have "r_tbl s = (r_tbl s)(t \<mapsto> tb\<lparr>rt_rules := rt_rules tb, rt_rule_cnt := rt_rule_cnt tb\<rparr>)" using Nil.prems(3) by auto
  then show ?case using Nil.prems(1) by (intro exI [of _ s] exI [of _ "rt_rules tb"] exI [of _ "rt_rule_cnt tb"]) simp
next
  case (Cons a as)
  note inv = rt_safeD(1) [OF Cons.prems(1)]
  obtain x where x: "r_rule s a = Some x" "re_tbl x = t" using rules_bounds [OF inv Cons.prems(2,3), of a] Cons.prems(4) by auto
  have nf: "(ipa3_id_find (re_id x) (db_idr (hdb s)) = None) = False" using rt_invD(2) [OF inv x(1)] by (simp add: rule_ok_def finds_def)
  have eq: "reset_rules e ip u t (a # as) tu s =
     (if rt_idx tb = x_apps_lo e ip \<and> rt_rule_cnt tb = 1 \<or> u \<and> \<not> re_ipacm x then reset_rules e ip u t as (tu \<or> re_ipacm x) s
      else do { s' \<leftarrow> reset_rule e t a x tb s; reset_rules e ip u t as (tu \<or> re_ipacm x) s' })"
    using reset_rules_Cons [OF x(1) Cons.prems(3)] by (simp only: nf if_False)
  show ?case
  proof (cases "rt_idx tb = x_apps_lo e ip \<and> rt_rule_cnt tb = 1 \<or> u \<and> \<not> re_ipacm x")
    case True
    have as: "set as \<subseteq> set (rt_rules tb)" "distinct as" using Cons.prems(4,5) by auto
    from Cons.IH [OF Cons.prems(1-3) as, of "tu \<or> re_ipacm x"] show ?thesis
      unfolding eq if_P [OF True] using True x(1) by (elim exE conjE) (intro exI conjI; (assumption | auto))
  next
    case False
    obtain s1 where s1: "reset_rule e t a x tb s = Some s1" "rt_safe e s1" "tbl_list s1 = tbl_list s" "r_rule s1 = (r_rule s)(a := None)"
      "r_tbl s1 = (r_tbl s)(t \<mapsto> tb\<lparr>rt_rules := remove1 a (rt_rules tb), rt_rule_cnt := rt_rule_cnt tb - 1\<rparr>)"
      using reset_rule_ok [OF Cons.prems(1) x Cons.prems(2,3)] by blast
    have dist: "distinct (rt_rules tb)" using rt_invD(3) [OF inv Cons.prems(2)] Cons.prems(3) by (auto simp: tbl_ok_def)
    define tb1 where "tb1 = tb\<lparr>rt_rules := remove1 a (rt_rules tb), rt_rule_cnt := rt_rule_cnt tb - 1\<rparr>"
    have tb1: "rt_idx tb1 = rt_idx tb" "rt_rules tb1 = remove1 a (rt_rules tb)"
      "\<And>rs n. tb1\<lparr>rt_rules := rs, rt_rule_cnt := n\<rparr> = tb\<lparr>rt_rules := rs, rt_rule_cnt := n\<rparr>" by (simp_all add: tb1_def)
    have l1: "t \<in> set (tbl_list s1 ip)" "r_tbl s1 t = Some tb1" "set as \<subseteq> set (rt_rules tb1)" "distinct as"
      using Cons.prems(2,4,5) s1 dist by (auto simp: tb1_def)
    have same: "(\<exists>y. r_rule s1 b = Some y \<and> re_ipacm y) \<longleftrightarrow> (\<exists>y. r_rule s b = Some y \<and> re_ipacm y)" if "b \<in> set as" for b
      using that Cons.prems(5) s1(4) by auto
    obtain s' rs n where s': "reset_rules e ip u t as (tu \<or> re_ipacm x) s1 =
        Some (Inr ((tu \<or> re_ipacm x) \<or> (\<exists>b \<in> set as. \<exists>x. r_rule s1 b = Some x \<and> re_ipacm x)), s')" "rt_safe e s'"
      "tbl_list s' = tbl_list s1" "\<forall>b. b \<notin> set as \<longrightarrow> r_rule s' b = r_rule s1 b"
      "r_tbl s' = (r_tbl s1)(t \<mapsto> tb\<lparr>rt_rules := rs, rt_rule_cnt := n\<rparr>)"
      "set rs \<subseteq> set (remove1 a (rt_rules tb))"
      "rt_idx tb \<noteq> x_apps_lo e ip \<longrightarrow> set rs \<inter> {b \<in> set as. u \<longrightarrow> (\<exists>x. r_rule s1 b = Some x \<and> re_ipacm x)} = {}"
      "\<forall>b x. u \<longrightarrow> b \<in> set (remove1 a (rt_rules tb)) \<longrightarrow> r_rule s1 b = Some x \<longrightarrow> \<not> re_ipacm x \<longrightarrow> b \<in> set rs \<and> r_rule s' b = Some x"
      using Cons.IH [OF s1(2) l1, of "tu \<or> re_ipacm x"] unfolding tb1 by (elim exE conjE) (rule that)
    have "reset_rules e ip u t (a # as) tu s =
        Some (Inr (tu \<or> (\<exists>b \<in> set (a # as). \<exists>x. r_rule s b = Some x \<and> re_ipacm x)), s')"
      unfolding eq if_not_P [OF False] using s1(1) s'(1) x(1) same by auto
    moreover have "r_tbl s' = (r_tbl s)(t \<mapsto> tb\<lparr>rt_rules := rs, rt_rule_cnt := n\<rparr>)" using s'(5) s1(5) by simp
    moreover have "\<forall>b. b \<notin> set (a # as) \<longrightarrow> r_rule s' b = r_rule s b" using s'(4) s1(4) by simp
    moreover have "set rs \<subseteq> set (rt_rules tb)" "a \<notin> set rs" using s'(6) dist by auto
    moreover from this(2) have "rt_idx tb \<noteq> x_apps_lo e ip \<longrightarrow> set rs \<inter> {b \<in> set (a # as). u \<longrightarrow> (\<exists>x. r_rule s b = Some x \<and> re_ipacm x)} = {}"
      using s'(7) same by auto
    moreover have "\<forall>b y. u \<longrightarrow> b \<in> set (rt_rules tb) \<longrightarrow> r_rule s b = Some y \<longrightarrow> \<not> re_ipacm y \<longrightarrow> b \<in> set rs \<and> r_rule s' b = Some y"
      using s'(8) s1(4) False x(1) dist by auto
    ultimately show ?thesis using s'(2,3) s1(3) by (intro exI [of _ s'] exI [of _ rs] exI [of _ n]) simp
  qed
qed

text \<open>The rules of a table are all of the user or none is.\<close>

definition one_owner :: "rt_db \<Rightarrow> nat \<Rightarrow> bool" where
  "one_owner s t \<longleftrightarrow> (\<forall>tb. r_tbl s t = Some tb \<longrightarrow> (\<forall>a \<in> set (rt_rules tb). \<forall>b \<in> set (rt_rules tb). \<forall>x y.
     r_rule s a = Some x \<longrightarrow> r_rule s b = Some y \<longrightarrow> re_ipacm x = re_ipacm y))"

definition may_reset :: "ip_type \<Rightarrow> bool \<Rightarrow> rt_db \<Rightarrow> bool" where
  "may_reset ip user_only s \<longleftrightarrow> (user_only \<longrightarrow> (\<forall>t \<in> set (tbl_list s ip). one_owner s t))"

lemma one_owner_cong:
  assumes "one_owner s t" "r_tbl s' t = r_tbl s t" "\<And>tb a. r_tbl s t = Some tb \<Longrightarrow> a \<in> set (rt_rules tb) \<Longrightarrow> r_rule s' a = r_rule s a"
  shows "one_owner s' t"
proof -
  have "re_ipacm x = re_ipacm y"
    if "r_tbl s' t = Some tb" "a \<in> set (rt_rules tb)" "b \<in> set (rt_rules tb)" "r_rule s' a = Some x" "r_rule s' b = Some y" for tb a b x y
    using assms(1) assms(3) [of tb a] assms(3) [of tb b] that assms(2) unfolding one_owner_def by auto
  then show ?thesis unfolding one_owner_def by blast
qed

lemma drop_tbl_fields:
  fixes i :: nat
  assumes "rt_inv e s" "t \<in> set (tbl_list s ip)" "rt_in_sys tb IPA_RULE_HASHABLE"
  defines "S \<equiv> rt_id_remove i (drop_tbl ip t tb s)"
  shows "r_rule S = r_rule s" "r_tbl S = (r_tbl s)(t \<mapsto> tb\<lparr>rt_rule_ids := False\<rparr>)" "tbl_list S = (tbl_list s)(ip := remove1 t (tbl_list s ip))"
  using assms(3) tbl_in_one_list(1) [OF assms(1,2)]
  by (auto simp: S_def rt_id_remove_def upd_hdb_def drop_tbl_def clear_idx_def unlink_tbl_def Let_def remove1_idem)

lemma reset_tbls_ok:
  assumes "rt_safe e s" "set ts \<subseteq> set (tbl_list s ip)" "distinct ts" "u \<longrightarrow> (\<forall>t \<in> set ts. one_owner s t)"
  shows "\<exists>s'. reset_tbls e ip u ts s = Some (OK, s') \<and> rt_safe e s'"
  using assms
proof (induction ts arbitrary: s)
  case (Cons t ts)
  note inv = rt_safeD(1) [OF Cons.prems(1)]
  have t: "t \<in> set (tbl_list s ip)" using Cons.prems(2) by simp
  obtain tb where tb: "r_tbl s t = Some tb" "tbl_ok e s ip t tb" using rt_invD(3) [OF inv t] by blast
  have dist: "distinct (rt_rules tb)" using tb(2) by (simp add: tbl_ok_def)
  define tu where "tu \<longleftrightarrow> (\<exists>a \<in> set (rt_rules tb). \<exists>x. r_rule s a = Some x \<and> re_ipacm x)"
  obtain s1 rs n where s1: "reset_rules e ip u t (rt_rules tb) False s = Some (Inr tu, s1)" "rt_safe e s1" "tbl_list s1 = tbl_list s"
    "\<forall>b. b \<notin> set (rt_rules tb) \<longrightarrow> r_rule s1 b = r_rule s b" "r_tbl s1 = (r_tbl s)(t \<mapsto> tb\<lparr>rt_rules := rs, rt_rule_cnt := n\<rparr>)"
    "set rs \<subseteq> set (rt_rules tb)"
    "rt_idx tb \<noteq> x_apps_lo e ip \<longrightarrow> set rs \<inter> {a \<in> set (rt_rules tb). u \<longrightarrow> (\<exists>x. r_rule s a = Some x \<and> re_ipacm x)} = {}"
    "\<forall>b x. u \<longrightarrow> b \<in> set (rt_rules tb) \<longrightarrow> r_rule s b = Some x \<longrightarrow> \<not> re_ipacm x \<longrightarrow> b \<in> set rs \<and> r_rule s1 b = Some x"
    using reset_rules_ok [OF Cons.prems(1) t tb(1) subset_refl dist, of u False, unfolded simp_thms, folded tu_def] by (elim exE conjE) (rule that)
  define tb1 where "tb1 = tb\<lparr>rt_rules := rs, rt_rule_cnt := n\<rparr>"
  have t1: "t \<in> set (tbl_list s1 ip)" "r_tbl s1 t = Some tb1" using t s1 by (simp_all add: tb1_def)
  have tok1: "tbl_ok e s1 ip t tb1" using rt_invD(3) [OF rt_safeD(1) [OF s1(2)] t1(1)] t1(2) by auto
  have id: "ipa3_id_find (rt_id tb1) (db_idr (hdb s1)) \<noteq> None" using tok1 by (simp add: tbl_ok_def finds_def)
  have own1: "u \<longrightarrow> (\<forall>v \<in> set ts. one_owner s1 v)"
  proof (intro impI ballI)
    fix v assume v: "u" "v \<in> set ts"
    then have ne: "v \<noteq> t" using Cons.prems(3) by auto
    have vl: "v \<in> set (tbl_list s ip)" using v(2) Cons.prems(2) by auto
    show "one_owner s1 v"
    proof (rule one_owner_cong)
      show "one_owner s v" using Cons.prems(4) v by simp
      fix vb a assume "r_tbl s v = Some vb" "a \<in> set (rt_rules vb)"
      then obtain x where "r_rule s a = Some x" "re_tbl x = v" using rules_bounds [OF inv vl] by blast
      then have "a \<notin> set (rt_rules tb)" using rules_bounds [OF inv t tb(1), of a] ne by auto
      then show "r_rule s1 a = r_rule s a" using s1(4) by simp
    qed (use s1(5) ne in simp)
  qed
  show ?case
  proof (cases "rt_idx tb1 \<noteq> x_apps_lo e ip \<and> (\<not> u \<or> tu)")
    case False
    have "reset_tbls e ip u (t # ts) s = reset_tbls e ip u ts s1" using tb(1) s1(1) t1(2) id False by auto
    moreover have "set ts \<subseteq> set (tbl_list s1 ip)" "distinct ts" using Cons.prems(2,3) s1(3) by simp_all
    ultimately show ?thesis using Cons.IH [OF s1(2)] own1 by simp
  next
    case True
    have "set rs = {}"
    proof (cases u)
      case False
      then have "set rs \<inter> set (rt_rules tb) = {}" using s1(7) True by (simp add: tb1_def)
      then show ?thesis using Int_absorb2 [OF s1(6)] by simp
    next
      case user: True
      have "\<exists>y. r_rule s b = Some y \<and> re_ipacm y" if b: "b \<in> set (rt_rules tb)" for b
      proof -
        obtain a x where a: "a \<in> set (rt_rules tb)" "r_rule s a = Some x" "re_ipacm x" using True user by (auto simp: tu_def)
        obtain y where y: "r_rule s b = Some y" using rules_bounds [OF inv t tb(1) b] by blast
        have "one_owner s t" using Cons.prems(4) user by simp
        then have "re_ipacm y = re_ipacm x" using tb(1) a b y unfolding one_owner_def by blast
        then show ?thesis using a(3) y by simp
      qed
      then have "{a \<in> set (rt_rules tb). u \<longrightarrow> (\<exists>x. r_rule s a = Some x \<and> re_ipacm x)} = set (rt_rules tb)" by blast
      then have "set rs \<inter> set (rt_rules tb) = {}" using s1(7) True by (simp add: tb1_def)
      then show ?thesis using Int_absorb2 [OF s1(6)] by simp
    qed
    then have "rt_rules tb1 = []" by (simp add: tb1_def)
    note i2 = drop_tbl_inv [OF rt_safeD(1) [OF s1(2)] t1 this]
    define s2 where "s2 = rt_id_remove (rt_id tb1) (drop_tbl ip t tb1 s1)"
    have safe2: "rt_safe e s2" unfolding s2_def
      by (rule rt_safe_bufs [OF s1(2) i2 bufs_trans [OF bufs_drop_tbl [OF t1(2)] bufs_fields(6)]])
    have "rt_in_sys tb1 IPA_RULE_HASHABLE" using tok1 by (simp add: tbl_ok_def)
    note f = drop_tbl_fields [OF rt_safeD(1) [OF s1(2)] t1(1) this, of "rt_id tb1", folded s2_def]
    have run: "reset_tbls e ip u (t # ts) s = reset_tbls e ip u ts s2" using tb(1) s1(1) t1(2) id True by (auto simp: s2_def)
    have sub2: "v \<in> set (tbl_list s2 ip)" if v: "v \<in> set ts" for v
    proof -
      have "v \<noteq> t" "v \<in> set (tbl_list s ip)" using v Cons.prems(2,3) by auto
      then show ?thesis using in_set_remove1 [of v t] s1(3) f(3) by simp
    qed
    have "set ts \<subseteq> set (tbl_list s2 ip)" "distinct ts" using sub2 Cons.prems(3) by auto
    moreover have "u \<longrightarrow> (\<forall>v \<in> set ts. one_owner s2 v)"
    proof (intro impI ballI)
      fix v assume v: "u" "v \<in> set ts"
      then have o: "one_owner s1 v" and ne: "v \<noteq> t" using own1 Cons.prems(3) by auto
      show "one_owner s2 v" by (rule one_owner_cong [OF o]) (simp_all add: f ne)
    qed
    ultimately show ?thesis unfolding run by (rule Cons.IH [OF safe2])
  qed
qed simp

text \<open>What the driver relies on of the reset of the filtering tables.\<close>

definition keeps_tbls :: "rt_env \<Rightarrow> (ip_type \<Rightarrow> bool \<Rightarrow> rt_db \<Rightarrow> rt_db option) \<Rightarrow> bool" where
  "keeps_tbls e flt \<longleftrightarrow> (\<forall>ip u s. rt_safe e s \<longrightarrow> (\<exists>s'. flt ip u s = Some s' \<and> rt_safe e s' \<and> tbl_list s' = tbl_list s \<and> r_rule s' = r_rule s \<and>
     (\<forall>t. map_option rt_rules (r_tbl s' t) = map_option rt_rules (r_tbl s t))))"

lemma reset_rt_safe:
  assumes safe: "rt_safe e s" and may: "may_reset ip u s" and flt: "keeps_tbls e flt"
  shows "\<exists>r s'. ipa3_reset_rt e flt ip u s = Some (r, s') \<and> rt_safe e s'"
proof (cases "ip = IPA_IP_MAX")
  case True
  then show ?thesis using safe by (simp add: ipa3_reset_rt_def)
next
  case False
  obtain s0 where s0: "flt ip u s = Some s0" "rt_safe e s0" "tbl_list s0 = tbl_list s" "r_rule s0 = r_rule s"
    "\<forall>t. map_option rt_rules (r_tbl s0 t) = map_option rt_rules (r_tbl s t)" using flt safe unfolding keeps_tbls_def by blast
  have one: "one_owner s0 t" if o: "one_owner s t" for t
    unfolding one_owner_def
  proof (intro allI impI ballI)
    fix tb' a b x y
    assume r: "r_tbl s0 t = Some tb'" "a \<in> set (rt_rules tb')" "b \<in> set (rt_rules tb')" "r_rule s0 a = Some x" "r_rule s0 b = Some y"
    have "map_option rt_rules (r_tbl s t) = Some (rt_rules tb')" using s0(5) r(1) by (metis option.simps(9))
    then obtain tb where tb: "r_tbl s t = Some tb" "rt_rules tb = rt_rules tb'" by blast
    show "re_ipacm x = re_ipacm y"
      using o [unfolded one_owner_def, rule_format, OF tb(1), of a b x y] r tb(2) s0(4) by simp
  qed
  have "distinct (tbl_list s0 ip)" using rt_invD(6) [OF rt_safeD(1) [OF s0(2)]] by (simp add: tbls_ok_def)
  moreover have "u \<longrightarrow> (\<forall>t \<in> set (tbl_list s0 ip). one_owner s0 t)" using may one s0(3) by (auto simp: may_reset_def)
  ultimately obtain s1 where s1: "reset_tbls e ip u (tbl_list s0 ip) s0 = Some (OK, s1)" "rt_safe e s1"
    using reset_tbls_ok [OF s0(2) subset_refl] by blast
  obtain r4 s2 where s2: "commit_rt_v3 e IPA_IP_v4 s1 = Some (r4, s2)" "rt_safe e s2" using commit_safe [OF s1(2)] by blast
  obtain r6 s3 where s3: "commit_rt_v3 e IPA_IP_v6 s2 = Some (r6, s3)" "rt_safe e s3" using commit_safe [OF s2(2)] by blast
  show ?thesis using s2(2) s3(2) by (simp add: ipa3_reset_rt_def False s0(1) s1(1) s2(1) s3(1))
qed

section \<open>Calls\<close>

text \<open>
  The calls that reach this state: those of the routing component and, on the header tables it refers
  to, those of the header component. The filtering component is a parameter of the commit and the
  reset. The first member of some says whether the call is of the second version of the interface.
\<close>

datatype rt_call =
    AddRt bool ip_type string "rule_add list option" bool bool
  | AddRtExt bool ip_type string "rule_add list option" bool
  | AddRtAfter bool ip_type string nat "rule_add list option" bool
  | DelRt ip_type "nat list option" bool
  | MdfyRt bool ip_type "(nat \<times> rt_rule) list option" bool
  | CommitRt "ip_type \<Rightarrow> rt_db \<Rightarrow> rc \<times> rt_db" ip_type
  | ResetRt "ip_type \<Rightarrow> bool \<Rightarrow> rt_db \<Rightarrow> rt_db option" ip_type bool
  | GetRt ip_type "string option"
  | PutRt nat
  | HdrCall hdr_call

definition mid :: "(rc \<times> 'r \<times> rt_db) option \<Rightarrow> (rc \<times> rt_db) option" where
  "mid p = map_option (\<lambda>(r, rs, s). (r, s)) p"

fun rt_run :: "rt_env \<Rightarrow> rt_call \<Rightarrow> rt_db \<Rightarrow> (rc \<times> rt_db) option" where
  "rt_run e (AddRt v2 ip name rules commit user) s =
     mid (if v2 then ipa3_add_rt_rule_usr_v2 e ip name rules commit user s else ipa3_add_rt_rule_usr e ip name rules commit user s)"
| "rt_run e (AddRtExt v2 ip name rules commit) s =
     mid (if v2 then ipa3_add_rt_rule_ext_v2 e ip name rules commit s else ipa3_add_rt_rule_ext e ip name rules commit s)"
| "rt_run e (AddRtAfter v2 ip name hdl rules commit) s =
     mid (if v2 then ipa3_add_rt_rule_after_v2 e ip name hdl rules commit s else ipa3_add_rt_rule_after e ip name hdl rules commit s)"
| "rt_run e (DelRt ip hdls commit) s = mid (ipa3_del_rt_rule e ip hdls commit s)"
| "rt_run e (MdfyRt v2 ip rules commit) s =
     mid (if v2 then ipa3_mdfy_rt_rule_v2 e ip rules commit s else ipa3_mdfy_rt_rule e ip rules commit s)"
| "rt_run e (CommitRt flt ip) s = ipa3_commit_rt e flt ip s"
| "rt_run e (ResetRt flt ip user_only) s = ipa3_reset_rt e flt ip user_only s"
| "rt_run e (GetRt ip lookup) s = mid (ipa3_get_rt_tbl e ip lookup s)"
| "rt_run e (PutRt hdl) s = ipa3_put_rt_tbl e hdl s"
| "rt_run e (HdrCall c) s = do { (r, d) \<leftarrow> hdr_run (x_hdr e) c (hdb s); Some (r, s\<lparr>hdb := d\<rparr>) }"

definition ver_rule :: "rt_env \<Rightarrow> bool \<Rightarrow> rt_rule \<Rightarrow> rt_rule" where
  "ver_rule e v2 r = (if v2 then norm_rule e r else x_v1 e (norm_rule e r))"

abbreviation members :: "'a list option \<Rightarrow> 'a list" where
  "members ms \<equiv> (case ms of None \<Rightarrow> [] | Some l \<Rightarrow> l)"

text \<open>What the callers have to see to; the deletion, the references on tables and the lookups need nothing.\<close>

fun rt_may :: "rt_env \<Rightarrow> rt_call \<Rightarrow> rt_db \<Rightarrow> bool" where
  "rt_may e (AddRt v2 ip name rules commit user) s =
     each_may (may_add e ip (cut_name e name) (\<lambda>m. ver_rule e v2 (ad_rule m)))
       (add_rule_act e ip (cut_name e name) user (\<lambda>m. ver_rule e v2 (ad_rule m)) (\<lambda>m. 0)) (members rules) s"
| "rt_may e (AddRtExt v2 ip name rules commit) s =
     each_may (may_add e ip name (\<lambda>m. ver_rule e v2 (ad_rule m)))
       (add_rule_act e ip name True (\<lambda>m. ver_rule e v2 (ad_rule m)) ad_rule_id) (members rules) s"
| "rt_may e (AddRtAfter v2 ip name hdl rules commit) s =
     (\<forall>t a. ipa3_find_rt_tbl e ip (cut_name e name) s = Some (Some t) \<longrightarrow> rule_by_handle hdl s = Some (Some a) \<longrightarrow>
        map_option re_tbl (r_rule s a) = Some t \<longrightarrow> after_may e ip t (\<lambda>m. ver_rule e v2 (ad_rule m)) (Some a) (members rules) s)"
| "rt_may e (DelRt ip hdls commit) s = True"
| "rt_may e (MdfyRt v2 ip rules commit) s =
     each_may (\<lambda>m. may_mdfy_rule (fst m) (ver_rule e v2 (snd m))) (mdfy_rule_act e (ver_rule e v2)) (members rules) s"
| "rt_may e (CommitRt flt ip) s = rt_safe e (snd (flt ip s))"
| "rt_may e (ResetRt flt ip user_only) s = (may_reset ip user_only s \<and> keeps_tbls e flt)"
| "rt_may e (GetRt ip lookup) s = True"
| "rt_may e (PutRt hdl) s = True"
| "rt_may e (HdrCall c) s = hdr_spare (rule_refs s) (x_hdr e) c (hdb s)"

lemma rt_batch_safe:
  assumes "\<exists>rs s'. loop = Some (rs, s') \<and> rt_safe e s'"
  shows "\<exists>r s'. mid (do { (rs, s1) \<leftarrow> loop; (r, s2) \<leftarrow> finish_rt e ip commit s1; Some (r, rs, s2) }) = Some (r, s') \<and> rt_safe e s'"
proof -
  obtain rs s1 where s1: "loop = Some (rs, s1)" "rt_safe e s1" using assms by blast
  obtain r s2 where "finish_rt e ip commit s1 = Some (r, s2)" "rt_safe e s2" using finish_rt_safe [OF s1(2)] by blast
  then show ?thesis using s1(1) by (simp add: mid_def)
qed

lemma add_call_safe:
  assumes safe: "rt_safe e s" and may: "each_may (may_add e ip name rule) (add_rule_act e ip name user rule rid) (members rules) s"
  shows "\<exists>r s'. mid (add_call e ip name user rule rid rules commit s) = Some (r, s') \<and> rt_safe e s'"
proof (cases rules)
  case None
  then show ?thesis using safe by (simp add: add_call_def mid_def)
next
  case (Some ms)
  have "\<exists>rs s'. add_rules e ip name user rule rid ms s = Some (rs, s') \<and> rt_safe e s'"
    using add_op.each_keeps [OF safe] may Some by (simp add: rt_batches)
  note rt_batch_safe [OF this, of ip commit]
  then show ?thesis using safe Some by (auto simp: add_call_def mid_def)
qed

lemma add_after_safe:
  assumes safe: "rt_safe e s"
    and may: "\<And>t a. ipa3_find_rt_tbl e ip (cut_name e name) s = Some (Some t) \<Longrightarrow> rule_by_handle hdl s = Some (Some a) \<Longrightarrow>
        map_option re_tbl (r_rule s a) = Some t \<Longrightarrow> after_may e ip t rule (Some a) (members rules) s"
  shows "\<exists>r s'. mid (add_after_call e ip name hdl rule rules commit s) = Some (r, s') \<and> rt_safe e s'"
proof (cases "rules = None \<or> rules = Some [] \<or> ip = IPA_IP_MAX")
  case True
  then show ?thesis using safe by (auto simp: add_after_call_def mid_def split: option.splits)
next
  case False
  then obtain ms where ms: "rules = Some ms" "ms \<noteq> []" "ip \<noteq> IPA_IP_MAX" by auto
  note inv = rt_safeD(1) [OF safe]
  show ?thesis
  proof (rule find_rt_tbl_ok [OF inv, of ip "cut_name e name"])
    assume "ipa3_find_rt_tbl e ip (cut_name e name) s = Some None"
    then show ?thesis using safe ms by (simp add: add_after_call_def mid_def)
  next
    fix t tb assume t: "ipa3_find_rt_tbl e ip (cut_name e name) s = Some (Some t)" "r_tbl s t = Some tb"
    show ?thesis
    proof (cases "rt_cookie tb \<noteq> IPA_RT_TBL_COOKIE \<or> rt_rule_cnt tb = 0")
      case True
      then show ?thesis using safe ms t by (auto simp: add_after_call_def mid_def)
    next
      case tok: False
      show ?thesis
      proof (rule rule_lookup [OF inv, of hdl])
        assume "rule_by_handle hdl s = Some None"
        then show ?thesis using safe ms t tok by (simp add: add_after_call_def mid_def)
      next
        fix a x assume a: "rule_by_handle hdl s = Some (Some a)" "r_rule s a = Some x"
        show ?thesis
        proof (cases "re_tbl x \<noteq> t \<or> rt_name tb = x_dflt_name e \<and> rt_rule_cnt tb > 0")
          case True
          then show ?thesis using safe ms t tok a by (auto simp: add_after_call_def mid_def)
        next
          case ok: False
          have "after_may e ip t rule (Some a) ms s" using may [OF t(1) a(1)] a(2) ok ms by simp
          from rt_batch_safe [OF add_rules_after_ok [OF safe this], of ip commit] show ?thesis
            using ms t tok a ok by (auto simp: add_after_call_def)
        qed
      qed
    qed
  qed
qed

lemma rt_run_safe:
  assumes safe: "rt_safe e s" and may: "rt_may e c s"
  shows "\<exists>r s'. rt_run e c s = Some (r, s') \<and> rt_safe e s'"
proof (cases c)
  case (AddRt v2 ip name rules commit user)
  then show ?thesis using add_call_safe [OF safe, of ip "cut_name e name" "\<lambda>m. ver_rule e v2 (ad_rule m)" user "\<lambda>m. 0" rules commit] may
    by (cases v2) (simp_all add: ipa3_add_rt_rule_usr_v2_def ipa3_add_rt_rule_usr_def ver_rule_def)
next
  case (AddRtExt v2 ip name rules commit)
  then show ?thesis using add_call_safe [OF safe, of ip name "\<lambda>m. ver_rule e v2 (ad_rule m)" True ad_rule_id rules commit] may
    by (cases v2) (simp_all add: ipa3_add_rt_rule_ext_v2_def ipa3_add_rt_rule_ext_def ver_rule_def)
next
  case (AddRtAfter v2 ip name hdl rules commit)
  then show ?thesis using add_after_safe [OF safe, of ip name hdl "\<lambda>m. ver_rule e v2 (ad_rule m)" rules commit] may
    by (cases v2) (simp_all add: ipa3_add_rt_rule_after_v2_def ipa3_add_rt_rule_after_def ver_rule_def)
next
  case (DelRt ip hdls commit)
  show ?thesis
  proof (cases hdls)
    case None
    then show ?thesis using DelRt safe by (simp add: ipa3_del_rt_rule_def mid_def)
  next
    case (Some hs)
    have "each_may (\<lambda>hdl s. True) (del_rule_act e) xs z" for xs z by (induction xs arbitrary: z) (auto split: option.splits)
    then have "\<exists>rs s'. del_rules e hs s = Some (rs, s') \<and> rt_safe e s'" using del_op.each_keeps [OF safe] by (simp add: rt_batches)
    from rt_batch_safe [OF this, of ip commit] show ?thesis
      using DelRt Some safe by (auto simp: ipa3_del_rt_rule_def mid_def)
  qed
next
  case (MdfyRt v2 ip rules commit)
  have eq: "rt_run e c s = mid (mdfy_call e ip (ver_rule e v2) rules commit s)"
  proof (cases v2)
    case True
    have "ver_rule e True = norm_rule e" by (rule ext) (simp add: ver_rule_def)
    then show ?thesis using MdfyRt True by (simp add: ipa3_mdfy_rt_rule_v2_def)
  next
    case False
    have "ver_rule e False = (\<lambda>r. x_v1 e (norm_rule e r))" by (rule ext) (simp add: ver_rule_def)
    then show ?thesis using MdfyRt False by (simp add: ipa3_mdfy_rt_rule_def)
  qed
  show ?thesis
  proof (cases rules)
    case None
    then show ?thesis using eq safe by (simp add: mdfy_call_def mid_def)
  next
    case (Some ms)
    have "each_may (\<lambda>m. may_mdfy_rule (fst m) (ver_rule e v2 (snd m))) (mdfy_rule_act e (ver_rule e v2)) ms s" using may MdfyRt Some by simp
    from rt_batch_safe [OF mdfy_op.each_keeps [OF safe this], of ip commit] show ?thesis
      using eq Some safe by (auto simp: mdfy_call_def mid_def rt_batches)
  qed
next
  case (CommitRt flt ip)
  show ?thesis
  proof (cases "ip = IPA_IP_MAX")
    case True
    then show ?thesis using CommitRt safe by (simp add: ipa3_commit_rt_def)
  next
    case False
    obtain r s1 where s1: "flt ip s = (r, s1)" by (cases "flt ip s")
    then have "rt_safe e s1" using may CommitRt by simp
    then show ?thesis using finish_rt_safe [of e s1 ip True] CommitRt False s1 by (cases "r = OK") (simp_all add: ipa3_commit_rt_def)
  qed
next
  case (ResetRt flt ip user_only)
  then show ?thesis using reset_rt_safe [OF safe, of ip user_only flt] may by simp
next
  case (GetRt ip lookup)
  then show ?thesis using get_rt_tbl_safe [OF safe, of ip lookup] by (auto simp: mid_def)
next
  case (PutRt hdl)
  then show ?thesis using put_rt_tbl_safe [OF safe, of hdl] by simp
next
  case (HdrCall c')
  note inv = rt_safeD(1) [OF safe]
  have "hdr_spare (rule_refs s) (x_hdr e) c' (hdb s)" using may HdrCall by simp
  from store_call [OF rt_invD(1) [OF inv] this] obtain r d where d: "hdr_run (x_hdr e) c' (hdb s) = Some (r, d)" "store_inv (rule_refs s) d"
    "kept (rule_refs s) (hdb s) d" by blast
  have "rt_safe e (s\<lparr>hdb := d\<rparr>)" by (rule rt_safe_bufs [OF safe rt_inv_hdb [OF inv d(2,3)] bufs_fields(1)])
  then show ?thesis using d(1) HdrCall by simp
qed

section \<open>Histories\<close>

text \<open>What stays the same while the driver runs; the answers of the kernel may differ from call to call.\<close>

definition same_cfg :: "rt_env \<Rightarrow> rt_env \<Rightarrow> bool" where
  "same_cfg e0 e \<longleftrightarrow> good_cfg e \<and> x_apps_lo e = x_apps_lo e0 \<and> x_apps_hi e = x_apps_hi e0 \<and> x_not_hashable e = x_not_hashable e0"

definition rt_zero :: rt_db where
  "rt_zero = \<lparr>hdb = hdr_start, r_rule = Map.empty, r_tbl = Map.empty, r_next = 0, tbl_list = \<lambda>ip. [], tbl_cnt = \<lambda>ip. 0,
     rule_ids = \<lambda>ip. [], reap_list = \<lambda>ip. [], rt_idx_bitmap = \<lambda>ip. 0, rt_mem = Map.empty, rt_hw = \<lambda>ip r i. None\<rparr>"

definition rt_start :: "rt_env \<Rightarrow> rt_db" where
  "rt_start e = init_rt_bitmap e IPA_IP_v6 (init_rt_bitmap e IPA_IP_v4 rt_zero)"

inductive rt_reachable :: "rt_env \<Rightarrow> rt_db \<Rightarrow> bool" for e0 where
  start: "rt_reachable e0 (rt_start e0)"
| call: "rt_reachable e0 s \<Longrightarrow> same_cfg e0 e \<Longrightarrow> rt_may e c s \<Longrightarrow> rt_run e c s = Some (r, s') \<Longrightarrow> rt_reachable e0 s'"

lemma rt_safe_cfg: "same_cfg e0 e \<Longrightarrow> rt_safe e s \<longleftrightarrow> rt_safe e0 s"
  by (simp add: same_cfg_def rt_safe_def hw_ok_def rt_inv_def live_tbls_ok_def tbl_ok_def bits_ok_def)

lemma set_idx_fold:
  "foldl (\<lambda>s i. set_idx ip i s) s is = s\<lparr>rt_idx_bitmap := rt_idx_bitmap (foldl (\<lambda>s i. set_idx ip i s) s is)\<rparr> \<and>
   (\<forall>ip' j. bit (rt_idx_bitmap (foldl (\<lambda>s i. set_idx ip i s) s is) ip') j \<longleftrightarrow> bit (rt_idx_bitmap s ip') j \<or> ip' = ip \<and> j \<in> set is \<and> j < 32)"
proof (induction "is" arbitrary: s)
  case (Cons i ks)
  have "set_idx ip i s = s\<lparr>rt_idx_bitmap := rt_idx_bitmap (set_idx ip i s)\<rparr>" by (simp add: set_idx_def)
  then have "foldl (\<lambda>s i. set_idx ip i s) (set_idx ip i s) ks =
      s\<lparr>rt_idx_bitmap := rt_idx_bitmap (foldl (\<lambda>s i. set_idx ip i s) (set_idx ip i s) ks)\<rparr>"
    using Cons [of "set_idx ip i s"] by (metis (no_types, lifting) rt_db.update_convs(9) rt_db.surjective)
  then show ?case using Cons [of "set_idx ip i s"] by (auto simp: set_idx_bits)
qed simp

lemma rt_start_eq: "rt_start e = rt_zero\<lparr>rt_idx_bitmap := rt_idx_bitmap (rt_start e)\<rparr>"
    "bit (rt_idx_bitmap (rt_start e) ip) j \<longleftrightarrow> ip \<noteq> IPA_IP_MAX \<and> x_modem_lo e ip \<le> j \<and> j \<le> x_modem_hi e ip \<and> j < 32"
proof -
  let ?s4 = "init_rt_bitmap e IPA_IP_v4 rt_zero"
  note 4 = set_idx_fold [of IPA_IP_v4 rt_zero "[x_modem_lo e IPA_IP_v4..<x_modem_hi e IPA_IP_v4 + 1]", folded init_rt_bitmap_def]
  note 6 = set_idx_fold [of IPA_IP_v6 ?s4 "[x_modem_lo e IPA_IP_v6..<x_modem_hi e IPA_IP_v6 + 1]", folded init_rt_bitmap_def, folded rt_start_def]
  show "rt_start e = rt_zero\<lparr>rt_idx_bitmap := rt_idx_bitmap (rt_start e)\<rparr>"
    using 4 6 by (metis (no_types, lifting) rt_db.update_convs(9) rt_db.surjective)
  show "bit (rt_idx_bitmap (rt_start e) ip) j \<longleftrightarrow> ip \<noteq> IPA_IP_MAX \<and> x_modem_lo e ip \<le> j \<and> j \<le> x_modem_hi e ip \<and> j < 32"
    using 4 6 by (cases ip) (auto simp: rt_zero_def)
qed

lemma rt_start_safe:
  assumes "good_cfg e"
  shows "rt_safe e (rt_start e)"
proof -
  define S where "S = rt_start e"
  have "S = rt_zero\<lparr>rt_idx_bitmap := rt_idx_bitmap S\<rparr>" unfolding S_def by (rule rt_start_eq)
  then obtain b where b: "S = rt_zero\<lparr>rt_idx_bitmap := b\<rparr>" ..
  have f: "hdb S = hdr_start" "r_rule S = Map.empty" "r_tbl S = Map.empty" "tbl_list S = (\<lambda>ip. [])" "reap_list S = (\<lambda>ip. [])"
    "rt_hw S = (\<lambda>ip r i. None)" unfolding b by (simp_all add: rt_zero_def)
  have refs: "rule_refs S = (\<lambda>p. 0)" by (rule ext) (simp add: rule_refs_def f)
  have none: "\<not> finds S j p" for j p by (simp add: finds_def f) (simp add: hdr_start_def ipa3_id_find_def)
  have "held (\<lambda>p. 0) hdr_start" by (rule heldI) (simp_all add: hdr_start_def)
  then have st: "store_inv (\<lambda>p. 0) hdr_start" using hdr_start_inv by (simp add: store_inv_def)
  have bits: "bits_ok e S"
    using assms rt_start_eq(2) [of e] by (auto simp: bits_ok_def S_def good_cfg_def IPA_RT_INDEX_BITMAP_SIZE_def less_Suc_eq_le)
  have "rt_inv e S" by (rule rt_invI) (use st bits none in \<open>simp_all add: refs f tbls_ok_def idx_ok_def rt_fresh_def\<close>)
  then show ?thesis unfolding S_def [symmetric] by (auto simp: rt_safe_def f hw_ok_def buf_own_def)
qed

lemma rt_reachable_safe:
  assumes "rt_reachable e0 s" "good_cfg e0"
  shows "rt_safe e0 s"
  using assms(1)
proof (induction rule: rt_reachable.induct)
  case start
  show ?case by (rule rt_start_safe [OF assms(2)])
next
  case (call s e c r s')
  then show ?case using rt_run_safe [of e s c] rt_safe_cfg [OF call.hyps(2)] by auto
qed

end
