(* ===== verification/Ipa_Rt_Props.thy ===== *)
theory Ipa_Rt_Props
  imports Ipa_Rt_Calls
begin

text \<open>
  The properties of the routing tables, with the runs that show their hypotheses to hold.
\<close>

section \<open>A run\<close>

definition demo_rt_env :: rt_env where
  "demo_rt_env = \<lparr>x_hdr = demo_hdr_env, x_hw_v4_5 = False, x_cnt_max = 0, x_used_hw = \<lambda>i. False, x_not_hashable = False,
     x_lcl = \<lambda>ip r. False, x_modem_lo = \<lambda>ip. 0, x_modem_hi = \<lambda>ip. 7, x_apps_lo = \<lambda>ip. 8, x_apps_hi = \<lambda>ip. 14,
     x_dflt_name = ''dflt'', x_wan_cons = 5, x_coal_cons = 7, x_client_max = 10, x_ctx_start = 0, x_hdr_width = 8, x_prefetch = 128,
     x_alloc_tbl = \<lambda>a. True, x_alloc_rule = \<lambda>a. True, x_alloc_rid = \<lambda>a. True, x_alloc_mem = \<lambda>b. True, x_id = \<lambda>p. True,
     x_v1 = \<lambda>r. r, x_gen = \<lambda>g. Some [of_nat (g_id g), of_int (g_prio g)], x_imgs = \<lambda>ip. True, x_hdr_buf = \<lambda>r. True,
     x_rt_cmd = \<lambda>n. True, x_rt_send = True\<rparr>"

definition demo_rule :: "nat \<Rightarrow> nat \<Rightarrow> rt_rule" where
  "demo_rule dst hdl = \<lparr>ru_dst = dst, ru_hdr_hdl = hdl, ru_ctx_hdl = 0, ru_pure_ack = False, ru_rest = 0, ru_max_prio = False,
     ru_hashable = False, ru_coalesce = False, ru_enable_stats = False, ru_cnt_idx = 0\<rparr>"

definition demo_entry_of :: "nat \<Rightarrow> nat \<Rightarrow> nat \<Rightarrow> nat option \<Rightarrow> nat \<Rightarrow> rt_entry" where
  "demo_entry_of t dst hdl h i = \<lparr>re_cookie = IPA_RT_RULE_COOKIE, re_rule = demo_rule dst hdl, re_tbl = t, re_hdr = h, re_ctx = None,
     re_hw_len = 0, re_id = i, re_prio = 0, re_rule_id = 1, re_rule_id_valid = False, re_cnt_idx = 0, re_ipacm = True\<rparr>"

text \<open>Two headers, and a table with a rule that uses the second one.\<close>

definition demo_idle :: rt_db where
  "demo_idle = (rt_start demo_rt_env)\<lparr>hdb := demo_hdrs\<rparr>"

definition demo_rt :: rt_db where
  "demo_rt = demo_idle\<lparr>
     hdb := demo_hdrs\<lparr>db_idr := [Some (PHdr 0), Some (PHdr 2), Some (PTbl 0), Some (PRule 1)],
       db_hdr := (db_hdr demo_hdrs)(2 \<mapsto> (demo_entry ''eth'' demo_bytes (Some 3) 1 True)\<lparr>h_ref := 2\<rparr>)\<rparr>,
     r_rule := [1 \<mapsto> demo_entry_of 0 1 1 (Some 2) 3],
     r_tbl := [0 \<mapsto> (new_tbl demo_rt_env IPA_IP_v4 ''wan'' 8)\<lparr>rt_rules := [1], rt_rule_cnt := 1, rt_id := 2\<rparr>],
     r_next := 2, tbl_list := (\<lambda>ip. [])(IPA_IP_v4 := [0]), tbl_cnt := (\<lambda>ip. 0)(IPA_IP_v4 := 1),
     rule_ids := (\<lambda>ip. [])(IPA_IP_v4 := [1]), rt_idx_bitmap := (\<lambda>ip. if ip = IPA_IP_MAX then 0 else 0xFF)(IPA_IP_v4 := 0x1FF)\<rparr>"

definition demo_tbl :: rt_db where
  "demo_tbl = demo_idle\<lparr>
     hdb := demo_hdrs\<lparr>db_idr := [Some (PHdr 0), Some (PHdr 2), Some (PTbl 0)]\<rparr>,
     r_tbl := [0 \<mapsto> (new_tbl demo_rt_env IPA_IP_v4 ''wan'' 8)\<lparr>rt_id := 2\<rparr>],
     r_next := 1, tbl_list := (\<lambda>ip. [])(IPA_IP_v4 := [0]), tbl_cnt := (\<lambda>ip. 0)(IPA_IP_v4 := 1),
     rt_idx_bitmap := (\<lambda>ip. if ip = IPA_IP_MAX then 0 else 0xFF)(IPA_IP_v4 := 0x1FF)\<rparr>"

lemma demo_env:
  "x_hdr demo_rt_env = demo_hdr_env"
  "x_hw_v4_5 demo_rt_env = False"
  "x_cnt_max demo_rt_env = 0"
  "x_used_hw demo_rt_env = (\<lambda>i. False)"
  "x_not_hashable demo_rt_env = False"
  "x_lcl demo_rt_env = (\<lambda>ip r. False)"
  "x_modem_lo demo_rt_env = (\<lambda>ip. 0)"
  "x_modem_hi demo_rt_env = (\<lambda>ip. 7)"
  "x_apps_lo demo_rt_env = (\<lambda>ip. 8)"
  "x_apps_hi demo_rt_env = (\<lambda>ip. 14)"
  "x_dflt_name demo_rt_env = ''dflt''"
  "x_wan_cons demo_rt_env = 5"
  "x_coal_cons demo_rt_env = 7"
  "x_client_max demo_rt_env = 10"
  "x_ctx_start demo_rt_env = 0"
  "x_hdr_width demo_rt_env = 8"
  "x_prefetch demo_rt_env = 128"
  "x_alloc_tbl demo_rt_env = (\<lambda>a. True)"
  "x_alloc_rule demo_rt_env = (\<lambda>a. True)"
  "x_alloc_rid demo_rt_env = (\<lambda>a. True)"
  "x_alloc_mem demo_rt_env = (\<lambda>b. True)"
  "x_id demo_rt_env = (\<lambda>p. True)"
  "x_v1 demo_rt_env = (\<lambda>r. r)"
  "x_gen demo_rt_env = (\<lambda>g. Some [of_nat (g_id g), of_int (g_prio g)])"
  "x_imgs demo_rt_env = (\<lambda>ip. True)"
  "x_hdr_buf demo_rt_env = (\<lambda>r. True)"
  "x_rt_cmd demo_rt_env = (\<lambda>n. True)"
  "x_rt_send demo_rt_env = True"
  by (simp_all add: demo_rt_env_def)

lemma demo_cfg: "good_cfg demo_rt_env" "same_cfg demo_rt_env demo_rt_env"
  by (simp_all add: good_cfg_def same_cfg_def demo_rt_env_def IPA_RT_INDEX_BITMAP_SIZE_def)

lemma demo_bitmap: "rt_idx_bitmap (rt_start demo_rt_env) = (\<lambda>ip. if ip = IPA_IP_MAX then 0 else 0xFF)"
proof
  fix ip
  show "rt_idx_bitmap (rt_start demo_rt_env) ip = (if ip = IPA_IP_MAX then 0 else 0xFF)"
    by (cases ip) (simp_all add: rt_start_def init_rt_bitmap_def demo_rt_env_def set_idx_def rt_zero_def upt_conv_Cons bit_of_def)
qed

lemma demo_zero: "rt_start demo_rt_env = rt_zero\<lparr>rt_idx_bitmap := \<lambda>ip. if ip = IPA_IP_MAX then 0 else 0xFF\<rparr>"
  using rt_start_eq(1) [of demo_rt_env] unfolding demo_bitmap .

lemma demo_idle_eq: "demo_idle = rt_zero\<lparr>hdb := demo_hdrs, rt_idx_bitmap := \<lambda>ip. if ip = IPA_IP_MAX then 0 else 0xFF\<rparr>"
  by (simp add: demo_idle_def demo_zero)

lemma demo_idle_reachable: "rt_reachable demo_rt_env demo_idle"
proof -
  let ?c1 = "AddHdrs (Some [demo_add ''ipa_lan_hdr'' [1, 2, 3, 4]]) False False" and ?c2 = "AddHdrs (Some [demo_add ''eth'' demo_bytes]) False True"
  define d where "d = snd (the (hdr_run demo_hdr_env ?c1 hdr_start))"
  have h1: "hdr_run demo_hdr_env ?c1 hdr_start = Some (OK, d)" unfolding d_def by (rule demo_adds(1))
  have h2: "hdr_run demo_hdr_env ?c2 d = Some (OK, demo_hdrs)" unfolding d_def by (rule demo_adds(2))
  have x: "x_hdr demo_rt_env = demo_hdr_env" by (simp add: demo_rt_env_def)
  have h0: "hdb (rt_start demo_rt_env) = hdr_start" by (simp add: demo_zero rt_zero_def)
  have "rt_reachable demo_rt_env ((rt_start demo_rt_env)\<lparr>hdb := d\<rparr>)"
  proof (rule rt_reachable.call [OF rt_reachable.start demo_cfg(2)])
    show "rt_run demo_rt_env (HdrCall ?c1) (rt_start demo_rt_env) = Some (OK, (rt_start demo_rt_env)\<lparr>hdb := d\<rparr>)"
      by (simp add: x h0 h1 del: hdr_run.simps)
    show "rt_may demo_rt_env (HdrCall ?c1) (rt_start demo_rt_env)" by (simp add: may_add_hdr_def demo_add_def split: option.split)
  qed
  then show ?thesis
  proof (rule rt_reachable.call [OF _ demo_cfg(2)])
    show "rt_run demo_rt_env (HdrCall ?c2) ((rt_start demo_rt_env)\<lparr>hdb := d\<rparr>) = Some (OK, demo_idle)"
      by (simp add: x h2 demo_idle_def del: hdr_run.simps)
    show "rt_may demo_rt_env (HdrCall ?c2) ((rt_start demo_rt_env)\<lparr>hdb := d\<rparr>)" by (simp add: may_add_hdr_def demo_add_def demo_bytes_def split: option.split)
  qed
qed

lemma demo_rid: "ipa3_alloc_rule_id True [] = Some 1"
  by (simp add: ipa3_alloc_rule_id_def LOW_RULE_ID_def RULE_ID_BIT_LEN_def upt_conv_Cons [of "Suc 0" 512])

lemmas rt_eval = add_rt_rule_def rt_validate_hndls_def add_rt_tbl_def ipa3_find_rt_tbl_def create_rt_entry_def new_rule_def upd_tbl_def
  finish_rt_rule_add_def take_refs_def add_ref_def upd_rule_def rt_validate_rule_id_def demo_rid new_tbl_def
  set_idx_def cut_name_def IPA_RT_INDEX_BITMAP_SIZE_def
  ipa3_id_alloc_def ipa3_id_find_def hdr_by_handle_def ctx_by_handle_def cookie_of_def slot_grow_def slot_take_def strlcpy_def

definition demo_rules :: "rule_add list option" where
  "demo_rules = Some [\<lparr>ad_rule = demo_rule 1 1, ad_rear = True, ad_rule_id = 0\<rparr>]"

lemma demo_first: "first_free_idx 0xFF = Some 8"
proof -
  have "[0..<32] = [0, 1, 2, 3, 4, 5, 6, 7, 8] @ [9..<32::nat]" by (simp add: upt_conv_Cons)
  then show ?thesis by (simp add: first_free_idx_def IPA_RT_INDEX_BITMAP_SIZE_def)
qed

lemma demo_steps:
  "rt_validate_hndls demo_rt_env (demo_rule 1 1) demo_idle = Some (Some (Some 2, None))"
  "add_rt_tbl demo_rt_env IPA_IP_v4 ''wan'' demo_idle = Some (Some 0, demo_tbl)"
  apply (simp add: rt_eval demo_idle_eq demo_env demo_rule_def demo_hdrs_def demo_entry_def)
  apply (simp add: rt_eval demo_tbl_def demo_idle_eq demo_env rt_zero_def demo_hdrs_def demo_hdr_env_def Let_def demo_first bit_of_def numeral_2_eq_2)
  done

lemma demo_create:
  "create_rt_entry demo_rt_env (demo_rule 1 1) 0 (Some 2) None 0 True demo_tbl =
     Some (Some 1, demo_tbl\<lparr>r_next := 2, rule_ids := (\<lambda>ip. [])(IPA_IP_v4 := [1]), r_rule := [1 \<mapsto> demo_entry_of 0 1 1 (Some 2) 0]\<rparr>)"
  by (simp add: rt_eval demo_tbl_def demo_idle_eq demo_env demo_entry_of_def demo_rule_def rt_zero_def Let_def)

lemma demo_add_rule:
  "add_rt_rule demo_rt_env IPA_IP_v4 ''wan'' (demo_rule 1 1) True 0 True demo_idle = Some (OK, Some 3, demo_rt)"
proof -
  have "r_tbl demo_tbl 0 = Some ((new_tbl demo_rt_env IPA_IP_v4 ''wan'' 8)\<lparr>rt_id := 2\<rparr>)" by (simp add: demo_tbl_def)
  moreover have "(0 :: u32) < IPA_RULE_CNT_MAX" by (simp add: IPA_RULE_CNT_MAX_def)
  moreover have "rt_validate_rule_id 0 = OK" by (simp add: rt_validate_rule_id_def)
  ultimately show ?thesis
    by (simp del: One_nat_def add: add_rt_rule_def demo_steps demo_create new_tbl_def)
       (simp add: rt_eval demo_tbl_def demo_rt_def demo_idle_eq demo_env rt_zero_def demo_hdrs_def demo_hdr_env_def demo_entry_of_def demo_rule_def
         demo_entry_def Let_def numeral_2_eq_2 numeral_3_eq_3)
qed

lemma demo_cut: "cut_name demo_rt_env ''wan'' = ''wan''"
  by (simp add: cut_name_def demo_env demo_hdr_env_def)

lemma demo_norm: "norm_rule demo_rt_env r = r" "ver_rule demo_rt_env v2 r = r"
  by (simp_all add: norm_rule_def ver_rule_def demo_env)

lemma demo_run: "rt_run demo_rt_env (AddRt True IPA_IP_v4 ''wan'' demo_rules False True) demo_idle = Some (OK, demo_rt)"
  using demo_add_rule
  by (simp del: One_nat_def add: ipa3_add_rt_rule_usr_v2_def add_call_def demo_cut demo_norm demo_rules_def mid_def finish_rt_def)

lemma demo_may: "rt_may demo_rt_env (AddRt True IPA_IP_v4 ''wan'' demo_rules False True) demo_idle"
proof -
  have "named_target (demo_rule 1 1) demo_idle = Some (PHdr 2)"
    by (simp add: named_target_def demo_rule_def demo_idle_eq ipa3_id_find_def demo_hdrs_def)
  then have "target_room (demo_rule 1 1) demo_idle"
    by (simp add: target_room_def ref_room_def demo_idle_eq demo_hdrs_def demo_entry_def)
  moreover have "tbl_room demo_rt_env IPA_IP_v4 ''wan'' demo_idle"
    by (simp add: tbl_room_def ipa3_find_rt_tbl_def demo_idle_eq rt_zero_def)
  ultimately have "may_add_rule demo_rt_env IPA_IP_v4 ''wan'' (demo_rule 1 1) demo_idle" by (simp add: may_add_rule_def)
  then show ?thesis by (simp del: One_nat_def add: demo_rules_def demo_cut demo_norm may_add_def demo_cfg split: option.split)
qed

lemma demo_rt_reachable: "rt_reachable demo_rt_env demo_rt"
  by (rule rt_reachable.call [OF demo_idle_reachable demo_cfg(2) demo_may demo_run])

lemma demo_rt_safe: "rt_safe demo_rt_env demo_rt" "rt_inv demo_rt_env demo_rt"
  using rt_reachable_safe [OF demo_rt_reachable demo_cfg(1)] rt_safeD by blast+

lemma demo_fields:
  "r_rule demo_rt 1 = Some (demo_entry_of 0 1 1 (Some 2) 3)" "tbl_list demo_rt IPA_IP_v4 = [0]"
  "r_tbl demo_rt 0 = Some ((new_tbl demo_rt_env IPA_IP_v4 ''wan'' 8)\<lparr>rt_rules := [1], rt_rule_cnt := 1, rt_id := 2\<rparr>)"
  "ipa3_id_find 3 (db_idr (hdb demo_rt)) = Some (PRule 1)"
  by (simp_all add: demo_rt_def ipa3_id_find_def numeral_3_eq_3)

section \<open>Properties\<close>





text \<open>
  C16: In every reachable state a handle leads to an object that is alive, carries the cookie of
  its kind and this very handle; a table with a handle is in the list of its family.
\<close>

lemma rt_handles_typed:
  assumes "rt_reachable e0 s" "good_cfg e0" "ipa3_id_find j (db_idr (hdb s)) = Some p"
  shows "case p of
      PHdr a \<Rightarrow> \<exists>h. db_hdr (hdb s) a = Some h \<and> h_cookie h = IPA_HDR_COOKIE \<and> h_id h = j
    | PCtx a \<Rightarrow> \<exists>c. db_ctx (hdb s) a = Some c \<and> c_cookie c = IPA_PROC_HDR_COOKIE \<and> c_id c = j
    | POther k a \<Rightarrow>
        (k = IPA_RT_RULE_COOKIE \<longrightarrow> (\<exists>x. r_rule s a = Some x \<and> re_cookie x = k \<and> re_id x = j)) \<and>
        (k = IPA_RT_TBL_COOKIE \<longrightarrow> (\<exists>tb ip. r_tbl s a = Some tb \<and> a \<in> set (tbl_list s ip) \<and> rt_cookie tb = k \<and> rt_id tb = j))"
proof -
  have inv: "rt_inv e0 s" using rt_reachable_safe [OF assms(1,2)] by (rule rt_safeD)
  note v = rt_invD [OF inv] and i = hdr_inv_inD [OF rt_hdr_inv [OF inv]]
  show ?thesis
  proof (cases p)
    case (PHdr a)
    then obtain h where h: "db_hdr (hdb s) a = Some h" "h_id h = j" using i(1) assms(3) by (fastforce simp: idr_inv_def)
    then show ?thesis using i(6) [OF h(1)] PHdr by (simp add: hdr_shape_def)
  next
    case (PCtx a)
    then obtain c where c: "db_ctx (hdb s) a = Some c" "c_id c = j" using i(1) assms(3) by (fastforce simp: idr_inv_def)
    then show ?thesis using i(8) [OF c(1)] PCtx by (simp add: ctx_shape_def)
  next
    case (POther k a)
    have f: "finds s j (POther k a)" using assms(3) POther by (simp add: finds_def)
    have "\<exists>x. r_rule s a = Some x \<and> re_cookie x = k \<and> re_id x = j" if k: "k = IPA_RT_RULE_COOKIE"
      using v(4) [of j a] v(2) [of a] f k by (auto simp: rule_ok_def)
    moreover have "\<exists>tb ip. r_tbl s a = Some tb \<and> a \<in> set (tbl_list s ip) \<and> rt_cookie tb = k \<and> rt_id tb = j" if k: "k = IPA_RT_TBL_COOKIE"
    proof -
      obtain ip tb where t: "a \<in> set (tbl_list s ip)" "r_tbl s a = Some tb" "rt_id tb = j" using v(5) [of j a] f k by blast
      then have "rt_cookie tb = IPA_RT_TBL_COOKIE" using v(3) [OF t(1)] by (auto simp: tbl_ok_def)
      then show ?thesis using t k by blast
    qed
    ultimately show ?thesis using POther by simp
  qed
qed

lemma rt_handles_typed_witness:
  "\<exists>x. r_rule demo_rt 1 = Some x \<and> re_cookie x = IPA_RT_RULE_COOKIE \<and> re_id x = 3"
  using rt_handles_typed [OF demo_rt_reachable demo_cfg(1) demo_fields(4)] by simp

text \<open>
  C17: In every reachable state two tables of a family have different indices, and a rule that
  is there is in exactly one table, the one it points to, exactly once.
\<close>

lemma rt_tables_apart:
  assumes "rt_reachable e0 s" "good_cfg e0"
  shows "(\<forall>ip t t' tb tb'. t \<in> set (tbl_list s ip) \<longrightarrow> t' \<in> set (tbl_list s ip) \<longrightarrow> t \<noteq> t' \<longrightarrow> r_tbl s t = Some tb \<longrightarrow> r_tbl s t' = Some tb' \<longrightarrow>
        rt_idx tb \<noteq> rt_idx tb') \<and>
    (\<forall>a x. r_rule s a = Some x \<longrightarrow>
       (\<exists>!t. \<exists>ip tb. t \<in> set (tbl_list s ip) \<and> r_tbl s t = Some tb \<and> a \<in> set (rt_rules tb)) \<and>
       (\<exists>ip tb. re_tbl x \<in> set (tbl_list s ip) \<and> r_tbl s (re_tbl x) = Some tb \<and> count_list (rt_rules tb) a = 1))"
proof -
  have inv: "rt_inv e0 s" using rt_reachable_safe [OF assms] by (rule rt_safeD)
  note v = rt_invD [OF inv]
  have idx: "t = t'" if "t \<in> set (tbl_list s ip)" "t' \<in> set (tbl_list s ip)" "r_tbl s t = Some tb" "r_tbl s t' = Some tb'" "rt_idx tb = rt_idx tb'"
    for ip t t' tb tb' using v(7) that unfolding idx_ok_def by blast
  have one: "\<exists>ip tb. re_tbl x \<in> set (tbl_list s ip) \<and> r_tbl s (re_tbl x) = Some tb \<and> a \<in> set (rt_rules tb) \<and> distinct (rt_rules tb)"
    if x: "r_rule s a = Some x" for a x
  proof -
    obtain ip tb where t: "re_tbl x \<in> set (tbl_list s ip)" "r_tbl s (re_tbl x) = Some tb" "a \<in> set (rt_rules tb)"
      using v(2) [OF x] unfolding rule_ok_def by blast
    then show ?thesis using v(3) [OF t(1)] by (auto simp: tbl_ok_def)
  qed
  have own: "t = re_tbl x" if "r_rule s a = Some x" "t \<in> set (tbl_list s ip)" "r_tbl s t = Some tb" "a \<in> set (rt_rules tb)" for a x t ip tb
    using rules_bounds [OF inv that(2-4)] that(1) by auto
  show ?thesis
  proof (intro conjI allI impI)
    fix a x assume x: "r_rule s a = Some x"
    then obtain ip tb where t: "re_tbl x \<in> set (tbl_list s ip)" "r_tbl s (re_tbl x) = Some tb" "a \<in> set (rt_rules tb)" "distinct (rt_rules tb)"
      using one by blast
    show "\<exists>!t. \<exists>ip tb. t \<in> set (tbl_list s ip) \<and> r_tbl s t = Some tb \<and> a \<in> set (rt_rules tb)" using t own [OF x] by blast
    have "count_list (rt_rules tb) a = 1" using t(3,4) by (simp add: distinct_count_atmost_1 count_list_eq_length_filter distinct_length_filter)
    then show "\<exists>ip tb. re_tbl x \<in> set (tbl_list s ip) \<and> r_tbl s (re_tbl x) = Some tb \<and> count_list (rt_rules tb) a = 1" using t by blast
  qed (use idx in blast)
qed

lemma rt_tables_apart_witness:
  "\<exists>ip tb. 0 \<in> set (tbl_list demo_rt ip) \<and> r_tbl demo_rt 0 = Some tb \<and> count_list (rt_rules tb) 1 = 1"
proof -
  have "re_tbl (demo_entry_of 0 1 1 (Some 2) 3) = 0" by (simp add: demo_entry_of_def)
  then show ?thesis using conjunct2 [OF rt_tables_apart [OF demo_rt_reachable demo_cfg(1)], rule_format, OF demo_fields(1)] by simp
qed



text \<open>The commit.\<close>

lemma hw_shows_img:
  assumes "hw_shows e ip s'" and lists: "tbl_list s' = tbl_list s"
  shows "\<forall>rlt. (rlt = IPA_RULE_HASHABLE \<longrightarrow> \<not> x_not_hashable e) \<longrightarrow>
          (\<forall>t tb. t \<in> set (tbl_list s ip) \<longrightarrow> r_tbl s' t = Some tb \<longrightarrow>
             (let bs = rules_img e ip rlt s' (rt_rules tb)
              in if bs = [] then rt_hw s' ip rlt (rt_idx tb - x_apps_lo e ip) = None
                 else \<exists>b. rt_hw s' ip rlt (rt_idx tb - x_apps_lo e ip) = Some b \<and> rt_mem s' b = Some bs)) \<and>
          (\<forall>i. (\<forall>t tb. t \<in> set (tbl_list s ip) \<longrightarrow> r_tbl s' t = Some tb \<longrightarrow> rt_idx tb - x_apps_lo e ip \<noteq> i) \<longrightarrow> rt_hw s' ip rlt i = None)"
proof -
  obtain n where n: "\<And>rlt. (rlt = IPA_RULE_HASHABLE \<longrightarrow> \<not> x_not_hashable e) \<Longrightarrow> img_for e ip rlt n (rt_hw s' ip rlt) (tbl_list s' ip) s'"
    using assms(1) by (auto simp: hw_shows_def)
  show ?thesis
  proof (intro allI impI conjI)
    fix rlt t tb assume a: "rlt = IPA_RULE_HASHABLE \<longrightarrow> \<not> x_not_hashable e" "t \<in> set (tbl_list s ip)" "r_tbl s' t = Some tb"
    have "shows_tbl e ip rlt n (rt_hw s' ip rlt) tb s'" using n [of rlt] a lists(1) by (auto simp: img_for_def)
    then show "let bs = rules_img e ip rlt s' (rt_rules tb) in if bs = [] then rt_hw s' ip rlt (rt_idx tb - x_apps_lo e ip) = None
               else \<exists>b. rt_hw s' ip rlt (rt_idx tb - x_apps_lo e ip) = Some b \<and> rt_mem s' b = Some bs"
      by (auto simp: shows_tbl_def Let_def split: if_splits)
  next
    fix rlt i assume a: "rlt = IPA_RULE_HASHABLE \<longrightarrow> \<not> x_not_hashable e"
      "\<forall>t tb. t \<in> set (tbl_list s ip) \<longrightarrow> r_tbl s' t = Some tb \<longrightarrow> rt_idx tb - x_apps_lo e ip \<noteq> i"
    then show "rt_hw s' ip rlt i = None" using n [of rlt] lists(1) by (auto simp: img_for_def)
  qed
qed

lemma rules_img_concat:
  "rules_img e ip rlt s' as = concat (map (\<lambda>a. the (gen_bytes e ip (the (r_rule s' a)) s')) (filter (\<lambda>a. type_of (the (r_rule s' a)) = rlt) as))"
  by (induction as) (simp_all add: rules_img_def entries_def)

text \<open>
  C12: A commit keeps the rules and their order; when it succeeds with its commands made, the
  image in the hardware has at the index of each table a buffer with the bytes of its rules of
  that kind, one behind the other in their order, and nothing at the other indices; otherwise
  the hardware keeps what it had.
\<close>

lemma rt_commit_image:
  assumes "rt_reachable e0 s" "good_cfg e0" "same_cfg e0 e"
  shows "\<exists>r s'. commit_rt_v3 e ip s = Some (r, s') \<and>
    (\<forall>a. map_option re_rule (r_rule s' a) = map_option re_rule (r_rule s a)) \<and> tbl_list s' = tbl_list s \<and>
    (\<forall>t. t \<in> set (tbl_list s ip) \<longrightarrow> map_option rt_rules (r_tbl s' t) = map_option rt_rules (r_tbl s t)) \<and>
    (if r = OK \<and> rt_cmds_made e then
       (\<forall>rlt. (rlt = IPA_RULE_HASHABLE \<longrightarrow> \<not> x_not_hashable e) \<longrightarrow>
          (\<forall>t tb. t \<in> set (tbl_list s ip) \<longrightarrow> r_tbl s' t = Some tb \<longrightarrow>
             (let bs = concat (map (\<lambda>a. the (gen_bytes e ip (the (r_rule s' a)) s'))
                          (filter (\<lambda>a. type_of (the (r_rule s' a)) = rlt) (rt_rules tb)))
              in if bs = [] then rt_hw s' ip rlt (rt_idx tb - x_apps_lo e ip) = None
                 else \<exists>b. rt_hw s' ip rlt (rt_idx tb - x_apps_lo e ip) = Some b \<and> rt_mem s' b = Some bs)) \<and>
          (\<forall>i. (\<forall>t tb. t \<in> set (tbl_list s ip) \<longrightarrow> r_tbl s' t = Some tb \<longrightarrow> rt_idx tb - x_apps_lo e ip \<noteq> i) \<longrightarrow> rt_hw s' ip rlt i = None))
     else rt_hw s' = rt_hw s)"
proof -
  have safe: "rt_safe e s" using rt_reachable_safe [OF assms(1,2)] rt_safe_cfg [OF assms(3)] by blast
  from commit_rt_ok [OF rt_safeD [OF safe], of ip] obtain r s' where c: "commit_rt_v3 e ip s = Some (r, s')" "committed s s'"
    "if r = OK \<and> rt_cmds_made e then hw_shows e ip s' else rt_hw s' = rt_hw s" by blast
  have lists: "tbl_list s' = tbl_list s" "rules_noted s s'" using c(2) by (simp_all add: committed_def)
  have rules: "map_option re_rule (r_rule s' a) = map_option re_rule (r_rule s a)" for a
    using lists(2) [unfolded rules_noted_def, THEN spec, of a] by (cases "r_rule s a"; cases "r_rule s' a") auto
  have tbls: "map_option rt_rules (r_tbl s' t) = map_option rt_rules (r_tbl s t)" if t: "t \<in> set (tbl_list s ip)" for t
  proof -
    obtain tb where tb: "r_tbl s t = Some tb" using rt_invD(3) [OF rt_safeD(1) [OF safe] t] by blast
    then obtain sz q p where "r_tbl s' t = Some (tb\<lparr>rt_sz := sz, rt_curr := q, rt_prev := p\<rparr>)" using c(2) t unfolding committed_def by blast
    then show ?thesis using tb by simp
  qed
  show ?thesis
  proof (cases "r = OK \<and> rt_cmds_made e")
    case False
    then show ?thesis using c lists(1) rules tbls by auto
  next
    case True
    have hw: "if r = OK \<and> rt_cmds_made e then (\<forall>rlt. (rlt = IPA_RULE_HASHABLE \<longrightarrow> \<not> x_not_hashable e) \<longrightarrow>
          (\<forall>t tb. t \<in> set (tbl_list s ip) \<longrightarrow> r_tbl s' t = Some tb \<longrightarrow>
             (let bs = rules_img e ip rlt s' (rt_rules tb)
              in if bs = [] then rt_hw s' ip rlt (rt_idx tb - x_apps_lo e ip) = None
                 else \<exists>b. rt_hw s' ip rlt (rt_idx tb - x_apps_lo e ip) = Some b \<and> rt_mem s' b = Some bs)) \<and>
          (\<forall>i. (\<forall>t tb. t \<in> set (tbl_list s ip) \<longrightarrow> r_tbl s' t = Some tb \<longrightarrow> rt_idx tb - x_apps_lo e ip \<noteq> i) \<longrightarrow> rt_hw s' ip rlt i = None))
        else rt_hw s' = rt_hw s" using hw_shows_img [OF _ lists(1)] c(3) True by simp
    show ?thesis
      by (rule exI [of _ r], rule exI [of _ s'], intro conjI allI impI) (use c(1) rules lists(1) tbls hw in \<open>simp_all only: rules_img_concat\<close>)
  qed
qed

definition demo_ep_env :: rt_env where
  "demo_ep_env = demo_rt_env\<lparr>x_hdr := demo_hdr_env\<lparr>e_ep := int\<rparr>\<rparr>"

lemma demo_ep: "x_apps_lo demo_ep_env = (\<lambda>ip. 8)" "x_apps_hi demo_ep_env = (\<lambda>ip. 14)" "x_not_hashable demo_ep_env = False" "x_hdr_width demo_ep_env = 8"
  "x_prefetch demo_ep_env = 128" "x_client_max demo_ep_env = 10" "e_ep (x_hdr demo_ep_env) = int" "x_imgs demo_ep_env = (\<lambda>ip. True)"
  "x_hdr_buf demo_ep_env = (\<lambda>r. True)" "x_rt_cmd demo_ep_env = (\<lambda>n. True)" "x_rt_send demo_ep_env = True" "x_alloc_mem demo_ep_env = (\<lambda>b. True)"
  "e_hdr_lcl (x_hdr demo_ep_env) = True" "x_gen demo_ep_env = (\<lambda>g. Some [of_nat (g_id g), of_int (g_prio g)])" "e_coal_ep (x_hdr demo_ep_env) = -1"
  "same_cfg demo_rt_env demo_ep_env"
  using demo_cfg(2) by (simp_all add: demo_ep_env_def demo_rt_env_def demo_hdr_env_def same_cfg_def good_cfg_def)

lemma demo_gen:
  assumes h: "hdb s = hdb demo_rt" and x: "r_rule s 1 = Some x" "x = (demo_entry_of 0 1 1 (Some 2) 3)\<lparr>re_prio := p, re_hw_len := n\<rparr>"
    and n: "n = 0 \<or> n = 2"
  shows "generate_rt_hw_rule demo_ep_env IPA_IP_v4 1 s = Some (Inr [1, of_int p], s\<lparr>r_rule := (r_rule s)(1 \<mapsto> x\<lparr>re_hw_len := 2\<rparr>)\<rparr>)"
proof -
  have f: "re_rule x = demo_rule 1 1" "re_hdr x = Some 2" "re_ctx x = None" "re_hw_len x = n" "re_prio x = p" "re_rule_id x = 1"
    by (simp_all add: x(2) demo_entry_of_def)
  have r: "ru_dst (demo_rule 1 1) = 1" "\<not> ru_hashable (demo_rule 1 1)" "ru_hdr_hdl (demo_rule 1 1) = 1" by (simp_all add: demo_rule_def)
  have "hdr_by_handle 1 (hdb demo_rt) = Some (Some 2) \<and> \<not> rt_freed (PHdr 2) demo_rt"
    using target_handle(1) [OF demo_rt_safe(2) demo_fields(1), of 2] by (simp del: One_nat_def add: demo_entry_of_def r)
  then have "target_gone x s = Some False" by (simp del: One_nat_def add: target_gone_def f r h rt_freed_def)
  moreover have "hdr_of_rule demo_ep_env x s = Some (RULE_HDR_RAW, True, 8)"
    by (simp add: hdr_of_rule_def f h demo_rt_def demo_hdrs_def demo_entry_def demo_ep)
  moreover have "IPA_CLIENT_IS_CONS demo_ep_env 1" by (simp add: IPA_CLIENT_IS_CONS_def demo_ep)
  ultimately show ?thesis using n by (auto simp del: One_nat_def simp add: generate_rt_hw_rule_def x(1) f r demo_ep Let_def numeral_2_eq_2)
qed

definition demo_prepped :: rt_db where
  "demo_prepped = demo_rt\<lparr>
     r_rule := [1 \<mapsto> (demo_entry_of 0 1 1 (Some 2) 3)\<lparr>re_prio := 1, re_hw_len := 2\<rparr>],
     r_tbl := [0 \<mapsto> (new_tbl demo_rt_env IPA_IP_v4 ''wan'' 8)\<lparr>rt_rules := [1], rt_rule_cnt := 1, rt_id := 2,
       rt_sz := \<lambda>r. if r = IPA_RULE_HASHABLE then 0 else 10\<rparr>]\<rparr>"

lemma demo_prep: "prep_tbls demo_ep_env IPA_IP_v4 [0] demo_rt = Some (OK, demo_prepped)"
proof -
  let ?x = "demo_entry_of 0 1 1 (Some 2) 3"
  let ?tb = "(new_tbl demo_rt_env IPA_IP_v4 ''wan'' 8)\<lparr>rt_rules := [1], rt_rule_cnt := 1, rt_id := 2\<rparr>"
  define s1 where "s1 = demo_rt\<lparr>r_tbl := [0 \<mapsto> ?tb\<lparr>rt_sz := \<lambda>r. 0\<rparr>]\<rparr>"
  define s2 where "s2 = s1\<lparr>r_rule := [1 \<mapsto> ?x\<lparr>re_prio := 1\<rparr>]\<rparr>"
  define s3 where "s3 = s1\<lparr>r_rule := [1 \<mapsto> ?x\<lparr>re_prio := 1, re_hw_len := 2\<rparr>]\<rparr>"
  have 1: "upd_tbl 0 (\<lambda>tb. tb\<lparr>rt_sz := \<lambda>r. 0\<rparr>) demo_rt = Some s1" by (simp add: upd_tbl_def s1_def demo_rt_def)
  have 2: "next_prio ?x RULE_MAX_PRIORITY = Inr (1, 1)"
    by (simp add: next_prio_def demo_entry_of_def demo_rule_def rule_decrease_priority_def RULE_MAX_PRIORITY_def RULE_MIN_PRIORITY_def)
  have 3: "generate_rt_hw_rule demo_ep_env IPA_IP_v4 1 s2 = Some (Inr [1, 1], s3)"
  proof -
    have "?x\<lparr>re_prio := 1\<rparr> = ?x\<lparr>re_prio := 1, re_hw_len := 0\<rparr>" by (simp add: demo_entry_of_def)
    note demo_gen [OF _ _ this disjI1 [OF refl], of s2]
    then have "generate_rt_hw_rule demo_ep_env IPA_IP_v4 1 s2 =
        Some (Inr [1, of_int 1], s2\<lparr>r_rule := (r_rule s2)(1 \<mapsto> ?x\<lparr>re_prio := 1\<rparr>\<lparr>re_hw_len := 2\<rparr>)\<rparr>)"
      by (simp del: One_nat_def add: s2_def s1_def)
    then show ?thesis by (simp del: One_nat_def add: s2_def s3_def)
  qed
  have x: "r_rule s1 1 = Some ?x" "s1\<lparr>r_rule := (r_rule s1)(1 \<mapsto> ?x\<lparr>re_prio := 1\<rparr>)\<rparr> = s2" by (simp_all add: s1_def s2_def demo_rt_def)
  have ty: "type_of ?x = IPA_RULE_NON_HASHABLE" by (simp add: type_of_def demo_entry_of_def demo_rule_def)
  have "prep_rules demo_ep_env IPA_IP_v4 0 [1] RULE_MAX_PRIORITY s1 =
      Some (OK, s3\<lparr>r_tbl := [0 \<mapsto> ?tb\<lparr>rt_sz := (\<lambda>r. 0)(IPA_RULE_NON_HASHABLE := 2)\<rparr>]\<rparr>)"
    by (simp del: One_nat_def add: x 2 3 ty) (simp add: upd_tbl_def s3_def s1_def numeral_2_eq_2)
  moreover have "r_tbl demo_rt 0 = Some ?tb" by (rule demo_fields)
  moreover have "(r = IPA_RULE_HASHABLE) = (r \<noteq> IPA_RULE_NON_HASHABLE)" for r by (cases r) simp_all
  ultimately show ?thesis
    by (simp del: One_nat_def prep_rules.simps add: prep_rt_tbl_for_cmt_def 1) (simp del: prep_rules.simps add: upd_tbl_def demo_prepped_def s3_def s1_def demo_ep fun_eq_iff)
qed

definition demo_rt_committed :: rt_db where
  "demo_rt_committed = demo_prepped\<lparr>r_next := 3, rt_mem := (\<lambda>b. if b = 2 then Some [1, 1] else None),
     r_tbl := [0 \<mapsto> (new_tbl demo_rt_env IPA_IP_v4 ''wan'' 8)\<lparr>rt_rules := [1], rt_rule_cnt := 1, rt_id := 2,
       rt_sz := \<lambda>r. if r = IPA_RULE_HASHABLE then 0 else 10, rt_curr := [IPA_RULE_NON_HASHABLE \<mapsto> 2]\<rparr>],
     rt_hw := \<lambda>ip r i. if ip = IPA_IP_v4 \<and> r = IPA_RULE_NON_HASHABLE \<and> i = 0 then Some 2 else None\<rparr>"

lemma demo_bytes_of_rule: "rules_bytes demo_ep_env IPA_IP_v4 IPA_RULE_NON_HASHABLE [1] s = Some (Some [1, 1], s)"
  if s: "hdb s = hdb demo_rt" "r_rule s = [1 \<mapsto> (demo_entry_of 0 1 1 (Some 2) 3)\<lparr>re_prio := 1, re_hw_len := 2\<rparr>]"
proof -
  have "generate_rt_hw_rule demo_ep_env IPA_IP_v4 1 s = Some (Inr [1, 1], s)"
    using demo_gen [OF s(1) _ refl disjI2 [OF refl], of 1] s(2) by (simp del: One_nat_def add: fun_upd_idem)
  then show ?thesis using s(2) by (simp del: One_nat_def) (simp add: type_of_def demo_entry_of_def demo_rule_def)
qed

lemma demo_rt_commit: "commit_rt_v3 demo_ep_env IPA_IP_v4 demo_rt = Some (OK, demo_rt_committed)"
proof -
  let ?tb = "(new_tbl demo_rt_env IPA_IP_v4 ''wan'' 8)\<lparr>rt_rules := [1], rt_rule_cnt := 1, rt_id := 2,
       rt_sz := \<lambda>r. if r = IPA_RULE_HASHABLE then 0 else 10\<rparr>"
  let ?tb' = "?tb\<lparr>rt_curr := (\<lambda>r. None)(IPA_RULE_NON_HASHABLE := Some 2)\<rparr>"
  define s2 where "s2 = demo_prepped\<lparr>r_next := 3, rt_mem := [2 \<mapsto> [1, 1]], r_tbl := [0 \<mapsto> ?tb']\<rparr>"
  define s1 where "s1 = demo_prepped\<lparr>r_next := 3, rt_mem := [2 \<mapsto> []]\<rparr>"
  have f: "r_tbl demo_prepped = [0 \<mapsto> ?tb]" "r_next demo_prepped = 2" "rt_mem demo_prepped = Map.empty" "tbl_list demo_prepped = tbl_list demo_rt"
      "rt_hw demo_prepped = (\<lambda>ip r i. None)" "reap_list demo_prepped = (\<lambda>ip. [])"
    by (simp_all add: demo_prepped_def demo_rt_def demo_idle_eq rt_zero_def)
  let ?nt = "new_tbl demo_rt_env IPA_IP_v4 ''wan'' 8"
  have idx: "rt_idx ?nt = 8" "rt_curr ?nt = (\<lambda>r. None)" "rt_prev ?nt = (\<lambda>r. None)" "rt_in_sys ?nt = (\<lambda>r. True)"
    by (simp_all add: new_tbl_def demo_env)
  have rb: "rules_bytes demo_ep_env IPA_IP_v4 IPA_RULE_NON_HASHABLE [1] s1 = Some (Some [1, 1], s1)"
    by (rule demo_bytes_of_rule) (simp_all add: s1_def demo_prepped_def)
  have h: "translate_tbl demo_ep_env IPA_IP_v4 IPA_RULE_HASHABLE 0 (\<lambda>i. None) demo_prepped = Some (OK, \<lambda>i. None, demo_prepped)"
    by (simp add: translate_tbl_def f)
  have n: "translate_tbl demo_ep_env IPA_IP_v4 IPA_RULE_NON_HASHABLE 0 (\<lambda>i. None) demo_prepped = Some (OK, (\<lambda>i. None)(0 := Some 2), s2)"
    using rb by (simp del: One_nat_def rules_bytes.simps add: translate_tbl_def f idx demo_ep Let_def s1_def [symmetric])
       (simp del: rules_bytes.simps add: upd_tbl_def s1_def s2_def f new_tbl_def)
  have g: "generate_rt_hw_tbl_img demo_ep_env IPA_IP_v4 demo_prepped =
      Some (OK, (\<lambda>r. case r of IPA_RULE_HASHABLE \<Rightarrow> (\<lambda>i. None) | IPA_RULE_NON_HASHABLE \<Rightarrow> (\<lambda>i. None)(0 := Some 2)), s2)"
    by (simp add: generate_rt_hw_tbl_img_def f demo_fields h n demo_ep)
  have b: "rt_idx_bitmap demo_rt IPA_IP_v4 \<noteq> 0" by (simp add: demo_rt_def)
  have hw: "(rt_hw s2)(IPA_IP_v4 := (\<lambda>r. if r = IPA_RULE_HASHABLE \<and> x_not_hashable demo_ep_env then rt_hw s2 IPA_IP_v4 r
        else case r of IPA_RULE_HASHABLE \<Rightarrow> (\<lambda>i. None) | IPA_RULE_NON_HASHABLE \<Rightarrow> (\<lambda>i. None)(0 := Some 2))) =
      (\<lambda>ip r i. if ip = IPA_IP_v4 \<and> r = IPA_RULE_NON_HASHABLE \<and> i = 0 then Some 2 else None)"
    by (intro ext) (auto simp: s2_def f demo_ep split: rule_type.splits)
  have "reap_sys_rt_tbls IPA_IP_v4 (s2\<lparr>rt_hw := \<lambda>ip r i. if ip = IPA_IP_v4 \<and> r = IPA_RULE_NON_HASHABLE \<and> i = 0 then Some 2 else None\<rparr>) = Some demo_rt_committed"
    by (simp add: reap_sys_rt_tbls_def s2_def f demo_fields idx) (simp add: demo_rt_committed_def new_tbl_def)
  then show ?thesis using b demo_prep g hw by (simp add: commit_rt_v3_def demo_fields rt_cmds_made_def demo_ep)
qed

lemma rt_commit_image_witness:
  "commit_rt_v3 demo_ep_env IPA_IP_v4 demo_rt = Some (OK, demo_rt_committed) \<and> rt_hw demo_rt_committed IPA_IP_v4 IPA_RULE_NON_HASHABLE 0 = Some 2 \<and>
   rt_mem demo_rt_committed 2 = Some (the (gen_bytes demo_ep_env IPA_IP_v4 (the (r_rule demo_rt_committed 1)) demo_rt_committed))"
proof -
  have c: "rt_cmds_made demo_ep_env" by (simp add: rt_cmds_made_def demo_ep)
  let ?tb = "the (r_tbl demo_rt_committed 0)"
  have tb: "r_tbl demo_rt_committed 0 = Some ?tb" "rt_idx ?tb = 8" "rt_rules ?tb = [1]" by (simp_all add: demo_rt_committed_def new_tbl_def)
  have ty: "type_of (the (r_rule demo_rt_committed 1)) = IPA_RULE_NON_HASHABLE"
    by (simp add: demo_rt_committed_def demo_prepped_def type_of_def demo_entry_of_def demo_rule_def)
  have hw: "rt_hw demo_rt_committed IPA_IP_v4 IPA_RULE_NON_HASHABLE 0 = Some 2" by (simp add: demo_rt_committed_def)
  obtain r s' where r: "commit_rt_v3 demo_ep_env IPA_IP_v4 demo_rt = Some (r, s')" "tbl_list s' = tbl_list demo_rt"
    "if r = OK \<and> rt_cmds_made demo_ep_env then
       (\<forall>rlt. (rlt = IPA_RULE_HASHABLE \<longrightarrow> \<not> x_not_hashable demo_ep_env) \<longrightarrow>
          (\<forall>t tb. t \<in> set (tbl_list demo_rt IPA_IP_v4) \<longrightarrow> r_tbl s' t = Some tb \<longrightarrow>
             (let bs = concat (map (\<lambda>a. the (gen_bytes demo_ep_env IPA_IP_v4 (the (r_rule s' a)) s'))
                          (filter (\<lambda>a. type_of (the (r_rule s' a)) = rlt) (rt_rules tb)))
              in if bs = [] then rt_hw s' IPA_IP_v4 rlt (rt_idx tb - x_apps_lo demo_ep_env IPA_IP_v4) = None
                 else \<exists>b. rt_hw s' IPA_IP_v4 rlt (rt_idx tb - x_apps_lo demo_ep_env IPA_IP_v4) = Some b \<and> rt_mem s' b = Some bs)) \<and>
          (\<forall>i. (\<forall>t tb. t \<in> set (tbl_list demo_rt IPA_IP_v4) \<longrightarrow> r_tbl s' t = Some tb \<longrightarrow> rt_idx tb - x_apps_lo demo_ep_env IPA_IP_v4 \<noteq> i) \<longrightarrow>
             rt_hw s' IPA_IP_v4 rlt i = None))
     else rt_hw s' = rt_hw demo_rt"
    using rt_commit_image [OF demo_rt_reachable demo_cfg(1) demo_ep(16), of IPA_IP_v4] by blast
  then have s': "r = OK" "s' = demo_rt_committed" using demo_rt_commit by simp_all
  have "let bs = concat (map (\<lambda>a. the (gen_bytes demo_ep_env IPA_IP_v4 (the (r_rule s' a)) s'))
                          (filter (\<lambda>a. type_of (the (r_rule s' a)) = IPA_RULE_NON_HASHABLE) (rt_rules ?tb)))
              in if bs = [] then rt_hw s' IPA_IP_v4 IPA_RULE_NON_HASHABLE (rt_idx ?tb - x_apps_lo demo_ep_env IPA_IP_v4) = None
                 else \<exists>b. rt_hw s' IPA_IP_v4 IPA_RULE_NON_HASHABLE (rt_idx ?tb - x_apps_lo demo_ep_env IPA_IP_v4) = Some b \<and> rt_mem s' b = Some bs"
  proof -
    have "t \<in> set (tbl_list demo_rt IPA_IP_v4) \<Longrightarrow> r_tbl s' t = Some tb \<Longrightarrow>
       let bs = concat (map (\<lambda>a. the (gen_bytes demo_ep_env IPA_IP_v4 (the (r_rule s' a)) s'))
                          (filter (\<lambda>a. type_of (the (r_rule s' a)) = IPA_RULE_NON_HASHABLE) (rt_rules tb)))
              in if bs = [] then rt_hw s' IPA_IP_v4 IPA_RULE_NON_HASHABLE (rt_idx tb - x_apps_lo demo_ep_env IPA_IP_v4) = None
                 else \<exists>b. rt_hw s' IPA_IP_v4 IPA_RULE_NON_HASHABLE (rt_idx tb - x_apps_lo demo_ep_env IPA_IP_v4) = Some b \<and> rt_mem s' b = Some bs" for t tb
      using r(3) s'(1) c by simp
    from this [of 0 ?tb] show ?thesis using tb(1) demo_fields(2) s'(2) by simp
  qed
  then show ?thesis using s' tb ty hw demo_rt_commit by (simp del: One_nat_def add: demo_ep Let_def split: if_splits)
qed

text \<open>The priorities against a reference: a rule counts the ordinary rules up to itself.\<close>

lemma prios_nth:
  "i < length xs \<Longrightarrow> prios p xs ! i =
     (if ru_max_prio (re_rule (xs ! i)) then 0 else p + int (length (filter (\<lambda>x. \<not> ru_max_prio (re_rule x)) (take (Suc i) xs))))"
proof (induction xs arbitrary: p i)
  case (Cons x xs)
  then show ?case by (cases i) auto
qed simp

text \<open>
  C15: The running priority of the preparation gives each rule what a direct count gives: a
  flagged rule gets 0, the most urgent, any other rule the number of unflagged rules of the
  table up to and including itself.
\<close>

lemma rt_priorities_reference:
  assumes "rt_reachable e0 s" "good_cfg e0" "same_cfg e0 e" "t \<in> set (tbl_list s ip)" "r_tbl s t = Some tb"
    and run: "prep_rt_tbl_for_cmt e ip t s = Some (OK, s')" and i: "i < length (rt_rules tb)"
  defines "ord \<equiv> \<lambda>a. \<not> ru_max_prio (re_rule (the (r_rule s a)))"
  shows "re_prio (the (r_rule s' (rt_rules tb ! i))) =
    (if ord (rt_rules tb ! i) then int (length (filter ord (take (Suc i) (rt_rules tb)))) else 0)"
proof -
  have "rt_safe e s" using rt_reachable_safe [OF assms(1,2)] rt_safe_cfg [OF assms(3)] by blast
  then have inv: "rt_inv e s" by (rule rt_safeD)
  obtain r s1 where s1: "prep_rt_tbl_for_cmt e ip t s = Some (r, s1)" "prep_frame s s1" "r = OK \<longrightarrow> prepared e ip s1 t"
    using prep_rt_tbl_for_cmt_ok [OF inv assms(4,5)] by blast
  then have s': "prep_frame s s'" "prepared e ip s' t" using run by simp_all
  obtain sz where tb': "r_tbl s' t = Some (tb\<lparr>rt_sz := sz\<rparr>)" using prep_tbl(1) [OF s'(1) assms(5)] by blast
  then have p: "map re_prio (entries s' (rt_rules tb)) = prios 0 (entries s' (rt_rules tb))" using s'(2) by (auto simp: prepared_def)
  have live: "\<forall>a \<in> set (rt_rules tb). r_rule s a \<noteq> None" using rules_bounds [OF inv assms(4,5)] by fastforce
  have "rules_noted s s'" using s'(1) by (simp add: prep_frame_def rt_frame_def)
  from entries_noted [OF this live] have er: "map re_rule (entries s' (rt_rules tb)) = map re_rule (entries s (rt_rules tb))" .
  have same: "re_rule (the (r_rule s' a)) = re_rule (the (r_rule s a))" if "a \<in> set (rt_rules tb)" for a
    using er that by (auto simp: entries_def)
  have "filter (\<lambda>x. \<not> ru_max_prio (re_rule x)) (take (Suc i) (entries s' (rt_rules tb))) =
      map (\<lambda>a. the (r_rule s' a)) (filter (\<lambda>a. \<not> ru_max_prio (re_rule (the (r_rule s' a)))) (take (Suc i) (rt_rules tb)))"
    by (simp add: entries_def take_map filter_map comp_def)
  moreover have "filter (\<lambda>a. \<not> ru_max_prio (re_rule (the (r_rule s' a)))) (take (Suc i) (rt_rules tb)) = filter ord (take (Suc i) (rt_rules tb))"
    unfolding ord_def by (rule filter_cong [OF refl]) (metis same in_set_takeD)
  ultimately have n: "length (filter (\<lambda>x. \<not> ru_max_prio (re_rule x)) (take (Suc i) (entries s' (rt_rules tb)))) = length (filter ord (take (Suc i) (rt_rules tb)))"
    by simp
  have "re_prio (the (r_rule s' (rt_rules tb ! i))) = map re_prio (entries s' (rt_rules tb)) ! i" using i by (simp add: entries_def)
  also have "\<dots> = prios 0 (entries s' (rt_rules tb)) ! i" using p by simp
  also have "\<dots> = (if ord (rt_rules tb ! i) then int (length (filter ord (take (Suc i) (rt_rules tb)))) else 0)"
    using prios_nth [of i "entries s' (rt_rules tb)" 0] i n same [OF nth_mem [OF i]] by (simp add: ord_def entries_def)
  finally show ?thesis .
qed

lemma demo_prep1: "prep_rt_tbl_for_cmt demo_ep_env IPA_IP_v4 0 demo_rt = Some (OK, demo_prepped)"
  using demo_prep by (auto split: Option.bind_splits if_splits)

lemma rt_priorities_reference_witness: "re_prio (the (r_rule demo_prepped 1)) = 1"
  using rt_priorities_reference [OF demo_rt_reachable demo_cfg(1) demo_ep(16) _ demo_fields(3) demo_prep1]
  by (simp add: demo_fields(2) demo_rt_def demo_entry_of_def demo_rule_def)

end
