(* ===== verification/Ipa_Rt_View.thy ===== *)
theory Ipa_Rt_View
  imports Ipa_Rt_Props
begin

text \<open>
  The routing tables as their users see them: for each family the tables with their names, counts
  and rules, without addresses, indices, identifiers and buffers. The operations of the code
  refine operations on these lists.
\<close>

section \<open>The abstract tables\<close>

text \<open>A rule is seen as its handle, the rule, and whether user space installed it.\<close>

type_synonym rt_item = "nat \<times> rt_rule \<times> bool"

record rt_view =
  vw_name :: string
  vw_cnt :: u32
  vw_ref :: u32
  vw_rules :: "rt_item list"

definition put_item :: "bool \<Rightarrow> rt_item \<Rightarrow> rt_view \<Rightarrow> rt_view" where
  "put_item at_rear i v =
     v\<lparr>vw_cnt := vw_cnt v + 1, vw_rules := (if at_rear then vw_rules v @ [i] else i # vw_rules v)\<rparr>"

fun spec_add :: "string \<Rightarrow> bool \<Rightarrow> rt_item \<Rightarrow> rt_view list \<Rightarrow> rt_view list option" where
  "spec_add name at_rear i [] = None"
| "spec_add name at_rear i (v # vs) =
     (if vw_name v = name then Some (put_item at_rear i v # vs) else map_option ((#) v) (spec_add name at_rear i vs))"

text \<open>A rule for a table that is not there makes the table, before the others.\<close>

definition spec_insert :: "string \<Rightarrow> bool \<Rightarrow> rt_item \<Rightarrow> rt_view list \<Rightarrow> rt_view list" where
  "spec_insert name at_rear i vs =
     (case spec_add name at_rear i vs of Some ws \<Rightarrow> ws
      | None \<Rightarrow> \<lparr>vw_name = name, vw_cnt = 1, vw_ref = 0, vw_rules = [i]\<rparr> # vs)"

text \<open>The last use of a table takes the table away.\<close>

fun spec_delete :: "nat \<Rightarrow> rt_view list \<Rightarrow> rt_view list" where
  "spec_delete hdl [] = []"
| "spec_delete hdl (v # vs) =
     (if hdl \<in> fst ` set (vw_rules v) then
        (if vw_cnt v = 1 \<and> vw_ref v = 0 then []
         else [v\<lparr>vw_cnt := vw_cnt v - 1, vw_rules := filter (\<lambda>i. fst i \<noteq> hdl) (vw_rules v)\<rparr>]) @ spec_delete hdl vs
      else v # spec_delete hdl vs)"

definition spec_modify :: "nat \<Rightarrow> rt_rule \<Rightarrow> rt_view list \<Rightarrow> rt_view list" where
  "spec_modify hdl r = map (\<lambda>v. v\<lparr>vw_rules := map (\<lambda>i. if fst i = hdl then (hdl, r, snd (snd i)) else i) (vw_rules v)\<rparr>)"

section \<open>The abstraction\<close>

definition item_of :: "rt_db \<Rightarrow> nat \<Rightarrow> rt_item" where
  "item_of s a = (let x = the (r_rule s a) in (re_id x, re_rule x, re_ipacm x))"

definition view_of :: "rt_db \<Rightarrow> nat \<Rightarrow> rt_view" where
  "view_of s t = (let tb = the (r_tbl s t) in
     \<lparr>vw_name = rt_name tb, vw_cnt = rt_rule_cnt tb, vw_ref = rt_ref_cnt tb, vw_rules = map (item_of s) (rt_rules tb)\<rparr>)"

definition rt_abs :: "rt_db \<Rightarrow> ip_type \<Rightarrow> rt_view list" where
  "rt_abs s ip = map (view_of s) (tbl_list s ip)"

lemma view_of_cong:
  assumes "r_tbl s' t = r_tbl s t" "\<And>tb a. r_tbl s t = Some tb \<Longrightarrow> a \<in> set (rt_rules tb) \<Longrightarrow> r_rule s' a = r_rule s a" "r_tbl s t \<noteq> None"
  shows "view_of s' t = view_of s t"
  using assms by (auto simp: view_of_def item_of_def Let_def)

lemma item_ids:
  assumes "rt_inv e s" "t \<in> set (tbl_list s ip)" "r_tbl s t = Some tb" "r_rule s a = Some x"
  shows "re_id x \<in> fst ` set (vw_rules (view_of s t)) \<longleftrightarrow> a \<in> set (rt_rules tb)"
    "b \<in> set (rt_rules tb) \<Longrightarrow> fst (item_of s b) = re_id x \<longleftrightarrow> b = a"
proof -
  note v = rt_invD [OF assms(1)]
  have one: "b = a" if b: "b \<in> set (rt_rules tb)" "fst (item_of s b) = re_id x" for b
  proof -
    obtain y where y: "r_rule s b = Some y" using rules_bounds [OF assms(1-3) b(1)] by blast
    then have "re_id y = re_id x" using b(2) by (simp add: item_of_def Let_def)
    then have "finds s (re_id x) (PRule b)" "finds s (re_id x) (PRule a)" using v(2) [OF y] v(2) [OF assms(4)] by (simp_all add: rule_ok_def)
    then show ?thesis using finds_fun by fastforce
  qed
  have a: "fst (item_of s a) = re_id x" using assms(4) by (simp add: item_of_def)
  show "b \<in> set (rt_rules tb) \<Longrightarrow> fst (item_of s b) = re_id x \<longleftrightarrow> b = a" using one a by blast
  have "vw_rules (view_of s t) = map (item_of s) (rt_rules tb)" using assms(3) by (simp add: view_of_def Let_def)
  then have "fst ` set (vw_rules (view_of s t)) = (\<lambda>b. fst (item_of s b)) ` set (rt_rules tb)" by (simp add: image_image)
  then show "re_id x \<in> fst ` set (vw_rules (view_of s t)) \<longleftrightarrow> a \<in> set (rt_rules tb)"
    using one a by (metis (no_types, lifting) imageE image_eqI)
qed

section \<open>Refinement\<close>

text \<open>Each operation on the abstract tables, table by table.\<close>

lemma spec_add_map:
  assumes "distinct ts" "t \<in> set ts" "vw_name (f t) = name" "\<And>u. u \<in> set (takeWhile (\<lambda>u. u \<noteq> t) ts) \<Longrightarrow> vw_name (f u) \<noteq> name"
  shows "spec_add name at_rear i (map f ts) = Some (map (f(t := put_item at_rear i (f t))) ts)"
  using assms by (induction ts) (auto split: if_splits)

lemma spec_add_none: "(\<And>u. u \<in> set ts \<Longrightarrow> vw_name (f u) \<noteq> name) \<Longrightarrow> spec_add name at_rear i (map f ts) = None"
  by (induction ts) auto

lemma spec_delete_none: "(\<And>u. u \<in> set ts \<Longrightarrow> hdl \<notin> fst ` set (vw_rules (f u))) \<Longrightarrow> spec_delete hdl (map f ts) = map f ts"
  by (induction ts) auto

lemma spec_delete_map:
  assumes "distinct ts" "t \<in> set ts" "\<And>u. u \<in> set ts \<Longrightarrow> hdl \<in> fst ` set (vw_rules (f u)) \<longleftrightarrow> u = t"
  shows "spec_delete hdl (map f ts) =
    (if vw_cnt (f t) = 1 \<and> vw_ref (f t) = 0 then map f (remove1 t ts)
     else map (f(t := (f t)\<lparr>vw_cnt := vw_cnt (f t) - 1, vw_rules := filter (\<lambda>i. fst i \<noteq> hdl) (vw_rules (f t))\<rparr>)) ts)"
  using assms
proof (induction ts)
  case (Cons u ts)
  show ?case
  proof (cases "u = t")
    case True
    then have "spec_delete hdl (map f ts) = map f ts" using Cons.prems by (intro spec_delete_none) auto
    moreover have "map (f(t := v)) ts = map f ts" for v using True Cons.prems(1) by auto
    ultimately show ?thesis using Cons.prems(3) [of t] True by simp
  next
    case False
    then show ?thesis using Cons.IH Cons.prems Cons.prems(3) [of u] by simp
  qed
qed simp

lemma find_first:
  "find_tbl name ts s = Some (Some t) \<Longrightarrow> (\<And>u. u \<in> set ts \<Longrightarrow> \<not> rt_freed (PTbl u) s) \<Longrightarrow> u \<in> set (takeWhile (\<lambda>u. u \<noteq> t) ts) \<Longrightarrow>
     map_option rt_name (r_tbl s u) \<noteq> Some name"
  by (induction ts) (auto simp: bind_eq_Some_conv split: if_splits)

lemma live_tbl_not_freed: "rt_inv e s \<Longrightarrow> t \<in> set (tbl_list s ip) \<Longrightarrow> \<not> rt_freed (PTbl t) s"
  using rt_invD(3) [of e s t ip] by (auto simp: rt_freed_def check_idr_if_freed tbl_ok_def finds_def)

text \<open>A step that touches one table: the others look the same.\<close>

lemma abs_one_tbl:
  assumes inv: "rt_inv e s" and t: "t \<in> set (tbl_list s ip)" "r_tbl s t = Some tb"
    and tbls: "r_tbl s' = (r_tbl s)(t \<mapsto> tb')" and rules: "\<And>b y. r_rule s b = Some y \<Longrightarrow> re_tbl y \<noteq> t \<Longrightarrow> r_rule s' b = Some y"
  shows "u \<in> set (tbl_list s ip') \<Longrightarrow> u \<noteq> t \<Longrightarrow> view_of s' u = view_of s u"
proof -
  assume u: "u \<in> set (tbl_list s ip')" "u \<noteq> t"
  obtain tbu where tbu: "r_tbl s u = Some tbu" using rt_invD(3) [OF inv u(1)] by blast
  show ?thesis
  proof (rule view_of_cong)
    fix tb0 a assume "r_tbl s u = Some tb0" "a \<in> set (rt_rules tb0)"
    then obtain y where "r_rule s a = Some y" "re_tbl y = u" using rules_bounds [OF inv u(1)] by blast
    then show "r_rule s' a = r_rule s a" using rules u(2) by simp
  qed (use tbls tbu u(2) in simp_all)
qed

lemma delete_refines:
  assumes inv: "rt_inv e s" and run: "del_rt_rule e' hdl s = Some (r, s')"
  shows "if r = OK then rt_abs s' = spec_delete hdl \<circ> rt_abs s else s' = s"
proof (rule del_rt_rule_ok [OF inv, of e' hdl])
  fix err assume "del_rt_rule e' hdl s = Some (Err err, s)"
  then show ?thesis using run by simp
next
  fix a x ip tb d s2
  assume d: "del_rt_rule e' hdl s = Some (OK, s2)" "r_rule s a = Some x" "re_id x = hdl" "re_tbl x \<in> set (tbl_list s ip)"
    "r_tbl s (re_tbl x) = Some tb" "a \<in> set (rt_rules tb)" "rule_gone a x tb ip s s2"
  have s2: "r = OK" "s' = s2" using run d(1) by simp_all
  let ?t = "re_tbl x"
  note v = rt_invD [OF inv]
  have tok: "tbl_ok e s ip ?t tb" using v(3) [OF d(4)] d(5) by auto
  have dist: "distinct (tbl_list s ip')" for ip' using v(6) by (simp add: tbls_ok_def)
  have gone: "r_rule s2 = (r_rule s)(a := None)" using d(7) by (simp add: rule_gone_def Let_def)
  have rest: "map (item_of s2) (remove1 a (rt_rules tb)) = filter (\<lambda>i. fst i \<noteq> hdl) (map (item_of s) (rt_rules tb))"
  proof -
    have "remove1 a (rt_rules tb) = filter (\<lambda>b. b \<noteq> a) (rt_rules tb)"
      using tok distinct_remove1_removeAll [of "rt_rules tb" a] by (simp add: tbl_ok_def removeAll_filter_not_eq) (metis)
    moreover have "filter ((\<lambda>i. fst i \<noteq> hdl) \<circ> item_of s) (rt_rules tb) = filter (\<lambda>b. b \<noteq> a) (rt_rules tb)"
      by (rule filter_cong [OF refl]) (use item_ids(2) [OF inv d(4,5,2)] d(3) in simp)
    ultimately show ?thesis by (simp add: filter_map) (simp add: item_of_def gone)
  qed
  have ids: "hdl \<in> fst ` set (vw_rules (view_of s u)) \<longleftrightarrow> u = ?t" if u: "u \<in> set (tbl_list s ip')" for u ip'
  proof -
    obtain tbu where tbu: "r_tbl s u = Some tbu" using v(3) [OF u] by blast
    have "a \<in> set (rt_rules tbu) \<longleftrightarrow> u = ?t" using rules_bounds [OF inv u tbu, of a] d(2,5,6) tbu by auto
    then show ?thesis using item_ids(1) [OF inv u tbu d(2)] d(3) by simp
  qed
  have same: "u \<in> set (tbl_list s ip') \<Longrightarrow> u \<noteq> ?t \<Longrightarrow> view_of s2 u = view_of s u" for u ip'
  proof -
    assume u: "u \<in> set (tbl_list s ip')" "u \<noteq> ?t"
    obtain tb' where "r_tbl s2 = (r_tbl s)(?t \<mapsto> tb')" using d(7) by (auto simp: rule_gone_def Let_def split: if_splits)
    moreover have "r_rule s2 b = Some y" if "r_rule s b = Some y" "re_tbl y \<noteq> ?t" for b y using that gone d(2) by auto
    ultimately show ?thesis using abs_one_tbl [OF inv d(4,5) _ _ u] by blast
  qed
  have vt: "view_of s ?t = \<lparr>vw_name = rt_name tb, vw_cnt = rt_rule_cnt tb, vw_ref = rt_ref_cnt tb, vw_rules = map (item_of s) (rt_rules tb)\<rparr>"
    using d(5) by (simp add: view_of_def Let_def)
  have "rt_abs s2 ip' = spec_delete hdl (rt_abs s ip')" for ip'
  proof (cases "ip' = ip")
    case False
    then have t': "?t \<notin> set (tbl_list s ip')" using tbl_in_one_list(1) [OF inv d(4), of ip'] by simp
    have "tbl_list s2 ip' = tbl_list s ip'" using d(7) False by (auto simp: rule_gone_def Let_def split: if_splits)
    moreover have "spec_delete hdl (map (view_of s) (tbl_list s ip')) = map (view_of s) (tbl_list s ip')"
      by (rule spec_delete_none) (use ids [of _ ip'] t' in blast)
    moreover have "map (view_of s2) (tbl_list s ip') = map (view_of s) (tbl_list s ip')"
      by (rule map_cong [OF refl]) (use same [of _ ip'] t' in blast)
    ultimately show ?thesis by (simp add: rt_abs_def)
  next
    case True
    note sd = spec_delete_map [OF dist d(4), of hdl "view_of s", OF ids]
    show ?thesis
    proof (cases "rt_rule_cnt tb = 1 \<and> rt_ref_cnt tb = 0")
      case last: True
      then have "tbl_list s2 ip = remove1 ?t (tbl_list s ip)" using d(7) by (simp add: rule_gone_def Let_def)
      moreover have "view_of s2 u = view_of s u" if "u \<in> set (remove1 ?t (tbl_list s ip))" for u
        using that dist [of ip] same [of u ip] by (simp add: set_remove1_eq)
      ultimately show ?thesis using sd last True by (simp add: rt_abs_def vt)
    next
      case more: False
      then have l: "tbl_list s2 = tbl_list s"
          "r_tbl s2 = (r_tbl s)(?t \<mapsto> tb\<lparr>rt_rules := remove1 a (rt_rules tb), rt_rule_cnt := rt_rule_cnt tb - 1\<rparr>)"
        using d(7) by (auto simp: rule_gone_def Let_def)
      have "view_of s2 ?t = (view_of s ?t)\<lparr>vw_cnt := rt_rule_cnt tb - 1, vw_rules := filter (\<lambda>i. fst i \<noteq> hdl) (map (item_of s) (rt_rules tb))\<rparr>"
        unfolding vt rest [symmetric] by (simp add: view_of_def l(2) Let_def)
      then show ?thesis using sd more True same [of _ ip] by (auto simp: rt_abs_def vt l(1))
    qed
  qed
  then show ?thesis using s2 by (auto simp: fun_eq_iff)
qed

lemma modify_refines:
  assumes inv: "rt_inv e s" and may: "may_mdfy_rule hdl r s" and run: "mdfy_rt_rule e hdl r s = Some (rc, s')"
  shows "if rc = OK then rt_abs s' = spec_modify hdl r \<circ> rt_abs s else s' = s"
proof (rule mdfy_rt_rule_ok [OF inv may])
  fix err assume "mdfy_rt_rule e hdl r s = Some (Err err, s)"
  then show ?thesis using run by simp
next
  fix a x h c ip tb s2
  assume d: "mdfy_rt_rule e hdl r s = Some (OK, s2)" "r_rule s a = Some x" "re_id x = hdl" "r_rule s2 = (r_rule s)(a \<mapsto> mdfied r h c x)"
    "r_tbl s2 = r_tbl s" "tbl_list s2 = tbl_list s" "re_tbl x \<in> set (tbl_list s ip)" "r_tbl s (re_tbl x) = Some tb"
  have s2: "rc = OK" "s' = s2" using run d(1) by simp_all
  have it: "item_of s2 b = (if b = a then (hdl, r, snd (snd (item_of s b))) else item_of s b)" for b
    by (simp add: item_of_def d(2-4) mdfied_def)
  have "view_of s2 u = (view_of s u)\<lparr>vw_rules := map (\<lambda>i. if fst i = hdl then (hdl, r, snd (snd i)) else i) (vw_rules (view_of s u))\<rparr>"
    if u: "u \<in> set (tbl_list s ip')" for u ip'
  proof -
    obtain tbu where tbu: "r_tbl s u = Some tbu" using rt_invD(3) [OF inv u] by blast
    have "map (item_of s2) (rt_rules tbu) = map (\<lambda>b. if fst (item_of s b) = hdl then (hdl, r, snd (snd (item_of s b))) else item_of s b) (rt_rules tbu)"
      by (rule map_cong [OF refl]) (use item_ids(2) [OF inv u tbu d(2)] d(3) it in auto)
    then show ?thesis by (simp add: view_of_def d(5) tbu Let_def comp_def)
  qed
  then have "rt_abs s2 ip' = spec_modify hdl r (rt_abs s ip')" for ip' by (simp add: rt_abs_def spec_modify_def d(6))
  then show ?thesis using s2 by (auto simp: fun_eq_iff)
qed

lemma insert_refines:
  assumes inv: "rt_inv e s" and cfg: "good_cfg e" and may: "may_add_rule e ip name r s" and name: "length name < e_name_max (x_hdr e)"
    and run: "add_rt_rule e ip name r at_rear rid user s = Some (OK, hdl, s')"
  shows "\<exists>i. hdl = Some i \<and> rt_abs s' = (rt_abs s)(ip := spec_insert name at_rear (i, rule_of_new e r, user) (rt_abs s ip))"
proof (rule add_rt_rule_ok [OF inv cfg may, of at_rear rid user])
  fix s2 assume "add_rt_rule e ip name r at_rear rid user s = Some (Err EPERM, None, s2)"
  then show ?thesis using run by simp
next
  fix i t tb a x s2
  assume d: "add_rt_rule e ip name r at_rear rid user s = Some (OK, Some i, s2)" "rt_inv e s2" "tbl_for e ip name t tb s s2"
    "rule_added e t tb (ins_end at_rear (rt_rules tb) a) a x r user s s2" "re_id x = i"
  have s2: "hdl = Some i" "s' = s2" using run d(1) by simp_all
  have new: "r_rule s a = None" "r_rule s2 = (r_rule s)(a \<mapsto> x)" "re_rule x = rule_of_new e r" "re_ipacm x = user"
    "r_tbl s2 = (r_tbl s)(t \<mapsto> tb\<lparr>rt_rules := ins_end at_rear (rt_rules tb) a, rt_rule_cnt := rt_rule_cnt tb + 1\<rparr>)"
    using d(4) by (simp_all add: rule_added_def)
  note v = rt_invD [OF inv]
  have dist: "distinct (tbl_list s ip')" for ip' using v(6) by (simp add: tbls_ok_def)
  have same: "view_of s2 u = view_of s u" if u: "u \<in> set (tbl_list s ip')" "u \<noteq> t" for u ip'
  proof (rule view_of_cong)
    obtain tbu where tbu: "r_tbl s u = Some tbu" using v(3) [OF u(1)] by blast
    then show "r_tbl s u \<noteq> None" "r_tbl s2 u = r_tbl s u" using u(2) by (simp_all add: new(5))
    fix tb0 b assume "r_tbl s u = Some tb0" "b \<in> set (rt_rules tb0)"
    then show "r_rule s2 b = r_rule s b" using rules_bounds [OF inv u(1)] new(1,2) by fastforce
  qed
  have item: "item_of s2 a = (i, rule_of_new e r, user)" by (simp add: item_of_def new d(5))
  have ins: "map (item_of s2) (ins_end at_rear (rt_rules tb) a) =
      (if at_rear then map (item_of s) (rt_rules tb) @ [(i, rule_of_new e r, user)] else (i, rule_of_new e r, user) # map (item_of s) (rt_rules tb))"
    if live: "\<And>b. b \<in> set (rt_rules tb) \<Longrightarrow> r_rule s b \<noteq> None"
  proof -
    have "a \<notin> set (rt_rules tb)" using live new(1) by blast
    then have "map (item_of s2) (rt_rules tb) = map (item_of s) (rt_rules tb)"
      by (intro map_cong [OF refl]) (auto simp: item_of_def new(2))
    then show ?thesis by (simp add: ins_end_def item)
  qed
  have "rt_abs s2 ip' = ((rt_abs s)(ip := spec_insert name at_rear (i, rule_of_new e r, user) (rt_abs s ip))) ip'" for ip'
  proof (cases "t \<in> set (tbl_list s ip)")
    case True
    then have f: "ipa3_find_rt_tbl e ip name s = Some (Some t)" "r_tbl s t = Some tb" "rt_name tb = name" "tbl_list s2 = tbl_list s"
      using d(3) by (simp_all add: tbl_for_def)
    have "find_tbl name (tbl_list s ip) s = Some (Some t)" using f(1) name by (simp add: ipa3_find_rt_tbl_def)
    note ff = find_first [OF this live_tbl_not_freed [OF inv]]
    have "spec_add name at_rear (i, rule_of_new e r, user) (map (view_of s) (tbl_list s ip)) =
        Some (map ((view_of s)(t := put_item at_rear (i, rule_of_new e r, user) (view_of s t))) (tbl_list s ip))"
    proof (rule spec_add_map [OF dist True])
      show "vw_name (view_of s t) = name" by (simp add: view_of_def Let_def f)
      fix u assume u: "u \<in> set (takeWhile (\<lambda>u. u \<noteq> t) (tbl_list s ip))"
      then have "u \<in> set (tbl_list s ip)" by (rule set_takeWhileD [THEN conjunct1])
      then show "vw_name (view_of s u) \<noteq> name" using ff [OF _ u] v(3) [of u ip] by (auto simp: view_of_def Let_def)
    qed
    moreover have "view_of s2 t = put_item at_rear (i, rule_of_new e r, user) (view_of s t)"
      using ins rules_bounds [OF inv True f(2)] by (force simp: view_of_def put_item_def Let_def new(5) f(2))
    ultimately have "spec_insert name at_rear (i, rule_of_new e r, user) (rt_abs s ip) = rt_abs s2 ip"
      using same [of _ ip] by (simp add: spec_insert_def rt_abs_def f(4))
    moreover have "rt_abs s2 ip' = rt_abs s ip'" if "ip' \<noteq> ip"
    proof -
      have "t \<notin> set (tbl_list s ip')" using tbl_in_one_list(1) [OF inv True, of ip'] that by simp
      then show ?thesis unfolding rt_abs_def f(4) by (intro map_cong [OF refl]) (use same [of _ ip'] in blast)
    qed
    ultimately show ?thesis by simp
  next
    case False
    then have f: "ipa3_find_rt_tbl e ip name s = Some None" "r_tbl s t = None" "rt_name tb = strlcpy (e_name_max (x_hdr e)) name" "rt_rules tb = []"
      "rt_rule_cnt tb = 0" "rt_ref_cnt tb = 0" "tbl_list s2 = (tbl_list s)(ip := t # tbl_list s ip)"
      using d(3) by (simp_all add: tbl_for_def)
    have out: "t \<notin> set (tbl_list s ip')" for ip' using v(3) [of t ip'] f(2) by auto
    have abs: "map (view_of s2) (tbl_list s ip') = map (view_of s) (tbl_list s ip')" for ip'
      by (rule map_cong [OF refl]) (use same [of _ ip'] out [of ip'] in blast)
    have "vw_name (view_of s u) \<noteq> name" if u: "u \<in> set (tbl_list s ip)" for u
    proof (rule find_rt_tbl_ok [OF inv, of ip name])
      assume "length name < e_name_max (x_hdr e) \<Longrightarrow> \<forall>t \<in> set (tbl_list s ip). map_option rt_name (r_tbl s t) \<noteq> Some name"
      then show ?thesis using name u v(3) [OF u] by (auto simp: view_of_def Let_def)
    qed (use f(1) in simp)
    then have "spec_add name at_rear (i, rule_of_new e r, user) (map (view_of s) (tbl_list s ip)) = None" by (rule spec_add_none)
    moreover have "view_of s2 t = \<lparr>vw_name = name, vw_cnt = 1, vw_ref = 0, vw_rules = [(i, rule_of_new e r, user)]\<rparr>"
      using ins name f by (simp add: view_of_def Let_def new(5) strlcpy_short)
    ultimately show ?thesis by (simp add: rt_abs_def f(7) abs spec_insert_def)
  qed
  then show ?thesis using s2 by (auto simp: fun_eq_iff)
qed

lemma commit_refines:
  assumes safe: "rt_safe e s" and run: "commit_rt_v3 e ip s = Some (r, s')"
  shows "rt_abs s' = rt_abs s"
proof
  fix ip'
  have c: "committed s s'" using commit_rt_ok [OF rt_safeD [OF safe], of ip] run by auto
  have "item_of s' a = item_of s a" if a: "r_rule s a \<noteq> None" for a
  proof -
    have "rel_option (\<lambda>x x'. \<exists>n p. x' = x\<lparr>re_hw_len := n, re_prio := p\<rparr>) (r_rule s a) (r_rule s' a)"
      using c by (simp add: committed_def rules_noted_def)
    then show ?thesis using a by (auto simp: item_of_def Let_def option_rel_Some1)
  qed
  note item = this
  have "view_of s' t = view_of s t" if t: "t \<in> set (tbl_list s ip')" for t
  proof -
    obtain tb where tb: "r_tbl s t = Some tb" using rt_invD(3) [OF rt_safeD(1) [OF safe] t] by blast
    then obtain sz q p where tb': "r_tbl s' t = Some (tb\<lparr>rt_sz := sz, rt_curr := q, rt_prev := p\<rparr>)" using c t unfolding committed_def by blast
    have "map (item_of s') (rt_rules tb) = map (item_of s) (rt_rules tb)"
      by (rule map_cong [OF refl]) (use item rules_bounds [OF rt_safeD(1) [OF safe] t tb] in fastforce)
    then show ?thesis using tb tb' by (simp add: view_of_def Let_def)
  qed
  moreover have "tbl_list s' = tbl_list s" using c by (simp add: committed_def)
  ultimately show "rt_abs s' ip' = rt_abs s ip'" by (simp add: rt_abs_def)
qed

text \<open>A refused rule may leave its table behind, empty, but no rule.\<close>

lemma refused_insert:
  assumes inv: "rt_inv e s" and cfg: "good_cfg e" and may: "may_add_rule e ip name r s"
    and run: "add_rt_rule e ip name r at_rear rid user s = Some (rc, hdl, s')" "rc \<noteq> OK"
  shows "concat (map vw_rules (rt_abs s' ip')) = concat (map vw_rules (rt_abs s ip'))"
proof (rule add_rt_rule_ok [OF inv cfg may, of at_rear rid user])
  fix s2 assume d: "add_rt_rule e ip name r at_rear rid user s = Some (Err EPERM, None, s2)" "r_rule s2 = r_rule s"
    "rt_same s s2 \<or> (\<exists>t tb n. tbl_for e ip name t tb s s2 \<and> r_tbl s2 = (r_tbl s)(t \<mapsto> tb\<lparr>rt_rule_cnt := n\<rparr>))"
  have s2: "s' = s2" using run d(1) by simp
  have item: "item_of s2 = item_of s" by (rule ext) (simp add: item_of_def d(2))
  have "concat (map vw_rules (rt_abs s2 ip')) = concat (map vw_rules (rt_abs s ip'))"
  proof (cases "rt_same s s2")
    case True
    then have "view_of s2 = view_of s" by (intro ext) (simp add: view_of_def item rt_same_def)
    then show ?thesis using True by (simp add: rt_abs_def rt_same_def)
  next
    case False
    then obtain t tb n where t: "tbl_for e ip name t tb s s2" "r_tbl s2 = (r_tbl s)(t \<mapsto> tb\<lparr>rt_rule_cnt := n\<rparr>)" using d(3) by blast
    have old: "vw_rules (view_of s2 u) = vw_rules (view_of s u)" if "u \<in> set (tbl_list s ip'')" for u ip''
    proof (cases "u = t")
      case True
      then have "r_tbl s t = Some tb" using t(1) rt_invD(3) [OF inv that] by (auto simp: tbl_for_def split: if_splits)
      then show ?thesis using True by (simp add: view_of_def t(2) item Let_def)
    qed (simp add: view_of_def t(2) item)
    then have "map (\<lambda>u. vw_rules (view_of s2 u)) (tbl_list s ip') = map (\<lambda>u. vw_rules (view_of s u)) (tbl_list s ip')" by (rule map_cong [OF refl])
    then have eq: "concat (map (\<lambda>u. vw_rules (view_of s2 u)) (tbl_list s ip')) = concat (map (\<lambda>u. vw_rules (view_of s u)) (tbl_list s ip'))" by (rule arg_cong)
    have "vw_rules (view_of s2 t) = []" if "t \<notin> set (tbl_list s ip)" using t that by (simp add: tbl_for_def view_of_def Let_def)
    then show ?thesis using t(1) eq by (cases "ip' = ip") (simp_all add: rt_abs_def comp_def tbl_for_def split: if_splits)
  qed
  then show ?thesis using s2 by simp
qed (use run in simp)

text \<open>The edits of the tables, in the code and on the abstract tables.\<close>

datatype rt_edit =
    Insert ip_type string rt_rule bool nat bool
  | Delete nat
  | Modify nat rt_rule
  | Commit ip_type

fun edit_run :: "rt_env \<Rightarrow> rt_edit \<Rightarrow> rt_db \<Rightarrow> (rc \<times> nat option \<times> rt_db) option" where
  "edit_run e (Insert ip name r at_rear rid user) s = add_rt_rule e ip name r at_rear rid user s"
| "edit_run e (Delete hdl) s = do { (rc, s') \<leftarrow> del_rt_rule e hdl s; Some (rc, None, s') }"
| "edit_run e (Modify hdl r) s = do { (rc, s') \<leftarrow> mdfy_rt_rule e hdl r s; Some (rc, None, s') }"
| "edit_run e (Commit ip) s = do { (rc, s') \<leftarrow> commit_rt_v3 e ip s; Some (rc, None, s') }"

fun edit_may :: "rt_env \<Rightarrow> rt_edit \<Rightarrow> rt_db \<Rightarrow> bool" where
  "edit_may e (Insert ip name r at_rear rid user) s = (may_add_rule e ip name r s \<and> length name < e_name_max (x_hdr e))"
| "edit_may e (Modify hdl r) s = may_mdfy_rule hdl r s"
| "edit_may e ed s = True"

fun edit_spec :: "rt_env \<Rightarrow> rt_edit \<Rightarrow> nat option \<Rightarrow> (ip_type \<Rightarrow> rt_view list) \<Rightarrow> ip_type \<Rightarrow> rt_view list" where
  "edit_spec e (Insert ip name r at_rear rid user) hdl A = A(ip := spec_insert name at_rear (the hdl, rule_of_new e r, user) (A ip))"
| "edit_spec e (Delete h) hdl A = spec_delete h \<circ> A"
| "edit_spec e (Modify h r) hdl A = spec_modify h r \<circ> A"
| "edit_spec e (Commit ip) hdl A = A"



section \<open>Adding and deleting\<close>

lemma commit_ctx_ref:
  assumes "commit_frame d d'"
  shows "map_option c_ref (db_ctx d' c) = map_option c_ref (db_ctx d c)"
proof (cases "db_ctx d c")
  case None
  moreover have "dom (db_ctx d') = dom (db_ctx d)" using assms by (simp add: commit_frame_def)
  ultimately have "db_ctx d' c = None" by (metis domIff)
  then show ?thesis using None by simp
next
  case (Some x)
  then obtain lp where "db_ctx d' c = Some (x\<lparr>c_l2tp := lp\<rparr>)" using assms unfolding commit_frame_def by blast
  then show ?thesis using Some by simp
qed

lemma release_shared_hdr:
  assumes inv: "hdr_inv d" and h: "db_hdr d h = Some he" "1 < h_ref he" and users: "card (hdr_users {} d h he) < unat (h_ref he)"
    and rel: "release_target e' (PHdr h) d = Some d'"
  shows "db_hdr d' = (db_hdr d)(h \<mapsto> he\<lparr>h_ref := h_ref he - 1\<rparr>)" "map_option c_ref (db_ctx d' c) = map_option c_ref (db_ctx d c)"
proof -
  have i: "hdr_inv_in {} {} d" using inv by (simp add: hdr_inv_def)
  note id = store_handle(1) [OF inv h(1)] and by_hdl = store_handle(3) [OF inv h(1)]
  have may: "may_del_hdr {} (h_id he) False d" using h id users by (auto simp: may_del_hdr_def)
  have ref1: "h_ref he \<noteq> 1" using h(2) by auto
  have "\<exists>d1. del_hdr (h_id he) False d = Some (OK, d1) \<and> hdr_inv d1 \<and> d1 = d\<lparr>db_hdr := (db_hdr d)(h \<mapsto> he\<lparr>h_ref := h_ref he - 1\<rparr>)\<rparr>"
  proof (rule del_hdr_ok [OF i may])
    fix err assume "del_hdr (h_id he) False d = Some (Err err, d)"
    then have False using h(1) by_hdl hdr_inv_inD(6) [OF i h(1)]
      by (auto simp: del_hdr_def hdr_drop_def Let_def hdr_shape_def bind_eq_Some_conv split: if_splits)
    then show ?thesis ..
  next
    fix a h0 d1 assume d: "del_hdr (h_id he) False d = Some (OK, d1)" "hdr_inv_in {} {} d1" "db_hdr d a = Some h0"
      "ipa3_id_find (h_id he) (db_idr d) = Some (PHdr a)" "hdr_dropped d a h0 False d1"
    then have "a = h" "h0 = he" using id h(1) by simp_all
    then show ?thesis using d ref1 by (simp add: hdr_dropped_def hdr_inv_def)
  qed
  then obtain d1 where d1: "del_hdr (h_id he) False d = Some (OK, d1)" "hdr_inv d1" "d1 = d\<lparr>db_hdr := (db_hdr d)(h \<mapsto> he\<lparr>h_ref := h_ref he - 1\<rparr>)\<rparr>" by blast
  have live: "\<not> ipa3_check_idr_if_freed (PHdr h) (db_idr d)" by (rule live_not_freed [OF inv]) (simp add: store_live_def h)
  show "db_hdr d' = (db_hdr d)(h \<mapsto> he\<lparr>h_ref := h_ref he - 1\<rparr>)" "map_option c_ref (db_ctx d' c) = map_option c_ref (db_ctx d c)"
  proof (atomize (full), rule commit_ok [OF d1(2), of e'])
    fix r d2 assume c: "commit_hdr_v3_0 e' d1 = Some (r, d2)" "commit_frame d1 d2"
    have "d' = d2" using rel live h(1) d1(1) c(1) by (simp add: release_target_def ipa3_release_hdr_def)
    moreover note commit_ctx_ref [OF c(2), of c]
    ultimately show "db_hdr d' = (db_hdr d)(h \<mapsto> he\<lparr>h_ref := h_ref he - 1\<rparr>) \<and> map_option c_ref (db_ctx d' c) = map_option c_ref (db_ctx d c)"
      using c(2) d1(3) by (simp add: commit_frame_def)
  qed
qed

lemma release_shared_ctx:
  assumes inv: "hdr_inv d" and x: "db_ctx d c = Some x" "1 < c_ref x" and own: "\<And>h he. db_hdr d h = Some he \<Longrightarrow> h_ctx he \<noteq> Some c"
    and rel: "release_target e' (PCtx c) d = Some d'"
  shows "db_hdr d' = db_hdr d" "map_option c_ref (db_ctx d' b) = (if b = c then Some (c_ref x - 1) else map_option c_ref (db_ctx d b))"
proof -
  have i: "hdr_inv_in {} {} d" using inv by (simp add: hdr_inv_def)
  note id = store_handle(2) [OF inv x(1)] and by_hdl = store_handle(4) [OF inv x(1)]
  have may: "may_del_ctx (c_id x) d" using id own by (auto simp: may_del_ctx_def)
  have ref1: "c_ref x \<noteq> 1" using x(2) by auto
  have "\<exists>d1. del_hdr_proc_ctx (c_id x) True False d = Some (OK, d1) \<and> hdr_inv d1 \<and> d1 = d\<lparr>db_ctx := (db_ctx d)(c \<mapsto> x\<lparr>c_ref := c_ref x - 1\<rparr>)\<rparr>"
  proof (rule del_ctx_ok [OF inv may, of False])
    fix err assume "del_hdr_proc_ctx (c_id x) True False d = Some (Err err, d)"
    then have False using x(1) by_hdl hdr_inv_inD(8) [OF i x(1)]
      by (auto simp: del_hdr_proc_ctx_def del_ctx_with_def Let_def ctx_shape_def bind_eq_Some_conv split: if_splits)
    then show ?thesis ..
  next
    fix a y d1 assume d: "del_hdr_proc_ctx (c_id x) True False d = Some (OK, d1)" "hdr_inv d1" "db_ctx d a = Some y"
      "ipa3_id_find (c_id x) (db_idr d) = Some (PCtx a)" "ctx_dropped d a y False d1"
    then have "a = c" "y = x" using id x(1) by simp_all
    then show ?thesis using d ref1 by (simp add: ctx_dropped_def Let_def)
  qed
  then obtain d1 where d1: "del_hdr_proc_ctx (c_id x) True False d = Some (OK, d1)" "hdr_inv d1"
    "d1 = d\<lparr>db_ctx := (db_ctx d)(c \<mapsto> x\<lparr>c_ref := c_ref x - 1\<rparr>)\<rparr>" by blast
  have live: "\<not> ipa3_check_idr_if_freed (PCtx c) (db_idr d)" by (rule live_not_freed [OF inv]) (simp add: store_live_def x)
  show "db_hdr d' = db_hdr d" "map_option c_ref (db_ctx d' b) = (if b = c then Some (c_ref x - 1) else map_option c_ref (db_ctx d b))"
  proof (atomize (full), rule commit_ok [OF d1(2), of e'])
    fix r d2 assume k: "commit_hdr_v3_0 e' d1 = Some (r, d2)" "commit_frame d1 d2"
    have "d' = d2" using rel live x(1) d1(1) k(1) by (simp add: release_target_def ipa3_release_hdr_proc_ctx_def)
    moreover note commit_ctx_ref [OF k(2), of b]
    ultimately show "db_hdr d' = db_hdr d \<and> map_option c_ref (db_ctx d' b) = (if b = c then Some (c_ref x - 1) else map_option c_ref (db_ctx d b))"
      using k(2) d1(3) by (simp add: commit_frame_def)
  qed
qed

text \<open>What a new rule took, its deletion gives back.\<close>

lemma taken_released:
  assumes d: "hdr_inv d" and own: "\<And>a h he. op = Some (PCtx a) \<Longrightarrow> db_hdr d1 h = Some he \<Longrightarrow> h_ctx he \<noteq> Some a" and d1: "hdr_inv d1" and taken: "hdrs_taken op d d1"
    and rel: "with_opt (release_target e') op d1 = Some d'"
  shows "db_hdr d' = db_hdr d" "map_option c_ref (db_ctx d' c) = map_option c_ref (db_ctx d c)"
proof -
  note i = d [unfolded hdr_inv_def] and i1 = d1 [unfolded hdr_inv_def]
  have "db_hdr d' = db_hdr d \<and> map_option c_ref (db_ctx d' c) = map_option c_ref (db_ctx d c)"
  proof (cases op)
    case None
    then show ?thesis using taken rel by (simp add: hdrs_taken_def with_opt_def)
  next
    case (Some p)
    show ?thesis
    proof (cases p)
      case (PHdr h)
      then obtain he where h: "db_hdr d h = Some he" "db_hdr d1 = (db_hdr d)(h \<mapsto> he\<lparr>h_ref := h_ref he + 1\<rparr>)" "db_ctx d1 = db_ctx d"
        using taken Some by (auto simp: hdrs_taken_def)
      have h1: "db_hdr d1 h = Some (he\<lparr>h_ref := h_ref he + 1\<rparr>)" using h(2) by simp
      have r: "h_ref he \<noteq> -1" "h_ref he \<noteq> 0" "card (hdr_users {} d h he) \<le> unat (h_ref he)"
        using hdr_inv_inD(7) [OF i1 h1] hdr_inv_inD(7) [OF i h(1)] by (auto simp: hdr_counts_def)
      have u: "unat (h_ref he + 1) = Suc (unat (h_ref he))" using r(1) by (simp add: unat_succ)
      have "0 < unat (h_ref he)" using r(2) by (simp add: unat_gt_0)
      then have "1 < h_ref (he\<lparr>h_ref := h_ref he + 1\<rparr>)" using u by (simp add: word_less_nat_alt)
      moreover have "card (hdr_users {} d1 h (he\<lparr>h_ref := h_ref he + 1\<rparr>)) < unat (h_ref (he\<lparr>h_ref := h_ref he + 1\<rparr>))"
        using r(3) u h(3) by (simp add: hdr_users_def)
      moreover have "release_target e' (PHdr h) d1 = Some d'" using rel Some PHdr by (simp add: with_opt_def)
      ultimately have "db_hdr d' = (db_hdr d1)(h \<mapsto> he)" "map_option c_ref (db_ctx d' c) = map_option c_ref (db_ctx d1 c)"
        using release_shared_hdr [OF d1 h1] by simp_all
      then show ?thesis using h by auto
    next
      case (PCtx a)
      then obtain y where y: "db_ctx d a = Some y" "db_ctx d1 = (db_ctx d)(a \<mapsto> y\<lparr>c_ref := c_ref y + 1\<rparr>)" "db_hdr d1 = db_hdr d"
        using taken Some by (auto simp: hdrs_taken_def)
      have y1: "db_ctx d1 a = Some (y\<lparr>c_ref := c_ref y + 1\<rparr>)" using y(2) by simp
      have r: "c_ref y \<noteq> -1" "c_ref y \<noteq> 0" using hdr_inv_inD(9) [OF i1 y1] hdr_inv_inD(9) [OF i y(1)] by (auto simp: ctx_counts_def)
      have free: "\<And>h he. db_hdr d1 h = Some he \<Longrightarrow> h_ctx he \<noteq> Some a" using own Some PCtx by blast
      have u: "unat (c_ref y + 1) = Suc (unat (c_ref y))" using r(1) by (simp add: unat_succ)
      have "0 < unat (c_ref y)" using r(2) by (simp add: unat_gt_0)
      then have g: "1 < c_ref (y\<lparr>c_ref := c_ref y + 1\<rparr>)" using u by (simp add: word_less_nat_alt)
      have rel': "release_target e' (PCtx a) d1 = Some d'" using rel Some PCtx by (simp add: with_opt_def)
      show ?thesis using release_shared_ctx [OF d1 y1 g free rel'] y by simp
    next
      case (POther k b)
      then show ?thesis using taken rel Some by (simp add: hdrs_taken_def with_opt_def release_target_def split: if_splits)
    qed
  qed
  then show "db_hdr d' = db_hdr d" "map_option c_ref (db_ctx d' c) = map_option c_ref (db_ctx d c)" by blast+
qed

lemma del_not_refused:
  assumes inv: "rt_inv e s" and a: "finds s hdl (PRule a)" "r_rule s a = Some x" "r_tbl s (re_tbl x) = Some tb"
    and keep: "\<not> (rt_name tb = x_dflt_name e' \<and> rt_rule_cnt tb = 1)"
  shows "del_rt_rule e' hdl s \<noteq> Some (Err err, s)"
proof (rule rule_lookup [OF inv, of hdl])
  fix b y assume "rule_by_handle hdl s = Some (Some b)" "finds s hdl (PRule b)"
  then have "rule_by_handle hdl s = Some (Some a)" using finds_fun [OF _ a(1)] by fastforce
  then show ?thesis using a(2,3) keep by (auto simp: del_rt_rule_def bind_eq_Some_conv)
qed (use a(1) in blast)

lemma del_dead_handle:
  assumes "rt_inv e s" "\<And>p. \<not> finds s hdl p"
  shows "del_rt_rule e' hdl s = Some (Err EINVAL, s)"
  by (rule rule_lookup [OF assms(1), of hdl]) (use assms(2) in \<open>auto simp: del_rt_rule_def\<close>)

text \<open>The tables after a rule was added and deleted again.\<close>

lemma added_gone_abs:
  assumes inv: "rt_inv e s" and at: "tbl_for e ip name t tb s s1" and x: "re_tbl x = t" and undo: "remove1 a rs = rt_rules tb"
    and tbls: "r_tbl s1 = (r_tbl s)(t \<mapsto> tb\<lparr>rt_rules := rs, rt_rule_cnt := rt_rule_cnt tb + 1\<rparr>)"
    and gone: "rule_gone a x (tb\<lparr>rt_rules := rs, rt_rule_cnt := rt_rule_cnt tb + 1\<rparr>) ip' s1 s2" and rules: "r_rule s2 = r_rule s"
    and listed: "t \<in> set (tbl_list s1 ip')" and used: "\<And>v. v \<in> set (rt_abs s ip) \<Longrightarrow> vw_name v = name \<Longrightarrow> vw_cnt v \<noteq> 0 \<or> vw_ref v \<noteq> 0"
  shows "rt_abs s2 = rt_abs s"
proof (cases "t \<in> set (tbl_list s ip)")
  case True
  then have t: "r_tbl s t = Some tb" "rt_name tb = name" "tbl_list s1 = tbl_list s" using at by (simp_all add: tbl_for_def)
  have "view_of s t \<in> set (rt_abs s ip)" using True by (simp add: rt_abs_def)
  from used [OF this] have "rt_rule_cnt tb \<noteq> 0 \<or> rt_ref_cnt tb \<noteq> 0" using t by (simp add: view_of_def)
  then have "tbl_list s2 = tbl_list s" "r_tbl s2 = (r_tbl s1)(t \<mapsto> tb)"
    using gone t(3) by (auto simp: rule_gone_def Let_def x undo)
  then have l: "tbl_list s2 = tbl_list s" "r_tbl s2 = r_tbl s" using t(1) by (auto simp: tbls)
  have "item_of s2 = item_of s" by (rule ext) (simp add: item_of_def rules)
  then have "view_of s2 = view_of s" by (intro ext) (simp add: view_of_def l(2))
  then show ?thesis using l(1) by (simp add: rt_abs_def fun_eq_iff)
next
  case False
  then have t: "r_tbl s t = None" "rt_rule_cnt tb = 0" "rt_ref_cnt tb = 0" "tbl_list s1 = (tbl_list s)(ip := t # tbl_list s ip)"
    using at by (simp_all add: tbl_for_def)
  have out: "t \<notin> set (tbl_list s p)" for p using rt_invD(3) [OF inv, of t p] t(1) by auto
  then have "ip' = ip" using listed t(4) x by (auto split: if_splits)
  then have l: "tbl_list s2 = tbl_list s" using gone t by (simp add: rule_gone_def Let_def x fun_eq_iff)
  have "view_of s2 u = view_of s u" if u: "u \<in> set (tbl_list s p)" for u p
  proof (rule view_of_cong)
    have "u \<noteq> t" using u out by blast
    then show "r_tbl s2 u = r_tbl s u" using gone by (auto simp: rule_gone_def Let_def x tbls split: if_splits)
    show "r_tbl s u \<noteq> None" using rt_invD(3) [OF inv u] by auto
  qed (simp add: rules)
  then show ?thesis by (simp add: rt_abs_def l fun_eq_iff)
qed



section \<open>Behaviours that break the promises\<close>

lemma rt_full_table_links_rule:
  assumes "rt_validate_hndls e r s = Some (Some (h, c))" "rid \<noteq> 0" "rt_validate_rule_id rid = OK" "ip \<noteq> IPA_IP_MAX"
    and t: "ipa3_find_rt_tbl e ip name s = Some (Some t)" "r_tbl s t = Some tb" "rt_cookie tb = IPA_RT_TBL_COOKIE" "rt_name tb \<noteq> x_dflt_name e"
    and full: "rt_rule_cnt tb = IPA_RULE_CNT_MAX" and "x_alloc_rule e (r_next s)"
  shows "\<exists>s'. add_rt_rule e ip name r at_rear rid user s = Some (Err EPERM, None, s') \<and>
    map_option rt_rules (r_tbl s' t) = Some (if at_rear then rt_rules tb @ [r_next s] else r_next s # rt_rules tb) \<and>
    map_option (\<lambda>x. (re_hdr x, re_ctx x, re_id x)) (r_rule s' (r_next s)) = Some (h, c, 0) \<and> hdb s' = hdb s"
  using assms by (simp add: add_rt_rule_def add_rt_tbl_def create_rt_entry_def upd_tbl_def finish_rt_rule_add_def new_rule_def Let_def)

lemma rt_full_table_links_rule_witness:
  "\<exists>s'. add_rt_rule demo_rt_env IPA_IP_v4 ''wan'' (demo_rule 1 1) True 600 True
      (demo_rt\<lparr>r_tbl := (r_tbl demo_rt)(0 \<mapsto> (the (r_tbl demo_rt 0))\<lparr>rt_rule_cnt := 512\<rparr>)\<rparr>) = Some (Err EPERM, None, s') \<and>
    map_option rt_rules (r_tbl s' 0) = Some [1, 2] \<and>
    map_option (\<lambda>x. (re_hdr x, re_ctx x, re_id x)) (r_rule s' 2) = Some (Some 2, None, 0) \<and> hdb s' = hdb demo_rt"
proof -
  let ?tb = "(new_tbl demo_rt_env IPA_IP_v4 ''wan'' 8)\<lparr>rt_rules := [1], rt_rule_cnt := 512, rt_id := 2\<rparr>"
  let ?s = "demo_rt\<lparr>r_tbl := (r_tbl demo_rt)(0 \<mapsto> (the (r_tbl demo_rt 0))\<lparr>rt_rule_cnt := 512\<rparr>)\<rparr>"
  have t: "r_tbl ?s 0 = Some ?tb" "r_next ?s = 2" "hdb ?s = hdb demo_rt" "tbl_list ?s = tbl_list demo_rt" using demo_fields(3) by (simp_all add: demo_rt_def)
  have h: "hdr_by_handle 1 (hdb demo_rt) = Some (Some 2)"
    using target_handle(1) [OF demo_rt_safe(2) demo_fields(1), of 2] by (simp add: demo_entry_of_def demo_rule_def)
  have v: "rt_validate_hndls demo_rt_env (demo_rule 1 1) ?s = Some (Some (Some 2, None))"
    unfolding rt_validate_hndls_def t(3) using h by (simp add: demo_env demo_rule_def)
  have f: "\<not> rt_freed (PTbl 0) ?s" using live_tbl_not_freed [OF demo_rt_safe(2), of 0 IPA_IP_v4] by (simp add: rt_freed_def demo_fields(2))
  then have "ipa3_find_rt_tbl demo_rt_env IPA_IP_v4 ''wan'' ?s = Some (Some 0)"
    by (simp add: ipa3_find_rt_tbl_def demo_env demo_hdr_env_def t(4) demo_fields(2,3) new_tbl_def strlcpy_def)
  from rt_full_table_links_rule [OF v _ _ _ this t(1), of 600 True True] show ?thesis
    by (simp add: t(2,3) new_tbl_def demo_env rt_validate_rule_id_def RULE_ID_BIT_LEN_def IPA_RULE_CNT_MAX_def demo_hdr_env_def strlcpy_def)
qed

text \<open>A rule whose table lost its pointer to the identifiers cannot be deleted.\<close>

lemma del_stranded:
  assumes h: "rule_by_handle hdl s = Some (Some a)" "r_rule s a = Some x" and x: "\<not> re_rule_id_valid x"
    and tb: "r_tbl s (re_tbl x) = Some tb" "\<not> rt_rule_ids tb" "rt_name tb \<noteq> x_dflt_name e"
  shows "del_rt_rule e hdl s = None"
proof -
  have "forget_gone a x s = Some (x1, s1) \<Longrightarrow> re_tbl x1 = re_tbl x \<and> \<not> re_rule_id_valid x1 \<and> r_tbl s1 = r_tbl s" for x1 s1
    using x by (auto simp: forget_gone_def bind_eq_Some_conv Let_def split: if_splits)
  moreover have "release_refs e x1 s1 = Some s2 \<Longrightarrow> r_tbl s2 = r_tbl s1" for x1 s1 s2
    by (auto simp: release_refs_def bind_eq_Some_conv split: if_splits)
  ultimately have "do { (x1, s1) \<leftarrow> forget_gone a x s; s2 \<leftarrow> release_refs e x1 s1;
       s3 \<leftarrow> upd_tbl (re_tbl x1) (\<lambda>tb. tb\<lparr>rt_rules := remove1 a (rt_rules tb), rt_rule_cnt := rt_rule_cnt tb - 1\<rparr>) s2;
       tb \<leftarrow> r_tbl s3 (re_tbl x1);
       s4 \<leftarrow> (if re_rule_id_valid x1 then Some s3 else rid_remove (re_rule_id x1) tb s3);
       f x1 tb s4 } = None" for f :: "rt_entry \<Rightarrow> rt_tbl \<Rightarrow> rt_db \<Rightarrow> (rc \<times> rt_db) option"
    using tb by (cases "forget_gone a x s") (auto simp: upd_tbl_def rid_remove_def bind_eq_None_conv split: Option.bind_splits)
  then show ?thesis using h tb by (simp add: del_rt_rule_def)
qed

text \<open>
  C38: A table that is not the default one and holds rules of user space and of the kernel is
  dropped whole by a reset of the user part: the rule of the kernel and its handle stay, though
  no table of the family is left, and deleting the rule follows the null identifier set of the
  dropped table.
\<close>

lemma rt_user_reset_strands_rules:
  assumes "rt_reachable e0 s" "good_cfg e0" "same_cfg e0 e" and t: "tbl_list s ip = [t]" "r_tbl s t = Some tb" "rt_idx tb \<noteq> x_apps_lo e ip" "rt_name tb \<noteq> x_dflt_name e"
    and u: "u \<in> set (rt_rules tb)" "r_rule s u = Some xu" "re_ipacm xu"
    and k: "k \<in> set (rt_rules tb)" "r_rule s k = Some x" "\<not> re_ipacm x" "\<not> re_rule_id_valid x"
  shows "\<exists>s'. reset_tbls e ip True (tbl_list s ip) s = Some (OK, s') \<and> tbl_list s' ip = [] \<and> r_rule s' k = Some x \<and>
    rule_by_handle (re_id x) s' = Some (Some k) \<and> del_rt_rule e (re_id x) s' = None"
proof -
  have safe: "rt_safe e s" using rt_reachable_safe [OF assms(1,2)] rt_safe_cfg [OF assms(3)] by blast
  have tl: "t \<in> set (tbl_list s ip)" by (simp add: t(1))
  have dist: "distinct (rt_rules tb)" using rt_invD(3) [OF rt_safeD(1) [OF safe] tl] t(2) by (auto simp: tbl_ok_def)
  have user: "\<exists>a \<in> set (rt_rules tb). \<exists>x. r_rule s a = Some x \<and> re_ipacm x" using u by blast
  obtain s1 rs n where r: "reset_rules e ip True t (rt_rules tb) False s = Some (Inr True, s1)" "rt_safe e s1" "tbl_list s1 = tbl_list s"
    "r_tbl s1 = (r_tbl s)(t \<mapsto> tb\<lparr>rt_rules := rs, rt_rule_cnt := n\<rparr>)" "r_rule s1 k = Some x"
    using reset_rules_ok [OF safe tl t(2) subset_refl dist, of True False] user k by (elim exE conjE) (auto simp: user)
  have inv1: "rt_inv e s1" using rt_safeD(1) [OF r(2)] .
  let ?tb1 = "tb\<lparr>rt_rules := rs, rt_rule_cnt := n\<rparr>"
  have tb1: "r_tbl s1 t = Some ?tb1" by (simp add: r(4))
  have ok1: "tbl_ok e s1 ip t ?tb1" using rt_invD(3) [OF inv1, of t ip] tl tb1 by (auto simp: r(3))
  then have f: "finds s1 (rt_id tb) (PTbl t)" "rt_in_sys tb IPA_RULE_HASHABLE" by (simp_all add: tbl_ok_def)
  have fk: "finds s1 (re_id x) (PRule k)" "re_cookie x = IPA_RT_RULE_COOKIE" "re_tbl x = t"
    using rt_invD(2) [OF inv1 r(5)] rules_bounds [OF rt_safeD(1) [OF safe] tl t(2) k(1)] k(2) by (auto simp: rule_ok_def)
  then have ne: "re_id x \<noteq> rt_id tb" using f(1) by (auto simp: finds_def IPA_RT_RULE_COOKIE_def IPA_RT_TBL_COOKIE_def)
  define s' where "s' = rt_id_remove (rt_id tb) (drop_tbl ip t ?tb1 s1)"
  have "reset_tbls e ip True (tbl_list s ip) s = Some (OK, s')"
    using r(1) tb1 f(1) t by (simp add: s'_def finds_def)
  moreover have tbs: "tbl_list s' ip = []" "r_rule s' = r_rule s1" "r_tbl s' t = Some (?tb1\<lparr>rt_rule_ids := False\<rparr>)"
      "db_idr (hdb s') = ipa3_id_remove (rt_id tb) (db_idr (hdb s1))"
    using f(2) by (simp_all add: s'_def rt_id_remove_def upd_hdb_def drop_tbl_def clear_idx_def unlink_tbl_def Let_def r(3) t(1))
  moreover have "rule_by_handle (re_id x) s' = Some (Some k)"
    using fk(1,2) ne by (simp add: rule_by_handle_def tbs(4) id_find_remove finds_def rt_cookie_of_def tbs(2) r(5))
  moreover from this have "del_rt_rule e (re_id x) s' = None"
    by (rule del_stranded [OF _ _ k(4), where tb = "?tb1\<lparr>rt_rule_ids := False\<rparr>"]) (simp_all add: tbs(2,3) r(5) fk(3) t(4))
  ultimately show ?thesis using r(5) by auto
qed

text \<open>A rule without a header, added at the end of its table.\<close>

lemma plain_add:
  assumes r: "ru_hdr_hdl r = 0" "ru_ctx_hdl r = 0" "\<not> ru_coalesce r" "\<not> ru_enable_stats r"
    and t: "add_rt_tbl e ip name s = Some (Some t, s1)" "r_tbl s1 t = Some tb" "rt_cookie tb = IPA_RT_TBL_COOKIE" "rt_name tb \<noteq> x_dflt_name e"
      "rt_rule_cnt tb < IPA_RULE_CNT_MAX" "rt_rule_ids tb" "rt_set tb = ip"
    and k: "x_alloc_rule e (r_next s1)" "x_alloc_rid e (r_next s1)" "ipa3_alloc_rule_id True (rule_ids s1 ip) = Some i"
      "ipa3_id_alloc (x_id e (PRule (r_next s1))) (PRule (r_next s1)) (db_idr (hdb s1)) = (Inr j, d)"
  shows "add_rt_rule e ip name r True 0 user s = Some (OK, Some j, s1\<lparr>hdb := (hdb s1)\<lparr>db_idr := d\<rparr>, r_next := r_next s1 + 1,
      r_rule := (r_rule s1)(r_next s1 \<mapsto> (new_rule e r t None None i False user)\<lparr>re_id := j\<rparr>),
      r_tbl := (r_tbl s1)(t \<mapsto> tb\<lparr>rt_rules := rt_rules tb @ [r_next s1], rt_rule_cnt := rt_rule_cnt tb + 1\<rparr>),
      rule_ids := (rule_ids s1)(ip := i # rule_ids s1 ip)\<rparr>)"
proof -
  have v: "rt_validate_hndls e r s = Some (Some (None, None))" using r by (simp add: rt_validate_hndls_def)
  have rid: "rt_validate_rule_id 0 = OK" by (simp add: rt_validate_rule_id_def)
  have c: "create_rt_entry e r t None None 0 user s1 = Some (Some (r_next s1), s1\<lparr>r_next := r_next s1 + 1, rule_ids := (rule_ids s1)(ip := i # rule_ids s1 ip),
      r_rule := (r_rule s1)(r_next s1 \<mapsto> new_rule e r t None None i False user)\<rparr>)"
    using t(2,6,7) k(1-3) by (simp add: create_rt_entry_def Let_def)
  show ?thesis using t(2-5) k(4) c
    by (simp add: add_rt_rule_def v rid t(1) finish_rt_rule_add_def upd_tbl_def upd_rule_def take_refs_def new_rule_def)
qed

text \<open>
  A table that is not the default one, with a rule of the user and one of the kernel. Its index is the
  second one since the index of a table that got no handle stays taken.
\<close>

definition demo_full_env :: rt_env where
  "demo_full_env = demo_rt_env\<lparr>x_id := \<lambda>p. False\<rparr>"

definition demo_leak :: rt_db where
  "demo_leak = demo_idle\<lparr>r_next := 1, rt_idx_bitmap := (rt_idx_bitmap demo_idle)(IPA_IP_v4 := 0x1FF)\<rparr>"

definition demo_made :: rt_db where
  "demo_made = demo_leak\<lparr>hdb := demo_hdrs\<lparr>db_idr := [Some (PHdr 0), Some (PHdr 2), Some (PTbl 1)]\<rparr>,
     r_next := 2, r_tbl := [1 \<mapsto> (new_tbl demo_rt_env IPA_IP_v4 ''wan'' 9)\<lparr>rt_id := 2\<rparr>],
     tbl_cnt := (\<lambda>ip. 0)(IPA_IP_v4 := 1), tbl_list := (\<lambda>ip. [])(IPA_IP_v4 := [1]),
     rt_idx_bitmap := (rt_idx_bitmap demo_idle)(IPA_IP_v4 := 0x3FF)\<rparr>"

definition demo_user_rule :: rt_entry where
  "demo_user_rule = (new_rule demo_rt_env (demo_rule 1 0) 1 None None 1 False True)\<lparr>re_id := 3\<rparr>"

definition demo_kernel_rule :: rt_entry where
  "demo_kernel_rule = (new_rule demo_rt_env (demo_rule 1 0) 1 None None 2 False False)\<lparr>re_id := 4\<rparr>"

definition demo_one :: rt_db where
  "demo_one = demo_made\<lparr>hdb := demo_hdrs\<lparr>db_idr := [Some (PHdr 0), Some (PHdr 2), Some (PTbl 1), Some (PRule 2)]\<rparr>, r_next := 3,
     r_rule := [2 \<mapsto> demo_user_rule],
     r_tbl := [1 \<mapsto> (new_tbl demo_rt_env IPA_IP_v4 ''wan'' 9)\<lparr>rt_rules := [2], rt_rule_cnt := 1, rt_id := 2\<rparr>],
     rule_ids := (rule_ids demo_made)(IPA_IP_v4 := [1])\<rparr>"

definition demo_mixed :: rt_db where
  "demo_mixed = demo_one\<lparr>hdb := demo_hdrs\<lparr>db_idr := [Some (PHdr 0), Some (PHdr 2), Some (PTbl 1), Some (PRule 2), Some (PRule 3)]\<rparr>, r_next := 4,
     r_rule := [2 \<mapsto> demo_user_rule, 3 \<mapsto> demo_kernel_rule],
     r_tbl := [1 \<mapsto> (new_tbl demo_rt_env IPA_IP_v4 ''wan'' 9)\<lparr>rt_rules := [2, 3], rt_rule_cnt := 2, rt_id := 2\<rparr>],
     rule_ids := (rule_ids demo_made)(IPA_IP_v4 := [2, 1])\<rparr>"

lemma demo_rid2: "ipa3_alloc_rule_id True [1] = Some 2"
proof -
  have "[LOW_RULE_ID..<2 ^ (RULE_ID_BIT_LEN - 1)] = 1 # 2 # [3..<512]"
    by (simp add: LOW_RULE_ID_def RULE_ID_BIT_LEN_def upt_conv_Cons [of "Suc 0" 512] upt_conv_Cons [of 2 512] numeral_2_eq_2 [symmetric])
  then show ?thesis by (simp add: ipa3_alloc_rule_id_def)
qed

lemma demo_second: "first_free_idx 0x1FF = Some 9"
proof -
  have "[0..<32] = [0, 1, 2, 3, 4, 5, 6, 7, 8, 9] @ [10..<32::nat]" by (simp add: upt_conv_Cons)
  then show ?thesis by (simp add: first_free_idx_def IPA_RT_INDEX_BITMAP_SIZE_def)
qed

lemma demo_no_tbl: "ipa3_find_rt_tbl e IPA_IP_v4 ''wan'' demo_idle = Some None" "ipa3_find_rt_tbl e IPA_IP_v4 ''wan'' demo_leak = Some None"
  by (simp_all add: ipa3_find_rt_tbl_def demo_leak_def demo_idle_eq rt_zero_def)

lemma demo_idle_fields:
  "r_next demo_idle = 0" "rt_idx_bitmap demo_idle IPA_IP_v4 = 0xFF" "tbl_list demo_idle = (\<lambda>ip. [])" "tbl_cnt demo_idle = (\<lambda>ip. 0)"
  "rule_ids demo_idle = (\<lambda>ip. [])" "r_tbl demo_idle = Map.empty" "r_rule demo_idle = Map.empty" "hdb demo_idle = demo_hdrs"
  by (simp_all add: demo_idle_eq rt_zero_def)

lemma demo_full_tbl: "add_rt_tbl demo_full_env IPA_IP_v4 ''wan'' demo_idle = Some (None, demo_leak)"
proof -
  have e: "x_alloc_tbl demo_full_env = (\<lambda>a. True)" "x_id demo_full_env = (\<lambda>p. False)" "x_modem_hi demo_full_env = (\<lambda>ip. 7)" "x_apps_hi demo_full_env = (\<lambda>ip. 14)"
    by (simp_all add: demo_full_env_def demo_env)
  show ?thesis
    by (simp add: add_rt_tbl_def demo_no_tbl e Let_def demo_idle_fields demo_first set_idx_def bit_of_def ipa3_id_alloc_def)
       (simp add: demo_leak_def demo_idle_eq rt_zero_def fun_upd_idem_iff)
qed

lemma demo_second_tbl: "add_rt_tbl demo_rt_env IPA_IP_v4 ''wan'' demo_leak = Some (Some 1, demo_made)"
proof -
  have l: "r_next demo_leak = 1" "rt_idx_bitmap demo_leak IPA_IP_v4 = 0x1FF" by (simp_all add: demo_leak_def)
  show ?thesis
    by (simp add: add_rt_tbl_def demo_no_tbl demo_env Let_def l demo_second set_idx_def bit_of_def)
       (simp add: demo_made_def demo_leak_def demo_idle_eq rt_zero_def ipa3_id_alloc_def demo_hdrs_def demo_hdr_env_def numeral_2_eq_2)
qed

lemma demo_plain:
  "ru_hdr_hdl (demo_rule 1 0) = 0" "ru_ctx_hdl (demo_rule 1 0) = 0" "\<not> ru_coalesce (demo_rule 1 0)" "\<not> ru_enable_stats (demo_rule 1 0)"
  by (simp_all add: demo_rule_def)

lemma demo_wan: "rt_name (new_tbl demo_rt_env IPA_IP_v4 ''wan'' i) = ''wan''" "x_dflt_name demo_rt_env = ''dflt''" "cut_name demo_full_env ''wan'' = ''wan''"
    "norm_rule demo_full_env r = r" "e_name_max (x_hdr demo_rt_env) > 3" "same_cfg demo_rt_env demo_full_env"
  using demo_cfg(2) by (simp_all add: new_tbl_def demo_env demo_hdr_env_def strlcpy_def cut_name_def demo_full_env_def norm_rule_def same_cfg_def good_cfg_def)

lemma demo_add_user: "add_rt_rule demo_rt_env IPA_IP_v4 ''wan'' (demo_rule 1 0) True 0 True demo_leak = Some (OK, Some 3, demo_one)"
proof -
  let ?tb = "(new_tbl demo_rt_env IPA_IP_v4 ''wan'' 9)\<lparr>rt_id := 2\<rparr>"
  have f: "r_tbl demo_made 1 = Some ?tb" "r_next demo_made = 2" "rule_ids demo_made IPA_IP_v4 = []"
      "db_idr (hdb demo_made) = [Some (PHdr 0), Some (PHdr 2), Some (PTbl 1)]" "r_rule demo_made = Map.empty"
    by (simp_all add: demo_made_def demo_leak_def demo_idle_fields)
  have tb: "rt_cookie ?tb = IPA_RT_TBL_COOKIE" "rt_name ?tb \<noteq> x_dflt_name demo_rt_env" "rt_rule_cnt ?tb < IPA_RULE_CNT_MAX" "rt_rule_ids ?tb"
      "rt_set ?tb = IPA_IP_v4" "rt_rules ?tb = []" "rt_rule_cnt ?tb = 0"
    using demo_wan(1) [of 9] by (simp_all add: demo_wan(2) new_tbl_def IPA_RULE_CNT_MAX_def)
  have "ipa3_id_alloc (x_id demo_rt_env (PRule (r_next demo_made))) (PRule (r_next demo_made)) (db_idr (hdb demo_made)) =
      (Inr 3, [Some (PHdr 0), Some (PHdr 2), Some (PTbl 1), Some (PRule 2)])"
    by (simp add: f ipa3_id_alloc_def demo_env numeral_3_eq_3)
  note plain_add [OF demo_plain demo_second_tbl f(1) tb(1-5) _ _ _ this, of 1 True]
  then show ?thesis
    by (simp del: One_nat_def add: f tb demo_rid demo_env)
       (simp add: demo_one_def demo_made_def demo_user_rule_def fun_eq_iff)
qed

lemma demo_find: "ipa3_find_rt_tbl demo_rt_env IPA_IP_v4 ''wan'' demo_one = Some (Some 1)"
  using demo_wan(1) [of 9] demo_wan(5)
  by (simp add: ipa3_find_rt_tbl_def demo_one_def demo_made_def rt_freed_def check_idr_if_freed ipa3_id_find_def)
     (rule exI [of _ 2], simp)

lemma demo_add_kernel: "add_rt_rule demo_rt_env IPA_IP_v4 ''wan'' (demo_rule 1 0) True 0 False demo_one = Some (OK, Some 4, demo_mixed)"
proof -
  let ?tb = "(new_tbl demo_rt_env IPA_IP_v4 ''wan'' 9)\<lparr>rt_rules := [2], rt_rule_cnt := 1, rt_id := 2\<rparr>"
  have at: "add_rt_tbl demo_rt_env IPA_IP_v4 ''wan'' demo_one = Some (Some 1, demo_one)" using demo_find by (simp add: add_rt_tbl_def)
  have f: "r_tbl demo_one 1 = Some ?tb" "r_next demo_one = 3" "rule_ids demo_one IPA_IP_v4 = [1]"
      "db_idr (hdb demo_one) = [Some (PHdr 0), Some (PHdr 2), Some (PTbl 1), Some (PRule 2)]"
    by (simp_all add: demo_one_def)
  have tb: "rt_cookie ?tb = IPA_RT_TBL_COOKIE" "rt_name ?tb \<noteq> x_dflt_name demo_rt_env" "rt_rule_cnt ?tb < IPA_RULE_CNT_MAX" "rt_rule_ids ?tb"
      "rt_set ?tb = IPA_IP_v4" "rt_rules ?tb = [2]" "rt_rule_cnt ?tb = 1"
    using demo_wan(1) [of 9] by (simp_all add: demo_wan(2) new_tbl_def IPA_RULE_CNT_MAX_def)
  have "ipa3_id_alloc (x_id demo_rt_env (PRule (r_next demo_one))) (PRule (r_next demo_one)) (db_idr (hdb demo_one)) =
      (Inr 4, [Some (PHdr 0), Some (PHdr 2), Some (PTbl 1), Some (PRule 2), Some (PRule 3)])"
    by (simp add: f ipa3_id_alloc_def demo_env)
  note plain_add [OF demo_plain at f(1) tb(1-5) _ _ _ this, of 2 False]
  then show ?thesis
    by (simp del: One_nat_def add: f tb demo_rid2 demo_env)
       (simp add: demo_mixed_def demo_one_def demo_kernel_rule_def fun_eq_iff)
qed

definition demo_call :: "bool \<Rightarrow> rt_call" where
  "demo_call user = AddRt True IPA_IP_v4 ''wan'' (Some [\<lparr>ad_rule = demo_rule 1 0, ad_rear = True, ad_rule_id = 0\<rparr>]) False user"

lemma demo_call_run:
  assumes "add_rt_rule e IPA_IP_v4 ''wan'' (demo_rule 1 0) True 0 user s = Some (r, hdl, s')" "cut_name e ''wan'' = ''wan''" "\<And>r. norm_rule e r = r"
  shows "rt_run e (demo_call user) s = Some (OK, s')"
  using assms by (simp del: One_nat_def add: demo_call_def ipa3_add_rt_rule_usr_v2_def add_call_def mid_def finish_rt_def)

lemma demo_call_may:
  assumes "tbl_room e IPA_IP_v4 ''wan'' s" "good_cfg e" "cut_name e ''wan'' = ''wan''" "\<And>r. norm_rule e r = r"
  shows "rt_may e (demo_call user) s"
proof -
  have "target_room (demo_rule 1 0) s" by (simp add: target_room_def named_target_def demo_rule_def)
  then have "may_add_rule e IPA_IP_v4 ''wan'' (demo_rule 1 0) s" using assms(1) by (simp add: may_add_rule_def)
  then show ?thesis using assms(2-) by (simp del: One_nat_def add: demo_call_def ver_rule_def may_add_def split: option.split)
qed

lemma demo_one_reachable: "rt_reachable demo_rt_env demo_one"
proof -
  have cfg: "good_cfg demo_full_env" using demo_wan(6) by (simp add: same_cfg_def)
  have "rt_validate_hndls demo_full_env (demo_rule 1 0) demo_idle = Some (Some (None, None))" "rt_validate_rule_id 0 = OK"
    by (simp_all add: rt_validate_hndls_def demo_rule_def demo_full_env_def demo_env rt_validate_rule_id_def)
  then have "add_rt_rule demo_full_env IPA_IP_v4 ''wan'' (demo_rule 1 0) True 0 True demo_idle = Some (Err EPERM, None, demo_leak)"
    by (simp add: add_rt_rule_def demo_full_tbl)
  note run = demo_call_run [OF this demo_wan(3,4)]
  have "tbl_room demo_full_env IPA_IP_v4 ''wan'' demo_idle" by (simp add: tbl_room_def demo_no_tbl)
  from rt_reachable.call [OF demo_idle_reachable demo_wan(6) demo_call_may [OF this cfg demo_wan(3,4)] run]
  have r1: "rt_reachable demo_rt_env demo_leak" .
  have "tbl_room demo_rt_env IPA_IP_v4 ''wan'' demo_leak" by (simp add: tbl_room_def demo_no_tbl)
  from rt_reachable.call [OF r1 demo_cfg(2) demo_call_may [OF this demo_cfg(1) demo_cut demo_norm(1)] demo_call_run [OF demo_add_user demo_cut demo_norm(1)]]
  show ?thesis .
qed

lemma demo_mixed_reachable: "rt_reachable demo_rt_env demo_mixed"
proof -
  have "tbl_room demo_rt_env IPA_IP_v4 ''wan'' demo_one" by (simp add: tbl_room_def demo_find) (simp add: demo_one_def IPA_RULE_CNT_MAX_def)
  from rt_reachable.call [OF demo_one_reachable demo_cfg(2) demo_call_may [OF this demo_cfg(1) demo_cut demo_norm(1)] demo_call_run [OF demo_add_kernel demo_cut demo_norm(1)]]
  show ?thesis .
qed

lemma rt_user_reset_strands_rules_witness:
  "\<exists>s'. reset_tbls demo_rt_env IPA_IP_v4 True [1] demo_mixed = Some (OK, s') \<and> tbl_list s' IPA_IP_v4 = [] \<and> r_rule s' 3 = Some demo_kernel_rule \<and>
    rule_by_handle 4 s' = Some (Some 3) \<and> del_rt_rule demo_rt_env 4 s' = None"
proof -
  let ?tb = "(new_tbl demo_rt_env IPA_IP_v4 ''wan'' 9)\<lparr>rt_rules := [2, 3], rt_rule_cnt := 2, rt_id := 2\<rparr>"
  have f: "tbl_list demo_mixed IPA_IP_v4 = [1]" "r_tbl demo_mixed 1 = Some ?tb" "r_rule demo_mixed 2 = Some demo_user_rule" "r_rule demo_mixed 3 = Some demo_kernel_rule"
    by (simp_all add: demo_mixed_def demo_one_def demo_made_def)
  have side: "rt_idx ?tb \<noteq> x_apps_lo demo_rt_env IPA_IP_v4" "rt_name ?tb \<noteq> x_dflt_name demo_rt_env" "2 \<in> set (rt_rules ?tb)" "3 \<in> set (rt_rules ?tb)"
    using demo_wan(1) [of 9] by (simp_all add: demo_wan(2) demo_env(9)) (simp add: new_tbl_def)
  have rules: "re_ipacm demo_user_rule" "\<not> re_ipacm demo_kernel_rule" "\<not> re_rule_id_valid demo_kernel_rule" "re_id demo_kernel_rule = 4"
    by (simp_all add: demo_user_rule_def demo_kernel_rule_def new_rule_def)
  show ?thesis
    using rt_user_reset_strands_rules [OF demo_mixed_reachable demo_cfg f(1,2) side(1-3) f(3) rules(1) side(4) f(4) rules(2,3)] unfolding f(1) rules(4) .
qed

text \<open>What a full reset does with one table: its rules go, and it goes itself unless it is the default one.\<close>

lemma reset_one_tbl:
  assumes safe: "rt_safe e s" and t: "t \<in> set (tbl_list s ip)" "r_tbl s t = Some tb"
  shows "\<exists>s2. reset_tbls e ip False (t # ts) s = reset_tbls e ip False ts s2 \<and> rt_safe e s2 \<and>
    tbl_list s2 ip = (if rt_idx tb = x_apps_lo e ip then tbl_list s ip else remove1 t (tbl_list s ip)) \<and>
    (\<forall>v. map_option rt_idx (r_tbl s2 v) = map_option rt_idx (r_tbl s v))"
proof -
  have tok: "tbl_ok e s ip t tb" using rt_invD(3) [OF rt_safeD(1) [OF safe] t(1)] t(2) by auto
  then have dist: "distinct (rt_rules tb)" by (simp add: tbl_ok_def)
  obtain s1 rs n tu where s1: "reset_rules e ip False t (rt_rules tb) False s = Some (Inr tu, s1)" "rt_safe e s1" "tbl_list s1 = tbl_list s"
    "r_tbl s1 = (r_tbl s)(t \<mapsto> tb\<lparr>rt_rules := rs, rt_rule_cnt := n\<rparr>)" "set rs \<subseteq> set (rt_rules tb)"
    "rt_idx tb \<noteq> x_apps_lo e ip \<longrightarrow> set rs \<inter> {a \<in> set (rt_rules tb). False \<longrightarrow> (\<exists>x. r_rule s a = Some x \<and> re_ipacm x)} = {}"
    using reset_rules_ok [OF safe t subset_refl dist, of False False] by (elim exE conjE) (rule that)
  define tb1 where "tb1 = tb\<lparr>rt_rules := rs, rt_rule_cnt := n\<rparr>"
  have t1: "t \<in> set (tbl_list s1 ip)" "r_tbl s1 t = Some tb1" using t s1(3,4) by (simp_all add: tb1_def)
  have tok1: "tbl_ok e s1 ip t tb1" using rt_invD(3) [OF rt_safeD(1) [OF s1(2)] t1(1)] t1(2) by auto
  have id: "ipa3_id_find (rt_id tb1) (db_idr (hdb s1)) \<noteq> None" using tok1 by (simp add: tbl_ok_def finds_def)
  have idx1: "map_option rt_idx (r_tbl s1 v) = map_option rt_idx (r_tbl s v)" for v using t(2) by (simp add: s1(4))
  show ?thesis
  proof (cases "rt_idx tb = x_apps_lo e ip")
    case True
    then have "reset_tbls e ip False (t # ts) s = reset_tbls e ip False ts s1" using t(2) s1(1) t1(2) id by (auto simp: tb1_def)
    then show ?thesis using s1(2,3) idx1 True by auto
  next
    case False
    have "set rs \<inter> set (rt_rules tb) = {}" using s1(6) False by simp
    then have "rt_rules tb1 = []" using Int_absorb2 [OF s1(5)] by (simp add: tb1_def)
    note i2 = drop_tbl_inv [OF rt_safeD(1) [OF s1(2)] t1 this]
    define s2 where "s2 = rt_id_remove (rt_id tb1) (drop_tbl ip t tb1 s1)"
    have safe2: "rt_safe e s2" unfolding s2_def
      by (rule rt_safe_bufs [OF s1(2) i2 bufs_trans [OF bufs_drop_tbl [OF t1(2)] bufs_fields(6)]])
    have sys: "rt_in_sys tb1 IPA_RULE_HASHABLE" using tok1 by (simp add: tbl_ok_def)
    note f = drop_tbl_fields [OF rt_safeD(1) [OF s1(2)] t1(1) sys, of "rt_id tb1", folded s2_def]
    have "reset_tbls e ip False (t # ts) s = reset_tbls e ip False ts s2" using t(2) s1(1) t1(2) id False by (auto simp: s2_def tb1_def)
    moreover have "map_option rt_idx (r_tbl s2 v) = map_option rt_idx (r_tbl s v)" for v
      using idx1 [of v] t1(2) by (cases "v = t") (simp_all add: f(2))
    ultimately show ?thesis using safe2 False by (auto simp: f(3) s1(3))
  qed
qed

lemma reset_all_tbls:
  assumes "rt_safe e s" "set ts \<subseteq> set (tbl_list s ip)" "distinct ts"
  shows "\<exists>s'. reset_tbls e ip False ts s = Some (OK, s') \<and> rt_safe e s' \<and> set (tbl_list s' ip) \<subseteq> set (tbl_list s ip) \<and>
    (\<forall>v. map_option rt_idx (r_tbl s' v) = map_option rt_idx (r_tbl s v)) \<and>
    (\<forall>v \<in> set ts. v \<in> set (tbl_list s' ip) \<longrightarrow> map_option rt_idx (r_tbl s v) = Some (x_apps_lo e ip)) \<and>
    (\<forall>v \<in> set (tbl_list s ip). map_option rt_idx (r_tbl s v) = Some (x_apps_lo e ip) \<longrightarrow> v \<in> set (tbl_list s' ip))"
  using assms
proof (induction ts arbitrary: s)
  case (Cons t ts)
  have t: "t \<in> set (tbl_list s ip)" using Cons.prems(2) by simp
  obtain tb where tb: "r_tbl s t = Some tb" using rt_invD(3) [OF rt_safeD(1) [OF Cons.prems(1)] t] by blast
  have dist: "distinct (tbl_list s ip)" using rt_invD(6) [OF rt_safeD(1) [OF Cons.prems(1)]] by (simp add: tbls_ok_def)
  obtain s2 where s2: "reset_tbls e ip False (t # ts) s = reset_tbls e ip False ts s2" "rt_safe e s2"
    "tbl_list s2 ip = (if rt_idx tb = x_apps_lo e ip then tbl_list s ip else remove1 t (tbl_list s ip))"
    "\<forall>v. map_option rt_idx (r_tbl s2 v) = map_option rt_idx (r_tbl s v)" using reset_one_tbl [OF Cons.prems(1) t tb] by blast
  have set2: "set (tbl_list s2 ip) = (if rt_idx tb = x_apps_lo e ip then set (tbl_list s ip) else set (tbl_list s ip) - {t})"
    using dist by (simp add: s2(3))
  have "set ts \<subseteq> set (tbl_list s2 ip)" "distinct ts" using Cons.prems(2,3) set2 by auto
  from Cons.IH [OF s2(2) this] obtain s' where s': "reset_tbls e ip False ts s2 = Some (OK, s')" "rt_safe e s'"
    "set (tbl_list s' ip) \<subseteq> set (tbl_list s2 ip)" "\<forall>v. map_option rt_idx (r_tbl s' v) = map_option rt_idx (r_tbl s2 v)"
    "\<forall>v \<in> set ts. v \<in> set (tbl_list s' ip) \<longrightarrow> map_option rt_idx (r_tbl s2 v) = Some (x_apps_lo e ip)"
    "\<forall>v \<in> set (tbl_list s2 ip). map_option rt_idx (r_tbl s2 v) = Some (x_apps_lo e ip) \<longrightarrow> v \<in> set (tbl_list s' ip)" by blast
  have "set (tbl_list s' ip) \<subseteq> set (tbl_list s ip)" using s'(3) set2 by (auto split: if_splits)
  moreover have "map_option rt_idx (r_tbl s' v) = map_option rt_idx (r_tbl s v)" for v using s'(4) s2(4) by simp
  moreover have "map_option rt_idx (r_tbl s v) = Some (x_apps_lo e ip)" if v: "v \<in> set (t # ts)" "v \<in> set (tbl_list s' ip)" for v
  proof (cases "v = t")
    case True
    then show ?thesis using v(2) s'(3) set2 tb by (auto split: if_splits)
  qed (use v s'(5) s2(4) in simp)
  moreover have "v \<in> set (tbl_list s' ip)" if v: "v \<in> set (tbl_list s ip)" "map_option rt_idx (r_tbl s v) = Some (x_apps_lo e ip)" for v
  proof -
    have "v \<in> set (tbl_list s2 ip)" using v tb by (auto simp: set2)
    then show ?thesis using s'(6) v(2) s2(4) by simp
  qed
  ultimately show ?case using s2(1) s'(1,2) by auto
qed auto

text \<open>
  C20: A full reset of a family from any reachable state returns and leaves exactly those tables
  of the family that sit at the first index of the driver, the place of the default table.
\<close>

lemma rt_reset_leaves_default:
  assumes "rt_reachable e0 s" "good_cfg e0" "same_cfg e0 e" and flt: "keeps_tbls e flt" and ip: "ip \<noteq> IPA_IP_MAX"
    and idx: "\<And>s0 t. flt ip False s = Some s0 \<Longrightarrow> map_option rt_idx (r_tbl s0 t) = map_option rt_idx (r_tbl s t)"
  shows "\<exists>r s'. ipa3_reset_rt e flt ip False s = Some (r, s') \<and> r \<in> {OK, Err EPERM} \<and>
    set (tbl_list s' ip) = {t \<in> set (tbl_list s ip). map_option rt_idx (r_tbl s t) = Some (x_apps_lo e ip)}"
proof -
  have safe: "rt_safe e s" using rt_reachable_safe [OF assms(1,2)] rt_safe_cfg [OF assms(3)] by blast
  obtain s0 where s0: "flt ip False s = Some s0" "rt_safe e s0" "tbl_list s0 = tbl_list s" using flt safe unfolding keeps_tbls_def by blast
  have dist: "distinct (tbl_list s0 ip)" using rt_invD(6) [OF rt_safeD(1) [OF s0(2)]] by (simp add: tbls_ok_def)
  obtain s1 where s1: "reset_tbls e ip False (tbl_list s0 ip) s0 = Some (OK, s1)" "rt_safe e s1" "set (tbl_list s1 ip) \<subseteq> set (tbl_list s0 ip)"
    "\<forall>v. map_option rt_idx (r_tbl s1 v) = map_option rt_idx (r_tbl s0 v)"
    "\<forall>v \<in> set (tbl_list s0 ip). v \<in> set (tbl_list s1 ip) \<longrightarrow> map_option rt_idx (r_tbl s0 v) = Some (x_apps_lo e ip)"
    "\<forall>v \<in> set (tbl_list s0 ip). map_option rt_idx (r_tbl s0 v) = Some (x_apps_lo e ip) \<longrightarrow> v \<in> set (tbl_list s1 ip)"
    using reset_all_tbls [OF s0(2) subset_refl dist] by blast
  obtain r4 s2 where s2: "commit_rt_v3 e IPA_IP_v4 s1 = Some (r4, s2)" "rt_safe e s2" "committed s1 s2"
    using commit_rt_ok [OF rt_safeD [OF s1(2)], of IPA_IP_v4] by (auto simp: rt_safe_def)
  obtain r6 s3 where s3: "commit_rt_v3 e IPA_IP_v6 s2 = Some (r6, s3)" "rt_safe e s3" "committed s2 s3"
    using commit_rt_ok [OF rt_safeD [OF s2(2)], of IPA_IP_v6] by (auto simp: rt_safe_def)
  have l: "tbl_list s3 = tbl_list s1" "tbl_list s2 = tbl_list s1" using s2(3) s3(3) by (simp_all add: committed_def)
  have "set (tbl_list s1 ip) = {t \<in> set (tbl_list s ip). map_option rt_idx (r_tbl s t) = Some (x_apps_lo e ip)}"
    using s1(3,5,6) idx [OF s0(1)] unfolding s0(3) by auto
  then show ?thesis using s0(1) s1(1) s2(1) s3(1) ip l by (auto simp: ipa3_reset_rt_def)
qed

lemma rt_reset_leaves_default_witness:
  "\<exists>r s'. ipa3_reset_rt demo_rt_env (\<lambda>ip u s. Some s) IPA_IP_v4 False demo_mixed = Some (r, s') \<and> r \<in> {OK, Err EPERM} \<and> tbl_list s' IPA_IP_v4 = []"
proof -
  have "rt_idx ((new_tbl demo_rt_env IPA_IP_v4 ''wan'' 9)\<lparr>rt_rules := [2, 3], rt_rule_cnt := 2, rt_id := 2\<rparr>) \<noteq> x_apps_lo demo_rt_env IPA_IP_v4"
    unfolding demo_env(9) by (simp add: new_tbl_def)
  then have none: "{t \<in> set (tbl_list demo_mixed IPA_IP_v4). map_option rt_idx (r_tbl demo_mixed t) = Some (x_apps_lo demo_rt_env IPA_IP_v4)} = {}"
    by (auto simp: demo_mixed_def demo_one_def demo_made_def)
  have flt: "keeps_tbls demo_rt_env (\<lambda>ip u s. Some s)" by (simp add: keeps_tbls_def)
  show ?thesis using rt_reset_leaves_default [OF demo_mixed_reachable demo_cfg flt, of IPA_IP_v4] unfolding none by simp
qed

text \<open>A table that gets no handle.\<close>

text \<open>
  C39: When a new table gets no handle the call fails and the tables look as before, but the
  index stays taken and the identifiers of all rules of the family are forgotten: the next rule
  gets identifier 1 although another rule may have it.
\<close>

lemma rt_failed_handle_forgets_ids:
  assumes "rt_reachable e0 s" "good_cfg e0" "same_cfg e0 e" "ip \<noteq> IPA_IP_MAX"
    and new: "ipa3_find_rt_tbl e ip name s = Some None" "x_alloc_tbl e (r_next s)" "\<not> x_id e (PTbl (r_next s))"
    and i: "first_free_idx (rt_idx_bitmap s ip) = Some i" "i \<le> max (x_modem_hi e ip) (x_apps_hi e ip)"
  shows "\<exists>s'. add_rt_tbl e ip name s = Some (None, s') \<and> rt_abs s' = rt_abs s \<and> r_rule s' = r_rule s \<and>
    \<not> bit (rt_idx_bitmap s ip) i \<and> bit (rt_idx_bitmap s' ip) i \<and> ipa3_alloc_rule_id True (rule_ids s' ip) = Some 1"
proof -
  have safe: "rt_safe e s" using rt_reachable_safe [OF assms(1,2)] rt_safe_cfg [OF assms(3)] by blast
  have none: "r_tbl s (r_next s) = None" using rt_invD(8) [OF rt_safeD(1) [OF safe]] by (simp add: rt_fresh_def)
  have idem: "(r_tbl s)(r_next s := None) = r_tbl s" using none by auto
  obtain err where a: "ipa3_id_alloc (x_id e (PTbl (r_next s))) (PTbl (r_next s)) (db_idr (hdb s)) = (Inl err, db_idr (hdb s))"
    using new(3) by (simp add: ipa3_id_alloc_def)
  define s' where "s' = s\<lparr>r_next := r_next s + 1, rt_idx_bitmap := (rt_idx_bitmap s)(ip := rt_idx_bitmap s ip OR bit_of i), rule_ids := (rule_ids s)(ip := [])\<rparr>"
  have free: "i < 32" "\<not> bit (rt_idx_bitmap s ip) i" using first_free_idx_ok(1) [OF i(1)] by simp_all
  have "add_rt_tbl e ip name s = Some (None, s')"
    using assms(4) new(1,2) i(1) a idem leD [OF i(2)] by (auto simp: add_rt_tbl_def Let_def set_idx_def s'_def fun_upd_idem_iff)
  moreover have "rt_abs s' = rt_abs s" by (simp add: rt_abs_def view_of_def item_of_def [abs_def] s'_def fun_eq_iff Let_def)
  ultimately show ?thesis using free by (simp add: s'_def demo_rid bit_of_def bit_or_iff bit_exp_iff)
qed

text \<open>In the demonstration the rule of the table that is there has the identifier that is given out next.\<close>

lemma rt_failed_handle_forgets_ids_witness:
  "\<exists>s'. add_rt_tbl demo_full_env IPA_IP_v4 ''lan'' demo_one = Some (None, s') \<and> rt_abs s' = rt_abs demo_one \<and> r_rule s' = [2 \<mapsto> demo_user_rule] \<and>
    re_rule_id demo_user_rule = 1 \<and> bit (rt_idx_bitmap s' IPA_IP_v4) 10 \<and> ipa3_alloc_rule_id True (rule_ids s' IPA_IP_v4) = Some 1"
proof -
  have f: "ipa3_find_rt_tbl demo_full_env IPA_IP_v4 ''lan'' demo_one = Some None" "rt_idx_bitmap demo_one IPA_IP_v4 = 0x3FF"
    using demo_wan(1) [of 9] live_tbl_not_freed [OF rt_safeD(1) [OF rt_reachable_safe [OF demo_one_reachable demo_cfg(1)]], of 1 IPA_IP_v4]
    by (simp_all add: ipa3_find_rt_tbl_def demo_one_def demo_made_def)
  have "[0..<32] = [0, 1, 2, 3, 4, 5, 6, 7, 8, 9, 10] @ [11..<32::nat]" by (simp add: upt_conv_Cons)
  then have i: "first_free_idx (rt_idx_bitmap demo_one IPA_IP_v4) = Some 10" by (simp add: f(2) first_free_idx_def IPA_RT_INDEX_BITMAP_SIZE_def)
  have e: "x_alloc_tbl demo_full_env (r_next demo_one)" "\<not> x_id demo_full_env (PTbl (r_next demo_one))"
      "10 \<le> max (x_modem_hi demo_full_env IPA_IP_v4) (x_apps_hi demo_full_env IPA_IP_v4)"
    by (simp_all add: demo_full_env_def demo_env)
  have r: "r_rule demo_one = [2 \<mapsto> demo_user_rule]" by (simp add: demo_one_def)
  show ?thesis
    using rt_failed_handle_forgets_ids [OF demo_one_reachable demo_cfg(1) demo_wan(6) _ f(1) e(1,2) i e(3)]
    unfolding r by (auto simp: demo_user_rule_def new_rule_def)
qed

end
