(* ===== verification/Spec2Isabelle.thy ===== *)
theory Spec2Isabelle
  imports Ipa_Prelude Ipa_Clk_Log Ipa_State Ipa_Clk Ipa_Tput Ipa_Pm Ipa_Pm_Inv Ipa_Pm_Props Ipa_Pm_Scaling Ipa_Idr Ipa_Hdr Ipa_Hdr_Ops Ipa_Hdr_Inv Ipa_Hdr_Safe Ipa_Hdr_Commit Ipa_Hdr_Props
    Ipa_Ecm Ipa_Pm_Client Ipa_Ecm_Props Ipa_Ecm_Power Ipa_Ecm_Headers
    Ipa_Rt Ipa_Rt_Ops Ipa_Rt_Refs Ipa_Rt_Inv Ipa_Rt_Safe Ipa_Rt_Commit Ipa_Rt_Calls Ipa_Rt_Props Ipa_Rt_View
begin

text \<open>
  The core of the IPA driver (IP accelerator) of the vendor kernel modules, verified: its clock
  reference count, its power manager, its handle database, its header tables, its routing tables and
  one of its network clients. Paths are relative to
  \<open>src/kernel/msm-5.4/techpack/dataipa/drivers/platform/msm/ipa/\<close>.

  \<^bold>\<open>The parts and how they interact.\<close> Every user of the hardware takes a vote on the clocks
  (\<open>IPA_ACTIVE_CLIENTS_INC\<close> and its relatives in \<open>ipa_v3/ipa.c\<close>); the clocks are enabled with the first
  vote and gated, by way of a tag process and of delayed works, with the last. The power manager
  (\<open>ipa_v3/ipa_pm.c\<close>) keeps clients that come and go, are activated and deactivated, and share that
  count: it votes for an active client, aggregates the throughput of the clients and selects the clock
  plan, which it hands back to \<open>ipa_v3/ipa.c\<close>. Packet headers live in tables of the hardware
  (\<open>ipa_v3/ipa_hdr.c\<close>), are named by handles (\<open>ipa3_id_alloc\<close> of \<open>ipa_v3/ipa_utils.c\<close>), and become
  effective with a commit. Routing tables (\<open>ipa_v3/ipa_rt.c\<close>) are named lists of rules for each family;
  a rule has a handle of the same database, may refer to a header or a header context whose reference
  count it raises, and a commit writes the rules to buffers that the hardware reads; a table that is
  dropped while the hardware may read it waits in a list of its own until the next commit. The reset of
  the headers resets the routing tables first. A network driver (\<open>ipa_clients/ecm_ipa.c\<close>) installs two headers at its start,
  registers with the power manager when the cable is connected, and asks it for the clocks with each
  packet.

  \<^bold>\<open>Theories and sources.\<close>
  \<^item> \<open>Ipa_Prelude\<close>: return codes (\<open>rc\<close>, \<open>errno\<close>), calls that may block (\<open>outcome\<close>), bits of a 32-bit
    mask, counting, C strings.
  \<^item> \<open>Ipa_Clk_Log\<close>: the active-clients log of \<open>ipa_v3/ipa.c\<close>, a ring buffer of lines and a hash table
    of clients; both with a refinement to what they stand for.
  \<^item> \<open>Ipa_State\<close>: the records of \<open>ipa_v3/ipa_i.h\<close> and \<open>ipa_v3/ipa_pm.c\<close> that the clock component and
    the power manager share. \<open>ipa\<close> is the driver's state with a trace of what it asks of the hardware
    (\<open>events\<close>) and of the faults it commits (\<open>faults\<close>); \<open>ipa_env\<close> are the answers of the kernel.
  \<^item> \<open>Ipa_Clk\<close>: the operations of \<open>ipa_v3/ipa.c\<close> on the count, one definition for each function, the
    invariant \<open>clk_inv\<close> (ghost count of votes against the counter, the clock vote and the trace), the
    locale of a clock with votes and its interpretation, and the draining of the queued works.
  \<^item> \<open>Ipa_Tput\<close>: \<open>calculate_throughput\<close> with its loop over the client array, against the aggregate of a
    multiset. \<open>Ipa_Pm_Scaling\<close>: \<open>do_clk_scaling\<close> against a reference level.
  \<^item> \<open>Ipa_Pm\<close>: every operation, work and debugfs text of \<open>ipa_v3/ipa_pm.c\<close>. \<open>Ipa_Pm_Inv\<close>: the
    invariant \<open>pm_inv\<close>, its preservation by every operation, and the step relations \<open>pm_own_step\<close> and
    \<open>other_step\<close> with \<open>pm_reachable\<close>. \<open>Ipa_Pm_Props\<close>: the properties. \<open>Ipa_Pm_Client\<close>: the power manager
    as a client sees it, the locale \<open>traffic_power\<close> with its interpretation on the client's slot.
  \<^item> \<open>Ipa_Idr\<close>: \<open>ipa3_id_alloc\<close>, \<open>ipa3_id_find\<close>, \<open>ipa3_id_remove\<close> over the documented behaviour of the
    kernel's IDR, as an interpretation of the locale \<open>handle_table\<close>.
  \<^item> \<open>Ipa_Hdr\<close> and \<open>Ipa_Hdr_Ops\<close>: \<open>ipa_v3/ipa_hdr.c\<close>. Objects live at addresses of a heap that gives no
    address out twice; following a NULL or dangling pointer or writing outside a buffer is the result
    \<open>None\<close>. \<open>Ipa_Hdr_Inv\<close>, \<open>Ipa_Hdr_Safe\<close>, \<open>Ipa_Hdr_Commit\<close>: the invariant \<open>hdr_inv\<close>, that every
    operation returns and keeps it on every way out, and the image of the table. \<open>Ipa_Hdr_Props\<close>: the
    locale \<open>safe_op\<close> of a batch member with four interpretations, histories (\<open>hdr_reachable\<close>), properties.
  \<^item> \<open>Ipa_Ecm\<close>: \<open>ipa_clients/ecm_ipa.c\<close> over the models above. \<open>Ipa_Ecm_Props\<close>: its state machine as a
    refinement of two switches. \<open>Ipa_Ecm_Power\<close>: its packets and the clocks, in histories that interleave
    the driver, its works, the other clients and the other users of the clocks (\<open>ecm_reachable\<close>).
    \<open>Ipa_Ecm_Headers\<close>: its headers between start and end.
  \<^item> \<open>Ipa_Rt\<close>: tables and rules of \<open>ipa_v3/ipa_rt.c\<close> and the operations on one of them. \<open>Ipa_Rt_Ops\<close>:
    priorities, image, commit, the calls on many rules, reset and start. The state \<open>rt_db\<close> contains the
    header tables as its field \<open>hdb\<close>; objects live on a heap as there.
  \<^item> \<open>Ipa_Rt_Refs\<close>: what the rules hold of the headers, as the locale \<open>ref_store\<close> with its interpretation on
    the header tables. \<open>Ipa_Rt_Inv\<close>: the invariant \<open>rt_inv\<close>. \<open>Ipa_Rt_Safe\<close>: that the operations on a rule
    return and keep it. \<open>Ipa_Rt_Commit\<close>: the image against the rules, the buffers of the hardware (\<open>hw_ok\<close>).
    \<open>Ipa_Rt_Calls\<close>: the locale \<open>rt_op\<close> of a member of a batch, the calls, and \<open>rt_reachable\<close>, the histories
    of routing and header calls. \<open>Ipa_Rt_Props\<close>: properties. \<open>Ipa_Rt_View\<close>: the tables as lists of named
    tables, which the operations refine, and what follows from it.

  \<^bold>\<open>How the code is represented.\<close> A function that takes a lock for its whole body is one step. Where the
  code drops the lock in between (\<open>ipa_pm_activate_sync\<close>), the two halves are separate steps. A work of a
  work queue is a flag of the state and a step that runs when the flag is set. A loop over an array is a
  recursion over its indices; the throughput loop is a function with a termination proof, no fuel is
  used in the model (the digits of a number are printed with one more step than its value, which the lemma
  \<open>show_digits_fuel\<close> shows to be enough). Reference counts, masks and counters of 32 bits are words; the
  throughput sums are wrapped to \<open>int\<close>. Answers of the kernel that the code acts on (allocation, DMA,
  the interconnect, the GSI, the commands) are fields of an environment and may differ in every step.

  \<^bold>\<open>What the properties show.\<close> Safety over all histories: the clocks run exactly as the votes say, clients
  of the power manager are consistent and nobody's vote is lost or consumed, headers never overlap and are
  never used after they were freed, a rule keeps its header alive, routing calls follow no dangling pointer
  and the hardware reads no freed buffer, packets never travel on gated clocks. Function: the throughput, the
  level, the selected exception, the committed images of headers and rules, the priorities of rules, the
  smallest free handle. Refinement: the throughput loop, the connection of the network driver, the edits of
  the routing tables. Round trips: registration
  and deregistration, addition and copy or deletion of headers, addition and deletion of rules, start and end of the network driver.
  Liveness: queued works gate the clocks, a queued activation completes and wakes the refused packet.
  The error properties are behaviours in which the code departs from what it means to do; the manifest
  lists them as findings with their places.

  \<^bold>\<open>Hypotheses.\<close> Properties over histories assume of the callers what their documentation asks:
  registered names fit the name field, a client that is being activated synchronously is not deregistered
  by another thread, memory and wake source are there when a client registers, a user of the header
  tables gives up only references of its own, no 32-bit count of references overflows, and user space alone
  is reset only while no routing table has rules of both user space and the kernel (what happens
  otherwise is a property of its own). Every hypothesis is a premise of a step rule or of the
  theorem, and each property with hypotheses is applied to a concrete run.

  \<^bold>\<open>Not modelled.\<close> The interface header of the driver (\<open>msm_ipa.h\<close>) is not in the repository: its constants
  and the layout of its structures are parameters (\<open>hdr_env\<close>), and a client number is compared with zero as an
  integer. The hardware formats behind \<open>ipahal\<close> (the bytes of one rule are a parameter of the
  image), the filtering tables (their commit and reset are parameters of the routing operations, as the
  commit and reset of both are of the header operations), the register of the tuple mask and the reading
  back of a table in \<open>ipa_v3/ipa_rt.c\<close>, the data path and the GSI, the microcontroller and the offload
  interfaces, the probe and the SMMU set-up are left out, as are the user-space message queue, debugfs
  writes and the other network clients. The audio, camera, display and video modules of the repository
  are drivers of other hardware without shared state with the IPA.
\<close>

end
